(* ===== verification/Prelude.thy ===== *)
theory Prelude
  imports Main "HOL-Library.Word" "HOL-Library.Monad_Syntax"
begin

text \<open>
  Shared vocabulary of the development: the machine types of the C sources, C arrays with
  checked accesses, C strings, and the generic lemmas the component theories use.

  Conventions.
  \<^item> A C function that may touch memory returns an \<^typ>\<open>'a option\<close>: \<^term>\<open>None\<close> stands for
    an access the C standard leaves undefined (an index outside the array, a null pointer
    dereferenced, a string without terminator) or, for a loop defined by a partial function,
    for not returning. Every theorem that says a function returns therefore also says that it
    performs no such access.
  \<^item> \<^verbatim>\<open>UCHAR\<close> and \<^verbatim>\<open>uint8_t\<close> are 8-bit words, \<^verbatim>\<open>USHORT\<close> is a 16-bit word,
    \<^verbatim>\<open>uint32_t\<close> a 32-bit word. Plain \<^verbatim>\<open>char\<close> is unsigned, as on the ARM target of the
    program. The signed \<^verbatim>\<open>short\<close> and \<^verbatim>\<open>int\<close> variables of the sources are integers: the
    sources keep them within a few thousand of zero.
\<close>

unbundle bit_operations_syntax

named_theorems cmem \<open>rewrite rules for checked memory accesses\<close>

subsection \<open>Error numbers\<close>

abbreviation "ENOENT \<equiv> (2::int)"
abbreviation "EIO \<equiv> (5::int)"
abbreviation "EACCES \<equiv> (13::int)"
abbreviation "EINVAL \<equiv> (22::int)"
abbreviation "ETIME \<equiv> (62::int)"

subsection \<open>Machine types\<close>

type_synonym byte = "8 word"
type_synonym u16 = "16 word"
type_synonym u32 = "32 word"

abbreviation i2b :: "int \<Rightarrow> byte" where
  "i2b \<equiv> word_of_int"

abbreviation b2i :: "byte \<Rightarrow> int" where
  "b2i \<equiv> uint"

definition bytes_of_string :: "string \<Rightarrow> byte list" where
  "bytes_of_string cs = map (\<lambda>c. word_of_nat (of_char c)) cs"

lemma length_bytes_of_string [simp]: "length (bytes_of_string cs) = length cs"
  by (simp add: bytes_of_string_def)

lemma b2i_bounds: "0 \<le> b2i b" "b2i b < 256"
  using uint_lt2p [of b] by simp_all

lemma uint_i2b_mod: "b2i (i2b i) = i mod 256"
  by (simp add: uint_word_of_int)

lemma b2i_i2b_id: "0 \<le> i \<Longrightarrow> i < 256 \<Longrightarrow> b2i (i2b i) = i"
  by (simp add: uint_i2b_mod)

lemma xor_right_cancel: "a XOR c = b XOR c \<longleftrightarrow> a = (b :: 'a::len word)"
proof
  assume "a XOR c = b XOR c"
  then have "(a XOR c) XOR c = (b XOR c) XOR c" by simp
  then show "a = b" by (simp only: xor.assoc xor_self_eq xor.right_neutral)
qed simp

lemma xor_left_cancel: "c XOR a = c XOR b \<longleftrightarrow> a = (b :: 'a::len word)"
  by (simp only: xor.commute [of c] xor_right_cancel)

subsection \<open>Arrays with checked indices\<close>

text \<open>
  A C array of \<^term>\<open>n\<close> elements is a function from indices, read and written through checks
  against \<^term>\<open>n\<close>.
\<close>

type_synonym 'a carray = "nat \<Rightarrow> 'a"

definition arr_get :: "nat \<Rightarrow> 'a carray \<Rightarrow> int \<Rightarrow> 'a option" where
  "arr_get n f i = (if 0 \<le> i \<and> i < int n then Some (f (nat i)) else None)"

definition arr_set :: "nat \<Rightarrow> 'a carray \<Rightarrow> int \<Rightarrow> 'a \<Rightarrow> 'a carray option" where
  "arr_set n f i v = (if 0 \<le> i \<and> i < int n then Some (f(nat i := v)) else None)"

lemma arr_get_in [cmem]: "0 \<le> i \<Longrightarrow> i < int n \<Longrightarrow> arr_get n f i = Some (f (nat i))"
  by (simp add: arr_get_def)

lemma arr_set_in [cmem]: "0 \<le> i \<Longrightarrow> i < int n \<Longrightarrow> arr_set n f i v = Some (f(nat i := v))"
  by (simp add: arr_set_def)

lemma arr_get_eq_Some: "arr_get n f i = Some x \<longleftrightarrow> 0 \<le> i \<and> i < int n \<and> x = f (nat i)"
  by (auto simp: arr_get_def)

lemma arr_set_eq_Some: "arr_set n f i v = Some g \<longleftrightarrow> 0 \<le> i \<and> i < int n \<and> g = f(nat i := v)"
  by (auto simp: arr_set_def)

text \<open>The same accesses on an array that is a list.\<close>

definition lst_get :: "'a list \<Rightarrow> nat \<Rightarrow> 'a option" where
  "lst_get xs i = (if i < length xs then Some (xs ! i) else None)"

definition lst_set :: "'a list \<Rightarrow> nat \<Rightarrow> 'a \<Rightarrow> 'a list option" where
  "lst_set xs i v = (if i < length xs then Some (xs[i := v]) else None)"

lemma lst_get_in [cmem]: "i < length xs \<Longrightarrow> lst_get xs i = Some (xs ! i)"
  by (simp add: lst_get_def)

lemma lst_get_out [cmem]: "length xs \<le> i \<Longrightarrow> lst_get xs i = None"
  by (simp add: lst_get_def)

lemma lst_set_in [cmem]: "i < length xs \<Longrightarrow> lst_set xs i v = Some (xs[i := v])"
  by (simp add: lst_set_def)

lemma lst_set_eq_Some: "lst_set xs i v = Some ys \<longleftrightarrow> i < length xs \<and> ys = xs[i := v]"
  by (auto simp: lst_set_def)

subsection \<open>C strings\<close>

text \<open>The bytes of an array before its first zero byte.\<close>

definition cstr :: "byte list \<Rightarrow> byte list" where
  "cstr xs = takeWhile (\<lambda>b. b \<noteq> 0) xs"

lemma cstr_Nil [simp]: "cstr [] = []"
  by (simp add: cstr_def)

lemma cstr_Cons [simp]: "cstr (x # xs) = (if x = 0 then [] else x # cstr xs)"
  by (simp add: cstr_def)

lemma cstr_no_zero: "0 \<notin> set (cstr xs)"
  by (induction xs) auto

lemma cstr_id: "0 \<notin> set xs \<Longrightarrow> cstr xs = xs"
  by (induction xs) auto

lemma cstr_append_zero: "0 \<notin> set xs \<Longrightarrow> cstr (xs @ 0 # ys) = xs"
  by (induction xs) auto

lemma length_cstr_le: "length (cstr xs) \<le> length xs"
  by (simp add: cstr_def length_takeWhile_le)

subsection \<open>Option monad\<close>

lemma bind_Some_iff: "(do {x \<leftarrow> m; f x}) = Some y \<longleftrightarrow> (\<exists>x. m = Some x \<and> f x = Some y)"
  by (cases m) auto

lemma bind_if_Some: "(do {x \<leftarrow> (if b then Some a else None); f x}) = (if b then f a else None)"
  by simp

end
