(* ===== verification/Crc32.thy ===== *)
theory Crc32
  imports Prelude
begin

text \<open>
  The CRC-32 that the directory listing reports as \<^verbatim>\<open>etag\<close>: \<^verbatim>\<open>src/libcrc32/libcrc32_file.c\<close>
  in the configuration the Makefile builds (\<^verbatim>\<open>CRCF_LIBC\<close>, \<^verbatim>\<open>CRCF_SOFT\<close>: both selector
  macros are undefined and so 0). A stdio stream on a regular file is its contents, a
  position, and the largest \<^verbatim>\<open>long\<close> of the platform; \<^verbatim>\<open>ftell\<close> and \<^verbatim>\<open>fseek\<close> fail on it where an offset does not
  fit into a \<^verbatim>\<open>long\<close>, and \<^verbatim>\<open>fread\<close> returns the bytes up to the end of the file. The DMA variant for the STM32 hardware is not built.
\<close>

subsection \<open>Streams\<close>

record cfile =
  f_data :: "byte list"
  f_pos :: nat
  f_long_max :: int

text \<open>\<^verbatim>\<open>ftell\<close>, \<^verbatim>\<open>fseek(file, 0, SEEK_END)\<close> and \<^verbatim>\<open>fseek(file, n, SEEK_SET)\<close>; the two seeks give \<^term>\<open>None\<close> where they fail.\<close>

definition ftell :: "cfile \<Rightarrow> int" where
  "ftell f = (if int (f_pos f) \<le> f_long_max f then int (f_pos f) else -1)"

definition fseek_end :: "cfile \<Rightarrow> cfile option" where
  "fseek_end f = (if int (length (f_data f)) \<le> f_long_max f then Some (f\<lparr>f_pos := length (f_data f)\<rparr>) else None)"

definition fseek_set :: "int \<Rightarrow> cfile \<Rightarrow> cfile option" where
  "fseek_set n f = (if n < 0 then None else Some (f\<lparr>f_pos := nat n\<rparr>))"

text \<open>The assignment of a \<^verbatim>\<open>long\<close> to an \<^verbatim>\<open>int\<close> keeps its low 32 bits.\<close>

definition to_int32 :: "int \<Rightarrow> int" where
  "to_int32 n = sint (word_of_int n :: u32)"

text \<open>
  \<^verbatim>\<open>CRCF_fsize\<close>, with the position it leaves. When the last seek fails, the code asks again for the position it has
  checked already, and returns the size.
\<close>

definition CRCF_fsize :: "cfile \<Rightarrow> u32 \<times> cfile" where
  "CRCF_fsize f =
     (let pos = to_int32 (ftell f)
      in if pos = -1 then (0, f)
         else case fseek_end f of None \<Rightarrow> (0, f)
         | Some g \<Rightarrow>
             (let end = to_int32 (ftell g)
              in if end = -1 then (0, g)
                 else case fseek_set pos g of Some h \<Rightarrow> (word_of_int end, h)
                 | None \<Rightarrow> if pos = -1 then (0, g) else (word_of_int end, g)))"

definition CRCF_fread :: "cfile \<Rightarrow> nat \<Rightarrow> byte list \<times> cfile" where
  "CRCF_fread f n =
     (let bs = take n (drop (f_pos f) (f_data f)) in (bs, f\<lparr>f_pos := f_pos f + length bs\<rparr>))"

text \<open>The offset is converted to a \<^verbatim>\<open>long\<close>, which may be a 32-bit number.\<close>

definition CRCF_fseek :: "cfile \<Rightarrow> u32 \<Rightarrow> int \<times> cfile" where
  "CRCF_fseek f ofs = (case fseek_set (if uint ofs \<le> f_long_max f then uint ofs else sint ofs) f of Some g \<Rightarrow> (0, g) | None \<Rightarrow> (1, f))"

subsection \<open>The table-driven CRC\<close>

definition crc_table :: "u32 list" where
  "crc_table =
    [0x00000000, 0x04C11DB7, 0x09823B6E, 0x0D4326D9, 0x130476DC, 0x17C56B6B, 0x1A864DB2, 0x1E475005,
     0x2608EDB8, 0x22C9F00F, 0x2F8AD6D6, 0x2B4BCB61, 0x350C9B64, 0x31CD86D3, 0x3C8EA00A, 0x384FBDBD]"

definition crc32_round :: "u32 \<Rightarrow> u32" where
  "crc32_round crc = push_bit 4 crc XOR crc_table ! unat (drop_bit 28 crc)"

definition Crc32Fast :: "u32 \<Rightarrow> u32 \<Rightarrow> u32" where
  "Crc32Fast crc dat =
     (let crc = crc XOR dat;
          crc = crc32_round crc; crc = crc32_round crc; crc = crc32_round crc; crc = crc32_round crc;
          crc = crc32_round crc; crc = crc32_round crc; crc = crc32_round crc; crc = crc32_round crc
      in crc)"

text \<open>Storing \<^term>\<open>bs\<close> at the address of the little-endian 32-bit variable \<^verbatim>\<open>cache\<close>.\<close>

fun le_word :: "byte list \<Rightarrow> u32" where
  "le_word [] = 0"
| "le_word (b # bs) = ucast b OR push_bit 8 (le_word bs)"

definition store_le :: "u32 \<Rightarrow> byte list \<Rightarrow> u32" where
  "store_le cache bs =
     (cache AND NOT (mask (8 * length bs))) OR le_word bs"

text \<open>
  The word loop of \<^verbatim>\<open>CRCF_calc_crc_soft\<close>; the result is the return code, the stream, the
  variable \<^verbatim>\<open>cache\<close> and \<^verbatim>\<open>*crc\<close>.
\<close>

fun calc_crc_loop :: "nat \<Rightarrow> cfile \<Rightarrow> u32 \<Rightarrow> u32 \<Rightarrow> int \<times> cfile \<times> u32 \<times> u32" where
  "calc_crc_loop 0 f cache crc = (0, f, cache, crc)"
| "calc_crc_loop (Suc n) f cache crc =
     (let (bs, f) = CRCF_fread f 4; cache = store_le cache bs
      in if length bs \<noteq> 4 then (EIO, f, cache, crc)
         else calc_crc_loop n f cache (Crc32Fast crc cache))"

definition CRCF_calc_crc_soft :: "cfile \<Rightarrow> u32 \<Rightarrow> u32 \<Rightarrow> u32 \<Rightarrow> int \<times> cfile \<times> u32" where
  "CRCF_calc_crc_soft f start len crc =
     (let (ffsize, f) = CRCF_fsize f
      in if ffsize = 0 then (ENOENT, f, crc)
         else if start \<ge> ffsize \<or> len > ffsize \<or> start mod 4 \<noteq> 0 then (EINVAL, f, crc)
         else
           let (ret, f) = CRCF_fseek f start
           in if ret \<noteq> 0 then (ret, f, 0xffffffff)
              else
                let fsize = (if len \<noteq> 0 then len else ffsize - start);
                    (ret, f, cache, crc) = calc_crc_loop (unat (drop_bit 2 fsize)) f 0 0xffffffff
                in if ret \<noteq> 0 then (ret, f, crc)
                   else if fsize mod 4 \<noteq> 0 then
                     let m = unat (fsize mod 4);
                         (bs, f) = CRCF_fread f m;
                         cache = store_le cache bs
                     in if length bs \<noteq> m then (EIO, f, crc)
                        else
                          let cache = push_bit (8 * (4 - m)) cache;
                              cache = cache OR drop_bit (8 * m) 0xffffffff
                          in (0, f, Crc32Fast crc cache)
                   else (0, f, crc))"

definition CRCF_calc_crc :: "cfile \<Rightarrow> u32 \<Rightarrow> u32 \<Rightarrow> u32 \<Rightarrow> int \<times> cfile \<times> u32" where
  "CRCF_calc_crc f start len crc = CRCF_calc_crc_soft f start len crc"

subsection \<open>The bitwise reference\<close>

text \<open>
  Division by the generator polynomial \<^verbatim>\<open>0x04C11DB7\<close>, most significant bit first, one bit at
  a time.
\<close>

definition crc_bit :: "u32 \<Rightarrow> u32" where
  "crc_bit c = push_bit 1 c XOR (if bit c 31 then 0x04C11DB7 else 0)"

definition crc32_word :: "u32 \<Rightarrow> u32 \<Rightarrow> u32" where
  "crc32_word crc dat = (crc_bit ^^ 32) (crc XOR dat)"

text \<open>The 32-bit words of a file: little-endian, the last one left-aligned and padded with ones.\<close>

definition tail_word :: "byte list \<Rightarrow> u32" where
  "tail_word bs = push_bit (8 * (4 - length bs)) (le_word bs) OR mask (8 * (4 - length bs))"

fun file_words :: "byte list \<Rightarrow> u32 list" where
  "file_words [] = []"
| "file_words (a # b # c # d # bs) = le_word [a, b, c, d] # file_words bs"
| "file_words bs = [tail_word bs]"

definition crc32_file :: "byte list \<Rightarrow> u32" where
  "crc32_file bs = foldl crc32_word 0xffffffff (file_words bs)"

subsection \<open>Equivalence\<close>

lemma crc_bit_xor: "crc_bit (a XOR b) = crc_bit a XOR crc_bit b"
  by (simp add: crc_bit_def bit_simps push_bit_xor xor.assoc xor.left_commute)

lemma crc_bit_pow_xor: "(crc_bit ^^ n) (a XOR b) = (crc_bit ^^ n) a XOR (crc_bit ^^ n) b"
  by (induction n) (simp_all add: crc_bit_xor)

lemma crc_bit_pow_low:
  "\<forall>i \<ge> 32 - n. \<not> bit c i \<Longrightarrow> n \<le> 32 \<Longrightarrow> (crc_bit ^^ n) c = push_bit n c"
proof (induction n arbitrary: c)
  case 0
  then show ?case by simp
next
  case (Suc n)
  have "\<not> bit c 31" using Suc.prems by simp
  then have c1: "crc_bit c = push_bit 1 c" by (simp add: crc_bit_def)
  have "\<not> bit (push_bit 1 c) i" if "32 - n \<le> i" for i
    using Suc.prems that by (auto simp only: bit_push_bit_iff)
  moreover have "n \<le> 32" using Suc.prems by simp
  ultimately have "(crc_bit ^^ n) (push_bit 1 c) = push_bit n (push_bit 1 c)"
    using Suc.IH by blast
  then show ?case using c1 by (simp add: funpow_swap1 push_bit_push_bit del: push_bit_of_1)
qed

lemma crc_bit_top_nibble:
  assumes "n < 16"
  shows "(crc_bit ^^ 4) (push_bit 28 (word_of_nat n)) = crc_table ! n"
proof -
  have "list_all (\<lambda>n. (crc_bit ^^ 4) (push_bit 28 (word_of_nat n)) = crc_table ! n) [0..<16]"
    by code_simp
  with assms show ?thesis by (simp add: list_all_iff)
qed

lemma crc_bit_4: "(crc_bit ^^ 4) c = crc32_round c"
proof -
  let ?n = "unat (drop_bit 28 c)"
  have "unat c < 2 ^ LENGTH(32)" by (rule unsigned_less)
  then have "unat c < 16 * 2 ^ 28" by simp
  then have n: "?n < 16"
    by (subst unat_drop_bit_eq) (simp only: drop_bit_eq_div less_mult_imp_div_less)
  have split: "c = push_bit 28 (word_of_nat ?n) XOR take_bit 28 c"
    by (rule bit_word_eqI) (auto simp: bit_simps)
  have "(crc_bit ^^ 4) c = crc_table ! ?n XOR (crc_bit ^^ 4) (take_bit 28 c)"
    using crc_bit_top_nibble [OF n] by (subst split) (simp only: crc_bit_pow_xor)
  also have "(crc_bit ^^ 4) (take_bit 28 c) = push_bit 4 (take_bit 28 c)"
    by (rule crc_bit_pow_low) (simp_all add: bit_simps)
  also have "push_bit 4 (take_bit 28 c) = push_bit 4 c"
    by (rule bit_word_eqI) (auto simp: bit_simps)
  finally show ?thesis by (simp add: crc32_round_def xor.commute)
qed

lemma Crc32Fast_rounds: "Crc32Fast crc dat = (crc32_round ^^ 8) (crc XOR dat)"
  by (simp add: Crc32Fast_def numeral_eq_Suc)

lemma Crc32Fast_word: "Crc32Fast crc dat = crc32_word crc dat"
proof -
  have "crc32_round ^^ 8 = (crc_bit ^^ 4) ^^ 8"
    by (rule arg_cong [where f = "\<lambda>g. g ^^ 8"]) (rule ext, simp only: crc_bit_4)
  also have "\<dots> = crc_bit ^^ (4 * 8)"
    by (rule ext) (simp only: funpow_mult mult.commute)
  finally have "crc32_round ^^ 8 = crc_bit ^^ 32" by simp
  then show ?thesis by (simp only: Crc32Fast_rounds crc32_word_def)
qed

lemma store_le_4: "length bs = 4 \<Longrightarrow> store_le cache bs = le_word bs"
  by (rule bit_word_eqI) (simp add: store_le_def bit_simps)

lemma CRCF_fread_in:
  "f_pos f + n \<le> length (f_data f) \<Longrightarrow>
   CRCF_fread f n = (take n (drop (f_pos f) (f_data f)), f\<lparr>f_pos := f_pos f + n\<rparr>)"
  by (simp add: CRCF_fread_def Let_def min_def)

text \<open>The words of the \<^term>\<open>n\<close> whole groups of four bytes of a list.\<close>

fun full_words :: "nat \<Rightarrow> byte list \<Rightarrow> u32 list" where
  "full_words 0 bs = []"
| "full_words (Suc n) bs = le_word (take 4 bs) # full_words n (drop 4 bs)"

lemma calc_crc_loop_ok:
  "f_pos f + 4 * n \<le> length (f_data f) \<Longrightarrow>
   \<exists>cache'. calc_crc_loop n f cache crc =
     (0, f\<lparr>f_pos := f_pos f + 4 * n\<rparr>, cache',
      foldl crc32_word crc (full_words n (drop (f_pos f) (f_data f))))"
proof (induction n arbitrary: f cache crc)
  case 0
  then show ?case by simp
next
  case (Suc n)
  let ?bs = "take 4 (drop (f_pos f) (f_data f))" and ?f = "f\<lparr>f_pos := f_pos f + 4\<rparr>"
  have r: "CRCF_fread f 4 = (?bs, ?f)"
    using Suc.prems by (intro CRCF_fread_in) simp
  have l: "length ?bs = 4" using Suc.prems by simp
  from Suc.prems have "f_pos ?f + 4 * n \<le> length (f_data ?f)" by simp
  from Suc.IH [OF this, of "le_word ?bs" "crc32_word crc (le_word ?bs)"] r l show ?case
    by (auto simp: store_le_4 Crc32Fast_word drop_drop algebra_simps)
qed

lemma file_words_full:
  "length bs < 4 \<Longrightarrow> file_words bs = (if bs = [] then [] else [tail_word bs])"
  by (cases bs rule: file_words.cases) auto

lemma file_words_4: "4 \<le> length bs \<Longrightarrow> file_words bs = le_word (take 4 bs) # file_words (drop 4 bs)"
  by (cases bs rule: file_words.cases) auto

lemma file_words_split:
  "4 * n \<le> length bs \<Longrightarrow> file_words bs = full_words n bs @ file_words (drop (4 * n) bs)"
proof (induction n arbitrary: bs)
  case 0
  then show ?case by simp
next
  case (Suc n)
  then have "file_words (drop 4 bs) = full_words n (drop 4 bs) @ file_words (drop (4 * n) (drop 4 bs))"
    by (intro Suc.IH) simp
  with Suc.prems show ?case by (simp add: file_words_4 add.commute)
qed

lemma tail_cache:
  assumes "length bs = m" and "0 < m" and "m < 4"
  shows "push_bit (8 * (4 - m)) (store_le cache bs) OR drop_bit (8 * m) 0xffffffff = tail_word bs"
proof (rule bit_word_eqI)
  fix n :: nat assume "n < LENGTH(32)"
  moreover have ones: "(0xffffffff :: u32) = - 1" by simp
  ultimately show "bit (push_bit (8 * (4 - m)) (store_le cache bs) OR drop_bit (8 * m) 0xffffffff) n
    \<longleftrightarrow> bit (tail_word bs) n"
    using assms unfolding ones by (auto simp: store_le_def tail_word_def bit_simps)
qed

lemma unat_mod4: "unat (w mod 4 :: u32) = unat w mod 4"
  by (simp add: unat_mod)

lemma unat_div4: "unat (drop_bit 2 (w :: u32)) = unat w div 4"
  by (subst unat_drop_bit_eq) (simp add: drop_bit_eq_div)

subsection \<open>Properties\<close>

text \<open>
  C9. The eight table look-ups of \<^verbatim>\<open>Crc32Fast\<close> compute, for every register and data word, the
  same value as thirty-two single-bit division steps by the polynomial \<^verbatim>\<open>0x04C11DB7\<close>.
\<close>

theorem Crc32Fast_bitwise: "Crc32Fast crc dat = crc32_word crc dat"
  by (rule Crc32Fast_word)

text \<open>The size of a file that is smaller than 2 GiB.\<close>

lemma fsize_ok:
  assumes "length (f_data f) < 2 ^ 31" and "f_pos f \<le> length (f_data f)" and "2 ^ 31 - 1 \<le> f_long_max f"
  shows "CRCF_fsize f = (word_of_nat (length (f_data f)), f)"
proof -
  have t: "to_int32 (int n) = int n" if "n < 2 ^ 31" for n
  proof -
    have "uint (word_of_nat n :: u32) = int n" using that by (simp add: uint_nat unat_of_nat)
    then show ?thesis using that by (simp add: to_int32_def sint_uint signed_take_bit_int_eq_self)
  qed
  have "int (length (f_data f)) < 2147483648" using assms(1) by simp
  then have le: "int (length (f_data f)) \<le> f_long_max f" "int (f_pos f) \<le> f_long_max f" using assms(2,3) by auto
  have "f_pos f < 2 ^ 31" using assms by linarith
  then show ?thesis using assms(1) t le by (simp add: CRCF_fsize_def ftell_def fseek_end_def fseek_set_def)
qed

text \<open>A file whose size does not fit into a \<^verbatim>\<open>long\<close> is reported as missing.\<close>

lemma CRCF_calc_crc_too_long: "f_long_max f < int (length (f_data f)) \<Longrightarrow> CRCF_calc_crc f start len crc = (ENOENT, f, crc)"
proof -
  assume "f_long_max f < int (length (f_data f))"
  then have "CRCF_fsize f = (0, f)" by (simp add: CRCF_fsize_def fseek_end_def Let_def)
  then show ?thesis by (simp add: CRCF_calc_crc_def CRCF_calc_crc_soft_def)
qed

text \<open>
  C8. For every non-empty file shorter than 2 GiB, on every platform (a \<^verbatim>\<open>long\<close> has 32 bits or more), \<^verbatim>\<open>CRCF_calc_crc(file, 0, 0, &crc)\<close> returns 0
  and stores the reference CRC of the whole file, its last partial word padded with one bits.
\<close>

theorem CRCF_calc_crc_whole_file:
  assumes ne: "f_data f \<noteq> []" and lt31: "length (f_data f) < 2 ^ 31" and pos: "f_pos f \<le> length (f_data f)" and long: "2 ^ 31 - 1 \<le> f_long_max f"
  shows "\<exists>f'. CRCF_calc_crc f 0 0 crc = (0, f', crc32_file (f_data f))"
proof -
  let ?d = "f_data f" and ?f = "f\<lparr>f_pos := 0\<rparr>" and ?l = "length (f_data f)"
  let ?n = "?l div 4" and ?m = "?l mod 4"
  let ?sz = "word_of_nat ?l :: u32"
  have lt: "?l < 2 ^ 32" using lt31 by simp
  have fz: "CRCF_fsize f = (?sz, f)" by (rule fsize_ok [OF lt31 pos long])
  have sk: "CRCF_fseek f 0 = (0, ?f)" using long by (simp add: CRCF_fseek_def fseek_set_def)
  have sz: "unat ?sz = ?l" using lt by (simp add: unat_of_nat)
  then have sz0: "?sz \<noteq> 0" using ne by auto
  have m: "unat (?sz mod 4) = ?m" and n: "unat (drop_bit 2 ?sz) = ?n"
    using sz by (simp_all only: unat_mod4 unat_div4)
  obtain cache where loop: "calc_crc_loop ?n ?f 0 0xffffffff =
      (0, f\<lparr>f_pos := 4 * ?n\<rparr>, cache, foldl crc32_word 0xffffffff (full_words ?n ?d))"
    using calc_crc_loop_ok [of ?f ?n, where cache = 0 and crc = "0xffffffff"] by (auto simp: div_times_less_eq_dividend)
  have split: "file_words ?d = full_words ?n ?d @ file_words (drop (4 * ?n) ?d)"
    by (rule file_words_split) simp
  have rest: "length (drop (4 * ?n) ?d) = ?m" by (simp add: minus_mult_div_eq_mod)
  show ?thesis
  proof (cases "?m = 0")
    case True
    then have "?sz mod 4 = 0" using m by (simp add: unat_eq_0)
    moreover have "drop (4 * ?n) ?d = []" using rest True by simp
    ultimately show ?thesis
      using loop sz0 n split
      by (simp add: CRCF_calc_crc_def CRCF_calc_crc_soft_def fz sk Let_def
          crc32_file_def word_less_nat_alt)
  next
    case False
    then have "?sz mod 4 \<noteq> 0" using m by (metis unat_0)
    moreover have rd: "CRCF_fread (f\<lparr>f_pos := 4 * ?n\<rparr>) ?m =
        (drop (4 * ?n) ?d, f\<lparr>f_pos := 4 * ?n + ?m\<rparr>)"
      using rest by (subst CRCF_fread_in) simp_all
    moreover have "file_words (drop (4 * ?n) ?d) = [tail_word (drop (4 * ?n) ?d)]"
      using rest False by (subst file_words_full) auto
    moreover note tail_cache [OF rest, of cache]
    ultimately show ?thesis
      using loop sz0 n m split rest False
      by (simp add: CRCF_calc_crc_def CRCF_calc_crc_soft_def fz sk Let_def
          crc32_file_def word_less_nat_alt Crc32Fast_word)
  qed
qed

theorem CRCF_calc_crc_whole_file_witness:
  "\<exists>f'. CRCF_calc_crc \<lparr>f_data = [1, 2, 3, 4, 5], f_pos = 0, f_long_max = 0x7FFFFFFF\<rparr> 0 0 0
     = (0, f', crc32_file [1, 2, 3, 4, 5])"
  using CRCF_calc_crc_whole_file [of "\<lparr>f_data = [1, 2, 3, 4, 5], f_pos = 0, f_long_max = 0x7FFFFFFF\<rparr>" 0] by simp

end
