(* ===== verification/Kermit_Base.thy ===== *)
theory Kermit_Base
  imports Prelude
begin

text \<open>
  The data model of the Kermit engine: \<^verbatim>\<open>inc/libe_kermit/kermit.h\<close>. The control structure
  \<^verbatim>\<open>struct k_data\<close> and the response structure \<^verbatim>\<open>struct k_response\<close>, which every routine of
  \<^verbatim>\<open>kermit.c\<close> receives together, are one extensible record. Their byte arrays live in an explicit
  store, because the engine keeps pointers into them (\<^verbatim>\<open>k->xdata\<close>, \<^verbatim>\<open>k->istring\<close>,
  \<^verbatim>\<open>k->filename\<close>, \<^verbatim>\<open>r->arg\<close>) that alias one another. The function pointers of
  \<^verbatim>\<open>struct k_data\<close> are a record of operations that transform the state; \<^verbatim>\<open>'w\<close> is the state of
  the devices behind them. Fields that only the debugging build or nobody reads are left out
  (\<^verbatim>\<open>version\<close>, \<^verbatim>\<open>remote\<close>, \<^verbatim>\<open>baud\<close>, \<^verbatim>\<open>send_pause_us\<close> and the unused counters).
\<close>

subsection \<open>Constants\<close>

abbreviation "P_WSLOTS \<equiv> (1::nat)"
abbreviation "P_PKTLEN \<equiv> (1000::nat)"
abbreviation "P_BUFLEN \<equiv> (1008::nat)"
abbreviation "FN_MAX \<equiv> (13::nat)"
abbreviation "DN_MAX \<equiv> (2::nat)"
abbreviation "IBUFLEN \<equiv> (512::nat)"
abbreviation "OBUFLEN \<equiv> (512::nat)"
abbreviation "IDATALEN \<equiv> (32::nat)"
abbreviation "DATE_MAX \<equiv> (20::nat)"
abbreviation "K_ROOTPATH_LEN \<equiv> (100::nat)"
abbreviation "K_DIR_LEN \<equiv> (302::nat)"
abbreviation "P_S_TIMO \<equiv> (1::int)"
abbreviation "P_R_TIMO \<equiv> (1::int)"
abbreviation "P_RETRY \<equiv> (3::int)"

abbreviation "PACKET_START \<equiv> (0x13::byte)"
abbreviation "PACKET_END \<equiv> (0x0D::byte)"
abbreviation "PREFIX_CTRL \<equiv> (0x23::byte)"
abbreviation "PREFIX_REPEAT \<equiv> (0xCC::byte)"
abbreviation "SP \<equiv> (0x20::byte)"
abbreviation "DC3 \<equiv> (0x13::byte)"

abbreviation "CAP_LP \<equiv> (2::u16)"
abbreviation "CAP_SW \<equiv> (4::u16)"
abbreviation "CAP_AT \<equiv> (8::u16)"
abbreviation "CAP_RS \<equiv> (16::u16)"
abbreviation "CAP_LS \<equiv> (32::u16)"

abbreviation "A_WAIT \<equiv> (1::int)"
abbreviation "A_SEND \<equiv> (2::int)"
abbreviation "A_GET \<equiv> (3::int)"
abbreviation "A_DIR \<equiv> (4::int)"

abbreviation "R_ERROR \<equiv> (-1::int)"
abbreviation "R_NONE \<equiv> (0::int)"
abbreviation "R_WAIT \<equiv> (1::int)"
abbreviation "R_FILE \<equiv> (2::int)"
abbreviation "R_ATTR \<equiv> (3::int)"
abbreviation "R_DATA \<equiv> (4::int)"
abbreviation "S_INIT \<equiv> (11::int)"
abbreviation "S_FILE \<equiv> (12::int)"
abbreviation "S_ATTR \<equiv> (13::int)"
abbreviation "S_DATA \<equiv> (14::int)"
abbreviation "S_EOF \<equiv> (15::int)"
abbreviation "S_EOT \<equiv> (16::int)"
abbreviation "S_TEXT \<equiv> (18::int)"

abbreviation "W_SEND \<equiv> (1::int)"
abbreviation "W_RECV \<equiv> (2::int)"
abbreviation "W_GET \<equiv> (3::int)"
abbreviation "W_DIR \<equiv> (4::int)"

abbreviation "X_ERROR \<equiv> (-1::int)"
abbreviation "X_OK \<equiv> (0::int)"
abbreviation "X_DONE \<equiv> (3::int)"
abbreviation "X_STATUS \<equiv> (4::int)"

abbreviation "K_SUCCESS \<equiv> (0::int)"
abbreviation "K_FAILURE \<equiv> (1::int)"
abbreviation "K_TIMEOUT \<equiv> (2::int)"
abbreviation "K_END \<equiv> (3::int)"
abbreviation "K_ERROR_CODE \<equiv> (5::int)"

abbreviation "I_GROUP \<equiv> (2::int)"

text \<open>Packet type letters.\<close>

abbreviation "T_A \<equiv> (0x41::byte)"
abbreviation "T_B \<equiv> (0x42::byte)"
abbreviation "T_D \<equiv> (0x44::byte)"
abbreviation "T_E \<equiv> (0x45::byte)"
abbreviation "T_F \<equiv> (0x46::byte)"
abbreviation "T_G \<equiv> (0x47::byte)"
abbreviation "T_N \<equiv> (0x4E::byte)"
abbreviation "T_R \<equiv> (0x52::byte)"
abbreviation "T_S \<equiv> (0x53::byte)"
abbreviation "T_X \<equiv> (0x58::byte)"
abbreviation "T_Y \<equiv> (0x59::byte)"
abbreviation "T_Z \<equiv> (0x5A::byte)"

subsection \<open>Character macros\<close>

definition tochar :: "int \<Rightarrow> byte" where
  "tochar ch = i2b ch + SP"

definition xunchar :: "byte \<Rightarrow> int" where
  "xunchar ch = b2i (ch - SP)"

definition torepeat :: "int \<Rightarrow> byte" where
  "torepeat ch = i2b ch + DC3"

definition xunrepeat :: "byte \<Rightarrow> int" where
  "xunrepeat ch = b2i (ch - DC3)"

definition ctl :: "byte \<Rightarrow> byte" where
  "ctl ch = ch XOR 64"

lemma ctl_ctl [simp]: "ctl (ctl b) = b"
  by (simp add: ctl_def xor.assoc)

lemma xunchar_tochar: "xunchar (tochar n) = n mod 256"
  by (simp add: xunchar_def tochar_def uint_i2b_mod)

lemma xunrepeat_torepeat: "xunrepeat (torepeat n) = n mod 256"
  by (simp add: xunrepeat_def torepeat_def uint_i2b_mod)

lemma xunchar_bounds: "0 \<le> xunchar b" "xunchar b < 256"
  by (simp_all add: xunchar_def b2i_bounds)

lemma uint_tochar: "0 \<le> n \<Longrightarrow> n < 224 \<Longrightarrow> uint (tochar n) = n + 32"
  by (simp add: tochar_def uint_word_ariths uint_i2b_mod)

lemma tochar_no_control:
  assumes "0 \<le> n" and "n < 224"
  shows "tochar n \<noteq> 0" "tochar n \<noteq> PACKET_START" "tochar n \<noteq> PACKET_END"
  using uint_tochar [OF assms] assms by auto

subsection \<open>The store\<close>

text \<open>
  One constructor per byte array of the two structures. \<^verbatim>\<open>IPKTBUFS\<close> and \<^verbatim>\<open>OPKTBUF\<close> hold the
  window slots' packets, \<^verbatim>\<open>OBUF\<close> and \<^verbatim>\<open>ZINBUF\<close> are the file buffers \<^verbatim>\<open>o_buf\<close> and
  \<^verbatim>\<open>i_buf\<close> of \<^verbatim>\<open>libe-kermit.c\<close>.
\<close>

datatype kbuf = IPKTBUF | IPKTBUFS | OPKTBUF | XDATABUF | ACK_S | S_REMAIN | OBUF | ZINBUF
  | ROOTPATH | DIRNAME | R_FILENAME | R_FILEDATE | R_DIR

fun bufsz :: "kbuf \<Rightarrow> nat" where
  "bufsz IPKTBUF = P_BUFLEN"
| "bufsz IPKTBUFS = P_BUFLEN * P_WSLOTS"
| "bufsz OPKTBUF = P_BUFLEN * P_WSLOTS"
| "bufsz XDATABUF = P_PKTLEN + 2"
| "bufsz ACK_S = IDATALEN"
| "bufsz S_REMAIN = 6"
| "bufsz OBUF = OBUFLEN + 8"
| "bufsz ZINBUF = IBUFLEN + 8"
| "bufsz ROOTPATH = K_ROOTPATH_LEN"
| "bufsz DIRNAME = DN_MAX"
| "bufsz R_FILENAME = FN_MAX"
| "bufsz R_FILEDATE = DATE_MAX"
| "bufsz R_DIR = K_DIR_LEN"

text \<open>
  A \<^verbatim>\<open>UCHAR *\<close>: null, a position in one of the arrays, or a read-only string of the program
  or of the caller.
\<close>

datatype kptr = Null | Ptr kbuf int | Lit "byte list"

fun padd :: "kptr \<Rightarrow> int \<Rightarrow> kptr" where
  "padd Null i = Null"
| "padd (Ptr b n) i = Ptr b (n + i)"
| "padd (Lit bs) i = Lit (drop (nat i) bs)"

definition lit :: "string \<Rightarrow> kptr" where
  "lit cs = Lit (bytes_of_string cs)"

subsection \<open>The structures\<close>

record packet =
  p_len :: int
  p_seq :: int
  p_typ :: byte
  p_rtr :: int
  p_dat :: kptr
  p_crc :: u16
  p_flg :: int
  p_buf :: kptr

record k_data =
  k_xfermode :: int
  k_binary :: int
  k_state :: int
  k_what :: int
  k_s_first :: int
  k_s_seq :: int
  k_s_cnt :: int
  k_r_seq :: int
  k_s_type :: int
  k_r_type :: int
  k_s_soh :: int
  k_r_soh :: int
  k_s_eom :: int
  k_r_eom :: int
  k_size :: int
  k_osize :: int
  k_r_timo :: int
  k_s_timo :: int
  k_r_maxlen :: int
  k_s_maxlen :: int
  k_p_maxlen :: int
  k_wslots_max :: int
  k_wslots :: int
  k_parity :: int
  k_retry :: int
  k_cancel :: int
  k_ikeep :: int
  k_s_ctlq :: byte
  k_r_ctlq :: byte
  k_ebq :: byte
  k_ebqflg :: int
  k_rptq :: byte
  k_s_rpt :: int
  k_rptflg :: int
  k_bct :: int
  k_bcta3 :: int
  k_capas :: u16
  k_crcta :: "u16 carray"
  k_crctb :: "u16 carray"
  k_ipktinfo :: "packet carray"
  k_opktinfo :: "packet carray"
  k_opktlen :: int
  k_xdata :: kptr
  k_r_pw :: "int carray"
  k_s_pw :: "int carray"
  k_obuflen :: int
  k_obufpos :: int
  k_filelist :: "kptr list option"
  k_filename :: kptr
  k_istring :: kptr
  k_zincnt :: int
  k_zinlen :: int
  k_zinptr :: kptr
  k_sw_full :: int
  k_do_rxd :: int
  k_cgetpkt :: int
  k_anseq :: int
  k_nresend :: int
  k_nsnak :: int
  k_dummy :: int
  k_recvdir :: int
  k_recvget :: int

record k_resp = k_data +
  r_rstatus :: int
  r_filesize :: int
  r_sofar :: int
  r_sofar_rumor :: int
  r_arg :: kptr
  r_type :: int

record 'w kst = k_resp +
  mem :: "kbuf \<Rightarrow> byte carray"
  wd :: 'w

text \<open>The structures after \<^verbatim>\<open>memset\<close> to zero, as \<^verbatim>\<open>_EK_init\<close> and the loader leave them.\<close>

definition packet_zero :: packet where
  "packet_zero = \<lparr>p_len = 0, p_seq = 0, p_typ = 0, p_rtr = 0, p_dat = Null, p_crc = 0, p_flg = 0,
     p_buf = Null\<rparr>"

definition k_zero :: "'w \<Rightarrow> 'w kst" where
  "k_zero w = \<lparr>
    k_xfermode = 0, k_binary = 0, k_state = 0, k_what = 0, k_s_first = 0, k_s_seq = 0,
    k_s_cnt = 0, k_r_seq = 0, k_s_type = 0, k_r_type = 0, k_s_soh = 0, k_r_soh = 0,
    k_s_eom = 0, k_r_eom = 0, k_size = 0, k_osize = 0, k_r_timo = 0, k_s_timo = 0,
    k_r_maxlen = 0, k_s_maxlen = 0, k_p_maxlen = 0, k_wslots_max = 0, k_wslots = 0,
    k_parity = 0, k_retry = 0, k_cancel = 0, k_ikeep = 0, k_s_ctlq = 0, k_r_ctlq = 0,
    k_ebq = 0, k_ebqflg = 0, k_rptq = 0, k_s_rpt = 0, k_rptflg = 0, k_bct = 0, k_bcta3 = 0,
    k_capas = 0, k_crcta = (\<lambda>_. 0), k_crctb = (\<lambda>_. 0),
    k_ipktinfo = (\<lambda>_. packet_zero), k_opktinfo = (\<lambda>_. packet_zero),
    k_opktlen = 0, k_xdata = Null, k_r_pw = (\<lambda>_. 0), k_s_pw = (\<lambda>_. 0),
    k_obuflen = 0, k_obufpos = 0, k_filelist = None, k_filename = Null, k_istring = Null,
    k_zincnt = 0, k_zinlen = 0, k_zinptr = Null, k_sw_full = 0, k_do_rxd = 0, k_cgetpkt = 0,
    k_anseq = 0, k_nresend = 0, k_nsnak = 0, k_dummy = 0, k_recvdir = 0, k_recvget = 0,
    r_rstatus = 0, r_filesize = 0, r_sofar = 0, r_sofar_rumor = 0, r_arg = Null, r_type = 0,
    mem = (\<lambda>_ _. 0), wd = w\<rparr>"

text \<open>
  \<^verbatim>\<open>k->filelist\<close> points into a null-terminated array of names: it is the list of the names
  from the current position on (the empty list is the position of the terminator), or \<^term>\<open>None\<close> for a null pointer.

  The function pointers of \<^verbatim>\<open>struct k_data\<close>. \<^verbatim>\<open>finfo\<close> receives the transfer type by
  reference and fills a date buffer of \<^verbatim>\<open>DATE_MAX\<close> bytes; both come back as values.
\<close>

record 'w k_ops =
  op_txd :: "byte list \<Rightarrow> 'w kst \<Rightarrow> (int \<times> 'w kst) option"
  op_openf :: "kptr \<Rightarrow> int \<Rightarrow> int \<Rightarrow> 'w kst \<Rightarrow> (int \<times> 'w kst) option"
  op_finfo :: "kptr \<Rightarrow> int \<Rightarrow> int \<Rightarrow> 'w kst \<Rightarrow> (int \<times> byte list \<times> int \<times> 'w kst) option"
  op_readf :: "'w kst \<Rightarrow> (int \<times> 'w kst) option"
  op_writef :: "byte list \<Rightarrow> 'w kst \<Rightarrow> (int \<times> 'w kst) option"
  op_closef :: "byte \<Rightarrow> int \<Rightarrow> 'w kst \<Rightarrow> (int \<times> 'w kst) option"
  op_getdirdata :: "kptr \<Rightarrow> 'w kst \<Rightarrow> (int \<times> 'w kst) option"
  op_accessf :: "kptr \<Rightarrow> 'w kst \<Rightarrow> (int \<times> 'w kst) option"

subsection \<open>Reading and writing the store\<close>

definition peek :: "'w kst \<Rightarrow> kptr \<Rightarrow> int \<Rightarrow> byte option" where
  "peek s p i =
     (case p of
        Null \<Rightarrow> None
      | Ptr b n \<Rightarrow> arr_get (bufsz b) (mem s b) (n + i)
      | Lit bs \<Rightarrow> arr_get (length bs + 1) (\<lambda>j. if j < length bs then bs ! j else 0) i)"

definition poke :: "kptr \<Rightarrow> int \<Rightarrow> byte \<Rightarrow> 'w kst \<Rightarrow> 'w kst option" where
  "poke p i v s =
     (case p of
        Ptr b n \<Rightarrow> do {
          a \<leftarrow> arr_set (bufsz b) (mem s b) (n + i) v;
          Some (s\<lparr>mem := (mem s)(b := a)\<rparr>)
        }
      | _ \<Rightarrow> None)"

fun str_upto :: "nat \<Rightarrow> byte carray \<Rightarrow> nat \<Rightarrow> byte list option" where
  "str_upto 0 f i = None"
| "str_upto (Suc n) f i =
     (if f i = 0 then Some [] else map_option (Cons (f i)) (str_upto n f (Suc i)))"

text \<open>The string at a pointer, up to its terminator.\<close>

definition read_str :: "'w kst \<Rightarrow> kptr \<Rightarrow> byte list option" where
  "read_str s p =
     (case p of
        Null \<Rightarrow> None
      | Ptr b n \<Rightarrow> if n < 0 then None else str_upto (bufsz b - nat n) (mem s b) (nat n)
      | Lit bs \<Rightarrow> Some (cstr bs))"

text \<open>The \<^term>\<open>n\<close> bytes at a pointer.\<close>

definition read_bytes :: "'w kst \<Rightarrow> kptr \<Rightarrow> nat \<Rightarrow> byte list option" where
  "read_bytes s p n = those (map (\<lambda>i. peek s p (int i)) [0..<n])"

definition splice :: "byte carray \<Rightarrow> nat \<Rightarrow> byte list \<Rightarrow> byte carray" where
  "splice f n bs = (\<lambda>i. if n \<le> i \<and> i < n + length bs then bs ! (i - n) else f i)"

definition write_bytes :: "kptr \<Rightarrow> byte list \<Rightarrow> 'w kst \<Rightarrow> 'w kst option" where
  "write_bytes p bs s =
     (case p of
        Ptr b n \<Rightarrow>
          if 0 \<le> n \<and> n + int (length bs) \<le> int (bufsz b)
          then Some (s\<lparr>mem := (mem s)(b := splice (mem s b) (nat n) bs)\<rparr>) else None
      | _ \<Rightarrow> None)"

definition strcpy :: "kptr \<Rightarrow> kptr \<Rightarrow> 'w kst \<Rightarrow> 'w kst option" where
  "strcpy dst src s = do { bs \<leftarrow> read_str s src; write_bytes dst (bs @ [0]) s }"

text \<open>\<^verbatim>\<open>strncpy\<close> pads the destination with zeros up to \<^term>\<open>n\<close> bytes.\<close>

definition strncpy :: "kptr \<Rightarrow> kptr \<Rightarrow> nat \<Rightarrow> 'w kst \<Rightarrow> 'w kst option" where
  "strncpy dst src n s = do {
     bs \<leftarrow> read_str s src;
     write_bytes dst (take n bs @ replicate (n - length bs) 0) s
   }"

subsection \<open>Slots and sequence tables\<close>

definition ipkt :: "'w kst \<Rightarrow> int \<Rightarrow> packet option" where
  "ipkt s slot = arr_get P_WSLOTS (k_ipktinfo s) slot"

definition opkt :: "'w kst \<Rightarrow> int \<Rightarrow> packet option" where
  "opkt s slot = arr_get P_WSLOTS (k_opktinfo s) slot"

definition upd_ipkt :: "int \<Rightarrow> (packet \<Rightarrow> packet) \<Rightarrow> 'w kst \<Rightarrow> 'w kst option" where
  "upd_ipkt slot g s = do {
     p \<leftarrow> ipkt s slot;
     a \<leftarrow> arr_set P_WSLOTS (k_ipktinfo s) slot (g p);
     Some (s\<lparr>k_ipktinfo := a\<rparr>)
   }"

definition upd_opkt :: "int \<Rightarrow> (packet \<Rightarrow> packet) \<Rightarrow> 'w kst \<Rightarrow> 'w kst option" where
  "upd_opkt slot g s = do {
     p \<leftarrow> opkt s slot;
     a \<leftarrow> arr_set P_WSLOTS (k_opktinfo s) slot (g p);
     Some (s\<lparr>k_opktinfo := a\<rparr>)
   }"

definition r_pw_get :: "'w kst \<Rightarrow> int \<Rightarrow> int option" where
  "r_pw_get s i = arr_get 64 (k_r_pw s) i"

definition s_pw_get :: "'w kst \<Rightarrow> int \<Rightarrow> int option" where
  "s_pw_get s i = arr_get 64 (k_s_pw s) i"

definition r_pw_set :: "int \<Rightarrow> int \<Rightarrow> 'w kst \<Rightarrow> 'w kst option" where
  "r_pw_set i v s = do { a \<leftarrow> arr_set 64 (k_r_pw s) i v; Some (s\<lparr>k_r_pw := a\<rparr>) }"

definition s_pw_set :: "int \<Rightarrow> int \<Rightarrow> 'w kst \<Rightarrow> 'w kst option" where
  "s_pw_set i v s = do { a \<leftarrow> arr_set 64 (k_s_pw s) i v; Some (s\<lparr>k_s_pw := a\<rparr>) }"

end
