(* ===== verification/Kermit_Check.thy ===== *)
theory Kermit_Check
  imports Kermit_Base
begin

text \<open>
  The three block checks of \<^verbatim>\<open>kermit.c\<close>: the 6-bit and 12-bit sums \<^verbatim>\<open>chk1\<close>, \<^verbatim>\<open>chk2\<close> and
  the 16-bit CRC \<^verbatim>\<open>chk3\<close>, on the bytes of a null-terminated string. Shown: \<^verbatim>\<open>chk3\<close> with the
  tables of \<^verbatim>\<open>K_INIT\<close> is the bitwise CRC-CCITT, and it tells apart any two strings of the same
  length that differ in one byte.
\<close>

definition chk2 :: "byte list \<Rightarrow> u16" where
  "chk2 bs = foldl (\<lambda>chk b. chk + ucast b) 0 bs"

definition chk1 :: "byte list \<Rightarrow> int" where
  "chk1 bs =
     (let chk = (ucast (chk2 bs) :: u32)
      in uint ((drop_bit 6 (chk AND 0xC0) + chk) AND 0x3F))"

definition chk3_step :: "'w kst \<Rightarrow> u16 \<Rightarrow> byte \<Rightarrow> u16" where
  "chk3_step s crc b =
     (let c = crc XOR ucast b
      in drop_bit 8 crc XOR
         (k_crcta s (unat (drop_bit 4 (c AND 0xF0))) XOR k_crctb s (unat (c AND 0x0F))))"

definition chk3 :: "'w kst \<Rightarrow> byte list \<Rightarrow> u16" where
  "chk3 s bs = foldl (chk3_step s) 0 bs"

definition crcta_init :: "u16 list" where
  "crcta_init =
    [0, 0x1081, 0x2102, 0x3183, 0x4204, 0x5285, 0x6306, 0x7387,
     0x8408, 0x9489, 0xa50a, 0xb58b, 0xc60c, 0xd68d, 0xe70e, 0xf78f]"

definition crctb_init :: "u16 list" where
  "crctb_init =
    [0, 0x1189, 0x2312, 0x329b, 0x4624, 0x57ad, 0x6536, 0x74bf,
     0x8c48, 0x9dc1, 0xaf5a, 0xbed3, 0xca6c, 0xdbe5, 0xe97e, 0xf8f7]"

text \<open>The state in which \<^verbatim>\<open>K_INIT\<close> has filled the tables.\<close>

definition crc_ready :: "'w kst \<Rightarrow> bool" where
  "crc_ready s \<longleftrightarrow> (\<forall>i < 16. k_crcta s i = crcta_init ! i \<and> k_crctb s i = crctb_init ! i)"

subsection \<open>The bitwise reference\<close>

text \<open>CRC-CCITT with the reflected polynomial \<^verbatim>\<open>0x8408\<close>, least significant bit first.\<close>

definition ccitt_bit :: "u16 \<Rightarrow> u16" where
  "ccitt_bit c = drop_bit 1 c XOR (if bit c 0 then 0x8408 else 0)"

definition ccitt_byte :: "u16 \<Rightarrow> byte \<Rightarrow> u16" where
  "ccitt_byte crc b = (ccitt_bit ^^ 8) (crc XOR ucast b)"

definition ccitt :: "byte list \<Rightarrow> u16" where
  "ccitt bs = foldl ccitt_byte 0 bs"

lemma ccitt_bit_xor: "ccitt_bit (a XOR b) = ccitt_bit a XOR ccitt_bit b"
  by (simp add: ccitt_bit_def bit_simps drop_bit_xor xor.assoc xor.left_commute)

lemma ccitt_bit_pow_xor: "(ccitt_bit ^^ n) (a XOR b) = (ccitt_bit ^^ n) a XOR (ccitt_bit ^^ n) b"
  by (induction n) (simp_all add: ccitt_bit_xor)

lemma ccitt_bit_pow_high:
  "\<forall>i < n. \<not> bit c i \<Longrightarrow> (ccitt_bit ^^ n) c = drop_bit n c"
proof (induction n arbitrary: c)
  case 0
  then show ?case by simp
next
  case (Suc n)
  then have c1: "ccitt_bit c = drop_bit 1 c" by (simp add: ccitt_bit_def)
  have "\<forall>i < n. \<not> bit (drop_bit 1 c) i"
    using Suc.prems by (auto simp: bit_drop_bit_eq)
  from Suc.IH [OF this] c1 show ?case by (simp add: funpow_swap1 drop_bit_drop_bit)
qed

lemma ccitt_tables:
  assumes "n < 16"
  shows "(ccitt_bit ^^ 8) (word_of_nat (16 * n)) = crcta_init ! n"
    and "(ccitt_bit ^^ 8) (word_of_nat n) = crctb_init ! n"
proof -
  have "list_all (\<lambda>n. (ccitt_bit ^^ 8) (word_of_nat (16 * n)) = crcta_init ! n) [0..<16]"
    by code_simp
  with assms show "(ccitt_bit ^^ 8) (word_of_nat (16 * n)) = crcta_init ! n"
    by (simp add: list_all_iff)
  have "list_all (\<lambda>n. (ccitt_bit ^^ 8) (word_of_nat n) = crctb_init ! n) [0..<16]"
    by code_simp
  with assms show "(ccitt_bit ^^ 8) (word_of_nat n) = crctb_init ! n"
    by (simp add: list_all_iff)
qed

lemma nibble_word:
  "c AND 0xF0 = word_of_nat (16 * unat (drop_bit 4 (c AND 0xF0)))"
  "c AND 0x0F = word_of_nat (unat (c AND 0x0F))"
  "unat (drop_bit 4 (c AND 0xF0)) < 16" "unat (c AND 0x0F) < 16"
  for c :: u16
proof -
  have "push_bit 4 (drop_bit 4 (c AND 0xF0)) = c AND 0xF0"
  proof (rule bit_word_eqI)
    fix n :: nat assume "n < LENGTH(16)"
    have "4 \<le> n" if "bit (0xF0 :: u16) n"
    proof (rule ccontr)
      assume "\<not> 4 \<le> n"
      then have "n \<in> {0, 1, 2, 3}" by auto
      with that show False by (auto simp: bit_numeral_rec)
    qed
    then show "bit (push_bit 4 (drop_bit 4 (c AND 0xF0))) n \<longleftrightarrow> bit (c AND 0xF0) n"
      using \<open>n < LENGTH(16)\<close> by (auto simp: bit_simps)
  qed
  then show "c AND 0xF0 = word_of_nat (16 * unat (drop_bit 4 (c AND 0xF0)))"
    by (simp add: push_bit_eq_mult mult.commute)
  show "c AND 0x0F = word_of_nat (unat (c AND 0x0F))" by simp
  have "c AND 0xF0 \<le> 0xF0" by (rule word_and_le1)
  then have "unat (c AND 0xF0) \<le> 0xF0" by (simp add: word_le_nat_alt)
  then show "unat (drop_bit 4 (c AND 0xF0)) < 16"
    by (subst unat_drop_bit_eq) (simp add: drop_bit_eq_div)
  have "c AND 0x0F \<le> 0x0F" by (rule word_and_le1)
  then show "unat (c AND 0x0F) < 16" by (simp add: word_le_nat_alt)
qed

lemma chk3_step_ccitt:
  assumes "crc_ready s"
  shows "chk3_step s crc b = ccitt_byte crc b"
proof -
  define c where "c = crc XOR ucast b"
  have split: "c = (c AND 0xFF00) XOR ((c AND 0xF0) XOR (c AND 0x0F))"
  proof -
    have ones: "(0xFF00 :: u16) XOR (0xF0 XOR 0x0F) = - 1" by simp
    have "(c AND 0xFF00) XOR ((c AND 0xF0) XOR (c AND 0x0F))
      = c AND (0xFF00 XOR (0xF0 XOR 0x0F))"
      by (simp only: bit.conj_xor_distrib)
    also have "\<dots> = c" by (simp only: ones and.right_neutral)
    finally show ?thesis ..
  qed
  have high: "(ccitt_bit ^^ 8) (c AND 0xFF00) = drop_bit 8 crc"
  proof -
    have m: "(0xFF00 :: u16) = NOT (mask 8)" by (simp add: mask_eq_exp_minus_1)
    have "(ccitt_bit ^^ 8) (c AND 0xFF00) = drop_bit 8 (c AND 0xFF00)"
      unfolding m by (rule ccitt_bit_pow_high) (simp add: bit_simps)
    also have "\<dots> = drop_bit 8 crc"
      unfolding m c_def by (rule bit_word_eqI) (auto simp: bit_simps dest: bit_imp_le_length)
    finally show ?thesis .
  qed
  have "(ccitt_bit ^^ 8) c = drop_bit 8 crc XOR
      ((ccitt_bit ^^ 8) (c AND 0xF0) XOR (ccitt_bit ^^ 8) (c AND 0x0F))"
    by (subst split) (simp only: ccitt_bit_pow_xor high)
  also have "(ccitt_bit ^^ 8) (c AND 0xF0) = crcta_init ! unat (drop_bit 4 (c AND 0xF0))"
    by (subst nibble_word(1)) (rule ccitt_tables(1) [OF nibble_word(3)])
  also have "(ccitt_bit ^^ 8) (c AND 0x0F) = crctb_init ! unat (c AND 0x0F)"
    by (subst nibble_word(2)) (rule ccitt_tables(2) [OF nibble_word(4)])
  finally show ?thesis
    using assms nibble_word(3,4) [of c]
    by (simp add: ccitt_byte_def chk3_step_def crc_ready_def Let_def c_def [symmetric])
qed

lemma chk3_eq_ccitt: "crc_ready s \<Longrightarrow> chk3 s bs = ccitt bs"
proof -
  assume "crc_ready s"
  then have "chk3_step s = ccitt_byte" by (intro ext) (rule chk3_step_ccitt)
  then show ?thesis by (simp add: chk3_def ccitt_def)
qed

lemma ccitt_bit_inj: "ccitt_bit a = ccitt_bit b \<Longrightarrow> a = b"
proof -
  assume eq: "ccitt_bit a = ccitt_bit b"
  have top: "bit (ccitt_bit c) 15 \<longleftrightarrow> bit c 0" for c
    using bit_imp_le_length [of c 16] by (auto simp: ccitt_bit_def bit_simps bit_numeral_rec)
  from eq top have z: "bit a 0 \<longleftrightarrow> bit b 0" by metis
  with eq have d: "drop_bit 1 a = drop_bit 1 b"
    by (auto simp: ccitt_bit_def xor_right_cancel split: if_splits)
  show "a = b"
  proof (rule bit_word_eqI)
    fix n assume "n < LENGTH(16)"
    show "bit a n \<longleftrightarrow> bit b n"
    proof (cases n)
      case 0
      then show ?thesis using z by simp
    next
      case (Suc m)
      then show ?thesis using d by (metis bit_drop_bit_eq comp_apply plus_1_eq_Suc)
    qed
  qed
qed

lemma ccitt_bit_pow_inj: "(ccitt_bit ^^ n) a = (ccitt_bit ^^ n) b \<Longrightarrow> a = b"
  by (induction n) (auto dest: ccitt_bit_inj)

lemma ccitt_byte_inj:
  "ccitt_byte c b = ccitt_byte c' b \<Longrightarrow> c = c'"
  "ccitt_byte c b = ccitt_byte c b' \<Longrightarrow> b = b'"
proof -
  assume "ccitt_byte c b = ccitt_byte c' b"
  then have "c XOR ucast b = c' XOR ucast b"
    unfolding ccitt_byte_def by (rule ccitt_bit_pow_inj)
  then show "c = c'" by (simp only: xor_right_cancel)
next
  assume "ccitt_byte c b = ccitt_byte c b'"
  then have "c XOR ucast b = c XOR ucast b'"
    unfolding ccitt_byte_def by (rule ccitt_bit_pow_inj)
  then have "(ucast b :: u16) = ucast b'"
    by (simp only: xor_left_cancel)
  then have eq: "bit (ucast b :: u16) n \<longleftrightarrow> bit (ucast b' :: u16) n" for n by (simp only:)
  show "b = b'"
  proof (rule bit_word_eqI)
    fix n assume "n < LENGTH(8)"
    with eq [of n] show "bit b n \<longleftrightarrow> bit b' n" by (simp add: bit_ucast_iff)
  qed
qed

lemma foldl_ccitt_inj: "foldl ccitt_byte c bs = foldl ccitt_byte c' bs \<Longrightarrow> c = c'"
proof (induction bs arbitrary: c c')
  case (Cons b bs)
  then have "ccitt_byte c b = ccitt_byte c' b" by simp
  then show ?case by (rule ccitt_byte_inj(1))
qed simp

subsection \<open>Properties\<close>

text \<open>
  C6. With the tables that \<^verbatim>\<open>kermit(K_INIT)\<close> fills in, the two-nibble look-up loop of \<^verbatim>\<open>chk3\<close>
  computes the bitwise CRC-CCITT of every string.
\<close>

theorem chk3_is_crc_ccitt:
  assumes "crc_ready s"
  shows "chk3 s bs = ccitt bs"
  using assms by (rule chk3_eq_ccitt)

theorem chk3_is_crc_ccitt_witness:
  "chk3 (k_zero ()\<lparr>k_crcta := (!) crcta_init, k_crctb := (!) crctb_init\<rparr>) [0x41, 0x42]
     = ccitt [0x41, 0x42]"
  using chk3_is_crc_ccitt [of "k_zero ()\<lparr>k_crcta := (!) crcta_init, k_crctb := (!) crctb_init\<rparr>"]
  by (simp add: crc_ready_def)

text \<open>
  C7. The type-3 block check detects every single-byte corruption: two strings that differ in
  exactly one byte, whatever surrounds it, never have the same \<^verbatim>\<open>chk3\<close>.
\<close>

theorem chk3_detects_one_byte:
  assumes "crc_ready s" and "b \<noteq> b'"
  shows "chk3 s (xs @ b # ys) \<noteq> chk3 s (xs @ b' # ys)"
proof
  assume "chk3 s (xs @ b # ys) = chk3 s (xs @ b' # ys)"
  then have "foldl ccitt_byte (ccitt_byte (ccitt xs) b) ys = foldl ccitt_byte (ccitt_byte (ccitt xs) b') ys"
    using assms(1) by (simp add: chk3_eq_ccitt ccitt_def)
  then have "ccitt_byte (ccitt xs) b = ccitt_byte (ccitt xs) b'" by (rule foldl_ccitt_inj)
  then have "b = b'" by (rule ccitt_byte_inj(2))
  with assms(2) show False ..
qed

theorem chk3_detects_one_byte_witness:
  "chk3 (k_zero ()\<lparr>k_crcta := (!) crcta_init, k_crctb := (!) crctb_init\<rparr>) ([1] @ 2 # [3])
     \<noteq> chk3 (k_zero ()\<lparr>k_crcta := (!) crcta_init, k_crctb := (!) crctb_init\<rparr>) ([1] @ 4 # [3])"
  by (rule chk3_detects_one_byte) (simp_all add: crc_ready_def)

end
