(* ===== verification/Kermit_Packet.thy ===== *)
theory Kermit_Packet
  imports Kermit_Check
begin

text \<open>
  The sending side of \<^verbatim>\<open>kermit.c\<close>: the send-window slots, building and transmitting a packet
  (\<^verbatim>\<open>spkt\<close>, \<^verbatim>\<open>epkt\<close>, \<^verbatim>\<open>ack\<close>, \<^verbatim>\<open>nak\<close>, \<^verbatim>\<open>resend\<close>) and the parameter exchange (\<^verbatim>\<open>spar\<close>,
  \<^verbatim>\<open>rpar\<close>). \<^verbatim>\<open>debug\<close> output is compiled out and the progress messages print only.
\<close>

subsection \<open>Send slots\<close>

definition slots :: "'w kst \<Rightarrow> int list" where
  "slots s = map int [0..<nat (k_wslots s)]"

fun first_free :: "(int \<Rightarrow> packet option) \<Rightarrow> int list \<Rightarrow> int option option" where
  "first_free g [] = Some None"
| "first_free g (i # is) = do {
     p \<leftarrow> g i;
     if p_len p < 1 then Some (Some i) else first_free g is
   }"

fun count_used :: "(int \<Rightarrow> packet option) \<Rightarrow> int list \<Rightarrow> int option" where
  "count_used g [] = Some 0"
| "count_used g (i # is) = do {
     p \<leftarrow> g i;
     n \<leftarrow> count_used g is;
     Some (if p_len p > 0 then n + 1 else n)
   }"

text \<open>\<^verbatim>\<open>get_sslot\<close> returns the slot's buffer and stores the slot number through its pointer.\<close>

definition get_sslot :: "'w kst \<Rightarrow> (kptr \<times> int \<times> 'w kst) option" where
  "get_sslot s = do {
     r \<leftarrow> first_free (opkt s) (slots s);
     case r of
       None \<Rightarrow> Some (Null, -1, s)
     | Some slot \<Rightarrow> do {
         s \<leftarrow> upd_opkt slot (\<lambda>p. p\<lparr>p_len := -1, p_seq := -1, p_typ := SP, p_rtr := 0, p_flg := 0,
                p_dat := Null\<rparr>) s;
         p \<leftarrow> opkt s slot;
         Some (p_buf p, slot, s)
       }
   }"

definition nused_sslots :: "'w kst \<Rightarrow> int option" where
  "nused_sslots s = count_used (opkt s) (slots s)"

definition nused_rslots :: "'w kst \<Rightarrow> int option" where
  "nused_rslots s = count_used (ipkt s) (slots s)"

definition free_sslot :: "int \<Rightarrow> 'w kst \<Rightarrow> 'w kst option" where
  "free_sslot slot s =
     (if slot < 0 \<or> slot \<ge> int P_WSLOTS then Some s
      else do {
        p \<leftarrow> opkt s slot;
        s \<leftarrow> (if p_seq p \<ge> 0 \<and> p_seq p < 64 then s_pw_set (p_seq p) (-1) s else Some s);
        upd_opkt slot (\<lambda>p. p\<lparr>p_len := 0, p_seq := -1, p_typ := 0, p_rtr := 0, p_flg := 0\<rparr>) s
      })"

definition seq_age :: "int \<Rightarrow> int \<Rightarrow> int" where
  "seq_age s_seq seq =
     (let age = s_seq - seq;
          age = (if age < 0 then age + 64 else age)
      in if age > 63 then age - 64 else age)"

fun earliest_sseq_loop :: "'w kst \<Rightarrow> int list \<Rightarrow> int \<Rightarrow> int \<Rightarrow> int option" where
  "earliest_sseq_loop s [] oldest_age oldest_seq = Some oldest_seq"
| "earliest_sseq_loop s (i # is) oldest_age oldest_seq = do {
     p \<leftarrow> opkt s i;
     let sq = p_seq p; age = seq_age (k_s_seq s) sq in
     if sq \<ge> 0 \<and> sq < 64 \<and> age > oldest_age
     then earliest_sseq_loop s is age sq
     else earliest_sseq_loop s is oldest_age oldest_seq
   }"

definition earliest_sseq :: "'w kst \<Rightarrow> int option" where
  "earliest_sseq s = earliest_sseq_loop s (slots s) (-99) (-1)"

fun free_sslot_easca_loop :: "nat \<Rightarrow> 'w kst \<Rightarrow> 'w kst option" where
  "free_sslot_easca_loop 0 s = Some s"
| "free_sslot_easca_loop (Suc n) s = do {
     seq_earl \<leftarrow> earliest_sseq s;
     if seq_earl < 0 \<or> seq_earl > 63 then Some s
     else do {
       slot_earl \<leftarrow> s_pw_get s seq_earl;
       if slot_earl < 0 \<or> slot_earl \<ge> k_wslots s then Some s
       else do {
         p \<leftarrow> opkt s slot_earl;
         if p_flg p = 0 then Some s
         else do {
           s \<leftarrow> free_sslot slot_earl s;
           free_sslot_easca_loop n s
         }
       }
     }
   }"

definition free_sslot_easca :: "'w kst \<Rightarrow> 'w kst option" where
  "free_sslot_easca s = free_sslot_easca_loop (nat (k_wslots s)) s"

definition ok2rxd :: "'w kst \<Rightarrow> (bool \<times> 'w kst) option" where
  "ok2rxd s = do {
     n \<leftarrow> nused_sslots s;
     let ok = \<not> ((k_what s = W_SEND \<or> k_what s = W_GET) \<and> k_state s = S_DATA \<and> n \<noteq> k_wslots s);
     Some (ok, s\<lparr>k_do_rxd := of_bool ok\<rparr>)
   }"

subsection \<open>Building a packet\<close>

text \<open>The bytes from the \<^verbatim>\<open>LEN\<close> field up to the data field.\<close>

definition spkt_header :: "byte \<Rightarrow> int \<Rightarrow> int \<Rightarrow> int \<Rightarrow> byte list" where
  "spkt_header typ sq len bct =
     (let j = len + bct
      in if len + bct + 2 > 94
         then
           let h = [tochar 0, tochar sq, typ, tochar (j div 95), tochar (j mod 95)]
           in h @ [tochar (chk1 (cstr h))]
         else [tochar (j + 2), tochar sq, typ])"

definition block_check :: "'w kst \<Rightarrow> int \<Rightarrow> byte list \<Rightarrow> byte list" where
  "block_check s bct bs =
     (if bct = 1 then [tochar (chk1 bs)]
      else if bct = 2 then
        let j = chk2 bs
        in [tochar (uint (drop_bit 6 j AND 0x3F)), tochar (uint (j AND 0x3F))]
      else if bct = 3 then
        let crc = chk3 s bs
        in [tochar (uint (drop_bit 12 crc AND 0x0F)), tochar (uint (drop_bit 6 crc AND 0x3F)),
            tochar (uint (crc AND 0x3F))]
      else [])"

text \<open>
  The packet from its start byte to its end byte, for the bytes \<^term>\<open>dat\<close> of the data field.
  The checks run over the string from the \<^verbatim>\<open>LEN\<close> field on.
\<close>

definition spkt_bytes :: "'w kst \<Rightarrow> byte \<Rightarrow> int \<Rightarrow> byte list \<Rightarrow> int \<Rightarrow> byte list" where
  "spkt_bytes s typ sq dat len =
     (let body = spkt_header typ sq len (k_bct s) @ dat
      in i2b (k_s_soh s) # body @ block_check s (k_bct s) (cstr body) @ [i2b (k_s_eom s)])"

definition unsaved :: "byte \<Rightarrow> bool" where
  "unsaved typ \<longleftrightarrow> typ = T_Y \<or> typ = T_N \<or> typ = T_E"

text \<open>
  \<^verbatim>\<open>spkt\<close> once the buffer is chosen: \<^term>\<open>slot\<close> is the send slot (or -1 for the local
  100-byte buffer). \<^term>\<open>confused\<close> is the call \<^verbatim>\<open>epkt("EKSW spkt confused", k)\<close> made when the
  data does not fit; \<^verbatim>\<open>spkt\<close> and \<^verbatim>\<open>epkt\<close> call each other.
\<close>

definition spkt_send :: "'w k_ops \<Rightarrow> ('w kst \<Rightarrow> 'w kst option) \<Rightarrow> byte \<Rightarrow> int \<Rightarrow> int \<Rightarrow> kptr
    \<Rightarrow> int \<Rightarrow> kptr \<Rightarrow> nat \<Rightarrow> 'w kst \<Rightarrow> (int \<times> 'w kst) option" where
  "spkt_send ops confused typ sq len dat slot buf buflen s = do {
     let s = (if k_bcta3 s \<noteq> 0 then s\<lparr>k_bct := 3\<rparr> else s);
     let hdr = spkt_header typ sq len (k_bct s);
     dat_bytes \<leftarrow> (if dat = Null then Some [] else read_bytes s dat (nat len));
     if dat \<noteq> Null \<and> len \<noteq> 0 \<and> 1 + length hdr + nat len > buflen
     then do {
       s \<leftarrow> (if slot \<ge> 0
             then write_bytes buf (take buflen (i2b (k_s_soh s) # hdr @ dat_bytes)) s else Some s);
       s \<leftarrow> confused s;
       Some (X_ERROR, s)
     }
     else do {
       let pkt = spkt_bytes s typ sq dat_bytes len;
       if length pkt \<ge> buflen then None
       else do {
         s \<leftarrow> (if slot \<ge> 0 then write_bytes buf (pkt @ [0]) s else Some s);
         let s = s\<lparr>k_s_seq := sq, k_opktlen := int (length pkt)\<rparr>;
         s \<leftarrow> (if slot \<ge> 0 then upd_opkt slot (\<lambda>p. p\<lparr>p_len := int (length pkt)\<rparr>) s else Some s);
         op_txd ops pkt s
       }
     }
   }"

definition spkt_with :: "'w k_ops \<Rightarrow> ('w kst \<Rightarrow> 'w kst option) \<Rightarrow> byte \<Rightarrow> int \<Rightarrow> int \<Rightarrow> kptr
    \<Rightarrow> 'w kst \<Rightarrow> (int \<times> 'w kst) option" where
  "spkt_with ops confused typ sq len dat s =
     (if sq < 0 \<or> sq > 63 then Some (X_ERROR, s)
      else do {
        len \<leftarrow> (if len < 0 then map_option (\<lambda>bs. int (length bs)) (read_str s dat) else Some len);
        if unsaved typ then spkt_send ops confused typ sq len dat (-1) Null 100 s
        else do {
          (buf, slot, s) \<leftarrow> get_sslot s;
          if slot < 0 \<or> slot \<ge> k_wslots s then Some (X_ERROR, s)
          else do {
            s \<leftarrow> s_pw_set (k_s_seq s) slot s;
            s \<leftarrow> upd_opkt slot (\<lambda>p. p\<lparr>p_typ := typ, p_seq := sq, p_len := len\<rparr>) s;
            spkt_send ops confused typ sq len dat slot buf P_BUFLEN s
          }
        }
      })"

text \<open>
  \<^verbatim>\<open>epkt\<close> sends an error packet with block check type 1 (or 3 when forced). Its own call of
  \<^verbatim>\<open>spkt\<close> for the fixed 18-byte message cannot be confused again, so the recursion between the
  two is at most one level deep.
\<close>

definition epkt_with :: "'w k_ops \<Rightarrow> ('w kst \<Rightarrow> 'w kst option) \<Rightarrow> kptr \<Rightarrow> 'w kst \<Rightarrow> 'w kst option" where
  "epkt_with ops confused msg s = do {
     let bctsv = (if k_bcta3 s \<noteq> 0 then 3 else k_bct s);
     let s = s\<lparr>k_bct := (if k_bcta3 s \<noteq> 0 then 3 else 1)\<rparr>;
     (rc, s) \<leftarrow> spkt_with ops confused T_E 0 (-1) msg s;
     Some (s\<lparr>k_bct := bctsv\<rparr>)
   }"

definition epkt_confused :: "'w k_ops \<Rightarrow> 'w kst \<Rightarrow> 'w kst option" where
  "epkt_confused ops = epkt_with ops (\<lambda>_. None) (lit ''EKSW spkt confused'')"

definition spkt :: "'w k_ops \<Rightarrow> byte \<Rightarrow> int \<Rightarrow> int \<Rightarrow> kptr \<Rightarrow> 'w kst \<Rightarrow> (int \<times> 'w kst) option" where
  "spkt ops = spkt_with ops (epkt_confused ops)"

definition epkt :: "'w k_ops \<Rightarrow> kptr \<Rightarrow> 'w kst \<Rightarrow> 'w kst option" where
  "epkt ops = epkt_with ops (epkt_confused ops)"

subsection \<open>Acknowledgements and retransmission\<close>

definition nak :: "'w k_ops \<Rightarrow> int \<Rightarrow> int \<Rightarrow> 'w kst \<Rightarrow> (int \<times> 'w kst) option" where
  "nak ops sq slot s = do {
     (rc, s) \<leftarrow> spkt ops T_N sq 0 Null (s\<lparr>k_nsnak := k_nsnak s + 1\<rparr>);
     if slot \<ge> 0 \<and> slot < 64 then do {
       p \<leftarrow> ipkt s slot;
       s \<leftarrow> upd_ipkt slot (\<lambda>p. p\<lparr>p_rtr := p_rtr p + 1\<rparr>) s;
       Some (if p_rtr p > k_retry s then X_ERROR else rc, s)
     }
     else Some (rc, s)
   }"

definition ack :: "'w k_ops \<Rightarrow> int \<Rightarrow> kptr \<Rightarrow> 'w kst \<Rightarrow> (int \<times> 'w kst) option" where
  "ack ops sq text s = do {
     len \<leftarrow> (if text = Null then Some 0 else map_option (\<lambda>bs. int (length bs)) (read_str s text));
     (rc, s) \<leftarrow> spkt ops T_Y sq len text s;
     Some (rc, if rc = X_OK \<and> sq = k_r_seq s then s\<lparr>k_r_seq := (k_r_seq s + 1) mod 64\<rparr> else s)
   }"

definition resend_slot :: "'w k_ops \<Rightarrow> int \<Rightarrow> 'w kst \<Rightarrow> (int \<times> 'w kst) option" where
  "resend_slot ops slot s = do {
     p \<leftarrow> opkt s slot;
     let s = s\<lparr>k_opktlen := p_len p\<rparr>;
     if p_len p < 0 \<or> p_len p \<ge> int P_BUFLEN then Some (X_ERROR, s)
     else if p_len p = 0 then Some (X_OK, s)
     else do {
       s \<leftarrow> upd_opkt slot (\<lambda>p. p\<lparr>p_rtr := p_rtr p + 1\<rparr>) (s\<lparr>k_nresend := k_nresend s + 1\<rparr>);
       if p_rtr p + 1 > k_retry s then Some (X_ERROR, s)
       else do {
         pkt \<leftarrow> read_bytes s (p_buf p) (nat (p_len p));
         op_txd ops pkt s
       }
     }
   }"

definition resend :: "'w k_ops \<Rightarrow> int \<Rightarrow> 'w kst \<Rightarrow> (int \<times> 'w kst) option" where
  "resend ops sq s = do {
     sq \<leftarrow> (if sq < 0 then earliest_sseq s else Some sq);
     if sq < 0 then Some (X_OK, s)
     else do {
       slot \<leftarrow> s_pw_get s sq;
       if slot < 0 then do {
         sq \<leftarrow> earliest_sseq s;
         if sq < 0 then Some (X_OK, s)
         else do {
           slot \<leftarrow> s_pw_get s sq;
           if slot < 0 then Some (X_OK, s) else resend_slot ops slot s
         }
       }
       else resend_slot ops slot s
     }
   }"

definition nxtpkt :: "'w kst \<Rightarrow> 'w kst" where
  "nxtpkt s = s\<lparr>k_s_seq := (k_s_seq s + 1) mod 64, k_s_cnt := k_s_cnt s + 1,
     k_xdata := Ptr XDATABUF 0\<rparr>"

subsection \<open>Parameter exchange\<close>

text \<open>
  \<^verbatim>\<open>spar\<close> reads the other side's parameters; \<^term>\<open>fld n\<close> below is field \<^term>\<open>n\<close>, counted from
  1 as in the source. The four groups follow the order of the source.
\<close>

definition printable_prefix :: "byte \<Rightarrow> bool" where
  "printable_prefix c \<longleftrightarrow> (c > 32 \<and> c < 63) \<or> (c > 95 \<and> c < 127)"

definition spar_basic :: "kptr \<Rightarrow> int \<Rightarrow> 'w kst \<Rightarrow> 'w kst option" where
  "spar_basic p datalen s = do {
     let fld = (\<lambda>s n. peek s p (n - 1));
     s \<leftarrow> (if datalen \<ge> 1 then do { c \<leftarrow> fld s 1; Some (s\<lparr>k_s_maxlen := xunchar c\<rparr>) } else Some s);
     s \<leftarrow> (if datalen \<ge> 2 then do { c \<leftarrow> fld s 2; Some (s\<lparr>k_r_timo := xunchar c\<rparr>) } else Some s);
     s \<leftarrow> (if datalen \<ge> 5 then do { c \<leftarrow> fld s 5; Some (s\<lparr>k_s_eom := xunchar c\<rparr>) } else Some s);
     if datalen \<ge> 6 then do { c \<leftarrow> fld s 6; Some (s\<lparr>k_r_ctlq := c\<rparr>) } else Some s
   }"

definition spar_prefixes :: "kptr \<Rightarrow> int \<Rightarrow> 'w kst \<Rightarrow> 'w kst option" where
  "spar_prefixes p datalen s = do {
     let fld = (\<lambda>s n. peek s p (n - 1));
     s \<leftarrow> (if datalen \<ge> 7 then do {
            c \<leftarrow> fld s 7;
            let s = s\<lparr>k_ebq := c\<rparr>;
            Some (if printable_prefix c
                  then s\<lparr>k_parity := (if k_parity s = 0 then 1 else k_parity s), k_ebqflg := 1\<rparr>
                  else if c = T_Y \<and> k_parity s \<noteq> 0 then s\<lparr>k_ebqflg := 1, k_ebq := 0x26\<rparr>
                  else s)
          } else Some s);
     s \<leftarrow> (if datalen \<ge> 8 then do {
            c \<leftarrow> fld s 8;
            let b = b2i c - 0x30;
            let b = (if b < 1 \<or> b > 3 then 1 else b);
            Some (s\<lparr>k_bct := (if k_bcta3 s \<noteq> 0 then 3 else b)\<rparr>)
          } else Some s);
     if datalen \<ge> 9 then do {
       c \<leftarrow> fld s 9;
       Some (if printable_prefix c \<or> c = PREFIX_REPEAT then s\<lparr>k_rptq := c, k_rptflg := 1\<rparr> else s)
     } else Some s
   }"

text \<open>The loop that skips additional capability fields, started at field 10.\<close>

function spar_capas_end :: "'w kst \<Rightarrow> kptr \<Rightarrow> int \<Rightarrow> int \<Rightarrow> int option" where
  "spar_capas_end s p datalen y = do {
     c \<leftarrow> peek s p (y - 1);
     if odd (xunchar c) \<and> datalen \<ge> y then spar_capas_end s p datalen (y + 1) else Some y
   }"
  by pat_completeness auto
termination
  by (relation "measure (\<lambda>(s, p, datalen, y). nat (datalen - y + 1))") auto

definition spar_capas :: "kptr \<Rightarrow> int \<Rightarrow> 'w kst \<Rightarrow> (int \<times> 'w kst) option" where
  "spar_capas p datalen s =
     (if datalen \<ge> 10 then do {
        c \<leftarrow> peek s p 9;
        let x = (word_of_int (xunchar c) :: u16);
        let drop_unless = (\<lambda>cap capas. if x AND cap = 0 then capas AND NOT cap else capas);
        let capas = drop_unless CAP_AT (drop_unless CAP_SW (drop_unless CAP_LP (k_capas s)));
        let capas = capas AND NOT CAP_RS AND NOT CAP_LS;
        y \<leftarrow> spar_capas_end s p datalen 10;
        Some (y, s\<lparr>k_capas := capas\<rparr>)
      } else Some (0, s))"

definition spar :: "kptr \<Rightarrow> int \<Rightarrow> 'w kst \<Rightarrow> 'w kst option" where
  "spar p datalen s = do {
     let fld = (\<lambda>s n. peek s p (n - 1));
     s \<leftarrow> spar_basic p datalen s;
     s \<leftarrow> spar_prefixes p datalen s;
     (y, s) \<leftarrow> spar_capas p datalen s;
     s \<leftarrow> (if k_capas s AND CAP_LP \<noteq> 0 \<and> datalen > y + 1 then do {
            hi \<leftarrow> fld s (y + 2);
            lo \<leftarrow> fld s (y + 3);
            let x = xunchar hi * 95 + xunchar lo;
            let m = (if x > int P_PKTLEN then int P_PKTLEN else x);
            Some (s\<lparr>k_s_maxlen := (if m < 10 then 60 else m)\<rparr>)
          } else Some s);
     if k_capas s AND CAP_SW \<noteq> 0
     then if datalen > y then do {
            c \<leftarrow> fld s (y + 1);
            let x = xunchar c;
            let w = (if x > k_wslots_max s then k_wslots_max s else x);
            let w = (if w < 1 then 1 else w);
            Some (s\<lparr>k_wslots := w, k_retry := (if w > 1 \<and> w > k_retry s then w + 1 else k_retry s)\<rparr>)
          } else Some s
     else Some (s\<lparr>k_wslots := 1\<rparr>)
   }"

text \<open>\<^verbatim>\<open>rpar\<close> writes our parameters into \<^verbatim>\<open>ack_s\<close> and sends them as an S packet or an ACK.\<close>

definition rpar_fields :: "'w kst \<Rightarrow> byte list" where
  "rpar_fields s =
     [tochar 94, tochar (k_s_timo s), tochar 0, ctl 0, tochar (k_r_eom s), k_s_ctlq s, k_ebq s,
      (if k_bcta3 s \<noteq> 0 then 0x33 else i2b (k_bct s + 0x30)), k_rptq s, tochar (uint (k_capas s)),
      tochar (k_wslots s), tochar (k_r_maxlen s div 95), tochar (k_r_maxlen s mod 95)]"

definition rpar :: "'w k_ops \<Rightarrow> byte \<Rightarrow> 'w kst \<Rightarrow> (int \<times> 'w kst) option" where
  "rpar ops typ s = do {
     let s = (if k_ebq s = T_Y \<and> k_parity s \<noteq> 0 then s\<lparr>k_ebq := 0x26\<rparr> else s);
     s \<leftarrow> write_bytes (Ptr ACK_S 0) (rpar_fields s @ [0]) s;
     let bctsv = (if k_bcta3 s \<noteq> 0 then 3 else k_bct s);
     let s = s\<lparr>k_bct := (if k_bcta3 s \<noteq> 0 then 3 else 1)\<rparr>;
     (rc, s) \<leftarrow> (if typ = T_Y then ack ops 0 (Ptr ACK_S 0) s
        else if typ = T_S then do {
          (buf, s_slot, s) \<leftarrow> get_sslot s;
          if buf \<noteq> Null then do {
            s \<leftarrow> s_pw_set (k_s_seq s) s_slot s;
            spkt ops T_S 0 13 (Ptr ACK_S 0) s
          } else Some (0, s)
        }
        else Some (-1, s));
     Some (rc, s\<lparr>k_bct := bctsv\<rparr>)
   }"

end
