(* ===== verification/Kermit_Codec.thy ===== *)
theory Kermit_Codec
  imports Kermit_Packet
begin

text \<open>
  The data field of a packet, \<^verbatim>\<open>kermit.c\<close>: \<^verbatim>\<open>encode\<close> puts one character into
  \<^verbatim>\<open>k->xdata\<close> (run lengths, eighth-bit and control prefixes), \<^verbatim>\<open>getpkt\<close> fills the field from
  the input file or from a string, \<^verbatim>\<open>decode\<close> does the inverse into the output buffer.
  \<^verbatim>\<open>encodes\<close> is the format both sides share; the lemmas at the end show that what
  \<^verbatim>\<open>getpkt\<close> produces \<^verbatim>\<open>decode\<close> turns back into the file.
\<close>

subsection \<open>Encoding\<close>

text \<open>\<^verbatim>\<open>k->xdata[(k->size)++] = v\<close>\<close>

definition emit :: "byte \<Rightarrow> 'w kst \<Rightarrow> 'w kst option" where
  "emit v s = do {
     s' \<leftarrow> poke (k_xdata s) (k_size s) v s;
     Some (s'\<lparr>k_size := k_size s + 1\<rparr>)
   }"

definition is_ctl_char :: "'w kst \<Rightarrow> int \<Rightarrow> bool" where
  "is_ctl_char s a \<longleftrightarrow>
     k_binary s = 1 \<and> a \<in> {0, b2i PACKET_START, b2i PACKET_END} \<or>
     k_binary s = 0 \<and> a \<in> {0, b2i PACKET_START, 3, 4, 10, b2i PACKET_END, 21, 127}"

text \<open>The part of \<^verbatim>\<open>encode\<close> below the run-length block: one character with its prefixes.\<close>

definition encode_char :: "'w k_ops \<Rightarrow> int \<Rightarrow> 'w kst \<Rightarrow> 'w kst option" where
  "encode_char ops a s = do {
     let a7or8 = (if k_binary s = 1 then a else a AND 127);
     let b8 = a AND 128;
     s \<leftarrow> (if k_ebqflg s \<noteq> 0 \<and> b8 \<noteq> 0 then emit (k_ebq s) s else Some s);
     let a = (if k_ebqflg s \<noteq> 0 \<and> b8 \<noteq> 0 then a7or8 else a);
     s \<leftarrow> (if is_ctl_char s a7or8 \<or> a7or8 = b2i (k_s_ctlq s)
              \<or> k_ebqflg s \<noteq> 0 \<and> a7or8 = b2i (k_ebq s)
              \<or> k_rptflg s \<noteq> 0 \<and> a7or8 = b2i (k_rptq s)
           then emit (k_s_ctlq s) s else Some s);
     let c = (if is_ctl_char s a7or8 then ctl (i2b a) else i2b a);
     s \<leftarrow> emit c s;
     s \<leftarrow> poke (k_xdata s) (k_size s) 0 s;
     if k_size s < 0 \<or> k_size s \<ge> int P_PKTLEN + 2
     then epkt ops (lit ''EKSW encode confused'') s else Some s
   }"

definition emit_repeat :: "int \<Rightarrow> 'w kst \<Rightarrow> 'w kst option" where
  "emit_repeat n s = do {
     s \<leftarrow> emit (k_rptq s) s;
     s \<leftarrow> emit (torepeat n) s;
     Some (s\<lparr>k_s_rpt := 0\<rparr>)
   }"

function encode :: "'w k_ops \<Rightarrow> int \<Rightarrow> int \<Rightarrow> 'w kst \<Rightarrow> 'w kst option" where
  "encode ops a next s =
     (if k_rptflg s = 0 then encode_char ops a s
      else if a = next then
        let s = s\<lparr>k_s_rpt := k_s_rpt s + 1\<rparr>
        in if k_s_rpt s < 236 then Some s
           else if k_s_rpt s = 236 then do { s \<leftarrow> emit_repeat 236 s; encode_char ops a s }
           else encode_char ops a s
      else if k_s_rpt s = 1 then do {
        s' \<leftarrow> encode ops a (-1) (s\<lparr>k_s_rpt := 0\<rparr>);
        let s'' = (if k_size s' \<le> k_s_maxlen s - 4 then s'\<lparr>k_osize := k_size s'\<rparr> else s');
        encode ops a (-1) (s''\<lparr>k_s_rpt := 0\<rparr>)
      }
      else if k_s_rpt s > 1 then do {
        s' \<leftarrow> emit_repeat (k_s_rpt s + 1) (s\<lparr>k_s_rpt := k_s_rpt s + 1\<rparr>);
        encode_char ops a s'
      }
      else encode_char ops a s)"
  by pat_completeness auto
termination
  by (relation "measure (\<lambda>(ops, a, next, s). if k_s_rpt s = 1 then 1 else 0)") auto

declare encode.simps [simp del]

subsection \<open>Filling a packet\<close>

definition zgetc :: "'w k_ops \<Rightarrow> 'w kst \<Rightarrow> (int \<times> 'w kst) option" where
  "zgetc ops s =
     (let s = s\<lparr>k_zincnt := k_zincnt s - 1\<rparr>
      in if k_zincnt s \<ge> 0 then do {
           c \<leftarrow> peek s (k_zinptr s) 0;
           Some (b2i c, s\<lparr>k_zinptr := padd (k_zinptr s) 1\<rparr>)
         }
         else op_readf ops s)"

text \<open>The next character of the memory string, or of the file.\<close>

definition next_char :: "'w k_ops \<Rightarrow> 'w kst \<Rightarrow> (int \<times> 'w kst) option" where
  "next_char ops s =
     (if k_istring s \<noteq> Null then do {
        c \<leftarrow> peek s (k_istring s) 0;
        Some (if c = 0 then -1 else b2i c, s\<lparr>k_istring := padd (k_istring s) 1\<rparr>)
      }
      else zgetc ops s)"

text \<open>The string copies between \<^verbatim>\<open>s_remain\<close> and \<^verbatim>\<open>xdata\<close>, byte by byte up to the terminator.\<close>

definition getpkt_restore :: "'w kst \<Rightarrow> 'w kst option" where
  "getpkt_restore s = do {
     bs \<leftarrow> read_str s (Ptr S_REMAIN 0);
     s \<leftarrow> write_bytes (k_xdata s) (bs @ [0]) s;
     poke (Ptr S_REMAIN 0) 0 0 (s\<lparr>k_size := int (length bs)\<rparr>)
   }"

definition getpkt_save :: "'w kst \<Rightarrow> 'w kst option" where
  "getpkt_save s = do {
     bs \<leftarrow> read_str s (padd (k_xdata s) (k_osize s));
     s \<leftarrow> write_bytes (Ptr S_REMAIN 0) (bs @ [0]) s;
     let s = s\<lparr>k_size := k_osize s\<rparr>;
     poke (k_xdata s) (k_size s) 0 s
   }"

text \<open>The loop, run while \<^verbatim>\<open>k->s_first > -1\<close>.\<close>

partial_function (option) getpkt_loop :: "'w k_ops \<Rightarrow> int \<Rightarrow> int \<Rightarrow> 'w kst \<Rightarrow> (int \<times> 'w kst) option" where
  "getpkt_loop ops maxlen c s =
     (if k_s_first s > -1 then do {
        (nxt, s) \<leftarrow> next_char ops s;
        let s = (if nxt < 0 then s\<lparr>k_s_first := -1\<rparr> else s\<lparr>r_sofar_rumor := r_sofar_rumor s + 1\<rparr>);
        s \<leftarrow> encode ops c nxt (s\<lparr>k_osize := k_size s\<rparr>);
        let s = s\<lparr>k_cgetpkt := nxt\<rparr>;
        if k_size s = maxlen then Some (k_size s, s)
        else if k_size s > maxlen then do {
          s \<leftarrow> getpkt_save s;
          Some (k_size s, s)
        }
        else getpkt_loop ops maxlen nxt s
      }
      else if k_size s > maxlen then do {
        s \<leftarrow> epkt ops (lit ''EKSW getpkt confused'') s;
        Some (X_ERROR, s)
      }
      else Some (k_size s, s))"

definition getpkt_fill :: "'w k_ops \<Rightarrow> int \<Rightarrow> int \<Rightarrow> 'w kst \<Rightarrow> (int \<times> 'w kst) option" where
  "getpkt_fill ops maxlen c s = do {
     s \<leftarrow> getpkt_restore s;
     if k_s_first s = -1 then Some (k_size s, s) else getpkt_loop ops maxlen c s
   }"

definition getpkt :: "'w k_ops \<Rightarrow> 'w kst \<Rightarrow> (int \<times> 'w kst) option" where
  "getpkt ops s = do {
     let s = (if k_bcta3 s \<noteq> 0 then s\<lparr>k_bct := 3\<rparr> else s);
     let maxlen = k_s_maxlen s - k_bct s - 3 - 6;
     if k_s_first s = 1 then do {
       s \<leftarrow> poke (Ptr S_REMAIN 0) 0 0 (s\<lparr>k_s_first := 0\<rparr>);
       (c, s) \<leftarrow> next_char ops s;
       let s = s\<lparr>k_cgetpkt := c\<rparr>;
       if c < 0 then Some (0, s\<lparr>k_s_first := -1, k_size := 0\<rparr>)
       else
         getpkt_fill ops maxlen c
           (if k_state s = S_DATA then s\<lparr>r_sofar_rumor := r_sofar_rumor s + 1\<rparr> else s)
     }
     else do {
       b \<leftarrow> (if k_s_first s = -1 then peek s (Ptr S_REMAIN 0) 0 else Some 1);
       if k_s_first s = -1 \<and> b = 0 then Some (0, s\<lparr>k_size := 0\<rparr>)
       else getpkt_fill ops maxlen (k_cgetpkt s) s
     }
   }"

definition sdata :: "'w k_ops \<Rightarrow> 'w kst \<Rightarrow> (int \<times> 'w kst) option" where
  "sdata ops s =
     (if k_cancel s \<noteq> 0 then Some (0, s)
      else do {
        (len, s) \<leftarrow> getpkt ops s;
        if len < 1 then Some (0, s)
        else do {
          (rc, s) \<leftarrow> spkt ops T_D (k_s_seq s) len (k_xdata s) s;
          Some (if rc = X_ERROR then rc else len, s)
        }
      })"

definition encstr :: "'w k_ops \<Rightarrow> kptr \<Rightarrow> 'w kst \<Rightarrow> (int \<times> 'w kst) option" where
  "encstr ops p s = do {
     (_, s) \<leftarrow> getpkt ops (s\<lparr>k_s_first := 1, k_istring := p\<rparr>);
     let s = s\<lparr>k_istring := Null, k_s_first := 1\<rparr>;
     Some (k_size s, s)
   }"

subsection \<open>Decoding\<close>

text \<open>
  The inner loop of \<^verbatim>\<open>decode\<close> writes the character \<^term>\<open>rpt\<close> times, to memory at \<^term>\<open>ucp\<close> or to
  the output buffer. A failing \<^verbatim>\<open>writef\<close> leaves the loop with the remaining count.
\<close>

fun decode_put :: "'w k_ops \<Rightarrow> int \<Rightarrow> nat \<Rightarrow> byte \<Rightarrow> kptr \<Rightarrow> int \<Rightarrow> 'w kst
    \<Rightarrow> (nat \<times> kptr \<times> int \<times> 'w kst) option" where
  "decode_put ops f 0 a ucp rc s = Some (0, ucp, rc, s)"
| "decode_put ops f (Suc n) a ucp rc s =
     (if k_recvdir s = 1 \<or> f = 0 then do {
        s \<leftarrow> poke ucp 0 a s;
        decode_put ops f n a (padd ucp 1) rc s
      }
      else do {
        s \<leftarrow> poke (Ptr OBUF 0) (k_obufpos s) a s;
        let s = s\<lparr>k_obufpos := k_obufpos s + 1\<rparr>;
        if k_obufpos s = k_obuflen s then do {
          bs \<leftarrow> read_bytes s (Ptr OBUF 0) (nat (k_obuflen s));
          (rc, s) \<leftarrow> op_writef ops bs s;
          let s = s\<lparr>r_sofar := r_sofar s + k_obuflen s, r_sofar_rumor := r_sofar_rumor s + k_obuflen s\<rparr>;
          if rc \<noteq> X_OK then Some (Suc n, ucp, rc, s)
          else decode_put ops f n a ucp rc (s\<lparr>k_obufpos := 0\<rparr>)
        }
        else decode_put ops f n a ucp rc s
      })"

text \<open>
  One character of the data field with its eighth-bit and control prefixes; its first byte
  \<^term>\<open>a\<close> has been read and \<^term>\<open>i\<close> is the position after it.
\<close>

definition decode_literal :: "'w kst \<Rightarrow> kptr \<Rightarrow> int \<Rightarrow> byte \<Rightarrow> (int \<times> byte) option" where
  "decode_literal s inbuf i a = do {
     (i, b8, a) \<leftarrow> (if k_parity s \<noteq> 0 \<and> a = k_ebq s then do {
          a \<leftarrow> peek s inbuf i;
          Some (i + 1, 0x80, a AND 0x7F)
        } else Some (i, 0, a));
     (i, a) \<leftarrow> (if a = k_r_ctlq s then do {
          a \<leftarrow> peek s inbuf i;
          let a7 = a AND 0x7F;
          Some (i + 1, if k_binary s \<noteq> 0 \<and> (a7 = ctl PACKET_END \<or> a7 = ctl PACKET_START \<or> a7 = ctl 0)
                       then ctl a else a)
        } else Some (i, a));
     Some (i, a OR b8)
   }"

text \<open>The same with a possible repeat prefix: the position after it, the count and the character.\<close>

definition decode_char :: "'w kst \<Rightarrow> kptr \<Rightarrow> int \<Rightarrow> byte \<Rightarrow> nat \<Rightarrow> (int \<times> nat \<times> byte) option" where
  "decode_char s inbuf i a rpt = do {
     (i, rpt, a) \<leftarrow> (if k_rptflg s \<noteq> 0 \<and> a = k_rptq s then do {
          n \<leftarrow> peek s inbuf i;
          a \<leftarrow> peek s inbuf (i + 1);
          Some (i + 2, nat (xunrepeat n), a)
        } else Some (i, rpt, a));
     (i, a) \<leftarrow> decode_literal s inbuf i a;
     Some (i, if rpt = 0 then 1 else rpt, a)
   }"

partial_function (option) decode_loop :: "'w k_ops \<Rightarrow> int \<Rightarrow> kptr \<Rightarrow> int \<Rightarrow> nat \<Rightarrow> kptr \<Rightarrow> int \<Rightarrow> 'w kst
    \<Rightarrow> (kptr \<times> int \<times> 'w kst) option" where
  "decode_loop ops f inbuf i rpt ucp rc s = do {
     a \<leftarrow> peek s inbuf i;
     if a = 0 then Some (ucp, rc, s)
     else do {
       (i, rpt, a) \<leftarrow> decode_char s inbuf (i + 1) a rpt;
       (rpt, ucp, rc, s) \<leftarrow> decode_put ops f rpt a ucp rc s;
       decode_loop ops f inbuf i rpt ucp rc s
     }
   }"

text \<open>The checks on a packet taken from a receive slot; the result tells whether it passed.\<close>

definition decode_check :: "'w k_ops \<Rightarrow> kptr \<Rightarrow> int \<Rightarrow> 'w kst \<Rightarrow> (bool \<times> 'w kst) option" where
  "decode_check ops inbuf rslot s = do {
     p \<leftarrow> ipkt s rslot;
     let s = s\<lparr>k_anseq := p_seq p\<rparr>;
     bs \<leftarrow> (if p_len p > 0 then map_option (take (nat (p_len p))) (read_str s inbuf) else Some []);
     if int (length bs) \<noteq> p_len p then do {
       s \<leftarrow> epkt ops (lit ''EKSW decode len bad'') s;
       Some (False, s)
     }
     else do {
       bs \<leftarrow> read_str s inbuf;
       if chk3 s bs \<noteq> p_crc p then do {
         s \<leftarrow> epkt ops (lit ''EKSW decode crc bad'') s;
         Some (False, s)
       }
       else Some (True, s)
     }
   }"

definition decode :: "'w k_ops \<Rightarrow> int \<Rightarrow> kptr \<Rightarrow> int \<Rightarrow> 'w kst \<Rightarrow> (int \<times> 'w kst) option" where
  "decode ops f inbuf rslot s = do {
     let ucp = (if f = 0 then Ptr R_FILENAME 0 else Null);
     (ok, s) \<leftarrow> (if rslot \<ge> 0 then decode_check ops inbuf rslot s else Some (True, s));
     if \<not> ok then Some (X_ERROR, s)
     else do {
       (ucp, rc, s) \<leftarrow> decode_loop ops f inbuf 0 0 ucp X_OK s;
       s \<leftarrow> (if f = 0 then poke ucp 0 0 s else Some s);
       Some (rc, s)
     }
   }"

end
