(* ===== verification/Kermit_Mem.thy ===== *)
theory Kermit_Mem
  imports Kermit_Base
begin

text \<open>
  Lemmas on the engine's store: what the accesses of \<^verbatim>\<open>Kermit_Base\<close> return when they stay
  inside an array, and the strings an array holds.
\<close>

subsection \<open>Bytes held at a position\<close>

primrec has_bytes :: "byte carray \<Rightarrow> nat \<Rightarrow> byte list \<Rightarrow> bool" where
  "has_bytes f n [] \<longleftrightarrow> True"
| "has_bytes f n (x # xs) \<longleftrightarrow> f n = x \<and> has_bytes f (Suc n) xs"

lemma has_bytes_append:
  "has_bytes f n (xs @ ys) \<longleftrightarrow> has_bytes f n xs \<and> has_bytes f (n + length xs) ys"
  by (induction xs arbitrary: n) auto

lemma has_bytes_nth: "has_bytes f n bs \<longleftrightarrow> (\<forall>i < length bs. f (n + i) = bs ! i)"
proof (induction bs arbitrary: n)
  case (Cons x xs)
  show ?case
    unfolding has_bytes.simps Cons.IH [of "Suc n"] by (simp add: All_less_Suc2)
qed simp

lemma has_bytes_map: "has_bytes f n (map f [n..<n + k])"
  by (simp add: has_bytes_nth)

lemma has_bytes_upd_out: "i < n \<or> n + length bs \<le> i \<Longrightarrow> has_bytes (f(i := v)) n bs = has_bytes f n bs"
  by (induction bs arbitrary: n) auto

lemma has_bytes_splice: "has_bytes (splice f n bs) n bs"
  by (simp add: has_bytes_nth splice_def)

lemma splice_outside: "i < n \<or> n + length bs \<le> i \<Longrightarrow> splice f n bs i = f i"
  by (auto simp: splice_def)

lemma map_eq_has_bytes: "has_bytes f n bs \<Longrightarrow> map f [n..<n + length bs] = bs"
  by (rule nth_equalityI) (auto simp: has_bytes_nth)

lemma str_upto_has_bytes:
  "has_bytes f n (bs @ [0]) \<Longrightarrow> 0 \<notin> set bs \<Longrightarrow> length bs < k \<Longrightarrow> str_upto k f n = Some bs"
proof (induction bs arbitrary: n k)
  case Nil
  then show ?case by (cases k) auto
next
  case (Cons x xs)
  then show ?case by (cases k) auto
qed

subsection \<open>Accesses inside an array\<close>

lemma peek_in [cmem]:
  "0 \<le> n + i \<Longrightarrow> n + i < int (bufsz b) \<Longrightarrow> peek s (Ptr b n) i = Some (mem s b (nat (n + i)))"
  by (simp add: peek_def arr_get_in)

lemma peek_nat: "n < bufsz b \<Longrightarrow> peek s (Ptr b 0) (int n) = Some (mem s b n)"
  by (simp add: peek_in)

lemma poke_in [cmem]:
  "0 \<le> n + i \<Longrightarrow> n + i < int (bufsz b) \<Longrightarrow>
     poke (Ptr b n) i v s = Some (s\<lparr>mem := (mem s)(b := (mem s b)(nat (n + i) := v))\<rparr>)"
  by (simp add: poke_def arr_set_in)

lemma read_bytes_in [cmem]:
  assumes "0 \<le> n" and "nat n + k \<le> bufsz b"
  shows "read_bytes s (Ptr b n) k = Some (map (mem s b) [nat n..<nat n + k])"
proof -
  have p: "map (\<lambda>i. peek s (Ptr b n) (int i)) [0..<k] = map (\<lambda>i. Some (mem s b (nat n + i))) [0..<k]"
    using assms by (intro map_cong refl) (simp add: peek_in nat_add_distrib)
  have t: "those (map (\<lambda>i. Some (g i)) xs) = Some (map g xs)" for g :: "nat \<Rightarrow> byte" and xs
    by (induction xs) auto
  have m: "map (\<lambda>i. mem s b (nat n + i)) [0..<k] = map (mem s b) [nat n..<nat n + k]"
    by (rule nth_equalityI) auto
  show ?thesis
    by (simp only: read_bytes_def p t m)
qed

lemma read_str_in [cmem]:
  assumes "has_bytes (mem s b) (nat n) (bs @ [0])" and "0 \<notin> set bs"
    and "0 \<le> n" and "nat n + length bs < bufsz b"
  shows "read_str s (Ptr b n) = Some bs"
  using assms by (simp add: read_str_def str_upto_has_bytes)

lemma write_bytes_in [cmem]:
  "0 \<le> n \<Longrightarrow> n + int (length bs) \<le> int (bufsz b) \<Longrightarrow>
     write_bytes (Ptr b n) bs s = Some (s\<lparr>mem := (mem s)(b := splice (mem s b) (nat n) bs)\<rparr>)"
  by (simp add: write_bytes_def)

lemma peek_cong_mem: "mem s = mem s' \<Longrightarrow> peek s = peek s'"
  by (intro ext) (simp add: peek_def split: kptr.split)

lemma read_str_cong_mem: "mem s = mem s' \<Longrightarrow> read_str s = read_str s'"
  by (intro ext) (simp add: read_str_def split: kptr.split)

lemma read_str_no_zero: "read_str s p = Some bs \<Longrightarrow> 0 \<notin> set bs"
proof -
  have "str_upto k f n = Some bs \<Longrightarrow> 0 \<notin> set bs" for k f n bs
    by (induction k f n arbitrary: bs rule: str_upto.induct) (auto split: if_splits)
  then show "read_str s p = Some bs \<Longrightarrow> 0 \<notin> set bs"
    by (auto simp: read_str_def cstr_no_zero split: kptr.splits if_splits)
qed

end
