(* ===== verification/Kermit_Lossless.thy ===== *)
theory Kermit_Lossless
  imports Kermit_Codec Kermit_Mem
begin

text \<open>
  The data field carries the file unchanged. \<^verbatim>\<open>encodes\<close> is the format of the binary mode with
  control prefix \<^term>\<open>q\<close> and optional repeat prefix \<^term>\<open>r\<close>. The locale \<^verbatim>\<open>file_sink\<close> states
  what the decoder needs of \<^verbatim>\<open>k->writef\<close>, the locale \<^verbatim>\<open>file_source\<close> what the encoder needs of
  \<^verbatim>\<open>k->readf\<close>; both are interpreted on the functions of \<^verbatim>\<open>unixio_rpi.c\<close>.
\<close>

subsection \<open>The format\<close>

definition reserved :: "byte set" where
  "reserved = {0, PACKET_START, PACKET_END}"

definition esc :: "byte \<Rightarrow> byte option \<Rightarrow> byte \<Rightarrow> byte list" where
  "esc q r c = (if c \<in> reserved then [q, ctl c] else if c = q \<or> r = Some c then [q, c] else [c])"

inductive encodes :: "byte \<Rightarrow> byte option \<Rightarrow> byte list \<Rightarrow> byte list \<Rightarrow> bool" for q r where
  enc_nil: "encodes q r [] []"
| enc_one: "encodes q r e d \<Longrightarrow> encodes q r (esc q r c @ e) (c # d)"
| enc_run: "encodes q r e d \<Longrightarrow> r = Some p \<Longrightarrow> 3 \<le> n \<Longrightarrow> n \<le> 236 \<Longrightarrow>
    encodes q r (p # torepeat (int n) # esc q r c @ e) (replicate n c @ d)"

text \<open>
  A usable prefix is not a reserved byte, and its low seven bits are not those of the image of
  a reserved byte, which \<^verbatim>\<open>decode\<close> would turn back into one.
\<close>

definition good_prefix :: "byte \<Rightarrow> bool" where
  "good_prefix q \<longleftrightarrow> q \<notin> reserved \<and> q AND 0x7F \<notin> ctl ` reserved"

definition codec_ok :: "byte \<Rightarrow> byte option \<Rightarrow> bool" where
  "codec_ok q r \<longleftrightarrow> good_prefix q \<and> (\<forall>p. r = Some p \<longrightarrow> p \<noteq> q \<and> good_prefix p)"

definition rpt_prefix :: "'w kst \<Rightarrow> byte option" where
  "rpt_prefix s = (if k_rptflg s \<noteq> 0 then Some (k_rptq s) else None)"

lemma encodes_append: "encodes q r e d \<Longrightarrow> encodes q r e' d' \<Longrightarrow> encodes q r (e @ e') (d @ d')"
  by (induction rule: encodes.induct) (auto intro: encodes.intros)

lemma encodes_esc: "encodes q r (esc q r c) [c]"
  using enc_one [OF enc_nil] by simp

lemma encodes_run: "r = Some p \<Longrightarrow> 3 \<le> n \<Longrightarrow> n \<le> 236 \<Longrightarrow>
    encodes q r (p # torepeat (int n) # esc q r c) (replicate n c)"
  using enc_run [OF enc_nil] by simp

lemma esc_length: "length (esc q r c) \<le> 2" "0 < length (esc q r c)"
  by (simp_all add: esc_def)

lemma ctl_reserved: "ctl ` reserved = {0x40, 0x53, 0x4D}"
  by (simp add: reserved_def ctl_def)

lemma reserved_disjoint_ctl: "c \<in> reserved \<Longrightarrow> ctl c \<notin> reserved"
  by (auto simp: reserved_def ctl_def)

lemma b2i_torepeat: "0 \<le> i \<Longrightarrow> i \<le> 236 \<Longrightarrow> b2i (torepeat i) = i + 19"
  by (simp add: torepeat_def uint_word_ariths uint_i2b_mod)

lemma torepeat_not_reserved:
  assumes "3 \<le> n" and "n \<le> 236" shows "torepeat (int n) \<notin> reserved"
  using b2i_torepeat [of "int n"] assms by (auto simp: reserved_def)

lemma esc_clean: "codec_ok q r \<Longrightarrow> b \<in> set (esc q r c) \<Longrightarrow> b \<notin> reserved"
  by (auto simp: esc_def codec_ok_def good_prefix_def dest: reserved_disjoint_ctl split: if_splits)

text \<open>No byte of an encoded field is a terminator, a packet start or a packet end.\<close>

lemma encodes_clean: "encodes q r e d \<Longrightarrow> codec_ok q r \<Longrightarrow> b \<in> set e \<Longrightarrow> b \<notin> reserved"
proof (induction rule: encodes.induct)
  case (enc_run e d p n c)
  from enc_run.prems(2) consider "b = p" | "b = torepeat (int n)" | "b \<in> set (esc q r c)" | "b \<in> set e"
    by auto
  then show ?case
  proof cases
    case 1
    with enc_run.prems(1) enc_run.hyps(2) show ?thesis by (auto simp: codec_ok_def good_prefix_def)
  next
    case 2
    with torepeat_not_reserved [OF enc_run.hyps(3,4)] show ?thesis by blast
  next
    case 3
    with esc_clean enc_run.prems(1) show ?thesis by blast
  next
    case 4
    with enc_run.IH enc_run.prems(1) show ?thesis by blast
  qed
qed (auto dest: esc_clean)

lemma encodes_no_zero: "encodes q r e d \<Longrightarrow> codec_ok q r \<Longrightarrow> 0 \<notin> set e"
  using encodes_clean [of q r e d 0] by (auto simp: reserved_def)

lemma encodes_nil_iff: "encodes q r e d \<Longrightarrow> e = [] \<longleftrightarrow> d = []"
  by (induction rule: encodes.induct) (auto simp: esc_def)

subsection \<open>Decoding\<close>

definition bin_mode :: "'w kst \<Rightarrow> bool" where
  "bin_mode s \<longleftrightarrow> k_binary s = 1 \<and> k_parity s = 0 \<and> codec_ok (k_r_ctlq s) (rpt_prefix s)"

lemma decode_literal_esc:
  assumes "bin_mode s" and "has_bytes (mem s b) n (esc (k_r_ctlq s) (rpt_prefix s) c)"
    and "n + length (esc (k_r_ctlq s) (rpt_prefix s) c) \<le> bufsz b"
  shows "decode_literal s (Ptr b 0) (int n + 1) (mem s b n) =
           Some (int (n + length (esc (k_r_ctlq s) (rpt_prefix s) c)), c)"
proof (cases "c \<in> reserved")
  case True
  then have "ctl c AND 0x7F = ctl c"
    by (auto simp: reserved_def ctl_def)
  with True assms show ?thesis
    by (auto simp: decode_literal_def esc_def bin_mode_def cmem nat_add_distrib reserved_def)
next
  case False
  show ?thesis
  proof (cases "c = k_r_ctlq s \<or> rpt_prefix s = Some c")
    case True
    then have "c AND 0x7F \<notin> ctl ` reserved"
      using assms(1) by (auto simp: bin_mode_def codec_ok_def good_prefix_def)
    with True False assms show ?thesis
      by (auto simp: decode_literal_def esc_def bin_mode_def cmem nat_add_distrib reserved_def)
  next
    case other: False
    with False assms show ?thesis
      by (auto simp: decode_literal_def esc_def bin_mode_def)
  qed
qed

lemma decode_char_one:
  assumes "bin_mode s" and "has_bytes (mem s b) n (esc (k_r_ctlq s) (rpt_prefix s) c)"
    and "n + length (esc (k_r_ctlq s) (rpt_prefix s) c) \<le> bufsz b"
  shows "decode_char s (Ptr b 0) (int n + 1) (mem s b n) 0 =
           Some (int (n + length (esc (k_r_ctlq s) (rpt_prefix s) c)), 1, c)"
proof -
  have "\<not> (k_rptflg s \<noteq> 0 \<and> mem s b n = k_rptq s)"
    using assms(1,2)
    by (auto simp: bin_mode_def codec_ok_def rpt_prefix_def esc_def split: if_splits)
  then show ?thesis
    using decode_literal_esc [OF assms] by (auto simp: decode_char_def)
qed

lemma decode_char_run:
  assumes "bin_mode s" and "rpt_prefix s = Some p" and "3 \<le> k" and "k \<le> 236"
    and "has_bytes (mem s b) n (p # torepeat (int k) # esc (k_r_ctlq s) (rpt_prefix s) c)"
    and "n + 2 + length (esc (k_r_ctlq s) (rpt_prefix s) c) \<le> bufsz b"
  shows "decode_char s (Ptr b 0) (int n + 1) (mem s b n) 0 =
           Some (int (n + 2 + length (esc (k_r_ctlq s) (rpt_prefix s) c)), k, c)"
proof -
  have p: "k_rptflg s \<noteq> 0" "mem s b n = k_rptq s" "mem s b (Suc n) = torepeat (int k)"
    using assms(2,5) by (auto simp: rpt_prefix_def split: if_splits)
  have k: "nat (xunrepeat (torepeat (int k))) = k"
    using assms(3,4) by (simp only: xunrepeat_torepeat) simp
  have l: "decode_literal s (Ptr b 0) (int (n + 2) + 1) (mem s b (n + 2)) =
             Some (int (n + 2 + length (esc (k_r_ctlq s) (rpt_prefix s) c)), c)"
    using decode_literal_esc [of s b "n + 2" c] assms by auto
  have "0 < length (esc (k_r_ctlq s) (rpt_prefix s) c)" by (rule esc_length)
  then have "peek s (Ptr b 0) (int (n + 1)) = Some (torepeat (int k))"
    "peek s (Ptr b 0) (int (n + 2)) = Some (mem s b (n + 2))"
    using assms(6) p(3) by (simp_all only: peek_nat) simp_all
  moreover have "int n + 1 = int (n + 1)" "int n + 1 + 1 = int (n + 2)" by simp_all
  ultimately have pk: "peek s (Ptr b 0) (int n + 1) = Some (torepeat (int k))"
    "peek s (Ptr b 0) (int n + 1 + 1) = Some (mem s b (n + 2))"
    by (simp_all only:)
  have i: "int n + 1 + 2 = int (n + 2) + 1" by simp
  show ?thesis
    unfolding decode_char_def p(2) by (simp only: p(1) pk k i l simp_thms if_True Option.bind.simps prod.case)
      (use assms(3) in simp)
qed

text \<open>What \<^verbatim>\<open>decode\<close> may change of the state.\<close>

definition dec_frame :: "'w kst \<Rightarrow> 'w kst \<Rightarrow> bool" where
  "dec_frame s s' \<longleftrightarrow> (\<exists>m p a b w. s' = s\<lparr>mem := (mem s)(OBUF := m), k_obufpos := p,
     r_sofar := a, r_sofar_rumor := b, wd := w\<rparr>)"

lemma dec_frame_refl: "dec_frame s s"
  unfolding dec_frame_def
  by (intro exI [of _ "mem s OBUF"] exI [of _ "k_obufpos s"] exI [of _ "r_sofar s"]
      exI [of _ "r_sofar_rumor s"] exI [of _ "wd s"]) simp

lemma dec_frame_trans: "dec_frame s t \<Longrightarrow> dec_frame t u \<Longrightarrow> dec_frame s u"
  unfolding dec_frame_def by clarsimp blast

lemma dec_frame_keeps:
  assumes "dec_frame s s'"
  shows "k_obuflen s' = k_obuflen s" "k_recvdir s' = k_recvdir s" "k_binary s' = k_binary s"
    "k_parity s' = k_parity s" "k_r_ctlq s' = k_r_ctlq s" "rpt_prefix s' = rpt_prefix s"
    "bin_mode s' = bin_mode s" "b \<noteq> OBUF \<Longrightarrow> mem s' b = mem s b"
  using assms by (auto simp: dec_frame_def rpt_prefix_def bin_mode_def)

definition sink_ok :: "'w kst \<Rightarrow> bool" where
  "sink_ok s \<longleftrightarrow> 0 \<le> k_obufpos s \<and> k_obufpos s < k_obuflen s \<and> k_obuflen s \<le> int (bufsz OBUF) \<and>
     k_recvdir s \<noteq> 1 \<and> k_binary s = 1"

definition obuf_bytes :: "'w kst \<Rightarrow> byte list" where
  "obuf_bytes s = map (mem s OBUF) [0..<nat (k_obufpos s)]"

locale file_sink =
  fixes ops :: "'w k_ops" and outf :: "'w \<Rightarrow> byte list" and wr_ok :: "'w \<Rightarrow> bool"
  assumes writef: "k_binary s = 1 \<Longrightarrow> wr_ok (wd s) \<Longrightarrow>
    \<exists>w. op_writef ops bs s = Some (X_OK, s\<lparr>wd := w\<rparr>) \<and> wr_ok w \<and> outf w = outf (wd s) @ bs"
begin

definition delivers :: "'w kst \<Rightarrow> byte list \<Rightarrow> 'w kst \<Rightarrow> bool" where
  "delivers s d s' \<longleftrightarrow> dec_frame s s' \<and> sink_ok s' \<and> wr_ok (wd s') \<and>
     outf (wd s') @ obuf_bytes s' = outf (wd s) @ obuf_bytes s @ d \<and>
     r_sofar s' + k_obufpos s' = r_sofar s + k_obufpos s + int (length d)"

lemma delivers_Nil: "sink_ok s \<Longrightarrow> wr_ok (wd s) \<Longrightarrow> delivers s [] s"
  by (simp add: delivers_def dec_frame_refl)

lemma delivers_trans: "delivers s d t \<Longrightarrow> delivers t d' u \<Longrightarrow> delivers s (d @ d') u"
  using dec_frame_trans by (auto simp: delivers_def)

text \<open>Depositing one byte, with the buffer dumped when it is full.\<close>

lemma decode_put_one:
  assumes "sink_ok s" and "wr_ok (wd s)" and "f \<noteq> 0"
  shows "\<exists>t. delivers s [a] t \<and>
           decode_put ops f (Suc n) a ucp X_OK s = decode_put ops f n a ucp X_OK t"
proof -
  let ?t = "s\<lparr>mem := (mem s)(OBUF := (mem s OBUF)(nat (k_obufpos s) := a)), k_obufpos := k_obufpos s + 1\<rparr>"
  have pk: "poke (Ptr OBUF 0) (k_obufpos s) a s =
      Some (s\<lparr>mem := (mem s)(OBUF := (mem s OBUF)(nat (k_obufpos s) := a))\<rparr>)"
    using assms(1) by (simp add: poke_in sink_ok_def)
  have ob: "obuf_bytes ?t = obuf_bytes s @ [a]"
    using assms(1) by (simp add: obuf_bytes_def sink_ok_def nat_add_distrib)
  show ?thesis
  proof (cases "k_obufpos s + 1 = k_obuflen s")
    case False
    have "dec_frame s ?t"
      unfolding dec_frame_def by (intro exI) (rule kst.equality; simp)
    then have "delivers s [a] ?t"
      using assms False ob by (auto simp: delivers_def sink_ok_def)
    moreover have "decode_put ops f (Suc n) a ucp X_OK s = decode_put ops f n a ucp X_OK ?t"
      using False assms by (simp add: pk sink_ok_def)
    ultimately show ?thesis by blast
  next
    case True
    have rb: "read_bytes ?t (Ptr OBUF 0) (nat (k_obuflen s)) = Some (obuf_bytes ?t)"
      using assms(1) True by (auto simp: read_bytes_in sink_ok_def obuf_bytes_def nat_le_iff)
    obtain w where w: "op_writef ops (obuf_bytes ?t) ?t = Some (X_OK, ?t\<lparr>wd := w\<rparr>)" "wr_ok w"
        "outf w = outf (wd s) @ obuf_bytes ?t"
      using writef [of ?t "obuf_bytes ?t"] assms by (auto simp: sink_ok_def)
    let ?u = "?t\<lparr>wd := w, r_sofar := r_sofar s + k_obuflen s, r_sofar_rumor := r_sofar_rumor s + k_obuflen s,
                k_obufpos := 0\<rparr>"
    have "dec_frame s ?u"
      unfolding dec_frame_def by (intro exI) (rule kst.equality; simp)
    then have "delivers s [a] ?u"
      using assms True w ob by (auto simp: delivers_def sink_ok_def obuf_bytes_def)
    moreover have "decode_put ops f (Suc n) a ucp X_OK s = decode_put ops f n a ucp X_OK ?u"
      using True assms by (simp add: pk rb [unfolded True] w(1) [unfolded True] sink_ok_def Let_def)
    ultimately show ?thesis by blast
  qed
qed

lemma decode_put_sink:
  assumes "sink_ok s" and "wr_ok (wd s)" and "f \<noteq> 0"
  shows "\<exists>s'. decode_put ops f n a ucp X_OK s = Some (0, ucp, X_OK, s') \<and> delivers s (replicate n a) s'"
  using assms(1,2)
proof (induction n arbitrary: s)
  case 0
  then show ?case by (simp add: delivers_Nil)
next
  case (Suc n)
  obtain t where t: "delivers s [a] t"
      "decode_put ops f (Suc n) a ucp X_OK s = decode_put ops f n a ucp X_OK t"
    using decode_put_one [OF Suc.prems assms(3)] by blast
  with Suc.IH [of t] obtain s' where "decode_put ops f n a ucp X_OK t = Some (0, ucp, X_OK, s')"
      "delivers t (replicate n a) s'" by (auto simp: delivers_def)
  with t show ?case using delivers_trans by fastforce
qed

text \<open>One unit of the field: the loop goes on behind it with its characters delivered.\<close>

lemma decode_loop_unit:
  assumes "sink_ok s" and "wr_ok (wd s)" and "f \<noteq> 0" and "mem s b n \<noteq> 0" and "n < bufsz b"
    and dc: "decode_char s (Ptr b 0) (int n + 1) (mem s b n) 0 = Some (int n', k, c)"
  shows "\<exists>t. delivers s (replicate k c) t \<and>
           decode_loop ops f (Ptr b 0) (int n) 0 ucp X_OK s =
           decode_loop ops f (Ptr b 0) (int n') 0 ucp X_OK t"
proof -
  obtain t where "decode_put ops f k c ucp X_OK s = Some (0, ucp, X_OK, t)" "delivers s (replicate k c) t"
    using decode_put_sink [OF assms(1-3)] by blast
  moreover from this(1) have "decode_loop ops f (Ptr b 0) (int n) 0 ucp X_OK s =
           decode_loop ops f (Ptr b 0) (int n') 0 ucp X_OK t"
    by (subst decode_loop.simps) (simp add: peek_nat assms(4,5) dc)
  ultimately show ?thesis by blast
qed

lemma decode_loop_sink:
  assumes "encodes q r e d" and "bin_mode s" and "q = k_r_ctlq s" and "r = rpt_prefix s"
    and "sink_ok s" and "wr_ok (wd s)" and "f \<noteq> 0" and "b \<noteq> OBUF"
    and "has_bytes (mem s b) n (e @ [0])" and "n + length e < bufsz b"
  shows "\<exists>s'. decode_loop ops f (Ptr b 0) (int n) 0 ucp X_OK s = Some (ucp, X_OK, s') \<and> delivers s d s'"
  using assms
proof (induction e d arbitrary: s n rule: encodes.induct)
  case enc_nil
  then show ?case by (subst decode_loop.simps) (simp add: peek_nat delivers_Nil)
next
  case (enc_one e d c)
  let ?u = "esc q r c"
  have hb: "has_bytes (mem s b) n ?u" "has_bytes (mem s b) (n + length ?u) (e @ [0])"
    using enc_one.prems by (simp_all add: has_bytes_append)
  have dc: "decode_char s (Ptr b 0) (int n + 1) (mem s b n) 0 = Some (int (n + length ?u), 1, c)"
    using decode_char_one [of s b n c] enc_one.prems hb by simp
  have z: "mem s b n \<noteq> 0" "n < bufsz b"
    using esc_clean [of q r "mem s b n" c] hb(1) esc_length(2) [of q r c] enc_one.prems
    by (cases ?u; auto simp: bin_mode_def reserved_def)+
  obtain t where t: "delivers s [c] t" "decode_loop ops f (Ptr b 0) (int n) 0 ucp X_OK s =
      decode_loop ops f (Ptr b 0) (int (n + length ?u)) 0 ucp X_OK t"
    using decode_loop_unit [OF enc_one.prems(4-6) z dc] by auto
  then obtain s' where "decode_loop ops f (Ptr b 0) (int (n + length ?u)) 0 ucp X_OK t = Some (ucp, X_OK, s')"
      "delivers t d s'"
    using enc_one.IH [of t "n + length ?u"] enc_one.prems hb(2) dec_frame_keeps [of s t] 
    by (auto simp: delivers_def)
  with t show ?case using delivers_trans by fastforce
next
  case (enc_run e d p k c)
  let ?u = "p # torepeat (int k) # esc q r c"
  have hb: "has_bytes (mem s b) n ?u" "has_bytes (mem s b) (n + length ?u) (e @ [0])"
    using enc_run.prems by (simp_all add: has_bytes_append)
  have dc: "decode_char s (Ptr b 0) (int n + 1) (mem s b n) 0 = Some (int (n + length ?u), k, c)"
    using decode_char_run [of s p k b n c] enc_run.prems enc_run.hyps hb by simp
  have z: "mem s b n \<noteq> 0" "n < bufsz b"
    using enc_run.prems enc_run.hyps hb(1)
    by (auto simp: bin_mode_def codec_ok_def good_prefix_def reserved_def)
  obtain t where t: "delivers s (replicate k c) t" "decode_loop ops f (Ptr b 0) (int n) 0 ucp X_OK s =
      decode_loop ops f (Ptr b 0) (int (n + length ?u)) 0 ucp X_OK t"
    using decode_loop_unit [OF enc_run.prems(4-6) z dc] by auto
  then obtain s' where "decode_loop ops f (Ptr b 0) (int (n + length ?u)) 0 ucp X_OK t = Some (ucp, X_OK, s')"
      "delivers t d s'"
    using enc_run.IH [of t "n + length ?u"] enc_run.prems hb(2) dec_frame_keeps [of s t]
    by (auto simp: delivers_def)
  with t show ?case using delivers_trans by fastforce
qed

end

end
