(* ===== verification/Kermit_Source.thy ===== *)
theory Kermit_Source
  imports Kermit_Lossless
begin

text \<open>
  The encoder: \<^verbatim>\<open>encode\<close> appends units of the format to \<^verbatim>\<open>k->xdata\<close>, and \<^verbatim>\<open>getpkt\<close> cuts the
  input into data fields at unit boundaries, keeping what does not fit in \<^verbatim>\<open>k->s_remain\<close>.
\<close>

subsection \<open>Appending to the data field\<close>

definition xfield :: "'w kst \<Rightarrow> byte list" where
  "xfield s = map (mem s XDATABUF) [0..<nat (k_size s)]"

definition enc_mode :: "'w kst \<Rightarrow> bool" where
  "enc_mode s \<longleftrightarrow> k_binary s = 1 \<and> k_ebqflg s = 0 \<and> codec_ok (k_s_ctlq s) (rpt_prefix s) \<and>
     k_xdata s = Ptr XDATABUF 0"

definition appends :: "'w kst \<Rightarrow> byte list \<Rightarrow> 'w kst \<Rightarrow> bool" where
  "appends s u t \<longleftrightarrow> xfield t = xfield s @ u \<and>
     (\<exists>m. t = s\<lparr>mem := (mem s)(XDATABUF := m), k_size := k_size s + int (length u)\<rparr>)"

lemma appends_trans: "appends s u t \<Longrightarrow> appends t v w \<Longrightarrow> appends s (u @ v) w"
  by (auto simp: appends_def add.assoc)

lemma appends_Nil: "appends s [] s"
  unfolding appends_def by (auto intro!: exI [of _ "mem s XDATABUF"])

lemma appends_keeps:
  assumes "appends s u t"
  shows "k_size t = k_size s + int (length u)" "k_xdata t = k_xdata s" "k_ebqflg t = k_ebqflg s"
    "k_binary t = k_binary s" "k_s_ctlq t = k_s_ctlq s" "rpt_prefix t = rpt_prefix s"
    "k_rptflg t = k_rptflg s" "k_rptq t = k_rptq s" "k_ebq t = k_ebq s" "enc_mode t = enc_mode s"
    "k_s_rpt t = k_s_rpt s" "k_osize t = k_osize s" "k_s_maxlen t = k_s_maxlen s"
  using assms by (auto simp: appends_def rpt_prefix_def enc_mode_def)

lemma emit_appends:
  assumes "k_xdata s = Ptr XDATABUF 0" and "0 \<le> k_size s" and "k_size s < 1002"
  shows "\<exists>t. emit v s = Some t \<and> appends s [v] t"
proof -
  let ?t = "s\<lparr>mem := (mem s)(XDATABUF := (mem s XDATABUF)(nat (k_size s) := v)), k_size := k_size s + 1\<rparr>"
  have "emit v s = Some ?t"
    using assms by (simp add: emit_def poke_in)
  moreover have "appends s [v] ?t"
    using assms(2) by (auto simp: appends_def xfield_def nat_add_distrib)
  ultimately show ?thesis by blast
qed

lemma appends_terminated:
  assumes "appends s u t"
  shows "appends s u (t\<lparr>mem := (mem t)(XDATABUF := (mem t XDATABUF)(nat (k_size t) := v))\<rparr>)"
proof -
  let ?w = "t\<lparr>mem := (mem t)(XDATABUF := (mem t XDATABUF)(nat (k_size t) := v))\<rparr>"
  obtain m where m: "t = s\<lparr>mem := (mem s)(XDATABUF := m), k_size := k_size s + int (length u)\<rparr>"
    "xfield t = xfield s @ u"
    using assms by (auto simp: appends_def)
  have "\<exists>m. ?w = s\<lparr>mem := (mem s)(XDATABUF := m), k_size := k_size s + int (length u)\<rparr>"
    by (intro exI [of _ "m(nat (k_size t) := v)"], rule kst.equality) (simp_all add: m(1))
  moreover have "xfield ?w = xfield t" by (auto simp: xfield_def)
  ultimately show ?thesis using m(2) by (simp add: appends_def)
qed

lemma is_ctl_char_reserved: "k_binary s = 1 \<Longrightarrow> is_ctl_char s (b2i c) \<longleftrightarrow> c \<in> reserved"
  by (auto simp: is_ctl_char_def reserved_def word_uint_eq_iff)

lemma encode_char_appends:
  assumes "enc_mode s" and "0 \<le> k_size s" and "k_size s \<le> 999"
  shows "\<exists>t. encode_char ops (b2i c) s = Some t \<and> appends s (esc (k_s_ctlq s) (rpt_prefix s) c) t \<and>
           mem t XDATABUF (nat (k_size t)) = 0"
proof -
  let ?q = "k_s_ctlq s" and ?r = "rpt_prefix s"
  let ?pre = "if c \<in> reserved \<or> c = ?q \<or> ?r = Some c then [?q] else []"
  let ?ch = "if c \<in> reserved then ctl c else c"
  obtain t where t: "(if ?pre \<noteq> [] then emit ?q s else Some s) = Some t" "appends s ?pre t"
  proof (cases "?pre = []")
    case True
    then show ?thesis using that [of s] appends_Nil [of s] by simp
  next
    case False
    obtain t where "emit ?q s = Some t" "appends s [?q] t"
      using emit_appends [of s ?q] assms by (auto simp: enc_mode_def)
    with False show ?thesis using that [of t] by (simp split: if_splits)
  qed
  obtain u where u: "emit ?ch t = Some u" "appends t [?ch] u"
    using emit_appends [of t ?ch] assms appends_keeps [OF t(2)] by (auto simp: enc_mode_def split: if_splits)
  let ?w = "u\<lparr>mem := (mem u)(XDATABUF := (mem u XDATABUF)(nat (k_size u) := 0))\<rparr>"
  have sz: "0 \<le> k_size u" "k_size u \<le> 1001"
    using appends_keeps(1) [OF t(2)] appends_keeps(1) [OF u(2)] assms by (auto split: if_splits)
  have pk: "poke (k_xdata u) (k_size u) 0 u = Some ?w"
    using sz appends_keeps [OF t(2)] appends_keeps [OF u(2)] assms by (simp add: poke_in enc_mode_def)
  have e: "?pre @ [?ch] = esc ?q ?r c"
    by (simp add: esc_def)
  have "appends s (esc ?q ?r c) u"
    using appends_trans [OF t(2) u(2)] by (simp only: e)
  then have "appends s (esc ?q ?r c) ?w"
    by (rule appends_terminated)
  moreover have "encode_char ops (b2i c) s = Some ?w"
  proof -
    have m: "k_binary s = 1" "k_ebqflg s = 0" "k_binary t = 1" "k_ebqflg t = 0"
      using assms appends_keeps [OF t(2)] by (auto simp: enc_mode_def)
    have p: "(if is_ctl_char s (b2i c) \<or> b2i c = b2i ?q \<or> k_ebqflg s \<noteq> 0 \<and> b2i c = b2i (k_ebq s) \<or>
        k_rptflg s \<noteq> 0 \<and> b2i c = b2i (k_rptq s) then emit ?q s else Some s) = Some t"
      using t(1) m by (auto simp: is_ctl_char_reserved rpt_prefix_def word_uint_eq_iff [symmetric] split: if_splits)
    show ?thesis
      unfolding encode_char_def Let_def
      using m u(1) pk sz p by (cases "c \<in> reserved") (simp_all add: is_ctl_char_reserved)
  qed
  ultimately show ?thesis by auto
qed

subsection \<open>One call of encode\<close>

text \<open>
  The state reached: \<^term>\<open>e1\<close> is what was emitted before the position \<^verbatim>\<open>k->osize\<close>, \<^term>\<open>e2\<close>
  what was emitted behind it; \<^term>\<open>n\<close> is the length of the run that is still counted.
\<close>

definition encoded :: "'w kst \<Rightarrow> byte list \<Rightarrow> byte list \<Rightarrow> nat \<Rightarrow> 'w kst \<Rightarrow> bool" where
  "encoded s e1 e2 n t \<longleftrightarrow> xfield t = xfield s @ e1 @ e2 \<and>
     (e1 @ e2 \<noteq> [] \<longrightarrow> mem t XDATABUF (nat (k_size t)) = 0) \<and>
     (\<exists>m. t = s\<lparr>mem := (mem s)(XDATABUF := m), k_size := k_size s + int (length (e1 @ e2)),
              k_osize := k_size s + int (length e1), k_s_rpt := int n\<rparr>)"

lemma encodedI:
  assumes "appends (s\<lparr>k_s_rpt := int n\<rparr>) e t" and "mem t XDATABUF (nat (k_size t)) = 0"
    and "k_osize s = k_size s"
  shows "encoded s [] e n t"
proof -
  from assms(1) obtain m where
    m: "t = s\<lparr>k_s_rpt := int n, mem := (mem s)(XDATABUF := m), k_size := k_size s + int (length e)\<rparr>"
    and x: "xfield t = xfield s @ e"
    by (auto simp: appends_def xfield_def)
  have "\<exists>m. t = s\<lparr>mem := (mem s)(XDATABUF := m), k_size := k_size s + int (length e),
              k_osize := k_size s, k_s_rpt := int n\<rparr>"
    by (intro exI [of _ m], rule kst.equality) (simp_all add: m assms(3))
  then show ?thesis
    using assms(2) x unfolding encoded_def by (simp only: append_Nil list.size of_nat_0 add_0_right) simp
qed

lemma emit_repeat_appends:
  assumes "k_xdata s = Ptr XDATABUF 0" and "0 \<le> k_size s" and "k_size s < 1001"
  shows "\<exists>t. emit_repeat n s = Some t \<and> appends (s\<lparr>k_s_rpt := 0\<rparr>) [k_rptq s, torepeat n] t"
proof -
  obtain t where t: "emit (k_rptq s) s = Some t" "appends s [k_rptq s] t"
    using emit_appends [of s "k_rptq s"] assms by auto
  obtain u where u: "emit (torepeat n) t = Some u" "appends t [torepeat n] u"
    using emit_appends [of t] appends_keeps [OF t(2)] assms by auto
  have "appends s [k_rptq s, torepeat n] u"
    using appends_trans [OF t(2) u(2)] by simp
  then obtain m where "u = s\<lparr>mem := (mem s)(XDATABUF := m), k_size := k_size s + 2\<rparr>"
    "xfield u = xfield s @ [k_rptq s, torepeat n]"
    by (auto simp: appends_def)
  then have "appends (s\<lparr>k_s_rpt := 0\<rparr>) [k_rptq s, torepeat n] (u\<lparr>k_s_rpt := 0\<rparr>)"
    unfolding appends_def by (auto simp: xfield_def intro!: exI [of _ m])
  then show ?thesis
    using t(1) u(1) by (simp add: emit_repeat_def)
qed

lemma encode_char_zero:
  assumes "enc_mode s" and "0 \<le> k_size s" and "k_size s \<le> 999"
  shows "\<exists>t. encode_char ops (b2i c) (s\<lparr>k_s_rpt := k\<rparr>) = Some t \<and>
           appends (s\<lparr>k_s_rpt := k\<rparr>) (esc (k_s_ctlq s) (rpt_prefix s) c) t \<and>
           mem t XDATABUF (nat (k_size t)) = 0"
proof -
  have "enc_mode (s\<lparr>k_s_rpt := k\<rparr>)" "rpt_prefix (s\<lparr>k_s_rpt := k\<rparr>) = rpt_prefix s"
    using assms(1) by (auto simp: enc_mode_def rpt_prefix_def split: if_splits)
  then show ?thesis using encode_char_appends [of "s\<lparr>k_s_rpt := k\<rparr>" ops c] assms(2,3) by simp
qed

lemma encode_run_appends:
  assumes "enc_mode s" and "0 \<le> k_size s" and "k_size s \<le> 997"
  shows "\<exists>t. do { s' \<leftarrow> emit_repeat n s; encode_char ops (b2i c) s' } = Some t \<and>
           appends (s\<lparr>k_s_rpt := 0\<rparr>) (k_rptq s # torepeat n # esc (k_s_ctlq s) (rpt_prefix s) c) t \<and>
           mem t XDATABUF (nat (k_size t)) = 0"
proof -
  obtain t where t: "emit_repeat n s = Some t" "appends (s\<lparr>k_s_rpt := 0\<rparr>) [k_rptq s, torepeat n] t"
    using emit_repeat_appends [of s] assms by (auto simp: enc_mode_def)
  have k: "k_size t = k_size s + 2" "k_s_ctlq t = k_s_ctlq s" "rpt_prefix t = rpt_prefix s" "enc_mode t"
    using appends_keeps [OF t(2)] assms(1) by (auto simp: rpt_prefix_def enc_mode_def)
  obtain u where "encode_char ops (b2i c) t = Some u" "appends t (esc (k_s_ctlq s) (rpt_prefix s) c) u"
      "mem u XDATABUF (nat (k_size u)) = 0"
    using encode_char_appends [of t ops c] k assms by auto
  with t appends_trans [OF t(2), of _ u] show ?thesis by auto
qed

text \<open>
  \<^verbatim>\<open>encode\<close> accounts for every character: those it has counted before and the one it is given are
  the ones it emits and the ones it still counts.
\<close>

definition accounts :: "'w kst \<Rightarrow> byte \<Rightarrow> nat \<Rightarrow> byte list \<Rightarrow> byte list \<Rightarrow> nat \<Rightarrow> bool" where
  "accounts s c n e1 e2 n' \<longleftrightarrow>
     (\<exists>d1 d2. encodes (k_s_ctlq s) (rpt_prefix s) e1 d1 \<and> encodes (k_s_ctlq s) (rpt_prefix s) e2 d2 \<and>
        replicate n c @ [c] = d1 @ d2 @ replicate n' c) \<and>
     n' \<le> 235 \<and> (k_rptflg s = 0 \<longrightarrow> n' = 0) \<and> length e1 \<le> 2 \<and> length e2 \<le> 4"

lemma accounts_one: "accounts s c 0 [] (esc (k_s_ctlq s) (rpt_prefix s) c) 0"
  unfolding accounts_def
  using enc_nil encodes_esc order_trans [OF esc_length(1), of 4]
  by (intro conjI exI [of _ "[]"] exI [of _ "[c]"]) simp_all

lemma accounts_two:
  "accounts s c 1 (esc (k_s_ctlq s) (rpt_prefix s) c) (esc (k_s_ctlq s) (rpt_prefix s) c) 0"
  unfolding accounts_def
  using encodes_esc esc_length(1) order_trans [OF esc_length(1), of 4]
  by (intro conjI exI [of _ "[c]"] exI [of _ "[c]"]) simp_all

lemma accounts_run:
  assumes "k_rptflg s \<noteq> 0" and "3 \<le> k" and "k \<le> 236" and "Suc n = k + n'" and "n' \<le> 235"
  shows "accounts s c n [] (k_rptq s # torepeat (int k) # esc (k_s_ctlq s) (rpt_prefix s) c) n'"
proof -
  have "replicate n c @ [c] = [] @ replicate k c @ replicate n' c"
    using assms(4) by (simp add: replicate_append_same flip: replicate_add replicate_Suc)
  moreover have "encodes (k_s_ctlq s) (rpt_prefix s)
      (k_rptq s # torepeat (int k) # esc (k_s_ctlq s) (rpt_prefix s) c) (replicate k c)"
    using assms by (intro encodes_run) (auto simp: rpt_prefix_def)
  moreover have "encodes (k_s_ctlq s) (rpt_prefix s) [] []" by (rule enc_nil)
  ultimately show ?thesis
    using assms(1,5) esc_length(1) [of "k_s_ctlq s" "rpt_prefix s" c] unfolding accounts_def
    by (auto simp del: append_Nil append_Cons)
qed

lemma encode_twice:
  assumes "enc_mode s" and "0 \<le> k_size s" and "k_size s \<le> 990" and "k_size s + 6 \<le> k_s_maxlen s"
    and "k_s_rpt s = 1" and "k_rptflg s \<noteq> 0" and "b2i c \<noteq> next"
  shows "\<exists>t. encode ops (b2i c) next s = Some t \<and>
           encoded s (esc (k_s_ctlq s) (rpt_prefix s) c) (esc (k_s_ctlq s) (rpt_prefix s) c) 0 t"
proof -
  let ?e = "esc (k_s_ctlq s) (rpt_prefix s) c"
  have enc0: "encode ops (b2i c) (-1) u = encode_char ops (b2i c) u" if "k_s_rpt u = 0" for u
  proof -
    have "b2i c \<noteq> -1" using b2i_bounds(1) [of c] by linarith
    then show ?thesis using that by (subst encode.simps) simp
  qed
  obtain t where t: "encode_char ops (b2i c) (s\<lparr>k_s_rpt := 0\<rparr>) = Some t" "appends (s\<lparr>k_s_rpt := 0\<rparr>) ?e t"
    using encode_char_zero [of s ops c 0] assms by auto
  let ?t = "t\<lparr>k_osize := k_size t\<rparr>"
  have sz: "k_size t = k_size s + int (length ?e)" "k_size t \<le> k_size s + 2" "0 \<le> k_size t"
    using appends_keeps(1) [OF t(2)] esc_length(1) [of "k_s_ctlq s" "rpt_prefix s" c] assms(2) by simp_all
  have m: "enc_mode ?t" "k_s_ctlq ?t = k_s_ctlq s" "rpt_prefix ?t = rpt_prefix s"
    using appends_keeps [OF t(2)] assms(1) by (auto simp: enc_mode_def rpt_prefix_def split: if_splits)
  obtain u where u: "encode_char ops (b2i c) (?t\<lparr>k_s_rpt := 0\<rparr>) = Some u" "appends (?t\<lparr>k_s_rpt := 0\<rparr>) ?e u"
      "mem u XDATABUF (nat (k_size u)) = 0"
    using encode_char_zero [OF m(1), of ops c 0] m(2,3) sz assms by auto
  have "encode ops (b2i c) next s = Some u"
    using assms t(1) u(1) sz by (subst encode.simps) (simp add: enc0)
  moreover have "encoded s ?e ?e 0 u"
  proof -
    obtain m1 where m1: "t = s\<lparr>k_s_rpt := 0, mem := (mem s)(XDATABUF := m1), k_size := k_size s + int (length ?e)\<rparr>"
        "xfield t = xfield s @ ?e"
      using t(2) by (auto simp: appends_def xfield_def)
    obtain m2 where m2: "u = ?t\<lparr>k_s_rpt := 0, mem := (mem t)(XDATABUF := m2), k_size := k_size t + int (length ?e)\<rparr>"
        "xfield u = xfield t @ ?e"
      using u(2) by (auto simp: appends_def xfield_def)
    have "\<exists>m. u = s\<lparr>mem := (mem s)(XDATABUF := m), k_size := k_size s + int (length (?e @ ?e)),
              k_osize := k_size s + int (length ?e), k_s_rpt := 0\<rparr>"
      by (intro exI [of _ m2], rule kst.equality) (simp_all add: m2(1) m1(1))
    then show ?thesis using m1(2) m2(2) u(3) by (simp add: encoded_def)
  qed
  ultimately show ?thesis by blast
qed

lemma encode_accounts:
  assumes "enc_mode s" and "0 \<le> k_size s" and "k_size s \<le> 990" and "k_size s + 6 \<le> k_s_maxlen s"
    and "k_osize s = k_size s" and "k_s_rpt s = int n" and "n \<le> 235" and "k_rptflg s = 0 \<longrightarrow> n = 0"
  shows "\<exists>t e1 e2 n'. encode ops (b2i c) next s = Some t \<and> encoded s e1 e2 n' t \<and>
           accounts s c n e1 e2 n' \<and> (n' \<noteq> 0 \<longrightarrow> next = b2i c)"
proof -
  let ?q = "k_s_ctlq s" and ?r = "rpt_prefix s"
  have eq: "s\<lparr>k_s_rpt := int n\<rparr> = s" using assms(6) by simp
  obtain t where t: "encode_char ops (b2i c) s = Some t" "appends s (esc ?q ?r c) t"
      "mem t XDATABUF (nat (k_size t)) = 0"
    using encode_char_appends [of s ops c] assms by auto
  then have t0: "encoded s [] (esc ?q ?r c) n t"
    using encodedI [where s = s and n = n] assms(5) by (simp add: eq)
  have fin: ?thesis if "encode ops (b2i c) next s = Some t" "encoded s e1 e2 n' t" "accounts s c n e1 e2 n'"
      "n' \<noteq> 0 \<longrightarrow> next = b2i c" for t e1 e2 n'
    using that by blast
  have plain: ?thesis if "encode ops (b2i c) next s = encode_char ops (b2i c) s" "n = 0"
    using that t(1) t0 fin [of t "[]" "esc ?q ?r c" 0] accounts_one [of s c] by simp
  have run: ?thesis if e: "encode ops (b2i c) next s = do { s' \<leftarrow> emit_repeat (int k) (s\<lparr>k_s_rpt := x\<rparr>); encode_char ops (b2i c) s' }"
      and k: "k_rptflg s \<noteq> 0" "3 \<le> k" "k \<le> 236" "Suc n = k" for k x
  proof -
    have m: "enc_mode (s\<lparr>k_s_rpt := x\<rparr>)" "rpt_prefix (s\<lparr>k_s_rpt := x\<rparr>) = ?r"
      using assms(1) by (auto simp: enc_mode_def rpt_prefix_def split: if_splits)
    obtain t where t: "encode ops (b2i c) next s = Some t"
        "appends (s\<lparr>k_s_rpt := 0\<rparr>) (k_rptq s # torepeat (int k) # esc ?q ?r c) t"
        "mem t XDATABUF (nat (k_size t)) = 0"
      using encode_run_appends [OF m(1), of "int k" ops c] assms(2,3) m(2) e by auto
    then have "encoded s [] (k_rptq s # torepeat (int k) # esc ?q ?r c) 0 t"
      using encodedI [where s = s and n = 0 and t = t] assms(5) by simp
    with t(1) show ?thesis
      using fin accounts_run [of s k n 0 c] k by simp
  qed
  show ?thesis
  proof (cases "k_rptflg s = 0")
    case True
    then show ?thesis using plain assms(8) by (simp add: encode.simps)
  next
    case rl: False
    show ?thesis
    proof (cases "b2i c = next")
      case True
      show ?thesis
      proof (cases "n = 235")
        case n: True
        have "encode ops (b2i c) next s =
            do { s' \<leftarrow> emit_repeat (int 236) (s\<lparr>k_s_rpt := 236\<rparr>); encode_char ops (b2i c) s' }"
          using True rl n assms(6) by (subst encode.simps) simp
        then show ?thesis using run rl n by simp
      next
        case False
        then have "encode ops (b2i c) next s = Some (s\<lparr>k_s_rpt := int (Suc n)\<rparr>)"
          using True rl assms(6,7) by (subst encode.simps) (simp add: add.commute)
        moreover have "encoded s [] [] (Suc n) (s\<lparr>k_s_rpt := int (Suc n)\<rparr>)"
          using assms(5) unfolding encoded_def
          by (auto simp: xfield_def intro!: exI [of _ "mem s XDATABUF"])
        moreover have "accounts s c n [] [] (Suc n)"
          using False assms(7) rl enc_nil unfolding accounts_def
          by (auto simp: replicate_append_same intro!: exI [of _ "[]"])
        ultimately show ?thesis using True by blast
      qed
    next
      case neq: False
      consider "n = 0" | "n = 1" | "2 \<le> n" by linarith
      then show ?thesis
      proof cases
        case 1
        then show ?thesis using plain neq rl assms(6) by (simp add: encode.simps)
      next
        case 2
        then show ?thesis using encode_twice [of s c "next" ops] assms neq rl accounts_two [of s c] by fastforce
      next
        case 3
        have "encode ops (b2i c) next s =
            do { s' \<leftarrow> emit_repeat (int (Suc n)) (s\<lparr>k_s_rpt := int (Suc n)\<rparr>); encode_char ops (b2i c) s' }"
          using 3 rl neq assms(6) by (subst encode.simps) (simp add: add.commute)
        then show ?thesis by (rule run) (use 3 rl assms(7) in simp_all)
      qed
    qed
  qed
qed

end
