(* ===== verification/Kermit_Getpkt.thy ===== *)
theory Kermit_Getpkt
  imports Kermit_Source
begin

text \<open>
  \<^verbatim>\<open>getpkt\<close> under the contract of the input file: every call returns, hands over a data field
  that encodes a prefix of what is still to be sent, and leaves the rest pending.
\<close>

subsection \<open>The input buffer\<close>

definition zin_ok :: "'w kst \<Rightarrow> bool" where
  "zin_ok s \<longleftrightarrow> k_zinlen s = int IBUFLEN \<and>
     (\<exists>n. k_zinptr s = Ptr ZINBUF (int n) \<and> n + nat (k_zincnt s) \<le> IBUFLEN)"

definition zin_bytes :: "'w kst \<Rightarrow> byte list" where
  "zin_bytes s =
     (case k_zinptr s of Ptr b n \<Rightarrow> map (mem s b) [nat n..<nat n + nat (k_zincnt s)] | _ \<Rightarrow> [])"

text \<open>The state without what reading the input changes.\<close>

definition src_core :: "'w kst \<Rightarrow> 'w kst" where
  "src_core s = s\<lparr>mem := (mem s)(ZINBUF := \<lambda>_. 0), k_zincnt := 0, k_zinptr := Null, k_dummy := 0,
     wd := undefined\<rparr>"

lemma src_core_sel:
  shows "b \<noteq> ZINBUF \<Longrightarrow> mem (src_core s) b = mem s b"
    "k_zinlen (src_core s) = k_zinlen s" "k_binary (src_core s) = k_binary s"
    "enc_mode (src_core s) = enc_mode s" "rpt_prefix (src_core s) = rpt_prefix s"
    "k_s_ctlq (src_core s) = k_s_ctlq s" "k_size (src_core s) = k_size s"
    "k_s_rpt (src_core s) = k_s_rpt s" "k_rptflg (src_core s) = k_rptflg s"
    "k_s_first (src_core s) = k_s_first s" "k_istring (src_core s) = k_istring s"
    "k_s_maxlen (src_core s) = k_s_maxlen s" "k_bct (src_core s) = k_bct s"
    "k_bcta3 (src_core s) = k_bcta3 s" "k_state (src_core s) = k_state s"
    "k_xdata (src_core s) = k_xdata s" "k_cgetpkt (src_core s) = k_cgetpkt s"
  by (simp_all add: src_core_def enc_mode_def rpt_prefix_def)

lemma src_core_keeps:
  assumes "src_core s = src_core t"
  shows "b \<noteq> ZINBUF \<Longrightarrow> mem s b = mem t b"
    "k_zinlen s = k_zinlen t" "k_binary s = k_binary t" "enc_mode s = enc_mode t"
    "rpt_prefix s = rpt_prefix t" "k_s_ctlq s = k_s_ctlq t" "k_size s = k_size t"
    "k_s_rpt s = k_s_rpt t" "k_rptflg s = k_rptflg t" "k_s_first s = k_s_first t"
    "k_istring s = k_istring t" "k_s_maxlen s = k_s_maxlen t" "k_bct s = k_bct t"
    "k_bcta3 s = k_bcta3 t" "k_state s = k_state t" "k_xdata s = k_xdata t"
    "k_cgetpkt s = k_cgetpkt t"
  using assms by (metis src_core_sel)+

subsection \<open>Leftovers between packets\<close>

lemma getpkt_save_split:
  assumes "k_xdata u = Ptr XDATABUF 0" and "xfield u = a @ b" and "k_osize u = int (length a)"
    and "k_size u = int (length (a @ b))" and "length (a @ b) \<le> 1000"
    and "mem u XDATABUF (nat (k_size u)) = 0" and "0 \<notin> set b" and "length b \<le> 5"
  shows "\<exists>m m'. getpkt_save u = Some (u\<lparr>mem := (mem u)(S_REMAIN := m, XDATABUF := m'), k_size := k_osize u\<rparr>) \<and>
           has_bytes m 0 (b @ [0]) \<and> map m' [0..<length a] = a"
proof -
  have l: "nat (k_size u) = length a + length b" using assms(4) by simp
  have "has_bytes (mem u XDATABUF) 0 (xfield u)"
    using has_bytes_map [of "mem u XDATABUF" 0] by (simp add: xfield_def)
  then have "has_bytes (mem u XDATABUF) (length a) (b @ [0])"
    using assms(6) by (simp add: assms(2) has_bytes_append l add.commute)
  then have rs: "read_str u (Ptr XDATABUF (int (length a))) = Some b"
    using assms(5,7) by (simp add: read_str_in)
  have a: "map (mem u XDATABUF) [0..<length a] = a"
    using arg_cong [OF assms(2), of "take (length a)"] l by (simp add: xfield_def take_map)
  let ?m = "splice (mem u S_REMAIN) 0 (b @ [0])" and ?m' = "(mem u XDATABUF)(length a := 0)"
  have "padd (k_xdata u) (k_osize u) = Ptr XDATABUF (int (length a))"
    using assms(1,3) by simp
  moreover have "write_bytes (Ptr S_REMAIN 0) (b @ [0]) u = Some (u\<lparr>mem := (mem u)(S_REMAIN := ?m)\<rparr>)"
    using assms(8) by (simp add: write_bytes_in)
  moreover have "poke (Ptr XDATABUF 0) (int (length a)) 0 (u\<lparr>mem := (mem u)(S_REMAIN := ?m), k_size := int (length a)\<rparr>)
      = Some (u\<lparr>mem := (mem u)(S_REMAIN := ?m, XDATABUF := ?m'), k_size := int (length a)\<rparr>)"
    using assms(5) by (simp add: poke_in)
  ultimately have "getpkt_save u = Some (u\<lparr>mem := (mem u)(S_REMAIN := ?m, XDATABUF := ?m'), k_size := k_osize u\<rparr>)"
    using assms(1,3) rs by (simp add: getpkt_save_def)
  moreover have "has_bytes ?m 0 (b @ [0])" by (rule has_bytes_splice)
  moreover have "map ?m' [0..<length a] = a" using a by simp
  ultimately show ?thesis by blast
qed

lemma getpkt_restore_str:
  assumes "k_xdata s = Ptr XDATABUF 0" and "has_bytes (mem s S_REMAIN) 0 (bs @ [0])" and "0 \<notin> set bs"
    and "length bs \<le> 5"
  shows "\<exists>m m'. getpkt_restore s = Some (s\<lparr>mem := (mem s)(XDATABUF := m, S_REMAIN := m'),
           k_size := int (length bs)\<rparr>) \<and> m' 0 = 0 \<and> map m [0..<length bs] = bs"
proof -
  have "read_str s (Ptr S_REMAIN 0) = Some bs"
    using assms by (simp add: read_str_in)
  moreover have "map (splice (mem s XDATABUF) 0 (bs @ [0])) [0..<length bs] = bs"
    using map_eq_has_bytes [OF has_bytes_splice, of "mem s XDATABUF" 0 "bs @ [0]"] by simp
  moreover have "getpkt_restore s = Some (s\<lparr>mem := (mem s)(XDATABUF := splice (mem s XDATABUF) 0 (bs @ [0]),
      S_REMAIN := (mem s S_REMAIN)(0 := 0)), k_size := int (length bs)\<rparr>)"
    using assms(1,4) calculation(1) by (simp add: getpkt_restore_def write_bytes_in poke_in)
  moreover have "((mem s S_REMAIN)(0 := 0)) 0 = 0" by simp
  ultimately show ?thesis by blast
qed

text \<open>The state without what \<^verbatim>\<open>getpkt\<close> changes.\<close>

definition get_core :: "'w kst \<Rightarrow> 'w kst" where
  "get_core s = (src_core s)\<lparr>mem := (mem (src_core s))(XDATABUF := \<lambda>_. 0, S_REMAIN := \<lambda>_. 0),
     k_size := 0, k_osize := 0, k_s_rpt := 0, k_s_first := 0, k_cgetpkt := 0, k_bct := 0,
     r_sofar_rumor := 0\<rparr>"

lemma get_core_src: "src_core s = src_core t \<Longrightarrow> get_core s = get_core t"
  by (simp add: get_core_def)

locale file_source =
  fixes ops :: "'w k_ops" and inp :: "'w \<Rightarrow> byte list" and rd_ok :: "'w \<Rightarrow> bool"
  assumes readf: "k_binary s = 1 \<Longrightarrow> zin_ok s \<Longrightarrow> k_zincnt s < 0 \<Longrightarrow> rd_ok (wd s) \<Longrightarrow>
    \<exists>t. src_core t = src_core s \<and> zin_ok t \<and> rd_ok (wd t) \<and>
        (case inp (wd s) of
           [] \<Rightarrow> op_readf ops s = Some (-1, t)
         | c # cs \<Rightarrow> op_readf ops s = Some (b2i c, t) \<and> zin_bytes t @ inp (wd t) = cs)"
begin

definition stream :: "'w kst \<Rightarrow> byte list" where
  "stream s = zin_bytes s @ inp (wd s)"

definition feed :: "'w kst \<Rightarrow> bool" where
  "feed s \<longleftrightarrow> zin_ok s \<and> rd_ok (wd s) \<and> k_binary s = 1"

lemma zgetc_stream:
  assumes "feed s"
  shows "\<exists>t. src_core t = src_core s \<and> feed t \<and>
           (case stream s of
              [] \<Rightarrow> zgetc ops s = Some (-1, t)
            | c # cs \<Rightarrow> zgetc ops s = Some (b2i c, t) \<and> stream t = cs)"
proof (cases "k_zincnt s > 0")
  case True
  obtain n where n: "k_zinptr s = Ptr ZINBUF (int n)" "n + nat (k_zincnt s) \<le> 512"
    using assms by (auto simp: feed_def zin_ok_def)
  let ?t = "s\<lparr>k_zincnt := k_zincnt s - 1, k_zinptr := Ptr ZINBUF (int n + 1)\<rparr>"
  let ?k = "nat (k_zincnt s - 1)"
  have k: "nat (k_zincnt s) = Suc ?k" using True by simp
  have z: "stream s = mem s ZINBUF n # stream ?t"
    using n k by (simp add: stream_def zin_bytes_def upt_conv_Cons nat_add_distrib del: upt_Suc)
  have "peek (s\<lparr>k_zincnt := k_zincnt s - 1\<rparr>) (Ptr ZINBUF (int n)) 0 = Some (mem s ZINBUF n)"
    using n k by (simp add: peek_in)
  then have "zgetc ops s = Some (b2i (mem s ZINBUF n), ?t)"
    using True n by (simp add: zgetc_def)
  moreover have "feed ?t"
    using assms n k by (auto simp: feed_def zin_ok_def intro!: exI [of _ "Suc n"])
  moreover have "src_core ?t = src_core s" by (simp add: src_core_def)
  ultimately show ?thesis using z by auto
next
  case False
  let ?s = "s\<lparr>k_zincnt := k_zincnt s - 1\<rparr>"
  have e: "stream s = inp (wd ?s)"
    using False by (simp add: stream_def zin_bytes_def split: kptr.split)
  have "k_binary ?s = 1" "zin_ok ?s" "k_zincnt ?s < 0" "rd_ok (wd ?s)"
    using assms False by (auto simp: feed_def zin_ok_def)
  from readf [OF this] obtain t where t: "src_core t = src_core ?s" "zin_ok t" "rd_ok (wd t)"
      "case inp (wd ?s) of [] \<Rightarrow> op_readf ops ?s = Some (-1, t)
         | c # cs \<Rightarrow> op_readf ops ?s = Some (b2i c, t) \<and> zin_bytes t @ inp (wd t) = cs" by blast
  have z: "zgetc ops s = op_readf ops ?s" using False by (simp add: zgetc_def)
  have "feed t" using t(2,3) src_core_keeps(3) [OF t(1)] assms by (simp add: feed_def)
  moreover have "src_core ?s = src_core s" by (simp add: src_core_def)
  ultimately show ?thesis
    using t(1,4) by (intro exI [of _ t]) (auto simp: e z stream_def [of t] split: list.splits)
qed

subsubsection \<open>The loop\<close>

definition limit :: "'w kst \<Rightarrow> int" where
  "limit s = k_s_maxlen s - (if k_bcta3 s \<noteq> 0 then 3 else k_bct s) - 9"

definition send_cfg :: "'w kst \<Rightarrow> bool" where
  "send_cfg s \<longleftrightarrow> enc_mode s \<and> k_istring s = Null \<and> 6 \<le> limit s \<and> k_s_maxlen s \<le> int P_PKTLEN \<and> 0 \<le> k_bct s"

definition counting :: "'w kst \<Rightarrow> nat \<Rightarrow> bool" where
  "counting s n \<longleftrightarrow> k_s_rpt s = int n \<and> n \<le> 235 \<and> (k_rptflg s = 0 \<longrightarrow> n = 0)"

definition leftover :: "'w kst \<Rightarrow> byte list \<Rightarrow> bool" where
  "leftover s d \<longleftrightarrow> (\<exists>e. encodes (k_s_ctlq s) (rpt_prefix s) e d \<and> length e \<le> 4 \<and>
     has_bytes (mem s S_REMAIN) 0 (e @ [0]))"

text \<open>The bytes \<^term>\<open>d\<close> are still to be sent.\<close>

definition pending :: "'w kst \<Rightarrow> byte list \<Rightarrow> bool" where
  "pending s d \<longleftrightarrow> send_cfg s \<and>
     (k_s_first s = 1 \<and> counting s 0 \<and> feed s \<and> d = stream s \<or>
      k_s_first s = 0 \<and> feed s \<and> (\<exists>c n d'. k_cgetpkt s = b2i c \<and> counting s n \<and> leftover s d' \<and>
         d = d' @ replicate n c @ c # stream s) \<or>
      k_s_first s = -1 \<and> counting s 0 \<and> leftover s d)"

definition hands_over :: "'w kst \<Rightarrow> byte list \<Rightarrow> byte list \<Rightarrow> 'w kst \<Rightarrow> bool" where
  "hands_over s d d' t \<longleftrightarrow> get_core t = get_core s \<and> limit t = limit s \<and> pending t d' \<and>
     encodes (k_s_ctlq s) (rpt_prefix s) (xfield t) d \<and> 0 < k_size t \<and> k_size t \<le> limit s + 2"

definition in_loop :: "'w kst \<Rightarrow> nat \<Rightarrow> bool" where
  "in_loop s n \<longleftrightarrow> send_cfg s \<and> k_s_first s = 0 \<and> feed s \<and> counting s n \<and> mem s S_REMAIN 0 = 0 \<and>
     0 \<le> k_size s \<and> k_size s < limit s"

definition next_of :: "byte list \<Rightarrow> int" where
  "next_of xs = (case xs of [] \<Rightarrow> -1 | c # _ \<Rightarrow> b2i c)"

definition iterated :: "'w kst \<Rightarrow> byte list \<Rightarrow> byte list \<Rightarrow> nat \<Rightarrow> 'w kst \<Rightarrow> bool" where
  "iterated s e1 e2 n u \<longleftrightarrow> get_core u = get_core s \<and> send_cfg u \<and> limit u = limit s \<and>
     k_s_ctlq u = k_s_ctlq s \<and> rpt_prefix u = rpt_prefix s \<and>
     k_s_first u = (if stream s = [] then -1 else 0) \<and> feed u \<and> (stream s \<noteq> [] \<longrightarrow> stream u = tl (stream s)) \<and>
     counting u n \<and> mem u S_REMAIN = mem s S_REMAIN \<and> k_cgetpkt u = next_of (stream s) \<and>
     xfield u = xfield s @ e1 @ e2 \<and> k_size u = k_size s + int (length (e1 @ e2)) \<and>
     k_osize u = k_size s + int (length e1) \<and>
     (e1 @ e2 \<noteq> [] \<longrightarrow> mem u XDATABUF (nat (k_size u)) = 0)"

lemma next_of_eq: "next_of xs = b2i c \<longleftrightarrow> (\<exists>ys. xs = c # ys)"
proof -
  have "b2i c \<noteq> -1" using b2i_bounds(1) [of c] by linarith
  then show ?thesis by (auto simp: next_of_def word_uint_eq_iff split: list.splits)
qed

lemma next_char_stream:
  assumes "feed s" and "k_istring s = Null"
  shows "\<exists>t. src_core t = src_core s \<and> feed t \<and> next_char ops s = Some (next_of (stream s), t) \<and>
           (stream s \<noteq> [] \<longrightarrow> stream t = tl (stream s))"
  using zgetc_stream [OF assms(1)] assms(2) by (auto simp: next_char_def next_of_def split: list.splits)

lemma encoded_keeps:
  assumes "encoded s e1 e2 n t"
  shows "feed t = feed s" "feed s \<Longrightarrow> stream t = stream s" "get_core t = get_core s" "enc_mode t = enc_mode s"
    "rpt_prefix t = rpt_prefix s" "mem t S_REMAIN = mem s S_REMAIN" "k_s_ctlq t = k_s_ctlq s"
    "k_s_first t = k_s_first s" "k_istring t = k_istring s" "k_s_maxlen t = k_s_maxlen s"
    "k_bct t = k_bct s" "k_bcta3 t = k_bcta3 s" "k_rptflg t = k_rptflg s" "k_s_rpt t = int n"
    "k_size t = k_size s + int (length (e1 @ e2))" "k_osize t = k_size s + int (length e1)"
    "xfield t = xfield s @ e1 @ e2" "e1 @ e2 \<noteq> [] \<longrightarrow> mem t XDATABUF (nat (k_size t)) = 0"
proof -
  obtain m where t: "t = s\<lparr>mem := (mem s)(XDATABUF := m), k_size := k_size s + int (length (e1 @ e2)),
              k_osize := k_size s + int (length e1), k_s_rpt := int n\<rparr>"
    using assms by (auto simp: encoded_def)
  show "feed t = feed s" by (simp add: t feed_def zin_ok_def)
  show "feed s \<Longrightarrow> stream t = stream s"
    by (auto simp: t stream_def zin_bytes_def feed_def zin_ok_def)
  show "get_core t = get_core s" by (simp add: t get_core_def src_core_def fun_upd_twist)
  show "enc_mode t = enc_mode s" by (simp add: t enc_mode_def rpt_prefix_def)
  show "rpt_prefix t = rpt_prefix s" by (simp add: t rpt_prefix_def)
  show "mem t S_REMAIN = mem s S_REMAIN" "k_s_ctlq t = k_s_ctlq s"
    "k_s_first t = k_s_first s" "k_istring t = k_istring s" "k_s_maxlen t = k_s_maxlen s"
    "k_bct t = k_bct s" "k_bcta3 t = k_bcta3 s" "k_rptflg t = k_rptflg s" "k_s_rpt t = int n"
    "k_size t = k_size s + int (length (e1 @ e2))" "k_osize t = k_size s + int (length e1)"
    by (simp_all add: t)
  show "xfield t = xfield s @ e1 @ e2" "e1 @ e2 \<noteq> [] \<longrightarrow> mem t XDATABUF (nat (k_size t)) = 0"
    using assms by (auto simp: encoded_def)
qed

lemma getpkt_iterate:
  assumes "in_loop s n"
  shows "\<exists>u e1 e2 n'. iterated s e1 e2 n' u \<and> accounts s c n e1 e2 n' \<and> (n' \<noteq> 0 \<longrightarrow> next_of (stream s) = b2i c) \<and>
           getpkt_loop ops maxlen (b2i c) s =
             (if k_size u = maxlen then Some (k_size u, u)
              else if k_size u > maxlen then do { v \<leftarrow> getpkt_save u; Some (k_size v, v) }
              else getpkt_loop ops maxlen (next_of (stream s)) u)"
proof -
  let ?x = "next_of (stream s)"
  have s: "send_cfg s" "k_s_first s = 0" "feed s" "counting s n" "0 \<le> k_size s" "k_size s < limit s"
    using assms by (auto simp: in_loop_def)
  obtain t where t: "src_core t = src_core s" "feed t" "next_char ops s = Some (?x, t)"
      "stream s \<noteq> [] \<longrightarrow> stream t = tl (stream s)"
    using next_char_stream [of s] s by (auto simp: send_cfg_def)
  note k = src_core_keeps [OF t(1)]
  define v where "v = (if ?x < 0 then t\<lparr>k_s_first := -1\<rparr> else t\<lparr>r_sofar_rumor := r_sofar_rumor t + 1\<rparr>)\<lparr>k_osize := k_size t\<rparr>"
  have v': "enc_mode v" "0 \<le> k_size v" "k_size v \<le> 990" "k_size v + 6 \<le> k_s_maxlen v" "k_osize v = k_size v"
    "k_s_rpt v = int n" "n \<le> 235" "k_rptflg v = 0 \<longrightarrow> n = 0" "rpt_prefix v = rpt_prefix s" "k_s_ctlq v = k_s_ctlq s"
    "k_rptflg v = k_rptflg s"
    using s k by (auto simp: v_def send_cfg_def limit_def counting_def enc_mode_def rpt_prefix_def split: if_splits)
  obtain w e1 e2 n' where w: "encode ops (b2i c) ?x v = Some w" "encoded v e1 e2 n' w" "accounts v c n e1 e2 n'"
      "n' \<noteq> 0 \<longrightarrow> ?x = b2i c"
    using encode_accounts [OF v'(1-8), of ops c ?x] by blast
  note kw = encoded_keeps [OF w(2)]
  let ?u = "w\<lparr>k_cgetpkt := ?x\<rparr>"
  have x: "?x < 0 \<longleftrightarrow> stream s = []"
    using b2i_bounds(1) by (auto simp: next_of_def not_less split: list.splits)
  have gc: "get_core v = get_core s"
    using get_core_src [OF t(1)] by (auto simp: v_def get_core_def src_core_def)
  have fd: "feed v" "stream v = stream t"
    using t(2) by (auto simp: v_def feed_def zin_ok_def stream_def zin_bytes_def)
  have xf: "xfield v = xfield s" "mem v S_REMAIN = mem s S_REMAIN"
    using k by (auto simp: v_def xfield_def)
  have cf: "k_s_first v = (if stream s = [] then -1 else 0)" "k_istring v = Null" "k_s_maxlen v = k_s_maxlen s"
    "k_bct v = k_bct s" "k_bcta3 v = k_bcta3 s" "k_size v = k_size s"
    using s k x by (auto simp: v_def send_cfg_def)
  have "iterated s e1 e2 n' ?u"
    unfolding iterated_def
  proof (intro conjI)
    show "get_core ?u = get_core s" using kw(3) gc by (simp add: get_core_def src_core_def)
    have "enc_mode ?u = enc_mode w" by (simp add: enc_mode_def rpt_prefix_def)
    moreover show lim: "limit ?u = limit s" using kw cf by (simp add: limit_def)
    ultimately show "send_cfg ?u" using s(1) kw v'(1) cf unfolding send_cfg_def lim by simp
    show "feed ?u" using kw(1) fd(1) by (simp add: feed_def zin_ok_def)
    have "stream (w\<lparr>k_cgetpkt := y\<rparr>) = stream w" for y
      by (simp add: stream_def zin_bytes_def split: kptr.split)
    then show "stream s \<noteq> [] \<longrightarrow> stream ?u = tl (stream s)" using kw(2) fd t(4) by simp
    show "counting ?u n'" using kw w(3) v'(11) by (simp add: counting_def accounts_def)
    show "xfield ?u = xfield s @ e1 @ e2" using kw(17) xf(1) by (simp add: xfield_def)
    have "rpt_prefix ?u = rpt_prefix w" by (simp add: rpt_prefix_def)
    then show "rpt_prefix ?u = rpt_prefix s" using kw v' by simp
  qed (use kw v' xf cf in simp_all)
  moreover have "accounts s c n e1 e2 n'"
    using w(3) v' by (simp add: accounts_def)
  moreover have "getpkt_loop ops maxlen (b2i c) s =
             (if k_size ?u = maxlen then Some (k_size ?u, ?u)
              else if k_size ?u > maxlen then do { v \<leftarrow> getpkt_save ?u; Some (k_size v, v) }
              else getpkt_loop ops maxlen ?x ?u)"
    using s(2) t(3) w(1) by (subst getpkt_loop.simps) (auto simp: v_def Let_def)
  ultimately show ?thesis using w(4) by blast
qed

text \<open>Whatever the packet keeps in \<^verbatim>\<open>s_remain\<close>, the characters not yet emitted stay pending.\<close>

lemma iterated_pending:
  assumes u: "iterated s e1 e2 n u" and "n \<noteq> 0 \<longrightarrow> next_of (stream s) = b2i c"
    and v: "v = u\<lparr>mem := (mem u)(S_REMAIN := m, XDATABUF := m'), k_size := z\<rparr>"
    and e: "encodes (k_s_ctlq s) (rpt_prefix s) e d" "length e \<le> 4" "has_bytes m 0 (e @ [0])"
  shows "pending v (d @ replicate n c @ stream s)" "get_core v = get_core s" "limit v = limit s"
proof -
  have k: "send_cfg v = send_cfg u" "feed v = feed u" "feed u \<Longrightarrow> stream v = stream u" "counting v n = counting u n"
    "rpt_prefix v = rpt_prefix u" "k_s_ctlq v = k_s_ctlq u" "k_s_first v = k_s_first u" "k_cgetpkt v = k_cgetpkt u"
    by (auto simp: v send_cfg_def enc_mode_def rpt_prefix_def limit_def feed_def zin_ok_def stream_def
        zin_bytes_def counting_def)
  have "leftover v d"
    using e u k(5,6) unfolding leftover_def iterated_def by (auto simp: v)
  moreover have "n \<noteq> 0 \<longrightarrow> (\<exists>ys. stream s = c # ys)" using assms(2) by (simp add: next_of_eq)
  moreover have "counting u n" "send_cfg u" "feed u" using u by (simp_all add: iterated_def)
  moreover have "\<exists>c' n' d'. k_cgetpkt v = b2i c' \<and> counting v n' \<and> leftover v d' \<and>
      d @ replicate n c @ stream s = d' @ replicate n' c' @ c' # stream v" if "stream s = a # ys" for a ys
    using that calculation u k
    by (intro exI [of _ a] exI [of _ n] exI [of _ d]) (cases n; auto simp: iterated_def next_of_def)
  ultimately show "pending v (d @ replicate n c @ stream s)"
    using u k by (cases "stream s") (auto simp: pending_def iterated_def)
  show "get_core v = get_core s"
    using u by (simp add: iterated_def get_core_def src_core_def v fun_upd_twist)
  have "limit v = limit u" by (simp add: v limit_def)
  then show "limit v = limit s" using u by (simp add: iterated_def)
qed

lemma iterated_stop:
  assumes s: "in_loop s n" and u: "iterated s e1 e2 n' u" and a: "accounts s c n e1 e2 n'"
    and x: "n' \<noteq> 0 \<longrightarrow> next_of (stream s) = b2i c" and full: "limit s \<le> k_size u"
    and d0: "encodes (k_s_ctlq s) (rpt_prefix s) (xfield s) d0"
  shows "\<exists>t d d'. (if k_size u = limit s then Some (k_size u, u)
                 else do { v \<leftarrow> getpkt_save u; Some (k_size v, v) }) = Some (k_size t, t) \<and>
           hands_over s (d0 @ d) d' t \<and> replicate n c @ c # stream s = d @ d'"
proof -
  let ?q = "k_s_ctlq s" and ?r = "rpt_prefix s"
  obtain d1 d2 where d: "encodes ?q ?r e1 d1" "encodes ?q ?r e2 d2" "replicate n c @ [c] = d1 @ d2 @ replicate n' c"
      and l: "length e1 \<le> 2" "length e2 \<le> 4"
    using a by (auto simp: accounts_def)
  have tot: "replicate n c @ c # stream s = d1 @ d2 @ replicate n' c @ stream s"
    using d(3) by (metis append.assoc append_Cons append_Nil)
  have cfg: "6 \<le> limit s" "limit s \<le> 991" "k_size s < limit s" "0 \<le> k_size s" "k_xdata s = Ptr XDATABUF 0"
      "codec_ok ?q ?r" "mem s S_REMAIN 0 = 0"
    using s by (auto simp: in_loop_def send_cfg_def enc_mode_def limit_def split: if_splits)
  have ku: "k_xdata u = Ptr XDATABUF 0" "xfield u = xfield s @ e1 @ e2" "mem u S_REMAIN 0 = 0"
      "k_size u = k_size s + int (length (e1 @ e2))" "k_osize u = k_size s + int (length e1)"
      "e1 @ e2 \<noteq> [] \<longrightarrow> mem u XDATABUF (nat (k_size u)) = 0"
    using u cfg(7) by (auto simp: iterated_def send_cfg_def enc_mode_def)
  have ls: "length (xfield s) = nat (k_size s)" by (simp add: xfield_def)
  show ?thesis
  proof (cases "k_size u = limit s")
    case True
    have "u = u\<lparr>mem := (mem u)(S_REMAIN := mem u S_REMAIN, XDATABUF := mem u XDATABUF), k_size := k_size u\<rparr>" by simp
    from iterated_pending [OF u x this, of "[]" "[]"] ku(3)
    have p: "pending u (replicate n' c @ stream s)" "get_core u = get_core s" "limit u = limit s"
      by (simp_all add: enc_nil)
    have "encodes ?q ?r (xfield u) (d0 @ d1 @ d2)"
      using encodes_append [OF d0 encodes_append [OF d(1,2)]] ku(2) by simp
    then have "hands_over s (d0 @ (d1 @ d2)) (replicate n' c @ stream s) u"
      using p True cfg(1) by (simp add: hands_over_def)
    moreover have "replicate n c @ c # stream s = (d1 @ d2) @ (replicate n' c @ stream s)"
      using tot by (simp only: append.assoc)
    ultimately show ?thesis unfolding if_P [OF True] by blast
  next
    case False
    have ne: "e1 @ e2 \<noteq> []" using False full ku(4) cfg(3) by auto
    have z: "0 \<notin> set e2" using encodes_no_zero [OF d(2) cfg(6)] .
    have le: "nat (k_size s) + (length e1 + length e2) \<le> 1000" using cfg l by linarith
    obtain m m' where m: "getpkt_save u = Some (u\<lparr>mem := (mem u)(S_REMAIN := m, XDATABUF := m'), k_size := k_osize u\<rparr>)"
        "has_bytes m 0 (e2 @ [0])" "map m' [0..<length (xfield s @ e1)] = xfield s @ e1"
      using getpkt_save_split [of u "xfield s @ e1" e2] ku ls cfg l z ne le by auto
    define v where "v = u\<lparr>mem := (mem u)(S_REMAIN := m, XDATABUF := m'), k_size := k_osize u\<rparr>"
    have p: "pending v (d2 @ replicate n' c @ stream s)" "get_core v = get_core s" "limit v = limit s"
      using iterated_pending [OF u x v_def d(2) l(2) m(2)] .
    have "xfield v = xfield s @ e1"
    proof -
      have "nat (k_osize u) = length (xfield s @ e1)" using ku(5) cfg(4) by (simp add: ls nat_add_distrib)
      then show ?thesis using m(3) by (simp add: v_def xfield_def [of "u\<lparr>mem := _, k_size := _\<rparr>"])
    qed
    moreover have "k_size v = k_size s + int (length e1)" using ku(5) by (simp add: v_def)
    ultimately have "hands_over s (d0 @ d1) (d2 @ replicate n' c @ stream s) v"
      using p encodes_append [OF d0 d(1)] False full ku(4) cfg l by (simp add: hands_over_def)
    moreover have "do { v \<leftarrow> getpkt_save u; Some (k_size v, v) } = Some (k_size v, v)"
      using m(1) by (simp add: v_def)
    ultimately show ?thesis using tot unfolding if_not_P [OF False] by blast
  qed
qed

lemma iterated_in_loop:
  assumes "in_loop s n" and "iterated s e1 e2 n' u" and "k_size u < limit s" and "stream s \<noteq> []"
  shows "in_loop u n'"
  using assms by (auto simp: in_loop_def iterated_def)

lemma hands_over_trans:
  assumes "iterated s e1 e2 n u" and "hands_over u d d' t"
  shows "hands_over s d d' t"
  using assms by (auto simp: hands_over_def iterated_def)

lemma getpkt_loop_hands_over:
  assumes "in_loop s n" and "encodes (k_s_ctlq s) (rpt_prefix s) (xfield s) d0"
  shows "\<exists>t d d'. getpkt_loop ops (limit s) (b2i c) s = Some (k_size t, t) \<and>
           hands_over s (d0 @ d) d' t \<and> replicate n c @ c # stream s = d @ d'"
  using assms
proof (induction "length (stream s)" arbitrary: s n c d0 rule: less_induct)
  case less
  obtain u e1 e2 n' where u: "iterated s e1 e2 n' u" "accounts s c n e1 e2 n'"
      "n' \<noteq> 0 \<longrightarrow> next_of (stream s) = b2i c" and
    l: "getpkt_loop ops (limit s) (b2i c) s =
             (if k_size u = limit s then Some (k_size u, u)
              else if k_size u > limit s then do { v \<leftarrow> getpkt_save u; Some (k_size v, v) }
              else getpkt_loop ops (limit s) (next_of (stream s)) u)"
    using getpkt_iterate [OF less.prems(1), of c "limit s"] by blast
  obtain d1 d2 where d: "encodes (k_s_ctlq s) (rpt_prefix s) e1 d1" "encodes (k_s_ctlq s) (rpt_prefix s) e2 d2"
      "replicate n c @ [c] = d1 @ d2 @ replicate n' c"
    using u(2) by (auto simp: accounts_def)
  have xu: "encodes (k_s_ctlq s) (rpt_prefix s) (xfield u) (d0 @ d1 @ d2)"
    using encodes_append [OF less.prems(2) encodes_append [OF d(1,2)]] u(1) by (simp add: iterated_def)
  consider "limit s \<le> k_size u" | "k_size u < limit s" "stream s = []" | c' cs where "k_size u < limit s" "stream s = c' # cs"
    by (cases "stream s") force+
  then show ?case
  proof cases
    case 1
    then have "getpkt_loop ops (limit s) (b2i c) s =
        (if k_size u = limit s then Some (k_size u, u) else do { v \<leftarrow> getpkt_save u; Some (k_size v, v) })"
      using l by simp
    then show ?thesis using iterated_stop [OF less.prems(1) u 1 less.prems(2)] by simp
  next
    case 2
    have n': "n' = 0" using u(3) 2 by (auto simp: next_of_eq)
    have ne: "e1 @ e2 \<noteq> []" using d n' encodes_nil_iff by (metis append_is_Nil_conv append_Nil2 replicate_0 snoc_eq_iff_butlast)
    have "k_s_first u = -1" using u(1) 2 by (simp add: iterated_def)
    then have "getpkt_loop ops (limit s) (b2i c) s = Some (k_size u, u)"
      using l 2 by (simp add: getpkt_loop.simps)
    moreover have "hands_over s (d0 @ (d1 @ d2)) [] u"
    proof -
      have "u = u\<lparr>mem := (mem u)(S_REMAIN := mem u S_REMAIN, XDATABUF := mem u XDATABUF), k_size := k_size u\<rparr>" by simp
      from iterated_pending [OF u(1,3) this, of "[]" "[]"] n' 2 less.prems(1) u(1)
      have "pending u []" "get_core u = get_core s" "limit u = limit s"
        by (simp_all add: enc_nil in_loop_def iterated_def)
      moreover have "0 < int (length (e1 @ e2))" using ne by (simp only: of_nat_0_less_iff length_greater_0_conv simp_thms)
      then have "0 < k_size u" using u(1) less.prems(1) by (simp add: iterated_def in_loop_def)
      ultimately show ?thesis using 2 xu by (auto simp: hands_over_def)
    qed
    moreover have "replicate n c @ c # stream s = (d1 @ d2) @ []" using d(3) n' 2 by simp
    ultimately show ?thesis by blast
  next
    case 3
    have k: "stream u = cs" "k_s_ctlq u = k_s_ctlq s" "rpt_prefix u = rpt_prefix s" "limit u = limit s"
      using u(1) 3 by (simp_all add: iterated_def)
    obtain t d d' where t: "getpkt_loop ops (limit u) (b2i c') u = Some (k_size t, t)"
        "hands_over u ((d0 @ d1 @ d2) @ d) d' t" "replicate n' c' @ c' # stream u = d @ d'"
      using less.hyps [of u n' "d0 @ d1 @ d2" c'] iterated_in_loop [OF less.prems(1) u(1)] 3 k xu by auto
    have "replicate n' c' = replicate n' c" using u(3) 3 by (cases n') (auto simp: next_of_eq)
    then have "replicate n c @ c # stream s = (d1 @ d2 @ d) @ d'"
      using d(3) t(3) k(1) 3 by (metis append.assoc append_Cons append_Nil)
    moreover have "getpkt_loop ops (limit s) (b2i c) s = Some (k_size t, t)"
      using l t(1) 3 k by (simp add: next_of_def)
    moreover have "hands_over s (d0 @ (d1 @ d2 @ d)) d' t" using hands_over_trans [OF u(1) t(2)] by simp
    ultimately show ?thesis by blast
  qed
qed

subsubsection \<open>The whole function\<close>

lemma restored:
  assumes "send_cfg s" and "leftover s d"
  shows "\<exists>t e. getpkt_restore s = Some t \<and> encodes (k_s_ctlq s) (rpt_prefix s) e d \<and> xfield t = e \<and>
           k_size t = int (length e) \<and> length e \<le> 4 \<and> mem t S_REMAIN 0 = 0 \<and> get_core t = get_core s \<and>
           send_cfg t \<and> limit t = limit s \<and> feed t = feed s \<and> (feed s \<longrightarrow> stream t = stream s) \<and>
           (\<forall>n. counting t n = counting s n) \<and> k_s_first t = k_s_first s \<and> k_s_ctlq t = k_s_ctlq s \<and>
           rpt_prefix t = rpt_prefix s"
proof -
  obtain e where e: "encodes (k_s_ctlq s) (rpt_prefix s) e d" "length e \<le> 4" "has_bytes (mem s S_REMAIN) 0 (e @ [0])"
    using assms(2) by (auto simp: leftover_def)
  have "0 \<notin> set e" using encodes_no_zero [OF e(1)] assms(1) by (simp add: send_cfg_def enc_mode_def)
  then obtain m m' where m: "getpkt_restore s = Some (s\<lparr>mem := (mem s)(XDATABUF := m, S_REMAIN := m'),
           k_size := int (length e)\<rparr>)" "m' 0 = 0" "map m [0..<length e] = e"
    using getpkt_restore_str [OF _ e(3)] e(2) assms(1) by (auto simp: send_cfg_def enc_mode_def)
  define t where "t = s\<lparr>mem := (mem s)(XDATABUF := m, S_REMAIN := m'), k_size := int (length e)\<rparr>"
  have "getpkt_restore s = Some t" using m(1) by (simp add: t_def)
  moreover have "xfield t = e" using m(3) by (simp add: t_def xfield_def)
  moreover have "get_core t = get_core s" by (simp add: t_def get_core_def src_core_def fun_upd_twist)
  moreover have "send_cfg t" using assms(1) by (auto simp: t_def send_cfg_def enc_mode_def rpt_prefix_def limit_def split: if_splits)
  moreover have "feed t = feed s" "feed s \<longrightarrow> stream t = stream s" "\<forall>n. counting t n = counting s n"
    by (auto simp: t_def feed_def zin_ok_def stream_def zin_bytes_def counting_def)
  moreover have "k_size t = int (length e)" "mem t S_REMAIN 0 = 0" "limit t = limit s" "k_s_first t = k_s_first s"
      "k_s_ctlq t = k_s_ctlq s" "rpt_prefix t = rpt_prefix s"
    using m(2) by (simp_all add: t_def limit_def rpt_prefix_def)
  ultimately show ?thesis using e(1,2) by blast
qed

lemma getpkt_fill_hands_over:
  assumes "send_cfg s" and "k_s_first s = 0" and "feed s" and "counting s n" and "leftover s d0"
  shows "\<exists>t d d'. getpkt_fill ops (limit s) (b2i c) s = Some (k_size t, t) \<and> hands_over s d d' t \<and>
           d0 @ replicate n c @ c # stream s = d @ d'"
proof -
  obtain u e where u: "getpkt_restore s = Some u" "encodes (k_s_ctlq s) (rpt_prefix s) e d0" "xfield u = e"
      "k_size u = int (length e)" "length e \<le> 4" "mem u S_REMAIN 0 = 0" "get_core u = get_core s"
      "send_cfg u" "limit u = limit s" "feed u = feed s" "feed s \<longrightarrow> stream u = stream s"
      "\<forall>n. counting u n = counting s n" "k_s_first u = k_s_first s" "k_s_ctlq u = k_s_ctlq s"
      "rpt_prefix u = rpt_prefix s"
    using restored [OF assms(1,5)] by blast
  have "in_loop u n" using u assms by (auto simp: in_loop_def send_cfg_def)
  from getpkt_loop_hands_over [OF this, of d0 c] u obtain t d d' where
    t: "getpkt_loop ops (limit s) (b2i c) u = Some (k_size t, t)" "hands_over u (d0 @ d) d' t"
      "replicate n c @ c # stream s = d @ d'" using assms(3) by auto
  have "getpkt_fill ops (limit s) (b2i c) s = Some (k_size t, t)"
    using u t(1) assms(2) by (simp add: getpkt_fill_def)
  moreover have "hands_over s (d0 @ d) d' t" using t(2) u by (simp add: hands_over_def)
  ultimately show ?thesis using t(3) by (metis append.assoc)
qed

definition bct_set :: "'w kst \<Rightarrow> 'w kst" where
  "bct_set s = (if k_bcta3 s \<noteq> 0 then s\<lparr>k_bct := 3\<rparr> else s)"

lemma bct_set_keeps:
  "limit (bct_set s) = limit s" "send_cfg (bct_set s) = send_cfg s \<or> \<not> send_cfg s" "feed (bct_set s) = feed s"
  "stream (bct_set s) = stream s" "counting (bct_set s) n = counting s n" "leftover (bct_set s) d = leftover s d"
  "get_core (bct_set s) = get_core s" "k_s_first (bct_set s) = k_s_first s" "k_cgetpkt (bct_set s) = k_cgetpkt s"
  "mem (bct_set s) = mem s" "k_s_ctlq (bct_set s) = k_s_ctlq s" "rpt_prefix (bct_set s) = rpt_prefix s"
  "k_s_maxlen (bct_set s) - k_bct (bct_set s) - 9 = limit s"
  by (auto simp: bct_set_def limit_def send_cfg_def enc_mode_def rpt_prefix_def feed_def zin_ok_def stream_def
      zin_bytes_def counting_def leftover_def get_core_def src_core_def split: kptr.split)

lemma hands_over_bct: "hands_over (bct_set s) d d' t = hands_over s d d' t"
  by (simp add: hands_over_def bct_set_keeps)

lemma getpkt_first:
  assumes "send_cfg s" and "k_s_first s = 1" and "counting s 0" and "feed s"
  shows "\<exists>t d1 d2. getpkt ops s = Some (k_size t, t) \<and> stream s = d1 @ d2 \<and>
           (if stream s = [] then k_size t = 0 \<and> pending t [] \<and> get_core t = get_core s
            else hands_over s d1 d2 t)"
proof -
  let ?s = "bct_set s"
  define v where "v = ?s\<lparr>k_s_first := 0, mem := (mem s)(S_REMAIN := (mem s S_REMAIN)(0 := 0))\<rparr>"
  have pk: "poke (Ptr S_REMAIN 0) 0 0 (?s\<lparr>k_s_first := 0\<rparr>) = Some v"
    by (simp add: poke_in v_def bct_set_keeps)
  have v: "send_cfg v" "feed v" "stream v = stream s" "counting v 0" "k_s_first v = 0" "mem v S_REMAIN 0 = 0"
      "get_core v = get_core s" "limit v = limit s" "k_s_ctlq v = k_s_ctlq s" "rpt_prefix v = rpt_prefix s"
    using assms
    by (auto simp: v_def bct_set_def send_cfg_def enc_mode_def rpt_prefix_def limit_def feed_def zin_ok_def stream_def
        zin_bytes_def counting_def get_core_def src_core_def fun_upd_twist)
  obtain w where w: "src_core w = src_core v" "feed w" "next_char ops v = Some (next_of (stream s), w)"
      "stream s \<noteq> [] \<longrightarrow> stream w = tl (stream s)"
    using next_char_stream [of v] v by (auto simp: send_cfg_def)
  note k = src_core_keeps [OF w(1)]
  have g: "getpkt ops s = (let w = w\<lparr>k_cgetpkt := next_of (stream s)\<rparr> in
      if next_of (stream s) < 0 then Some (0, w\<lparr>k_s_first := -1, k_size := 0\<rparr>)
      else getpkt_fill ops (limit s) (next_of (stream s))
             (if k_state w = S_DATA then w\<lparr>r_sofar_rumor := r_sofar_rumor w + 1\<rparr> else w))"
    using assms(2) pk w(3) by (simp add: getpkt_def Let_def bct_set_keeps flip: bct_set_def)
  have "limit w = limit v" using k by (simp add: limit_def)
  then have lim: "limit w = limit s" using v(8) by simp
  show ?thesis
  proof (cases "stream s")
    case Nil
    let ?t = "w\<lparr>k_cgetpkt := -1, k_s_first := -1, k_size := 0\<rparr>"
    have "getpkt ops s = Some (k_size ?t, ?t)" using g Nil by (simp add: next_of_def)
    moreover have "pending ?t []"
      using v k lim unfolding pending_def send_cfg_def
      by (auto simp: enc_mode_def rpt_prefix_def limit_def counting_def leftover_def intro!: exI [of _ "[]"] enc_nil)
    moreover have "get_core ?t = get_core s"
      using get_core_src [OF w(1)] v(7) by (simp add: get_core_def src_core_def)
    ultimately show ?thesis using Nil by (intro exI [of _ ?t]) simp
  next
    case (Cons c cs)
    define u where "u = (let w = w\<lparr>k_cgetpkt := b2i c\<rparr> in
        if k_state w = S_DATA then w\<lparr>r_sofar_rumor := r_sofar_rumor w + 1\<rparr> else w)"
    have "getpkt ops s = getpkt_fill ops (limit s) (b2i c) u"
      using g Cons b2i_bounds(1) [of c] by (simp add: next_of_def u_def Let_def)
    moreover obtain x where ux: "u = w\<lparr>k_cgetpkt := b2i c, r_sofar_rumor := x\<rparr>"
    proof (rule that)
      show "u = w\<lparr>k_cgetpkt := b2i c,
          r_sofar_rumor := (if k_state w = S_DATA then r_sofar_rumor w + 1 else r_sofar_rumor w)\<rparr>"
        by (simp add: u_def Let_def)
    qed
    have uw: "send_cfg u = send_cfg w" "limit u = limit w" "feed u = feed w" "stream u = stream w"
        "counting u 0 = counting w 0" "rpt_prefix u = rpt_prefix w" "get_core u = get_core w"
      by (simp_all add: ux send_cfg_def enc_mode_def rpt_prefix_def limit_def feed_def zin_ok_def stream_def
          zin_bytes_def counting_def get_core_def src_core_def cong: kptr.case_cong)
    moreover have u: "send_cfg u" "k_s_first u = 0" "feed u" "counting u 0" "leftover u []" "limit u = limit s"
        "get_core u = get_core s" "k_s_ctlq u = k_s_ctlq s" "rpt_prefix u = rpt_prefix s" "stream u = cs"
    proof -
      have "send_cfg w" using v(1,8) k lim by (simp add: send_cfg_def)
      then show "send_cfg u" by (simp add: uw)
      show "leftover u []"
        using v(6) k by (auto simp: leftover_def ux intro!: exI [of _ "[]"] enc_nil)
      have "counting w 0" using v(4) k by (simp add: counting_def)
      then show "counting u 0" by (simp add: uw)
      show "k_s_first u = 0" "k_s_ctlq u = k_s_ctlq s" using v k by (simp_all add: ux)
      show "get_core u = get_core s" using get_core_src [OF w(1)] v(7) by (simp add: uw)
    qed (use v k lim w(2,4) Cons in \<open>simp_all add: uw\<close>)
    moreover from getpkt_fill_hands_over [OF u(1-5), of c] obtain t d d' where
      "getpkt_fill ops (limit s) (b2i c) u = Some (k_size t, t)" "hands_over u d d' t" "c # cs = d @ d'"
      using u by auto
    ultimately show ?thesis using Cons by (auto simp: hands_over_def)
  qed
qed

theorem getpkt_hands_over:
  assumes "pending s d"
  shows "\<exists>t d1 d2. getpkt ops s = Some (k_size t, t) \<and> d = d1 @ d2 \<and>
           (if d = [] then k_size t = 0 \<and> pending t [] \<and> get_core t = get_core s else hands_over s d1 d2 t)"
proof -
  let ?s = "bct_set s"
  have cfg: "send_cfg s" "send_cfg ?s" using assms bct_set_keeps(2) [of s] by (auto simp: pending_def)
  consider "k_s_first s = 1" "counting s 0" "feed s" "d = stream s"
    | c n d' where "k_s_first s = 0" "feed s" "k_cgetpkt s = b2i c" "counting s n" "leftover s d'"
        "d = d' @ replicate n c @ c # stream s"
    | "k_s_first s = -1" "counting s 0" "leftover s d"
    using assms by (auto simp: pending_def)
  then show ?thesis
  proof cases
    case 1
    then show ?thesis using getpkt_first [OF cfg(1)] by simp
  next
    case 2
    have "getpkt ops s = getpkt_fill ops (limit ?s) (b2i c) ?s"
      using 2 by (simp add: getpkt_def Let_def bct_set_keeps flip: bct_set_def)
    moreover obtain t d1 d2 where "getpkt_fill ops (limit ?s) (b2i c) ?s = Some (k_size t, t)"
        "hands_over s d1 d2 t" "d = d1 @ d2"
      using getpkt_fill_hands_over [OF cfg(2), of n d' c] 2 by (auto simp: bct_set_keeps hands_over_bct)
    moreover have "d \<noteq> []" using 2 by simp
    ultimately show ?thesis by (simp only: if_False) blast
  next
    case 3
    obtain e where e: "encodes (k_s_ctlq s) (rpt_prefix s) e d" "has_bytes (mem s S_REMAIN) 0 (e @ [0])"
      using 3(3) by (auto simp: leftover_def)
    have z: "peek ?s (Ptr S_REMAIN 0) 0 = Some (mem s S_REMAIN 0)" by (simp add: peek_in bct_set_keeps)
    show ?thesis
    proof (cases "d = []")
      case True
      let ?t = "?s\<lparr>k_size := 0\<rparr>"
      have "mem s S_REMAIN 0 = 0" using e True encodes_nil_iff by force
      then have "getpkt ops s = Some (k_size ?t, ?t)"
        using 3 z by (simp add: getpkt_def Let_def bct_set_keeps flip: bct_set_def)
      moreover have "pending ?t []" "get_core ?t = get_core s"
      proof -
        have "leftover ?s []" "counting ?s 0" "k_s_first ?s = -1" using 3 True by (simp_all add: bct_set_keeps)
        with cfg(2) show "pending ?t []"
          by (auto simp: pending_def send_cfg_def enc_mode_def rpt_prefix_def limit_def leftover_def counting_def)
        show "get_core ?t = get_core s" using bct_set_keeps(7) [of s] by (simp add: get_core_def src_core_def)
      qed
      ultimately show ?thesis using True by (intro exI [of _ ?t]) simp
    next
      case False
      have "mem s S_REMAIN 0 \<noteq> 0"
        using e False encodes_nil_iff [OF e(1)] encodes_no_zero [OF e(1)] cfg(1)
        by (cases e) (auto simp: send_cfg_def enc_mode_def)
      then have g: "getpkt ops s = getpkt_fill ops (limit ?s) (k_cgetpkt s) ?s"
        using 3 z by (simp add: getpkt_def Let_def bct_set_keeps flip: bct_set_def)
      have lo: "leftover ?s d" using 3 by (simp add: bct_set_keeps)
      obtain u e where u: "getpkt_restore ?s = Some u" "encodes (k_s_ctlq s) (rpt_prefix s) e d" "xfield u = e"
          "k_size u = int (length e)" "length e \<le> 4" "mem u S_REMAIN 0 = 0" "get_core u = get_core s" "send_cfg u"
          "counting u 0" "k_s_first u = -1" "k_s_ctlq u = k_s_ctlq s" "rpt_prefix u = rpt_prefix s"
          "limit u = limit s"
        using restored [OF cfg(2) lo] 3 by (auto simp: bct_set_keeps)
      have "leftover u []" using u(6) by (auto simp: leftover_def intro!: exI [of _ "[]"] enc_nil)
      then have "hands_over s d [] u"
        using u encodes_nil_iff [OF u(2)] False cfg(1) by (auto simp: hands_over_def pending_def send_cfg_def)
      moreover have "getpkt ops s = Some (k_size u, u)" using g u by (simp add: getpkt_fill_def)
      ultimately show ?thesis using False by auto
    qed
  qed
qed

end

end
