(* ===== verification/Unixio.thy ===== *)
theory Unixio
  imports Kermit_Getpkt Crc32
begin

text \<open>
  \<^verbatim>\<open>unixio_rpi.c\<close>: the functions behind the pointers of \<^verbatim>\<open>struct k_data\<close>. The world of the
  engine is the file system, the two static file handles and the radio link. The three
  functions of \<^verbatim>\<open>struct unixio_rpi\<close> are a record of optional operations on the state
  \<^verbatim>\<open>'d\<close> of the link (a null pointer is \<^term>\<open>None\<close>).
\<close>

subsection \<open>The world\<close>

record 'd mldp =
  m_send :: "(byte list \<Rightarrow> 'd \<Rightarrow> (int \<times> 'd) option) option"
  m_get :: "('d \<Rightarrow> (int \<times> byte option \<times> 'd) option) option"
  m_wait :: "(int \<Rightarrow> 'd \<Rightarrow> 'd option) option"

text \<open>
  \<^verbatim>\<open>u_files\<close> and \<^verbatim>\<open>u_dirs\<close> are the files and directories by path; a directory entry is its
  name and whether its \<^verbatim>\<open>d_type\<close> is a regular file or a link. \<^verbatim>\<open>u_ifile\<close> holds the unread bytes
  of the open input file, \<^verbatim>\<open>u_fds\<close> what was written through each open descriptor.
  Two fields describe the platform. \<^verbatim>\<open>u_cmd_slack\<close> says whether the compiler left a byte of padding behind the
  five-byte array \<^verbatim>\<open>cmd\<close> of \<^verbatim>\<open>kreadpkt\<close>, which writes \<^verbatim>\<open>cmd[5]\<close>; without it that write is undefined. \<^verbatim>\<open>u_long_max\<close> is the
  largest \<^verbatim>\<open>long\<close>.
\<close>

record 'd uio =
  u_files :: "byte list \<Rightarrow> byte list option"
  u_dirs :: "byte list \<Rightarrow> (byte list \<times> bool) list option"
  u_ifile :: "byte list option"
  u_ofile :: int
  u_fds :: "int \<Rightarrow> byte list option"
  u_kfilename :: "byte list"
  u_cmd_slack :: bool
  u_long_max :: int
  u_dev :: 'd

type_synonym 'd ust = "'d uio kst"

abbreviation "KFILENAME_MAXSIZE \<equiv> (256::nat)"
abbreviation "K_DIR_MAX \<equiv> (6::nat)"

subsection \<open>Paths\<close>

text \<open>
  \<^verbatim>\<open>kadd_rootpath(k->rootpath, src, kfilename, KFILENAME_MAXSIZE)\<close>. The length is checked only when
  the root path is not empty.
\<close>

definition kadd_rootpath :: "kptr \<Rightarrow> 'd ust \<Rightarrow> 'd ust option" where
  "kadd_rootpath src s = do {
     ins \<leftarrow> read_str s (Ptr ROOTPATH 0);
     name \<leftarrow> read_str s src;
     if ins \<noteq> [] \<and> length name + length ins \<ge> KFILENAME_MAXSIZE
     then Some (s\<lparr>wd := (wd s)\<lparr>u_kfilename := []\<rparr>\<rparr>)
     else if length ins + length name < KFILENAME_MAXSIZE
     then Some (s\<lparr>wd := (wd s)\<lparr>u_kfilename := ins @ name\<rparr>\<rparr>)
     else None
   }"

subsection \<open>Files\<close>

definition kopenfile :: "kptr \<Rightarrow> int \<Rightarrow> int \<Rightarrow> 'd ust \<Rightarrow> (int \<times> 'd ust) option" where
  "kopenfile p mode filesize s = do {
     s \<leftarrow> kadd_rootpath p s;
     if mode = 1 then
       let f = u_files (wd s) (u_kfilename (wd s));
           s = s\<lparr>wd := (wd s)\<lparr>u_ifile := f\<rparr>\<rparr>
       in if f = None then Some (X_ERROR, s)
          else do {
            s \<leftarrow> poke (Ptr ZINBUF 0) 0 0 (s\<lparr>k_s_first := 1\<rparr>);
            Some (X_OK, s\<lparr>k_zinptr := Ptr ZINBUF 0, k_zincnt := 0\<rparr>)
          }
     else Some (X_ERROR, s)
   }"

text \<open>Filling the buffer in text mode: a newline is stored as CR LF.\<close>

function kreadfile_text :: "int \<Rightarrow> 'd ust \<Rightarrow> 'd ust option" where
  "kreadfile_text i s =
     (if i < k_zinlen s - 2 then
        (case u_ifile (wd s) of
           None \<Rightarrow> None
         | Some [] \<Rightarrow> Some (s\<lparr>k_zincnt := i\<rparr>)
         | Some (c # cs) \<Rightarrow>
             let s = s\<lparr>wd := (wd s)\<lparr>u_ifile := Some cs\<rparr>\<rparr>
             in if c = 10 then do {
                  s \<leftarrow> poke (Ptr ZINBUF 0) i 13 s;
                  s \<leftarrow> poke (Ptr ZINBUF 0) (i + 1) c s;
                  kreadfile_text (i + 2) s
                }
                else do {
                  s \<leftarrow> poke (Ptr ZINBUF 0) i c s;
                  kreadfile_text (i + 1) s
                })
      else Some (s\<lparr>k_zincnt := i\<rparr>))"
  by pat_completeness auto
termination
proof (relation "measure (\<lambda>(i, s). case u_ifile (wd s) of Some cs \<Rightarrow> length cs | None \<Rightarrow> 0)", goal_cases)
  case 1
  then show ?case by simp
next
  case (2 i s)
  then show ?case by (auto simp: poke_def arr_set_def split: if_splits)
next
  case (3 i s)
  then show ?case by (auto simp: poke_def arr_set_def split: if_splits)
qed

definition kreadfile :: "'d ust \<Rightarrow> (int \<times> 'd ust) option" where
  "kreadfile s =
     (if k_zinptr s = Null then Some (-1, s)
      else do {
        r \<leftarrow> (if k_zincnt s < 1 then
               if k_binary s \<noteq> 0 then
                 let s = s\<lparr>k_dummy := 0\<rparr>
                 in if k_zinlen s \<noteq> 512 then Some (False, s)
                    else do {
                      f \<leftarrow> u_ifile (wd s);
                      let bs = take 512 f;
                      s \<leftarrow> write_bytes (Ptr ZINBUF 0) bs (s\<lparr>wd := (wd s)\<lparr>u_ifile := Some (drop 512 f)\<rparr>\<rparr>);
                      let s = s\<lparr>k_zincnt := int (length bs)\<rparr>;
                      if bs = [] then Some (False, s)
                      else do {
                        s \<leftarrow> poke (Ptr ZINBUF 0) (k_zincnt s) 0 s;
                        Some (True, s\<lparr>k_zinptr := Ptr ZINBUF 0\<rparr>)
                      }
                    }
               else do {
                 s \<leftarrow> kreadfile_text 0 s;
                 s \<leftarrow> poke (Ptr ZINBUF 0) (k_zincnt s) 0 s;
                 if k_zincnt s = 0 then Some (False, s)
                 else Some (True, s\<lparr>k_zinptr := Ptr ZINBUF 0\<rparr>)
               }
             else Some (True, s));
        let (ok, s) = r;
        if \<not> ok then Some (-1, s)
        else do {
          c \<leftarrow> peek s (k_zinptr s) 0;
          Some (b2i c, s\<lparr>k_zincnt := k_zincnt s - 1, k_zinptr := padd (k_zinptr s) 1\<rparr>)
        }
      })"

text \<open>\<^verbatim>\<open>kfileinfo\<close> leaves its output parameters alone: an empty date, the given type.\<close>

definition kfileinfo :: "kptr \<Rightarrow> int \<Rightarrow> int \<Rightarrow> 'd ust \<Rightarrow> (int \<times> byte list \<times> int \<times> 'd ust) option" where
  "kfileinfo p typ mode s = Some (X_OK, [], typ, s)"

text \<open>\<^verbatim>\<open>write(ofile, s, n)\<close>: the bytes are appended when the descriptor is open.\<close>

definition write_fd :: "byte list \<Rightarrow> 'd uio \<Rightarrow> bool \<times> 'd uio" where
  "write_fd bs w =
     (case u_fds w (u_ofile w) of
        None \<Rightarrow> (False, w)
      | Some old \<Rightarrow> (True, w\<lparr>u_fds := (u_fds w)(u_ofile w := Some (old @ bs))\<rparr>))"

text \<open>
  Text mode writes the pieces between carriage returns; its loop stops only at a zero byte, so
  the bytes of the output buffer behind the \<^term>\<open>n\<close> given ones are read too.
\<close>

fun kwritefile_text :: "byte list \<Rightarrow> byte list \<Rightarrow> int \<Rightarrow> 'd uio \<Rightarrow> int \<times> 'd uio" where
  "kwritefile_text piece [] rc w =
     (if piece = [] then (rc, w)
      else case write_fd piece w of (ok, w) \<Rightarrow> (if ok then rc else X_ERROR, w))"
| "kwritefile_text piece (c # cs) rc w =
     (if c = 13 then
        if piece = [] then kwritefile_text [] cs rc w
        else case write_fd piece w of (ok, w) \<Rightarrow> kwritefile_text [] cs (if ok then rc else X_ERROR) w
      else kwritefile_text (piece @ [c]) cs rc w)"

definition kwritefile :: "byte list \<Rightarrow> 'd ust \<Rightarrow> (int \<times> 'd ust) option" where
  "kwritefile bs s =
     (if k_binary s \<noteq> 0 then
        case write_fd bs (wd s) of (ok, w) \<Rightarrow> Some (if ok then X_OK else X_ERROR, s\<lparr>wd := w\<rparr>)
      else do {
        str \<leftarrow> read_str s (Ptr OBUF 0);
        let (rc, w) = kwritefile_text [] str X_OK (wd s);
        Some (rc, s\<lparr>wd := w\<rparr>)
      })"

definition kclosefile :: "byte \<Rightarrow> int \<Rightarrow> 'd ust \<Rightarrow> (int \<times> 'd ust) option" where
  "kclosefile c mode s =
     (if mode = 1 then Some (X_OK, s\<lparr>wd := (wd s)\<lparr>u_ifile := None\<rparr>\<rparr>)
      else if mode = 2 then
        if u_ofile (wd s) < 0 then Some (X_OK, s)
        else
          let w = wd s;
              rc = (if u_fds w (u_ofile w) = None then X_ERROR else X_OK);
              s = s\<lparr>wd := w\<lparr>u_fds := (u_fds w)(u_ofile w := None)\<rparr>\<rparr>
          in if k_ikeep s = 0 \<and> c = T_D then do {
               s \<leftarrow> kadd_rootpath (k_filename s) s;
               Some (rc, s\<lparr>wd := (wd s)\<lparr>u_files := (u_files (wd s))(u_kfilename (wd s) := None)\<rparr>\<rparr>)
             }
             else Some (rc, s)
      else Some (X_ERROR, s))"

definition kaccessfile :: "kptr \<Rightarrow> 'd ust \<Rightarrow> (int \<times> 'd ust) option" where
  "kaccessfile p s = do {
     s \<leftarrow> kadd_rootpath p s;
     let path = u_kfilename (wd s);
     Some (if u_files (wd s) path = None \<and> u_dirs (wd s) path = None then X_ERROR else X_OK, s)
   }"

subsection \<open>Directory listing\<close>

text \<open>The conversion \<^verbatim>\<open>%08lx\<close>.\<close>

definition hex_digit :: "nat \<Rightarrow> byte" where
  "hex_digit n = word_of_nat (if n < 10 then 48 + n else 87 + n)"

definition hex8 :: "u32 \<Rightarrow> byte list" where
  "hex8 v = map (\<lambda>i. hex_digit (unat (drop_bit (4 * (7 - i)) v AND 0xF))) [0..<8]"

definition dir_entry :: "byte list \<Rightarrow> u32 \<Rightarrow> byte list" where
  "dir_entry name etag = bytes_of_string ''{\"filename\":\"'' @ name @ bytes_of_string ''\",\"etag\":\"''
     @ hex8 etag @ bytes_of_string ''\"}''"

text \<open>
  The loop over \<^verbatim>\<open>readdir\<close>: \<^term>\<open>cnt\<close> entries have been listed and \<^term>\<open>res\<close> is the text so far.
  \<^verbatim>\<open>k->xdatabuf\<close> is used for the path and for the printed checksum.
\<close>

fun kgetdirdata_loop :: "(byte list \<times> bool) list \<Rightarrow> nat \<Rightarrow> u32 \<Rightarrow> byte list \<Rightarrow> 'd ust
    \<Rightarrow> (byte list \<times> 'd ust) option" where
  "kgetdirdata_loop [] cnt etag res s = Some (res, s)"
| "kgetdirdata_loop ((name, reg) # es) cnt etag res s =
     (if \<not> reg then kgetdirdata_loop es cnt etag res s
      else do {
        let path = u_kfilename (wd s) @ bytes_of_string ''/'' @ name;
        s \<leftarrow> write_bytes (Ptr XDATABUF 0) (path @ [0]) s;
        case u_files (wd s) path of
          None \<Rightarrow> kgetdirdata_loop es cnt etag res s
        | Some content \<Rightarrow> do {
            let (rc, f, crc) = CRCF_calc_crc \<lparr>f_data = content, f_pos = 0, f_long_max = u_long_max (wd s)\<rparr> 0 0 etag;
            if rc \<noteq> 0 \<and> \<not> (name \<noteq> [] \<and> hd name = 46)
            then kgetdirdata_loop es cnt crc res s
            else do {
              let etag = (if rc \<noteq> 0 then 0 else crc);
              s \<leftarrow> write_bytes (Ptr XDATABUF 0) (hex8 etag @ [0]) s;
              let res = res @ (if cnt \<noteq> 0 then bytes_of_string '','' else []) @ dir_entry name etag;
              if cnt + 1 = K_DIR_MAX then Some (res, s)
              else kgetdirdata_loop es (cnt + 1) etag res s
            }
          }
      })"

text \<open>Each \<^verbatim>\<open>strcat\<close> only lengthens the text, so the bound is checked on the final one.\<close>

definition kgetdirdata :: "kptr \<Rightarrow> 'd ust \<Rightarrow> (int \<times> 'd ust) option" where
  "kgetdirdata pdf s = do {
     s \<leftarrow> kadd_rootpath (Ptr DIRNAME 0) s;
     case u_dirs (wd s) (u_kfilename (wd s)) of
       None \<Rightarrow> Some (5, s)
     | Some es \<Rightarrow> do {
         (res, s) \<leftarrow> kgetdirdata_loop es 0 0 (bytes_of_string ''['') s;
         s \<leftarrow> write_bytes pdf (res @ bytes_of_string '']'' @ [0]) s;
         Some (X_OK, s)
       }
   }"

subsection \<open>The link\<close>

definition ktx_data :: "'d mldp \<Rightarrow> byte list \<Rightarrow> 'd ust \<Rightarrow> (int \<times> 'd ust) option" where
  "ktx_data h bs s =
     (case m_send h of
        None \<Rightarrow> Some (X_ERROR, s)
      | Some snd_bytes \<Rightarrow> do {
          (rc, d) \<leftarrow> snd_bytes bs (u_dev (wd s));
          Some (if rc \<noteq> 0 then X_ERROR else X_OK, s\<lparr>wd := (wd s)\<lparr>u_dev := d\<rparr>\<rparr>)
        })"

text \<open>
  Waiting for one byte: the inner loop of \<^verbatim>\<open>kreadpkt\<close>. It returns the error code, the remaining
  time and the byte. With no time given (\<^verbatim>\<open>k->r_timo = 0\<close>) the counter runs below zero and only
  a byte or an error ends the loop.
\<close>

partial_function (option) kreadpkt_wait :: "('d \<Rightarrow> (int \<times> byte option \<times> 'd) option) \<Rightarrow> (int \<Rightarrow> 'd \<Rightarrow> 'd option) \<Rightarrow> int \<Rightarrow> byte \<Rightarrow> 'd
    \<Rightarrow> (int \<times> int \<times> byte \<times> 'd) option" where
  "kreadpkt_wait get_byte wait timeout ch d = do {
     (err, b, d) \<leftarrow> get_byte d;
     let ch = (case b of Some c \<Rightarrow> c | None \<Rightarrow> ch);
     if err \<noteq> 1 \<and> err \<noteq> 0 then Some (err, timeout, ch, d)
     else do {
       let step = (if timeout \<ge> 10 then 10 else 1);
       let timeout = timeout - step;
       d \<leftarrow> wait step d;
       if err = 1 \<and> timeout \<noteq> 0 then kreadpkt_wait get_byte wait timeout ch d
       else Some (err, timeout, ch, d)
     }
   }"

text \<open>
  The outer loop. \<^term>\<open>cmd\<close> are the first bytes received, compared with the abort command when
  there are five of them; \<^term>\<open>flag\<close> tells that the start of a packet was seen; \<^term>\<open>n\<close> is the
  number of bytes stored at \<^term>\<open>p\<close>. Once five bytes are there, each further one is still written, to \<^verbatim>\<open>cmd[5]\<close>.
\<close>

partial_function (option) kreadpkt_loop :: "('d \<Rightarrow> (int \<times> byte option \<times> 'd) option) \<Rightarrow> (int \<Rightarrow> 'd \<Rightarrow> 'd option) \<Rightarrow> kptr
    \<Rightarrow> byte list \<Rightarrow> bool \<Rightarrow> int \<Rightarrow> byte \<Rightarrow> 'd ust \<Rightarrow> (int \<times> 'd ust) option" where
  "kreadpkt_loop get_byte wait p cmd flag n ch s = do {
     (err, timeout, ch, d) \<leftarrow> kreadpkt_wait get_byte wait (k_r_timo s * 1200) ch (u_dev (wd s));
     let s = s\<lparr>wd := (wd s)\<lparr>u_dev := d\<rparr>\<rparr>;
     if err \<noteq> 1 \<and> err \<noteq> 0 then Some (- K_END, s)
     else if timeout = 0 then Some (0, s)
     else if length cmd = 5 \<and> \<not> u_cmd_slack (wd s) then None
     else do {
       let cmd' = (if length cmd = 5 then cmd else cmd @ [ch]);
       if length cmd \<noteq> 5 \<and> cmd' = bytes_of_string ''CMD'' @ [13, 10] then Some (- K_END, s)
       else do {
         let final = (if k_parity s \<noteq> 0 then ch AND 0x7F else ch);
         if \<not> flag \<and> b2i final \<noteq> k_r_soh s then kreadpkt_loop get_byte wait p cmd' flag n ch s
         else if b2i final = k_r_soh s then kreadpkt_loop get_byte wait p cmd' True n ch s
         else if b2i final = k_r_eom s then do {
           s \<leftarrow> poke p n 0 s;
           Some (n, s)
         }
         else if n > k_r_maxlen s then Some (n + 1, s)
         else do {
           s \<leftarrow> poke p n ch s;
           kreadpkt_loop get_byte wait p cmd' flag (n + 1) ch s
         }
       }
     }
   }"

definition kreadpkt :: "'d mldp \<Rightarrow> kptr \<Rightarrow> 'd ust \<Rightarrow> (int \<times> 'd ust) option" where
  "kreadpkt h p s =
     (case (m_get h, m_wait h) of
        (Some get_byte, Some wait) \<Rightarrow> kreadpkt_loop get_byte wait p [] False 0 0 s
      | _ \<Rightarrow> Some (X_ERROR, s))"

text \<open>The function pointers \<^verbatim>\<open>_EK_init\<close> fills in.\<close>

definition unixio_ops :: "'d mldp \<Rightarrow> 'd uio k_ops" where
  "unixio_ops h = \<lparr>op_txd = ktx_data h, op_openf = kopenfile, op_finfo = kfileinfo, op_readf = kreadfile,
     op_writef = kwritefile, op_closef = kclosefile, op_getdirdata = kgetdirdata, op_accessf = kaccessfile\<rparr>"

subsection \<open>The contracts of the engine\<close>

definition ofile_open :: "'d uio \<Rightarrow> bool" where
  "ofile_open w \<longleftrightarrow> u_fds w (u_ofile w) \<noteq> None"

definition ofile_bytes :: "'d uio \<Rightarrow> byte list" where
  "ofile_bytes w = (case u_fds w (u_ofile w) of Some bs \<Rightarrow> bs | None \<Rightarrow> [])"

definition ifile_open :: "'d uio \<Rightarrow> bool" where
  "ifile_open w \<longleftrightarrow> u_ifile w \<noteq> None"

definition ifile_rest :: "'d uio \<Rightarrow> byte list" where
  "ifile_rest w = (case u_ifile w of Some bs \<Rightarrow> bs | None \<Rightarrow> [])"

interpretation ofile: file_sink "unixio_ops h" ofile_bytes ofile_open for h :: "'d mldp"
  by unfold_locales (auto simp: unixio_ops_def kwritefile_def write_fd_def ofile_open_def ofile_bytes_def)

lemma kreadfile_refill:
  assumes "k_binary s = 1" and "zin_ok s" and "k_zincnt s < 0" and "u_ifile (wd s) = Some f"
  shows "\<exists>t. src_core t = src_core s \<and> zin_ok t \<and> u_ifile (wd t) \<noteq> None \<and>
           (case f of [] \<Rightarrow> kreadfile s = Some (-1, t)
            | c # cs \<Rightarrow> kreadfile s = Some (b2i c, t) \<and> zin_bytes t @ the (u_ifile (wd t)) = cs)"
proof (cases f)
  obtain n where n: "k_zinptr s = Ptr ZINBUF (int n)" "n \<le> 512" and l: "k_zinlen s = 512"
    using assms(2,3) by (auto simp: zin_ok_def)
  case Nil
  let ?t = "s\<lparr>k_dummy := 0, mem := (mem s)(ZINBUF := splice (mem s ZINBUF) 0 []),
      wd := (wd s)\<lparr>u_ifile := Some []\<rparr>, k_zincnt := 0\<rparr>"
  have "kreadfile s = Some (-1, ?t)"
    using n l assms(1,3,4) Nil by (simp add: kreadfile_def write_bytes_in)
  moreover have "src_core ?t = src_core s" by (simp add: src_core_def)
  moreover have "zin_ok ?t" using n l by (simp add: zin_ok_def)
  ultimately show ?thesis using Nil by (intro exI [of _ ?t]) simp
next
  obtain n where n: "k_zinptr s = Ptr ZINBUF (int n)" "n \<le> 512" and l: "k_zinlen s = 512"
    using assms(2,3) by (auto simp: zin_ok_def)
  case (Cons c cs)
  define bs where "bs = take 512 f"
  define m where "m = (splice (mem s ZINBUF) 0 bs)(length bs := 0)"
  let ?k = "length bs"
  let ?t = "s\<lparr>k_dummy := 0, mem := (mem s)(ZINBUF := m), wd := (wd s)\<lparr>u_ifile := Some (drop 512 f)\<rparr>,
      k_zincnt := int ?k - 1, k_zinptr := Ptr ZINBUF 1\<rparr>"
  have k: "0 < ?k" "?k \<le> 512" "bs \<noteq> []" using Cons by (simp_all add: bs_def)
  have hb: "has_bytes m 0 bs"
    unfolding m_def using has_bytes_splice [of "mem s ZINBUF" 0 bs] has_bytes_upd_out [of ?k 0 bs] by simp
  then have "m 0 = hd bs" using k(3) by (cases bs) simp_all
  then have m: "m 0 = c" "map m [0..<?k] = bs"
    using Cons map_eq_has_bytes [OF hb] by (simp_all add: bs_def)
  have wb: "write_bytes (Ptr ZINBUF 0) bs u = Some (u\<lparr>mem := (mem u)(ZINBUF := splice (mem u ZINBUF) 0 bs)\<rparr>)"
    for u :: "'a ust" using k(2) by (simp add: write_bytes_in)
  have pk: "poke (Ptr ZINBUF 0) (int ?k) 0 u = Some (u\<lparr>mem := (mem u)(ZINBUF := (mem u ZINBUF)(?k := 0))\<rparr>)"
    for u :: "'a ust" using k(2) by (simp add: poke_in)
  have ne: "f \<noteq> []" using Cons by simp
  have "kreadfile s = Some (b2i c, ?t)"
    unfolding kreadfile_def using n(1) l assms(1,3,4) k(3) m(1) ne
    by (simp add: wb pk peek_in Let_def flip: bs_def m_def)
  moreover have "zin_bytes ?t @ drop 512 f = cs"
  proof -
    have "[0..<?k] = 0 # [1..<?k]" using k(1) by (simp add: upt_conv_Cons)
    then have "map m [1..<?k] = tl bs" using m(2) by (metis list.map(2) list.sel(3))
    moreover have "zin_bytes ?t = map m [1..<?k]"
    proof -
      have "nat 1 + nat (int ?k - 1) = ?k" using k(1) by linarith
      then show ?thesis by (simp add: zin_bytes_def del: upt_Suc)
    qed
    moreover have "bs @ drop 512 f = f" by (simp add: bs_def)
    ultimately show ?thesis using Cons k(3) by (metis list.sel(3) tl_append2)
  qed
  moreover have "src_core ?t = src_core s" by (simp add: src_core_def)
  moreover have "zin_ok ?t" using l k by (auto simp: zin_ok_def intro!: exI [of _ 1])
  ultimately show ?thesis using Cons by (intro exI [of _ ?t]) simp
qed

interpretation ifile: file_source "unixio_ops h" ifile_rest ifile_open for h :: "'d mldp"
proof unfold_locales
  fix s :: "'d ust"
  assume s: "k_binary s = 1" "zin_ok s" "k_zincnt s < 0" "ifile_open (wd s)"
  then obtain f where f: "u_ifile (wd s) = Some f" by (auto simp: ifile_open_def)
  obtain t where t: "src_core t = src_core s" "zin_ok t" "u_ifile (wd t) \<noteq> None"
      "case f of [] \<Rightarrow> kreadfile s = Some (-1, t)
         | c # cs \<Rightarrow> kreadfile s = Some (b2i c, t) \<and> zin_bytes t @ the (u_ifile (wd t)) = cs"
    using kreadfile_refill [OF s(1-3) f] by blast
  then show "\<exists>t. src_core t = src_core s \<and> zin_ok t \<and> ifile_open (wd t) \<and>
        (case ifile_rest (wd s) of
           [] \<Rightarrow> op_readf (unixio_ops h) s = Some (-1, t)
         | c # cs \<Rightarrow> op_readf (unixio_ops h) s = Some (b2i c, t) \<and> zin_bytes t @ ifile_rest (wd t) = cs)"
    by (intro exI [of _ t]) (auto simp: f unixio_ops_def ifile_open_def ifile_rest_def split: list.splits)
qed

end
