(* ===== verification/Kermit_Transfer.thy ===== *)
theory Kermit_Transfer
  imports Unixio
begin

text \<open>
  A whole file through the two halves of the engine: the data fields that successive calls of
  \<^verbatim>\<open>getpkt\<close> produce, and what \<^verbatim>\<open>decode\<close> makes of them in order.
\<close>

subsection \<open>Definitions\<close>

text \<open>
  The calls of \<^verbatim>\<open>getpkt\<close> that \<^verbatim>\<open>sdata\<close> makes until one of them returns 0; the fuel bounds
  their number.
\<close>

fun send_fields :: "'w k_ops \<Rightarrow> nat \<Rightarrow> 'w kst \<Rightarrow> (byte list list \<times> 'w kst) option" where
  "send_fields ops 0 s = None"
| "send_fields ops (Suc n) s = do {
     (len, s) \<leftarrow> getpkt ops s;
     if len < 1 then Some ([], s)
     else do {
       f \<leftarrow> read_bytes s (k_xdata s) (nat len);
       (fs, s) \<leftarrow> send_fields ops n s;
       Some (f # fs, s)
     }
   }"

text \<open>The receiver stores each field as a string in its slot buffer and decodes it.\<close>

fun recv_fields :: "'w k_ops \<Rightarrow> byte list list \<Rightarrow> 'w kst \<Rightarrow> (int \<times> 'w kst) option" where
  "recv_fields ops [] s = Some (X_OK, s)"
| "recv_fields ops (f # fs) s = do {
     s \<leftarrow> write_bytes (Ptr IPKTBUFS 0) (f @ [0]) s;
     (rc, s) \<leftarrow> decode ops 1 (Ptr IPKTBUFS 0) (-1) s;
     if rc \<noteq> X_OK then Some (rc, s) else recv_fields ops fs s
   }"

text \<open>A sender that has just opened its input file, with the parameters of the binary mode.\<close>

definition opened_for_reading :: "byte list \<Rightarrow> 'd ust \<Rightarrow> bool" where
  "opened_for_reading file s \<longleftrightarrow> u_ifile (wd s) = Some file \<and> k_zinlen s = 512 \<and> k_zinptr s = Ptr ZINBUF 0 \<and>
     k_zincnt s = 0 \<and> k_s_first s = 1"

definition sender_ready :: "'d ust \<Rightarrow> bool" where
  "sender_ready s \<longleftrightarrow> k_binary s = 1 \<and> k_ebqflg s = 0 \<and> codec_ok (k_s_ctlq s) (rpt_prefix s) \<and>
     k_xdata s = Ptr XDATABUF 0 \<and> k_istring s = Null \<and> k_s_rpt s = 0 \<and>
     0 \<le> k_bct s \<and> k_bct s \<le> 3 \<and> 18 \<le> k_s_maxlen s \<and> k_s_maxlen s \<le> int P_PKTLEN"

definition receiver_ready :: "'d ust \<Rightarrow> 'd ust \<Rightarrow> bool" where
  "receiver_ready s r \<longleftrightarrow> k_binary r = 1 \<and> k_parity r = 0 \<and> k_r_ctlq r = k_s_ctlq s \<and> rpt_prefix r = rpt_prefix s \<and>
     k_recvdir r \<noteq> 1 \<and> 0 \<le> k_obufpos r \<and> k_obufpos r < k_obuflen r \<and> k_obuflen r \<le> int OBUFLEN \<and>
     ofile_open (wd r)"

text \<open>All bytes delivered so far: written to the file or waiting in the output buffer.\<close>

definition delivered :: "'d ust \<Rightarrow> byte list" where
  "delivered r = ofile_bytes (wd r) @ obuf_bytes r"

subsection \<open>The sending side\<close>

lemma get_core_sel:
  "k_s_ctlq (get_core s) = k_s_ctlq s" "rpt_prefix (get_core s) = rpt_prefix s" "k_xdata (get_core s) = k_xdata s"
  by (simp_all add: get_core_def src_core_def rpt_prefix_def)

lemma get_core_keeps:
  assumes "get_core t = get_core s"
  shows "k_s_ctlq t = k_s_ctlq s" "rpt_prefix t = rpt_prefix s" "k_xdata t = k_xdata s"
  using assms by (metis get_core_sel)+

context file_source
begin

lemma send_fields_pending:
  assumes "pending s d"
  shows "\<exists>n fs t ds. send_fields ops n s = Some (fs, t) \<and> list_all2 (encodes (k_s_ctlq s) (rpt_prefix s)) fs ds \<and>
           concat ds = d \<and> (\<forall>f \<in> set fs. int (length f) \<le> limit s + 2)"
  using assms
proof (induction "length d" arbitrary: s d rule: less_induct)
  case less
  obtain t d1 d2 where t: "getpkt ops s = Some (k_size t, t)" "d = d1 @ d2"
      "if d = [] then k_size t = 0 \<and> pending t [] \<and> get_core t = get_core s else hands_over s d1 d2 t"
    using getpkt_hands_over [OF less.prems] by blast
  show ?case
  proof (cases "d = []")
    case True
    then have "send_fields ops 1 s = Some ([], t)" using t by simp
    then show ?thesis using True by (intro exI [of _ 1] exI [of _ "[]"] exI [of _ t]) simp
  next
    case False
    then have h: "hands_over s d1 d2 t" using t(3) by simp
    then have p: "pending t d2" "get_core t = get_core s" "0 < k_size t" "k_size t \<le> limit s + 2"
        "encodes (k_s_ctlq s) (rpt_prefix s) (xfield t) d1" "limit t = limit s"
      by (simp_all add: hands_over_def)
    note k = get_core_keeps [OF p(2)]
    have lx: "length (xfield t) = nat (k_size t)" by (simp add: xfield_def)
    then have "xfield t \<noteq> []" using p(3) by auto
    then have "length d2 < length d" using encodes_nil_iff [OF p(5)] t(2) by simp
    from less.hyps [OF this p(1)] obtain n fs u ds where
      u: "send_fields ops n t = Some (fs, u)" "list_all2 (encodes (k_s_ctlq t) (rpt_prefix t)) fs ds"
        "concat ds = d2" "\<forall>f \<in> set fs. int (length f) \<le> limit t + 2" by blast
    have cfg: "k_xdata t = Ptr XDATABUF 0" "limit t \<le> 991"
      using p(1) by (auto simp: pending_def send_cfg_def enc_mode_def limit_def)
    have "read_bytes t (k_xdata t) (nat (k_size t)) = Some (xfield t)"
      using cfg p(3,4,6) by (simp add: read_bytes_in xfield_def nat_le_iff)
    then have "send_fields ops (Suc n) s = Some (xfield t # fs, u)"
      using t(1) p(3) u(1) by simp
    moreover have "list_all2 (encodes (k_s_ctlq s) (rpt_prefix s)) (xfield t # fs) (d1 # ds)"
      using p(5) u(2) k by simp
    moreover have "concat (d1 # ds) = d" using t(2) u(3) by simp
    moreover have "\<forall>f \<in> set (xfield t # fs). int (length f) \<le> limit s + 2"
      using u(4) p(3,4,6) lx by auto
    ultimately show ?thesis by blast
  qed
qed

end

subsection \<open>The receiving side\<close>

context file_sink
begin

lemma recv_fields_encoded:
  assumes "list_all2 (encodes q r) fs ds" and "bin_mode s" and "q = k_r_ctlq s" and "r = rpt_prefix s"
    and "sink_ok s" and "wr_ok (wd s)" and "\<forall>f \<in> set fs. length f < P_BUFLEN"
  shows "\<exists>t. recv_fields ops fs s = Some (X_OK, t) \<and> sink_ok t \<and> wr_ok (wd t) \<and>
           outf (wd t) @ obuf_bytes t = outf (wd s) @ obuf_bytes s @ concat ds"
  using assms
proof (induction fs ds arbitrary: s rule: list_all2_induct)
  case Nil
  then show ?case by simp
next
  case (Cons f fs d ds)
  let ?s = "s\<lparr>mem := (mem s)(IPKTBUFS := splice (mem s IPKTBUFS) 0 (f @ [0]))\<rparr>"
  have w: "write_bytes (Ptr IPKTBUFS 0) (f @ [0]) s = Some ?s"
    using Cons.prems by (simp add: write_bytes_in)
  have k: "bin_mode ?s" "k_r_ctlq ?s = k_r_ctlq s" "rpt_prefix ?s = rpt_prefix s" "sink_ok ?s" "wr_ok (wd ?s)"
      "obuf_bytes ?s = obuf_bytes s" "has_bytes (mem ?s IPKTBUFS) 0 (f @ [0])"
    using Cons.prems has_bytes_splice [of "mem s IPKTBUFS" 0 "f @ [0]"]
    by (auto simp: bin_mode_def rpt_prefix_def sink_ok_def obuf_bytes_def split: if_splits)
  obtain t where t: "decode_loop ops 1 (Ptr IPKTBUFS 0) 0 0 Null X_OK ?s = Some (Null, X_OK, t)" "delivers ?s d t"
    using decode_loop_sink [OF Cons.hyps(1) k(1) _ _ k(4,5), of 1 IPKTBUFS 0 Null] k Cons.prems by auto
  have d: "decode ops 1 (Ptr IPKTBUFS 0) (-1) ?s = Some (X_OK, t)"
    using t(1) by (simp add: decode_def)
  have f: "dec_frame ?s t" "sink_ok t" "wr_ok (wd t)" "outf (wd t) @ obuf_bytes t = outf (wd s) @ obuf_bytes s @ d"
    using t(2) k(6) by (simp_all add: delivers_def)
  obtain u where "recv_fields ops fs t = Some (X_OK, u)" "sink_ok u" "wr_ok (wd u)"
      "outf (wd u) @ obuf_bytes u = outf (wd t) @ obuf_bytes t @ concat ds"
    using Cons.IH [of t] dec_frame_keeps [OF f(1)] f k Cons.prems by auto
  with w d f(4) show ?case by auto
qed

end

subsection \<open>The round trip\<close>

lemma opened_pending:
  assumes "opened_for_reading file s" and "sender_ready s"
  shows "ifile.pending s file" "ifile.limit s + 2 \<le> k_s_maxlen s - 7" "ifile.limit s + 2 < int P_BUFLEN"
proof -
  have "ifile.send_cfg s"
    using assms(2) by (auto simp: ifile.send_cfg_def sender_ready_def enc_mode_def ifile.limit_def)
  moreover have "ifile.counting s 0" using assms(2) by (simp add: ifile.counting_def sender_ready_def)
  moreover have "ifile.feed s" "ifile.stream s = file"
    using assms by (auto simp: ifile.feed_def opened_for_reading_def sender_ready_def zin_ok_def ifile.stream_def
        zin_bytes_def ifile_open_def ifile_rest_def)
  ultimately show "ifile.pending s file" using assms(1) by (auto simp: ifile.pending_def opened_for_reading_def)
  show "ifile.limit s + 2 \<le> k_s_maxlen s - 7" "ifile.limit s + 2 < int P_BUFLEN"
    using assms(2) by (auto simp: ifile.limit_def sender_ready_def)
qed

text \<open>
  C1. A file survives the transfer of its data fields. For every file content, a sender that has
  just opened it cuts it by successive \<^verbatim>\<open>getpkt\<close> calls into finitely many data fields and then
  reports the end of the file; no field contains a zero byte, a packet start or a packet end, and
  none is longer than the negotiated packet length allows. A receiver with the same prefixes
  that decodes the fields in order reports success and has delivered exactly the bytes of the
  file, written or still in its output buffer.
\<close>

theorem file_data_roundtrip:
  assumes "opened_for_reading file s" and "sender_ready s" and "receiver_ready s r"
  shows "\<exists>n fs s' r'. send_fields (unixio_ops h) n s = Some (fs, s') \<and>
           recv_fields (unixio_ops h) fs r = Some (X_OK, r') \<and> delivered r' = delivered r @ file \<and>
           (\<forall>f \<in> set fs. int (length f) \<le> k_s_maxlen s - 7 \<and> set f \<inter> reserved = {})"
proof -
  note p = opened_pending [OF assms(1,2)]
  obtain n fs t ds where fs: "send_fields (unixio_ops h) n s = Some (fs, t)"
      "list_all2 (encodes (k_s_ctlq s) (rpt_prefix s)) fs ds" "concat ds = file"
      "\<forall>f \<in> set fs. int (length f) \<le> ifile.limit s + 2"
    using ifile.send_fields_pending [OF p(1)] by blast
  have ok: "codec_ok (k_s_ctlq s) (rpt_prefix s)" using assms(2) by (simp add: sender_ready_def)
  have r: "bin_mode r" "sink_ok r" "k_s_ctlq s = k_r_ctlq r" "rpt_prefix s = rpt_prefix r"
      "ofile_open (wd r)"
    using assms(3) ok by (auto simp: receiver_ready_def bin_mode_def sink_ok_def)
  obtain r' where "recv_fields (unixio_ops h) fs r = Some (X_OK, r')" "delivered r' = delivered r @ file"
    using ofile.recv_fields_encoded [OF fs(2) r(1,3,4,2,5)] fs(3,4) p(3) by (force simp: delivered_def)
  moreover have "set f \<inter> reserved = {}" if "f \<in> set fs" for f
    using that fs(2) encodes_clean [OF _ ok] by (fastforce simp: list_all2_conv_all_nth in_set_conv_nth)
  ultimately show ?thesis using fs(1,4) p(2) by (intro exI conjI) (auto intro: order_trans)
qed

definition demo_link :: "unit mldp" where
  "demo_link = \<lparr>m_send = None, m_get = None, m_wait = None\<rparr>"

definition demo_world :: "unit uio" where
  "demo_world = \<lparr>u_files = (\<lambda>_. None), u_dirs = (\<lambda>_. None), u_ifile = Some [0x41, 0x41, 0x41, 0, 0x23],
     u_ofile = 3, u_fds = [3 \<mapsto> []], u_kfilename = [], u_cmd_slack = True, u_long_max = 0x7FFFFFFF, u_dev = ()\<rparr>"

definition demo_sender :: "unit ust" where
  "demo_sender = (k_zero demo_world)\<lparr>k_binary := 1, k_s_ctlq := PREFIX_CTRL, k_rptflg := 1, k_rptq := PREFIX_REPEAT,
     k_xdata := Ptr XDATABUF 0, k_bct := 1, k_s_maxlen := 100, k_zinlen := 512, k_zinptr := Ptr ZINBUF 0,
     k_s_first := 1\<rparr>"

definition demo_receiver :: "unit ust" where
  "demo_receiver = (k_zero demo_world)\<lparr>k_binary := 1, k_r_ctlq := PREFIX_CTRL, k_rptflg := 1,
     k_rptq := PREFIX_REPEAT, k_obuflen := 512\<rparr>"

theorem file_data_roundtrip_witness:
  "\<exists>n fs s' r'. send_fields (unixio_ops demo_link) n demo_sender = Some (fs, s') \<and>
     recv_fields (unixio_ops demo_link) fs demo_receiver = Some (X_OK, r') \<and>
     delivered r' = [0x41, 0x41, 0x41, 0, 0x23] \<and>
     (\<forall>f \<in> set fs. int (length f) \<le> 93 \<and> set f \<inter> reserved = {})"
  using file_data_roundtrip [of "[0x41, 0x41, 0x41, 0, 0x23]" demo_sender demo_receiver demo_link]
  by (simp add: opened_for_reading_def sender_ready_def receiver_ready_def demo_sender_def demo_receiver_def
      demo_world_def k_zero_def rpt_prefix_def codec_ok_def good_prefix_def reserved_def ctl_def
      delivered_def obuf_bytes_def ofile_open_def ofile_bytes_def)

end
