(* ===== verification/Kermit_Attr.thy ===== *)
theory Kermit_Attr
  imports Kermit_Codec Kermit_Mem
begin

text \<open>
  Attribute packets of \<^verbatim>\<open>kermit.c\<close>: numbers as decimal strings (\<^verbatim>\<open>stringnum\<close>, \<^verbatim>\<open>numstring\<close>), reading
  (\<^verbatim>\<open>gattr\<close>) and sending (\<^verbatim>\<open>sattr\<close>) the attributes of a file. \<^verbatim>\<open>long\<close> has 32 bits on the target; a
  sum that leaves its range is undefined.
\<close>

subsection \<open>Numbers\<close>

definition LONG_MAX :: int where
  "LONG_MAX = 2147483647"

definition is_digit :: "byte \<Rightarrow> bool" where
  "is_digit c \<longleftrightarrow> 48 \<le> b2i c \<and> b2i c \<le> 57"

fun stringnum_digits :: "byte list \<Rightarrow> int \<Rightarrow> int option" where
  "stringnum_digits [] n = Some n"
| "stringnum_digits (c # cs) n =
     (if is_digit c then
        let m = n * 10 + (b2i c - 48)
        in if m > LONG_MAX then None else stringnum_digits cs m
      else Some n)"

definition stringnum :: "byte list \<Rightarrow> int option" where
  "stringnum cs = stringnum_digits (dropWhile (\<lambda>c. c = SP) cs) 0"

text \<open>
  The loop fills the buffer from its end, positions \<^term>\<open>i\<close> down to 1; it fails (\<^verbatim>\<open>numstring\<close> returns a
  null pointer) when digits are left. The digits are then moved to the front of the buffer.
\<close>

definition digit_char :: "int \<Rightarrow> byte" where
  "digit_char n = i2b (n mod 10 + 48)"

fun numstring_loop :: "nat \<Rightarrow> int \<Rightarrow> byte list \<Rightarrow> byte list option" where
  "numstring_loop 0 n acc = None"
| "numstring_loop (Suc i) n acc =
     (let acc = digit_char n # acc; n = n div 10
      in if n = 0 then Some acc else numstring_loop i n acc)"

definition numstring :: "int \<Rightarrow> nat \<Rightarrow> byte list option" where
  "numstring n buflen = numstring_loop (buflen - 2) n []"

subsection \<open>Reading attributes\<close>

abbreviation "SIZEBUFL \<equiv> (32::nat)"
abbreviation "ATTRLEN \<equiv> (48::int)"

text \<open>
  One attribute copied into \<^verbatim>\<open>sizebuf\<close>, at most \<^verbatim>\<open>SIZEBUFL\<close> bytes of it, and the terminator behind
  them: a value of \<^verbatim>\<open>SIZEBUFL\<close> bytes or more puts the terminator outside the array.
\<close>

definition gattr_value :: "'w kst \<Rightarrow> kptr \<Rightarrow> int \<Rightarrow> nat \<Rightarrow> byte list option" where
  "gattr_value s p i aln = do {
     bs \<leftarrow> read_bytes s (padd p i) (min aln SIZEBUFL);
     if length bs = SIZEBUFL then None else Some (cstr bs)
   }"

text \<open>The attribute with tag \<^term>\<open>c\<close> and length \<^term>\<open>aln\<close> whose value starts at position \<^term>\<open>i\<close>.\<close>

definition gattr_item :: "kptr \<Rightarrow> int \<Rightarrow> byte \<Rightarrow> nat \<Rightarrow> int \<Rightarrow> int \<Rightarrow> 'w kst \<Rightarrow> (int \<times> int \<times> 'w kst) option" where
  "gattr_item p i c aln fsize rc s =
     (if c = 0x21 then do {
        v \<leftarrow> gattr_value s p i aln;
        fsizek \<leftarrow> stringnum v;
        Some (fsize, rc, s)
      }
      else if c = 0x22 then do {
        v \<leftarrow> gattr_value s p i aln;
        Some (fsize, if v \<noteq> [] \<and> hd v = T_A then 0 else if v \<noteq> [] \<and> hd v = T_B then 1 else rc, s)
      }
      else if c = 0x23 then do {
        bs \<leftarrow> read_bytes s (padd p i) (min aln DATE_MAX);
        s \<leftarrow> write_bytes (Ptr R_FILEDATE 0) (bs @ [0]) s;
        Some (fsize, rc, s)
      }
      else if c = 0x31 then do {
        v \<leftarrow> gattr_value s p i aln;
        n \<leftarrow> stringnum v;
        Some (n, rc, s)
      }
      else Some (fsize, rc, s))"

partial_function (option) gattr_loop :: "kptr \<Rightarrow> int \<Rightarrow> int \<Rightarrow> int \<Rightarrow> 'w kst \<Rightarrow> (int \<times> int \<times> 'w kst) option" where
  "gattr_loop p i fsize rc s = do {
     c \<leftarrow> peek s p i;
     if c = 0 then Some (fsize, rc, s)
     else do {
       l \<leftarrow> peek s p (i + 1);
       (fsize, rc, s) \<leftarrow> gattr_item p (i + 2) c (nat (xunchar l)) fsize rc s;
       gattr_loop p (i + 2 + xunchar l) fsize rc s
     }
   }"

text \<open>
  The size in bytes starts at 0 and is never negative, so it is always stored, and the size in
  kilobytes (computed and dropped above) is never used.
\<close>

definition gattr :: "kptr \<Rightarrow> 'w kst \<Rightarrow> (int \<times> 'w kst) option" where
  "gattr p s = do {
     (fsize, rc, s) \<leftarrow> gattr_loop p 0 0 (-1) s;
     Some (rc, if fsize > -1 then s\<lparr>r_filesize := fsize\<rparr> else s)
   }"

subsection \<open>Sending attributes\<close>

definition sattr_type :: "int \<Rightarrow> byte list" where
  "sattr_type binary =
     (if binary \<noteq> 0 then [0x22, tochar 2, T_B, 0x38]
      else [0x22, tochar 3, T_A, 0x4D, 0x4A, 0x2A, tochar 1, T_A])"

definition sattr_length :: "byte list \<Rightarrow> int \<Rightarrow> byte list" where
  "sattr_length attrs filelength =
     (if filelength > -1 then
        case numstring filelength 16 of
          None \<Rightarrow> attrs
        | Some ds \<Rightarrow>
            if int (length attrs) + int (length ds) < ATTRLEN - 3
            then attrs @ [0x31, tochar (int (length ds))] @ ds else attrs
      else attrs)"

definition sattr_date_fits :: "byte list \<Rightarrow> byte list \<Rightarrow> bool" where
  "sattr_date_fits attrs date \<longleftrightarrow> date \<noteq> [] \<and> int (length attrs) + int (length date) < ATTRLEN - 3"

definition sattr :: "'w k_ops \<Rightarrow> 'w kst \<Rightarrow> (int \<times> 'w kst) option" where
  "sattr ops s = do {
     (filelength, datebuf, typ, s) \<leftarrow> op_finfo ops (k_filename s) (k_binary s) (k_xfermode s) s;
     let s = s\<lparr>k_binary := typ, r_filesize := (if filelength > -1 then filelength else r_filesize s)\<rparr>;
     let attrs = sattr_length (sattr_type (k_binary s)) filelength;
     let date = cstr datebuf;
     if length date \<ge> DATE_MAX then None
     else do {
       let dated = sattr_date_fits attrs date;
       let attrs = (if dated then attrs @ [0x23, tochar (int (length date))] @ date else attrs);
       s \<leftarrow> (if dated then write_bytes (Ptr R_FILEDATE 0) (date @ [0]) s else Some s);
       s \<leftarrow> write_bytes (k_xdata s) (attrs @ [0x40, SP, 0]) s;
       (buf, s_slot, s) \<leftarrow> get_sslot s;
       if buf \<noteq> Null then do {
         s \<leftarrow> s_pw_set (k_s_seq s) s_slot s;
         spkt ops T_A (k_s_seq s) (-1) (k_xdata s) s
       }
       else Some (0, s)
     }
   }"

subsection \<open>Decimal round trip\<close>

lemma b2i_digit: "b2i (digit_char n) = n mod 10 + 48"
  unfolding digit_char_def using pos_mod_bound [of 10 n] pos_mod_sign [of 10 n] by (intro b2i_i2b_id) simp_all

lemma is_digit_digit: "is_digit (digit_char n)"
  using pos_mod_bound [of 10 n] by (simp add: is_digit_def b2i_digit)

fun dec_value :: "byte list \<Rightarrow> int \<Rightarrow> int" where
  "dec_value [] n = n"
| "dec_value (c # cs) n = dec_value cs (n * 10 + (b2i c - 48))"

lemma stringnum_digits_value:
  "list_all is_digit cs \<Longrightarrow> 0 \<le> n \<Longrightarrow> dec_value cs n \<le> LONG_MAX \<Longrightarrow> stringnum_digits cs n = Some (dec_value cs n)"
proof (induction cs arbitrary: n)
  case (Cons c cs)
  have mono: "list_all is_digit cs \<Longrightarrow> 0 \<le> m \<Longrightarrow> m \<le> dec_value cs m" for cs m
  proof (induction cs arbitrary: m)
    case (Cons a cs)
    have "m \<le> m * 10 + (b2i a - 48)" "0 \<le> m * 10 + (b2i a - 48)"
      using Cons.prems by (auto simp: is_digit_def)
    then show ?case using Cons.IH [of "m * 10 + (b2i a - 48)"] Cons.prems(1) by auto
  qed simp
  let ?m = "n * 10 + (b2i c - 48)"
  have m: "0 \<le> ?m" using Cons.prems by (simp add: is_digit_def)
  then have "?m \<le> dec_value cs ?m" using Cons.prems(1) by (intro mono) simp_all
  with m Cons show ?case by (simp add: Let_def)
qed simp

lemma dec_value_append: "dec_value (xs @ ys) n = dec_value ys (dec_value xs n)"
  by (induction xs arbitrary: n) auto

lemma numstring_loop_value:
  assumes "numstring_loop i n acc = Some ds" and "0 \<le> n"
  shows "\<exists>hs. ds = hs @ acc \<and> list_all is_digit hs \<and> hs \<noteq> [] \<and> dec_value hs 0 = n"
  using assms
proof (induction i arbitrary: n acc ds)
  case (Suc i)
  let ?d = "digit_char n"
  have d: "is_digit ?d" "b2i ?d - 48 = n mod 10" by (simp_all add: is_digit_digit b2i_digit)
  show ?case
  proof (cases "n div 10 = 0")
    case True
    then have "dec_value [?d] 0 = n" using d(2) by simp
    with True Suc.prems d(1) show ?thesis by (intro exI [of _ "[?d]"]) (auto simp: Let_def)
  next
    case False
    with Suc.prems have "numstring_loop i (n div 10) (?d # acc) = Some ds" by (simp add: Let_def)
    then obtain hs where hs: "ds = hs @ ?d # acc" "list_all is_digit hs" "hs \<noteq> []" "dec_value hs 0 = n div 10"
      using Suc.IH [of "n div 10" "?d # acc" ds] Suc.prems(2) by (auto simp: pos_imp_zdiv_nonneg_iff)
    have "dec_value (hs @ [?d]) 0 = n" using hs(4) d(2) by (simp add: dec_value_append)
    with hs d(1) show ?thesis by (intro exI [of _ "hs @ [?d]"]) auto
  qed
qed simp

lemma numstring_loop_enough: "0 \<le> n \<Longrightarrow> n < 10 ^ i \<Longrightarrow> i \<noteq> 0 \<Longrightarrow> \<exists>ds. numstring_loop i n acc = Some ds"
proof (induction i arbitrary: n acc)
  case (Suc i)
  show ?case
  proof (cases "n div 10 = 0")
    case False
    then have "n div 10 < 10 ^ i" "0 \<le> n div 10" "i \<noteq> 0"
      using Suc.prems by (auto simp: pos_imp_zdiv_nonneg_iff div_less_iff_less_mult zdiv_eq_0_iff intro: ccontr)
    then show ?thesis using Suc.IH [of "n div 10"] False by (simp add: Let_def)
  qed (simp add: Let_def)
qed simp

text \<open>
  A file length written into an attribute packet is read back: for every value of a
  non-negative \<^verbatim>\<open>long\<close>, \<^verbatim>\<open>numstring\<close> with the 16-byte buffer of \<^verbatim>\<open>sattr\<close> succeeds and
  \<^verbatim>\<open>stringnum\<close> of its digits is the value.
\<close>

theorem stringnum_numstring:
  assumes "0 \<le> n" and "n \<le> LONG_MAX"
  shows "\<exists>ds. numstring n 16 = Some ds \<and> stringnum ds = Some n"
proof -
  obtain ds where ds: "numstring n 16 = Some ds"
    using numstring_loop_enough [of n 14 "[]"] assms by (auto simp: numstring_def LONG_MAX_def)
  then have v: "list_all is_digit ds" "ds \<noteq> []" "dec_value ds 0 = n"
    using numstring_loop_value [of 14 n "[]" ds] assms(1) by (auto simp: numstring_def)
  then have "dropWhile (\<lambda>c. c = SP) ds = ds" by (cases ds) (auto simp: is_digit_def)
  with ds v assms(2) show ?thesis using stringnum_digits_value [of ds 0] by (simp add: stringnum_def)
qed

theorem stringnum_numstring_witness:
  "\<exists>ds. numstring 4096 16 = Some ds \<and> stringnum ds = Some 4096"
  using stringnum_numstring [of 4096] by (simp add: LONG_MAX_def)

end
