(* ===== verification/Kermit_Recv.thy ===== *)
theory Kermit_Recv
  imports Kermit_Attr
begin

text \<open>
  The receive window of \<^verbatim>\<open>kermit.c\<close>: the slots, the order of their sequence numbers, the handling of
  a data packet with a good block check (\<^verbatim>\<open>handle_good_rpkt\<close>) and emptying the window into the
  file (\<^verbatim>\<open>flush_to_file\<close>).
\<close>

subsection \<open>Receive slots\<close>

definition get_rslot :: "'w kst \<Rightarrow> (kptr \<times> int \<times> 'w kst) option" where
  "get_rslot s = do {
     r \<leftarrow> first_free (ipkt s) (slots s);
     case r of
       None \<Rightarrow> Some (Null, -1, s)
     | Some slot \<Rightarrow> do {
         s \<leftarrow> upd_ipkt slot (\<lambda>p. p\<lparr>p_len := -1, p_seq := -1, p_typ := SP, p_crc := 0xFFFF, p_dat := Null\<rparr>) s;
         p \<leftarrow> ipkt s slot;
         Some (p_buf p, slot, s)
       }
   }"

definition free_rslot :: "'w k_ops \<Rightarrow> int \<Rightarrow> 'w kst \<Rightarrow> 'w kst option" where
  "free_rslot ops slot s =
     (if slot < 0 \<or> slot \<ge> int P_WSLOTS then epkt ops (lit ''EKSW free_rslot confused'') s
      else do {
        p \<leftarrow> ipkt s slot;
        s \<leftarrow> (if p_seq p \<ge> 0 \<and> p_seq p < 64 then r_pw_set (p_seq p) (-1) s else Some s);
        upd_ipkt slot (\<lambda>p. p\<lparr>p_len := 0, p_seq := -1, p_typ := 0, p_rtr := 0, p_flg := 0, p_crc := 0xFFFF\<rparr>) s
      })"

definition in_seq_range :: "int \<Rightarrow> bool" where
  "in_seq_range sq \<longleftrightarrow> 0 \<le> sq \<and> sq < 64"

text \<open>The last slot with a sequence number gives the reference number.\<close>

fun rseq_ref :: "'w kst \<Rightarrow> int list \<Rightarrow> int \<Rightarrow> int option" where
  "rseq_ref s [] ref = Some ref"
| "rseq_ref s (i # is) ref = do {
     p \<leftarrow> ipkt s i;
     rseq_ref s is (if in_seq_range (p_seq p) then p_seq p else ref)
   }"

definition seq_rot :: "int \<Rightarrow> int \<Rightarrow> int" where
  "seq_rot sq ref =
     (let d = sq - ref; d = (if d < -31 then d + 64 else d)
      in if d > 31 then d - 64 else d)"

text \<open>The number that comes first under \<^term>\<open>better\<close> among the rotated numbers of the slots.\<close>

fun rseq_best :: "(int \<Rightarrow> int \<Rightarrow> bool) \<Rightarrow> 'w kst \<Rightarrow> int \<Rightarrow> int list \<Rightarrow> int \<Rightarrow> int \<Rightarrow> int option" where
  "rseq_best better s ref [] rot best = Some best"
| "rseq_best better s ref (i # is) rot best = do {
     p \<leftarrow> ipkt s i;
     let rot' = seq_rot (p_seq p) ref in
     if in_seq_range (p_seq p) \<and> better rot' rot
     then rseq_best better s ref is rot' (p_seq p)
     else rseq_best better s ref is rot best
   }"

definition earliest_rseq :: "'w kst \<Rightarrow> int option" where
  "earliest_rseq s = do {
     ref \<leftarrow> rseq_ref s (slots s) (-1);
     if ref = -1 then Some (-1) else rseq_best (<) s ref (slots s) 0 ref
   }"

definition latest_rseq :: "'w kst \<Rightarrow> int option" where
  "latest_rseq s = do {
     ref \<leftarrow> rseq_ref s (slots s) (-1);
     if ref = -1 then Some (-1) else rseq_best (>) s ref (slots s) 0 ref
   }"

text \<open>\<^verbatim>\<open>test_rslots\<close> counts the slots whose stored packet no longer has its checksum.\<close>

fun count_bad :: "'w kst \<Rightarrow> int list \<Rightarrow> int option" where
  "count_bad s [] = Some 0"
| "count_bad s (i # is) = do {
     p \<leftarrow> ipkt s i;
     bad \<leftarrow> (if p_seq p \<ge> 0 then do { bs \<leftarrow> read_str s (p_buf p); Some (chk3 s bs \<noteq> p_crc p) } else Some False);
     n \<leftarrow> count_bad s is;
     Some (if bad then n + 1 else n)
   }"

definition test_rslots :: "'w k_ops \<Rightarrow> 'w kst \<Rightarrow> (int \<times> 'w kst) option" where
  "test_rslots ops s = do {
     nbad \<leftarrow> count_bad s (slots s);
     if nbad > 0 then do {
       s \<leftarrow> epkt ops (lit ''EKSW test rslots failed'') s;
       Some (X_ERROR, s)
     }
     else Some (X_OK, s)
   }"

subsection \<open>A good packet\<close>

text \<open>The loop that looks for \<^term>\<open>rseq\<close> from \<^verbatim>\<open>low\<close> up to \<^verbatim>\<open>hp\<close>; \<^term>\<open>i\<close> itself is not wrapped.\<close>

partial_function (option) is_old_loop :: "int \<Rightarrow> int \<Rightarrow> int \<Rightarrow> bool option" where
  "is_old_loop rseq hp i =
     (if i = hp then Some False
      else if rseq = i mod 64 then Some True
      else is_old_loop rseq hp (i + 1))"

text \<open>Whether the packet is the next one, behind a gap, or an old one, and the latest number \<^verbatim>\<open>high\<close>.\<close>

datatype rclass = Is_next | Is_gap int | Is_old | Unexpected

definition classify_rpkt :: "int \<Rightarrow> 'w kst \<Rightarrow> rclass option" where
  "classify_rpkt rseq s = do {
     nused \<leftarrow> nused_rslots s;
     if nused = 0 then Some Is_next
     else do {
       high \<leftarrow> latest_rseq s;
       let low = high - k_wslots s + 1;
       let low = (if low < 0 then low + 64 else low);
       if rseq = (high + 1) mod 64 then Some Is_next
       else if \<exists>i \<in> {2..k_wslots s}. rseq = (high + i) mod 64 then Some (Is_gap high)
       else do {
         old \<leftarrow> is_old_loop rseq ((high + 1) mod 64) low;
         Some (if old then Is_old else Unexpected)
       }
     }
   }"

text \<open>
  Writing packets that have left the window; \<^verbatim>\<open>Some rc\<close> is an early return. \<^term>\<open>n\<close> counts the
  remaining turns of the loop.
\<close>

fun align_window :: "'w k_ops \<Rightarrow> nat \<Rightarrow> int \<Rightarrow> 'w kst \<Rightarrow> (int option \<times> 'w kst) option" where
  "align_window ops 0 rseq s = Some (None, s)"
| "align_window ops (Suc n) rseq s = do {
     iseq \<leftarrow> earliest_rseq s;
     if \<not> in_seq_range iseq then Some (None, s)
     else if (if rseq - iseq < 0 then rseq - iseq + 64 else rseq - iseq) < k_wslots s
     then align_window ops n rseq s
     else do {
       rslot \<leftarrow> r_pw_get s iseq;
       if rslot < 0 \<or> rslot \<ge> k_wslots s then Some (Some X_ERROR, s)
       else do {
         p \<leftarrow> ipkt s rslot;
         if p_flg p = 0 then Some (Some X_ERROR, s)
         else do {
           (rc, s) \<leftarrow> (if k_recvdir s \<noteq> 1 then decode ops 1 (p_buf p) rslot s else Some (X_OK, s));
           if rc \<noteq> X_OK then do {
             s \<leftarrow> epkt ops (lit ''EKSW decode failed'') s;
             Some (Some rc, s)
           }
           else do {
             s \<leftarrow> free_rslot ops rslot s;
             align_window ops n rseq s
           }
         }
       }
     }
   }"

fun send_naks :: "'w k_ops \<Rightarrow> int list \<Rightarrow> 'w kst \<Rightarrow> 'w kst option" where
  "send_naks ops [] s = Some s"
| "send_naks ops (iseq # is) s = do {
     rslot \<leftarrow> r_pw_get s iseq;
     (rc, s) \<leftarrow> nak ops iseq rslot s;
     send_naks ops is s
   }"

definition gap_seqs :: "int \<Rightarrow> int \<Rightarrow> int list" where
  "gap_seqs high rseq =
     (let nnak = rseq - high - 1; nnak = (if nnak < 0 then nnak + 64 else nnak)
      in map (\<lambda>i. (high + 1 + int i) mod 64) [0..<nat nnak])"

definition store_rpkt :: "'w k_ops \<Rightarrow> int \<Rightarrow> kptr \<Rightarrow> 'w kst \<Rightarrow> (int \<times> 'w kst) option" where
  "store_rpkt ops rseq pbuf s = do {
     (_, s) \<leftarrow> test_rslots ops s;
     (_, rslot, s) \<leftarrow> get_rslot s;
     if rslot < 0 \<or> rslot \<ge> k_wslots s then Some (X_ERROR, s)
     else do {
       (_, s) \<leftarrow> test_rslots ops s;
       bs \<leftarrow> read_str s pbuf;
       p \<leftarrow> ipkt s rslot;
       s \<leftarrow> write_bytes (p_buf p) (bs @ [0]) s;
       s \<leftarrow> upd_ipkt rslot (\<lambda>p. p\<lparr>p_len := int (length bs), p_flg := 1, p_seq := rseq, p_crc := chk3 s bs\<rparr>) s;
       s \<leftarrow> r_pw_set rseq rslot s;
       (_, s) \<leftarrow> test_rslots ops s;
       Some (X_OK, s)
     }
   }"

definition handle_good_rpkt :: "'w k_ops \<Rightarrow> int \<Rightarrow> kptr \<Rightarrow> 'w kst \<Rightarrow> (int \<times> 'w kst) option" where
  "handle_good_rpkt ops rseq pbuf s = do {
     cls \<leftarrow> classify_rpkt rseq s;
     let wsize = k_wslots s;
     (ret, s) \<leftarrow> (if cls = Is_next \<or> (\<exists>h. cls = Is_gap h) then align_window ops (nat wsize) rseq s
                 else Some (None, s));
     case ret of
       Some rc \<Rightarrow> Some (rc, s)
     | None \<Rightarrow>
         (case cls of
            Is_next \<Rightarrow> do {
              (_, s) \<leftarrow> ack ops rseq Null s;
              store_rpkt ops rseq pbuf s
            }
          | Is_gap high \<Rightarrow> do {
              (_, s) \<leftarrow> ack ops rseq Null s;
              s \<leftarrow> send_naks ops (gap_seqs high rseq) s;
              store_rpkt ops rseq pbuf s
            }
          | Is_old \<Rightarrow> do {
              (_, s) \<leftarrow> ack ops rseq Null s;
              rslot \<leftarrow> r_pw_get s rseq;
              if rslot < 0 \<or> rslot \<ge> wsize then store_rpkt ops rseq pbuf s else Some (X_OK, s)
            }
          | Unexpected \<Rightarrow> Some (X_OK, s))
   }"

subsection \<open>End of file\<close>

partial_function (option) flush_window :: "'w k_ops \<Rightarrow> int \<Rightarrow> int \<Rightarrow> 'w kst \<Rightarrow> (int option \<times> int \<times> 'w kst) option" where
  "flush_window ops wsize rc s = do {
     iseq \<leftarrow> earliest_rseq s;
     if iseq < 0 then Some (None, rc, s)
     else do {
       rslot \<leftarrow> r_pw_get s iseq;
       if rslot < 0 \<or> rslot \<ge> wsize then Some (Some X_ERROR, rc, s)
       else do {
         p \<leftarrow> ipkt s rslot;
         if p_flg p = 0 then Some (Some X_ERROR, rc, s)
         else do {
           (rc, s) \<leftarrow> decode ops 1 (p_buf p) rslot s;
           if rc \<noteq> X_OK then do {
             s \<leftarrow> epkt ops (lit ''EKSW flush to file failed'') s;
             Some (Some rc, rc, s)
           }
           else do {
             s \<leftarrow> free_rslot ops rslot s;
             flush_window ops wsize rc s
           }
         }
       }
     }
   }"

definition flush_to_file :: "'w k_ops \<Rightarrow> 'w kst \<Rightarrow> (int \<times> 'w kst) option" where
  "flush_to_file ops s = do {
     (ret, rc, s) \<leftarrow> flush_window ops (k_wslots s) 0 s;
     case ret of
       Some rc \<Rightarrow> Some (rc, s)
     | None \<Rightarrow>
         if k_obufpos s > 0 then do {
           bs \<leftarrow> read_bytes s (Ptr OBUF 0) (nat (k_obufpos s));
           (rc, s) \<leftarrow> op_writef ops bs s;
           Some (rc, s\<lparr>r_sofar := r_sofar s + k_obufpos s, r_sofar_rumor := r_sofar_rumor s + k_obufpos s,
                       k_obufpos := 0\<rparr>)
         }
         else Some (rc, s)
   }"

end
