(* ===== verification/Kermit_Machine.thy ===== *)
theory Kermit_Machine
  imports Kermit_Recv
begin

text \<open>
  The entry point \<^verbatim>\<open>kermit()\<close> of \<^verbatim>\<open>kermit.c\<close>. The function codes are separate definitions; the
  rest follows the source: what to do without a packet, parsing and checking a packet, the
  replies that depend only on the packet type, the acknowledgements of a sender, and the
  protocol state switch. An early return carries its return code, otherwise the parsed packet goes
  on to the next part.
\<close>

subsection \<open>Function codes\<close>

datatype fcode = K_INIT | K_RUN | K_STATUS | K_QUIT | K_ERROR | K_SEND | K_GET | K_SYNC | K_DIR | K_REINIT | K_OTHER

definition k_init :: "'w kst \<Rightarrow> (int \<times> 'w kst) option" where
  "k_init s =
     (let s = s\<lparr>k_retry := P_RETRY, k_s_ctlq := PREFIX_CTRL, k_r_ctlq := PREFIX_CTRL, k_ebq := T_Y, k_ebqflg := 0,
                k_rptq := PREFIX_REPEAT, k_capas := CAP_LP OR CAP_AT\<rparr>;
          s = (if k_wslots s > 1 then s\<lparr>k_capas := k_capas s OR CAP_SW\<rparr> else s)
      in Some (X_OK, s\<lparr>k_crcta := (\<lambda>i. if i < 16 then crcta_init ! i else k_crcta s i),
                        k_crctb := (\<lambda>i. if i < 16 then crctb_init ! i else k_crctb s i)\<rparr>))"

text \<open>\<^verbatim>\<open>K_REINIT\<close>: slots and tables, then the transfer parameters, then the slots' buffers.\<close>

fun free_slots :: "'w k_ops \<Rightarrow> int list \<Rightarrow> 'w kst \<Rightarrow> 'w kst option" where
  "free_slots ops [] s = Some s"
| "free_slots ops (i # is) s = do {
     s \<leftarrow> free_rslot ops i s;
     s \<leftarrow> free_sslot i s;
     free_slots ops is s
   }"

fun init_slots :: "int list \<Rightarrow> 'w kst \<Rightarrow> 'w kst option" where
  "init_slots [] s = Some s"
| "init_slots (i # is) s = do {
     let ib = Ptr IPKTBUFS (i * int P_BUFLEN);
     let ob = Ptr OPKTBUF (i * int P_BUFLEN);
     s \<leftarrow> poke ib 0 0 s;
     s \<leftarrow> upd_ipkt i (\<lambda>p. p\<lparr>p_buf := ib, p_len := 0, p_seq := -1, p_typ := SP, p_dat := Null, p_crc := 0xFFFF\<rparr>) s;
     s \<leftarrow> poke ob 0 0 s;
     s \<leftarrow> upd_opkt i (\<lambda>p. p\<lparr>p_buf := ob, p_len := 0, p_seq := -1, p_typ := SP, p_dat := Null\<rparr>) s;
     init_slots is s
   }"

definition reinit_params :: "'w kst \<Rightarrow> 'w kst" where
  "reinit_params s = s\<lparr>k_sw_full := 0, k_do_rxd := 1, k_state := R_WAIT, r_rstatus := R_WAIT, k_what := W_RECV,
     k_s_first := 1, k_r_soh := b2i PACKET_START, k_s_soh := b2i PACKET_START, k_r_eom := b2i PACKET_END,
     k_s_eom := b2i PACKET_END, k_s_seq := 0, k_r_seq := 0, k_s_cnt := 0, k_s_type := 0, k_r_type := 0,
     k_r_timo := P_R_TIMO, k_s_timo := P_S_TIMO, k_r_maxlen := k_p_maxlen s, k_s_maxlen := k_p_maxlen s,
     k_wslots := k_wslots_max s, k_zincnt := 0, k_filename := Null, k_cgetpkt := 0, k_size := 0, k_osize := 0,
     k_rptflg := 0, k_s_rpt := 0\<rparr>"

definition k_reinit :: "'w k_ops \<Rightarrow> 'w kst \<Rightarrow> (int \<times> 'w kst) option" where
  "k_reinit ops s = do {
     s \<leftarrow> poke (Ptr R_FILENAME 0) 0 0 s;
     s \<leftarrow> poke (Ptr R_FILEDATE 0) 0 0 s;
     s \<leftarrow> free_slots ops (map int [0..<P_WSLOTS]) (s\<lparr>r_filesize := 0, r_sofar := 0, r_sofar_rumor := 0\<rparr>);
     s \<leftarrow> write_bytes (Ptr S_REMAIN 0) (replicate 6 0)
           (s\<lparr>k_r_pw := (\<lambda>i. if i < 64 then -1 else k_r_pw s i), k_s_pw := (\<lambda>i. if i < 64 then -1 else k_s_pw s i)\<rparr>);
     s \<leftarrow> init_slots (map int [0..<P_WSLOTS]) (reinit_params s);
     s \<leftarrow> poke (Ptr R_DIR 0) 0 0 (s\<lparr>k_opktlen := 0, k_nsnak := 0, k_nresend := 0\<rparr>);
     Some (X_OK, s\<lparr>k_recvdir := 0, k_recvget := 0\<rparr>)
   }"

text \<open>The names of the file list joined by blanks, as \<^verbatim>\<open>K_DIR\<close> and \<^verbatim>\<open>K_GET\<close> build them in \<^verbatim>\<open>k->obuf\<close>.\<close>

fun join_names :: "'w kst \<Rightarrow> kptr list \<Rightarrow> byte list option" where
  "join_names s [] = Some []"
| "join_names s [p] = read_str s p"
| "join_names s (p # ps) = do { a \<leftarrow> read_str s p; b \<leftarrow> join_names s ps; Some (a @ [SP] @ b) }"

definition k_dir :: "'w k_ops \<Rightarrow> 'w kst \<Rightarrow> (int \<times> 'w kst) option" where
  "k_dir ops s = do {
     fl \<leftarrow> k_filelist s;
     names \<leftarrow> join_names s fl;
     s \<leftarrow> write_bytes (Ptr OBUF 0) (T_D # names @ [0]) s;
     (_, s) \<leftarrow> encstr ops (Ptr OBUF 0) (s\<lparr>k_xdata := Ptr XDATABUF 0\<rparr>);
     (buf, s_slot, s) \<leftarrow> get_sslot s;
     s \<leftarrow> s_pw_set (k_s_seq s) s_slot s;
     let s = s\<lparr>k_bct := (if k_bcta3 s \<noteq> 0 then 3 else 1)\<rparr>;
     (rc, s) \<leftarrow> spkt ops T_G (k_s_seq s) (-1) (k_xdata s) s;
     if rc \<noteq> X_OK then Some (X_ERROR, s)
     else Some (X_OK, s\<lparr>k_state := R_WAIT, r_rstatus := R_WAIT, k_what := W_DIR, k_recvdir := 1\<rparr>)
   }"

definition k_get :: "'w k_ops \<Rightarrow> 'w kst \<Rightarrow> (int \<times> 'w kst) option" where
  "k_get ops s = do {
     fl \<leftarrow> k_filelist s;
     names \<leftarrow> join_names s fl;
     s \<leftarrow> write_bytes (Ptr OBUF 0) (names @ [0]) s;
     (_, s) \<leftarrow> encstr ops (Ptr OBUF 0) (s\<lparr>k_xdata := Ptr XDATABUF 0\<rparr>);
     (buf, s_slot, s) \<leftarrow> get_sslot s;
     if buf \<noteq> Null then do {
       s \<leftarrow> s_pw_set (k_s_seq s) s_slot s;
       let s = s\<lparr>k_bct := (if k_bcta3 s \<noteq> 0 then 3 else 1)\<rparr>;
       (rc, s) \<leftarrow> spkt ops T_R (k_s_seq s) (-1) (k_xdata s) s;
       if rc \<noteq> X_OK then Some (X_ERROR, s)
       else Some (X_OK, s\<lparr>k_state := R_WAIT, r_rstatus := R_WAIT, k_what := W_GET\<rparr>)
     }
     else Some (X_ERROR, s)
   }"

definition k_send :: "'w k_ops \<Rightarrow> 'w kst \<Rightarrow> (int \<times> 'w kst) option" where
  "k_send ops s = do {
     (rc, s) \<leftarrow> rpar ops T_S s;
     if rc \<noteq> X_OK then Some (X_ERROR, s)
     else Some (X_OK, s\<lparr>k_state := S_INIT, r_rstatus := S_INIT, k_what := W_SEND\<rparr>)
   }"

definition k_error :: "'w k_ops \<Rightarrow> kptr \<Rightarrow> 'w kst \<Rightarrow> (int \<times> 'w kst) option" where
  "k_error ops msg s = do {
     s \<leftarrow> epkt ops msg s;
     (_, s) \<leftarrow> op_closef ops 0 (if k_state s = S_DATA then 1 else 2) s;
     Some (X_DONE, s)
   }"

subsection \<open>Receiving a packet\<close>

text \<open>
  The local variables of \<^verbatim>\<open>kermit()\<close> that describe the packet: the pointer to the data field, its
  length, the type, the sequence number, and the cancellation text for the acknowledgement.
\<close>

record rpacket =
  v_pdf :: kptr
  v_datalen :: int
  v_rtyp :: byte
  v_rseq :: int
  v_s :: kptr

datatype 'a step = Return int | Go 'a

definition bind_step :: "('a step \<times> 's) option \<Rightarrow> ('a \<Rightarrow> 's \<Rightarrow> ('b step \<times> 's) option) \<Rightarrow> ('b step \<times> 's) option" where
  "bind_step m f = do {
     (r, s) \<leftarrow> m;
     case r of Return rc \<Rightarrow> Some (Return rc, s) | Go x \<Rightarrow> f x s
   }"

definition ret :: "(int \<times> 's) option \<Rightarrow> ('a step \<times> 's) option" where
  "ret m = map_option (\<lambda>(rc, s). (Return rc, s)) m"

text \<open>A packet shorter than four bytes.\<close>

definition rx_short :: "'w k_ops \<Rightarrow> 'w kst \<Rightarrow> (int \<times> 'w kst) option" where
  "rx_short ops s =
     (if k_what s = W_RECV then
        if k_state s = R_FILE then do { (_, s) \<leftarrow> rpar ops T_Y s; Some (X_OK, s) }
        else Some (X_OK, s)
      else resend ops (-1) s)"

definition cancel_text :: "'w kst \<Rightarrow> kptr" where
  "cancel_text s =
     (if k_what s = W_RECV \<and> k_cancel s = 1 then lit ''X''
      else if k_what s = W_RECV \<and> k_cancel s = 2 then lit ''Z'' else Null)"

text \<open>After a bad check a sender resends its earliest packet; both sides stay in the protocol.\<close>

definition rx_bad :: "'w k_ops \<Rightarrow> 'w kst \<Rightarrow> (int \<times> 'w kst) option" where
  "rx_bad ops s =
     (if k_what s = W_RECV then Some (X_OK, s)
      else do { (_, s) \<leftarrow> resend ops (-1) s; Some (X_OK, s) })"

text \<open>The header of a long packet: its checksum, and the length of the data field.\<close>

definition rx_long_header :: "'w k_ops \<Rightarrow> 'w kst \<Rightarrow> ((kptr \<times> int) step \<times> 'w kst) option" where
  "rx_long_header ops s = do {
     c \<leftarrow> peek s (Ptr IPKTBUF 0) 5;
     s \<leftarrow> poke (Ptr IPKTBUF 0) 5 0 s;
     hdr \<leftarrow> read_str s (Ptr IPKTBUF 0);
     if xunchar c \<noteq> chk1 hdr then
       if k_what s = W_RECV then Some (Return X_OK, s) else ret (resend ops (-1) s)
     else do {
       s \<leftarrow> poke (Ptr IPKTBUF 0) 5 c s;
       let s = (if k_bcta3 s \<noteq> 0 then s\<lparr>k_bct := 3\<rparr> else s);
       hi \<leftarrow> peek s (Ptr IPKTBUF 0) 3;
       lo \<leftarrow> peek s (Ptr IPKTBUF 0) 4;
       Some (Go (Ptr IPKTBUF 6, xunchar hi * 95 + xunchar lo - k_bct s), s)
     }
   }"

definition rx_header :: "'w k_ops \<Rightarrow> int \<Rightarrow> 'w kst \<Rightarrow> (rpacket step \<times> 'w kst) option" where
  "rx_header ops len s = do {
     l \<leftarrow> peek s (Ptr IPKTBUF 0) 0;
     sq \<leftarrow> peek s (Ptr IPKTBUF 0) 1;
     rtyp \<leftarrow> peek s (Ptr IPKTBUF 0) 2;
     d0 \<leftarrow> peek s (Ptr IPKTBUF 0) 3;
     let rlen = xunchar l;
     let rseq = xunchar sq;
     if k_state s = S_EOT \<and> len = 4 \<and> rseq = 0 \<and> rtyp = T_N \<and> d0 = 0x33 then Some (Return X_DONE, s)
     else if rseq > 63 then Some (Return X_OK, s)
     else if k_what s = W_RECV \<and> (rtyp = T_N \<or> rtyp = T_Y) then Some (Return X_OK, s)
     else
       bind_step
         (if rlen = 0 then rx_long_header ops s
          else
            let s = (if k_bcta3 s \<noteq> 0 then s\<lparr>k_bct := 3\<rparr> else s)
            in Some (Go (Ptr IPKTBUF 3, rlen - k_bct s - 2), s))
         (\<lambda>(pdf, datalen) s.
            let datalen = (if rtyp = T_S \<or> k_state s = S_INIT
                           then if k_bcta3 s \<noteq> 0 then rlen - 5 else rlen - 3 else datalen)
            in Some (Go \<lparr>v_pdf = pdf, v_datalen = datalen, v_rtyp = rtyp, v_rseq = rseq, v_s = cancel_text s\<rparr>, s))
   }"

definition rx_chklen :: "rpacket \<Rightarrow> 'w kst \<Rightarrow> int \<times> 'w kst" where
  "rx_chklen v s =
     (if v_rtyp v = T_S \<or> k_state s = S_INIT then (if k_bcta3 s \<noteq> 0 then 3 else 1, s)
      else let s = (if k_bcta3 s \<noteq> 0 then s\<lparr>k_bct := 3\<rparr> else s) in (k_bct s, s))"

text \<open>
  The block check: the three kinds, and the exception that lets an error packet have type 1 when a
  longer one was negotiated. The result tells whether the check is good.
\<close>

definition check_bytes :: "'w kst \<Rightarrow> int \<Rightarrow> byte list \<Rightarrow> byte list \<Rightarrow> bool" where
  "check_bytes s chklen pbc body =
     (if chklen = 1 then xunchar (pbc ! 0) = chk1 body
      else if chklen = 2 then
        (push_bit 6 (word_of_int (xunchar (pbc ! 0))) OR word_of_int (xunchar (pbc ! 1)) :: u32) = ucast (chk2 body)
      else if chklen = 3 then
        (push_bit 12 (word_of_int (xunchar (pbc ! 0))) OR push_bit 6 (word_of_int (xunchar (pbc ! 1)))
          OR word_of_int (xunchar (pbc ! 2)) :: u32) = ucast (chk3 s body)
      else True)"

definition check_error_packet :: "rpacket \<Rightarrow> byte list \<Rightarrow> 'w kst \<Rightarrow> (bool \<times> 'w kst) option" where
  "check_error_packet v pbc s =
     (if v_rtyp v = T_E \<and> length pbc \<ge> 2 then do {
        s \<leftarrow> write_bytes (padd (v_pdf v) (v_datalen v)) (butlast pbc @ [0]) s;
        body \<leftarrow> read_str s (Ptr IPKTBUF 0);
        if xunchar (last pbc) = chk1 body then Some (True, s)
        else do { s \<leftarrow> poke (v_pdf v) (v_datalen v) 0 s; Some (False, s) }
      }
      else Some (False, s))"

definition rx_check :: "'w k_ops \<Rightarrow> rpacket \<Rightarrow> 'w kst \<Rightarrow> (rpacket step \<times> 'w kst) option" where
  "rx_check ops v s =
     (let (chklen, s) = rx_chklen v s
      in if v_datalen v < 0 \<or> v_datalen v + chklen + 1 \<ge> int P_BUFLEN then ret (rx_bad ops s)
         else do {
           pbc \<leftarrow> read_bytes s (padd (v_pdf v) (v_datalen v)) (nat chklen);
           s \<leftarrow> poke (v_pdf v) (v_datalen v) 0 s;
           body \<leftarrow> read_str s (Ptr IPKTBUF 0);
           if check_bytes s chklen pbc body then Some (Go v, s)
           else do {
             (ok, s) \<leftarrow> check_error_packet v pbc s;
             if ok then Some (Go v, s) else ret (rx_bad ops s)
           }
         })"

subsection \<open>Replies that depend on the packet type\<close>

text \<open>A new send slot recorded for the current sequence number.\<close>

definition new_sslot :: "'w kst \<Rightarrow> (int \<times> 'w kst) option" where
  "new_sslot s = do {
     (buf, s_slot, s) \<leftarrow> get_sslot s;
     s \<leftarrow> s_pw_set (k_s_seq s) s_slot s;
     Some (s_slot, s)
   }"

definition set_state :: "int \<Rightarrow> 'w kst \<Rightarrow> 'w kst" where
  "set_state st s = s\<lparr>k_state := st, r_rstatus := st\<rparr>"

text \<open>An acknowledgement marks its slot and frees the acknowledged slots at the front of the window.\<close>

definition acked :: "int \<Rightarrow> 'w kst \<Rightarrow> (bool \<times> 'w kst) option" where
  "acked rseq s = do {
     s_slot \<leftarrow> s_pw_get s rseq;
     if s_slot < 0 \<or> s_slot \<ge> k_wslots s then Some (False, s)
     else do {
       s \<leftarrow> upd_opkt s_slot (\<lambda>p. p\<lparr>p_flg := 1\<rparr>) s;
       s \<leftarrow> free_sslot_easca s;
       Some (True, s)
     }
   }"

text \<open>Sending the directory header, the listing, and the packets that end a directory transfer.\<close>

definition dir_send_b :: "'w k_ops \<Rightarrow> 'w kst \<Rightarrow> (int \<times> 'w kst) option" where
  "dir_send_b ops s = do {
     (_, s) \<leftarrow> new_sslot (nxtpkt s);
     (rc, s) \<leftarrow> spkt ops T_B (k_s_seq s) 0 Null s;
     if rc \<noteq> X_OK then do { s \<leftarrow> epkt ops (lit ''Send packet 'B' failed.'') s; Some (X_ERROR, s) }
     else Some (X_OK, set_state S_EOT s)
   }"

definition dir_send_x :: "'w k_ops \<Rightarrow> 'w kst \<Rightarrow> (int \<times> 'w kst) option" where
  "dir_send_x ops s = do {
     xd \<leftarrow> read_str s (Ptr XDATABUF 0);
     s \<leftarrow> write_bytes (Ptr IPKTBUF 0) (bytes_of_string ''DIRECTORY '' @ xd @ [0]) s;
     (_, s) \<leftarrow> encstr ops (Ptr OBUF 0) (s\<lparr>k_xdata := Ptr IPKTBUF 0\<rparr>);
     (_, s) \<leftarrow> new_sslot s;
     let s = s\<lparr>k_bct := (if k_bcta3 s \<noteq> 0 then 3 else 1)\<rparr>;
     bs \<leftarrow> read_str s (k_xdata s);
     (rc, s) \<leftarrow> spkt ops T_X (k_s_seq s) (int (length bs)) (k_xdata s) s;
     if rc \<noteq> X_OK then do { s \<leftarrow> epkt ops (lit ''Send 'X' packet : failed'') s; Some (X_ERROR, s) }
     else Some (X_OK, set_state S_TEXT s)
   }"

definition dir_send_z :: "'w k_ops \<Rightarrow> 'w kst \<Rightarrow> (int \<times> 'w kst) option" where
  "dir_send_z ops s = do {
     (_, s) \<leftarrow> new_sslot (nxtpkt s);
     (rc, s) \<leftarrow> spkt ops T_Z (k_s_seq s) 0 Null s;
     if rc = X_OK then Some (rc, set_state S_EOF s)
     else do { s \<leftarrow> epkt ops (lit ''Cannot send Z packet for end of data'') s; Some (X_OK, s) }
   }"

text \<open>The directory name is the first \<^verbatim>\<open>DN_MAX - 1\<close> bytes of the argument.\<close>

definition set_dirname :: "'w kst \<Rightarrow> 'w kst option" where
  "set_dirname s = do {
     c \<leftarrow> peek s (Ptr XDATABUF 0) 0;
     s \<leftarrow> poke (Ptr DIRNAME 0) 0 c s;
     poke (Ptr DIRNAME 0) (int DN_MAX - 1) 0 s
   }"

definition dir_send_d :: "'w k_ops \<Rightarrow> kptr \<Rightarrow> 'w kst \<Rightarrow> (int \<times> 'w kst) option" where
  "dir_send_d ops pdf s = do {
     (_, s) \<leftarrow> new_sslot s;
     s \<leftarrow> (if k_state s = S_TEXT then set_dirname s else Some s);
     s \<leftarrow> poke pdf 0 0 s;
     (e, s) \<leftarrow> op_getdirdata ops pdf s;
     if e \<noteq> 0 then do { s \<leftarrow> epkt ops (lit ''Cannot list directory.'') s; Some (X_ERROR, s) }
     else do {
       s \<leftarrow> strncpy (Ptr R_DIR 0) pdf (K_DIR_LEN - 1) s;
       s \<leftarrow> poke (Ptr R_DIR 0) (int K_DIR_LEN - 1) 0 s;
       bs \<leftarrow> read_str s pdf;
       (rc, s) \<leftarrow> spkt ops T_D (k_s_seq s) (int (length bs)) pdf (s\<lparr>k_xdata := pdf\<rparr>);
       if rc = X_OK then Some (rc, (set_state S_DATA s)\<lparr>r_arg := Ptr DIRNAME 0\<rparr>)
       else do { s \<leftarrow> epkt ops (lit ''Cannot send D packet'') s; Some (X_OK, s) }
     }
   }"

definition rx_dir_ack :: "'w k_ops \<Rightarrow> rpacket \<Rightarrow> 'w kst \<Rightarrow> (int \<times> 'w kst) option" where
  "rx_dir_ack ops v s = do {
     (known, s) \<leftarrow> acked (v_rseq v) s;
     if \<not> known then Some (X_OK, s)
     else if k_state s = S_EOT then Some (X_DONE, set_state R_WAIT s)
     else if k_state s = S_EOF then dir_send_b ops s
     else if k_state s = S_INIT then dir_send_x ops s
     else if k_state s = S_DATA then dir_send_z ops s
     else if k_state s = S_TEXT then dir_send_d ops (v_pdf v) s
     else Some (0, s)
   }"

text \<open>
  A generic command. Only \<^verbatim>\<open>D\<close> (directory) is known; its argument up to the first blank becomes
  the file list. When decoding fails the packet falls through to the next test.
\<close>

definition cut_at_blank :: "byte list \<Rightarrow> byte list" where
  "cut_at_blank bs = (if SP \<in> set bs then takeWhile (\<lambda>c. c \<noteq> SP) bs @ 0 # tl (dropWhile (\<lambda>c. c \<noteq> SP) bs) else bs)"

definition start_sending :: "'w k_ops \<Rightarrow> int \<Rightarrow> 'w kst \<Rightarrow> (int \<times> 'w kst) option" where
  "start_sending ops what s = do {
     (rc, s) \<leftarrow> rpar ops T_S (s\<lparr>k_filelist := Some [Ptr XDATABUF 0]\<rparr>);
     if rc \<noteq> X_OK then do { s \<leftarrow> epkt ops (lit ''Send S packet Failed'') s; Some (X_ERROR, s) }
     else Some (X_OK, (set_state S_INIT s)\<lparr>k_what := what\<rparr>)
   }"

definition rx_generic :: "'w k_ops \<Rightarrow> rpacket \<Rightarrow> 'w kst \<Rightarrow> (rpacket step \<times> 'w kst) option" where
  "rx_generic ops v s = do {
     (rc, s) \<leftarrow> decode ops 0 (v_pdf v) (-1) s;
     if rc \<noteq> X_OK then Some (Go v, s)
     else do {
       c \<leftarrow> peek s (v_pdf v) 0;
       if c \<noteq> T_D then do {
         s \<leftarrow> epkt ops (lit ''Unknown generic command'') s;
         Some (Return X_ERROR, s)
       }
       else do {
         bs \<leftarrow> read_str s (padd (v_pdf v) 1);
         s \<leftarrow> write_bytes (Ptr XDATABUF 0) (cut_at_blank bs @ [0]) s;
         ret (start_sending ops W_DIR (s\<lparr>r_type := A_DIR\<rparr>))
       }
     }
   }"

definition rx_request :: "'w k_ops \<Rightarrow> rpacket \<Rightarrow> 'w kst \<Rightarrow> (int \<times> 'w kst) option" where
  "rx_request ops v s = do {
     (rc, s) \<leftarrow> decode ops 0 (v_pdf v) (-1) s;
     if rc \<noteq> X_OK then nak ops 0 (-1) s
     else do {
       s \<leftarrow> strcpy (Ptr XDATABUF 0) (v_pdf v) s;
       (rc, s) \<leftarrow> op_accessf ops (Ptr XDATABUF 0) (s\<lparr>r_type := A_GET\<rparr>);
       if rc \<noteq> X_OK then do {
         s \<leftarrow> epkt ops (lit ''The file specified in GET parameters is not accessible'') s;
         Some (X_ERROR, s\<lparr>r_arg := Ptr XDATABUF 0\<rparr>)
       }
       else do {
         (rc, s) \<leftarrow> start_sending ops W_SEND s;
         Some (rc, if rc = X_OK then s\<lparr>k_recvget := 1\<rparr> else s)
       }
     }
   }"

definition rx_typed :: "'w k_ops \<Rightarrow> rpacket \<Rightarrow> 'w kst \<Rightarrow> (rpacket step \<times> 'w kst) option" where
  "rx_typed ops v s =
     (if v_rtyp v = T_Y \<and> k_what s = W_DIR then ret (rx_dir_ack ops v s)
      else if v_rtyp v = T_G \<and> k_state s \<noteq> R_WAIT then Some (Return X_OK, s)
      else if v_rtyp v = T_G then rx_generic ops v s
      else if v_rtyp v = T_R then ret (rx_request ops v s)
      else if v_rtyp v = T_E then Some (Return X_ERROR, s)
      else Some (Go v, s))"

subsection \<open>A sender's acknowledgements\<close>

text \<open>A packet that is not an acknowledgement, usually a NAK.\<close>

definition rx_send_nak :: "'w k_ops \<Rightarrow> rpacket \<Rightarrow> 'w kst \<Rightarrow> (int \<times> 'w kst) option" where
  "rx_send_nak ops v s = do {
     n \<leftarrow> nused_sslots s;
     if n = 0 then do {
       let s = nxtpkt s;
       if k_s_seq s \<noteq> v_rseq v then do {
         s \<leftarrow> epkt ops (lit ''EKSW W_SEND confused'') s;
         Some (X_ERROR, s)
       }
       else do {
         (s_slot, s) \<leftarrow> new_sslot s;
         (rc, s) \<leftarrow> sdata ops s;
         if rc = X_ERROR then Some (rc, s)
         else do {
           s \<leftarrow> (if rc = 0 then do {
                  (_, s) \<leftarrow> op_closef ops 0 1 s;
                  let s = set_state S_EOF s;
                  free_sslot s_slot (s\<lparr>k_s_seq := (if k_s_seq s - 1 < 0 then k_s_seq s + 63 else k_s_seq s - 1)\<rparr>)
                } else Some s);
           Some (X_OK, s\<lparr>k_r_seq := k_s_seq s\<rparr>)
         }
       }
     }
     else resend ops (v_rseq v) s
   }"

text \<open>A cancelled file: by the caller (\<^verbatim>\<open>k->cancel\<close>) or by the data of the acknowledgement.\<close>

definition send_cancelled :: "'w k_ops \<Rightarrow> byte \<Rightarrow> 'w kst \<Rightarrow> (int \<times> 'w kst) option" where
  "send_cancelled ops d0 s = do {
     (_, s) \<leftarrow> op_closef ops 0 1 s;
     (_, s) \<leftarrow> new_sslot (nxtpkt s);
     (rc, s) \<leftarrow> spkt ops T_Z (k_s_seq s) 0 Null s;
     if rc \<noteq> X_OK then Some (rc, s)
     else do {
       fl \<leftarrow> (if d0 = T_Z \<or> k_cancel s = I_GROUP
             then do { _ \<leftarrow> k_filelist s; Some (Some []) } else Some (k_filelist s));
       Some (X_OK, (set_state S_EOF s)\<lparr>k_filelist := fl, k_r_seq := k_s_seq s\<rparr>)
     }
   }"

definition rx_send :: "'w k_ops \<Rightarrow> rpacket \<Rightarrow> 'w kst \<Rightarrow> (rpacket step \<times> 'w kst) option" where
  "rx_send ops v s =
     (if k_what s \<noteq> W_SEND then Some (Go v, s)
      else if v_rtyp v \<noteq> T_Y then ret (rx_send_nak ops v s)
      else do {
        (known, s) \<leftarrow> acked (v_rseq v) s;
        if \<not> known then Some (Return X_OK, s)
        else do {
          d0 \<leftarrow> peek s (v_pdf v) 0;
          if k_state s = S_DATA \<and> (k_cancel s \<noteq> 0 \<or> d0 = T_X \<or> d0 = T_Z)
          then ret (send_cancelled ops d0 s)
          else Some (Go v, s\<lparr>r_sofar := r_sofar_rumor s\<rparr>)
        }
      })"

definition k_receive :: "'w k_ops \<Rightarrow> int \<Rightarrow> 'w kst \<Rightarrow> (rpacket step \<times> 'w kst) option" where
  "k_receive ops len s =
     (if len < 4 then ret (rx_short ops s)
      else bind_step (bind_step (bind_step (rx_header ops len s) (rx_check ops)) (rx_typed ops)) (rx_send ops))"

subsection \<open>The protocol states of a sender\<close>

text \<open>The first \<^verbatim>\<open>FN_MAX\<close> bytes of the name, up to its terminator, go to the response structure.\<close>

definition copy_filename :: "'w kst \<Rightarrow> 'w kst option" where
  "copy_filename s = do {
     bs \<leftarrow> read_str s (k_filename s);
     write_bytes (Ptr R_FILENAME 0) (take FN_MAX (bs @ [0])) s
   }"

text \<open>Opening the next file of the list and announcing it, or the end of the transmission.\<close>

definition send_file_header :: "'w k_ops \<Rightarrow> kptr \<Rightarrow> kptr list \<Rightarrow> 'w kst \<Rightarrow> (int \<times> 'w kst) option" where
  "send_file_header ops name rest s = do {
     s \<leftarrow> copy_filename (s\<lparr>k_filename := name\<rparr>);
     (rc, s) \<leftarrow> op_openf ops (k_filename s) 1 (r_filesize s) (s\<lparr>k_filelist := Some rest\<rparr>);
     if rc \<noteq> X_OK then Some (rc, s)
     else do {
       (_, s) \<leftarrow> encstr ops (k_filename s) s;
       (_, s) \<leftarrow> new_sslot s;
       (rc, s) \<leftarrow> spkt ops T_F (k_s_seq s) (-1) (k_xdata s) (s\<lparr>k_sw_full := 0\<rparr>);
       if rc \<noteq> X_OK then Some (rc, s)
       else
         let s = set_state S_FILE (s\<lparr>r_sofar := 0, r_sofar_rumor := 0\<rparr>)
         in Some (X_OK, s\<lparr>k_r_seq := k_s_seq s\<rparr>)
     }
   }"

definition send_break :: "'w k_ops \<Rightarrow> 'w kst \<Rightarrow> (int \<times> 'w kst) option" where
  "send_break ops s = do {
     (buf, s_slot, s) \<leftarrow> get_sslot s;
     if s_slot < 0 \<or> s_slot \<ge> k_wslots s then Some (X_ERROR, s)
     else do {
       s \<leftarrow> s_pw_set (k_s_seq s) s_slot s;
       (rc, s) \<leftarrow> spkt ops T_B (k_s_seq s) 0 Null s;
       if rc \<noteq> X_OK then Some (rc, s)
       else let s = set_state S_EOT s in Some (X_OK, s\<lparr>k_r_seq := k_s_seq s\<rparr>)
     }
   }"

definition st_next_file :: "'w k_ops \<Rightarrow> rpacket \<Rightarrow> 'w kst \<Rightarrow> (int \<times> 'w kst) option" where
  "st_next_file ops v s = do {
     (busy, s) \<leftarrow> (if k_state s = S_INIT then do { s \<leftarrow> spar (v_pdf v) (v_datalen v) s; Some (False, s) }
                  else do { n \<leftarrow> nused_sslots s; Some (n > 0, s) });
     if busy then Some (X_OK, s)
     else do {
       let s = nxtpkt s;
       fl \<leftarrow> k_filelist s;
       case fl of
         [] \<Rightarrow> send_break ops (s\<lparr>k_filename := Null\<rparr>)
       | name # rest \<Rightarrow> send_file_header ops name rest s
     }
   }"

text \<open>The acknowledgement of the file name: attributes if negotiated, otherwise the first data.\<close>

definition st_file :: "'w k_ops \<Rightarrow> 'w kst \<Rightarrow> (int \<times> 'w kst) option" where
  "st_file ops s = do {
     let s = nxtpkt s;
     if k_capas s AND CAP_AT \<noteq> 0 then do {
       (rc, s) \<leftarrow> sattr ops s;
       if rc \<noteq> X_OK then Some (rc, s)
       else let s = set_state S_ATTR s in Some (X_OK, s\<lparr>k_r_seq := k_s_seq s\<rparr>)
     }
     else do {
       (_, s) \<leftarrow> new_sslot s;
       (rc, s) \<leftarrow> sdata ops s;
       if rc = X_ERROR then Some (rc, s)
       else if rc = 0 then do {
         (_, s) \<leftarrow> new_sslot s;
         (rc, s) \<leftarrow> spkt ops T_Z (k_s_seq s) 0 Null s;
         if rc \<noteq> X_OK then Some (rc, s)
         else do {
           (_, s) \<leftarrow> op_closef ops 0 1 s;
           let s = set_state S_EOF s;
           Some (X_OK, s\<lparr>k_r_seq := k_s_seq s\<rparr>)
         }
       }
       else let s = set_state S_DATA s in Some (X_OK, s\<lparr>k_r_seq := k_s_seq s\<rparr>)
     }
   }"

definition st_data :: "'w k_ops \<Rightarrow> 'w kst \<Rightarrow> (int \<times> 'w kst) option" where
  "st_data ops s = do {
     let s = (if k_state s = S_ATTR then set_state S_DATA s else s);
     (buf, s_slot, s) \<leftarrow> get_sslot s;
     if s_slot < 0 then Some (X_OK, s\<lparr>k_sw_full := 1\<rparr>)
     else do {
       let s = nxtpkt s;
       s \<leftarrow> s_pw_set (k_s_seq s) s_slot s;
       (rc, s) \<leftarrow> sdata ops (s\<lparr>k_sw_full := 0\<rparr>);
       if rc = X_ERROR then Some (rc, s)
       else if rc = 0 then do {
         (_, s) \<leftarrow> op_closef ops 0 1 s;
         (rc, s) \<leftarrow> spkt ops T_Z (k_s_seq s) 0 Null (set_state S_EOF s);
         if rc \<noteq> X_OK then Some (rc, s) else Some (X_OK, s\<lparr>k_r_seq := k_s_seq s\<rparr>)
       }
       else Some (X_OK, s\<lparr>k_r_seq := k_s_seq s\<rparr>)
     }
   }"

definition st_eot :: "'w kst \<Rightarrow> (int \<times> 'w kst) option" where
  "st_eot s = Some (X_DONE, if r_type s = A_GET then s\<lparr>r_arg := Ptr R_FILENAME 0\<rparr> else s)"

subsection \<open>The protocol states of a receiver\<close>

definition st_wait :: "'w k_ops \<Rightarrow> rpacket \<Rightarrow> 'w kst \<Rightarrow> (int \<times> 'w kst) option" where
  "st_wait ops v s =
     (if v_rtyp v = T_S then do {
        s \<leftarrow> spar (v_pdf v) (v_datalen v) s;
        (rc, s) \<leftarrow> rpar ops T_Y s;
        if rc \<noteq> X_OK then Some (X_ERROR, s)
        else if k_what s = W_DIR then Some (rc, set_state R_DATA s)
        else Some (rc, (set_state R_FILE s)\<lparr>r_type := A_SEND, k_what := W_RECV\<rparr>)
      }
      else if k_what s = W_GET then resend ops 0 s
      else nak ops 0 (-1) s)"

definition st_rfile :: "'w k_ops \<Rightarrow> rpacket \<Rightarrow> 'w kst \<Rightarrow> (int \<times> 'w kst) option" where
  "st_rfile ops v s =
     (if v_rtyp v = T_F then do {
        (rc, s) \<leftarrow> decode ops 0 (v_pdf v) (-1) s;
        let s = (if rc = X_OK then s\<lparr>k_state := R_ATTR\<rparr> else s);
        let s = s\<lparr>r_rstatus := k_state s\<rparr>;
        if rc = X_OK then do {
          s \<leftarrow> poke (Ptr R_FILEDATE 0) 0 0 s;
          ack ops (v_rseq v) (Ptr R_FILENAME 0) (s\<lparr>r_filesize := 0, r_sofar := 0, r_sofar_rumor := 0\<rparr>)
        }
        else do { s \<leftarrow> epkt ops (lit ''eksw Filename error'') s; Some (rc, s) }
      }
      else if v_rtyp v = T_B then do {
        (rc, s) \<leftarrow> ack ops (v_rseq v) Null s;
        Some (if rc = X_OK then X_DONE else X_ERROR, if r_type s = A_SEND then s\<lparr>r_arg := Ptr R_FILENAME 0\<rparr> else s)
      }
      else if v_rtyp v = T_Z then ack ops (v_rseq v) Null s
      else if v_rtyp v = T_S then do {
        s \<leftarrow> spar (v_pdf v) (v_datalen v) s;
        (rc, s) \<leftarrow> rpar ops T_Y s;
        if rc \<noteq> X_OK then Some (X_ERROR, s) else Some (rc, (set_state R_FILE s)\<lparr>k_what := W_RECV\<rparr>)
      }
      else Some (X_ERROR, s))"

definition open_output :: "'w k_ops \<Rightarrow> 'w kst \<Rightarrow> (int \<times> 'w kst) option" where
  "open_output ops s =
     (let s = s\<lparr>k_obufpos := 0, k_filename := Ptr R_FILENAME 0, r_sofar := 0, r_sofar_rumor := 0\<rparr>
      in op_openf ops (Ptr R_FILENAME 0) 2 (r_filesize s) s)"

definition st_rattr_data :: "'w k_ops \<Rightarrow> rpacket \<Rightarrow> 'w kst \<Rightarrow> (int \<times> 'w kst) option" where
  "st_rattr_data ops v s = do {
     (rc, s) \<leftarrow> open_output ops s;
     if rc \<noteq> X_OK then do { s \<leftarrow> epkt ops (lit ''eksw cannot open output file'') s; Some (rc, s) }
     else do {
       (rc, s) \<leftarrow> handle_good_rpkt ops (v_rseq v) (v_pdf v) (set_state R_DATA s);
       if rc \<noteq> X_OK then do { s \<leftarrow> epkt ops (lit ''eksw Error writing data to file'') s; Some (rc, s) }
       else Some (rc, s)
     }
   }"

definition st_rattr_empty :: "'w k_ops \<Rightarrow> rpacket \<Rightarrow> 'w kst \<Rightarrow> (int \<times> 'w kst) option" where
  "st_rattr_empty ops v s = do {
     (rc, s) \<leftarrow> open_output ops s;
     if rc \<noteq> X_OK then do { s \<leftarrow> epkt ops (lit ''eksw File refused or cannot be opened'') s; Some (rc, s) }
     else do {
       c \<leftarrow> peek s (v_pdf v) 0;
       (rc, s) \<leftarrow> op_closef ops c 2 s;
       if rc \<noteq> X_OK then do { s \<leftarrow> epkt ops (lit ''eksw Error closing empty file'') s; Some (rc, s) }
       else do {
         (_, s) \<leftarrow> ack ops (v_rseq v) (v_s v) (s\<lparr>k_state := R_FILE\<rparr>);
         Some (X_OK, s\<lparr>r_rstatus := k_state s\<rparr>)
       }
     }
   }"

definition st_rattr :: "'w k_ops \<Rightarrow> rpacket \<Rightarrow> 'w kst \<Rightarrow> (int \<times> 'w kst) option" where
  "st_rattr ops v s =
     (if v_rtyp v = T_A then do {
        (x, s) \<leftarrow> gattr (v_pdf v) s;
        (_, s) \<leftarrow> ack ops (v_rseq v) (lit ''Y'') (if x > -1 then s\<lparr>k_binary := x\<rparr> else s);
        Some (X_OK, s)
      }
      else if v_rtyp v = T_D then st_rattr_data ops v s
      else if v_rtyp v = T_Z then st_rattr_empty ops v s
      else if v_rtyp v = T_F then do { (_, s) \<leftarrow> ack ops (v_rseq v) Null s; Some (X_OK, s) }
      else do { s \<leftarrow> epkt ops (lit ''eksw R_ATTR error 3 unexpected packet type'') s; Some (X_ERROR, s) })"

text \<open>A data packet, which in a directory transfer is also kept as the listing, and the end of the file.\<close>

definition rdata_packet :: "'w k_ops \<Rightarrow> rpacket \<Rightarrow> 'w kst \<Rightarrow> (int \<times> 'w kst) option" where
  "rdata_packet ops v s = do {
     (rc, s) \<leftarrow> handle_good_rpkt ops (v_rseq v) (v_pdf v) s;
     if k_recvdir s = 1 then do {
       s \<leftarrow> strncpy (Ptr R_DIR 0) (v_pdf v) (K_DIR_LEN - 1) s;
       s \<leftarrow> poke (Ptr R_DIR 0) (int K_DIR_LEN - 1) 0 s;
       Some (rc, s)
     }
     else Some (rc, s)
   }"

definition rdata_eof :: "'w k_ops \<Rightarrow> rpacket \<Rightarrow> 'w kst \<Rightarrow> (int \<times> 'w kst) option" where
  "rdata_eof ops v s = do {
     (rc, s) \<leftarrow> (if k_recvdir s = 0 then do {
          (_, s) \<leftarrow> flush_to_file ops s;
          c \<leftarrow> peek s (v_pdf v) 0;
          (rc, s) \<leftarrow> op_closef ops c 2 s;
          Some (rc, if rc = X_OK then s\<lparr>k_state := R_FILE\<rparr> else s)
        }
        else Some (X_OK, s\<lparr>k_state := R_FILE\<rparr>));
     Some (rc, s\<lparr>r_rstatus := k_state s\<rparr>)
   }"

definition st_rdata :: "'w k_ops \<Rightarrow> rpacket \<Rightarrow> 'w kst \<Rightarrow> (int \<times> 'w kst) option" where
  "st_rdata ops v s =
     (if v_rtyp v = T_X then ack ops (v_rseq v) (v_s v) s
      else if v_rtyp v = T_D then do {
        (rc, s) \<leftarrow> rdata_packet ops v s;
        if rc = X_OK then Some (rc, s)
        else do { s \<leftarrow> epkt ops (lit ''eksw hgr failed'') s; Some (rc, s) }
      }
      else if v_rtyp v = T_Z then do {
        (rc, s) \<leftarrow> rdata_eof ops v s;
        if rc = X_OK then ack ops (v_rseq v) (v_s v) s
        else do { s \<leftarrow> epkt ops (lit ''eksw Can't close file'') s; Some (rc, s) }
      }
      else do { s \<leftarrow> epkt ops (lit ''eksw error 4 unexpected packet type'') s; Some (X_ERROR, s) })"

subsection \<open>The function\<close>

definition k_switch :: "'w k_ops \<Rightarrow> kptr \<Rightarrow> rpacket \<Rightarrow> 'w kst \<Rightarrow> (int \<times> 'w kst) option" where
  "k_switch ops msg v s =
     (if k_state s = S_INIT \<or> k_state s = S_EOF then st_next_file ops v s
      else if k_state s = S_FILE then st_file ops s
      else if k_state s = S_ATTR \<or> k_state s = S_DATA then st_data ops s
      else if k_state s = S_EOT then st_eot s
      else if k_state s = R_WAIT then st_wait ops v s
      else if k_state s = R_FILE then st_rfile ops v s
      else if k_state s = R_ATTR then st_rattr ops v s
      else if k_state s = R_DATA then st_rdata ops v s
      else do { s \<leftarrow> epkt ops msg s; Some (X_ERROR, s) })"

definition no_packet :: rpacket where
  "no_packet = \<lparr>v_pdf = Null, v_datalen = 0, v_rtyp = 0, v_rseq = 0, v_s = Null\<rparr>"

definition k_run :: "'w k_ops \<Rightarrow> int \<Rightarrow> kptr \<Rightarrow> 'w kst \<Rightarrow> (int \<times> 'w kst) option" where
  "k_run ops len msg s =
     (if k_state s = R_NONE then Some (X_OK, s)
      else do {
        (r, s) \<leftarrow> (if k_do_rxd s \<noteq> 0 then k_receive ops len s else Some (Go no_packet, s));
        case r of Return rc \<Rightarrow> Some (rc, s) | Go v \<Rightarrow> k_switch ops msg v s
      })"

definition kermit :: "'w k_ops \<Rightarrow> fcode \<Rightarrow> int \<Rightarrow> kptr \<Rightarrow> 'w kst \<Rightarrow> (int \<times> 'w kst) option" where
  "kermit ops fc len msg s = do {
     (_, s) \<leftarrow> test_rslots ops s;
     case fc of
       K_INIT \<Rightarrow> k_init s
     | K_REINIT \<Rightarrow> k_reinit ops s
     | K_DIR \<Rightarrow> k_dir ops s
     | K_GET \<Rightarrow> k_get ops s
     | K_SEND \<Rightarrow> k_send ops s
     | K_STATUS \<Rightarrow> Some (X_STATUS, s)
     | K_QUIT \<Rightarrow> Some (X_DONE, s)
     | K_SYNC \<Rightarrow> do { s \<leftarrow> epkt ops msg s; Some (X_OK, s) }
     | K_ERROR \<Rightarrow> k_error ops msg s
     | K_RUN \<Rightarrow> k_run ops len msg s
     | K_OTHER \<Rightarrow> Some (X_ERROR, s)
   }"

end
