(* ===== verification/Libekermit.thy ===== *)
theory Libekermit
  imports Kermit_Machine
begin

text \<open>
  \<^verbatim>\<open>libe-kermit.c\<close> as it is built for the Raspberry Pi (\<^verbatim>\<open>BSP_INTERNAL_BUFFER_SIZE\<close> undefined): the
  main loop that reads packets and runs the engine, and the entry points. \<^verbatim>\<open>rxd\<close> is the packet
  reader \<^verbatim>\<open>k.rxd\<close> applied to \<^verbatim>\<open>k.ipktbuf\<close>. \<^verbatim>\<open>kdevopen\<close>, \<^verbatim>\<open>kdevclose\<close>, \<^verbatim>\<open>kdevinit\<close> and
  \<^verbatim>\<open>kdevdeinit\<close> return 0 and do nothing.
\<close>

subsection \<open>The main loop\<close>

type_synonym 'w reader = "'w kst \<Rightarrow> (int \<times> 'w kst) option"

text \<open>
  The timeout branch: an error packet is sent only when a packet has been handled before.
\<close>

definition main_timeout :: "'w k_ops \<Rightarrow> bool \<Rightarrow> int \<Rightarrow> 'w kst \<Rightarrow> (int \<times> 'w kst) option" where
  "main_timeout ops start rx_len s =
     (if start then Some (K_TIMEOUT, s)
      else do {
        (_, s) \<leftarrow> kermit ops K_ERROR rx_len (lit ''eksw to'') s;
        Some (K_TIMEOUT, s)
      })"

partial_function (option) main_loop :: "'w k_ops \<Rightarrow> 'w reader \<Rightarrow> int \<Rightarrow> bool \<Rightarrow> int \<Rightarrow> 'w kst \<Rightarrow> (int \<times> 'w kst) option" where
  "main_loop ops rxd retrycounter start rx_len s = do {
     (ok, s) \<leftarrow> ok2rxd s;
     (rx_len, s) \<leftarrow> (if ok then rxd s else Some (rx_len, s));
     if ok \<and> rx_len < 0 then Some (- rx_len, s)
     else if rx_len = 0 \<and> retrycounter = 0 then main_timeout ops start rx_len s
     else do {
       (status, s) \<leftarrow> kermit ops K_RUN rx_len (lit '''') s;
       if status = X_DONE then Some (K_SUCCESS, s)
       else if status = X_ERROR then Some (K_FAILURE, s)
       else main_loop ops rxd (if rx_len = 0 then retrycounter - 1 else retrycounter) False rx_len s
     }
   }"

text \<open>
  \<^verbatim>\<open>kermit_main\<close> returns the code, the type and the argument of the transaction and the number of
  retransmissions. The last is stored through \<^verbatim>\<open>nresend\<close> without a check: \<^term>\<open>has_nresend\<close> tells
  whether the caller gave a pointer.
\<close>

definition main_start :: "'w k_ops \<Rightarrow> int \<Rightarrow> 'w kst \<Rightarrow> (int \<times> 'w kst) option" where
  "main_start ops action s =
     (if action = A_DIR then kermit ops K_DIR 0 (lit ''eksw dir'') s
      else if action = A_SEND then kermit ops K_SEND 0 (lit ''eksw send'') s
      else if action = A_GET then kermit ops K_GET 0 (lit ''eksw get'') s
      else Some (X_OK, s))"

definition kermit_main :: "'w k_ops \<Rightarrow> 'w reader \<Rightarrow> int \<Rightarrow> kptr list option \<Rightarrow> bool \<Rightarrow> 'w kst
    \<Rightarrow> (int \<times> int \<times> kptr \<times> int \<times> 'w kst) option" where
  "kermit_main ops rxd action cmlist has_nresend s = do {
     (status, s) \<leftarrow> kermit ops K_REINIT 0 (lit ''eksw init'') (s\<lparr>r_type := A_WAIT, k_filelist := cmlist\<rparr>);
     if status \<noteq> X_OK then Some (K_ERROR_CODE, 0, Null, 0, s)
     else do {
       (status, s) \<leftarrow> main_start ops action s;
       (ret, s) \<leftarrow> (if status = X_DONE then Some (K_SUCCESS, s)
                   else main_loop ops rxd (k_retry s + 1) True 0 s);
       if \<not> has_nresend then None
       else do {
         let arg = (if action = A_DIR \<or> r_type s = A_DIR then Ptr R_DIR 0 else r_arg s);
         let nresend = k_nresend s;
         let typ = r_type s;
         (_, s) \<leftarrow> op_closef ops 0 2 s;
         Some (ret, typ, arg, nresend, s)
       }
     }
   }"

subsection \<open>Entry points\<close>

text \<open>\<^verbatim>\<open>memset(&k, 0, sizeof(k))\<close>: the arrays inside \<^verbatim>\<open>struct k_data\<close> are cleared, the others kept.\<close>

definition clear_k :: "'w kst \<Rightarrow> 'w kst" where
  "clear_k s = (k_zero (wd s))\<lparr>r_rstatus := r_rstatus s, r_filesize := r_filesize s, r_sofar := r_sofar s,
     r_sofar_rumor := r_sofar_rumor s, r_arg := r_arg s, r_type := r_type s,
     mem := (\<lambda>b. if b \<in> {OBUF, ZINBUF, R_FILENAME, R_FILEDATE, R_DIR} then mem s b else (\<lambda>_. 0))\<rparr>"

definition EK_init :: "'w k_ops \<Rightarrow> kptr \<Rightarrow> bool \<Rightarrow> 'w kst \<Rightarrow> (int \<times> 'w kst) option" where
  "EK_init ops root_path has_priv s =
     (if root_path = Null \<or> \<not> has_priv then Some (K_FAILURE, s)
      else do {
        let s = (clear_k s)\<lparr>k_wslots_max := 1, k_p_maxlen := int P_PKTLEN, k_xfermode := 0, k_binary := 1, k_parity := 0,
                  k_bct := 1, k_bcta3 := 0, k_ikeep := 0, k_cancel := 0, k_zinlen := int IBUFLEN, k_zincnt := 0,
                  k_obuflen := int OBUFLEN, k_filelist := None\<rparr>;
        s \<leftarrow> strncpy (Ptr ROOTPATH 0) root_path K_ROOTPATH_LEN s;
        (status, s) \<leftarrow> kermit ops K_INIT 0 (lit ''eksw init'') s;
        Some (if status = X_ERROR then K_FAILURE else K_SUCCESS, s)
      })"

definition EK_deinit :: "'w kst \<Rightarrow> int \<times> 'w kst" where
  "EK_deinit s = (0, s)"

definition EK_init_memory :: "'w kst \<Rightarrow> int \<times> 'w kst" where
  "EK_init_memory s = (K_SUCCESS, s)"

datatype ek_transaction_type_e = ek_type_get | ek_type_send | ek_type_dir | ek_type_other

definition ek_type_of :: "int \<Rightarrow> ek_transaction_type_e" where
  "ek_type_of t = (if t = A_GET then ek_type_get else if t = A_SEND then ek_type_send
                   else if t = A_DIR then ek_type_dir else ek_type_other)"

definition EK_start_server :: "'w k_ops \<Rightarrow> 'w reader \<Rightarrow> bool \<Rightarrow> 'w kst
    \<Rightarrow> (int \<times> ek_transaction_type_e \<times> kptr \<times> int \<times> 'w kst) option" where
  "EK_start_server ops rxd has_nresend s = do {
     (ret, typ, arg, nresend, s) \<leftarrow> kermit_main ops rxd A_WAIT None has_nresend s;
     Some (ret, ek_type_of typ, arg, nresend, s)
   }"

text \<open>The client calls pass a null \<^verbatim>\<open>nresend\<close>.\<close>

definition EK_get :: "'w k_ops \<Rightarrow> 'w reader \<Rightarrow> kptr \<Rightarrow> 'w kst \<Rightarrow> (int \<times> 'w kst) option" where
  "EK_get ops rxd filename s = do {
     (ret, _, _, _, s) \<leftarrow> kermit_main ops rxd A_GET (Some [filename]) False s;
     Some (ret, s)
   }"

definition EK_send :: "'w k_ops \<Rightarrow> 'w reader \<Rightarrow> kptr \<Rightarrow> 'w kst \<Rightarrow> (int \<times> 'w kst) option" where
  "EK_send ops rxd filename s = do {
     (ret, _, _, _, s) \<leftarrow> kermit_main ops rxd A_SEND (Some [filename]) False s;
     Some (ret, s)
   }"

definition EK_dir :: "'w k_ops \<Rightarrow> 'w reader \<Rightarrow> 'w kst \<Rightarrow> (int \<times> kptr \<times> 'w kst) option" where
  "EK_dir ops rxd s = do {
     (ret, _, arg, _, s) \<leftarrow> kermit_main ops rxd A_DIR (Some []) False s;
     Some (ret, arg, s)
   }"

subsection \<open>Initialisation\<close>

lemma test_rslots_idle:
  assumes "k_wslots s \<le> 0 \<or> k_wslots s = 1 \<and> p_seq (k_ipktinfo s 0) < 0"
  shows "test_rslots ops s = Some (X_OK, s)"
  using assms by (auto simp: test_rslots_def slots_def ipkt_def arr_get_in)

text \<open>The engine after \<^verbatim>\<open>_EK_init\<close>: the defaults, and the tables of the checksum.\<close>

definition inited :: "'w kst \<Rightarrow> bool" where
  "inited s \<longleftrightarrow> k_wslots_max s = 1 \<and> k_wslots s = 0 \<and> k_retry s = P_RETRY \<and> k_p_maxlen s = int P_PKTLEN \<and> k_binary s = 1
     \<and> k_parity s = 0 \<and> k_bct s = 1 \<and> k_bcta3 s = 0 \<and> k_s_ctlq s = PREFIX_CTRL \<and> k_r_ctlq s = PREFIX_CTRL
     \<and> k_rptq s = PREFIX_REPEAT \<and> k_capas s = CAP_LP OR CAP_AT \<and> k_obuflen s = int OBUFLEN \<and> k_zinlen s = int IBUFLEN
     \<and> crc_ready s"

lemma EK_init_succeeds:
  assumes "cstr bs = path"
  shows "\<exists>t. EK_init ops (Lit bs) True s = Some (K_SUCCESS, t) \<and> inited t \<and> wd t = wd s
    \<and> has_bytes (mem t ROOTPATH) 0 (take K_ROOTPATH_LEN (path @ replicate K_ROOTPATH_LEN 0))"
proof -
  let ?bs = "take K_ROOTPATH_LEN path @ replicate (K_ROOTPATH_LEN - length path) 0"
  have eq: "take K_ROOTPATH_LEN (path @ replicate K_ROOTPATH_LEN 0) = ?bs"
    by (simp add: min_def)
  have l: "length ?bs = K_ROOTPATH_LEN" by simp
  have w: "strncpy (Ptr ROOTPATH 0) (Lit bs) K_ROOTPATH_LEN u
      = Some (u\<lparr>mem := (mem u)(ROOTPATH := splice (mem u ROOTPATH) 0 ?bs)\<rparr>)" for u :: "'a kst"
    using l assms by (simp add: strncpy_def read_str_def write_bytes_in)
  have "has_bytes (splice f 0 ?bs) 0 ?bs" for f by (rule has_bytes_splice)
  then show ?thesis
    by (auto simp: EK_init_def w kermit_def test_rslots_idle k_init_def Let_def clear_k_def k_zero_def inited_def crc_ready_def eq)
qed

lemma k_reinit_ok: "k_reinit ops s = Some (rc, t) \<Longrightarrow> rc = X_OK"
  by (auto simp: k_reinit_def bind_Some_iff)

lemma kermit_reinit_ok: "kermit ops K_REINIT len msg s = Some (rc, t) \<Longrightarrow> rc = X_OK"
  by (auto simp: kermit_def bind_Some_iff dest: k_reinit_ok)

lemma kermit_main_needs_nresend: "kermit_main ops rxd action cmlist False s = None"
proof (rule ccontr)
  assume "kermit_main ops rxd action cmlist False s \<noteq> None"
  then obtain x where "kermit_main ops rxd action cmlist False s = Some x" by blast
  then show False
    unfolding kermit_main_def
    by (auto simp: bind_Some_iff split: if_splits dest!: kermit_reinit_ok)
qed

lemma EK_client_none:
  "EK_get ops rxd filename s = None" "EK_send ops rxd filename s = None" "EK_dir ops rxd s = None"
  by (simp_all add: EK_get_def EK_send_def EK_dir_def kermit_main_needs_nresend)

text \<open>
  The client entry points cannot complete: \<^verbatim>\<open>_EK_get\<close>, \<^verbatim>\<open>_EK_send\<close> and \<^verbatim>\<open>_EK_dir\<close> pass a null
  \<^verbatim>\<open>nresend\<close> to \<^verbatim>\<open>kermit_main\<close>, which stores through it on every path that ends the main loop, so
  for every device and every state the call either never returns or has undefined behaviour.
\<close>

theorem EK_client_undefined:
  "EK_get ops rxd filename s = None \<and> EK_send ops rxd filename s = None \<and> EK_dir ops rxd s = None"
  by (simp add: EK_client_none)

end
