(* ===== verification/File_Transfer.thy ===== *)
theory File_Transfer
  imports Libekermit
begin

text \<open>
  \<^verbatim>\<open>libfile_transfer.c\<close>, the library the application calls, and \<^verbatim>\<open>file_transfer_task.c\<close>, the
  thread that serves transfers over BLE. \<^verbatim>\<open>gStatus\<close> and the engine's static structures are one
  record. An unsigned-char return code is an \<^typ>\<open>int\<close> between 0 and 255; a pointer argument of which the
  code only tests that it is not null is a Boolean.
\<close>

subsection \<open>Data\<close>

abbreviation "FT_SUCCESS \<equiv> (0::int)"

datatype ft_mode_e = ft_mode_server | ft_mode_client

datatype ft_transaction_type_e = ft_type_get | ft_type_send | ft_type_dir | ft_type_end | ft_type_other

record 'w FT_state =
  initialised :: bool
  ft_mode :: ft_mode_e
  engine :: "'w kst"

definition ft_zero :: "'w kst \<Rightarrow> 'w FT_state" where
  "ft_zero e = \<lparr>initialised = False, ft_mode = ft_mode_client, engine = e\<rparr>"

subsection \<open>The library\<close>

text \<open>The translation of the engine's return code that ends most functions.\<close>

definition ft_code :: "int \<Rightarrow> int" where
  "ft_code rc = (if rc = K_SUCCESS then FT_SUCCESS else if rc = K_TIMEOUT then ETIME else EIO)"

definition FT_init :: "'w k_ops \<Rightarrow> ft_mode_e \<Rightarrow> kptr \<Rightarrow> bool \<Rightarrow> 'w FT_state \<Rightarrow> (int \<times> 'w FT_state) option" where
  "FT_init ops mode root_path has_priv g =
     (if initialised g then Some (EACCES, g)
      else if root_path = Null then Some (EINVAL, g)
      else if \<not> has_priv then Some (EINVAL, g)
      else do {
        (ret, e) \<leftarrow> EK_init ops root_path has_priv (engine g);
        Some (ft_code (ret mod 256), g\<lparr>ft_mode := mode, initialised := True, engine := e\<rparr>)
      })"

definition FT_deinit :: "'w FT_state \<Rightarrow> int \<times> 'w FT_state" where
  "FT_deinit g =
     (if \<not> initialised g then (EACCES, g)
      else let (ret, e) = EK_deinit (engine g)
           in (if ret mod 256 \<noteq> 0 then EIO else FT_SUCCESS, g\<lparr>initialised := False, engine := e\<rparr>))"

definition ft_type_of :: "ek_transaction_type_e \<Rightarrow> ft_transaction_type_e" where
  "ft_type_of t = (case t of ek_type_get \<Rightarrow> ft_type_get | ek_type_send \<Rightarrow> ft_type_send
                   | ek_type_dir \<Rightarrow> ft_type_dir | ek_type_other \<Rightarrow> ft_type_other)"

text \<open>What a call of \<^verbatim>\<open>FT_start_server\<close> stores through its three pointers.\<close>

record ft_report =
  rep_type :: ft_transaction_type_e
  rep_arg :: kptr
  rep_nresend :: int

definition FT_start_server :: "'w k_ops \<Rightarrow> 'w reader \<Rightarrow> bool \<Rightarrow> bool \<Rightarrow> bool \<Rightarrow> 'w FT_state
    \<Rightarrow> (int \<times> ft_report option \<times> 'w FT_state) option" where
  "FT_start_server ops rxd has_type has_arg has_nresend g =
     (if \<not> initialised g \<or> ft_mode g \<noteq> ft_mode_server then Some (EACCES, None, g)
      else if \<not> has_type \<or> \<not> has_arg then Some (EINVAL, None, g)
      else do {
        (ret, typ, arg, nresend, e) \<leftarrow> EK_start_server ops rxd has_nresend (engine g);
        let ret = ret mod 256;
        let typ = (if ret = K_END then ft_type_end else ft_type_of typ);
        Some (if ret = K_END then FT_SUCCESS else ft_code ret,
              Some \<lparr>rep_type = typ, rep_arg = arg, rep_nresend = nresend\<rparr>, g\<lparr>engine := e\<rparr>)
      })"

definition FT_init_memory :: "'w FT_state \<Rightarrow> int \<times> 'w FT_state" where
  "FT_init_memory g =
     (let (ret, e) = EK_init_memory (engine g)
      in (if ret = K_SUCCESS then FT_SUCCESS else EIO, g\<lparr>engine := e\<rparr>))"

definition client_open :: "'w FT_state \<Rightarrow> bool" where
  "client_open g \<longleftrightarrow> initialised g \<and> ft_mode g = ft_mode_client"

definition FT_get :: "'w k_ops \<Rightarrow> 'w reader \<Rightarrow> kptr \<Rightarrow> 'w FT_state \<Rightarrow> (int \<times> 'w FT_state) option" where
  "FT_get ops rxd filename g =
     (if \<not> client_open g then Some (EACCES, g)
      else if filename = Null then Some (EINVAL, g)
      else do {
        (ret, e) \<leftarrow> EK_get ops rxd filename (engine g);
        Some (ft_code (ret mod 256), g\<lparr>engine := e\<rparr>)
      })"

definition FT_send :: "'w k_ops \<Rightarrow> 'w reader \<Rightarrow> kptr \<Rightarrow> 'w FT_state \<Rightarrow> (int \<times> 'w FT_state) option" where
  "FT_send ops rxd filename g =
     (if \<not> client_open g then Some (EACCES, g)
      else if filename = Null then Some (EINVAL, g)
      else do {
        (ret, e) \<leftarrow> EK_send ops rxd filename (engine g);
        Some (ft_code (ret mod 256), g\<lparr>engine := e\<rparr>)
      })"

definition FT_dir :: "'w k_ops \<Rightarrow> 'w reader \<Rightarrow> bool \<Rightarrow> 'w FT_state \<Rightarrow> (int \<times> kptr \<times> 'w FT_state) option" where
  "FT_dir ops rxd has_result g =
     (if \<not> client_open g then Some (EACCES, Null, g)
      else if \<not> has_result then Some (EINVAL, Null, g)
      else do {
        (ret, result, e) \<leftarrow> EK_dir ops rxd (engine g);
        Some (ft_code (ret mod 256), result, g\<lparr>engine := e\<rparr>)
      })"

subsection \<open>The server thread\<close>

text \<open>
  The loop of \<^verbatim>\<open>ft_task\<close>. \<^term>\<open>typ\<close> is the variable \<^verbatim>\<open>type\<close>, \<^term>\<open>None\<close> while it has not been
  assigned; the \<^verbatim>\<open>switch\<close> reads it after every call. The result lists what the thread prints: the
  error code and the type of every transaction.
\<close>

partial_function (option) ft_loop :: "'w k_ops \<Rightarrow> 'w reader \<Rightarrow> ft_transaction_type_e option \<Rightarrow> bool \<Rightarrow> 'w FT_state
    \<Rightarrow> ((int \<times> ft_transaction_type_e) list \<times> 'w FT_state) option" where
  "ft_loop ops rxd typ flag g = do {
     (err, rep, g) \<leftarrow> FT_start_server ops rxd True True True g;
     t \<leftarrow> (case rep of Some r \<Rightarrow> Some (rep_type r) | None \<Rightarrow> typ);
     let flag = (flag \<or> t = ft_type_get);
     if err \<noteq> 0 \<or> flag then Some ([(err, t)], g)
     else do {
       (outs, g) \<leftarrow> ft_loop ops rxd (Some t) flag g;
       Some ((err, t) # outs, g)
     }
   }"

definition ft_task :: "'w k_ops \<Rightarrow> 'w reader \<Rightarrow> bool \<Rightarrow> 'w FT_state
    \<Rightarrow> ((int \<times> ft_transaction_type_e) list \<times> int \<times> 'w FT_state) option" where
  "ft_task ops rxd has_priv g = do {
     (_, g) \<leftarrow> FT_init ops ft_mode_server (lit ''img/'') has_priv g;
     (outs, g) \<leftarrow> ft_loop ops rxd None False g;
     let (err_code, g) = FT_deinit g;
     Some (outs, err_code, g)
   }"

subsection \<open>Calls of the library as steps\<close>

text \<open>
  The functions of \<^verbatim>\<open>libfile_transfer.h\<close> as one family of calls, and the sequences of calls an
  application makes. A step carries the call and the code it returned; a call that does not return makes
  no step.
\<close>

datatype ft_call = Init ft_mode_e kptr bool | Deinit | Start_server bool bool bool | Init_memory
  | Get kptr | Send kptr | Dir bool

fun ft_exec :: "'w k_ops \<Rightarrow> 'w reader \<Rightarrow> ft_call \<Rightarrow> 'w FT_state \<Rightarrow> (int \<times> 'w FT_state) option" where
  "ft_exec ops rxd (Init m p b) g = FT_init ops m p b g"
| "ft_exec ops rxd Deinit g = Some (FT_deinit g)"
| "ft_exec ops rxd (Start_server a b c) g = map_option (\<lambda>(e, _, g). (e, g)) (FT_start_server ops rxd a b c g)"
| "ft_exec ops rxd Init_memory g = Some (FT_init_memory g)"
| "ft_exec ops rxd (Get p) g = FT_get ops rxd p g"
| "ft_exec ops rxd (Send p) g = FT_send ops rxd p g"
| "ft_exec ops rxd (Dir b) g = map_option (\<lambda>(e, _, g). (e, g)) (FT_dir ops rxd b g)"

inductive ft_run :: "'w k_ops \<Rightarrow> 'w reader \<Rightarrow> 'w FT_state \<Rightarrow> (ft_call \<times> int) list \<Rightarrow> 'w FT_state \<Rightarrow> bool"
  for ops rxd where
  ft_run_none: "ft_run ops rxd g [] g"
| ft_run_call: "ft_run ops rxd g tr g' \<Longrightarrow> ft_exec ops rxd c g' = Some (e, g'') \<Longrightarrow> ft_run ops rxd g (tr @ [(c, e)]) g''"

text \<open>
  The contract: the library is closed or open in one of its modes. A call is refused with
  \<^term>\<open>EACCES\<close> in a state it does not belong to, and with \<^term>\<open>EINVAL\<close> for a null argument.
\<close>

datatype ft_abs = Closed | Open ft_mode_e

definition ft_abs_of :: "'w FT_state \<Rightarrow> ft_abs" where
  "ft_abs_of g = (if initialised g then Open (ft_mode g) else Closed)"

fun ft_admits :: "ft_call \<Rightarrow> ft_abs \<Rightarrow> bool" where
  "ft_admits (Init m p b) a \<longleftrightarrow> a = Closed"
| "ft_admits Deinit a \<longleftrightarrow> a \<noteq> Closed"
| "ft_admits (Start_server b c d) a \<longleftrightarrow> a = Open ft_mode_server"
| "ft_admits Init_memory a \<longleftrightarrow> True"
| "ft_admits c a \<longleftrightarrow> a = Open ft_mode_client"

fun ft_args_ok :: "ft_call \<Rightarrow> bool" where
  "ft_args_ok (Init m p b) \<longleftrightarrow> p \<noteq> Null \<and> b"
| "ft_args_ok (Start_server b c d) \<longleftrightarrow> b \<and> c"
| "ft_args_ok (Get p) \<longleftrightarrow> p \<noteq> Null"
| "ft_args_ok (Send p) \<longleftrightarrow> p \<noteq> Null"
| "ft_args_ok (Dir b) \<longleftrightarrow> b"
| "ft_args_ok c \<longleftrightarrow> True"

fun ft_next :: "ft_call \<Rightarrow> ft_abs \<Rightarrow> ft_abs" where
  "ft_next (Init m p b) a = Open m"
| "ft_next Deinit a = Closed"
| "ft_next c a = a"

inductive_cases ft_run_snocE: "ft_run ops rxd g (tr @ [ce]) g'"

lemmas ft_defs = FT_init_def FT_deinit_def FT_start_server_def FT_init_memory_def FT_get_def FT_send_def FT_dir_def
  EK_deinit_def EK_init_memory_def EK_client_none client_open_def

lemma ft_code_range: "ft_code r \<in> {FT_SUCCESS, ETIME, EIO}"
  by (simp add: ft_code_def)

lemma ft_code_not: "ft_code r \<noteq> EACCES" "ft_code r \<noteq> EINVAL"
  by (simp_all add: ft_code_def)

lemma ft_exec_admitted:
  assumes "ft_exec ops rxd c g = Some (e, g')" and "ft_admits c (ft_abs_of g)" and "ft_args_ok c"
  shows "ft_abs_of g' = ft_next c (ft_abs_of g) \<and> e \<in> {FT_SUCCESS, ETIME, EIO}"
  using assms ft_code_range
  by (cases c) (auto simp: ft_defs ft_abs_of_def bind_Some_iff Let_def split: if_splits)

lemma ft_exec_refused:
  assumes "\<not> (ft_admits c (ft_abs_of g) \<and> ft_args_ok c)"
  shows "ft_exec ops rxd c g = Some (if ft_admits c (ft_abs_of g) then EINVAL else EACCES, g)"
  using assms by (cases c) (auto simp: ft_defs ft_abs_of_def)

text \<open>
  C4. The file-transfer library implements its two-state contract. Whatever the engine and the device
  do, a call that does not belong to the current state returns \<^verbatim>\<open>EACCES\<close>, one with a null argument
  \<^verbatim>\<open>EINVAL\<close>, both without any effect; every other call that returns gives success, a timeout or an
  I/O error, and moves the library to the state of the contract: open in the requested mode after
  \<^verbatim>\<open>FT_init\<close>, even one that failed, closed after \<^verbatim>\<open>FT_deinit\<close>, unchanged otherwise.
\<close>

theorem ft_refines_contract:
  assumes "ft_exec ops rxd c g = Some (e, g')"
  shows "if \<not> ft_admits c (ft_abs_of g) then e = EACCES \<and> g' = g
         else if \<not> ft_args_ok c then e = EINVAL \<and> g' = g
         else e \<in> {FT_SUCCESS, ETIME, EIO} \<and> ft_abs_of g' = ft_next c (ft_abs_of g)"
  using assms ft_exec_admitted [OF assms] ft_exec_refused [of c g ops rxd] by auto

text \<open>
  The number of effective openings and closings in a run.
\<close>

fun opens :: "ft_call \<times> int \<Rightarrow> nat" where
  "opens (Init m p b, e) = of_bool (e \<noteq> EACCES \<and> e \<noteq> EINVAL)"
| "opens ce = 0"

fun closes :: "ft_call \<times> int \<Rightarrow> nat" where
  "closes (Deinit, e) = of_bool (e \<noteq> EACCES)"
| "closes ce = 0"

lemma ft_exec_balance:
  "ft_exec ops rxd c g = Some (e, g') \<Longrightarrow>
     of_bool (initialised g) + opens (c, e) = of_bool (initialised g') + closes (c, e)"
  by (cases c) (auto simp: ft_defs bind_Some_iff Let_def ft_code_not split: if_splits)

text \<open>
  Openings and closings alternate. In every sequence of calls that starts with the library closed,
  the number of \<^verbatim>\<open>FT_init\<close> calls that were not refused exceeds the number of \<^verbatim>\<open>FT_deinit\<close> calls that
  were not refused by one if the library is open at the end, and is equal to it otherwise.
\<close>

theorem ft_open_close_balance:
  assumes "ft_run ops rxd g tr g'" and "\<not> initialised g"
  shows "(\<Sum>ce\<leftarrow>tr. opens ce) = (\<Sum>ce\<leftarrow>tr. closes ce) + of_bool (initialised g')"
  using assms
proof (induction rule: ft_run.induct)
  case (ft_run_call g tr g' c e g'')
  then show ?case
    using ft_exec_balance [OF ft_run_call.hyps(2)] by simp
qed simp

text \<open>
  A client call that returns has done nothing: \<^verbatim>\<open>FT_get\<close>, \<^verbatim>\<open>FT_send\<close> and \<^verbatim>\<open>FT_dir\<close> only ever
  return \<^verbatim>\<open>EACCES\<close> or \<^verbatim>\<open>EINVAL\<close> and leave the state as it was, since the engine calls behind them
  do not return.
\<close>

theorem ft_client_calls_only_refuse:
  assumes "c \<in> {Get p, Send p, Dir b}" and "ft_exec ops rxd c g = Some (e, g')"
  shows "e \<in> {EACCES, EINVAL} \<and> g' = g"
  using assms by (auto simp: ft_defs split: if_splits)

subsection \<open>The server thread's runs\<close>

lemma start_server_open:
  assumes "FT_start_server ops rxd True True True g = Some (e, rep, g')"
    and "initialised g" and "ft_mode g = ft_mode_server"
  shows "\<exists>r. rep = Some r" and "initialised g'" and "ft_mode g' = ft_mode_server"
  using assms by (auto simp: FT_start_server_def bind_Some_iff Let_def split: if_splits)

definition served :: "(int \<times> ft_transaction_type_e) list \<Rightarrow> bool" where
  "served outs \<longleftrightarrow> outs \<noteq> [] \<and> (\<forall>(e, t) \<in> set (butlast outs). e = 0 \<and> t \<noteq> ft_type_get)
     \<and> (fst (last outs) \<noteq> 0 \<or> snd (last outs) = ft_type_get)"

lemma served_Cons: "served outs \<Longrightarrow> t \<noteq> ft_type_get \<Longrightarrow> served ((0, t) # outs)"
  by (auto simp: served_def)

lemma served_single: "e \<noteq> 0 \<or> t = ft_type_get \<Longrightarrow> served [(e, t)]"
  by (auto simp: served_def)

lemma ft_loop_served:
  assumes "ft_loop ops rxd ty flag g = Some out"
    and "initialised g" and "ft_mode g = ft_mode_server" and "\<not> flag"
  shows "served (fst out) \<and> initialised (snd out)"
  using assms
proof (induction ops rxd ty flag g out rule: ft_loop.raw_induct [rotated, consumes 1])
  case (1 ft_loop ops rxd ty flag g out)
  obtain e rep g' where st: "FT_start_server ops rxd True True True g = Some (e, rep, g')"
    using 1(2) by (auto simp: bind_Some_iff)
  from start_server_open [OF st 1(3,4)] obtain r where r: "rep = Some r"
    and opn: "initialised g'" "ft_mode g' = ft_mode_server" by auto
  show ?case
  proof (cases "e \<noteq> 0 \<or> rep_type r = ft_type_get")
    case True
    then show ?thesis using 1(2,5) st r opn by (auto simp: Let_def served_single)
  next
    case False
    then obtain outs g'' where rec: "ft_loop ops rxd (Some (rep_type r)) False g' = Some (outs, g'')"
      and out: "out = ((e, rep_type r) # outs, g'')"
      using 1(2,5) st r by (auto simp: Let_def bind_Some_iff)
    show ?thesis
      using 1(1) [OF rec opn] False served_Cons out by simp
  qed
qed

text \<open>
  The server thread. If \<^verbatim>\<open>ft_task\<close> is started on a closed library and ends, then every
  transaction it reported but the last succeeded and was not a GET, the last one failed or was a
  GET, and the library has been closed again without an error.
\<close>

theorem ft_task_served:
  assumes "ft_task ops rxd True g = Some (outs, err_code, g')" and "\<not> initialised g"
  shows "served outs \<and> err_code = FT_SUCCESS \<and> \<not> initialised g'"
proof -
  obtain e g1 g2 where init: "FT_init ops ft_mode_server (lit ''img/'') True g = Some (e, g1)"
    and loop: "ft_loop ops rxd None False g1 = Some (outs, g2)"
    and deinit: "FT_deinit g2 = (err_code, g')"
    using assms(1) by (auto simp: ft_task_def bind_Some_iff split: prod.splits)
  have "initialised g1 \<and> ft_mode g1 = ft_mode_server"
    using init assms(2) by (auto simp: FT_init_def lit_def bind_Some_iff)
  then have "served outs \<and> initialised g2"
    using ft_loop_served [OF loop] by simp
  then show ?thesis
    using deinit by (auto simp: FT_deinit_def EK_deinit_def)
qed

text \<open>
  The thread never reads \<^verbatim>\<open>type\<close> before it is assigned: once the library is open in server mode,
  what the loop does is the same for every initial content of that variable.
\<close>

theorem ft_loop_type_assigned:
  assumes "initialised g" and "ft_mode g = ft_mode_server"
  shows "ft_loop ops rxd ty flag g = ft_loop ops rxd ty' flag g"
proof (cases "FT_start_server ops rxd True True True g")
  case None
  then show ?thesis
    by (simp add: ft_loop.simps [of ops rxd ty flag g] ft_loop.simps [of ops rxd ty' flag g])
next
  case (Some x)
  obtain e rep g' where st: "FT_start_server ops rxd True True True g = Some (e, rep, g')"
    using Some by (cases x) auto
  from start_server_open [OF this assms] obtain r where "rep = Some r" by auto
  then show ?thesis
    by (simp add: st ft_loop.simps [of ops rxd ty flag g] ft_loop.simps [of ops rxd ty' flag g])
qed

end
