(* ===== verification/Fifo.thy ===== *)
theory Fifo
  imports Prelude
begin

text \<open>
  The byte FIFO between the Bluetooth callbacks and the Kermit engine:
  \<^verbatim>\<open>src/fifo.c\<close> and \<^verbatim>\<open>inc/fifo.h\<close>. The buffer the caller passes to \<^verbatim>\<open>fifo_init\<close> is the
  list \<^verbatim>\<open>p_buff\<close>; positions and sizes are 32-bit words. The unused array
  \<^verbatim>\<open>fifo[MLDP_RX_BUFF_SIZE]\<close> of the struct only matters through its \<^verbatim>\<open>sizeof\<close>.
\<close>

subsection \<open>Return codes and the structure\<close>

definition FIFO_ERR :: int where "FIFO_ERR = -1"
definition FIFO_SUCCESS :: int where "FIFO_SUCCESS = 0"
definition FIFO_EMPTY :: int where "FIFO_EMPTY = -2"
definition FIFO_FULL :: int where "FIFO_FULL = -3"
definition FIFO_NOT_ENOUGH_BIG :: int where "FIFO_NOT_ENOUGH_BIG = -4"
definition MLDP_RX_BUFF_SIZE :: nat where "MLDP_RX_BUFF_SIZE = 4096"

lemmas fifo_codes = FIFO_ERR_def FIFO_SUCCESS_def FIFO_EMPTY_def FIFO_FULL_def
  FIFO_NOT_ENOUGH_BIG_def

record fifo =
  p_buff :: "byte list"
  buff_size :: u32
  read_pos :: u32
  write_pos :: u32

subsection \<open>Operations\<close>

definition fifo_init :: "fifo \<Rightarrow> byte list option \<Rightarrow> u16 \<Rightarrow> int \<times> fifo" where
  "fifo_init f buff buf_size =
     (case buff of
        None \<Rightarrow> (FIFO_ERR, f)
      | Some b \<Rightarrow>
          (FIFO_SUCCESS,
           f\<lparr>p_buff := b, read_pos := 0, write_pos := 0,
             buff_size := word_of_int (uint buf_size - 1)\<rparr>))"

definition fifo_length :: "fifo \<Rightarrow> u32" where
  "fifo_length f = write_pos f - read_pos f"

definition fifo_put :: "fifo \<Rightarrow> byte \<Rightarrow> (int \<times> fifo) option" where
  "fifo_put f byte =
     (if fifo_length f \<le> buff_size f then do {
        b \<leftarrow> lst_set (p_buff f) (unat (write_pos f)) byte;
        Some (FIFO_SUCCESS, f\<lparr>p_buff := b, write_pos := write_pos f + 1\<rparr>)
      } else Some (FIFO_NOT_ENOUGH_BIG, f))"

text \<open>The loop of \<^verbatim>\<open>fifo_shift\<close>, from position \<^term>\<open>readpos\<close> up to \<^term>\<open>len\<close>.\<close>

function fifo_shift_loop :: "u32 \<Rightarrow> u32 \<Rightarrow> byte list \<Rightarrow> byte list option" where
  "fifo_shift_loop len readpos b =
     (if readpos < len then do {
        tmp \<leftarrow> lst_get b (unat (readpos + 1));
        b' \<leftarrow> lst_set b (unat readpos) tmp;
        fifo_shift_loop len (readpos + 1) b'
      } else Some b)"
  by pat_completeness auto
termination
proof (relation "measure (\<lambda>(len, readpos, b). unat len - unat readpos)")
  fix len readpos :: u32 and b tmp b' :: "byte list" and t
  assume "readpos < len"
  then have "unat (readpos + 1) = unat readpos + 1" "unat readpos < unat len"
    by (unat_arith; auto)+
  then show "((len, readpos + 1, b'), (len, readpos, b))
    \<in> measure (\<lambda>(len, readpos, b). unat len - unat readpos)"
    by simp
qed simp

definition fifo_shift :: "fifo \<Rightarrow> fifo option" where
  "fifo_shift f = do {
     b \<leftarrow> fifo_shift_loop (fifo_length f) (read_pos f) (p_buff f);
     Some (f\<lparr>p_buff := b, write_pos := write_pos f - 1\<rparr>)
   }"

text \<open>
  \<^verbatim>\<open>fifo_get\<close> writes the byte through its out-pointer only on success; the returned option
  is that byte.
\<close>

definition fifo_get :: "fifo \<Rightarrow> (int \<times> byte option \<times> fifo) option" where
  "fifo_get f =
     (if fifo_length f \<noteq> 0 then do {
        byte \<leftarrow> lst_get (p_buff f) (unat (read_pos f));
        f' \<leftarrow> fifo_shift f;
        Some (FIFO_SUCCESS, Some byte, f')
      } else Some (FIFO_EMPTY, None, f))"

definition is_fifo_full :: "fifo \<Rightarrow> bool" where
  "is_fifo_full f \<longleftrightarrow> unat (write_pos f) = MLDP_RX_BUFF_SIZE"

definition is_fifo_empty :: "fifo \<Rightarrow> bool" where
  "is_fifo_empty f \<longleftrightarrow> write_pos f = read_pos f"

text \<open>The reading loop: \<^term>\<open>n\<close> calls of \<^verbatim>\<open>fifo_get\<close>, the bytes read in order.\<close>

fun fifo_read_loop :: "nat \<Rightarrow> fifo \<Rightarrow> (byte list \<times> fifo) option" where
  "fifo_read_loop 0 f = Some ([], f)"
| "fifo_read_loop (Suc n) f = do {
     (rc, b, f) \<leftarrow> fifo_get f;
     (bs, f) \<leftarrow> fifo_read_loop n f;
     Some ((case b of None \<Rightarrow> bs | Some x \<Rightarrow> x # bs), f)
   }"

text \<open>
  \<^verbatim>\<open>fifo_read\<close> with a destination array (\<^term>\<open>want = True\<close>) or a null destination, which
  only asks for the size; the result is the return code, \<^verbatim>\<open>*p_size\<close>, the bytes stored and
  the new structure.
\<close>

definition fifo_read :: "fifo \<Rightarrow> bool \<Rightarrow> u32 \<Rightarrow> (int \<times> u32 \<times> byte list \<times> fifo) option" where
  "fifo_read f want psize =
     (let byte_count = fifo_length f;
          read_size = min psize byte_count
      in if \<not> want then Some (FIFO_SUCCESS, byte_count, [], f)
         else do {
           (bs, f) \<leftarrow> fifo_read_loop (unat read_size) f;
           Some (FIFO_SUCCESS, read_size, bs, f)
         })"

fun fifo_write_loop :: "byte list \<Rightarrow> fifo \<Rightarrow> fifo option" where
  "fifo_write_loop [] f = Some f"
| "fifo_write_loop (b # bs) f = do {
     (rc, f) \<leftarrow> fifo_put f b;
     fifo_write_loop bs f
   }"

definition fifo_write :: "fifo \<Rightarrow> byte list option \<Rightarrow> u32 \<Rightarrow> (int \<times> u32 \<times> fifo) option" where
  "fifo_write f src psize =
     (let available_count = buff_size f - fifo_length f + 1;
          write_size = min psize available_count
      in if is_fifo_full f then Some (FIFO_FULL, available_count, f)
         else case src of
           None \<Rightarrow> Some (FIFO_SUCCESS, available_count, f)
         | Some bs \<Rightarrow>
             if length bs < unat write_size then None
             else do {
               f \<leftarrow> fifo_write_loop (take (unat write_size) bs) f;
               Some (FIFO_SUCCESS, write_size, f)
             })"

definition fifo_flush :: "fifo \<Rightarrow> int \<times> fifo" where
  "fifo_flush f = (FIFO_SUCCESS, f\<lparr>write_pos := 0, read_pos := 0\<rparr>)"

subsection \<open>A bounded queue of bytes\<close>

text \<open>
  The contract of the FIFO: what its clients rely on. A queue has contents and a capacity;
  \<open>put\<close> appends while there is room and refuses otherwise; \<open>get\<close> removes the oldest element.
  \<open>slack\<close> is the number of free places \<open>get\<close> needs to run.
\<close>

fun put_all :: "('q \<Rightarrow> 'a \<Rightarrow> (int \<times> 'q) option) \<Rightarrow> 'a list \<Rightarrow> 'q \<Rightarrow> 'q option" where
  "put_all put [] q = Some q"
| "put_all put (x # xs) q = do { (rc, q) \<leftarrow> put q x; put_all put xs q }"

fun get_n :: "('q \<Rightarrow> (int \<times> 'a option \<times> 'q) option) \<Rightarrow> nat \<Rightarrow> 'q \<Rightarrow> ('a list \<times> 'q) option" where
  "get_n get 0 q = Some ([], q)"
| "get_n get (Suc n) q = do {
     (rc, x, q) \<leftarrow> get q;
     (xs, q) \<leftarrow> get_n get n q;
     Some ((case x of None \<Rightarrow> xs | Some y \<Rightarrow> y # xs), q)
   }"

locale bounded_queue =
  fixes inv :: "'q \<Rightarrow> bool"
    and content :: "'q \<Rightarrow> 'a list"
    and capacity :: "'q \<Rightarrow> nat"
    and put :: "'q \<Rightarrow> 'a \<Rightarrow> (int \<times> 'q) option"
    and get :: "'q \<Rightarrow> (int \<times> 'a option \<times> 'q) option"
    and ok :: int and refused :: int and empty :: int
    and slack :: nat
  assumes put_room: "inv q \<Longrightarrow> length (content q) < capacity q \<Longrightarrow>
      \<exists>q'. put q x = Some (ok, q') \<and> inv q' \<and> content q' = content q @ [x]
        \<and> capacity q' = capacity q"
    and put_refused: "inv q \<Longrightarrow> length (content q) = capacity q \<Longrightarrow> put q x = Some (refused, q)"
    and get_first: "inv q \<Longrightarrow> content q = x # xs \<Longrightarrow> length (content q) + slack \<le> capacity q \<Longrightarrow>
      \<exists>q'. get q = Some (ok, Some x, q') \<and> inv q' \<and> content q' = xs
        \<and> capacity q' = capacity q"
    and get_empty: "inv q \<Longrightarrow> content q = [] \<Longrightarrow> get q = Some (empty, None, q)"
begin

lemma put_all_content:
  "inv q \<Longrightarrow> length (content q) + length xs \<le> capacity q \<Longrightarrow>
   \<exists>q'. put_all put xs q = Some q' \<and> inv q' \<and> content q' = content q @ xs
     \<and> capacity q' = capacity q"
proof (induction xs arbitrary: q)
  case Nil
  then show ?case by simp
next
  case (Cons x xs)
  from Cons.prems have "length (content q) < capacity q" by simp
  with Cons.prems put_room obtain q1 where q1: "put q x = Some (ok, q1)" "inv q1"
    "content q1 = content q @ [x]" "capacity q1 = capacity q" by metis
  with Cons.prems have "length (content q1) + length xs \<le> capacity q1" by simp
  from Cons.IH [OF q1(2) this] q1 show ?case by auto
qed

lemma get_n_content:
  "inv q \<Longrightarrow> n \<le> length (content q) \<Longrightarrow> length (content q) + slack \<le> capacity q \<Longrightarrow>
   \<exists>q'. get_n get n q = Some (take n (content q), q') \<and> inv q'
     \<and> content q' = drop n (content q) \<and> capacity q' = capacity q"
proof (induction n arbitrary: q)
  case 0
  then show ?case by simp
next
  case (Suc n)
  then obtain x xs where c: "content q = x # xs" by (cases "content q") auto
  with Suc.prems get_first obtain q1 where q1: "get q = Some (ok, Some x, q1)" "inv q1"
    "content q1 = xs" "capacity q1 = capacity q" by metis
  with Suc.prems c have "n \<le> length (content q1)" "length (content q1) + slack \<le> capacity q1"
    by auto
  from Suc.IH [OF q1(2) this] q1 c show ?case by auto
qed

lemma put_all_get_n:
  assumes "inv q" and "content q = []" and "length xs + slack \<le> capacity q"
  shows "\<exists>q1 q2. put_all put xs q = Some q1 \<and> get_n get (length xs) q1 = Some (xs, q2)
    \<and> inv q2 \<and> content q2 = []"
proof -
  from assms put_all_content [of q xs] obtain q1 where
    q1: "put_all put xs q = Some q1" "inv q1" "content q1 = xs" "capacity q1 = capacity q"
    by auto
  with get_n_content [of q1 "length xs"] assms show ?thesis by auto
qed

end

subsection \<open>The FIFO is a bounded queue\<close>

definition fifo_content :: "fifo \<Rightarrow> byte list" where
  "fifo_content f = take (unat (write_pos f)) (p_buff f)"

definition fifo_inv :: "fifo \<Rightarrow> bool" where
  "fifo_inv f \<longleftrightarrow> read_pos f = 0 \<and> unat (write_pos f) \<le> length (p_buff f)
     \<and> length (p_buff f) = unat (buff_size f) + 1 \<and> length (p_buff f) \<le> MLDP_RX_BUFF_SIZE"

abbreviation fifo_capacity :: "fifo \<Rightarrow> nat" where
  "fifo_capacity f \<equiv> length (p_buff f)"

lemma fifo_invD:
  assumes "fifo_inv f"
  shows "read_pos f = 0" "fifo_length f = write_pos f" "unat (write_pos f) \<le> length (p_buff f)"
    "length (p_buff f) = unat (buff_size f) + 1" "length (p_buff f) \<le> 4096"
    "length (fifo_content f) = unat (write_pos f)"
  using assms by (auto simp: fifo_inv_def fifo_length_def MLDP_RX_BUFF_SIZE_def fifo_content_def)

lemma unat_Suc_word: "unat (w :: u32) < 4096 \<Longrightarrow> unat (w + 1) = unat w + 1"
  by (unat_arith; auto)

lemma unat_pred_word: "w \<noteq> (0 :: u32) \<Longrightarrow> unat (w - 1) = unat w - 1"
  by (unat_arith; auto)

lemma fifo_put_room:
  assumes inv: "fifo_inv f" and room: "length (fifo_content f) < fifo_capacity f"
  shows "\<exists>f'. fifo_put f b = Some (FIFO_SUCCESS, f') \<and> fifo_inv f'
    \<and> fifo_content f' = fifo_content f @ [b] \<and> fifo_capacity f' = fifo_capacity f"
proof -
  note d = fifo_invD [OF inv]
  have w: "unat (write_pos f) < length (p_buff f)" using room d by simp
  then have le: "fifo_length f \<le> buff_size f" using d by (simp add: word_le_nat_alt)
  have suc: "unat (write_pos f + 1) = unat (write_pos f) + 1"
    using w d by (intro unat_Suc_word) simp
  show ?thesis
    using w le suc inv
    by (auto simp: fifo_put_def cmem fifo_inv_def fifo_content_def take_Suc_conv_app_nth)
qed

lemma fifo_put_refused:
  assumes inv: "fifo_inv f" and "length (fifo_content f) = fifo_capacity f"
  shows "fifo_put f b = Some (FIFO_NOT_ENOUGH_BIG, f)"
  using assms fifo_invD [OF inv] by (simp add: fifo_put_def word_le_nat_alt)

declare fifo_shift_loop.simps [simp del]

lemma fifo_shift_loop_spec:
  "r \<le> len \<Longrightarrow> unat len < length b \<Longrightarrow> length b \<le> 4096 \<Longrightarrow>
   fifo_shift_loop len r b =
     Some (take (unat r) b @ take (unat len - unat r) (drop (unat r + 1) b) @ drop (unat len) b)"
proof (induction len r b rule: fifo_shift_loop.induct)
  case (1 len r b)
  show ?case
  proof (cases "r < len")
    case True
    then have lt: "unat r < unat len" by (simp add: word_less_nat_alt)
    with "1.prems" have suc: "unat (r + 1) = unat r + 1" by (intro unat_Suc_word) simp
    with lt have le: "r + 1 \<le> len" by (simp add: word_le_nat_alt)
    have i1: "unat r + 1 < length b" using lt "1.prems" by simp
    let ?b = "b[unat r := b ! (unat r + 1)]"
    have g: "lst_get b (unat (r + 1)) = Some (b ! (unat r + 1))"
      using i1 suc by (simp add: cmem)
    have u: "lst_set b (unat r) (b ! (unat r + 1)) = Some ?b"
      using i1 by (simp add: cmem)
    have "fifo_shift_loop len (r + 1) ?b =
      Some (take (unat r + 1) ?b @ take (unat len - (unat r + 1)) (drop (unat r + 2) ?b)
        @ drop (unat len) ?b)"
      using "1.IH" [OF True g u le] "1.prems" suc by simp
    also have "take (unat r + 1) ?b = take (unat r) b @ [b ! (unat r + 1)]"
      using i1 by (simp add: take_Suc_conv_app_nth)
    also have "drop (unat r + 2) ?b = drop (unat r + 2) b" by simp
    also have "drop (unat len) ?b = drop (unat len) b" using lt by simp
    also have "(take (unat r) b @ [b ! (unat r + 1)])
        @ take (unat len - (unat r + 1)) (drop (unat r + 2) b) @ drop (unat len) b
      = take (unat r) b @ take (unat len - unat r) (drop (unat r + 1) b) @ drop (unat len) b"
    proof -
      have "drop (unat r + 1) b = b ! (unat r + 1) # drop (unat r + 2) b"
        using i1 by (simp add: Cons_nth_drop_Suc)
      moreover have "unat len - unat r = Suc (unat len - (unat r + 1))" using lt by simp
      ultimately show ?thesis by simp
    qed
    finally show ?thesis using True g u by (simp add: fifo_shift_loop.simps [of len r b])
  next
    case False
    with "1.prems" have "r = len" by simp
    then show ?thesis by (simp add: fifo_shift_loop.simps [of len len b])
  qed
qed

lemma fifo_get_first:
  assumes inv: "fifo_inv f" and c: "fifo_content f = x # xs"
    and room: "length (fifo_content f) + 1 \<le> fifo_capacity f"
  shows "\<exists>f'. fifo_get f = Some (FIFO_SUCCESS, Some x, f') \<and> fifo_inv f' \<and> fifo_content f' = xs
    \<and> fifo_capacity f' = fifo_capacity f"
proof -
  note d = fifo_invD [OF inv]
  let ?n = "unat (write_pos f)" and ?b = "p_buff f"
  have n: "?n < length ?b" using room d by simp
  have n0: "0 < ?n" using c d by (cases ?n) auto
  then have ne: "write_pos f \<noteq> 0" by auto
  let ?b' = "take ?n (drop 1 ?b) @ drop ?n ?b"
  have loop: "fifo_shift_loop (write_pos f) 0 ?b = Some ?b'"
    using fifo_shift_loop_spec [of 0 "write_pos f" ?b] n d by simp
  have x: "?b ! 0 = x"
    using c n n0 by (auto simp: fifo_content_def nth_append dest: arg_cong [where f = "\<lambda>l. l ! 0"])
  have pred: "unat (write_pos f - 1) = ?n - 1" using ne by (rule unat_pred_word)
  have xs: "take (?n - 1) ?b' = xs"
  proof -
    have "take (?n - 1) ?b' = take (?n - 1) (drop 1 ?b)" using n n0 by simp
    also have "\<dots> = drop 1 (take ?n ?b)" using n0 by (simp add: drop_take)
    finally show ?thesis using c by (simp add: fifo_content_def)
  qed
  have len: "length ?b' = length ?b" using n by simp
  show ?thesis
    using loop x xs len pred n ne d inv
    by (auto simp: fifo_get_def fifo_shift_def cmem fifo_content_def fifo_inv_def)
qed

lemma fifo_get_empty:
  assumes "fifo_inv f" and "fifo_content f = []"
  shows "fifo_get f = Some (FIFO_EMPTY, None, f)"
  using assms fifo_invD [OF assms(1)] by (simp add: fifo_get_def unat_eq_0)

interpretation byte_fifo: bounded_queue fifo_inv fifo_content fifo_capacity fifo_put fifo_get
  FIFO_SUCCESS FIFO_NOT_ENOUGH_BIG FIFO_EMPTY 1
  by unfold_locales
    (simp_all add: fifo_put_room fifo_put_refused fifo_get_first fifo_get_empty)

lemma fifo_write_loop_put_all: "fifo_write_loop bs = put_all fifo_put bs"
  by (induction bs) (rule ext, simp)+

lemma fifo_read_loop_get_n: "fifo_read_loop n f = get_n fifo_get n f"
  by (induction n arbitrary: f) simp_all

lemma fifo_available:
  assumes "fifo_inv f"
  shows "unat (buff_size f - fifo_length f + 1) = fifo_capacity f - length (fifo_content f)"
proof -
  note d = fifo_invD [OF assms]
  let ?a = "buff_size f - write_pos f + 1"
  have "?a = word_of_nat (fifo_capacity f) - word_of_nat (unat (write_pos f))"
    using d(4) by simp
  also have "\<dots> = word_of_nat (fifo_capacity f - unat (write_pos f))"
    using d(3) by (simp only: of_nat_diff)
  finally have "unat ?a = (fifo_capacity f - unat (write_pos f)) mod 2 ^ 32"
    by (simp add: unat_of_nat)
  also have "\<dots> = fifo_capacity f - unat (write_pos f)"
    using d(5) by (intro mod_less) simp
  finally show ?thesis using d by simp
qed

text \<open>A write that fits and a read of available bytes, as the clients of the FIFO use them.\<close>

lemma fifo_write_fits:
  assumes inv: "fifo_inv f" and fit: "length (fifo_content f) + length bs < fifo_capacity f" and n: "unat n = length bs"
  shows "\<exists>f'. fifo_write f (Some bs) n = Some (FIFO_SUCCESS, n, f') \<and> fifo_inv f'
    \<and> fifo_content f' = fifo_content f @ bs \<and> fifo_capacity f' = fifo_capacity f"
proof -
  note d = fifo_invD [OF inv]
  have nf: "\<not> is_fifo_full f" using d fit by (simp add: is_fifo_full_def MLDP_RX_BUFF_SIZE_def)
  have w: "min n (buff_size f - fifo_length f + 1) = n"
    using fifo_available [OF inv] fit n by (auto simp: min_def word_le_nat_alt)
  obtain f1 where "put_all fifo_put bs f = Some f1" "fifo_inv f1" "fifo_content f1 = fifo_content f @ bs"
    "fifo_capacity f1 = fifo_capacity f"
    using byte_fifo.put_all_content [OF inv, of bs] fit by auto
  then show ?thesis
    using n nf w by (simp add: fifo_write_def Let_def fifo_write_loop_put_all)
qed

lemma fifo_read_prefix:
  assumes inv: "fifo_inv f" and room: "length (fifo_content f) < fifo_capacity f" and n: "unat n \<le> length (fifo_content f)"
  shows "\<exists>f'. fifo_read f True n = Some (FIFO_SUCCESS, n, take (unat n) (fifo_content f), f') \<and> fifo_inv f'
    \<and> fifo_content f' = drop (unat n) (fifo_content f) \<and> fifo_capacity f' = fifo_capacity f"
proof -
  obtain f' where "get_n fifo_get (unat n) f = Some (take (unat n) (fifo_content f), f')" "fifo_inv f'"
    "fifo_content f' = drop (unat n) (fifo_content f)" "fifo_capacity f' = fifo_capacity f"
    using byte_fifo.get_n_content [OF inv n] room by auto
  moreover have "min n (fifo_length f) = n"
    using n fifo_invD [OF inv] by (simp add: min_def word_le_nat_alt)
  ultimately show ?thesis
    by (simp add: fifo_read_def Let_def fifo_read_loop_get_n)
qed

lemma fifo_empty_iff: "fifo_inv f \<Longrightarrow> is_fifo_empty f \<longleftrightarrow> fifo_content f = []"
  using fifo_invD [of f] by (auto simp: is_fifo_empty_def unat_eq_0 simp flip: length_0_conv)

subsection \<open>Properties\<close>

text \<open>
  C11. Writing into a well-formed FIFO that is not full succeeds, reports the number of bytes
  taken, which is the smaller of the request and the free room, and appends exactly that prefix
  of the source to the contents; the structure stays well-formed.
\<close>

theorem fifo_write_appends:
  assumes inv: "fifo_inv f" and nf: "\<not> is_fifo_full f" and src: "unat psize \<le> length bs"
  shows "\<exists>w f'. fifo_write f (Some bs) psize = Some (FIFO_SUCCESS, w, f') \<and> fifo_inv f'
    \<and> unat w = min (unat psize) (fifo_capacity f - length (fifo_content f))
    \<and> fifo_content f' = fifo_content f @ take (unat w) bs"
proof -
  let ?w = "min psize (buff_size f - fifo_length f + 1)"
  have w: "unat ?w = min (unat psize) (fifo_capacity f - length (fifo_content f))"
    using fifo_available [OF inv] by (simp add: min_def word_le_nat_alt)
  let ?bs = "take (unat ?w) bs"
  have fit: "length (fifo_content f) + length ?bs \<le> fifo_capacity f"
    using w fifo_invD [OF inv] by auto
  obtain f' where "put_all fifo_put ?bs f = Some f'" "fifo_inv f'"
    "fifo_content f' = fifo_content f @ ?bs"
    using byte_fifo.put_all_content [OF inv fit] by blast
  moreover have "\<not> length bs < unat ?w" using w src by simp
  ultimately show ?thesis
    using nf w by (simp add: fifo_write_def Let_def fifo_write_loop_put_all)
qed

theorem fifo_write_appends_witness:
  "\<exists>w f'. fifo_write \<lparr>p_buff = [0, 0, 0], buff_size = 2, read_pos = 0, write_pos = 2\<rparr>
      (Some [7, 8]) 2 = Some (FIFO_SUCCESS, w, f') \<and> fifo_inv f' \<and> unat w = 1
    \<and> fifo_content f' = [0, 0, 7]"
  using fifo_write_appends [of "\<lparr>p_buff = [0, 0, 0], buff_size = 2, read_pos = 0, write_pos = 2\<rparr>"
      2 "[7, 8]"]
  by (fastforce simp: fifo_inv_def is_fifo_full_def fifo_content_def MLDP_RX_BUFF_SIZE_def)

text \<open>
  First in, first out: bytes written into an empty well-formed FIFO with at least one place
  to spare are read back by \<^verbatim>\<open>fifo_read\<close> in the same order, all of them, and leave it empty.
\<close>

theorem fifo_roundtrip:
  assumes inv: "fifo_inv f" and empty: "fifo_content f = []"
    and fit: "length bs < fifo_capacity f" and n: "unat n = length bs"
  shows "\<exists>f1 f2. fifo_write f (Some bs) n = Some (FIFO_SUCCESS, n, f1)
    \<and> fifo_read f1 True n = Some (FIFO_SUCCESS, n, bs, f2) \<and> fifo_inv f2 \<and> is_fifo_empty f2"
proof -
  obtain f1 where f1: "fifo_write f (Some bs) n = Some (FIFO_SUCCESS, n, f1)" "fifo_inv f1"
    "fifo_content f1 = bs" "fifo_capacity f1 = fifo_capacity f"
    using fifo_write_fits [OF inv _ n] fit empty by auto
  obtain f2 where "fifo_read f1 True n = Some (FIFO_SUCCESS, n, bs, f2)" "fifo_inv f2" "fifo_content f2 = []"
    using fifo_read_prefix [OF f1(2), of n] f1 fit n by auto
  with f1(1) fifo_empty_iff show ?thesis by blast
qed

theorem fifo_roundtrip_witness:
  "\<exists>f1 f2. fifo_write \<lparr>p_buff = [0, 0, 0], buff_size = 2, read_pos = 0, write_pos = 0\<rparr>
      (Some [7, 8]) 2 = Some (FIFO_SUCCESS, 2, f1)
    \<and> fifo_read f1 True 2 = Some (FIFO_SUCCESS, 2, [7, 8], f2) \<and> fifo_inv f2 \<and> is_fifo_empty f2"
  using fifo_roundtrip [of "\<lparr>p_buff = [0, 0, 0], buff_size = 2, read_pos = 0, write_pos = 0\<rparr>"
      "[7, 8]" 2]
  by (simp add: fifo_inv_def fifo_content_def MLDP_RX_BUFF_SIZE_def)

text \<open>
  A completely full FIFO cannot be read safely: \<^verbatim>\<open>fifo_get\<close> then makes \<^verbatim>\<open>fifo_shift\<close> read
  one element past the end of the buffer.
\<close>

lemma fifo_shift_loop_overread:
  "r < len \<Longrightarrow> unat len = length b \<Longrightarrow> length b \<le> 4096 \<Longrightarrow> fifo_shift_loop len r b = None"
proof (induction len r b rule: fifo_shift_loop.induct)
  case (1 len r b)
  then have lt: "unat r < unat len" by (simp add: word_less_nat_alt)
  with "1.prems" have suc: "unat (r + 1) = unat r + 1" by (intro unat_Suc_word) simp
  show ?case
  proof (cases "unat r + 1 < unat len")
    case True
    with suc have lt': "r + 1 < len" by (simp add: word_less_nat_alt)
    have g: "lst_get b (unat (r + 1)) = Some (b ! (unat r + 1))"
      using True suc "1.prems" by (simp add: cmem)
    have u: "lst_set b (unat r) (b ! (unat r + 1)) = Some (b[unat r := b ! (unat r + 1)])"
      using lt "1.prems" by (simp add: cmem)
    show ?thesis
      using "1.IH" [OF "1.prems"(1) g u lt'] "1.prems" g u
      by (simp add: fifo_shift_loop.simps [of len r b])
  next
    case False
    then have "lst_get b (unat (r + 1)) = None" using suc "1.prems" by (simp add: cmem)
    then show ?thesis using "1.prems"(1) by (simp add: fifo_shift_loop.simps [of len r b])
  qed
qed

theorem fifo_get_full_overread:
  assumes inv: "fifo_inv f" and full: "length (fifo_content f) = fifo_capacity f"
  shows "fifo_get f = None"
proof -
  note d = fifo_invD [OF inv]
  have n: "unat (write_pos f) = length (p_buff f)" using full d by simp
  then have pos: "0 < write_pos f" using d(4) by (simp add: word_less_nat_alt)
  have "fifo_shift_loop (write_pos f) 0 (p_buff f) = None"
    using fifo_shift_loop_overread [OF pos n] d(5) by simp
  then show ?thesis using d pos by (auto simp: fifo_get_def fifo_shift_def bind_eq_None_conv)
qed

theorem fifo_get_full_overread_witness:
  "fifo_get \<lparr>p_buff = [5, 6], buff_size = 1, read_pos = 0, write_pos = 2\<rparr> = None"
  using fifo_get_full_overread [of "\<lparr>p_buff = [5, 6], buff_size = 1, read_pos = 0, write_pos = 2\<rparr>"]
  by (simp add: fifo_inv_def fifo_content_def MLDP_RX_BUFF_SIZE_def)

end
