(* ===== verification/Kermit_Link.thy ===== *)
theory Kermit_Link
  imports Unixio "HOL-Library.Sublist"
begin

text \<open>
  Reading a packet from the link: \<^verbatim>\<open>kreadpkt\<close> of \<^verbatim>\<open>unixio_rpi.c\<close> over any link that hands out its
  bytes in order. The contract of a link is a locale; the Bluetooth link of \<^verbatim>\<open>main.c\<close> is its
  instance.
\<close>

text \<open>The state after the device has moved on.\<close>

definition moved :: "'d \<Rightarrow> 'd ust \<Rightarrow> 'd ust" where
  "moved d s = s\<lparr>wd := (wd s)\<lparr>u_dev := d\<rparr>\<rparr>"

lemma moved_simps [simp]:
  "mem (moved d s) = mem s" "k_parity (moved d s) = k_parity s" "k_r_soh (moved d s) = k_r_soh s"
  "k_r_eom (moved d s) = k_r_eom s" "k_r_maxlen (moved d s) = k_r_maxlen s" "u_dev (wd (moved d s)) = d"
  "u_cmd_slack (wd (moved d s)) = u_cmd_slack (wd s)" "moved d' (moved d s) = moved d' s"
  by (simp_all add: moved_def)

text \<open>Reading \<^term>\<open>k\<close> bytes in all writes behind \<^verbatim>\<open>cmd\<close>, where there is no padding.\<close>

definition overrun :: "nat \<Rightarrow> 'd ust \<Rightarrow> bool" where
  "overrun k s \<longleftrightarrow> 5 < k \<and> \<not> u_cmd_slack (wd s)"

abbreviation "ABORT \<equiv> bytes_of_string ''CMD'' @ [13, 10 :: byte]"

text \<open>The first bytes received can no longer become the abort command.\<close>

definition harmless :: "byte list \<Rightarrow> bool" where
  "harmless cmd \<longleftrightarrow> length cmd = 5 \<or> \<not> prefix cmd ABORT"

lemma length_ABORT [simp]: "length ABORT = 5"
  by simp

lemma harmless_turn:
  assumes "length cmd \<le> 5" and "harmless cmd"
  shows "\<not> (length cmd \<noteq> 5 \<and> take 5 (cmd @ [b]) = ABORT)" and "harmless (take 5 (cmd @ [b]))"
proof -
  have np: "\<not> prefix (cmd @ [b]) ABORT" if "length cmd \<noteq> 5"
    using that assms(2) append_prefixD [of cmd "[b]" ABORT] unfolding harmless_def by blast
  have tk: "take 5 (cmd @ [b]) = cmd @ [b]" if "length cmd \<noteq> 5"
    using that assms(1) by simp
  show "\<not> (length cmd \<noteq> 5 \<and> take 5 (cmd @ [b]) = ABORT)"
    using np tk by (metis prefix_order.refl)
  show "harmless (take 5 (cmd @ [b]))"
  proof (cases "length cmd = 5")
    case True
    then show ?thesis by (simp add: harmless_def)
  next
    case False
    then show ?thesis using np tk unfolding harmless_def by metis
  qed
qed

text \<open>The state after bytes were stored in the packet buffer.\<close>

definition stored :: "nat \<Rightarrow> byte list \<Rightarrow> 'w kst \<Rightarrow> 'w kst" where
  "stored n bs s = s\<lparr>mem := (mem s)(IPKTBUF := splice (mem s IPKTBUF) n bs)\<rparr>"

lemma splice_single: "splice f n [b] = f(n := b)"
  by (auto simp: splice_def)

lemma splice_splice: "splice (splice f n xs) (n + length xs) ys = splice f n (xs @ ys)"
  by (rule ext) (auto simp: splice_def nth_append)

lemma stored_simps [simp]:
  "wd (stored n bs s) = wd s" "k_parity (stored n bs s) = k_parity s" "k_r_soh (stored n bs s) = k_r_soh s"
  "k_r_eom (stored n bs s) = k_r_eom s" "k_r_maxlen (stored n bs s) = k_r_maxlen s"
  by (simp_all add: stored_def)

lemma poke_stored: "n < bufsz IPKTBUF \<Longrightarrow> poke (Ptr IPKTBUF 0) (int n) b s = Some (stored n [b] s)"
  by (simp add: poke_in stored_def splice_single)

lemma take_5_take: "take 5 (take 5 xs @ ys) = take 5 (xs @ ys)"
  by (simp add: min_def)

lemma stored_moved: "moved d (stored n bs s) = stored n bs (moved d s)"
  by (simp add: moved_def stored_def)

lemma stored_stored: "stored (n + length xs) ys (stored n xs s) = stored n (xs @ ys) s"
  by (simp add: stored_def splice_splice)

lemma stored_twice: "stored (Suc n) bs (moved d (stored n [b] (moved d1 s))) = stored n (b # bs) (moved d s)"
  using stored_stored [of n "[b]" bs "moved d s"] by (simp add: stored_moved)

lemma overrun_step:
  assumes "length cmd \<le> 5" and "\<not> (length cmd = 5 \<and> \<not> u_cmd_slack (wd s))" and "u_cmd_slack (wd t) = u_cmd_slack (wd s)"
  shows "overrun (length (take 5 (cmd @ [b])) + k) t = overrun (length cmd + Suc k) s"
  using assms by (cases "length cmd = 5") (auto simp: overrun_def min_def)

subsection \<open>The contract of a link\<close>

text \<open>
  \<open>avail\<close> are the bytes that have arrived; \<open>up\<close> is the state in which the link works. A byte is handed out
  with code 0, an empty link gives code 1; waiting may add bytes behind the ones that are there, and
  adds none when the peer is \<open>quiet\<close>.
\<close>

locale byte_link =
  fixes get_byte :: "'d \<Rightarrow> (int \<times> byte option \<times> 'd) option"
    and wait :: "int \<Rightarrow> 'd \<Rightarrow> 'd option"
    and avail :: "'d \<Rightarrow> byte list"
    and up :: "'d \<Rightarrow> bool"
    and quiet :: "'d \<Rightarrow> bool"
  assumes get_first: "up d \<Longrightarrow> avail d = b # bs \<Longrightarrow>
      \<exists>d'. get_byte d = Some (0, Some b, d') \<and> up d' \<and> avail d' = bs"
    and get_none: "up d \<Longrightarrow> avail d = [] \<Longrightarrow> get_byte d = Some (1, None, d)"
    and wait_more: "up d \<Longrightarrow> \<exists>d' more. wait n d = Some d' \<and> up d' \<and> avail d' = avail d @ more"
    and wait_quiet: "up d \<Longrightarrow> quiet d \<Longrightarrow> wait n d = Some d' \<Longrightarrow> avail d' = avail d \<and> quiet d'"
begin

lemma get_any:
  assumes "up d"
  obtains err b d' where "get_byte d = Some (err, b, d')" "err = 0 \<or> err = 1" "up d'"
  using assms get_first get_none by (cases "avail d") force+

lemma kreadpkt_wait_first:
  assumes "up d" and "avail d = b # bs"
  shows "\<exists>d' more. kreadpkt_wait get_byte wait t ch d = Some (0, t - (if t \<ge> 10 then 10 else 1), b, d')
    \<and> up d' \<and> avail d' = bs @ more"
proof -
  obtain d1 where d1: "get_byte d = Some (0, Some b, d1)" "up d1" "avail d1 = bs"
    using get_first [OF assms] by blast
  obtain d2 more where "wait (if t \<ge> 10 then 10 else 1) d1 = Some d2" "up d2" "avail d2 = avail d1 @ more"
    using wait_more [OF d1(2)] by blast
  with d1 show ?thesis
    by (auto simp: kreadpkt_wait.simps [of get_byte wait t] Let_def)
qed

lemma kreadpkt_wait_ends:
  assumes "0 < t" and "up d"
  shows "\<exists>err t' c d'. kreadpkt_wait get_byte wait t ch d = Some (err, t', c, d') \<and> (err = 0 \<or> err = 1) \<and> up d'"
  using assms
proof (induction "nat t" arbitrary: t ch d rule: less_induct)
  case less
  let ?st = "if t \<ge> 10 then 10 else 1 :: int"
  obtain err b d1 where d1: "get_byte d = Some (err, b, d1)" "err = 0 \<or> err = 1" "up d1"
    using get_any [OF less.prems(2)] .
  obtain d2 where d2: "wait ?st d1 = Some d2" "up d2"
    using wait_more [OF d1(3)] by blast
  show ?case
  proof (cases "err = 1 \<and> t - ?st \<noteq> 0")
    case True
    have "nat (t - ?st) < nat t" "0 < t - ?st" using less.prems(1) True by auto
    from less.hyps [OF this d2(2)] show ?thesis
      using d1 d2 True by (simp add: kreadpkt_wait.simps [of get_byte wait t] Let_def)
  next
    case False
    then show ?thesis
      using d1 d2 by (auto simp: kreadpkt_wait.simps [of get_byte wait t] Let_def)
  qed
qed

lemma kreadpkt_wait_quiet:
  assumes "0 < t" and "up d" and "quiet d" and "avail d = []"
  shows "\<exists>d'. kreadpkt_wait get_byte wait t ch d = Some (1, 0, ch, d') \<and> up d' \<and> quiet d' \<and> avail d' = []"
  using assms
proof (induction "nat t" arbitrary: t d rule: less_induct)
  case less
  let ?st = "if t \<ge> 10 then 10 else 1 :: int"
  have g: "get_byte d = Some (1, None, d)" using get_none less.prems by blast
  obtain d2 where d2: "wait ?st d = Some d2" "up d2"
    using wait_more [OF less.prems(2)] by blast
  have q: "quiet d2" "avail d2 = []"
    using wait_quiet [OF less.prems(2,3) d2(1)] less.prems(4) by auto
  show ?case
  proof (cases "t - ?st = 0")
    case True
    then show ?thesis
      using g d2 q by (simp add: kreadpkt_wait.simps [of get_byte wait t] Let_def)
  next
    case False
    have "nat (t - ?st) < nat t" "0 < t - ?st" using less.prems(1) False by auto
    from less.hyps [OF this d2(2) q] show ?thesis
      using g d2 False by (simp add: kreadpkt_wait.simps [of get_byte wait t] Let_def)
  qed
qed

subsection \<open>One turn of the outer loop\<close>

lemma kreadpkt_loop_turn:
  assumes "up (u_dev (wd s))" and "avail (u_dev (wd s)) = b # bs" and "length cmd \<le> 5"
  obtains d' more where "up d'" and "avail d' = bs @ more" and
    "kreadpkt_loop get_byte wait p cmd flag n ch s =
       (let s = moved d' s; cmd' = take 5 (cmd @ [b]); final = (if k_parity s \<noteq> 0 then b AND 0x7F else b)
        in if length cmd = 5 \<and> \<not> u_cmd_slack (wd s) then None
           else if length cmd \<noteq> 5 \<and> cmd' = bytes_of_string ''CMD'' @ [13, 10] then Some (- K_END, s)
           else if \<not> flag \<and> b2i final \<noteq> k_r_soh s then kreadpkt_loop get_byte wait p cmd' flag n b s
           else if b2i final = k_r_soh s then kreadpkt_loop get_byte wait p cmd' True n b s
           else if b2i final = k_r_eom s then do { s \<leftarrow> poke p n 0 s; Some (n, s) }
           else if n > k_r_maxlen s then Some (n + 1, s)
           else do { s \<leftarrow> poke p n b s; kreadpkt_loop get_byte wait p cmd' flag (n + 1) b s })"
proof -
  let ?t = "k_r_timo s * 1200"
  obtain d' more where w: "kreadpkt_wait get_byte wait ?t ch (u_dev (wd s))
      = Some (0, ?t - (if ?t \<ge> 10 then 10 else 1), b, d')" and u: "up d'" "avail d' = bs @ more"
    using kreadpkt_wait_first [OF assms(1,2)] by blast
  have nz: "?t - (if ?t \<ge> 10 then 10 else 1) \<noteq> 0"
    by (simp split: if_split) presburger
  have cmd': "(if length cmd = 5 then cmd else cmd @ [b]) = take 5 (cmd @ [b])"
    using assms(3) by auto
  have zo: "((0::int) \<noteq> 1 \<and> (0::int) \<noteq> 0) = False" by simp
  show thesis
    by (rule that [OF u])
      (simp only: kreadpkt_loop.simps [of _ _ _ cmd _ _ ch] w Option.bind.bind_lunit prod.case Let_def zo if_False nz moved_def [symmetric] cmd')
qed

text \<open>The sixth byte falls behind \<^verbatim>\<open>cmd\<close>.\<close>

lemma turn_overrun:
  assumes "up (u_dev (wd s))" "avail (u_dev (wd s)) = b # bs" "length cmd = 5" "\<not> u_cmd_slack (wd s)"
  shows "kreadpkt_loop get_byte wait p cmd flag n ch s = None"
  using kreadpkt_loop_turn [OF assms(1,2), of cmd p flag n ch] assms(3,4) by (auto simp: Let_def)

text \<open>The four things a byte does: it is skipped, starts a packet, is stored, or ends the packet.\<close>

lemma turn_skip:
  assumes "up (u_dev (wd s))" "avail (u_dev (wd s)) = b # bs" "length cmd \<le> 5" "\<not> (length cmd = 5 \<and> \<not> u_cmd_slack (wd s))"
    and "length cmd = 5 \<or> take 5 (cmd @ [b]) \<noteq> ABORT" "k_parity s = 0" "b2i b \<noteq> k_r_soh s"
  shows "\<exists>d' more. kreadpkt_loop get_byte wait p cmd False n ch s
      = kreadpkt_loop get_byte wait p (take 5 (cmd @ [b])) False n b (moved d' s) \<and> up d' \<and> avail d' = bs @ more"
  apply (rule kreadpkt_loop_turn [OF assms(1-3), of p False n ch])
  subgoal for d' more using assms(4-7) by (intro exI [of _ d']) (auto simp: Let_def)
  done

lemma turn_start:
  assumes "up (u_dev (wd s))" "avail (u_dev (wd s)) = b # bs" "length cmd \<le> 5" "\<not> (length cmd = 5 \<and> \<not> u_cmd_slack (wd s))"
    and "length cmd = 5 \<or> take 5 (cmd @ [b]) \<noteq> ABORT" "k_parity s = 0" "b2i b = k_r_soh s"
  shows "\<exists>d' more. kreadpkt_loop get_byte wait p cmd flag n ch s
      = kreadpkt_loop get_byte wait p (take 5 (cmd @ [b])) True n b (moved d' s) \<and> up d' \<and> avail d' = bs @ more"
  apply (rule kreadpkt_loop_turn [OF assms(1-3), of p flag n ch])
  subgoal for d' more using assms(4-7) by (intro exI [of _ d']) (auto simp: Let_def)
  done

lemma turn_store:
  assumes "up (u_dev (wd s))" "avail (u_dev (wd s)) = b # bs" "length cmd \<le> 5" "harmless cmd" "\<not> (length cmd = 5 \<and> \<not> u_cmd_slack (wd s))"
    and "k_parity s = 0" "b2i b \<noteq> k_r_soh s" "b2i b \<noteq> k_r_eom s" "int n \<le> k_r_maxlen s" "n < bufsz IPKTBUF"
  shows "\<exists>d' more. kreadpkt_loop get_byte wait (Ptr IPKTBUF 0) cmd True (int n) ch s
      = kreadpkt_loop get_byte wait (Ptr IPKTBUF 0) (take 5 (cmd @ [b])) True (int (Suc n)) b (stored n [b] (moved d' s))
      \<and> up d' \<and> avail d' = bs @ more"
  apply (rule kreadpkt_loop_turn [OF assms(1-3), of "Ptr IPKTBUF 0" True "int n" ch])
  subgoal for d' more
    using assms(5-10) harmless_turn [OF assms(3,4), of b]
    by (intro exI [of _ d']) (auto simp: Let_def poke_stored add.commute)
  done

lemma turn_end:
  assumes "up (u_dev (wd s))" "avail (u_dev (wd s)) = b # bs" "length cmd \<le> 5" "harmless cmd" "\<not> (length cmd = 5 \<and> \<not> u_cmd_slack (wd s))"
    and "k_parity s = 0" "b2i b \<noteq> k_r_soh s" "b2i b = k_r_eom s" "n < bufsz IPKTBUF"
  shows "\<exists>d' more. kreadpkt_loop get_byte wait (Ptr IPKTBUF 0) cmd True (int n) ch s
      = Some (int n, stored n [0] (moved d' s)) \<and> up d' \<and> avail d' = bs @ more"
  apply (rule kreadpkt_loop_turn [OF assms(1-3), of "Ptr IPKTBUF 0" True "int n" ch])
  subgoal for d' more
    using assms(5-9) harmless_turn [OF assms(3,4), of b]
    by (intro exI [of _ d']) (auto simp: Let_def poke_stored)
  done

subsection \<open>A packet between noise and later bytes\<close>

lemma read_body:
  assumes "up (u_dev (wd s))" and "avail (u_dev (wd s)) = body @ e # rest"
    and "k_parity s = 0" and "b2i e = k_r_eom s" and "k_r_eom s \<noteq> k_r_soh s"
    and "\<forall>x\<in>set body. b2i x \<noteq> k_r_soh s \<and> b2i x \<noteq> k_r_eom s"
    and "int (n + length body) \<le> k_r_maxlen s + 1" and "n + length body < bufsz IPKTBUF"
    and "length cmd \<le> 5" and "harmless cmd"
  shows "if overrun (length cmd + Suc (length body)) s then kreadpkt_loop get_byte wait (Ptr IPKTBUF 0) cmd True (int n) ch s = None
    else \<exists>d' more. kreadpkt_loop get_byte wait (Ptr IPKTBUF 0) cmd True (int n) ch s =
      Some (int (n + length body), stored n (body @ [0]) (moved d' s)) \<and> up d' \<and> avail d' = rest @ more"
  using assms
proof (induction body arbitrary: n cmd ch s rest)
  case Nil
  then have av: "avail (u_dev (wd s)) = e # rest" by simp
  have e: "b2i e \<noteq> k_r_soh s" "n < bufsz IPKTBUF" using Nil.prems(4,5,8) by simp_all
  have o: "overrun (length cmd + Suc 0) s \<longleftrightarrow> length cmd = 5 \<and> \<not> u_cmd_slack (wd s)" using Nil.prems(9) by (auto simp: overrun_def)
  show ?case
  proof (cases "length cmd = 5 \<and> \<not> u_cmd_slack (wd s)")
    case True
    then show ?thesis using turn_overrun [OF Nil.prems(1) av] o by simp
  next
    case False
    from turn_end [OF Nil.prems(1) av Nil.prems(9,10) False Nil.prems(3) e(1) Nil.prems(4) e(2), of ch]
    show ?thesis using o False by simp
  qed
next
  case (Cons b body)
  then have av: "avail (u_dev (wd s)) = b # (body @ e # rest)" by simp
  have b: "b2i b \<noteq> k_r_soh s" "b2i b \<noteq> k_r_eom s" "int n \<le> k_r_maxlen s" "n < bufsz IPKTBUF"
    using Cons.prems(6-8) by simp_all
  let ?cmd = "take 5 (cmd @ [b])" and ?loop = "kreadpkt_loop get_byte wait (Ptr IPKTBUF 0)"
  show ?case
  proof (cases "length cmd = 5 \<and> \<not> u_cmd_slack (wd s)")
    case True
    then show ?thesis using turn_overrun [OF Cons.prems(1) av] by (simp add: overrun_def)
  next
    case False
    obtain d1 more1 where step: "?loop cmd True (int n) ch s = ?loop ?cmd True (int (Suc n)) b (stored n [b] (moved d1 s))"
      and d1: "up d1" "avail d1 = (body @ e # rest) @ more1"
      using turn_store [OF Cons.prems(1) av Cons.prems(9,10) False Cons.prems(3) b, of ch] by blast
    let ?s = "stored n [b] (moved d1 s)"
    have o: "overrun (length ?cmd + Suc (length body)) ?s = overrun (length cmd + Suc (length (b # body))) s"
      using overrun_step [OF Cons.prems(9) False, of ?s b "Suc (length body)"] by simp
    have "if overrun (length ?cmd + Suc (length body)) ?s then ?loop ?cmd True (int (Suc n)) b ?s = None
      else \<exists>d' more. ?loop ?cmd True (int (Suc n)) b ?s = Some (int (Suc n + length body), stored (Suc n) (body @ [0]) (moved d' ?s))
        \<and> up d' \<and> avail d' = (rest @ more1) @ more"
      using Cons.prems d1 harmless_turn(2) [OF Cons.prems(9,10)] by (intro Cons.IH) auto
    then show ?thesis unfolding o step stored_twice by (auto split: if_splits)
  qed
qed

lemma read_noise:
  assumes "up (u_dev (wd s))" and "avail (u_dev (wd s)) = noise @ h # rest" and "length cmd \<le> 5"
    and "k_parity s = 0" and "\<forall>x\<in>set noise. b2i x \<noteq> k_r_soh s" and "b2i h = k_r_soh s"
    and "length cmd = 5 \<or> \<not> prefix ABORT (cmd @ noise @ [h])"
  shows "if overrun (length cmd + Suc (length noise)) s then kreadpkt_loop get_byte wait p cmd False n ch s = None
    else \<exists>d' more. kreadpkt_loop get_byte wait p cmd False n ch s
      = kreadpkt_loop get_byte wait p (take 5 (cmd @ noise @ [h])) True n h (moved d' s) \<and> up d' \<and> avail d' = rest @ more"
  using assms
proof (induction noise arbitrary: cmd ch s rest)
  case Nil
  then have nc: "length cmd = 5 \<or> take 5 (cmd @ [h]) \<noteq> ABORT"
    using take_is_prefix [of 5 "cmd @ [h]"] by auto
  have av: "avail (u_dev (wd s)) = h # rest" using Nil.prems(2) by simp
  have o: "overrun (length cmd + Suc 0) s \<longleftrightarrow> length cmd = 5 \<and> \<not> u_cmd_slack (wd s)" using Nil.prems(3) by (auto simp: overrun_def)
  show ?case
  proof (cases "length cmd = 5 \<and> \<not> u_cmd_slack (wd s)")
    case True
    then show ?thesis using turn_overrun [OF Nil.prems(1) av] o by simp
  next
    case False
    from turn_start [OF Nil.prems(1) av Nil.prems(3) False nc Nil.prems(4,6), of p False n ch]
    show ?thesis using o False by simp
  qed
next
  case (Cons b noise)
  have nc: "length cmd = 5 \<or> take 5 (cmd @ [b]) \<noteq> ABORT"
    using Cons.prems(7) take_is_prefix [of 5 "cmd @ [b]"] prefix_prefix [of ABORT "cmd @ [b]" "noise @ [h]"] by force
  have av: "avail (u_dev (wd s)) = b # (noise @ h # rest)" and b: "b2i b \<noteq> k_r_soh s" using Cons.prems(2,5) by simp_all
  let ?cmd = "take 5 (cmd @ [b])" and ?loop = "kreadpkt_loop get_byte wait p"
  show ?case
  proof (cases "length cmd = 5 \<and> \<not> u_cmd_slack (wd s)")
    case True
    then show ?thesis using turn_overrun [OF Cons.prems(1) av] by (simp add: overrun_def)
  next
    case False
    obtain d1 more1 where step: "?loop cmd False n ch s = ?loop ?cmd False n b (moved d1 s)"
      and d1: "up d1" "avail d1 = (noise @ h # rest) @ more1"
      using turn_skip [OF Cons.prems(1) av Cons.prems(3) False nc Cons.prems(4) b, of p n ch] by blast
    have nc': "length ?cmd = 5 \<or> \<not> prefix ABORT (?cmd @ noise @ [h])"
      using Cons.prems(3,7) by (cases "length cmd = 5") simp_all
    have o: "overrun (length ?cmd + Suc (length noise)) (moved d1 s) = overrun (length cmd + Suc (length (b # noise))) s"
      using overrun_step [OF Cons.prems(3) False, of "moved d1 s" b "Suc (length noise)"] by simp
    have c: "take 5 (?cmd @ noise @ [h]) = take 5 (cmd @ (b # noise) @ [h])"
      using take_5_take [of "cmd @ [b]" "noise @ [h]"] by simp
    have "if overrun (length ?cmd + Suc (length noise)) (moved d1 s) then ?loop ?cmd False n b (moved d1 s) = None
      else \<exists>d' more. ?loop ?cmd False n b (moved d1 s) = ?loop (take 5 (?cmd @ noise @ [h])) True n h (moved d' (moved d1 s))
        \<and> up d' \<and> avail d' = (rest @ more1) @ more"
      using Cons.prems d1 nc' by (intro Cons.IH) simp_all
    then show ?thesis unfolding o c step by (auto split: if_splits)
  qed
qed

lemma read_packet:
  assumes "up (u_dev (wd s))" and "avail (u_dev (wd s)) = noise @ h # body @ e # rest" and "k_parity s = 0"
    and "\<forall>x\<in>set noise. b2i x \<noteq> k_r_soh s" and "\<not> prefix ABORT noise"
    and "b2i h = k_r_soh s" and "h \<notin> set ABORT" and "b2i e = k_r_eom s" and "k_r_eom s \<noteq> k_r_soh s"
    and "\<forall>x\<in>set body. b2i x \<noteq> k_r_soh s \<and> b2i x \<noteq> k_r_eom s"
    and "int (length body) \<le> k_r_maxlen s + 1" and "length body < bufsz IPKTBUF"
  shows "if overrun (length noise + length body + 2) s then kreadpkt_loop get_byte wait (Ptr IPKTBUF 0) [] False 0 0 s = None
    else \<exists>d' more. kreadpkt_loop get_byte wait (Ptr IPKTBUF 0) [] False 0 0 s =
      Some (int (length body), stored 0 (body @ [0]) (moved d' s)) \<and> up d' \<and> avail d' = rest @ more"
proof -
  let ?cmd = "take 5 (noise @ [h])" and ?loop = "kreadpkt_loop get_byte wait (Ptr IPKTBUF 0)"
  have na: "\<not> prefix ABORT (noise @ [h])"
    using assms(5,7) prefix_snoc [of ABORT noise h] by (metis in_set_conv_decomp)
  have first: "if overrun (Suc (length noise)) s then ?loop [] False 0 0 s = None
    else \<exists>d' more. ?loop [] False 0 0 s = ?loop ?cmd True 0 h (moved d' s) \<and> up d' \<and> avail d' = (body @ e # rest) @ more"
  proof -
    have l: "length ([] :: byte list) \<le> 5" and p: "length ([] :: byte list) = 5 \<or> \<not> prefix ABORT ([] @ noise @ [h])" using na by simp_all
    from read_noise [OF assms(1,2) l assms(3,4,6) p, of "Ptr IPKTBUF 0" 0 0] show ?thesis by (simp only: append_Nil list.size(3) add_0)
  qed
  show ?thesis
  proof (cases "overrun (Suc (length noise)) s")
    case True
    then show ?thesis using first by (simp add: overrun_def)
  next
    case False
    then obtain d1 more1 where step: "?loop [] False 0 0 s = ?loop ?cmd True 0 h (moved d1 s)"
      and d1: "up d1" "avail d1 = (body @ e # rest) @ more1" using first by auto
    have harm: "harmless ?cmd"
    proof (cases "length ?cmd = 5")
      case False
      then have "?cmd = noise @ [h]" by auto
      then have "h \<in> set ?cmd" by simp
      then show ?thesis using assms(7) set_mono_prefix [of ?cmd ABORT] unfolding harmless_def by blast
    qed (simp only: harmless_def simp_thms)
    have o: "overrun (length ?cmd + Suc (length body)) (moved d1 s) = overrun (length noise + length body + 2) s"
      using False by (auto simp: overrun_def min_def)
    have "if overrun (length ?cmd + Suc (length body)) (moved d1 s) then ?loop ?cmd True (int 0) h (moved d1 s) = None
      else \<exists>d' more. ?loop ?cmd True (int 0) h (moved d1 s) = Some (int (0 + length body), stored 0 (body @ [0]) (moved d' (moved d1 s)))
        \<and> up d' \<and> avail d' = (rest @ more1) @ more"
      using assms d1 harm by (intro read_body) simp_all
    then show ?thesis unfolding o step by (auto split: if_splits)
  qed
qed

lemma read_quiet:
  assumes "up (u_dev (wd s))" and "quiet (u_dev (wd s))" and "avail (u_dev (wd s)) = []" and "0 < k_r_timo s"
  shows "\<exists>d'. kreadpkt_loop get_byte wait p cmd flag n ch s = Some (0, s\<lparr>wd := (wd s)\<lparr>u_dev := d'\<rparr>\<rparr>)
    \<and> up d' \<and> quiet d' \<and> avail d' = []"
proof -
  obtain d' where "kreadpkt_wait get_byte wait (k_r_timo s * 1200) ch (u_dev (wd s)) = Some (1, 0, ch, d')"
    and "up d'" "quiet d'" "avail d' = []"
    using kreadpkt_wait_quiet [OF _ assms(1-3), of "k_r_timo s * 1200" ch] assms(4) by auto
  then show ?thesis
    by (auto simp: kreadpkt_loop.simps [of get_byte wait p] Let_def)
qed

end

end
