(* ===== verification/Ble_Link.thy ===== *)
theory Ble_Link
  imports Fifo Kermit_Link
begin

text \<open>
  The part of \<^verbatim>\<open>main.c\<close> that connects the Kermit engine with Bluetooth: the two byte FIFOs of
  \<^verbatim>\<open>struct gatt_central\<close>, the callback that stores what the remote device writes, and the three functions
  \<^verbatim>\<open>start_file_transfer\<close> hands to the engine. The GATT client behind
  \<^verbatim>\<open>bt_gatt_client_write_without_response\<close> is a parameter \<open>gatt_write\<close> on a state \<open>'g\<close>.

  The callback runs in the main thread while the engine's thread waits; \<open>incoming\<close> is the sequence of
  writes the remote device is going to make, and each wait of the engine's thread lets at most one of
  them happen.
\<close>

subsection \<open>State\<close>

datatype ble_connection_step = BLE_NONE | BLE_SCANNING | BLE_SLATE_FOUND | BLE_SOCKET_OPEN | BLE_CONNECTED
  | BLE_SPS_DISCOVERING | BLE_ALL_SERVICE_DISCOVERY_COMPLETE | BLE_WAIT_MLDP_DATA | BLE_FILE_TRANSFER

abbreviation "EXIT_SUCCESS \<equiv> (0::int)"
abbreviation "EXIT_FAILURE \<equiv> (1::int)"
abbreviation "BLE_MLDP_MAX_DATA_LEN \<equiv> (20::u32)"
abbreviation "BT_ATT_ERROR_INVALID_OFFSET \<equiv> (7::byte)"

record 'g central =
  mldp_fifo_rx :: fifo
  mldp_fifo_tx :: fifo
  ble_con_step :: ble_connection_step
  gatt :: 'g
  ft_threads :: nat
  incoming :: "byte list list"

subsection \<open>Sending\<close>

definition mldp_fifos_init :: "'g central \<Rightarrow> int \<times> 'g central" where
  "mldp_fifos_init c =
     (let (err_rx, rx) = fifo_init (mldp_fifo_rx c) (Some (replicate 4096 0)) 4096;
          (err_tx, tx) = fifo_init (mldp_fifo_tx c) (Some (replicate 4096 0)) 4096
      in (if err_rx \<noteq> 0 \<or> err_tx \<noteq> 0 then EXIT_FAILURE else EXIT_SUCCESS,
          c\<lparr>mldp_fifo_rx := rx, mldp_fifo_tx := tx\<rparr>))"

text \<open>
  The loop of \<^verbatim>\<open>tx_fifo_send_bytes\<close>: \<^term>\<open>nb\<close> bytes are left, \<^term>\<open>rep\<close> counts the attempts for the
  packet in \<^term>\<open>data\<close>.
\<close>

type_synonym 'g gatt_write = "byte list \<Rightarrow> 'g \<Rightarrow> bool \<times> 'g"

definition tx_fetch :: "u32 \<Rightarrow> nat \<Rightarrow> byte list \<Rightarrow> 'g central \<Rightarrow> (byte list option \<times> 'g central) option" where
  "tx_fetch len rep data c =
     (if rep = 0 then do {
        (rc, n, bs, f) \<leftarrow> fifo_read (mldp_fifo_tx c) True len;
        Some (if rc \<noteq> 0 \<or> n \<noteq> len then None else Some bs, c\<lparr>mldp_fifo_tx := f\<rparr>)
      }
      else Some (Some data, c))"

lemma tx_progress: "nb \<noteq> 0 \<Longrightarrow> unat (nb - min nb BLE_MLDP_MAX_DATA_LEN) < unat nb"
  by (auto simp: min_def unat_gt_0 unat_sub_if' word_le_nat_alt split: if_splits)

function tx_loop :: "'g gatt_write \<Rightarrow> u32 \<Rightarrow> nat \<Rightarrow> byte list \<Rightarrow> 'g central \<Rightarrow> (int \<times> 'g central) option" where
  "tx_loop w nb rep data c =
     (if nb = 0 then Some (EXIT_SUCCESS, c)
      else do {
        let len = min nb BLE_MLDP_MAX_DATA_LEN;
        (r, c) \<leftarrow> tx_fetch len rep data c;
        case r of
          None \<Rightarrow> Some (EXIT_FAILURE, c)
        | Some data \<Rightarrow>
            let (ok, g) = w data (gatt c); c = c\<lparr>gatt := g\<rparr>
            in if \<not> ok then if rep \<ge> 3 then Some (EXIT_SUCCESS, c) else tx_loop w nb (rep + 1) data c
               else tx_loop w (nb - len) 0 data c
      })"
  by pat_completeness auto
termination
  by (relation "measures [\<lambda>(w, nb, rep, data, c). unat nb, \<lambda>(w, nb, rep, data, c). 4 - rep]")
    (auto simp: tx_progress)

definition tx_fifo_send_bytes :: "'g gatt_write \<Rightarrow> 'g central \<Rightarrow> (int \<times> 'g central) option" where
  "tx_fifo_send_bytes w c = tx_loop w (fifo_length (mldp_fifo_tx c)) 0 [] c"

definition ble_mldp_send_bytes :: "'g gatt_write \<Rightarrow> byte list \<Rightarrow> 'g central \<Rightarrow> (int \<times> 'g central) option" where
  "ble_mldp_send_bytes w bs c =
     (if ble_con_step c \<noteq> BLE_FILE_TRANSFER then Some (EXIT_FAILURE, c)
      else do {
        (err, _, f) \<leftarrow> fifo_write (mldp_fifo_tx c) (Some bs) (word_of_nat (length bs));
        let c = c\<lparr>mldp_fifo_tx := f\<rparr>;
        if err \<noteq> 0 then Some (err, c)
        else do {
          (rc, c) \<leftarrow> tx_fifo_send_bytes w c;
          Some (if rc \<noteq> 0 then EXIT_FAILURE else EXIT_SUCCESS, c)
        }
      })"

subsection \<open>Receiving\<close>

definition ble_mldp_get_byte :: "'g central \<Rightarrow> (int \<times> byte option \<times> 'g central) option" where
  "ble_mldp_get_byte c = do {
     (err, b, f) \<leftarrow> fifo_get (mldp_fifo_rx c);
     Some (if err \<noteq> 0 then EXIT_FAILURE else EXIT_SUCCESS, b, c\<lparr>mldp_fifo_rx := f\<rparr>)
   }"

definition fifos_flush :: "'g central \<Rightarrow> 'g central" where
  "fifos_flush c = c\<lparr>mldp_fifo_rx := snd (fifo_flush (mldp_fifo_rx c)), mldp_fifo_tx := snd (fifo_flush (mldp_fifo_tx c))\<rparr>"

text \<open>\<^verbatim>\<open>start_file_transfer\<close> starts the thread of \<^verbatim>\<open>file_transfer_task.c\<close>; the model counts the threads.\<close>

definition start_file_transfer :: "'g central \<Rightarrow> 'g central" where
  "start_file_transfer c = (let c = fifos_flush c in c\<lparr>ft_threads := ft_threads c + 1\<rparr>)"

text \<open>The callback gives the ATT error code of its answer; \<^term>\<open>offset\<close> is the offset of the write.\<close>

definition server_mldp_data_char_write_cb :: "u16 \<Rightarrow> byte list \<Rightarrow> 'g central \<Rightarrow> (byte \<times> 'g central) option" where
  "server_mldp_data_char_write_cb offset v c =
     (if offset \<noteq> 0 then Some (BT_ATT_ERROR_INVALID_OFFSET, c)
      else do {
        let c = (if ble_con_step c = BLE_WAIT_MLDP_DATA
                 then start_file_transfer (c\<lparr>ble_con_step := BLE_FILE_TRANSFER\<rparr>) else c);
        (_, _, f) \<leftarrow> fifo_write (mldp_fifo_rx c) (Some v) (word_of_nat (length v));
        Some (0, c\<lparr>mldp_fifo_rx := f\<rparr>)
      })"

definition ft_wait_ms :: "int \<Rightarrow> 'g central \<Rightarrow> 'g central option" where
  "ft_wait_ms timeMS c =
     (case incoming c of
        [] \<Rightarrow> Some c
      | v # vs \<Rightarrow> map_option snd (server_mldp_data_char_write_cb 0 v (c\<lparr>incoming := vs\<rparr>)))"

text \<open>The handler structure that \<^verbatim>\<open>start_file_transfer\<close> fills in.\<close>

definition kermit_handler :: "'g gatt_write \<Rightarrow> 'g central mldp" where
  "kermit_handler w = \<lparr>m_send = Some (ble_mldp_send_bytes w), m_get = Some ble_mldp_get_byte, m_wait = Some ft_wait_ms\<rparr>"

subsection \<open>The receiving side is a link\<close>

definition rx_avail :: "'g central \<Rightarrow> byte list" where
  "rx_avail c = fifo_content (mldp_fifo_rx c)"

text \<open>What has arrived and what is going to arrive together leave a place free in the FIFO.\<close>

definition rx_up :: "'g central \<Rightarrow> bool" where
  "rx_up c \<longleftrightarrow> fifo_inv (mldp_fifo_rx c) \<and> ble_con_step c = BLE_FILE_TRANSFER
     \<and> length (rx_avail c) + length (concat (incoming c)) < fifo_capacity (mldp_fifo_rx c)"

definition rx_quiet :: "'g central \<Rightarrow> bool" where
  "rx_quiet c \<longleftrightarrow> concat (incoming c) = []"

lemma write_cb_appends:
  assumes "rx_up c" and "incoming c = v # vs"
  shows "\<exists>c'. ft_wait_ms n c = Some c' \<and> rx_up c' \<and> rx_avail c' = rx_avail c @ v \<and> incoming c' = vs"
proof -
  note u = assms [unfolded rx_up_def rx_avail_def]
  have cap: "fifo_capacity (mldp_fifo_rx c) \<le> 4096" using u fifo_invD [of "mldp_fifo_rx c"] by simp
  then have n: "unat (word_of_nat (length v) :: u32) = length v"
    using u assms(2) by (simp add: unat_of_nat)
  obtain f where "fifo_write (mldp_fifo_rx c) (Some v) (word_of_nat (length v)) = Some (FIFO_SUCCESS, word_of_nat (length v), f)"
    and "fifo_inv f" "fifo_content f = fifo_content (mldp_fifo_rx c) @ v" "fifo_capacity f = fifo_capacity (mldp_fifo_rx c)"
    using fifo_write_fits [of "mldp_fifo_rx c" v, OF _ _ n] u by auto
  then show ?thesis
    using u by (simp add: ft_wait_ms_def server_mldp_data_char_write_cb_def rx_up_def rx_avail_def)
qed

interpretation ble: byte_link ble_mldp_get_byte ft_wait_ms rx_avail rx_up rx_quiet
proof unfold_locales
  fix c :: "'g central" and b bs
  assume u: "rx_up c" and av: "rx_avail c = b # bs"
  then obtain f where "fifo_get (mldp_fifo_rx c) = Some (FIFO_SUCCESS, Some b, f)" "fifo_inv f" "fifo_content f = bs"
      "fifo_capacity f = fifo_capacity (mldp_fifo_rx c)"
    using fifo_get_first [of "mldp_fifo_rx c" b bs] by (auto simp: rx_up_def rx_avail_def)
  then show "\<exists>c'. ble_mldp_get_byte c = Some (0, Some b, c') \<and> rx_up c' \<and> rx_avail c' = bs"
    using u av by (auto simp: ble_mldp_get_byte_def rx_up_def rx_avail_def fifo_codes)
next
  fix c :: "'g central"
  assume "rx_up c" and "rx_avail c = []"
  then show "ble_mldp_get_byte c = Some (1, None, c)"
    using fifo_get_empty [of "mldp_fifo_rx c"] by (simp add: ble_mldp_get_byte_def rx_up_def rx_avail_def fifo_codes)
next
  fix c :: "'g central" and n
  assume u: "rx_up c"
  show "\<exists>c' more. ft_wait_ms n c = Some c' \<and> rx_up c' \<and> rx_avail c' = rx_avail c @ more"
  proof (cases "incoming c")
    case Nil
    then show ?thesis using u by (auto simp: ft_wait_ms_def)
  next
    case (Cons v vs)
    then show ?thesis using write_cb_appends [OF u] by blast
  qed
next
  fix c :: "'g central" and n c'
  assume u: "rx_up c" and q: "rx_quiet c" and w: "ft_wait_ms n c = Some c'"
  show "rx_avail c' = rx_avail c \<and> rx_quiet c'"
  proof (cases "incoming c")
    case Nil
    then show ?thesis using w q by (auto simp: ft_wait_ms_def)
  next
    case (Cons v vs)
    then show ?thesis using write_cb_appends [OF u Cons, of n] w q by (auto simp: rx_quiet_def)
  qed
qed

definition tx_ok :: "'g central \<Rightarrow> bool" where
  "tx_ok c \<longleftrightarrow> fifo_inv (mldp_fifo_tx c) \<and> length (fifo_content (mldp_fifo_tx c)) < fifo_capacity (mldp_fifo_tx c)"

text \<open>The same link when there is also room for one more packet to send: reading and waiting do not touch the transmit FIFO.\<close>

definition duplex_up :: "'g central \<Rightarrow> bool" where
  "duplex_up c \<longleftrightarrow> rx_up c \<and> tx_ok c \<and> length (fifo_content (mldp_fifo_tx c)) + 100 < fifo_capacity (mldp_fifo_tx c)"

lemma get_byte_tx: "ble_mldp_get_byte c = Some (e, b, c') \<Longrightarrow> mldp_fifo_tx c' = mldp_fifo_tx c"
  by (auto simp: ble_mldp_get_byte_def bind_Some_iff)

lemma wait_tx: "rx_up c \<Longrightarrow> ft_wait_ms n c = Some c' \<Longrightarrow> mldp_fifo_tx c' = mldp_fifo_tx c"
  by (auto simp: ft_wait_ms_def server_mldp_data_char_write_cb_def rx_up_def bind_Some_iff split: list.splits)

interpretation duplex: byte_link ble_mldp_get_byte ft_wait_ms rx_avail duplex_up rx_quiet
proof unfold_locales
  fix c :: "'g central" and b bs
  assume u: "duplex_up c" and "rx_avail c = b # bs"
  then obtain c' where "ble_mldp_get_byte c = Some (0, Some b, c')" "rx_up c'" "rx_avail c' = bs"
    using ble.get_first [of c b bs] by (auto simp: duplex_up_def)
  then show "\<exists>c'. ble_mldp_get_byte c = Some (0, Some b, c') \<and> duplex_up c' \<and> rx_avail c' = bs"
    using u get_byte_tx by (fastforce simp: duplex_up_def tx_ok_def)
next
  fix c :: "'g central"
  assume "duplex_up c" and "rx_avail c = []"
  then show "ble_mldp_get_byte c = Some (1, None, c)"
    using ble.get_none [of c] by (simp add: duplex_up_def)
next
  fix c :: "'g central" and n
  assume u: "duplex_up c"
  then obtain c' more where "ft_wait_ms n c = Some c'" "rx_up c'" "rx_avail c' = rx_avail c @ more"
    using ble.wait_more [of c n] by (auto simp: duplex_up_def)
  then show "\<exists>c' more. ft_wait_ms n c = Some c' \<and> duplex_up c' \<and> rx_avail c' = rx_avail c @ more"
    using u wait_tx [of c n c'] by (auto simp: duplex_up_def tx_ok_def)
next
  fix c :: "'g central" and n c'
  assume "duplex_up c" and "rx_quiet c" and "ft_wait_ms n c = Some c'"
  then show "rx_avail c' = rx_avail c \<and> rx_quiet c'"
    using ble.wait_quiet [of c n c'] by (simp add: duplex_up_def)
qed

subsection \<open>An example link\<close>

text \<open>A GATT client that accepts and records every packet, one that refuses every packet, and a link where nothing happens.\<close>

definition demo_write :: "byte list list gatt_write" where
  "demo_write d g = (True, g @ [d])"

definition refuse_write :: "byte list list gatt_write" where
  "refuse_write d g = (False, g)"

definition quiet_central :: "byte list list central" where
  "quiet_central = \<lparr>mldp_fifo_rx = \<lparr>p_buff = replicate 201 0, buff_size = 200, read_pos = 0, write_pos = 0\<rparr>,
     mldp_fifo_tx = \<lparr>p_buff = replicate 201 0, buff_size = 200, read_pos = 0, write_pos = 0\<rparr>,
     ble_con_step = BLE_FILE_TRANSFER, gatt = [], ft_threads = 1, incoming = []\<rparr>"

lemma quiet_central_facts:
  "ble_con_step quiet_central = BLE_FILE_TRANSFER" "fifo_inv (mldp_fifo_tx quiet_central)" "fifo_inv (mldp_fifo_rx quiet_central)"
  "fifo_content (mldp_fifo_tx quiet_central) = []" "fifo_content (mldp_fifo_rx quiet_central) = []"
  "is_fifo_empty (mldp_fifo_tx quiet_central)" "fifo_capacity (mldp_fifo_tx quiet_central) = 201"
  "fifo_capacity (mldp_fifo_rx quiet_central) = 201" "incoming quiet_central = []"
  by (simp_all add: quiet_central_def fifo_inv_def fifo_content_def is_fifo_empty_def MLDP_RX_BUFF_SIZE_def)

subsection \<open>What is sent\<close>

text \<open>The packets of at most 20 bytes a message is cut into.\<close>

fun packets :: "byte list \<Rightarrow> byte list list" where
  "packets [] = []"
| "packets bs = take 20 bs # packets (drop 20 bs)"

lemma packets_nonempty: "bs \<noteq> [] \<Longrightarrow> packets bs = take 20 bs # packets (drop 20 bs)"
  by (cases bs) simp_all

lemma concat_packets: "concat (packets bs) = bs"
  by (induction bs rule: packets.induct) simp_all

lemma length_packets: "p \<in> set (packets bs) \<Longrightarrow> 0 < length p \<and> length p \<le> 20"
  by (induction bs rule: packets.induct) auto

declare tx_loop.simps [simp del]

lemma tx_ok_fetch:
  assumes "tx_ok c" and "unat len \<le> length (fifo_content (mldp_fifo_tx c))"
  shows "\<exists>f. tx_fetch len 0 data c = Some (Some (take (unat len) (fifo_content (mldp_fifo_tx c))), c\<lparr>mldp_fifo_tx := f\<rparr>)
    \<and> tx_ok (c\<lparr>mldp_fifo_tx := f\<rparr>) \<and> fifo_content f = drop (unat len) (fifo_content (mldp_fifo_tx c))
    \<and> fifo_capacity f = fifo_capacity (mldp_fifo_tx c)"
  using fifo_read_prefix [of "mldp_fifo_tx c" len] assms
  by (auto simp: tx_ok_def tx_fetch_def fifo_codes)

lemma unat_packet_len: "unat (min nb BLE_MLDP_MAX_DATA_LEN) = min (unat nb) 20"
  by (simp add: min_def word_le_nat_alt)

lemma tx_loop_sends:
  assumes "\<forall>d g. fst (w d g)" and "tx_ok c" and "unat nb = length (fifo_content (mldp_fifo_tx c))"
  shows "\<exists>f. tx_loop w nb 0 data c = Some (EXIT_SUCCESS, c\<lparr>mldp_fifo_tx := f,
      gatt := fold (\<lambda>d g. snd (w d g)) (packets (fifo_content (mldp_fifo_tx c))) (gatt c)\<rparr>)
    \<and> fifo_inv f \<and> fifo_content f = []"
  using assms(2,3)
proof (induction "unat nb" arbitrary: nb data c rule: less_induct)
  case less
  let ?xs = "fifo_content (mldp_fifo_tx c)" and ?len = "min nb BLE_MLDP_MAX_DATA_LEN"
  show ?case
  proof (cases "nb = 0")
    case True
    then show ?thesis
      using less.prems by (intro exI [of _ "mldp_fifo_tx c"]) (simp add: tx_loop.simps [of w 0] tx_ok_def)
  next
    case False
    then have ne: "?xs \<noteq> []" and nb: "0 < unat nb" using less.prems(2) by (auto simp: unat_eq_0 unat_gt_0)
    have len: "unat ?len = min (length ?xs) 20" using less.prems(2) by (simp add: unat_packet_len)
    obtain f where f: "tx_fetch ?len 0 data c = Some (Some (take 20 ?xs), c\<lparr>mldp_fifo_tx := f\<rparr>)"
        "tx_ok (c\<lparr>mldp_fifo_tx := f\<rparr>)" "fifo_content f = drop 20 ?xs"
      using tx_ok_fetch [OF less.prems(1), of ?len data] len by (auto simp: min_def split: if_splits)
    let ?c = "c\<lparr>mldp_fifo_tx := f, gatt := snd (w (take 20 ?xs) (gatt c))\<rparr>"
    have step: "tx_loop w nb 0 data c = tx_loop w (nb - ?len) 0 (take 20 ?xs) ?c"
      using assms(1) False f by (simp add: tx_loop.simps [of w nb] Let_def split_beta)
    have "unat (nb - ?len) < unat nb" using tx_progress [OF False] .
    moreover have "tx_ok ?c" using f(2) by (simp add: tx_ok_def)
    moreover have "unat (nb - ?len) = length (fifo_content (mldp_fifo_tx ?c))"
      using f(3) len less.prems(2) by (simp add: unat_sub_if' word_le_nat_alt)
    ultimately obtain f' where "tx_loop w (nb - ?len) 0 (take 20 ?xs) ?c = Some (EXIT_SUCCESS, ?c\<lparr>mldp_fifo_tx := f',
        gatt := fold (\<lambda>d g. snd (w d g)) (packets (fifo_content (mldp_fifo_tx ?c))) (gatt ?c)\<rparr>)"
      and "fifo_inv f'" "fifo_content f' = []"
      using less.hyps by blast
    then show ?thesis
      using step f(3) packets_nonempty [OF ne] by auto
  qed
qed

lemma send_start:
  assumes "fifo_inv (mldp_fifo_tx c)" and "is_fifo_empty (mldp_fifo_tx c)" and "length bs < fifo_capacity (mldp_fifo_tx c)"
  obtains f where "fifo_write (mldp_fifo_tx c) (Some bs) (word_of_nat (length bs)) = Some (FIFO_SUCCESS, word_of_nat (length bs), f)"
    and "tx_ok (c\<lparr>mldp_fifo_tx := f\<rparr>)" and "fifo_content f = bs" and "unat (fifo_length f) = length bs"
proof -
  have "fifo_capacity (mldp_fifo_tx c) \<le> 4096" using fifo_invD [OF assms(1)] by simp
  then have n: "unat (word_of_nat (length bs) :: u32) = length bs"
    using assms(3) by (simp add: unat_of_nat)
  obtain f where f: "fifo_write (mldp_fifo_tx c) (Some bs) (word_of_nat (length bs)) = Some (FIFO_SUCCESS, word_of_nat (length bs), f)"
      "fifo_inv f" "fifo_content f = bs" "fifo_capacity f = fifo_capacity (mldp_fifo_tx c)"
    using fifo_write_fits [OF assms(1) _ n] assms by (auto simp: fifo_empty_iff)
  then show thesis
    using that [OF f(1) _ f(3)] assms(3) fifo_invD [OF f(2)] by (simp add: tx_ok_def)
qed

text \<open>
  C10. Delivery. In the file-transfer step, with an empty transmit FIFO and a GATT client that accepts every
  packet, \<^verbatim>\<open>ble_mldp_send_bytes\<close> of a message shorter than the FIFO succeeds, hands the message over
  in order in packets of 1 to 20 bytes, and leaves the FIFO empty.
\<close>

theorem ble_send_delivers:
  assumes "\<forall>d g. fst (w d g)" and "ble_con_step c = BLE_FILE_TRANSFER"
    and "fifo_inv (mldp_fifo_tx c)" and "is_fifo_empty (mldp_fifo_tx c)" and "length bs < fifo_capacity (mldp_fifo_tx c)"
  shows "\<exists>f ps. ble_mldp_send_bytes w bs c = Some (EXIT_SUCCESS, c\<lparr>mldp_fifo_tx := f, gatt := fold (\<lambda>d g. snd (w d g)) ps (gatt c)\<rparr>)
    \<and> concat ps = bs \<and> (\<forall>p \<in> set ps. 0 < length p \<and> length p \<le> 20) \<and> fifo_inv f \<and> is_fifo_empty f"
proof -
  obtain f where f: "fifo_write (mldp_fifo_tx c) (Some bs) (word_of_nat (length bs)) = Some (FIFO_SUCCESS, word_of_nat (length bs), f)"
    "tx_ok (c\<lparr>mldp_fifo_tx := f\<rparr>)" "fifo_content f = bs" "unat (fifo_length f) = length bs"
    using send_start [OF assms(3-5)] .
  then obtain f' where "tx_loop w (fifo_length f) 0 [] (c\<lparr>mldp_fifo_tx := f\<rparr>)
      = Some (EXIT_SUCCESS, c\<lparr>mldp_fifo_tx := f', gatt := fold (\<lambda>d g. snd (w d g)) (packets bs) (gatt c)\<rparr>)"
      "fifo_inv f'" "fifo_content f' = []"
    using tx_loop_sends [OF assms(1), of "c\<lparr>mldp_fifo_tx := f\<rparr>" "fifo_length f" "[]"] f(3) by auto
  then show ?thesis
    using assms(2) f(1) concat_packets [of bs] length_packets [of _ bs] fifo_empty_iff [of f']
    by (intro exI [of _ f'] exI [of _ "packets bs"])
      (simp add: ble_mldp_send_bytes_def tx_fifo_send_bytes_def fifo_codes)
qed

theorem ble_send_delivers_witness:
  "\<exists>f ps. ble_mldp_send_bytes demo_write (replicate 25 7) quiet_central
      = Some (EXIT_SUCCESS, quiet_central\<lparr>mldp_fifo_tx := f, gatt := fold (\<lambda>d g. snd (demo_write d g)) ps (gatt quiet_central)\<rparr>)
    \<and> concat ps = replicate 25 7 \<and> is_fifo_empty f"
  using ble_send_delivers [of demo_write quiet_central "replicate 25 7"] quiet_central_facts
  by (simp add: demo_write_def) blast

lemma tx_loop_returns:
  assumes "tx_ok c" and "unat nb = length (fifo_content (mldp_fifo_tx c)) + (if rep = 0 then 0 else unat (min nb BLE_MLDP_MAX_DATA_LEN))"
  shows "\<exists>rc c'. tx_loop w nb rep data c = Some (rc, c') \<and> ble_con_step c' = ble_con_step c
    \<and> mldp_fifo_rx c' = mldp_fifo_rx c \<and> incoming c' = incoming c \<and> tx_ok c'
    \<and> fifo_capacity (mldp_fifo_tx c') = fifo_capacity (mldp_fifo_tx c)"
  using assms
proof (induction "unat nb * 5 + (4 - rep)" arbitrary: nb rep data c rule: less_induct)
  case less
  let ?len = "min nb BLE_MLDP_MAX_DATA_LEN"
  show ?case
  proof (cases "nb = 0")
    case True
    then show ?thesis using less.prems by (simp add: tx_loop.simps [of w 0])
  next
    case False
    have le: "unat ?len \<le> unat nb" by (simp add: unat_packet_len)
    obtain data' f where f: "tx_fetch ?len rep data c = Some (Some data', c\<lparr>mldp_fifo_tx := f\<rparr>)" "tx_ok (c\<lparr>mldp_fifo_tx := f\<rparr>)"
        "unat nb = length (fifo_content f) + unat ?len" "fifo_capacity f = fifo_capacity (mldp_fifo_tx c)"
    proof (cases "rep = 0")
      case True
      then have "unat ?len \<le> length (fifo_content (mldp_fifo_tx c))" using le less.prems(2) by simp
      from tx_ok_fetch [OF less.prems(1) this, of data] obtain f where
        "tx_fetch ?len 0 data c = Some (Some (take (unat ?len) (fifo_content (mldp_fifo_tx c))), c\<lparr>mldp_fifo_tx := f\<rparr>)"
        "tx_ok (c\<lparr>mldp_fifo_tx := f\<rparr>)" "fifo_content f = drop (unat ?len) (fifo_content (mldp_fifo_tx c))"
        "fifo_capacity f = fifo_capacity (mldp_fifo_tx c)" by blast
      with True show ?thesis using le less.prems(2) that by simp
    next
      case False
      then show ?thesis
        using less.prems that [of data "mldp_fifo_tx c"] by (simp add: tx_fetch_def)
    qed
    let ?c = "c\<lparr>mldp_fifo_tx := f, gatt := snd (w data' (gatt c))\<rparr>"
    have ok: "tx_ok ?c" using f(2) by (simp add: tx_ok_def)
    have rest: "unat (nb - ?len) = length (fifo_content f)"
      using f(3) unat_sub [OF min.cobounded1, of nb BLE_MLDP_MAX_DATA_LEN] by simp
    have step: "tx_loop w nb rep data c =
        (if fst (w data' (gatt c)) then tx_loop w (nb - ?len) 0 data' ?c
         else if rep \<ge> 3 then Some (EXIT_SUCCESS, ?c) else tx_loop w nb (rep + 1) data' ?c)"
      using False f(1) by (simp add: tx_loop.simps [of w nb rep] Let_def split_beta)
    consider "fst (w data' (gatt c))" | "\<not> fst (w data' (gatt c))" "rep \<ge> 3" | "\<not> fst (w data' (gatt c))" "rep < 3"
      by linarith
    then show ?thesis
    proof cases
      case 1
      have "unat (nb - ?len) * 5 + (4 - 0) < unat nb * 5 + (4 - rep)" using tx_progress [OF False] by simp
      from less.hyps [OF this, of ?c data'] show ?thesis using 1 step ok rest f(4) by simp
    next
      case 2
      then show ?thesis using step ok f(4) by simp
    next
      case 3
      then have "unat nb * 5 + (4 - (rep + 1)) < unat nb * 5 + (4 - rep)" by simp
      from less.hyps [OF this, of ?c data'] show ?thesis using 3 step ok f(3,4) by simp
    qed
  qed
qed

text \<open>Whatever the GATT client does, sending a message returns, and leaves the receiving side alone.\<close>

lemma ble_send_returns:
  assumes "tx_ok c" and "length (fifo_content (mldp_fifo_tx c)) + length bs < fifo_capacity (mldp_fifo_tx c)"
  shows "\<exists>rc c'. ble_mldp_send_bytes w bs c = Some (rc, c') \<and> ble_con_step c' = ble_con_step c
    \<and> mldp_fifo_rx c' = mldp_fifo_rx c \<and> incoming c' = incoming c \<and> tx_ok c'"
proof (cases "ble_con_step c = BLE_FILE_TRANSFER")
  case True
  have inv: "fifo_inv (mldp_fifo_tx c)" using assms(1) by (simp add: tx_ok_def)
  have "fifo_capacity (mldp_fifo_tx c) \<le> 4096" using fifo_invD [OF inv] by simp
  then have n: "unat (word_of_nat (length bs) :: u32) = length bs"
    using assms(2) by (simp add: unat_of_nat)
  obtain f where f: "fifo_write (mldp_fifo_tx c) (Some bs) (word_of_nat (length bs)) = Some (FIFO_SUCCESS, word_of_nat (length bs), f)"
      "fifo_inv f" "fifo_content f = fifo_content (mldp_fifo_tx c) @ bs" "fifo_capacity f = fifo_capacity (mldp_fifo_tx c)"
    using fifo_write_fits [OF inv assms(2) n] by blast
  have "tx_ok (c\<lparr>mldp_fifo_tx := f\<rparr>)" using f assms(2) by (simp add: tx_ok_def)
  moreover have "unat (fifo_length f) = length (fifo_content f)" using fifo_invD [OF f(2)] by simp
  ultimately show ?thesis
    using tx_loop_returns [of "c\<lparr>mldp_fifo_tx := f\<rparr>" "fifo_length f" 0 w "[]"] True f(1)
    by (auto simp: ble_mldp_send_bytes_def tx_fifo_send_bytes_def fifo_codes)
qed (use assms(1) in \<open>simp add: ble_mldp_send_bytes_def\<close>)

lemma tx_loop_gives_up:
  assumes "\<forall>d g. \<not> fst (w d g)" and "nb \<noteq> 0" and "0 < rep"
  shows "\<exists>g. tx_loop w nb rep data c = Some (EXIT_SUCCESS, c\<lparr>gatt := g\<rparr>)"
  using assms(3)
proof (induction "4 - rep" arbitrary: rep c)
  case 0
  then show ?case
    using assms(1,2) by (simp add: tx_loop.simps [of w nb] tx_fetch_def Let_def split_beta) blast
next
  case (Suc k)
  then have "\<exists>g. tx_loop w nb (rep + 1) data (c\<lparr>gatt := snd (w data (gatt c))\<rparr>)
      = Some (EXIT_SUCCESS, c\<lparr>gatt := snd (w data (gatt c))\<rparr>\<lparr>gatt := g\<rparr>)"
    by (intro Suc.hyps) simp_all
  then show ?case
    using assms(1,2) Suc.prems by (auto simp: tx_loop.simps [of w nb rep] tx_fetch_def Let_def split_beta)
qed

text \<open>
  A message the GATT client refuses is lost without notice. When every packet is refused,
  \<^verbatim>\<open>ble_mldp_send_bytes\<close> still returns \<^verbatim>\<open>EXIT_SUCCESS\<close>: after the fourth attempt \<^verbatim>\<open>tx_fifo_send_bytes\<close>
  leaves its loop by \<^verbatim>\<open>break\<close> to the successful return, and the bytes not yet read stay in the FIFO in
  front of the next message.
\<close>

theorem ble_send_lost:
  assumes "\<forall>d g. \<not> fst (w d g)" and "ble_con_step c = BLE_FILE_TRANSFER"
    and "fifo_inv (mldp_fifo_tx c)" and "is_fifo_empty (mldp_fifo_tx c)" and "bs \<noteq> []" and "length bs < fifo_capacity (mldp_fifo_tx c)"
  shows "\<exists>f g. ble_mldp_send_bytes w bs c = Some (EXIT_SUCCESS, c\<lparr>mldp_fifo_tx := f, gatt := g\<rparr>)
    \<and> fifo_content f = drop 20 bs"
proof -
  obtain f where f: "fifo_write (mldp_fifo_tx c) (Some bs) (word_of_nat (length bs)) = Some (FIFO_SUCCESS, word_of_nat (length bs), f)"
    "tx_ok (c\<lparr>mldp_fifo_tx := f\<rparr>)" "fifo_content f = bs" and nb: "unat (fifo_length f) = length bs"
    using send_start [OF assms(3,4,6)] .
  let ?c = "c\<lparr>mldp_fifo_tx := f\<rparr>" and ?len = "min (fifo_length f) BLE_MLDP_MAX_DATA_LEN"
  have nz: "fifo_length f \<noteq> 0" using nb assms(5) by auto
  have len: "unat ?len = min (length bs) 20" using nb by (simp add: unat_packet_len)
  obtain f' where f': "tx_fetch ?len 0 [] ?c = Some (Some (take 20 bs), c\<lparr>mldp_fifo_tx := f'\<rparr>)" "fifo_content f' = drop 20 bs"
    using tx_ok_fetch [OF f(2), of ?len "[]"] len f(3) by (auto simp: min_def split: if_splits)
  obtain g where "tx_loop w (fifo_length f) 1 (take 20 bs) (c\<lparr>mldp_fifo_tx := f', gatt := snd (w (take 20 bs) (gatt c))\<rparr>)
      = Some (EXIT_SUCCESS, c\<lparr>mldp_fifo_tx := f', gatt := g\<rparr>)"
    using tx_loop_gives_up [OF assms(1) nz, of 1 "take 20 bs"
        "c\<lparr>mldp_fifo_tx := f', gatt := snd (w (take 20 bs) (gatt c))\<rparr>"] by auto
  then have "tx_loop w (fifo_length f) 0 [] ?c = Some (EXIT_SUCCESS, c\<lparr>mldp_fifo_tx := f', gatt := g\<rparr>)"
    using f'(1) assms(1) nz by (simp add: tx_loop.simps [of w "fifo_length f" 0] Let_def split_beta)
  then show ?thesis
    using assms(2) f(1) f'(2) by (auto simp: ble_mldp_send_bytes_def tx_fifo_send_bytes_def fifo_codes)
qed

theorem ble_send_lost_witness:
  "\<exists>f g. ble_mldp_send_bytes refuse_write (replicate 25 7) quiet_central = Some (EXIT_SUCCESS, quiet_central\<lparr>mldp_fifo_tx := f, gatt := g\<rparr>)
    \<and> fifo_content f = replicate 5 7"
  using ble_send_lost [of refuse_write quiet_central "replicate 25 7"] quiet_central_facts
  by (simp add: refuse_write_def)

end
