(* ===== verification/Kermit_Framing.thy ===== *)
theory Kermit_Framing
  imports Kermit_Machine Ble_Link
begin

text \<open>
  A packet on its way: built by \<^verbatim>\<open>spkt\<close>, carried by the link, read by \<^verbatim>\<open>kreadpkt\<close>, parsed and checked
  by \<^verbatim>\<open>kermit()\<close>.
\<close>

subsection \<open>The block check\<close>

lemma chk1_range: "0 \<le> chk1 bs" "chk1 bs < 64"
proof -
  have "uint (w AND 0x3F) < 64" for w :: u32
    using AND_upper2 [of "0x3F" "uint w"] by (simp add: uint_and)
  then show "chk1 bs < 64" by (simp add: chk1_def Let_def)
qed (simp add: chk1_def Let_def)

lemma xunchar_tochar_small: "0 \<le> n \<Longrightarrow> n < 256 \<Longrightarrow> xunchar (tochar n) = n"
  by (simp add: xunchar_tochar)

lemma six_bits: "uint (w AND 0x3F :: u16) < 64" "uint (w AND 0xF :: u16) < 16"
  using AND_upper2 [of "0x3F" "uint w"] AND_upper2 [of "0xF" "uint w"] by (simp_all add: uint_and)

lemma xunchar_six_bits: "xunchar (tochar (uint (w AND 0x3F :: u16))) = uint (w AND 0x3F)"
    "xunchar (tochar (uint (w AND 0xF :: u16))) = uint (w AND 0xF)"
  using six_bits [of w] by (simp_all add: xunchar_tochar_small)

lemma masks: "(0x3F :: u16) = mask 6" "(0xF :: u16) = mask 4"
  by (simp_all add: mask_eq_exp_minus_1)

lemma reassemble2:
  "(push_bit 6 (ucast (drop_bit 6 j AND 0x3F)) OR ucast (j AND 0x3F) :: u32) = ucast (take_bit 12 (j :: u16))"
  unfolding masks by (rule bit_word_eqI) (auto simp: bit_simps)

lemma reassemble3:
  "(push_bit 12 (ucast (drop_bit 12 c AND 0x0F)) OR push_bit 6 (ucast (drop_bit 6 c AND 0x3F)) OR ucast (c AND 0x3F) :: u32)
     = ucast (c :: u16)"
  unfolding masks
proof (rule bit_word_eqI)
  fix n :: nat
  consider "n < 6" | "6 \<le> n" "n < 12" | "12 \<le> n" by linarith
  then show "bit (push_bit 12 (ucast (drop_bit 12 c AND mask 4)) OR push_bit 6 (ucast (drop_bit 6 c AND mask 6))
      OR ucast (c AND mask 6) :: u32) n = bit (ucast c :: u32) n" if "n < LENGTH(32)"
    using that bit_imp_le_length [of c n] by cases (auto simp: bit_simps)
qed

lemma chk3_cong: "k_crcta a = k_crcta s \<Longrightarrow> k_crctb a = k_crctb s \<Longrightarrow> chk3 a bs = chk3 s bs"
proof -
  assume "k_crcta a = k_crcta s" "k_crctb a = k_crctb s"
  then have "chk3_step a = chk3_step s" by (intro ext) (simp add: chk3_step_def)
  then show ?thesis by (simp add: chk3_def)
qed

lemma check_bytes_block_check:
  assumes "k_crcta a = k_crcta s" and "k_crctb a = k_crctb s"
    and "b = 1 \<or> b = 2 \<and> chk2 body < 4096 \<or> b = 3"
  shows "check_bytes s b (block_check a b body) body"
proof -
  have "take_bit 12 (chk2 body) = chk2 body" if "chk2 body < 4096"
    using that by (intro word_uint_eqI) (simp add: unsigned_take_bit_eq take_bit_int_eq_self word_less_def)
  then show ?thesis
    using assms(3) chk1_range [of body] chk3_cong [OF assms(1,2), of body] reassemble3 [of "chk3 s body"]
    by (auto simp: check_bytes_def block_check_def Let_def xunchar_six_bits xunchar_tochar_small reassemble2)
qed

lemma length_block_check: "b \<in> {1, 2, 3} \<Longrightarrow> length (block_check a b body) = nat b"
  by (auto simp: block_check_def Let_def)

lemma block_check_range:
  assumes "x \<in> set (block_check a b body)"
  obtains n where "0 \<le> n" and "n < 224" and "x = tochar n"
proof -
  note r = chk1_range [of body] six_bits(1) [of "drop_bit 6 (chk2 body)"] six_bits(1) [of "chk2 body"]
    six_bits(2) [of "drop_bit 12 (chk3 a body)"] six_bits(1) [of "drop_bit 6 (chk3 a body)"] six_bits(1) [of "chk3 a body"]
  let ?N = "{chk1 body, uint (drop_bit 6 (chk2 body) AND 0x3F), uint (chk2 body AND 0x3F), uint (drop_bit 12 (chk3 a body) AND 0x0F),
    uint (drop_bit 6 (chk3 a body) AND 0x3F), uint (chk3 a body AND 0x3F)}"
  have "x \<in> tochar ` ?N"
    using assms by (auto simp: block_check_def Let_def split: if_splits)
  moreover have "\<forall>n \<in> ?N. 0 \<le> n \<and> n < 224" using r by simp
  ultimately show thesis using that by blast
qed

text \<open>
  Type-2 checks and long packets. The twelve bits that \<^verbatim>\<open>spkt\<close> sends for block check type 2 are compared
  by \<^verbatim>\<open>kermit()\<close> with the full 16-bit sum of \<^verbatim>\<open>chk2\<close>: a packet is accepted exactly when the sum of
  its bytes is below 4096, so an intact packet of a few dozen data bytes is rejected every time it is sent.
\<close>

theorem check2_rejects_long_packets:
  "check_bytes s 2 (block_check a 2 body) body \<longleftrightarrow> chk2 body < 4096"
proof -
  have "(ucast (take_bit 12 j) :: u32) = ucast j \<longleftrightarrow> j < 4096" for j :: u16
  proof -
    have t: "take_bit 32 (uint j) = uint j"
      using uint_lt2p [of j] by (intro take_bit_int_eq_self) simp_all
    have "(ucast (take_bit 12 j) :: u32) = ucast j \<longleftrightarrow> take_bit 12 (uint j) = uint j"
      by (simp add: word_uint_eq_iff unsigned_ucast_eq unsigned_take_bit_eq t)
    then show ?thesis by (simp add: take_bit_int_eq_self_iff word_less_def)
  qed
  then show ?thesis
    by (simp add: check_bytes_def block_check_def Let_def xunchar_six_bits reassemble2)
qed

subsection \<open>Parsing a packet\<close>

text \<open>
  When the receiver looks at the packet: it is not in the last state of a transmission, does not ignore
  the type as an echo, and, for the packets that always carry a type-1 check (parameters), the check in force is type 1 and
  the packet is short.
\<close>

definition reads_type :: "byte \<Rightarrow> nat \<Rightarrow> 'w kst \<Rightarrow> bool" where
  "reads_type typ n s \<longleftrightarrow> k_state s \<noteq> S_EOT \<and> \<not> (k_what s = W_RECV \<and> (typ = T_N \<or> typ = T_Y))
     \<and> (typ = T_S \<or> k_state s = S_INIT \<longrightarrow> k_bct s = 1 \<and> n < 92)"

definition plain_check :: "'w kst \<Rightarrow> bool" where
  "plain_check s \<longleftrightarrow> k_bcta3 s = 0 \<and> k_bct s \<in> {1, 2, 3}"

lemma nonzero_tochar: "0 \<le> n \<Longrightarrow> n < 224 \<Longrightarrow> tochar n \<noteq> 0"
  using tochar_no_control by blast

lemma spkt_header_short:
  "len + b + 2 \<le> 94 \<Longrightarrow> spkt_header typ sq len b = [tochar (len + b + 2), tochar sq, typ]"
  by (simp add: spkt_header_def Let_def)

lemma spkt_header_long:
  assumes "len + b + 2 > 94" and "len + b < 1008" and "0 \<le> sq" and "sq < 64" and "typ \<noteq> 0"
  shows "spkt_header typ sq len b =
    [tochar 0, tochar sq, typ, tochar ((len + b) div 95), tochar ((len + b) mod 95),
     tochar (chk1 [tochar 0, tochar sq, typ, tochar ((len + b) div 95), tochar ((len + b) mod 95)])]"
proof -
  have "0 \<le> (len + b) div 95" "(len + b) div 95 < 224" "0 \<le> (len + b) mod 95" "(len + b) mod 95 < 224"
    using assms(1,2) by (simp_all add: pos_imp_zdiv_nonneg_iff)
  then show ?thesis
    using assms nonzero_tochar [of 0] nonzero_tochar [of sq] by (simp add: spkt_header_def Let_def nonzero_tochar)
qed

lemma rx_header_parses:
  assumes "has_bytes (mem s IPKTBUF) 0 (spkt_header typ sq (int (length dat)) (k_bct s) @ rest)" and "rest \<noteq> []"
    and "plain_check s" and "reads_type typ (length dat) s" and "0 \<le> sq" and "sq < 64" and "typ \<noteq> 0"
    and "length dat + 4 < 1000"
  shows "rx_header ops n s = Some (Go \<lparr>v_pdf = Ptr IPKTBUF (int (length (spkt_header typ sq (int (length dat)) (k_bct s)))),
    v_datalen = int (length dat), v_rtyp = typ, v_rseq = sq, v_s = cancel_text s\<rparr>, s)"
proof -
  let ?f = "mem s IPKTBUF" and ?b = "k_bct s" and ?len = "int (length dat)"
  obtain r0 rest' where rest: "rest = r0 # rest'" using assms(2) by (cases rest) auto
  have b: "k_bcta3 s = 0" "?b = 1 \<or> ?b = 2 \<or> ?b = 3" using assms(3) by (auto simp: plain_check_def)
  have pk: "peek t (Ptr IPKTBUF 0) (int i) = Some (mem t IPKTBUF i)" if "i < 1008" for t :: "'a kst" and i
    using that by (simp add: peek_nat)
  note pk6 = pk [of 0] pk [of 1] pk [of 2] pk [of 3] pk [of 4] pk [of 5]
  have sq: "xunchar (tochar sq) = sq" using assms(5,6) by (simp add: xunchar_tochar_small)
  show ?thesis
  proof (cases "?len + ?b + 2 \<le> 94")
    case True
    have f: "?f 0 = tochar (?len + ?b + 2)" "?f 1 = tochar sq" "?f 2 = typ" "?f 3 = r0"
      using assms(1) True rest by (simp_all add: spkt_header_short numeral_eq_Suc)
    have l: "xunchar (tochar (?len + ?b + 2)) = ?len + ?b + 2" using True b by (intro xunchar_tochar_small) auto
    show ?thesis
      using True b assms(4,5,6) f l sq pk6
      by (auto simp: rx_header_def bind_step_def reads_type_def spkt_header_short Let_def)
  next
    case False
    let ?j = "?len + ?b"
    let ?h = "[tochar 0, tochar sq, typ, tochar (?j div 95), tochar (?j mod 95)]"
    have j: "?j + 2 > 94" "?j < 1008" using False b assms(8) by auto
    have jr: "0 \<le> ?j div 95" "?j div 95 < 224" "0 \<le> ?j mod 95" "?j mod 95 < 224"
      using j by (simp_all add: pos_imp_zdiv_nonneg_iff)
    note hdr = spkt_header_long [OF j assms(5-7)]
    have hb: "has_bytes ?f 0 ?h" "?f 0 = tochar 0" "?f 1 = tochar sq" "?f 2 = typ" "?f 3 = tochar (?j div 95)"
        "?f 4 = tochar (?j mod 95)" "?f 5 = tochar (chk1 ?h)"
      using assms(1) unfolding hdr by (simp_all add: numeral_eq_Suc)
    have c: "xunchar (?f 5) = chk1 ?h" "xunchar (?f 0) = 0" "xunchar (?f 1) = sq"
        "xunchar (?f 3) * 95 + xunchar (?f 4) = ?j"
      using chk1_range [of ?h] jr sq unfolding hb(2-7) by (simp_all add: xunchar_tochar_small)
    let ?s0 = "s\<lparr>mem := (mem s)(IPKTBUF := ?f(5 := 0))\<rparr>"
    have str: "read_str ?s0 (Ptr IPKTBUF 0) = Some ?h"
    proof (rule read_str_in)
      show "has_bytes (mem ?s0 IPKTBUF) (nat 0) (?h @ [0])"
        using hb(1) by (simp add: numeral_eq_Suc)
      show "0 \<notin> set ?h"
        using jr assms(5-7) nonzero_tochar [of 0] nonzero_tochar [of sq] by (auto simp: nonzero_tochar)
    qed simp_all
    have poke0: "poke (Ptr IPKTBUF 0) 5 0 s = Some ?s0" "poke (Ptr IPKTBUF 0) 5 (?f 5) ?s0 = Some s"
      by (simp_all add: poke_in)
    have "rx_long_header ops s = Some (Go (Ptr IPKTBUF 6, ?len), s)"
      using pk6 [of s] poke0 str c b by (simp add: rx_long_header_def)
    then show ?thesis
      using False assms(4-6) pk6 [of s] c b hb(4)
      by (auto simp: rx_header_def bind_step_def reads_type_def hdr Let_def)
  qed
qed

lemma check_bytes_mem [simp]: "check_bytes (s\<lparr>mem := m\<rparr>) = check_bytes s"
  by (intro ext) (simp add: check_bytes_def chk3_cong [of "s\<lparr>mem := m\<rparr>" s])

lemma rx_check_accepts:
  assumes "has_bytes (mem s IPKTBUF) 0 (hdr @ dat @ chk)" and "plain_check s" and "length chk = nat (k_bct s)"
    and "check_bytes s (k_bct s) chk (hdr @ dat)" and "0 \<notin> set hdr" and "0 \<notin> set dat"
    and "v_pdf v = Ptr IPKTBUF (int (length hdr))" and "v_datalen v = int (length dat)"
    and "v_rtyp v = T_S \<or> k_state s = S_INIT \<longrightarrow> k_bct s = 1" and "length hdr + length dat + 3 < 1004"
  shows "\<exists>t. rx_check ops v s = Some (Go v, t) \<and> read_str t (v_pdf v) = Some dat
    \<and> t = s\<lparr>mem := (mem s)(IPKTBUF := (mem s IPKTBUF)(length hdr + length dat := 0))\<rparr>"
proof -
  let ?f = "mem s IPKTBUF" and ?n = "length hdr + length dat"
  let ?t = "s\<lparr>mem := (mem s)(IPKTBUF := ?f(?n := 0))\<rparr>"
  have b: "k_bcta3 s = 0" "k_bct s = 1 \<or> k_bct s = 2 \<or> k_bct s = 3"
    using assms(2) by (auto simp: plain_check_def)
  then have lc: "length chk \<le> 3" using assms(3) by auto
  have chklen: "rx_chklen v s = (k_bct s, s)"
    using b assms(9) by (auto simp: rx_chklen_def)
  have "map ?f [?n..<?n + length chk] = chk"
    using assms(1) by (intro map_eq_has_bytes) (simp add: has_bytes_append)
  then have pbc: "read_bytes s (Ptr IPKTBUF (int ?n)) (nat (k_bct s)) = Some chk"
    using assms(3,10) lc by (simp add: read_bytes_in nat_int_add)
  have pk: "poke (v_pdf v) (v_datalen v) 0 s = Some ?t"
    using assms(7,8,10) by (simp add: poke_in nat_int_add)
  have hb: "has_bytes ?f 0 hdr" "has_bytes ?f (length hdr) dat"
    using assms(1) by (simp_all add: has_bytes_append)
  have body: "read_str ?t (Ptr IPKTBUF 0) = Some (hdr @ dat)"
    using assms(5,6,10) hb by (intro read_str_in) (simp_all add: has_bytes_append has_bytes_upd_out)
  have "read_str ?t (v_pdf v) = Some dat"
    unfolding assms(7) using assms(6,10) hb by (intro read_str_in) (simp_all add: has_bytes_append has_bytes_upd_out)
  moreover have "rx_check ops v s = Some (Go v, ?t)"
    using chklen pbc pk body assms(4,7,8,10) lc b by (auto simp: rx_check_def Let_def)
  ultimately show ?thesis by blast
qed

subsection \<open>From the sender's buffer to the receiver's\<close>

text \<open>Bytes that neither end a string nor delimit a packet.\<close>

definition clean :: "byte \<Rightarrow> bool" where
  "clean x \<longleftrightarrow> x \<noteq> 0 \<and> x \<noteq> PACKET_START \<and> x \<noteq> PACKET_END"

lemma clean_tochar: "0 \<le> n \<Longrightarrow> n < 224 \<Longrightarrow> clean (tochar n)"
  using tochar_no_control by (simp add: clean_def)

lemma clean_block_check: "x \<in> set (block_check a b body) \<Longrightarrow> clean x"
  by (erule block_check_range) (simp add: clean_tochar)

lemma clean_spkt_header:
  assumes "0 \<le> len" and "0 < b" and "len + b < 1008" and "0 \<le> sq" and "sq < 64" and "clean typ"
  shows "\<forall>x \<in> set (spkt_header typ sq len b). clean x" and "length (spkt_header typ sq len b) \<in> {3, 6}"
proof -
  have "(\<forall>x \<in> set (spkt_header typ sq len b). clean x) \<and> length (spkt_header typ sq len b) \<in> {3, 6}"
  proof (cases "len + b + 2 \<le> 94")
    case True
    then show ?thesis using assms by (simp add: spkt_header_short clean_tochar)
  next
    case False
    have "0 \<le> (len + b) div 95" "(len + b) div 95 < 224" "0 \<le> (len + b) mod 95" "(len + b) mod 95 < 224"
      using assms(1-3) by (simp_all add: pos_imp_zdiv_nonneg_iff)
    moreover have "0 \<le> chk1 h" "chk1 h < 224" for h using chk1_range [of h] by simp_all
    ultimately show ?thesis
      using False assms by (simp add: spkt_header_long clean_def [of "typ"] clean_tochar)
  qed
  then show "\<forall>x \<in> set (spkt_header typ sq len b). clean x" "length (spkt_header typ sq len b) \<in> {3, 6}"
    by simp_all
qed

text \<open>The two ends agree on the framing and on the check.\<close>

definition agree :: "'v kst \<Rightarrow> 'w kst \<Rightarrow> bool" where
  "agree a s \<longleftrightarrow> plain_check s \<and> k_bct a = k_bct s \<and> k_crcta a = k_crcta s \<and> k_crctb a = k_crctb s
     \<and> k_s_soh a = b2i PACKET_START \<and> k_s_eom a = b2i PACKET_END
     \<and> k_r_soh s = b2i PACKET_START \<and> k_r_eom s = b2i PACKET_END \<and> k_parity s = 0"

text \<open>The packet can be sent: a type and data without framing bytes, a sequence number, and a length within bounds.\<close>

definition sendable :: "byte \<Rightarrow> int \<Rightarrow> byte list \<Rightarrow> int \<Rightarrow> 'w kst \<Rightarrow> bool" where
  "sendable typ sq dat b s \<longleftrightarrow> clean typ \<and> list_all clean dat \<and> 0 \<le> sq \<and> sq < 64
     \<and> length dat + 10 < 1000 \<and> int (length dat) + 8 \<le> k_r_maxlen s
     \<and> (b = 2 \<longrightarrow> chk2 (spkt_header typ sq (int (length dat)) b @ dat) < 4096)"

lemma rx_accepts:
  fixes a :: "'v kst" and s :: "'w kst"
  defines "body \<equiv> \<lambda>typ sq dat. spkt_header typ sq (int (length dat)) (k_bct s) @ dat"
  assumes agr: "agree a s" and snd: "sendable typ sq dat (k_bct s) s" and rd: "reads_type typ (length dat) s"
    and hb: "has_bytes (mem s IPKTBUF) 0 (body typ sq dat @ block_check a (k_bct a) (body typ sq dat) @ [0])"
  shows "\<exists>v t. bind_step (rx_header ops n s) (rx_check ops) = Some (Go v, t)
    \<and> v_rtyp v = typ \<and> v_rseq v = sq \<and> v_datalen v = int (length dat) \<and> read_str t (v_pdf v) = Some dat"
proof -
  let ?b = "k_bct s"
  let ?h = "spkt_header typ sq (int (length dat)) ?b"
  let ?v = "\<lparr>v_pdf = Ptr IPKTBUF (int (length ?h)), v_datalen = int (length dat), v_rtyp = typ, v_rseq = sq, v_s = cancel_text s\<rparr>"
  have b: "?b \<in> {1, 2, 3}" "plain_check s" "k_bct a = ?b" using agr by (auto simp: agree_def plain_check_def)
  have sd: "clean typ" "list_all clean dat" "0 \<le> sq" "sq < 64" "length dat + 10 < 1000" using snd by (auto simp: sendable_def)
  have ch: "\<forall>x \<in> set ?h. clean x" "length ?h \<in> {3, 6}"
    using clean_spkt_header [of "int (length dat)" ?b sq "typ"] sd b by auto
  let ?c = "block_check a ?b (?h @ dat)"
  have hdr: "rx_header ops n s = Some (Go ?v, s)"
    using hb b sd rd by (intro rx_header_parses [where rest = "dat @ ?c @ [0]"]) (auto simp: body_def clean_def)
  have lc: "length ?c = nat ?b" using b(1) length_block_check by auto
  have ok: "check_bytes s ?b ?c (?h @ dat)"
    using agr snd b(1) by (intro check_bytes_block_check) (auto simp: agree_def sendable_def)
  have hb': "has_bytes (mem s IPKTBUF) 0 (?h @ dat @ ?c)"
    using hb b(3) by (simp add: body_def has_bytes_append)
  have z: "0 \<notin> set ?h" "0 \<notin> set dat" using ch(1) sd(2) by (auto simp: clean_def list_all_iff)
  have lim: "length ?h + length dat + 3 < 1004" using ch(2) sd(5) by auto
  have st: "typ = T_S \<or> k_state s = S_INIT \<longrightarrow> ?b = 1" using rd by (simp add: reads_type_def)
  have "\<exists>t. rx_check ops ?v s = Some (Go ?v, t) \<and> read_str t (v_pdf ?v) = Some dat
      \<and> t = s\<lparr>mem := (mem s)(IPKTBUF := (mem s IPKTBUF)(length ?h + length dat := 0))\<rparr>"
    using rx_check_accepts [OF hb' b(2) lc ok z, of ?v ops] lim st by simp
  then show ?thesis
    using hdr by (auto simp: bind_step_def)
qed

lemma kreadpkt_ble:
  "kreadpkt (kermit_handler w) p s = kreadpkt_loop ble_mldp_get_byte ft_wait_ms p [] False 0 0 s"
  by (simp add: kreadpkt_def kermit_handler_def)

lemma b2i_delimiter: "b2i x = 0x13 \<longleftrightarrow> x = PACKET_START" "b2i x = 0x0D \<longleftrightarrow> x = PACKET_END"
  by (simp_all add: word_uint_eq_iff)

lemma frame_kept:
  fixes s t :: "'d ust"
  assumes "t = stored 0 bs (moved d s)"
  shows "agree a t = agree a s" "sendable typ sq dat b t = sendable typ sq dat b s" "reads_type typ m t = reads_type typ m s"
    "k_bct t = k_bct s" "u_dev (wd t) = d"
  by (simp_all add: assms agree_def sendable_def reads_type_def plain_check_def stored_def moved_def)

definition packet_body :: "'v kst \<Rightarrow> byte \<Rightarrow> int \<Rightarrow> byte list \<Rightarrow> byte list" where
  "packet_body a typ sq dat = (let hd = spkt_header typ sq (int (length dat)) (k_bct a)
     in hd @ dat @ block_check a (k_bct a) (hd @ dat))"

lemma packet_on_the_wire:
  fixes s :: "'w kst" and a :: "'v kst"
  assumes "agree a s" and "sendable typ sq dat (k_bct s) s"
  shows "spkt_bytes a typ sq dat (int (length dat)) = PACKET_START # packet_body a typ sq dat @ [PACKET_END]"
    and "\<forall>x \<in> set (packet_body a typ sq dat). clean x"
    and "4 \<le> length (packet_body a typ sq dat)" "length (packet_body a typ sq dat) \<le> length dat + 9"
proof -
  let ?b = "k_bct a"
  define hd where "hd = spkt_header typ sq (int (length dat)) ?b"
  define chk where "chk = block_check a ?b (hd @ dat)"
  have agr: "k_bct s = ?b" "?b \<in> {1, 2, 3}" "k_s_soh a = 0x13" "k_s_eom a = 0x0D"
    using assms(1) by (auto simp: agree_def plain_check_def)
  have snd: "clean typ" "list_all clean dat" "0 \<le> sq" "sq < 64" "length dat + 10 < 1000"
    using assms(2) by (auto simp: sendable_def)
  have hd: "\<forall>x \<in> set hd. clean x" "length hd \<in> {3, 6}"
    using clean_spkt_header [of "int (length dat)" ?b sq "typ"] snd agr(2) unfolding hd_def by auto
  have chk: "\<forall>x \<in> set chk. clean x" "length chk = nat ?b"
    using clean_block_check length_block_check [OF agr(2)] by (auto simp: chk_def)
  have body: "packet_body a typ sq dat = hd @ dat @ chk" by (simp add: packet_body_def Let_def hd_def chk_def)
  show cl: "\<forall>x \<in> set (packet_body a typ sq dat). clean x" using hd(1) chk(1) snd(2) by (auto simp: body list_all_iff)
  then have "cstr (hd @ dat) = hd @ dat" by (intro cstr_id) (auto simp: body clean_def)
  then show "spkt_bytes a typ sq dat (int (length dat)) = PACKET_START # packet_body a typ sq dat @ [PACKET_END]"
    using agr by (simp add: spkt_bytes_def Let_def body hd_def chk_def)
  show "4 \<le> length (packet_body a typ sq dat)" "length (packet_body a typ sq dat) \<le> length dat + 9"
    using hd(2) chk(2) agr(2) by (auto simp: body)
qed

text \<open>
  C2. Framing round trip over Bluetooth. Let two engines agree on the framing and the block check, and let
  the bytes \<^verbatim>\<open>spkt\<close> builds for a packet arrive in the receive FIFO, behind any noise that has no packet start
  and is not the abort command, and before any other bytes. Then \<^verbatim>\<open>kreadpkt\<close> returns, the parser and the
  block check of \<^verbatim>\<open>kermit()\<close> accept the packet with the type, the sequence number and the data of the
  sender, for short and long packets and for each of the three checks, and the bytes behind the packet
  are still in the FIFO. This needs a byte of padding behind the array \<^verbatim>\<open>cmd\<close> of \<^verbatim>\<open>kreadpkt\<close>: every packet has at least six bytes, and
  the sixth is written to \<^verbatim>\<open>cmd[5]\<close>. On a platform without it, reading any packet is undefined.
\<close>

theorem framing_roundtrip:
  fixes s :: "'g central ust" and a :: "'v kst"
  assumes "agree a s" and "sendable typ sq dat (k_bct s) s" and "reads_type typ (length dat) s"
    and "rx_up (u_dev (wd s))"
    and "rx_avail (u_dev (wd s)) = noise @ spkt_bytes a typ sq dat (int (length dat)) @ rest"
    and "PACKET_START \<notin> set noise" and "\<not> prefix ABORT noise"
  shows "if u_cmd_slack (wd s)
    then \<exists>n s1 more v s2. kreadpkt (kermit_handler w) (Ptr IPKTBUF 0) s = Some (n, s1) \<and> 4 \<le> n
      \<and> rx_avail (u_dev (wd s1)) = rest @ more
      \<and> bind_step (rx_header ops n s1) (rx_check ops) = Some (Go v, s2)
      \<and> v_rtyp v = typ \<and> v_rseq v = sq \<and> v_datalen v = int (length dat) \<and> read_str s2 (v_pdf v) = Some dat
    else kreadpkt (kermit_handler w) (Ptr IPKTBUF 0) s = None"
proof -
  let ?body = "packet_body a typ sq dat"
  note wire = packet_on_the_wire [OF assms(1,2)]
  have agr: "k_bct a = k_bct s" "k_r_soh s = 0x13" "k_r_eom s = 0x0D" "k_parity s = 0"
    using assms(1) by (auto simp: agree_def)
  have snd: "length dat + 10 < 1000" "int (length dat) + 8 \<le> k_r_maxlen s"
    using assms(2) by (auto simp: sendable_def)
  have ov: "overrun (length noise + length ?body + 2) s \<longleftrightarrow> \<not> u_cmd_slack (wd s)" using wire(3) by (auto simp: overrun_def)
  have rd: "if overrun (length noise + length ?body + 2) s then kreadpkt_loop ble_mldp_get_byte ft_wait_ms (Ptr IPKTBUF 0) [] False 0 0 s = None
    else \<exists>d' more. kreadpkt_loop ble_mldp_get_byte ft_wait_ms (Ptr IPKTBUF 0) [] False 0 0 s =
      Some (int (length ?body), stored 0 (?body @ [0]) (moved d' s)) \<and> rx_up d' \<and> rx_avail d' = rest @ more"
  proof (rule ble.read_packet)
    show "\<forall>x \<in> set ?body. b2i x \<noteq> k_r_soh s \<and> b2i x \<noteq> k_r_eom s"
      using wire(2) by (auto simp: clean_def agr(2,3) b2i_delimiter)
    show "\<forall>x \<in> set noise. b2i x \<noteq> k_r_soh s"
      using assms(6) by (auto simp: agr(2) b2i_delimiter)
    show "PACKET_START \<notin> set ABORT" by (simp add: bytes_of_string_def)
    show "rx_avail (u_dev (wd s)) = noise @ PACKET_START # ?body @ PACKET_END # rest" using assms(5) wire(1) by simp
  qed (use assms(4,7) agr snd wire in auto)
  show ?thesis
  proof (cases "u_cmd_slack (wd s)")
    case False
    then show ?thesis using rd ov by (simp add: kreadpkt_ble)
  next
    case True
    then obtain d' more where rd: "kreadpkt_loop ble_mldp_get_byte ft_wait_ms (Ptr IPKTBUF 0) [] False 0 0 s =
        Some (int (length ?body), stored 0 (?body @ [0]) (moved d' s))" and d': "rx_up d'" "rx_avail d' = rest @ more"
      using rd ov by auto
    define s1 where "s1 = stored 0 (?body @ [0]) (moved d' s)"
    note k = frame_kept [OF s1_def]
    have "has_bytes (mem s1 IPKTBUF) 0 (?body @ [0])"
      using has_bytes_splice by (simp add: s1_def stored_def)
    then have "\<exists>v t. bind_step (rx_header ops (int (length ?body)) s1) (rx_check ops) = Some (Go v, t)
      \<and> v_rtyp v = typ \<and> v_rseq v = sq \<and> v_datalen v = int (length dat) \<and> read_str t (v_pdf v) = Some dat"
      using assms(1-3) by (intro rx_accepts [of a]) (simp_all add: k agr(1) packet_body_def Let_def)
    moreover have "kreadpkt (kermit_handler w) (Ptr IPKTBUF 0) s = Some (int (length ?body), s1)"
      using rd by (simp add: kreadpkt_ble s1_def)
    moreover have "rx_avail (u_dev (wd s1)) = rest @ more" using d'(2) k(5) by simp
    moreover have "4 \<le> int (length ?body)" using wire(3) by simp
    ultimately show ?thesis using True by (simp only: if_True) blast
  qed
qed

subsection \<open>An example\<close>

text \<open>A data packet with two bytes, the engine that sends it, and the engine that has it in its FIFO behind one stray byte.\<close>

definition demo_tx :: "unit kst" where
  "demo_tx = (k_zero ())\<lparr>k_bct := 1, k_s_soh := 0x13, k_s_eom := 0x0D\<rparr>"

definition demo_wire :: "byte list" where
  "demo_wire = spkt_bytes demo_tx T_D 5 [0x41, 0x42] 2"

definition demo_central :: "byte list list central" where
  "demo_central = \<lparr>mldp_fifo_rx = \<lparr>p_buff = [0x7F] @ demo_wire @ replicate 7 0, buff_size = 15, read_pos = 0, write_pos = 9\<rparr>,
     mldp_fifo_tx = \<lparr>p_buff = replicate 16 0, buff_size = 15, read_pos = 0, write_pos = 0\<rparr>,
     ble_con_step = BLE_FILE_TRANSFER, gatt = [], ft_threads = 1, incoming = []\<rparr>"

definition demo_ble_world :: "byte list list central uio" where
  "demo_ble_world = \<lparr>u_files = (\<lambda>_. None), u_dirs = (\<lambda>_. None), u_ifile = None, u_ofile = -1, u_fds = (\<lambda>_. None),
     u_kfilename = [], u_cmd_slack = True, u_long_max = 0x7FFFFFFF, u_dev = demo_central\<rparr>"

definition demo_rx :: "byte list list central ust" where
  "demo_rx = (k_zero demo_ble_world)\<lparr>k_bct := 1, k_r_soh := 0x13, k_r_eom := 0x0D, k_r_maxlen := 1000, k_state := R_DATA, k_what := W_RECV\<rparr>"

lemma length_demo_wire: "length demo_wire = 8"
  by (simp add: demo_wire_def demo_tx_def k_zero_def spkt_bytes_def spkt_header_def block_check_def Let_def)

theorem framing_roundtrip_witness:
  "\<exists>n s1 more v s2. kreadpkt (kermit_handler demo_write) (Ptr IPKTBUF 0) demo_rx = Some (n, s1) \<and> 4 \<le> n
    \<and> rx_avail (u_dev (wd s1)) = [] @ more
    \<and> bind_step (rx_header (unixio_ops (kermit_handler demo_write)) n s1) (rx_check (unixio_ops (kermit_handler demo_write))) = Some (Go v, s2)
    \<and> v_rtyp v = T_D \<and> v_rseq v = 5 \<and> v_datalen v = int (length [0x41, 0x42 :: byte]) \<and> read_str s2 (v_pdf v) = Some [0x41, 0x42]"
proof -
  have a: "agree demo_tx demo_rx" "reads_type T_D (length [0x41, 0x42 :: byte]) demo_rx"
    by (simp_all add: agree_def plain_check_def reads_type_def demo_tx_def demo_rx_def k_zero_def)
  have b: "sendable T_D 5 [0x41, 0x42] (k_bct demo_rx) demo_rx"
    by (simp add: sendable_def clean_def demo_rx_def k_zero_def)
  have av: "fifo_content (mldp_fifo_rx demo_central) = 0x7F # demo_wire"
    using length_demo_wire by (simp add: fifo_content_def demo_central_def)
  have c: "rx_up (u_dev (wd demo_rx))"
    using length_demo_wire av
    by (simp add: rx_up_def rx_avail_def demo_rx_def k_zero_def demo_ble_world_def)
      (simp add: demo_central_def fifo_inv_def MLDP_RX_BUFF_SIZE_def)
  have d: "rx_avail (u_dev (wd demo_rx)) = [0x7F] @ spkt_bytes demo_tx T_D 5 [0x41, 0x42] (int (length [0x41, 0x42 :: byte])) @ []"
    using av by (simp add: rx_avail_def demo_rx_def k_zero_def demo_ble_world_def flip: demo_wire_def)
  have e: "PACKET_START \<notin> set [0x7F]" "\<not> prefix ABORT [0x7F]"
    by (simp_all add: bytes_of_string_def)
  have "u_cmd_slack (wd demo_rx)" by (simp add: demo_rx_def k_zero_def demo_ble_world_def)
  then show ?thesis using framing_roundtrip [OF a(1) b a(2) c d e] by (simp only: if_True)
qed

end
