(* ===== verification/Kermit_Session.thy ===== *)
theory Kermit_Session
  imports File_Transfer Kermit_Framing
begin

text \<open>
  The server before anybody talks to it: the state \<^verbatim>\<open>K_REINIT\<close> leaves, and what the engine, the library
  and the server thread do when the remote device stays silent.
\<close>

subsection \<open>The state after K_REINIT\<close>

text \<open>Both slots are free, no sequence number is in use, and the engine waits for a client.\<close>

definition fresh :: "'w kst \<Rightarrow> bool" where
  "fresh s \<longleftrightarrow> k_wslots s = k_wslots_max s \<and> k_state s = R_WAIT \<and> r_rstatus s = R_WAIT \<and> k_what s = W_RECV
     \<and> k_s_seq s = 0 \<and> k_r_seq s = 0 \<and> k_nresend s = 0 \<and> k_r_timo s = P_R_TIMO
     \<and> k_r_soh s = b2i PACKET_START \<and> k_s_soh s = b2i PACKET_START \<and> k_r_eom s = b2i PACKET_END \<and> k_s_eom s = b2i PACKET_END
     \<and> k_s_maxlen s = k_p_maxlen s \<and> k_r_maxlen s = k_p_maxlen s
     \<and> (\<forall>i < 64. k_r_pw s i = -1 \<and> k_s_pw s i = -1)
     \<and> (let p = k_ipktinfo s 0 in p_len p = 0 \<and> p_seq p = -1 \<and> p_flg p = 0 \<and> p_rtr p = 0 \<and> p_buf p = Ptr IPKTBUFS 0)
     \<and> (let p = k_opktinfo s 0 in p_len p = 0 \<and> p_seq p = -1 \<and> p_flg p = 0 \<and> p_rtr p = 0 \<and> p_buf p = Ptr OPKTBUF 0)"

text \<open>What \<^verbatim>\<open>K_REINIT\<close> keeps: the configuration of \<^verbatim>\<open>_EK_init\<close>, the transaction, and the devices.\<close>

definition same_config :: "'w kst \<Rightarrow> 'w kst \<Rightarrow> bool" where
  "same_config s t \<longleftrightarrow> k_wslots_max t = k_wslots_max s \<and> k_retry t = k_retry s \<and> k_p_maxlen t = k_p_maxlen s
     \<and> k_binary t = k_binary s \<and> k_parity t = k_parity s \<and> k_bct t = k_bct s \<and> k_bcta3 t = k_bcta3 s
     \<and> k_s_ctlq t = k_s_ctlq s \<and> k_r_ctlq t = k_r_ctlq s \<and> k_rptq t = k_rptq s \<and> k_capas t = k_capas s
     \<and> k_crcta t = k_crcta s \<and> k_crctb t = k_crctb s \<and> k_obuflen t = k_obuflen s \<and> k_zinlen t = k_zinlen s
     \<and> k_filelist t = k_filelist s \<and> r_type t = r_type s \<and> r_arg t = r_arg s \<and> wd t = wd s"

lemma free_slot_0:
  "\<exists>t. free_slots ops [0] s = Some t \<and> same_config s t \<and> p_flg (k_ipktinfo t 0) = 0 \<and> p_rtr (k_ipktinfo t 0) = 0
     \<and> p_flg (k_opktinfo t 0) = 0 \<and> p_rtr (k_opktinfo t 0) = 0"
proof -
  have "\<exists>u. free_rslot ops 0 s = Some u \<and> same_config s u \<and> p_flg (k_ipktinfo u 0) = 0 \<and> p_rtr (k_ipktinfo u 0) = 0"
    by (auto simp: free_rslot_def ipkt_def arr_get_in upd_ipkt_def arr_set_in r_pw_set_def same_config_def)
  then obtain u where u: "free_rslot ops 0 s = Some u" "same_config s u" "p_flg (k_ipktinfo u 0) = 0" "p_rtr (k_ipktinfo u 0) = 0"
    by blast
  have "\<exists>t. free_sslot 0 u = Some t \<and> same_config u t \<and> k_ipktinfo t = k_ipktinfo u
      \<and> p_flg (k_opktinfo t 0) = 0 \<and> p_rtr (k_opktinfo t 0) = 0"
    by (auto simp: free_sslot_def opkt_def arr_get_in upd_opkt_def arr_set_in s_pw_set_def same_config_def)
  with u show ?thesis by (auto simp: same_config_def)
qed

lemma k_reinit_fresh: "\<exists>t. k_reinit ops s = Some (X_OK, t) \<and> fresh t \<and> same_config s t"
proof -
  let ?s1 = "s\<lparr>mem := (mem s)(R_FILENAME := (mem s R_FILENAME)(0 := 0), R_FILEDATE := (mem s R_FILEDATE)(0 := 0)),
    r_filesize := 0, r_sofar := 0, r_sofar_rumor := 0\<rparr>"
  obtain t where t: "free_slots ops [0] ?s1 = Some t" "same_config ?s1 t" "p_flg (k_ipktinfo t 0) = 0" "p_rtr (k_ipktinfo t 0) = 0"
      "p_flg (k_opktinfo t 0) = 0" "p_rtr (k_opktinfo t 0) = 0"
    using free_slot_0 [of ops ?s1] by blast
  have c: "same_config s t" using t(2) by (simp add: same_config_def)
  show ?thesis
    using t c
    by (simp add: k_reinit_def poke_in write_bytes_in upd_ipkt_def upd_opkt_def ipkt_def opkt_def arr_get_in arr_set_in
        reinit_params_def fresh_def same_config_def Let_def del: free_slots.simps)
qed








subsection \<open>An error packet\<close>

lemma read_bytes_lit: "read_bytes s (Lit bs) (length bs) = Some bs"
proof -
  have p: "map (\<lambda>i. peek s (Lit bs) (int i)) [0..<length bs] = map Some bs"
    by (rule nth_equalityI) (simp_all add: peek_def arr_get_in)
  have "those (map Some xs) = Some xs" for xs :: "byte list" by (induction xs) auto
  then show ?thesis by (simp add: read_bytes_def p)
qed

text \<open>An error packet with a constant text is built with check type 1 (or 3 when forced) and handed to the device.\<close>

lemma epkt_sends:
  fixes s :: "'w kst"
  defines "u \<equiv> s\<lparr>k_bct := (if k_bcta3 s \<noteq> 0 then 3 else 1)\<rparr>"
  assumes "0 \<notin> set bs" and "length bs \<le> 80"
  shows "epkt ops (Lit bs) s = do {
      (rc, t) \<leftarrow> op_txd ops (spkt_bytes u T_E 0 bs (int (length bs)))
        (u\<lparr>k_s_seq := 0, k_opktlen := int (length (spkt_bytes u T_E 0 bs (int (length bs))))\<rparr>);
      Some (t\<lparr>k_bct := (if k_bcta3 s \<noteq> 0 then 3 else k_bct s)\<rparr>) }"
    and "length (spkt_bytes u T_E 0 bs (int (length bs))) \<le> 100"
proof -
  have b: "k_bct u = 1 \<or> k_bct u = 3" by (simp add: u_def)
  then have h: "spkt_header T_E 0 (int (length bs)) (k_bct u) = [tochar (int (length bs) + k_bct u + 2), tochar 0, T_E]"
    using assms(3) by (intro spkt_header_short) auto
  have l: "length (spkt_bytes u T_E 0 bs (int (length bs))) = length bs + nat (k_bct u) + 5"
    using b length_block_check [of "k_bct u" u] by (auto simp: spkt_bytes_def Let_def h)
  show "length (spkt_bytes u T_E 0 bs (int (length bs))) \<le> 100"
    using b assms(3) l by auto
  have r: "read_str t (Lit bs) = Some bs" for t :: "'w kst" using assms(2) by (simp add: read_str_def cstr_id)
  have bb: "k_bct u = (if k_bcta3 u \<noteq> 0 then 3 else k_bct u)" "k_bcta3 u = k_bcta3 s" by (simp_all add: u_def)
  have "spkt_with ops c T_E 0 (-1) (Lit bs) u = op_txd ops (spkt_bytes u T_E 0 bs (int (length bs)))
        (u\<lparr>k_s_seq := 0, k_opktlen := int (length (spkt_bytes u T_E 0 bs (int (length bs))))\<rparr>)" for c
    using assms(3) l b h r read_bytes_lit [of u bs] u_def
    by (auto simp: spkt_with_def unsaved_def spkt_send_def Let_def)
  then show "epkt ops (Lit bs) s = do {
      (rc, t) \<leftarrow> op_txd ops (spkt_bytes u T_E 0 bs (int (length bs)))
        (u\<lparr>k_s_seq := 0, k_opktlen := int (length (spkt_bytes u T_E 0 bs (int (length bs))))\<rparr>);
      Some (t\<lparr>k_bct := (if k_bcta3 s \<noteq> 0 then 3 else k_bct s)\<rparr>) }"
    by (simp add: epkt_def epkt_with_def Let_def flip: u_def)
qed

subsection \<open>A silent peer\<close>

text \<open>Nothing has arrived and nothing will; there is room to send one more packet.\<close>

definition silent_link :: "'g central \<Rightarrow> bool" where
  "silent_link c \<longleftrightarrow> duplex_up c \<and> rx_quiet c \<and> rx_avail c = []"

definition idle :: "'g central ust \<Rightarrow> bool" where
  "idle s \<longleftrightarrow> k_what s = W_RECV \<and> k_state s = R_WAIT \<and> k_wslots s = 1 \<and> p_seq (k_ipktinfo s 0) < 0 \<and> 0 < k_r_timo s
     \<and> silent_link (u_dev (wd s))"

abbreviation "ble_ops w \<equiv> unixio_ops (kermit_handler w)"
abbreviation "ble_rxd w \<equiv> kreadpkt (kermit_handler w) (Ptr IPKTBUF 0)"

text \<open>The part of the state the caller sees in the end.\<close>

definition outcome :: "'w kst \<Rightarrow> int \<times> kptr \<times> int" where
  "outcome s = (r_type s, r_arg s, k_nresend s)"

lemma idle_ok2rxd: "idle s \<Longrightarrow> ok2rxd s = Some (True, s\<lparr>k_do_rxd := 1\<rparr>)"
  by (simp add: idle_def ok2rxd_def nused_sslots_def slots_def opkt_def arr_get_in)

lemma idle_read:
  assumes "idle s"
  shows "\<exists>t. ble_rxd w (s\<lparr>k_do_rxd := 1\<rparr>) = Some (0, t) \<and> idle t \<and> k_do_rxd t = 1 \<and> outcome t = outcome s"
proof -
  let ?s = "s\<lparr>k_do_rxd := 1\<rparr>"
  note i = assms [unfolded idle_def silent_link_def]
  have "\<exists>d'. kreadpkt_loop ble_mldp_get_byte ft_wait_ms (Ptr IPKTBUF 0) [] False 0 0 ?s = Some (0, ?s\<lparr>wd := (wd ?s)\<lparr>u_dev := d'\<rparr>\<rparr>)
      \<and> duplex_up d' \<and> rx_quiet d' \<and> rx_avail d' = []"
    using i by (intro duplex.read_quiet) simp_all
  then show ?thesis
    using i by (auto simp: kreadpkt_ble idle_def silent_link_def outcome_def)
qed

lemma idle_run: "idle s \<Longrightarrow> k_do_rxd s = 1 \<Longrightarrow> kermit ops K_RUN 0 msg s = Some (X_OK, s)"
  by (simp add: idle_def kermit_def test_rslots_idle k_run_def k_receive_def rx_short_def ret_def)

lemma ble_txd:
  assumes "duplex_up (u_dev (wd s))" and "length pkt \<le> 100"
  shows "\<exists>rc d. op_txd (ble_ops w) pkt s = Some (rc, s\<lparr>wd := (wd s)\<lparr>u_dev := d\<rparr>\<rparr>)"
proof -
  have "tx_ok (u_dev (wd s))"
    and "length (fifo_content (mldp_fifo_tx (u_dev (wd s)))) + length pkt < fifo_capacity (mldp_fifo_tx (u_dev (wd s)))"
    using assms by (auto simp: duplex_up_def)
  from ble_send_returns [OF this, of w] obtain rc d where "ble_mldp_send_bytes w pkt (u_dev (wd s)) = Some (rc, d)" by blast
  then show ?thesis by (auto simp: unixio_ops_def ktx_data_def kermit_handler_def)
qed

lemma close_output: "\<exists>rc w'. op_closef (unixio_ops h) 0 2 s = Some (rc, s\<lparr>wd := w'\<rparr>)"
proof (cases "u_ofile (wd s) < 0")
  case True
  then show ?thesis by (intro exI [of _ X_OK] exI [of _ "wd s"]) (simp add: unixio_ops_def kclosefile_def)
qed (auto simp: unixio_ops_def kclosefile_def Let_def)

text \<open>The error packet at the end of an idle session: it is sent, and the transaction's record stays as it was.\<close>

lemma idle_error:
  assumes "idle s"
  shows "\<exists>t. kermit (ble_ops w) K_ERROR len (lit ''eksw to'') s = Some (X_DONE, t) \<and> outcome t = outcome s"
proof -
  let ?bs = "bytes_of_string ''eksw to''"
  let ?u = "s\<lparr>k_bct := (if k_bcta3 s \<noteq> 0 then 3 else 1)\<rparr>"
  let ?pkt = "spkt_bytes ?u T_E 0 ?bs (int (length ?bs))"
  let ?v = "?u\<lparr>k_s_seq := 0, k_opktlen := int (length ?pkt)\<rparr>"
  have bs: "0 \<notin> set ?bs" "length ?bs \<le> 80" by (simp_all add: bytes_of_string_def)
  have up: "duplex_up (u_dev (wd ?v))" using assms by (simp add: idle_def silent_link_def)
  obtain rc d where tx: "op_txd (ble_ops w) ?pkt ?v = Some (rc, ?v\<lparr>wd := (wd ?v)\<lparr>u_dev := d\<rparr>\<rparr>)"
    using ble_txd [OF up, of ?pkt w] epkt_sends(2) [OF bs, of s] by blast
  let ?t = "?v\<lparr>wd := (wd ?v)\<lparr>u_dev := d\<rparr>, k_bct := (if k_bcta3 s \<noteq> 0 then 3 else k_bct s)\<rparr>"
  have e: "epkt (ble_ops w) (lit ''eksw to'') s = Some ?t"
    using tx epkt_sends(1) [OF bs, of "ble_ops w" s] by (simp add: lit_def)
  have st: "k_state ?t \<noteq> S_DATA" using assms by (simp add: idle_def)
  obtain rc' w' where c: "op_closef (ble_ops w) 0 2 ?t = Some (rc', ?t\<lparr>wd := w'\<rparr>)" using close_output by blast
  have "k_error (ble_ops w) (lit ''eksw to'') s = Some (X_DONE, ?t\<lparr>wd := w'\<rparr>)"
    using e st c by (simp add: k_error_def)
  moreover have "test_rslots (ble_ops w) s = Some (X_OK, s)"
    using assms by (intro test_rslots_idle) (simp add: idle_def)
  ultimately show ?thesis
    by (auto simp: kermit_def outcome_def)
qed

lemma main_loop_silent:
  assumes "idle s"
  shows "\<exists>t. main_loop (ble_ops w) (ble_rxd w) (int n) start len s = Some (K_TIMEOUT, t) \<and> outcome t = outcome s"
  using assms
proof (induction n arbitrary: start len s)
  case 0
  obtain t where t: "ble_rxd w (s\<lparr>k_do_rxd := 1\<rparr>) = Some (0, t)" "idle t" "outcome t = outcome s"
    using idle_read [OF 0] by blast
  obtain u where u: "kermit (ble_ops w) K_ERROR 0 (lit ''eksw to'') t = Some (X_DONE, u)" "outcome u = outcome t"
    using idle_error [OF t(2)] by blast
  show ?case
    using t u by (cases start) (simp_all add: main_loop.simps [of _ _ 0] idle_ok2rxd [OF 0] main_timeout_def)
next
  case (Suc n)
  obtain t where t: "ble_rxd w (s\<lparr>k_do_rxd := 1\<rparr>) = Some (0, t)" "idle t" "k_do_rxd t = 1" "outcome t = outcome s"
    using idle_read [OF Suc.prems] by blast
  have step: "main_loop (ble_ops w) (ble_rxd w) (int (Suc n)) start len s
      = main_loop (ble_ops w) (ble_rxd w) (int n) False 0 t"
    by (subst main_loop.simps) (simp add: idle_ok2rxd [OF Suc.prems] t(1) idle_run [OF t(2,3)])
  show ?case
    using Suc.IH [OF t(2), of False 0] t(4) unfolding step by simp
qed

subsection \<open>The server on a silent link\<close>

text \<open>The engine between two transactions, with the one window slot \<^verbatim>\<open>_EK_init\<close> configures.\<close>

definition parked :: "'g central ust \<Rightarrow> bool" where
  "parked s \<longleftrightarrow> k_wslots_max s = 1 \<and> (k_wslots s \<le> 0 \<or> k_wslots s = 1 \<and> p_seq (k_ipktinfo s 0) < 0)
     \<and> 0 \<le> k_retry s \<and> silent_link (u_dev (wd s))"

lemma parked_reinit:
  assumes "parked s"
  shows "\<exists>t. kermit ops K_REINIT len msg (s\<lparr>r_type := A_WAIT, k_filelist := fl\<rparr>) = Some (X_OK, t)
    \<and> idle t \<and> r_type t = A_WAIT \<and> k_nresend t = 0 \<and> k_retry t = k_retry s"
proof -
  let ?s = "s\<lparr>r_type := A_WAIT, k_filelist := fl\<rparr>"
  note p = assms [unfolded parked_def]
  obtain t where t: "k_reinit ops ?s = Some (X_OK, t)" "fresh t" "same_config ?s t"
    using k_reinit_fresh by blast
  have "test_rslots ops ?s = Some (X_OK, ?s)" using p by (intro test_rslots_idle) simp
  then show ?thesis
    using t p by (auto simp: kermit_def fresh_def same_config_def idle_def Let_def)
qed

lemma start_server_silent:
  assumes "parked s"
  shows "\<exists>arg t. EK_start_server (ble_ops w) (ble_rxd w) True s = Some (K_TIMEOUT, ek_type_other, arg, 0, t)"
proof -
  obtain t where t: "kermit (ble_ops w) K_REINIT 0 (lit ''eksw init'') (s\<lparr>r_type := A_WAIT, k_filelist := None\<rparr>) = Some (X_OK, t)"
      "idle t" "r_type t = A_WAIT" "k_nresend t = 0" "k_retry t = k_retry s"
    using parked_reinit [OF assms] by blast
  have r: "0 \<le> k_retry t + 1" using assms t(5) by (simp add: parked_def)
  obtain u where u: "main_loop (ble_ops w) (ble_rxd w) (k_retry t + 1) True 0 t = Some (K_TIMEOUT, u)" "outcome u = outcome t"
    using main_loop_silent [OF t(2), of w "nat (k_retry t + 1)" True 0] r by auto
  have o: "r_type u = A_WAIT" "k_nresend u = 0" using u(2) t(3,4) by (simp_all add: outcome_def)
  obtain rc w' where c: "op_closef (ble_ops w) 0 2 u = Some (rc, u\<lparr>wd := w'\<rparr>)" using close_output by blast
  show ?thesis
    using t(1) u(1) o c by (simp add: EK_start_server_def kermit_main_def main_start_def ek_type_of_def Let_def)
qed

text \<open>
  A server nobody talks to gives up. When the link is up, the receive FIFO is empty, nothing
  arrives any more and the transmit FIFO has room, \<^verbatim>\<open>_EK_start_server\<close> returns, with \<^verbatim>\<open>K_TIMEOUT\<close>, the
  type \<^verbatim>\<open>ek_type_other\<close> and no retransmission counted, whatever the GATT client does with the error
  packet sent at the end.
\<close>

theorem silent_server_times_out:
  assumes "k_wslots_max s = 1" and "k_wslots s \<le> 0 \<or> k_wslots s = 1 \<and> p_seq (k_ipktinfo s 0) < 0"
    and "0 \<le> k_retry s" and "silent_link (u_dev (wd s))"
  shows "\<exists>arg t. EK_start_server (unixio_ops (kermit_handler w)) (kreadpkt (kermit_handler w) (Ptr IPKTBUF 0)) True s
    = Some (K_TIMEOUT, ek_type_other, arg, 0, t)"
  using assms by (intro start_server_silent) (simp add: parked_def)

lemma inited_parked: "inited t \<Longrightarrow> silent_link (u_dev (wd t)) \<Longrightarrow> parked t"
  by (simp add: inited_def parked_def)

lemma task_silent:
  assumes "\<not> initialised g" and "silent_link (u_dev (wd (engine g)))"
  shows "\<exists>g'. ft_task (unixio_ops (kermit_handler w)) (kreadpkt (kermit_handler w) (Ptr IPKTBUF 0)) True g
    = Some ([(ETIME, ft_type_other)], FT_SUCCESS, g') \<and> \<not> initialised g'"
proof -
  let ?o = "ble_ops w" and ?r = "ble_rxd w"
  obtain e where e: "EK_init ?o (lit ''img/'') True (engine g) = Some (K_SUCCESS, e)" "inited e" "wd e = wd (engine g)"
    using EK_init_succeeds [OF refl, of ?o "bytes_of_string ''img/''" "engine g"] by (auto simp: lit_def)
  let ?g = "g\<lparr>ft_mode := ft_mode_server, initialised := True, engine := e\<rparr>"
  have init: "FT_init ?o ft_mode_server (lit ''img/'') True g = Some (FT_SUCCESS, ?g)"
    using assms(1) e(1) by (simp add: FT_init_def lit_def ft_code_def)
  have "parked e" using e(2,3) assms(2) by (intro inited_parked) simp_all
  then obtain arg t where "EK_start_server ?o ?r True e = Some (K_TIMEOUT, ek_type_other, arg, 0, t)"
    using start_server_silent by blast
  then have "FT_start_server ?o ?r True True True ?g
      = Some (ETIME, Some \<lparr>rep_type = ft_type_other, rep_arg = arg, rep_nresend = 0\<rparr>, ?g\<lparr>engine := t\<rparr>)"
    by (simp add: FT_start_server_def ft_type_of_def ft_code_def)
  then have "ft_loop ?o ?r None False ?g = Some ([(ETIME, ft_type_other)], ?g\<lparr>engine := t\<rparr>)"
    by (simp add: ft_loop.simps [of ?o ?r None False])
  then show ?thesis
    by (simp add: ft_task_def init FT_deinit_def EK_deinit_def)
qed

text \<open>
  C3. The server thread ends. Started on a closed library over a silent link, \<^verbatim>\<open>ft_task\<close> opens the
  library, waits for one transaction, reports a timeout (\<^verbatim>\<open>ETIME\<close>) of type \<^verbatim>\<open>ft_type_other\<close>, closes the
  library and returns.
\<close>

theorem silent_task_ends:
  assumes "\<not> initialised g" and "silent_link (u_dev (wd (engine g)))"
  shows "\<exists>g'. ft_task (unixio_ops (kermit_handler w)) (kreadpkt (kermit_handler w) (Ptr IPKTBUF 0)) True g
    = Some ([(ETIME, ft_type_other)], FT_SUCCESS, g') \<and> \<not> initialised g'"
  using assms by (rule task_silent)

subsection \<open>Example runs\<close>

definition quiet_world :: "byte list list central uio" where
  "quiet_world = \<lparr>u_files = (\<lambda>_. None), u_dirs = (\<lambda>_. None), u_ifile = None, u_ofile = -1, u_fds = (\<lambda>_. None),
     u_kfilename = [], u_cmd_slack = True, u_long_max = 0x7FFFFFFF, u_dev = quiet_central\<rparr>"

definition quiet_ft :: "byte list list central uio FT_state" where
  "quiet_ft = ft_zero (k_zero quiet_world)"

lemma silent_quiet: "silent_link quiet_central"
  using quiet_central_facts by (simp add: silent_link_def duplex_up_def rx_up_def rx_quiet_def rx_avail_def tx_ok_def)

lemma quiet_ft_facts: "\<not> initialised quiet_ft" "silent_link (u_dev (wd (engine quiet_ft)))" "wd (engine quiet_ft) = quiet_world"
  using silent_quiet by (simp_all add: quiet_ft_def ft_zero_def k_zero_def quiet_world_def)

theorem silent_task_ends_witness:
  "\<exists>g'. ft_task (unixio_ops (kermit_handler demo_write)) (kreadpkt (kermit_handler demo_write) (Ptr IPKTBUF 0)) True quiet_ft
    = Some ([(ETIME, ft_type_other)], FT_SUCCESS, g') \<and> \<not> initialised g'"
  by (rule silent_task_ends [OF quiet_ft_facts(1,2)])


theorem silent_server_times_out_witness:
  "\<exists>arg t. EK_start_server (unixio_ops (kermit_handler demo_write)) (kreadpkt (kermit_handler demo_write) (Ptr IPKTBUF 0)) True
      ((k_zero quiet_world)\<lparr>k_wslots_max := 1, k_retry := 10\<rparr>) = Some (K_TIMEOUT, ek_type_other, arg, 0, t)"
  using silent_quiet by (intro silent_server_times_out) (simp_all add: k_zero_def quiet_world_def)

lemma quiet_ft_init:
  "\<exists>g'. FT_init (unixio_ops (kermit_handler demo_write)) ft_mode_server (lit ''img/'') True quiet_ft = Some (FT_SUCCESS, g')"
  using EK_init_succeeds [OF refl, of "unixio_ops (kermit_handler demo_write)" "bytes_of_string ''img/''" "engine quiet_ft"]
    quiet_ft_facts(1)
  by (auto simp: FT_init_def lit_def ft_code_def)

theorem ft_refines_contract_witness:
  "\<exists>g'. ft_exec (unixio_ops (kermit_handler demo_write)) (kreadpkt (kermit_handler demo_write) (Ptr IPKTBUF 0))
      (Init ft_mode_server (lit ''img/'') True) quiet_ft = Some (FT_SUCCESS, g') \<and> ft_abs_of g' = Open ft_mode_server"
proof -
  let ?o = "unixio_ops (kermit_handler demo_write)" and ?r = "kreadpkt (kermit_handler demo_write) (Ptr IPKTBUF 0)"
  obtain g' where g: "ft_exec ?o ?r (Init ft_mode_server (lit ''img/'') True) quiet_ft = Some (FT_SUCCESS, g')"
    using quiet_ft_init by auto
  from ft_refines_contract [OF g] show ?thesis
    using g quiet_ft_facts(1) by (auto simp: ft_abs_of_def lit_def)
qed

theorem ft_open_close_balance_witness:
  "\<exists>g'. ft_run (unixio_ops (kermit_handler demo_write)) (kreadpkt (kermit_handler demo_write) (Ptr IPKTBUF 0)) quiet_ft
      ([] @ [(Init ft_mode_server (lit ''img/'') True, FT_SUCCESS)]) g'
    \<and> (\<Sum>ce\<leftarrow>[] @ [(Init ft_mode_server (lit ''img/'') True, FT_SUCCESS)]. opens ce)
      = (\<Sum>ce\<leftarrow>[] @ [(Init ft_mode_server (lit ''img/'') True, FT_SUCCESS)]. closes ce) + of_bool (initialised g')"
proof -
  let ?o = "unixio_ops (kermit_handler demo_write)" and ?r = "kreadpkt (kermit_handler demo_write) (Ptr IPKTBUF 0)"
  obtain g' where "ft_exec ?o ?r (Init ft_mode_server (lit ''img/'') True) quiet_ft = Some (FT_SUCCESS, g')"
    using quiet_ft_init by auto
  then have run: "ft_run ?o ?r quiet_ft ([] @ [(Init ft_mode_server (lit ''img/'') True, FT_SUCCESS)]) g'"
    by (rule ft_run_call [OF ft_run_none])
  show ?thesis
    by (rule exI, rule conjI, rule run, rule ft_open_close_balance [OF run quiet_ft_facts(1)])
qed

lemma quiet_ft_get: "ft_exec ops rxd (Get Null) quiet_ft = Some (EACCES, quiet_ft)"
  using quiet_ft_facts(1) by (simp add: FT_get_def client_open_def)

theorem ft_client_calls_only_refuse_witness:
  "ft_exec (unixio_ops (kermit_handler demo_write)) (kreadpkt (kermit_handler demo_write) (Ptr IPKTBUF 0)) (Get Null) quiet_ft
      = Some (EACCES, quiet_ft) \<and> EACCES \<in> {EACCES, EINVAL} \<and> quiet_ft = quiet_ft"
  by (rule conjI, rule quiet_ft_get, rule ft_client_calls_only_refuse [where p = Null and b = False, OF _ quiet_ft_get]) simp

theorem ft_task_served_witness:
  "\<exists>outs g'. ft_task (unixio_ops (kermit_handler demo_write)) (kreadpkt (kermit_handler demo_write) (Ptr IPKTBUF 0)) True quiet_ft
      = Some (outs, FT_SUCCESS, g') \<and> served outs \<and> \<not> initialised g'"
proof -
  let ?o = "unixio_ops (kermit_handler demo_write)" and ?r = "kreadpkt (kermit_handler demo_write) (Ptr IPKTBUF 0)"
  obtain g' where g: "ft_task ?o ?r True quiet_ft = Some ([(ETIME, ft_type_other)], FT_SUCCESS, g')"
    using task_silent [OF quiet_ft_facts(1,2)] by blast
  with ft_task_served [OF g quiet_ft_facts(1)] show ?thesis by blast
qed

theorem ft_loop_type_assigned_witness:
  "ft_loop (unixio_ops (kermit_handler demo_write)) (kreadpkt (kermit_handler demo_write) (Ptr IPKTBUF 0)) None False
      (quiet_ft\<lparr>initialised := True, ft_mode := ft_mode_server\<rparr>)
    = ft_loop (unixio_ops (kermit_handler demo_write)) (kreadpkt (kermit_handler demo_write) (Ptr IPKTBUF 0)) (Some ft_type_get) False
      (quiet_ft\<lparr>initialised := True, ft_mode := ft_mode_server\<rparr>)"
  by (rule ft_loop_type_assigned) simp_all

end
