(* ===== verification/Kermit_Invariant.thy ===== *)
theory Kermit_Invariant
  imports File_Transfer Unixio
begin

text \<open>
  The invariant of the engine's control state, kept by every function of \<^verbatim>\<open>kermit.c\<close> and so by every call of
  \<^verbatim>\<open>kermit()\<close>: the block check type, the sequence numbers, the window with its one slot, the
  negotiated packet length, the protocol state and the tables of slots stay in their ranges, whatever
  packets arrive. What the engine relies on is that the device functions leave this part of \<^verbatim>\<open>struct k_data\<close>
  alone; that is the locale \<open>device\<close>, which \<^verbatim>\<open>unixio_rpi.c\<close> satisfies.

  The proofs follow the code: \<open>out P m\<close> says that a result of \<open>m\<close>, if there is one, satisfies \<open>P\<close>, and the
  collection \<open>vc\<close> has one rule per construct of the language and per function already treated.
\<close>

subsection \<open>The invariant\<close>

definition known_states :: "int set" where
  "known_states = {R_NONE, R_WAIT, R_FILE, R_ATTR, R_DATA, S_INIT, S_FILE, S_ATTR, S_DATA, S_EOF, S_EOT, S_TEXT}"

text \<open>A table from sequence numbers to slots: -1, or the only slot 0.\<close>

definition table_ok :: "int carray \<Rightarrow> bool" where
  "table_ok f \<longleftrightarrow> (\<forall>i < 64. f i = -1 \<or> f i = 0)"

definition engine_ok :: "'w kst \<Rightarrow> bool" where
  "engine_ok s \<longleftrightarrow> 1 \<le> k_bct s \<and> k_bct s \<le> 3 \<and> 0 \<le> k_s_seq s \<and> k_s_seq s < 64 \<and> 0 \<le> k_r_seq s \<and> k_r_seq s < 64
     \<and> k_wslots_max s = 1 \<and> (k_wslots s = 0 \<or> k_wslots s = 1)
     \<and> k_s_maxlen s \<le> int P_PKTLEN \<and> k_r_maxlen s \<le> int P_PKTLEN \<and> k_p_maxlen s \<le> int P_PKTLEN
     \<and> k_state s \<in> known_states \<and> 0 \<le> k_what s \<and> k_what s \<le> W_DIR
     \<and> table_ok (k_s_pw s) \<and> table_ok (k_r_pw s)
     \<and> -1 \<le> p_seq (k_ipktinfo s 0) \<and> p_seq (k_ipktinfo s 0) < 64
     \<and> -1 \<le> p_seq (k_opktinfo s 0) \<and> p_seq (k_opktinfo s 0) < 64"

text \<open>The fields it does not mention can be assigned freely.\<close>

lemma engine_ok_upd [simp]:
  "engine_ok (s\<lparr>k_xfermode := x0\<rparr>) = engine_ok s" "engine_ok (s\<lparr>k_binary := x1\<rparr>) = engine_ok s" "engine_ok (s\<lparr>k_s_first := x2\<rparr>) = engine_ok s"
  "engine_ok (s\<lparr>k_s_cnt := x3\<rparr>) = engine_ok s" "engine_ok (s\<lparr>k_s_type := x4\<rparr>) = engine_ok s" "engine_ok (s\<lparr>k_r_type := x5\<rparr>) = engine_ok s"
  "engine_ok (s\<lparr>k_s_soh := x6\<rparr>) = engine_ok s" "engine_ok (s\<lparr>k_r_soh := x7\<rparr>) = engine_ok s" "engine_ok (s\<lparr>k_s_eom := x8\<rparr>) = engine_ok s"
  "engine_ok (s\<lparr>k_r_eom := x9\<rparr>) = engine_ok s" "engine_ok (s\<lparr>k_size := x10\<rparr>) = engine_ok s" "engine_ok (s\<lparr>k_osize := x11\<rparr>) = engine_ok s"
  "engine_ok (s\<lparr>k_r_timo := x12\<rparr>) = engine_ok s" "engine_ok (s\<lparr>k_s_timo := x13\<rparr>) = engine_ok s" "engine_ok (s\<lparr>k_parity := x14\<rparr>) = engine_ok s"
  "engine_ok (s\<lparr>k_retry := x15\<rparr>) = engine_ok s" "engine_ok (s\<lparr>k_cancel := x16\<rparr>) = engine_ok s" "engine_ok (s\<lparr>k_ikeep := x17\<rparr>) = engine_ok s"
  "engine_ok (s\<lparr>k_s_ctlq := x18\<rparr>) = engine_ok s" "engine_ok (s\<lparr>k_r_ctlq := x19\<rparr>) = engine_ok s" "engine_ok (s\<lparr>k_ebq := x20\<rparr>) = engine_ok s"
  "engine_ok (s\<lparr>k_ebqflg := x21\<rparr>) = engine_ok s" "engine_ok (s\<lparr>k_rptq := x22\<rparr>) = engine_ok s" "engine_ok (s\<lparr>k_s_rpt := x23\<rparr>) = engine_ok s"
  "engine_ok (s\<lparr>k_rptflg := x24\<rparr>) = engine_ok s" "engine_ok (s\<lparr>k_bcta3 := x25\<rparr>) = engine_ok s" "engine_ok (s\<lparr>k_capas := x26\<rparr>) = engine_ok s"
  "engine_ok (s\<lparr>k_crcta := x27\<rparr>) = engine_ok s" "engine_ok (s\<lparr>k_crctb := x28\<rparr>) = engine_ok s" "engine_ok (s\<lparr>k_opktlen := x29\<rparr>) = engine_ok s"
  "engine_ok (s\<lparr>k_xdata := x30\<rparr>) = engine_ok s" "engine_ok (s\<lparr>k_obuflen := x31\<rparr>) = engine_ok s" "engine_ok (s\<lparr>k_obufpos := x32\<rparr>) = engine_ok s"
  "engine_ok (s\<lparr>k_filelist := x33\<rparr>) = engine_ok s" "engine_ok (s\<lparr>k_filename := x34\<rparr>) = engine_ok s" "engine_ok (s\<lparr>k_istring := x35\<rparr>) = engine_ok s"
  "engine_ok (s\<lparr>k_zincnt := x36\<rparr>) = engine_ok s" "engine_ok (s\<lparr>k_zinlen := x37\<rparr>) = engine_ok s" "engine_ok (s\<lparr>k_zinptr := x38\<rparr>) = engine_ok s"
  "engine_ok (s\<lparr>k_sw_full := x39\<rparr>) = engine_ok s" "engine_ok (s\<lparr>k_do_rxd := x40\<rparr>) = engine_ok s" "engine_ok (s\<lparr>k_cgetpkt := x41\<rparr>) = engine_ok s"
  "engine_ok (s\<lparr>k_anseq := x42\<rparr>) = engine_ok s" "engine_ok (s\<lparr>k_nresend := x43\<rparr>) = engine_ok s" "engine_ok (s\<lparr>k_nsnak := x44\<rparr>) = engine_ok s"
  "engine_ok (s\<lparr>k_dummy := x45\<rparr>) = engine_ok s" "engine_ok (s\<lparr>k_recvdir := x46\<rparr>) = engine_ok s" "engine_ok (s\<lparr>k_recvget := x47\<rparr>) = engine_ok s"
  "engine_ok (s\<lparr>r_rstatus := x48\<rparr>) = engine_ok s" "engine_ok (s\<lparr>r_filesize := x49\<rparr>) = engine_ok s" "engine_ok (s\<lparr>r_sofar := x50\<rparr>) = engine_ok s"
  "engine_ok (s\<lparr>r_sofar_rumor := x51\<rparr>) = engine_ok s" "engine_ok (s\<lparr>r_arg := x52\<rparr>) = engine_ok s" "engine_ok (s\<lparr>r_type := x53\<rparr>) = engine_ok s"
  "engine_ok (s\<lparr>mem := x54\<rparr>) = engine_ok s" "engine_ok (s\<lparr>wd := x55\<rparr>) = engine_ok s"
  by (simp_all add: engine_ok_def)

lemma engine_ok_states [simp]:
  assumes "engine_ok s"
  shows "engine_ok (s\<lparr>k_state := R_WAIT\<rparr>)" "engine_ok (s\<lparr>k_state := R_FILE\<rparr>)" "engine_ok (s\<lparr>k_state := R_ATTR\<rparr>)"
    "engine_ok (s\<lparr>k_state := R_DATA\<rparr>)" "engine_ok (s\<lparr>k_state := S_INIT\<rparr>)" "engine_ok (s\<lparr>k_state := S_FILE\<rparr>)"
    "engine_ok (s\<lparr>k_state := S_ATTR\<rparr>)" "engine_ok (s\<lparr>k_state := S_DATA\<rparr>)" "engine_ok (s\<lparr>k_state := S_EOF\<rparr>)"
    "engine_ok (s\<lparr>k_state := S_EOT\<rparr>)" "engine_ok (s\<lparr>k_state := S_TEXT\<rparr>)"
  using assms by (simp_all add: engine_ok_def known_states_def)

lemma engine_ok_assign [simp]:
  assumes "engine_ok s"
  shows "0 \<le> w \<Longrightarrow> w \<le> W_DIR \<Longrightarrow> engine_ok (s\<lparr>k_what := w\<rparr>)" "1 \<le> b \<Longrightarrow> b \<le> 3 \<Longrightarrow> engine_ok (s\<lparr>k_bct := b\<rparr>)"
    "0 \<le> q \<Longrightarrow> q < 64 \<Longrightarrow> engine_ok (s\<lparr>k_s_seq := q\<rparr>)" "0 \<le> q \<Longrightarrow> q < 64 \<Longrightarrow> engine_ok (s\<lparr>k_r_seq := q\<rparr>)"
    "engine_ok (s\<lparr>k_r_seq := k_s_seq s\<rparr>)" "m \<le> 1000 \<Longrightarrow> engine_ok (s\<lparr>k_s_maxlen := m\<rparr>)" "0 \<le> n \<Longrightarrow> n \<le> 1 \<Longrightarrow> engine_ok (s\<lparr>k_wslots := n\<rparr>)"
  using assms by (auto simp: engine_ok_def)

lemma engine_okD:
  assumes "engine_ok s"
  shows "1 \<le> k_bct s \<and> k_bct s \<le> 3" "0 \<le> k_s_seq s" "k_s_seq s < 64" "0 \<le> k_r_seq s" "k_r_seq s < 64"
    "k_wslots_max s = 1" "k_wslots s = 0 \<or> k_wslots s = 1"
  using assms by (simp_all add: engine_ok_def)

subsection \<open>Results\<close>

definition out :: "('a \<Rightarrow> bool) \<Rightarrow> 'a option \<Rightarrow> bool" where
  "out P m \<longleftrightarrow> (\<forall>x. m = Some x \<longrightarrow> P x)"

text \<open>The invariant of the state a result ends with.\<close>

definition ok2 :: "'a \<times> 'w kst \<Rightarrow> bool" where
  "ok2 x = engine_ok (snd x)"

definition ok3 :: "'a \<times> 'b \<times> 'w kst \<Rightarrow> bool" where
  "ok3 x = engine_ok (snd (snd x))"

definition ok4 :: "'a \<times> 'b \<times> 'c \<times> 'w kst \<Rightarrow> bool" where
  "ok4 x = engine_ok (snd (snd (snd x)))"

lemma ok_tuple [simp]: "ok2 (a, s) = engine_ok s" "ok3 (a, b, s) = engine_ok s" "ok4 (a, b, c, s) = engine_ok s"
  by (simp_all add: ok2_def ok3_def ok4_def)

named_theorems vc \<open>rules for results\<close>

lemma out_Some [vc]: "P x \<Longrightarrow> out P (Some x)"
  by (simp add: out_def)

lemma out_Some_iff [simp]: "out P (Some x) = P x"
  by (simp add: out_def)

lemma out_None [vc]: "out P None"
  by (simp add: out_def)

lemma out_if [vc]: "(b \<Longrightarrow> out P x) \<Longrightarrow> (\<not> b \<Longrightarrow> out P y) \<Longrightarrow> out P (if b then x else y)"
  by simp

lemma out_let [vc]: "(\<And>y. y = x \<Longrightarrow> out P (f y)) \<Longrightarrow> out P (Let x f)"
  by simp

lemma out_prod [vc]: "(\<And>a b. x = (a, b) \<Longrightarrow> out P (f a b)) \<Longrightarrow> out P (case x of (a, b) \<Rightarrow> f a b)"
  by (cases x) simp

lemma out_option [vc]: "(x = None \<Longrightarrow> out P a) \<Longrightarrow> (\<And>y. x = Some y \<Longrightarrow> out P (f y)) \<Longrightarrow> out P (case x of None \<Rightarrow> a | Some y \<Rightarrow> f y)"
  by (cases x) simp_all

lemma out_list [vc]: "out P a \<Longrightarrow> (\<And>x xs. out P (f x xs)) \<Longrightarrow> out P (case l of [] \<Rightarrow> a | x # xs \<Rightarrow> f x xs)"
  by (cases l) simp_all

lemma out_rclass [vc]:
  "out P a \<Longrightarrow> (\<And>h. out P (b h)) \<Longrightarrow> out P c \<Longrightarrow> out P d \<Longrightarrow>
     out P (case x of Is_next \<Rightarrow> a | Is_gap h \<Rightarrow> b h | Is_old \<Rightarrow> c | Unexpected \<Rightarrow> d)"
  by (cases x) simp_all

text \<open>Sequencing, by the type of the first result: a state, a tuple ending in a state, anything else.\<close>

lemma bind_state: "out engine_ok m \<Longrightarrow> (\<And>t. engine_ok t \<Longrightarrow> out Q (f t)) \<Longrightarrow> out Q (Option.bind m f)"
  by (cases m) (auto simp: out_def)

lemma bind_pair: "out ok2 m \<Longrightarrow> (\<And>a t. engine_ok t \<Longrightarrow> out Q (f (a, t))) \<Longrightarrow> out Q (Option.bind m f)"
  by (cases m) (auto simp: out_def)

lemma bind_triple: "out ok3 m \<Longrightarrow> (\<And>a b t. engine_ok t \<Longrightarrow> out Q (f (a, b, t))) \<Longrightarrow> out Q (Option.bind m f)"
  by (cases m) (auto simp: out_def)

lemma bind_quadruple: "out ok4 m \<Longrightarrow> (\<And>a b c t. engine_ok t \<Longrightarrow> out Q (f (a, b, c, t))) \<Longrightarrow> out Q (Option.bind m f)"
  by (cases m) (auto simp: out_def)

lemma bind_any: "(\<And>x. m = Some x \<Longrightarrow> out Q (f x)) \<Longrightarrow> out Q (Option.bind m f)"
  by (cases m) (auto simp: out_def)

text \<open>Results with more information than their last state come before the general rules.\<close>

lemma bind_out: "out P m \<Longrightarrow> (\<And>x. P x \<Longrightarrow> out Q (f x)) \<Longrightarrow> out Q (Option.bind m f)"
  by (cases m) (auto simp: out_def)

subsection \<open>Memory and slots\<close>

lemma poke_ok [vc]: "engine_ok s \<Longrightarrow> out engine_ok (poke p i v s)"
  by (auto simp: out_def poke_def bind_Some_iff split: kptr.splits)

lemma write_bytes_ok [vc]: "engine_ok s \<Longrightarrow> out engine_ok (write_bytes p bs s)"
  by (auto simp: out_def write_bytes_def split: kptr.splits)

lemma strcpy_ok [vc]: "engine_ok s \<Longrightarrow> out engine_ok (strcpy d p s)"
  by (auto simp: strcpy_def intro!: bind_any write_bytes_ok)

lemma strncpy_ok [vc]: "engine_ok s \<Longrightarrow> out engine_ok (strncpy d p n s)"
  by (auto simp: strncpy_def intro!: bind_any write_bytes_ok)

lemma upd_ipkt_ok [vc]:
  "engine_ok s \<Longrightarrow> -1 \<le> p_seq (g (k_ipktinfo s 0)) \<and> p_seq (g (k_ipktinfo s 0)) < 64 \<Longrightarrow> out engine_ok (upd_ipkt slot g s)"
  by (auto simp: out_def upd_ipkt_def ipkt_def arr_get_def arr_set_def engine_ok_def split: if_splits)

lemma upd_opkt_ok [vc]:
  "engine_ok s \<Longrightarrow> -1 \<le> p_seq (g (k_opktinfo s 0)) \<and> p_seq (g (k_opktinfo s 0)) < 64 \<Longrightarrow> out engine_ok (upd_opkt slot g s)"
  by (auto simp: out_def upd_opkt_def opkt_def arr_get_def arr_set_def engine_ok_def split: if_splits)

lemma table_ok_upd: "table_ok f \<Longrightarrow> v = -1 \<or> v = 0 \<Longrightarrow> table_ok (f(j := v))"
  by (auto simp: table_ok_def)

lemma engine_ok_table:
  assumes "engine_ok s" and "table_ok f"
  shows "engine_ok (s\<lparr>k_s_pw := f\<rparr>)" "engine_ok (s\<lparr>k_r_pw := f\<rparr>)"
  using assms by (simp_all add: engine_ok_def)

lemma engine_ok_tables: "engine_ok s \<Longrightarrow> table_ok (k_s_pw s)" "engine_ok s \<Longrightarrow> table_ok (k_r_pw s)"
  by (simp_all add: engine_ok_def)

lemma s_pw_set_ok [vc]: "engine_ok s \<Longrightarrow> v = -1 \<or> v = 0 \<Longrightarrow> out engine_ok (s_pw_set i v s)"
  by (auto simp: out_def s_pw_set_def arr_set_def intro: engine_ok_table(1) table_ok_upd engine_ok_tables(1) split: if_splits)

lemma r_pw_set_ok [vc]: "engine_ok s \<Longrightarrow> v = -1 \<or> v = 0 \<Longrightarrow> out engine_ok (r_pw_set i v s)"
  by (auto simp: out_def r_pw_set_def arr_set_def intro: engine_ok_table(2) table_ok_upd engine_ok_tables(2) split: if_splits)

lemma bind_s_pw_get: "engine_ok s \<Longrightarrow> (\<And>v. v = -1 \<or> v = 0 \<Longrightarrow> out Q (f v)) \<Longrightarrow> out Q (Option.bind (s_pw_get s i) f)"
  using engine_ok_tables(1) [of s] by (intro bind_any) (simp add: s_pw_get_def arr_get_eq_Some table_ok_def nat_less_iff)

lemma bind_r_pw_get: "engine_ok s \<Longrightarrow> (\<And>v. v = -1 \<or> v = 0 \<Longrightarrow> out Q (f v)) \<Longrightarrow> out Q (Option.bind (r_pw_get s i) f)"
  using engine_ok_tables(2) [of s] by (intro bind_any) (simp add: r_pw_get_def arr_get_eq_Some table_ok_def nat_less_iff)

lemma slot_seq [simp]:
  assumes "engine_ok s"
  shows "-1 \<le> p_seq (k_opktinfo s 0)" "p_seq (k_opktinfo s 0) < 64" "-1 \<le> p_seq (k_ipktinfo s 0)" "p_seq (k_ipktinfo s 0) < 64"
  using assms by (simp_all add: engine_ok_def)

lemma first_free_slots: "k_wslots s = 0 \<or> k_wslots s = 1 \<Longrightarrow> first_free g (slots s) = Some (Some k) \<Longrightarrow> k = 0"
  by (auto simp: slots_def bind_Some_iff split: if_splits)

lemma bind_get_sslot:
  assumes "engine_ok s" and "\<And>b k t. engine_ok t \<Longrightarrow> k = -1 \<or> k = 0 \<Longrightarrow> out Q (f (b, k, t))"
  shows "out Q (Option.bind (get_sslot s) f)"
proof -
  have "out (\<lambda>(b, k, t). engine_ok t \<and> (k = -1 \<or> k = 0)) (get_sslot s)"
    unfolding get_sslot_def
    using assms(1) first_free_slots [OF engine_okD(7), of s "opkt s"]
    by (intro bind_any out_option out_Some bind_state upd_opkt_ok) auto
  then show ?thesis by (rule bind_out) (auto intro: assms(2))
qed

lemma bind_get_rslot:
  assumes "engine_ok s" and "\<And>b k t. engine_ok t \<Longrightarrow> k = -1 \<or> k = 0 \<Longrightarrow> out Q (f (b, k, t))"
  shows "out Q (Option.bind (get_rslot s) f)"
proof -
  have "out (\<lambda>(b, k, t). engine_ok t \<and> (k = -1 \<or> k = 0)) (get_rslot s)"
    unfolding get_rslot_def
    using assms(1) first_free_slots [OF engine_okD(7), of s "ipkt s"]
    by (intro bind_any out_option out_Some bind_state upd_ipkt_ok) auto
  then show ?thesis by (rule bind_out) (auto intro: assms(2))
qed

lemmas binds = bind_get_sslot bind_get_rslot bind_s_pw_get bind_r_pw_get bind_state bind_pair bind_triple bind_quadruple bind_any

lemma free_sslot_ok [vc]: "engine_ok s \<Longrightarrow> out engine_ok (free_sslot k s)"
  unfolding free_sslot_def by (intro binds vc) auto

lemma free_sslot_easca_ok [vc]: "engine_ok s \<Longrightarrow> out engine_ok (free_sslot_easca s)"
proof -
  have "engine_ok s \<Longrightarrow> out engine_ok (free_sslot_easca_loop n s)" for n
  proof (induction n arbitrary: s)
    case (Suc n)
    then show ?case unfolding free_sslot_easca_loop.simps by (intro binds vc Suc.IH) auto
  qed (simp add: out_def)
  then show "engine_ok s \<Longrightarrow> ?thesis" by (simp add: free_sslot_easca_def)
qed

lemma nxtpkt_ok [simp]: "engine_ok s \<Longrightarrow> engine_ok (nxtpkt s)"
  by (simp add: nxtpkt_def)

lemma set_state_ok [simp]: "engine_ok s \<Longrightarrow> st \<in> known_states \<Longrightarrow> engine_ok (set_state st s)"
  by (simp add: set_state_def engine_ok_def del: slot_seq)

lemma known_state [simp]: "R_WAIT \<in> known_states" "R_FILE \<in> known_states" "R_ATTR \<in> known_states" "R_DATA \<in> known_states"
  "S_INIT \<in> known_states" "S_FILE \<in> known_states" "S_ATTR \<in> known_states" "S_DATA \<in> known_states" "S_EOF \<in> known_states"
  "S_EOT \<in> known_states" "S_TEXT \<in> known_states"
  by (simp_all add: known_states_def)

lemma prev_seq [simp]: "engine_ok s \<Longrightarrow> k_s_seq s < 65" "engine_ok s \<Longrightarrow> 0 \<le> k_s_seq s + 63"
  using engine_okD(2,3) [of s] by simp_all

declare engine_okD(2-5) [simp]

lemma set_state_seq [simp]: "k_s_seq (set_state st s) = k_s_seq s"
  by (simp add: set_state_def)

lemma window_max [simp]: "engine_ok s \<Longrightarrow> k_wslots_max s = 1"
  by (rule engine_okD(6))

lemma restore_bct [simp]: "engine_ok s \<Longrightarrow> engine_ok t \<Longrightarrow> engine_ok (t\<lparr>k_bct := k_bct s\<rparr>)"
  using engine_okD(1) [of s] by simp

subsection \<open>The parameter exchange\<close>

lemma xunchar_range [simp]: "xunchar c \<le> 1000" "0 \<le> xunchar c"
  using b2i_bounds [of "c - SP"] by (simp_all add: xunchar_def)

lemma spar_basic_ok [vc]: "engine_ok s \<Longrightarrow> out engine_ok (spar_basic p n s)"
  unfolding spar_basic_def by (intro binds vc) auto

lemma spar_prefixes_ok [vc]: "engine_ok s \<Longrightarrow> out engine_ok (spar_prefixes p n s)"
  unfolding spar_prefixes_def by (intro binds vc) auto

lemma spar_capas_ok [vc]: "engine_ok s \<Longrightarrow> out ok2 (spar_capas p n s)"
  unfolding spar_capas_def by (intro binds vc) auto

lemma spar_ok [vc]: "engine_ok s \<Longrightarrow> out engine_ok (spar p n s)"
  unfolding spar_def by (intro binds vc) auto

subsection \<open>Packets\<close>

definition seq_ok :: "rpacket \<Rightarrow> bool" where
  "seq_ok v \<longleftrightarrow> 0 \<le> v_rseq v \<and> v_rseq v < 64"

text \<open>A step of the packet handling: its state, and the sequence number of the packet it passes on.\<close>

definition ok_step :: "rpacket step \<times> 'w kst \<Rightarrow> bool" where
  "ok_step x \<longleftrightarrow> engine_ok (snd x) \<and> (\<forall>v. fst x = Go v \<longrightarrow> seq_ok v)"

lemma ok_step_simps [simp]: "ok_step (Return rc, s) = engine_ok s" "ok_step (Go v, s) = (engine_ok s \<and> seq_ok v)"
  by (auto simp: ok_step_def)

lemma seq_ok_rseq [simp]: "seq_ok v \<Longrightarrow> 0 \<le> v_rseq v" "seq_ok v \<Longrightarrow> v_rseq v < 64"
  by (simp_all add: seq_ok_def)

lemma ret_ok: "out ok2 m \<Longrightarrow> out ok_step (ret m)"
  by (cases m) (auto simp: out_def ret_def)

lemma ret_ok2: "out ok2 m \<Longrightarrow> out ok2 (ret m)"
  by (cases m) (auto simp: out_def ret_def)

lemma bind_step_ok:
  assumes "out ok_step m" and "\<And>v t. engine_ok t \<Longrightarrow> seq_ok v \<Longrightarrow> out ok_step (f v t)"
  shows "out ok_step (bind_step m f)"
  using assms by (cases m) (auto simp: out_def bind_step_def split: step.splits)

lemma bind_step_ok2:
  assumes "out ok2 m" and "\<And>v t. engine_ok t \<Longrightarrow> out ok_step (f v t)"
  shows "out ok_step (bind_step m f)"
  using assms by (cases m) (auto simp: out_def bind_step_def split: step.splits)

subsection \<open>Initialisation and attributes\<close>

lemma gattr_item_ok: "engine_ok s \<Longrightarrow> out ok3 (gattr_item p i c aln fsize rc s)"
  unfolding gattr_item_def by (intro binds vc) auto

lemma gattr_ok [vc]: "engine_ok s \<Longrightarrow> out ok2 (gattr p s)"
proof -
  have "engine_ok s \<longrightarrow> ok3 x" if "gattr_loop p i fsize rc s = Some x" for p i fsize rc and s :: "'w kst" and x
    using that
  proof (induction p i fsize rc s x rule: gattr_loop.raw_induct [rotated, consumes 1])
    case (1 g p i fsize rc s x)
    have g: "engine_ok t \<Longrightarrow> out ok3 (g p i n r t)" for p i n r t using 1(1) by (auto simp: out_def)
    have "engine_ok s \<Longrightarrow> out ok3 (Some x)"
      unfolding 1(2) [symmetric] by (intro binds vc gattr_item_ok g) auto
    then show ?case by simp
  qed
  then have "engine_ok s \<Longrightarrow> out ok3 (gattr_loop p 0 0 (-1) s)" unfolding out_def by blast
  then show "engine_ok s \<Longrightarrow> ?thesis" unfolding gattr_def by (intro binds vc) auto
qed

lemma k_init_ok [vc]: "engine_ok s \<Longrightarrow> out ok2 (k_init s)"
  by (simp add: k_init_def Let_def)

lemma init_slots_ok [vc]: "engine_ok s \<Longrightarrow> out engine_ok (init_slots is s)"
proof (induction "is" arbitrary: s)
  case (Cons i "is")
  then show ?case unfolding init_slots.simps Let_def by (intro binds vc Cons.IH) auto
qed simp

lemma cleared_ok:
  "engine_ok ((clear_k s)\<lparr>k_wslots_max := 1, k_p_maxlen := 1000, k_xfermode := a, k_binary := b, k_parity := c, k_bct := 1\<rparr>)"
  by (simp add: engine_ok_def clear_k_def k_zero_def packet_zero_def table_ok_def known_states_def
      del: slot_seq engine_okD prev_seq window_max)

lemma reinit_params_ok [simp]: "engine_ok s \<Longrightarrow> engine_ok (reinit_params s)"
  by (simp add: reinit_params_def engine_ok_def known_states_def del: slot_seq engine_okD prev_seq window_max)

lemma clear_table_ok [simp]:
  "table_ok (\<lambda>i. if i < 64 then -1 else f i)"
  by (simp add: table_ok_def)

text \<open>A packet reader that keeps the invariant.\<close>

definition reader_ok :: "'w reader \<Rightarrow> bool" where
  "reader_ok rxd \<longleftrightarrow> (\<forall>s. engine_ok s \<longrightarrow> out ok2 (rxd s))"

lemma reader_okD: "reader_ok rxd \<Longrightarrow> engine_ok s \<Longrightarrow> out ok2 (rxd s)"
  by (simp add: reader_ok_def)

subsection \<open>The device\<close>

locale device =
  fixes ops :: "'w k_ops"
  assumes txd_ok: "engine_ok s \<Longrightarrow> out ok2 (op_txd ops bs s)"
    and openf_ok: "engine_ok s \<Longrightarrow> out ok2 (op_openf ops p m n s)"
    and finfo_ok: "engine_ok s \<Longrightarrow> out ok4 (op_finfo ops p ty x s)"
    and readf_ok: "engine_ok s \<Longrightarrow> out ok2 (op_readf ops s)"
    and writef_ok: "engine_ok s \<Longrightarrow> out ok2 (op_writef ops bs s)"
    and closef_ok: "engine_ok s \<Longrightarrow> out ok2 (op_closef ops b m s)"
    and getdirdata_ok: "engine_ok s \<Longrightarrow> out ok2 (op_getdirdata ops p s)"
    and accessf_ok: "engine_ok s \<Longrightarrow> out ok2 (op_accessf ops p s)"
begin

lemmas device_ok [vc] = txd_ok openf_ok finfo_ok readf_ok writef_ok closef_ok getdirdata_ok accessf_ok

lemma spkt_send_ok:
  assumes "engine_ok s" and "\<And>t. engine_ok t \<Longrightarrow> out engine_ok (confused t)" and "0 \<le> sq" and "sq < 64"
  shows "out ok2 (spkt_send ops confused ty sq len dat slot buf n s)"
  unfolding spkt_send_def using assms by (intro binds vc assms(2)) auto

lemma spkt_with_ok:
  assumes "engine_ok s" and "\<And>t. engine_ok t \<Longrightarrow> out engine_ok (confused t)"
  shows "out ok2 (spkt_with ops confused ty sq len dat s)"
  unfolding spkt_with_def using assms(1) by (intro binds vc spkt_send_ok assms(2)) auto

lemma epkt_with_ok:
  assumes "engine_ok s" and "\<And>t. engine_ok t \<Longrightarrow> out engine_ok (confused t)"
  shows "out engine_ok (epkt_with ops confused msg s)"
  unfolding epkt_with_def using assms(1) by (intro binds vc spkt_with_ok assms(2)) auto

lemma epkt_confused_ok: "engine_ok s \<Longrightarrow> out engine_ok (epkt_confused ops s)"
  unfolding epkt_confused_def by (intro epkt_with_ok out_None)

lemma epkt_ok [vc]: "engine_ok s \<Longrightarrow> out engine_ok (epkt ops msg s)"
  unfolding epkt_def by (intro epkt_with_ok epkt_confused_ok)

lemma spkt_ok [vc]: "engine_ok s \<Longrightarrow> out ok2 (spkt ops ty sq len dat s)"
  unfolding spkt_def by (intro spkt_with_ok epkt_confused_ok)

lemma nak_ok [vc]: "engine_ok s \<Longrightarrow> out ok2 (nak ops sq slot s)"
  unfolding nak_def by (intro binds vc) auto

lemma ack_ok [vc]: "engine_ok s \<Longrightarrow> out ok2 (ack ops sq text s)"
  unfolding ack_def by (intro binds vc) auto

lemma resend_slot_ok [vc]: "engine_ok s \<Longrightarrow> out ok2 (resend_slot ops slot s)"
  unfolding resend_slot_def by (intro binds vc) auto

lemma resend_ok [vc]: "engine_ok s \<Longrightarrow> out ok2 (resend ops sq s)"
  unfolding resend_def by (intro binds vc) auto

lemma rpar_ok [vc]: "engine_ok s \<Longrightarrow> out ok2 (rpar ops ty s)"
  unfolding rpar_def by (intro binds vc) auto

text \<open>The codec.\<close>

lemma emit_ok: "engine_ok s \<Longrightarrow> out engine_ok (emit v s)"
  unfolding emit_def by (intro binds vc) auto

lemma encode_char_ok: "engine_ok s \<Longrightarrow> out engine_ok (encode_char ops a s)"
  unfolding encode_char_def by (intro binds vc emit_ok) auto

lemma emit_repeat_ok: "engine_ok s \<Longrightarrow> out engine_ok (emit_repeat n s)"
  unfolding emit_repeat_def by (intro binds vc emit_ok) auto

lemma encode_ok [vc]: "engine_ok s \<Longrightarrow> out engine_ok (encode ops a nxt s)"
proof -
  have e: "engine_ok t \<Longrightarrow> out engine_ok (encode ops a nxt (t\<lparr>k_s_rpt := 0\<rparr>))" for a nxt and t :: "'w kst"
    by (subst encode.simps, intro binds vc encode_char_ok emit_repeat_ok) auto
  show "engine_ok s \<Longrightarrow> ?thesis"
    by (subst encode.simps, intro binds vc encode_char_ok emit_repeat_ok e) auto
qed

lemma next_char_ok [vc]: "engine_ok s \<Longrightarrow> out ok2 (next_char ops s)"
  unfolding next_char_def zgetc_def by (intro binds vc) auto

lemma getpkt_save_ok [vc]: "engine_ok s \<Longrightarrow> out engine_ok (getpkt_save s)"
  unfolding getpkt_save_def by (intro binds vc) auto

lemma getpkt_restore_ok [vc]: "engine_ok s \<Longrightarrow> out engine_ok (getpkt_restore s)"
  unfolding getpkt_restore_def by (intro binds vc) auto

lemma getpkt_loop_ok [vc]:
  assumes "engine_ok s"
  shows "out ok2 (getpkt_loop ops maxlen c s)"
proof -
  have "engine_ok s \<longrightarrow> ok2 x" if "getpkt_loop ops' maxlen c s = Some x" "ops' = ops" for ops' maxlen c s x
    using that
  proof (induction ops' maxlen c s x rule: getpkt_loop.raw_induct [rotated, consumes 1])
    case (1 f ops' maxlen c s x)
    have f: "engine_ok t \<Longrightarrow> out ok2 (f ops m c t)" for m c t using 1(1) by (auto simp: out_def)
    have "engine_ok s \<Longrightarrow> out ok2 (Some x)"
      unfolding 1(2) [symmetric] 1(3) by (intro binds vc f) auto
    then show ?case by (simp add: out_def)
  qed
  then show ?thesis using assms by (simp add: out_def)
qed

lemma getpkt_ok [vc]: "engine_ok s \<Longrightarrow> out ok2 (getpkt ops s)"
  unfolding getpkt_def getpkt_fill_def by (intro binds vc) auto

lemma sdata_ok [vc]: "engine_ok s \<Longrightarrow> out ok2 (sdata ops s)"
  unfolding sdata_def by (intro binds vc) auto

lemma encstr_ok [vc]: "engine_ok s \<Longrightarrow> out ok2 (encstr ops p s)"
  unfolding encstr_def by (intro binds vc) auto

lemma decode_put_ok [vc]: "engine_ok s \<Longrightarrow> out ok4 (decode_put ops f n a ucp rc s)"
proof (induction n arbitrary: ucp rc s)
  case (Suc n)
  then show ?case unfolding decode_put.simps by (intro binds vc Suc.IH) auto
qed (simp add: out_def)

lemma decode_loop_ok [vc]:
  assumes "engine_ok s"
  shows "out ok3 (decode_loop ops f inbuf i rpt ucp rc s)"
proof -
  have "engine_ok s \<longrightarrow> ok3 x" if "decode_loop ops' f inbuf i rpt ucp rc s = Some x" "ops' = ops" for ops' f inbuf i rpt ucp rc s x
    using that
  proof (induction ops' f inbuf i rpt ucp rc s x rule: decode_loop.raw_induct [rotated, consumes 1])
    case (1 g ops' f inbuf i rpt ucp rc s x)
    have g: "engine_ok t \<Longrightarrow> out ok3 (g ops f b i r u c t)" for f b i r u c t using 1(1) by (auto simp: out_def)
    have "engine_ok s \<Longrightarrow> out ok3 (Some x)"
      unfolding 1(2) [symmetric] 1(3) by (intro binds vc g) auto
    then show ?case by (simp add: out_def)
  qed
  then show ?thesis using assms by (simp add: out_def)
qed

lemma decode_ok [vc]: "engine_ok s \<Longrightarrow> out ok2 (decode ops f inbuf rslot s)"
  unfolding decode_def decode_check_def by (intro binds vc) auto

lemma sattr_ok [vc]: "engine_ok s \<Longrightarrow> out ok2 (sattr ops s)"
  unfolding sattr_def by (intro binds vc) auto

text \<open>The receive window.\<close>

lemma free_rslot_ok [vc]: "engine_ok s \<Longrightarrow> out engine_ok (free_rslot ops slot s)"
  unfolding free_rslot_def by (intro binds vc) auto

lemma test_rslots_ok [vc]: "engine_ok s \<Longrightarrow> out ok2 (test_rslots ops s)"
  unfolding test_rslots_def by (intro binds vc) auto

lemma align_window_ok [vc]: "engine_ok s \<Longrightarrow> out ok2 (align_window ops n rseq s)"
proof (induction n arbitrary: s)
  case (Suc n)
  then show ?case unfolding align_window.simps by (intro binds vc Suc.IH) auto
qed (simp add: out_def)

lemma send_naks_ok [vc]: "engine_ok s \<Longrightarrow> out engine_ok (send_naks ops qs s)"
proof (induction qs arbitrary: s)
  case (Cons q qs)
  then show ?case unfolding send_naks.simps by (intro binds vc Cons.IH) auto
qed (simp add: out_def)

lemma store_rpkt_ok [vc]: "engine_ok s \<Longrightarrow> 0 \<le> rseq \<Longrightarrow> rseq < 64 \<Longrightarrow> out ok2 (store_rpkt ops rseq pbuf s)"
  unfolding store_rpkt_def by (intro binds vc) auto

lemma handle_good_rpkt_ok [vc]: "engine_ok s \<Longrightarrow> 0 \<le> rseq \<Longrightarrow> rseq < 64 \<Longrightarrow> out ok2 (handle_good_rpkt ops rseq pbuf s)"
  unfolding handle_good_rpkt_def
  by (intro binds vc) auto

lemma flush_window_ok [vc]:
  assumes "engine_ok s"
  shows "out ok3 (flush_window ops wsize rc s)"
proof -
  have "engine_ok s \<longrightarrow> ok3 x" if "flush_window ops' wsize rc s = Some x" "ops' = ops" for ops' wsize rc s x
    using that
  proof (induction ops' wsize rc s x rule: flush_window.raw_induct [rotated, consumes 1])
    case (1 g ops' wsize rc s x)
    have g: "engine_ok t \<Longrightarrow> out ok3 (g ops w r t)" for w r t using 1(1) by (auto simp: out_def)
    have "engine_ok s \<Longrightarrow> out ok3 (Some x)"
      unfolding 1(2) [symmetric] 1(3) by (intro binds vc g) auto
    then show ?case by (simp add: out_def)
  qed
  then show ?thesis using assms by (simp add: out_def)
qed

lemma flush_to_file_ok [vc]: "engine_ok s \<Longrightarrow> out ok2 (flush_to_file ops s)"
  unfolding flush_to_file_def by (intro binds vc) auto

text \<open>The function codes of \<^verbatim>\<open>kermit()\<close>.\<close>

lemma free_slots_ok [vc]: "engine_ok s \<Longrightarrow> out engine_ok (free_slots ops is s)"
proof (induction "is" arbitrary: s)
  case (Cons i "is")
  then show ?case unfolding free_slots.simps by (intro binds vc Cons.IH) auto
qed (simp add: out_def)

lemma k_dir_ok [vc]: "engine_ok s \<Longrightarrow> out ok2 (k_dir ops s)"
  unfolding k_dir_def by (intro binds vc) auto

lemma k_get_ok [vc]: "engine_ok s \<Longrightarrow> out ok2 (k_get ops s)"
  unfolding k_get_def by (intro binds vc) auto

lemma k_send_ok [vc]: "engine_ok s \<Longrightarrow> out ok2 (k_send ops s)"
  unfolding k_send_def by (intro binds vc) auto

lemma k_error_ok [vc]: "engine_ok s \<Longrightarrow> out ok2 (k_error ops msg s)"
  unfolding k_error_def by (intro binds vc) auto

text \<open>A received packet.\<close>

lemma rx_short_ok [vc]: "engine_ok s \<Longrightarrow> out ok2 (rx_short ops s)"
  unfolding rx_short_def by (intro binds vc) auto

lemma rx_bad_ok [vc]: "engine_ok s \<Longrightarrow> out ok2 (rx_bad ops s)"
  unfolding rx_bad_def by (intro binds vc) auto

lemma rx_long_header_ok: "engine_ok s \<Longrightarrow> out ok2 (rx_long_header ops s)"
  unfolding rx_long_header_def by (intro binds vc ret_ok2) auto

lemma rx_header_ok: "engine_ok s \<Longrightarrow> out ok_step (rx_header ops len s)"
  unfolding rx_header_def by (intro binds vc bind_step_ok2 rx_long_header_ok) (auto simp: seq_ok_def)

lemma rx_check_ok: "engine_ok s \<Longrightarrow> seq_ok v \<Longrightarrow> out ok_step (rx_check ops v s)"
  unfolding rx_check_def rx_chklen_def check_error_packet_def Let_def
  by (intro binds vc ret_ok) (auto split: if_splits)

lemma new_sslot_ok [vc]: "engine_ok s \<Longrightarrow> out ok2 (new_sslot s)"
  unfolding new_sslot_def by (intro binds vc) auto

lemma acked_ok [vc]: "engine_ok s \<Longrightarrow> out ok2 (acked rseq s)"
  unfolding acked_def by (intro binds vc) auto

lemma dir_send_ok [vc]:
  assumes "engine_ok s"
  shows "out ok2 (dir_send_b ops s)" "out ok2 (dir_send_x ops s)" "out ok2 (dir_send_z ops s)" "out ok2 (dir_send_d ops pdf s)"
  unfolding dir_send_b_def dir_send_x_def dir_send_z_def dir_send_d_def set_dirname_def
  using assms by (intro binds vc; simp)+

lemma rx_dir_ack_ok [vc]: "engine_ok s \<Longrightarrow> out ok2 (rx_dir_ack ops v s)"
  unfolding rx_dir_ack_def by (intro binds vc) auto

lemma start_sending_ok [vc]: "engine_ok s \<Longrightarrow> 0 \<le> w \<Longrightarrow> w \<le> W_DIR \<Longrightarrow> out ok2 (start_sending ops w s)"
  unfolding start_sending_def by (intro binds vc) auto

lemma rx_generic_ok: "engine_ok s \<Longrightarrow> seq_ok v \<Longrightarrow> out ok_step (rx_generic ops v s)"
  unfolding rx_generic_def by (intro binds vc ret_ok) auto

lemma rx_request_ok [vc]: "engine_ok s \<Longrightarrow> out ok2 (rx_request ops v s)"
  unfolding rx_request_def by (intro binds vc) auto

lemma rx_typed_ok: "engine_ok s \<Longrightarrow> seq_ok v \<Longrightarrow> out ok_step (rx_typed ops v s)"
  unfolding rx_typed_def by (intro binds vc ret_ok rx_generic_ok) auto

lemma rx_send_nak_ok [vc]: "engine_ok s \<Longrightarrow> out ok2 (rx_send_nak ops v s)"
  unfolding rx_send_nak_def by (intro binds vc) auto

lemma send_cancelled_ok [vc]: "engine_ok s \<Longrightarrow> out ok2 (send_cancelled ops d0 s)"
  unfolding send_cancelled_def by (intro binds vc) auto

lemma rx_send_ok: "engine_ok s \<Longrightarrow> seq_ok v \<Longrightarrow> out ok_step (rx_send ops v s)"
  unfolding rx_send_def by (intro binds vc ret_ok) auto

lemma k_receive_ok: "engine_ok s \<Longrightarrow> out ok_step (k_receive ops len s)"
  unfolding k_receive_def
  by (intro vc ret_ok bind_step_ok rx_header_ok rx_check_ok rx_typed_ok rx_send_ok)

lemma k_reinit_keeps [vc]: "engine_ok s \<Longrightarrow> out ok2 (k_reinit ops s)"
  unfolding k_reinit_def by (intro binds vc) (auto intro!: engine_ok_table)

text \<open>The protocol states.\<close>

lemma copy_filename_ok [vc]: "engine_ok s \<Longrightarrow> out engine_ok (copy_filename s)"
  unfolding copy_filename_def by (intro binds vc) auto

lemma send_file_header_ok [vc]: "engine_ok s \<Longrightarrow> out ok2 (send_file_header ops name rest s)"
  unfolding send_file_header_def by (intro binds vc) auto

lemma send_break_ok [vc]: "engine_ok s \<Longrightarrow> out ok2 (send_break ops s)"
  unfolding send_break_def by (intro binds vc) auto

lemma st_next_file_ok [vc]: "engine_ok s \<Longrightarrow> out ok2 (st_next_file ops v s)"
  unfolding st_next_file_def by (intro binds vc) auto

lemma st_file_ok [vc]: "engine_ok s \<Longrightarrow> out ok2 (st_file ops s)"
  unfolding st_file_def by (intro binds vc) auto

lemma st_data_ok [vc]: "engine_ok s \<Longrightarrow> out ok2 (st_data ops s)"
  unfolding st_data_def by (intro binds vc) auto

lemma st_eot_ok [vc]: "engine_ok s \<Longrightarrow> out ok2 (st_eot s)"
  by (simp add: st_eot_def)

lemma st_wait_ok [vc]: "engine_ok s \<Longrightarrow> out ok2 (st_wait ops v s)"
  unfolding st_wait_def by (intro binds vc) auto

lemma st_rfile_ok [vc]: "engine_ok s \<Longrightarrow> out ok2 (st_rfile ops v s)"
  unfolding st_rfile_def by (intro binds vc) auto

lemma open_output_ok [vc]: "engine_ok s \<Longrightarrow> out ok2 (open_output ops s)"
  unfolding open_output_def by (intro binds vc) auto

lemma st_rattr_data_ok [vc]: "engine_ok s \<Longrightarrow> seq_ok v \<Longrightarrow> out ok2 (st_rattr_data ops v s)"
  unfolding st_rattr_data_def by (intro binds vc) auto

lemma st_rattr_empty_ok [vc]: "engine_ok s \<Longrightarrow> out ok2 (st_rattr_empty ops v s)"
  unfolding st_rattr_empty_def by (intro binds vc) auto

lemma st_rattr_ok [vc]: "engine_ok s \<Longrightarrow> seq_ok v \<Longrightarrow> out ok2 (st_rattr ops v s)"
  unfolding st_rattr_def by (intro binds vc) auto

lemma rdata_packet_ok [vc]: "engine_ok s \<Longrightarrow> seq_ok v \<Longrightarrow> out ok2 (rdata_packet ops v s)"
  unfolding rdata_packet_def by (intro binds vc) auto

lemma rdata_eof_ok [vc]: "engine_ok s \<Longrightarrow> out ok2 (rdata_eof ops v s)"
  unfolding rdata_eof_def by (intro binds vc) auto

lemma st_rdata_ok [vc]: "engine_ok s \<Longrightarrow> seq_ok v \<Longrightarrow> out ok2 (st_rdata ops v s)"
  unfolding st_rdata_def by (intro binds vc) auto

lemma k_switch_ok [vc]: "engine_ok s \<Longrightarrow> seq_ok v \<Longrightarrow> out ok2 (k_switch ops msg v s)"
  unfolding k_switch_def by (intro binds vc) auto

lemma k_run_ok [vc]: "engine_ok s \<Longrightarrow> out ok2 (k_run ops len msg s)"
proof -
  assume s: "engine_ok s"
  have n: "seq_ok no_packet" by (simp add: seq_ok_def no_packet_def)
  have r: "out ok_step (if k_do_rxd s \<noteq> 0 then k_receive ops len s else Some (Go no_packet, s))"
    using k_receive_ok [OF s] s n by simp
  have k: "out ok2 (case x of (r, t) \<Rightarrow> case r of Return rc \<Rightarrow> Some (rc, t) | Go v \<Rightarrow> k_switch ops msg v t)" if "ok_step x" for x
    using that by (cases x; cases "fst x") (auto intro!: k_switch_ok)
  show ?thesis unfolding k_run_def using s bind_out [OF r k] by simp
qed

lemma kermit_ok [vc]: "engine_ok s \<Longrightarrow> out ok2 (kermit ops fc len msg s)"
  unfolding kermit_def by (cases fc; simp only: fcode.case; intro binds vc) auto

text \<open>The library around the engine.\<close>

lemma main_loop_ok:
  assumes r: "reader_ok rxd" and "engine_ok s"
  shows "out ok2 (main_loop ops rxd n start len s)"
proof -
  have "engine_ok s \<longrightarrow> ok2 x" if "main_loop ops' rxd' n start len s = Some x" "ops' = ops" "rxd' = rxd" for ops' rxd' n start len s x
    using that
  proof (induction ops' rxd' n start len s x rule: main_loop.raw_induct [rotated, consumes 1])
    case (1 g ops' rxd' n start len s x)
    have g: "engine_ok t \<Longrightarrow> out ok2 (g ops rxd n b l t)" for n b l t using 1(1) by (auto simp: out_def)
    have "engine_ok s \<Longrightarrow> out ok2 (Some x)"
      unfolding 1(2) [symmetric] 1(3,4) ok2rxd_def main_timeout_def by (intro binds vc g reader_okD [OF r]) auto
    then show ?case by simp
  qed
  then show ?thesis using assms(2) by (simp add: out_def)
qed

lemma kermit_main_keeps:
  assumes r: "reader_ok rxd" and "engine_ok s"
    and "kermit_main ops rxd action cmlist nres s = Some (rc, ty, arg, n, t)"
  shows "engine_ok t"
proof -
  have "out (\<lambda>(rc, ty, arg, n, t). engine_ok t) (kermit_main ops rxd action cmlist nres s)"
    unfolding kermit_main_def main_start_def using assms(2) by (intro binds vc main_loop_ok [OF r]) auto
  then show ?thesis using assms(3) by (auto simp: out_def)
qed

lemma EK_init_ok:
  assumes "EK_init ops p True s = Some (rc, t)" and "p \<noteq> Null"
  shows "engine_ok t"
proof -
  have "out ok2 (EK_init ops p True s)"
    unfolding EK_init_def if_not_P [OF assms(2)]
    by (intro binds vc) (simp_all add: cleared_ok assms(2))
  then show ?thesis using assms(1) by (auto simp: out_def)
qed

lemma start_server_keeps:
  assumes r: "reader_ok rxd" and "engine_ok s"
    and "EK_start_server ops rxd nres s = Some (rc, ty, arg, n, t)"
  shows "engine_ok t"
  using kermit_main_keeps [OF r assms(2)] assms(3) by (auto simp: EK_start_server_def bind_Some_iff)

text \<open>An open library has an engine in order.\<close>

lemma ft_exec_keeps:
  assumes r: "reader_ok rxd" and "initialised g \<longrightarrow> engine_ok (engine g)"
    and "ft_exec ops rxd c g = Some (e, g')"
  shows "initialised g' \<longrightarrow> engine_ok (engine g')"
  using assms(2,3)
  by (cases c) (auto simp: ft_defs bind_Some_iff Let_def split: if_splits dest: EK_init_ok start_server_keeps [OF r])

lemma ft_run_keeps:
  assumes r: "reader_ok rxd" and "ft_run ops rxd g tr g'"
  shows "(initialised g \<longrightarrow> engine_ok (engine g)) \<longrightarrow> initialised g' \<longrightarrow> engine_ok (engine g')"
  using assms(2)
proof (induction rule: ft_run.induct)
  case (ft_run_call g tr g' c e g'')
  then show ?case using ft_exec_keeps [OF r] by blast
qed simp

end

subsection \<open>The Raspberry Pi\<close>

lemma kadd_rootpath_ok [vc]: "engine_ok s \<Longrightarrow> out engine_ok (kadd_rootpath p s)"
  unfolding kadd_rootpath_def by (intro binds vc) auto

lemma bind_poke_wd:
  assumes "engine_ok s" and "\<And>t. engine_ok t \<Longrightarrow> wd t = wd s \<Longrightarrow> out Q (f t)"
  shows "out Q (Option.bind (poke p i v s) f)"
  by (rule bind_out [where P = "\<lambda>t. engine_ok t \<and> wd t = wd s"])
    (use assms in \<open>auto simp: out_def poke_def bind_Some_iff split: kptr.splits\<close>)

lemma kreadfile_text_from: "u_ifile (wd s) = Some cs \<Longrightarrow> engine_ok s \<Longrightarrow> out engine_ok (kreadfile_text i s)"
proof (induction cs arbitrary: i s)
  case Nil
  then show ?case by (subst kreadfile_text.simps) simp
next
  case (Cons c cs)
  show ?case
    unfolding kreadfile_text.simps [of i s] Cons.prems(1) option.case list.case Let_def
    using Cons.prems(2) by (intro out_if bind_poke_wd Cons.IH out_Some) auto
qed

lemma kreadfile_text_ok [vc]:
  assumes "engine_ok s"
  shows "out engine_ok (kreadfile_text i s)"
proof (cases "u_ifile (wd s)")
  case None
  with assms show ?thesis by (subst kreadfile_text.simps) (simp add: out_None)
next
  case (Some cs)
  then show ?thesis using assms by (rule kreadfile_text_from)
qed

lemma kreadfile_ok: "engine_ok s \<Longrightarrow> out ok2 (kreadfile s)"
  unfolding kreadfile_def by (intro binds vc) auto

lemma kgetdirdata_loop_ok [vc]: "engine_ok s \<Longrightarrow> out ok2 (kgetdirdata_loop es cnt etag res s)"
proof (induction es arbitrary: cnt etag res s)
  case (Cons x es)
  obtain name reg where x: "x = (name, reg)" by (cases x)
  show ?case unfolding x kgetdirdata_loop.simps using Cons.prems by (intro binds vc Cons.IH) auto
qed simp

interpretation pi: device "unixio_ops h" for h :: "'d mldp"
proof unfold_locales
  fix s :: "'d ust" and bs p m n ty x b
  assume s: "engine_ok s"
  note [simp] = s and [simp del] = kreadfile_text.simps
  show "out ok2 (op_txd (unixio_ops h) bs s)"
    unfolding unixio_ops_def k_ops.simps ktx_data_def by (intro binds vc) auto
  show "out ok2 (op_openf (unixio_ops h) p m n s)"
    unfolding unixio_ops_def k_ops.simps kopenfile_def by (intro binds vc) auto
  show "out ok4 (op_finfo (unixio_ops h) p ty x s)"
    unfolding unixio_ops_def k_ops.simps kfileinfo_def by (intro binds vc) auto
  show "out ok2 (op_readf (unixio_ops h) s)"
    unfolding unixio_ops_def k_ops.simps by (rule kreadfile_ok [OF s])
  show "out ok2 (op_writef (unixio_ops h) bs s)"
    unfolding unixio_ops_def k_ops.simps kwritefile_def by (intro binds vc) auto
  show "out ok2 (op_closef (unixio_ops h) b m s)"
    unfolding unixio_ops_def k_ops.simps kclosefile_def by (intro binds vc) auto
  show "out ok2 (op_getdirdata (unixio_ops h) p s)"
    unfolding unixio_ops_def k_ops.simps kgetdirdata_def by (intro binds vc) auto
  show "out ok2 (op_accessf (unixio_ops h) p s)"
    unfolding unixio_ops_def k_ops.simps kaccessfile_def by (intro binds vc) auto
qed

lemma kreadpkt_ok: "reader_ok (kreadpkt h p)"
proof -
  have "engine_ok s \<longrightarrow> ok2 x" if "kreadpkt_loop g w p cmd flag n ch s = Some x"
    for g w p cmd flag n ch and s :: "'d ust" and x
    using that
  proof (induction g w p cmd flag n ch s x rule: kreadpkt_loop.raw_induct [rotated, consumes 1])
    case (1 f g w p cmd flag n ch s x)
    have f: "engine_ok t \<Longrightarrow> out ok2 (f g w p cmd flag n ch t)" for g w p cmd flag n ch t using 1(1) by (auto simp: out_def)
    have "engine_ok s \<Longrightarrow> out ok2 (Some x)"
      unfolding 1(2) [symmetric] by (intro binds vc f) auto
    then show ?case by simp
  qed
  then have "engine_ok s \<Longrightarrow> out ok2 (kreadpkt_loop g w p [] False 0 0 s)" for g w p and s :: "'d ust" unfolding out_def by blast
  then show ?thesis
    unfolding reader_ok_def kreadpkt_def by (auto split: option.splits)
qed

text \<open>
  C12. The invariant of the engine. In every sequence of calls of the file-transfer library that starts with the library
  closed, over the device of the Raspberry Pi with whatever link and whatever packets arrive, the
  engine of the open library satisfies \<^term>\<open>engine_ok\<close> after every call: the block check type is 1 to
  3, both sequence numbers are 0 to 63, the window has at most one slot, no negotiated packet is longer than
  1000 bytes, the protocol state and mode are known ones, and the slot tables and slots hold only the
  slot 0 and sequence numbers up to 63.
\<close>

theorem engine_invariant:
  assumes "ft_run (unixio_ops h) (kreadpkt h (Ptr IPKTBUF 0)) g calls g'" and "\<not> initialised g" and "initialised g'"
  shows "engine_ok (engine g')"
  using pi.ft_run_keeps [OF kreadpkt_ok assms(1)] assms(2,3) by blast

end
