(* ===== verification/Bd_Addr.thy ===== *)
theory Bd_Addr
  imports Prelude
begin

text \<open>
  Bluetooth device addresses, from \<^verbatim>\<open>bluetooth.c\<close>: printing with \<^verbatim>\<open>ba2str\<close> and \<^verbatim>\<open>ba2strlc\<close>, checking
  with \<^verbatim>\<open>bachk\<close>, reading with \<^verbatim>\<open>str2ba\<close>. A C string is the list of its bytes before the terminator,
  and an address the list of the six bytes of \<^verbatim>\<open>bdaddr_t\<close>, least significant first.
\<close>

subsection \<open>Characters\<close>

abbreviation "COLON \<equiv> (0x3A::byte)"

definition isxdigit :: "byte \<Rightarrow> bool" where
  "isxdigit c \<longleftrightarrow> 0x30 \<le> c \<and> c \<le> 0x39 \<or> 0x41 \<le> c \<and> c \<le> 0x46 \<or> 0x61 \<le> c \<and> c \<le> 0x66"

definition isspace :: "byte \<Rightarrow> bool" where
  "isspace c \<longleftrightarrow> c = 0x20 \<or> 9 \<le> c \<and> c \<le> 13"

definition hexval :: "byte \<Rightarrow> int" where
  "hexval c = (if c \<le> 0x39 then b2i c - 0x30 else if c \<le> 0x46 then b2i c - 0x37 else b2i c - 0x57)"

text \<open>\<^verbatim>\<open>strtol(s, NULL, 16)\<close>, for a string of few digits (no saturation).\<close>

definition strtol16 :: "byte list \<Rightarrow> int" where
  "strtol16 s =
     (let s = dropWhile isspace s;
          neg = (s \<noteq> [] \<and> hd s = 0x2D);
          s = (if s \<noteq> [] \<and> hd s \<in> {0x2B, 0x2D} then tl s else s);
          s = (if 2 < length s \<and> s ! 0 = 0x30 \<and> s ! 1 \<in> {0x58, 0x78} \<and> isxdigit (s ! 2) then drop 2 s else s);
          v = foldl (\<lambda>v c. 16 * v + hexval c) 0 (takeWhile isxdigit s)
      in if neg then - v else v)"

text \<open>The conversions \<^verbatim>\<open>%2.2X\<close> and \<^verbatim>\<open>%2.2x\<close> of a byte.\<close>

definition hexdig :: "bool \<Rightarrow> int \<Rightarrow> byte" where
  "hexdig upper v = i2b (if v < 10 then 0x30 + v else if upper then 0x37 + v else 0x57 + v)"

definition hex2 :: "bool \<Rightarrow> byte \<Rightarrow> byte list" where
  "hex2 upper b = [hexdig upper (b2i b div 16), hexdig upper (b2i b mod 16)]"

subsection \<open>Addresses\<close>

type_synonym bdaddr = "byte list"

definition baswap :: "bdaddr \<Rightarrow> bdaddr" where
  "baswap src = map (\<lambda>i. src ! (5 - i)) [0..<6]"

definition ba_print :: "bool \<Rightarrow> bdaddr \<Rightarrow> byte list" where
  "ba_print upper b = hex2 upper (b ! 5) @ COLON # hex2 upper (b ! 4) @ COLON # hex2 upper (b ! 3) @ COLON #
     hex2 upper (b ! 2) @ COLON # hex2 upper (b ! 1) @ COLON # hex2 upper (b ! 0)"

definition ba2str :: "bdaddr \<Rightarrow> byte list" where
  "ba2str b = ba_print True b"

definition ba2strlc :: "bdaddr \<Rightarrow> byte list" where
  "ba2strlc b = ba_print False b"

definition batostr :: "bdaddr \<Rightarrow> byte list" where
  "batostr b = ba_print True (rev b)"

text \<open>The loop of \<^verbatim>\<open>bachk\<close>; the terminator of the string is no digit and no colon.\<close>

fun bachk_loop :: "byte list \<Rightarrow> int" where
  "bachk_loop (a # b # c # s) =
     (if \<not> isxdigit a then -1 else if \<not> isxdigit b then -1 else if c \<noteq> COLON then -1 else bachk_loop s)"
| "bachk_loop [a, b] = (if \<not> isxdigit a then -1 else if \<not> isxdigit b then -1 else 0)"
| "bachk_loop [a] = -1"
| "bachk_loop [] = 0"

definition bachk :: "byte list option \<Rightarrow> int" where
  "bachk str =
     (case str of None \<Rightarrow> -1
      | Some s \<Rightarrow> if length s \<noteq> 17 then -1 else bachk_loop s)"

definition str2ba :: "byte list \<Rightarrow> int \<times> bdaddr" where
  "str2ba str =
     (if bachk (Some str) < 0 then (-1, replicate 6 0)
      else (0, map (\<lambda>i. i2b (strtol16 (drop (3 * (5 - i)) str))) [0..<6]))"

definition strtoba :: "byte list \<Rightarrow> bdaddr" where
  "strtoba str = baswap (snd (str2ba str))"

subsection \<open>Reading and printing\<close>

definition toupper :: "byte \<Rightarrow> byte" where
  "toupper c = (if 0x61 \<le> c \<and> c \<le> 0x7A then c - 0x20 else c)"

lemma int_below_16: "0 \<le> v \<Longrightarrow> v < 16 \<Longrightarrow> v \<in> {0, 1, 2, 3, 4, 5, 6, 7, 8, 9, 10, 11, 12, 13, 14, 15 :: int}"
  unfolding insert_iff empty_iff by presburger

lemma hexdig_facts:
  assumes "0 \<le> v" and "v < 16"
  shows "isxdigit (hexdig u v)" "hexval (hexdig u v) = v" "\<not> isspace (hexdig u v)" "hexdig u v \<notin> {0x2B, 0x2D, 0x58, 0x78, COLON}"
  using int_below_16 [OF assms] by (cases u; auto simp: hexdig_def hexval_def isxdigit_def isspace_def)+

lemma hexdig_hexval: "isxdigit c \<Longrightarrow> hexdig True (hexval c) = toupper c"
  by (auto simp: isxdigit_def hexval_def hexdig_def toupper_def word_le_def word_less_def)

lemma hexval_range: "isxdigit c \<Longrightarrow> 0 \<le> hexval c \<and> hexval c < 16"
  by (auto simp: isxdigit_def hexval_def word_le_def)

lemma xdigit_plain: "isxdigit c \<Longrightarrow> \<not> isspace c \<and> c \<notin> {0x2B, 0x2D, 0x58, 0x78, COLON}"
  by (auto simp: isxdigit_def isspace_def word_le_def)

text \<open>Two digits followed by the end of the string or a colon.\<close>

lemma strtol16_two:
  assumes "isxdigit x" and "isxdigit y" and "s = [] \<or> hd s = COLON"
  shows "strtol16 (x # y # s) = 16 * hexval x + hexval y"
proof -
  have c: "\<not> isxdigit COLON" by (simp add: isxdigit_def)
  have "takeWhile isxdigit s = []" using assms(3) c by (cases s) auto
  then show ?thesis
    using assms(1,2) xdigit_plain [OF assms(1)] xdigit_plain [OF assms(2)] by (auto simp: strtol16_def)
qed

lemma nibbles: "0 \<le> b2i b div 16" "b2i b div 16 < 16" "0 \<le> b2i b mod 16" "b2i b mod 16 < 16"
  using b2i_bounds [of b] by (simp_all add: pos_imp_zdiv_nonneg_iff)

lemma strtol16_hex2:
  assumes "s = [] \<or> hd s = COLON"
  shows "i2b (strtol16 (hex2 u b @ s)) = b"
proof -
  note r = nibbles [of b]
  have "strtol16 (hex2 u b @ s) = b2i b"
    using strtol16_two [OF hexdig_facts(1) [OF r(1,2)] hexdig_facts(1) [OF r(3,4)] assms, of u u]
      hexdig_facts(2) [OF r(1,2)] hexdig_facts(2) [OF r(3,4)] by (simp add: hex2_def)
  then show ?thesis by simp
qed

lemma bachk_hex2:
  "bachk_loop (hex2 u b @ COLON # s) = bachk_loop s" "bachk_loop (hex2 u b) = 0" "length (hex2 u b) = 2"
proof -
  note r = nibbles [of b]
  show "bachk_loop (hex2 u b @ COLON # s) = bachk_loop s" "bachk_loop (hex2 u b) = 0" "length (hex2 u b) = 2"
    using hexdig_facts(1) [OF r(1,2)] hexdig_facts(1) [OF r(3,4)] by (simp_all add: hex2_def)
qed

lemma ba_print_accepted: "bachk (Some (ba_print u b)) = 0"
  by (simp add: bachk_def ba_print_def bachk_hex2)

lemma drop_hex2: "3 \<le> n \<Longrightarrow> drop n (hex2 u b @ COLON # s) = drop (n - 3) s"
  by (simp add: hex2_def drop_Cons' eval_nat_numeral)

lemma six_bytes: "length b = 6 \<Longrightarrow> b = [b ! 0, b ! 1, b ! 2, b ! 3, b ! 4, b ! 5]"
  by (rule nth_equalityI) (auto simp: less_Suc_eq eval_nat_numeral)

lemma str2ba_print:
  assumes "length b = 6"
  shows "str2ba (ba_print u b) = (0, b)"
proof -
  have "[0..<6] = [0, 1, 2, 3, 4, 5 :: nat]" by (simp add: upt_conv_Cons)
  then have "map (\<lambda>i. i2b (strtol16 (drop (3 * (5 - i)) (ba_print u b)))) [0..<6] = [b ! 0, b ! 1, b ! 2, b ! 3, b ! 4, b ! 5]"
    using strtol16_hex2 [of "[]" u] by (simp add: ba_print_def strtol16_hex2 drop_hex2 del: drop_append)
  then show ?thesis
    using six_bytes [OF assms] by (simp add: str2ba_def ba_print_accepted)
qed

text \<open>An accepted string has six fields of two digits, separated by colons.\<close>

lemma bachk_fields:
  assumes "bachk (Some s) = 0"
  obtains x where "\<forall>i < 12. isxdigit (x i)"
    "s = [x 0, x 1, COLON, x 2, x 3, COLON, x 4, x 5, COLON, x 6, x 7, COLON, x 8, x 9, COLON, x 10, x (11 :: nat)]"
proof -
  have l: "length s = 17" and c: "bachk_loop s = 0" using assms by (auto simp: bachk_def split: if_splits)
  obtain a0 a1 a2 a3 a4 a5 a6 a7 a8 a9 a10 a11 a12 a13 a14 a15 a16
    where s: "s = [a0, a1, a2, a3, a4, a5, a6, a7, a8, a9, a10, a11, a12, a13, a14, a15, a16]"
    using l by (auto simp: eval_nat_numeral length_Suc_conv)
  let ?x = "\<lambda>i. [a0, a1, a3, a4, a6, a7, a9, a10, a12, a13, a15, a16] ! i"
  have "list_all isxdigit [a0, a1, a3, a4, a6, a7, a9, a10, a12, a13, a15, a16]" and "a2 = COLON" "a5 = COLON" "a8 = COLON" "a11 = COLON" "a14 = COLON"
    using c by (simp_all add: s split: if_splits)
  then show thesis
    by (intro that [of ?x]) (simp_all add: s list_all_length)
qed

lemma hex2_digits:
  assumes "isxdigit x" and "isxdigit y"
  shows "hex2 True (16 * i2b (hexval x) + i2b (hexval y)) = [toupper x, toupper y]"
proof -
  have "b2i (i2b (16 * hexval x + hexval y)) = 16 * hexval x + hexval y"
    using hexval_range [OF assms(1)] hexval_range [OF assms(2)] by (intro b2i_i2b_id) auto
  then show ?thesis
    using hexval_range [OF assms(2)] hexdig_hexval [OF assms(1)] hexdig_hexval [OF assms(2)] by (simp add: hex2_def)
qed

lemma print_accepted:
  assumes "bachk (Some s) = 0"
  shows "ba2str (snd (str2ba s)) = map toupper s"
proof -
  obtain x where x: "\<forall>i < 12. isxdigit (x i)"
    and s: "s = [x 0, x 1, COLON, x 2, x 3, COLON, x 4, x 5, COLON, x 6, x 7, COLON, x 8, x 9, COLON, x 10, x (11 :: nat)]"
    using bachk_fields [OF assms] .
  have u: "[0..<6] = [0, 1, 2, 3, 4, 5 :: nat]" by (simp add: upt_conv_Cons)
  have c: "toupper COLON = COLON" by (simp add: toupper_def)
  have "snd (str2ba s) = map (\<lambda>i. i2b (strtol16 (drop (3 * (5 - i)) s))) [0..<6]"
    using assms by (simp add: str2ba_def)
  also have "\<dots> = map (\<lambda>i. i2b (16 * hexval (x (2 * (5 - i))) + hexval (x (2 * (5 - i) + 1)))) [0..<6]"
    using x by (simp add: u s strtol16_two)
  finally show ?thesis
    using x c by (simp add: u s ba2str_def ba_print_def hex2_digits)
qed

text \<open>
  C18. Addresses round-trip. Reading a printed address gives the address back, whether it was printed
  in upper case (\<^verbatim>\<open>ba2str\<close>) or in lower case (\<^verbatim>\<open>ba2strlc\<close>); and an accepted string, read and
  printed again with \<^verbatim>\<open>ba2str\<close>, is the same string in upper case.
\<close>

theorem str2ba_ba2str:
  assumes "length b = 6" and "bachk (Some s) = 0"
  shows "str2ba (ba2str b) = (0, b) \<and> str2ba (ba2strlc b) = (0, b) \<and> ba2str (snd (str2ba s)) = map toupper s"
  using str2ba_print [OF assms(1)] print_accepted [OF assms(2)] by (simp add: ba2str_def ba2strlc_def)

theorem str2ba_ba2str_witness:
  "str2ba (ba2str [1, 2, 0xAB, 4, 5, 6]) = (0, [1, 2, 0xAB, 4, 5, 6])
    \<and> ba2str (snd (str2ba (bytes_of_string ''aa:Bb:cC:00:12:9f''))) = map toupper (bytes_of_string ''aa:Bb:cC:00:12:9f'')"
  using str2ba_ba2str [of "[1, 2, 0xAB, 4, 5, 6]" "bytes_of_string ''aa:Bb:cC:00:12:9f''"]
  by (simp add: bytes_of_string_def bachk_def isxdigit_def)

end
