(* ===== verification/Ble_Scan.thy ===== *)
theory Ble_Scan
  imports Bd_Addr
begin

text \<open>
  Finding the SLATE device, from \<^verbatim>\<open>main.c\<close>: the parsers of advertising data \<^verbatim>\<open>eir_parse_name\<close> and
  \<^verbatim>\<open>read_flags\<close>, the filter \<^verbatim>\<open>check_report_filter\<close>, the comparison \<^verbatim>\<open>slate_research\<close>, the scanning loop
  \<^verbatim>\<open>scan_result\<close> and the check of the address given on the command line. Reading outside the memory
  behind a pointer is \<^term>\<open>None\<close>.
\<close>

subsection \<open>Advertising data\<close>

abbreviation "FLAGS_AD_TYPE \<equiv> (1::byte)"
abbreviation "FLAGS_LIMITED_MODE_BIT \<equiv> (1::byte)"
abbreviation "FLAGS_GENERAL_MODE_BIT \<equiv> (2::byte)"
abbreviation "EIR_NAME_SHORT \<equiv> (8::byte)"
abbreviation "EIR_NAME_COMPLETE \<equiv> (9::byte)"

definition get_bytes :: "byte list \<Rightarrow> nat \<Rightarrow> nat \<Rightarrow> byte list option" where
  "get_bytes mem i n = (if i + n \<le> length mem then Some (take n (drop i mem)) else None)"

text \<open>\<^verbatim>\<open>snprintf(buf, buf_len, "(unknown)")\<close>: at most \<^verbatim>\<open>buf_len - 1\<close> characters and a terminator.\<close>

definition put_unknown :: "nat \<Rightarrow> byte list \<Rightarrow> byte list option" where
  "put_unknown buf_len buf =
     (if buf_len = 0 then Some buf
      else let bs = take (buf_len - 1) (bytes_of_string ''(unknown)'') @ [0]
           in if length bs \<le> length buf then Some (bs @ drop (length bs) buf) else None)"

text \<open>
  The memory behind \<^verbatim>\<open>eir\<close> is \<^term>\<open>eir\<close>, \<^term>\<open>offset\<close> the distance the pointer has advanced, and the result
  the contents of \<^verbatim>\<open>buf\<close>.
\<close>

function eir_parse_name :: "byte list \<Rightarrow> nat \<Rightarrow> nat \<Rightarrow> byte list \<Rightarrow> nat \<Rightarrow> byte list option" where
  "eir_parse_name eir offset eir_len buf buf_len =
     (if offset < eir_len then do {
        field_len \<leftarrow> lst_get eir offset;
        if field_len = 0 then put_unknown buf_len buf
        else if offset + unat field_len > eir_len then put_unknown buf_len buf
        else do {
          ty \<leftarrow> lst_get eir (offset + 1);
          if ty = EIR_NAME_SHORT \<or> ty = EIR_NAME_COMPLETE then
            let name_len = unat field_len - 1
            in if name_len > buf_len then put_unknown buf_len buf
               else do {
                 bs \<leftarrow> get_bytes eir (offset + 2) name_len;
                 if name_len \<le> length buf then Some (bs @ drop name_len buf) else None
               }
          else eir_parse_name eir (offset + unat field_len + 1) eir_len buf buf_len
        }
      }
      else put_unknown buf_len buf)"
  by pat_completeness auto
termination
  by (relation "measure (\<lambda>(eir, offset, eir_len, buf, buf_len). eir_len - offset)") auto

text \<open>\<^verbatim>\<open>read_flags\<close> from \<^term>\<open>offset\<close> on; the flags are stored only when the result is 0.\<close>

function read_flags_loop :: "byte list \<Rightarrow> nat \<Rightarrow> nat \<Rightarrow> (int \<times> byte option) option" where
  "read_flags_loop data offset sz =
     (if offset < sz then do {
        len \<leftarrow> lst_get data offset;
        if len = 0 then Some (- ENOENT, None)
        else if unat len + offset > sz then Some (- ENOENT, None)
        else do {
          ty \<leftarrow> lst_get data (offset + 1);
          if ty = FLAGS_AD_TYPE then do {
            f \<leftarrow> lst_get data (offset + 2);
            Some (0, Some f)
          }
          else read_flags_loop data (offset + 1 + unat len) sz
        }
      }
      else Some (- ENOENT, None))"
  by pat_completeness auto
termination
  by (relation "measure (\<lambda>(data, offset, sz). sz - offset)") auto

definition read_flags :: "bool \<Rightarrow> byte list option \<Rightarrow> nat \<Rightarrow> (int \<times> byte option) option" where
  "read_flags has_flags data sz =
     (case data of
        Some d \<Rightarrow> if has_flags then read_flags_loop d 0 sz else Some (- EINVAL, None)
      | None \<Rightarrow> Some (- EINVAL, None))"

text \<open>\<^verbatim>\<open>le_advertising_info\<close>: the address, the length byte, and the memory from \<^verbatim>\<open>data\<close> on.\<close>

record le_advertising_info =
  ai_bdaddr :: bdaddr
  ai_length :: byte
  ai_data :: "byte list"

definition check_report_filter :: "byte \<Rightarrow> le_advertising_info \<Rightarrow> int option" where
  "check_report_filter procedure info =
     (if procedure = 0 then Some 1
      else do {
        (rc, flags) \<leftarrow> read_flags True (Some (ai_data info)) (unat (ai_length info));
        case flags of
          None \<Rightarrow> Some 0
        | Some f \<Rightarrow>
            Some (if procedure = 0x6C then if f AND FLAGS_LIMITED_MODE_BIT \<noteq> 0 then 1 else 0
                  else if procedure = 0x67 then if f AND (FLAGS_LIMITED_MODE_BIT OR FLAGS_GENERAL_MODE_BIT) \<noteq> 0 then 1 else 0
                  else 0)
      })"

subsection \<open>Looking for the device\<close>

text \<open>
  \<^verbatim>\<open>slate_research\<close> with a non-null address: \<^verbatim>\<open>*out_research_success\<close>. Its return value, which is
  missing when the addresses differ, is ignored by the only caller.
\<close>

definition slate_research :: "byte list \<Rightarrow> byte list \<Rightarrow> bool" where
  "slate_research addr slate_addr \<longleftrightarrow> addr = slate_addr"

text \<open>What one \<^verbatim>\<open>read\<close> of the HCI socket can give.\<close>

datatype hci_read = Sigint | Again | Read_error | Event byte le_advertising_info

text \<open>
  The loop of \<^verbatim>\<open>scan_result\<close> over the results of its reads: the return value and \<^verbatim>\<open>*out_success\<close>.
  \<^term>\<open>None\<close> when the reads do not end the loop, or a parser reads outside its memory. The three conditions at
  the label \<^verbatim>\<open>done\<close> only decide on the return value: a read error gives \<^verbatim>\<open>EXIT_FAILURE\<close>.
\<close>

fun scan_loop :: "byte \<Rightarrow> byte list \<Rightarrow> hci_read list \<Rightarrow> (int \<times> bool) option" where
  "scan_loop ftype slate_addr [] = None"
| "scan_loop ftype slate_addr (Sigint # rs) = Some (0, False)"
| "scan_loop ftype slate_addr (Again # rs) = scan_loop ftype slate_addr rs"
| "scan_loop ftype slate_addr (Read_error # rs) = Some (1, False)"
| "scan_loop ftype slate_addr (Event subevent info # rs) =
     (if subevent \<noteq> 2 then Some (0, False)
      else do {
        ok \<leftarrow> check_report_filter ftype info;
        if ok \<noteq> 0 then do {
          _ \<leftarrow> eir_parse_name (ai_data info) 0 (unat (ai_length info)) (replicate 30 0) 29;
          if slate_research (ba2str (ai_bdaddr info)) slate_addr then Some (0, True)
          else scan_loop ftype slate_addr rs
        }
        else scan_loop ftype slate_addr rs
      })"

definition scan_result :: "bool \<Rightarrow> bool \<Rightarrow> byte \<Rightarrow> byte list \<Rightarrow> hci_read list \<Rightarrow> (int \<times> bool) option" where
  "scan_result getsockopt_ok setsockopt_ok ftype slate_addr rs =
     (if \<not> getsockopt_ok then Some (1, False)
      else if \<not> setsockopt_ok then Some (1, False)
      else scan_loop ftype slate_addr rs)"

text \<open>
  \<^verbatim>\<open>parse_given_address\<close>: the regular expression \<^verbatim>\<open>^[a-fA-F0-9:]{17}|[a-fA-F0-9]{12}$\<close> is an alternative
  of a prefix of 17 characters and a suffix of 12 characters.
\<close>

definition parse_given_address :: "byte list \<Rightarrow> int" where
  "parse_given_address address =
     (if 17 \<le> length address \<and> list_all (\<lambda>c. isxdigit c \<or> c = COLON) (take 17 address)
         \<or> 12 \<le> length address \<and> list_all isxdigit (drop (length address - 12) address) then 0 else -1)"

declare eir_parse_name.simps [simp del]
declare read_flags_loop.simps [simp del]

subsection \<open>Memory the parsers read\<close>

lemma put_unknown_returns: "buf_len \<le> length buf \<Longrightarrow> \<exists>b. put_unknown buf_len buf = Some b \<and> length b = length buf"
  by (cases "buf_len = 0") (auto simp: put_unknown_def Let_def)

lemma eir_parse_name_returns:
  assumes "eir_len < length eir" and "buf_len \<le> length buf"
  shows "\<exists>b. eir_parse_name eir offset eir_len buf buf_len = Some b \<and> length b = length buf"
  using assms
proof (induction eir offset eir_len buf buf_len rule: eir_parse_name.induct)
  case (1 eir offset eir_len buf buf_len)
  note unk = put_unknown_returns [OF 1(3)]
  show ?case
  proof (cases "offset < eir_len")
    case True
    define l where "l = eir ! offset"
    have l: "lst_get eir offset = Some l" "lst_get eir (offset + 1) = Some (eir ! (offset + 1))"
      using True 1(2) by (simp_all add: cmem l_def)
    show ?thesis
    proof (cases "l = 0 \<or> offset + unat l > eir_len")
      case True
      then show ?thesis using unk l \<open>offset < eir_len\<close> by (auto simp: eir_parse_name.simps [of eir offset])
    next
      case False
      show ?thesis
      proof (cases "eir ! (offset + 1) \<in> {EIR_NAME_SHORT, EIR_NAME_COMPLETE}")
        case True
        have "0 < unat l" using False by (simp add: unat_gt_0)
        then have "offset + 2 + (unat l - 1) \<le> length eir" using False 1(2) by simp
        then show ?thesis
          using unk l True False 1(3) \<open>offset < eir_len\<close>
          by (auto simp: eir_parse_name.simps [of eir offset] Let_def get_bytes_def)
      next
        case False
        then show ?thesis
          using 1(1) [OF \<open>offset < eir_len\<close> l(1) _ _ l(2)] 1(2,3) l \<open>offset < eir_len\<close> \<open>\<not> (l = 0 \<or> _)\<close>
          by (simp add: eir_parse_name.simps [of eir offset])
      qed
    qed
  next
    case False
    then show ?thesis using unk by (simp add: eir_parse_name.simps [of eir offset])
  qed
qed

lemma read_flags_returns:
  assumes "sz + 1 < length data"
  shows "\<exists>r. read_flags_loop data offset sz = Some r"
  using assms
proof (induction data offset sz rule: read_flags_loop.induct)
  case (1 data offset sz)
  show ?case
  proof (cases "offset < sz \<and> data ! offset \<noteq> 0 \<and> unat (data ! offset) + offset \<le> sz \<and> data ! (offset + 1) \<noteq> FLAGS_AD_TYPE")
    case True
    then show ?thesis
      using 1(1) [of "data ! offset" "data ! (offset + 1)"] 1(2)
      by (simp add: read_flags_loop.simps [of data offset] cmem)
  next
    case False
    then show ?thesis using 1(2) by (auto simp: read_flags_loop.simps [of data offset] cmem)
  qed
qed

text \<open>
  C17. The parsers of advertising data read at most one (\<^verbatim>\<open>eir_parse_name\<close>) and two (\<^verbatim>\<open>read_flags\<close>) bytes
  past the length they are given: with that much memory behind the data both return for every
  content, and \<^verbatim>\<open>eir_parse_name\<close> writes inside its buffer.
\<close>

theorem advertising_parsers_bounded:
  assumes "eir_len < length eir" and "buf_len \<le> length buf" and "sz + 1 < length data"
  shows "(\<exists>b. eir_parse_name eir 0 eir_len buf buf_len = Some b \<and> length b = length buf)
    \<and> (\<exists>r. read_flags True (Some data) sz = Some r)"
  using eir_parse_name_returns [OF assms(1,2)] read_flags_returns [OF assms(3)] by (simp add: read_flags_def)

theorem advertising_parsers_bounded_witness:
  "(\<exists>b. eir_parse_name [1, 2] 0 1 (replicate 30 0) 29 = Some b \<and> length b = length (replicate 30 (0::byte)))
    \<and> (\<exists>r. read_flags True (Some [1, 1, 6]) 1 = Some r)"
  using advertising_parsers_bounded [of 1 "[1, 2]" 29 "replicate 30 0" 1 "[1, 1, 6]"] by simp

subsection \<open>Well-formed advertising data\<close>

text \<open>A sequence of fields, each a type and its contents.\<close>

definition ad_len :: "byte list \<Rightarrow> byte" where
  "ad_len p = word_of_nat (length p + 1)"

fun ad_fields :: "(byte \<times> byte list) list \<Rightarrow> byte list" where
  "ad_fields [] = []"
| "ad_fields ((t, p) # fs) = ad_len p # t # p @ ad_fields fs"

definition ad_ok :: "(byte \<times> byte list) list \<Rightarrow> bool" where
  "ad_ok fs \<longleftrightarrow> (\<forall>(t, p) \<in> set fs. length p < 255)"

lemma ad_ok_Nil [simp]: "ad_ok []"
  by (simp add: ad_ok_def)

lemma ad_ok_Cons [simp]: "ad_ok ((t, p) # fs) \<longleftrightarrow> length p < 255 \<and> ad_ok fs"
  by (simp add: ad_ok_def)

lemma field_len: "length p < 255 \<Longrightarrow> unat (ad_len p) = length p + 1"
  unfolding ad_len_def by (subst unat_of_nat) simp

lemma lst_get_append: "lst_get (pre @ x # xs) (length pre) = Some x" "lst_get (pre @ x # y # ys) (Suc (length pre)) = Some y"
    "lst_get (pre @ x # y # z # zs) (Suc (Suc (length pre))) = Some z"
  by (simp_all add: cmem nth_append)

lemma len_nonzero: "length p < 255 \<Longrightarrow> ad_len p \<noteq> 0"
  using field_len [of p] by auto

text \<open>One field that is not a flags field is skipped.\<close>

lemma read_flags_skip:
  assumes "length p < 255" and "t \<noteq> FLAGS_AD_TYPE"
  shows "read_flags_loop (pre @ ad_fields ((t, p) # fs) @ rest) (length pre) (length pre + length (ad_fields ((t, p) # fs)) + k)
    = read_flags_loop ((pre @ ad_fields [(t, p)]) @ ad_fields fs @ rest) (length (pre @ ad_fields [(t, p)]))
        (length (pre @ ad_fields [(t, p)]) + length (ad_fields fs) + k)"
  using assms field_len [OF assms(1)] len_nonzero [OF assms(1)]
  by (subst read_flags_loop.simps) (simp add: lst_get_append algebra_simps)

lemma read_flags_finds:
  assumes "ad_ok fs" and "\<forall>(t, p) \<in> set fs. t = FLAGS_AD_TYPE \<longrightarrow> p \<noteq> []"
  shows "read_flags_loop (pre @ ad_fields fs @ rest) (length pre) (length pre + length (ad_fields fs))
    = Some (case find (\<lambda>(t, p). t = FLAGS_AD_TYPE) fs of Some (t, p) \<Rightarrow> (0, Some (hd p)) | None \<Rightarrow> (- ENOENT, None))"
  using assms
proof (induction fs arbitrary: pre)
  case Nil
  then show ?case by (simp add: read_flags_loop.simps)
next
  case (Cons f fs)
  obtain t p where f: "f = (t, p)" by (cases f)
  show ?case
  proof (cases "t = FLAGS_AD_TYPE")
    case True
    then obtain x q where "p = x # q" using Cons.prems f by (cases p) auto
    moreover have "unat (ad_len p) = length p + 1" "ad_len p \<noteq> 0"
      using Cons.prems f field_len [of p] len_nonzero [of p] by (simp_all)
    ultimately show ?thesis
      using True f by (subst read_flags_loop.simps) (simp add: lst_get_append)
  next
    case False
    have "length p < 255" using Cons.prems f by simp
    from read_flags_skip [OF this False, of pre fs rest 0] show ?thesis
      using Cons.IH [of "pre @ ad_fields [f]"] Cons.prems False f by simp
  qed
qed

abbreviation "name_field \<equiv> \<lambda>(t, p). t = EIR_NAME_SHORT \<or> t = EIR_NAME_COMPLETE"

lemma eir_name_skip:
  assumes "length p < 255" and "\<not> name_field (t, p)"
  shows "eir_parse_name (pre @ ad_fields ((t, p) # fs) @ rest) (length pre) (length pre + length (ad_fields ((t, p) # fs)) + k) buf n
    = eir_parse_name ((pre @ ad_fields [(t, p)]) @ ad_fields fs @ rest) (length (pre @ ad_fields [(t, p)]))
        (length (pre @ ad_fields [(t, p)]) + length (ad_fields fs) + k) buf n"
  using assms field_len [OF assms(1)] len_nonzero [OF assms(1)]
  by (subst eir_parse_name.simps) (simp add: lst_get_append algebra_simps)

lemma eir_name_finds:
  assumes "ad_ok fs" and "n \<le> length buf"
  shows "eir_parse_name (pre @ ad_fields fs @ rest) (length pre) (length pre + length (ad_fields fs)) buf n
    = (case find name_field fs of
         Some (t, p) \<Rightarrow> if length p \<le> n then Some (p @ drop (length p) buf) else put_unknown n buf
       | None \<Rightarrow> put_unknown n buf)"
  using assms
proof (induction fs arbitrary: pre)
  case Nil
  then show ?case by (simp add: eir_parse_name.simps)
next
  case (Cons f fs)
  obtain t p where f: "f = (t, p)" by (cases f)
  have l: "length p < 255" using Cons.prems f by simp
  show ?case
  proof (cases "name_field (t, p)")
    case True
    then show ?thesis
      using f field_len [OF l] len_nonzero [OF l] Cons.prems
      by (subst eir_parse_name.simps) (auto simp: lst_get_append get_bytes_def Let_def)
  next
    case False
    with eir_name_skip [OF l False, of pre fs rest 0] show ?thesis
      using Cons.IH [of "pre @ ad_fields [f]"] Cons.prems f by simp
  qed
qed

text \<open>
  On well-formed advertising data the parsers are exact and read nothing beyond it. \<^verbatim>\<open>read_flags\<close>
  returns the first byte of the first flags field, or \<^verbatim>\<open>-ENOENT\<close> without one; \<^verbatim>\<open>eir_parse_name\<close> copies
  the first short or complete name, or writes \<^verbatim>\<open>(unknown)\<close> when there is none or it does not fit.
\<close>

theorem advertising_parsers_exact:
  assumes "ad_ok fs" and "\<forall>(t, p) \<in> set fs. t = FLAGS_AD_TYPE \<longrightarrow> p \<noteq> []" and "n \<le> length buf"
  shows "read_flags True (Some (ad_fields fs)) (length (ad_fields fs))
      = Some (case find (\<lambda>(t, p). t = FLAGS_AD_TYPE) fs of Some (t, p) \<Rightarrow> (0, Some (hd p)) | None \<Rightarrow> (- ENOENT, None))
    \<and> eir_parse_name (ad_fields fs) 0 (length (ad_fields fs)) buf n
      = (case find name_field fs of
           Some (t, p) \<Rightarrow> if length p \<le> n then Some (p @ drop (length p) buf) else put_unknown n buf
         | None \<Rightarrow> put_unknown n buf)"
  using read_flags_finds [OF assms(1,2), of "[]" "[]"] eir_name_finds [OF assms(1,3), of "[]" "[]"]
  by (simp add: read_flags_def)

theorem advertising_parsers_exact_witness:
  "read_flags True (Some (ad_fields [(9, [0x53]), (1, [6])])) (length (ad_fields [(9, [0x53]), (1, [6])])) = Some (0, Some 6)
    \<and> eir_parse_name (ad_fields [(9, [0x53]), (1, [6])]) 0 (length (ad_fields [(9, [0x53]), (1, [6])])) (replicate 30 0) 29
      = Some (0x53 # replicate 29 0)"
proof -
  have "replicate 30 (0::byte) = 0 # replicate 29 0" by (simp flip: replicate_Suc)
  then show ?thesis
    using advertising_parsers_exact [of "[(9, [0x53]), (1, [6])]" 29 "replicate 30 0"] by simp
qed

text \<open>
  Advertising data that ends in the length byte of a field makes both parsers read behind it: after
  any fields without flags and names, a last byte 1 passes the check \<^verbatim>\<open>offset + len > size\<close>, and the type
  is read from the byte after the data.
\<close>

theorem advertising_parsers_overread:
  assumes "ad_ok fs" and "\<forall>f \<in> set fs. fst f \<noteq> FLAGS_AD_TYPE \<and> \<not> name_field f"
  shows "read_flags True (Some (ad_fields fs @ [1])) (length (ad_fields fs) + 1) = None
    \<and> eir_parse_name (ad_fields fs @ [1]) 0 (length (ad_fields fs) + 1) buf n = None"
proof -
  have end_flags: "read_flags_loop (pre @ [1]) (length pre) (length pre + 1) = None" for pre
    by (subst read_flags_loop.simps) (simp add: lst_get_append cmem)
  have end_name: "eir_parse_name (pre @ [1]) (length pre) (length pre + 1) buf n = None" for pre
    by (subst eir_parse_name.simps) (simp add: lst_get_append cmem)
  have "read_flags_loop (pre @ ad_fields fs @ [1]) (length pre) (length pre + length (ad_fields fs) + 1) = None
      \<and> eir_parse_name (pre @ ad_fields fs @ [1]) (length pre) (length pre + length (ad_fields fs) + 1) buf n = None" for pre
    using assms
  proof (induction fs arbitrary: pre)
    case Nil
    then show ?case using end_flags [of pre] end_name [of pre] by simp
  next
    case (Cons f fs)
    obtain t p where f: "f = (t, p)" by (cases f)
    have l: "length p < 255" "t \<noteq> FLAGS_AD_TYPE" "\<not> name_field (t, p)" using Cons.prems f by auto
    show ?case
      using read_flags_skip [OF l(1,2), of pre fs "[1]" 1] eir_name_skip [OF l(1,3), of pre fs "[1]" 1]
        Cons.IH [of "pre @ ad_fields [f]"] Cons.prems f by simp
  qed
  from this [of "[]"] show ?thesis by (simp add: read_flags_def)
qed

theorem advertising_parsers_overread_witness:
  "read_flags True (Some (ad_fields [(2, [7])] @ [1])) (length (ad_fields [(2, [7])]) + 1) = None
    \<and> eir_parse_name (ad_fields [(2, [7])] @ [1]) 0 (length (ad_fields [(2, [7])]) + 1) (replicate 30 0) 29 = None"
  using advertising_parsers_overread [of "[(2, [7])]" "replicate 30 0" 29] by (simp del: ad_fields.simps)

subsection \<open>The search\<close>

lemma scan_loop_found:
  assumes "scan_loop ftype addr rs = Some (rc, True)"
  shows "\<exists>sub info. Event sub info \<in> set rs \<and> ba2str (ai_bdaddr info) = addr"
  using assms
proof (induction rs)
  case (Cons r rs)
  then have "scan_loop ftype addr rs = Some (rc, True) \<or> (\<exists>sub info. r = Event sub info \<and> ba2str (ai_bdaddr info) = addr)"
    by (cases r) (auto simp: bind_Some_iff slate_research_def split: if_splits)
  with Cons.IH show ?case by (metis list.set_intros)
qed simp

lemma hex2_xdigits: "list_all isxdigit (hex2 u b)"
  using hexdig_facts(1) [OF nibbles(1,2) [of b]] hexdig_facts(1) [OF nibbles(3,4) [of b]] by (simp add: hex2_def)

lemma parse_printed: "parse_given_address (ba_print u b) = 0"
proof -
  have "list_all (\<lambda>c. isxdigit c \<or> c = COLON) (hex2 u x)" for x
    using hex2_xdigits [of u x] by (auto simp: list_all_iff)
  then have "list_all (\<lambda>c. isxdigit c \<or> c = COLON) (ba_print u b)" "length (ba_print u b) = 17"
    by (simp_all add: ba_print_def bachk_hex2(3))
  then show ?thesis by (simp add: parse_given_address_def)
qed

text \<open>
  C16. The scan succeeds only for a report of the device that \<^verbatim>\<open>str2ba\<close> reads from the given address, and
  only when that address is written in upper case.
\<close>

theorem scan_finds_given_device:
  assumes "scan_result gok sok ftype addr rs = Some (rc, True)" and "\<forall>sub info. Event sub info \<in> set rs \<longrightarrow> length (ai_bdaddr info) = 6"
  shows "(\<exists>sub info. Event sub info \<in> set rs \<and> str2ba addr = (0, ai_bdaddr info)) \<and> map toupper addr = addr"
proof -
  obtain sub info where i: "Event sub info \<in> set rs" "ba2str (ai_bdaddr info) = addr"
    using scan_loop_found [of ftype addr rs rc] assms(1) by (auto simp: scan_result_def split: if_splits)
  have s: "str2ba addr = (0, ai_bdaddr info)"
    using str2ba_print [of "ai_bdaddr info" True] assms(2) i by (auto simp: ba2str_def)
  have "bachk (Some addr) = 0" using ba_print_accepted [of True] i(2) by (auto simp: ba2str_def)
  from print_accepted [OF this] show ?thesis
    using i s by auto
qed

definition demo_report :: le_advertising_info where
  "demo_report = \<lparr>ai_bdaddr = [1, 2, 3, 4, 5, 6], ai_length = 3, ai_data = [2, 1, 6]\<rparr>"

lemma demo_scan: "scan_result True True 0 (ba2str [1, 2, 3, 4, 5, 6]) [Again, Event 2 demo_report] = Some (0, True)"
proof -
  have "\<exists>b. eir_parse_name [2, 1, 6] 0 3 (replicate 30 0) 29 = Some b"
    using eir_name_finds [of "[(1, [6])]" 29 "replicate 30 0" "[]" "[]"] put_unknown_returns [of 29 "replicate 30 0"]
    by (auto simp: ad_len_def numeral_3_eq_3)
  then show ?thesis
    by (auto simp: scan_result_def check_report_filter_def slate_research_def demo_report_def)
qed

theorem scan_finds_given_device_witness:
  "(\<exists>sub info. Event sub info \<in> set [Again, Event 2 demo_report] \<and> str2ba (ba2str [1, 2, 3, 4, 5, 6]) = (0, ai_bdaddr info))
    \<and> map toupper (ba2str [1, 2, 3, 4, 5, 6]) = ba2str [1, 2, 3, 4, 5, 6]"
  by (rule scan_finds_given_device [OF demo_scan]) (simp add: demo_report_def)

text \<open>
  An address given in lower case is accepted and valid, but never found: \<^verbatim>\<open>parse_given_address\<close> and
  \<^verbatim>\<open>str2ba\<close> accept it, and yet the scan does not succeed for it, whatever devices are reported,
  since \<^verbatim>\<open>slate_research\<close> compares it with the upper-case print of their addresses.
\<close>

theorem lower_case_never_found:
  assumes "length b = 6" and "ba2strlc b \<noteq> ba2str b" and "\<forall>sub info. Event sub info \<in> set rs \<longrightarrow> length (ai_bdaddr info) = 6"
  shows "parse_given_address (ba2strlc b) = 0 \<and> str2ba (ba2strlc b) = (0, b)
    \<and> (\<forall>rc. scan_result gok sok ftype (ba2strlc b) rs \<noteq> Some (rc, True))"
proof -
  have s: "str2ba (ba2strlc b) = (0, b)" using str2ba_print [OF assms(1)] by (simp add: ba2strlc_def)
  have "\<not> scan_result gok sok ftype (ba2strlc b) rs = Some (rc, True)" for rc
  proof
    assume "scan_result gok sok ftype (ba2strlc b) rs = Some (rc, True)"
    then obtain sub info where i: "Event sub info \<in> set rs" "ba2str (ai_bdaddr info) = ba2strlc b"
      using scan_loop_found [of ftype "ba2strlc b" rs rc] by (auto simp: scan_result_def split: if_splits)
    have "str2ba (ba2str (ai_bdaddr info)) = (0, ai_bdaddr info)"
      using str2ba_print assms(3) i(1) by (auto simp: ba2str_def)
    then have "ai_bdaddr info = b" using i(2) s by simp
    then show False using i(2) assms(2) by simp
  qed
  then show ?thesis using s parse_printed by (auto simp: ba2strlc_def)
qed

theorem lower_case_never_found_witness:
  "parse_given_address (ba2strlc [0xAB, 2, 3, 4, 5, 6]) = 0 \<and> str2ba (ba2strlc [0xAB, 2, 3, 4, 5, 6]) = (0, [0xAB, 2, 3, 4, 5, 6])
    \<and> (\<forall>rc. scan_result True True 0 (ba2strlc [0xAB, 2, 3, 4, 5, 6])
        [Event 2 (demo_report\<lparr>ai_bdaddr := [0xAB, 2, 3, 4, 5, 6]\<rparr>)] \<noteq> Some (rc, True))"
  by (rule lower_case_never_found) (simp_all add: ba2str_def ba2strlc_def ba_print_def hex2_def hexdig_def)

end
