(* ===== verification/Bt_Uuid.thy ===== *)
theory Bt_Uuid
  imports Bd_Addr
begin

text \<open>
  Bluetooth UUIDs, from \<^verbatim>\<open>uuid.c\<close>: the three widths, the comparison in the 128-bit form, and the
  conversions to and from strings and little-endian bytes. A 128-bit value is the list of its 16 bytes, most
  significant first. Reading a UUID of type \<^verbatim>\<open>BT_UUID_UNSPEC\<close> as a 128-bit one leaves the result
  unset, which is \<^term>\<open>None\<close>.
\<close>

subsection \<open>Values\<close>

datatype bt_uuid = BT_UUID_UNSPEC | BT_UUID16 u16 | BT_UUID32 u32 | BT_UUID128 "byte list"

definition bluetooth_base_uuid :: "byte list" where
  "bluetooth_base_uuid = [0, 0, 0, 0, 0, 0, 0x10, 0, 0x80, 0, 0, 0x80, 0x5F, 0x9B, 0x34, 0xFB]"

text \<open>The bytes of a value in network order.\<close>

definition be16 :: "u16 \<Rightarrow> byte list" where
  "be16 v = [ucast (drop_bit 8 v), ucast v]"

definition be32 :: "u32 \<Rightarrow> byte list" where
  "be32 v = [ucast (drop_bit 24 v), ucast (drop_bit 16 v), ucast (drop_bit 8 v), ucast v]"

definition bt_uuid16_to_uuid128 :: "u16 \<Rightarrow> bt_uuid" where
  "bt_uuid16_to_uuid128 v = BT_UUID128 (take 2 bluetooth_base_uuid @ be16 v @ drop 4 bluetooth_base_uuid)"

definition bt_uuid32_to_uuid128 :: "u32 \<Rightarrow> bt_uuid" where
  "bt_uuid32_to_uuid128 v = BT_UUID128 (be32 v @ drop 4 bluetooth_base_uuid)"

fun bt_uuid_to_uuid128 :: "bt_uuid \<Rightarrow> bt_uuid option" where
  "bt_uuid_to_uuid128 (BT_UUID128 b) = Some (BT_UUID128 b)"
| "bt_uuid_to_uuid128 (BT_UUID32 v) = Some (bt_uuid32_to_uuid128 v)"
| "bt_uuid_to_uuid128 (BT_UUID16 v) = Some (bt_uuid16_to_uuid128 v)"
| "bt_uuid_to_uuid128 BT_UUID_UNSPEC = None"

text \<open>\<^verbatim>\<open>memcmp\<close>, of which only the sign is specified.\<close>

fun memcmp :: "byte list \<Rightarrow> byte list \<Rightarrow> int" where
  "memcmp (a # as) (b # bs) = (if a < b then -1 else if b < a then 1 else memcmp as bs)"
| "memcmp _ _ = 0"

definition uuid_bytes :: "bt_uuid \<Rightarrow> byte list" where
  "uuid_bytes u = (case u of BT_UUID128 b \<Rightarrow> b | _ \<Rightarrow> [])"

definition bt_uuid128_cmp :: "bt_uuid \<Rightarrow> bt_uuid \<Rightarrow> int" where
  "bt_uuid128_cmp u1 u2 = memcmp (uuid_bytes u1) (uuid_bytes u2)"

definition bt_uuid_cmp :: "bt_uuid \<Rightarrow> bt_uuid \<Rightarrow> int option" where
  "bt_uuid_cmp uuid1 uuid2 = do {
     u1 \<leftarrow> bt_uuid_to_uuid128 uuid1;
     u2 \<leftarrow> bt_uuid_to_uuid128 uuid2;
     Some (bt_uuid128_cmp u1 u2)
   }"

subsection \<open>To a string\<close>

abbreviation "DASH \<equiv> (0x2D::byte)"

text \<open>The number in network order, and its print with at least \<^term>\<open>n\<close> digits; here it never has more.\<close>

definition be_val :: "byte list \<Rightarrow> int" where
  "be_val bs = foldl (\<lambda>v b. 256 * v + b2i b) 0 bs"

fun hexn :: "nat \<Rightarrow> int \<Rightarrow> byte list" where
  "hexn 0 v = []"
| "hexn (Suc n) v = hexn n (v div 16) @ [hexdig False (v mod 16)]"

definition uuid_print :: "byte list \<Rightarrow> byte list" where
  "uuid_print b = hexn 8 (be_val (take 4 b)) @ DASH # hexn 4 (be_val (take 2 (drop 4 b))) @ DASH #
     hexn 4 (be_val (take 2 (drop 6 b))) @ DASH # hexn 4 (be_val (take 2 (drop 8 b))) @ DASH #
     hexn 8 (be_val (take 4 (drop 10 b))) @ hexn 4 (be_val (take 2 (drop 14 b)))"

text \<open>The result and the characters stored, without the terminator: at most \<^term>\<open>n - 1\<close>.\<close>

definition bt_uuid_to_string :: "bt_uuid option \<Rightarrow> nat \<Rightarrow> int \<times> byte list" where
  "bt_uuid_to_string uuid n =
     (case Option.bind uuid bt_uuid_to_uuid128 of
        None \<Rightarrow> (- EINVAL, take (n - 1) (bytes_of_string ''NULL''))
      | Some u \<Rightarrow> (0, take (n - 1) (uuid_print (uuid_bytes u))))"

subsection \<open>From a string\<close>

text \<open>
  The directives of \<^verbatim>\<open>sscanf\<close>: a literal, a hexadecimal number of at most \<^term>\<open>w\<close> characters, one character of
  a set. Each gives the rest of the string.
\<close>

definition scan_lit :: "byte list \<Rightarrow> byte list \<Rightarrow> byte list option" where
  "scan_lit l s = (if take (length l) s = l then Some (drop (length l) s) else None)"

definition scan_hex :: "nat \<Rightarrow> byte list \<Rightarrow> (int \<times> byte list) option" where
  "scan_hex w s =
     (let s = dropWhile isspace s;
          neg = (s \<noteq> [] \<and> hd s = 0x2D);
          sign = s \<noteq> [] \<and> hd s \<in> {0x2B, 0x2D};
          (s, w) = (if sign then (tl s, w - 1) else (s, w));
          (s, w) = (if 2 \<le> w \<and> 1 < length s \<and> s ! 0 = 0x30 \<and> s ! 1 \<in> {0x58, 0x78} then (drop 2 s, w - 2) else (s, w));
          ds = takeWhile isxdigit (take w s);
          v = foldl (\<lambda>v c. 16 * v + hexval c) 0 ds
      in if ds = [] then None else Some (if neg then - v else v, drop (length ds) s))"

definition scan_set :: "byte list \<Rightarrow> byte list \<Rightarrow> byte list option" where
  "scan_set cs s = (if s \<noteq> [] \<and> hd s \<in> set cs then Some (tl s) else None)"

definition is_uuid128 :: "byte list \<Rightarrow> bool" where
  "is_uuid128 s \<longleftrightarrow> length s = 36 \<and> s ! 8 = DASH \<and> s ! 13 = DASH \<and> s ! 18 = DASH \<and> s ! 23 = DASH"

definition is_base_uuid128 :: "byte list \<Rightarrow> bool" where
  "is_base_uuid128 s \<longleftrightarrow> is_uuid128 s \<and>
     (do {
        s \<leftarrow> scan_lit (bytes_of_string ''0000'') s;
        (_, s) \<leftarrow> scan_hex 4 s;
        s \<leftarrow> scan_lit (bytes_of_string ''-0000-1000-8000-00805'') s;
        s \<leftarrow> scan_set (bytes_of_string ''fF'') s;
        s \<leftarrow> scan_lit (bytes_of_string ''9'') s;
        s \<leftarrow> scan_set (bytes_of_string ''bB'') s;
        s \<leftarrow> scan_lit (bytes_of_string ''34'') s;
        s \<leftarrow> scan_set (bytes_of_string ''fF'') s;
        scan_set (bytes_of_string ''bB'') s
      }) \<noteq> None"

definition is_uuid32 :: "byte list \<Rightarrow> bool" where
  "is_uuid32 s \<longleftrightarrow> length s = 8 \<or> length s = 10"

definition is_uuid16 :: "byte list \<Rightarrow> bool" where
  "is_uuid16 s \<longleftrightarrow> length s = 4 \<or> length s = 6"

text \<open>
  \<^verbatim>\<open>strtol(s, &endptr, 16)\<close>: the value, clamped to the range of \<^verbatim>\<open>long\<close> given by its largest value, and the
  rest of the string, which is the whole string when there is no number.
\<close>

definition strtol_end :: "int \<Rightarrow> byte list \<Rightarrow> int \<times> byte list" where
  "strtol_end long_max s =
     (let t = dropWhile isspace s;
          t = (if t \<noteq> [] \<and> hd t \<in> {0x2B, 0x2D} then tl t else t);
          t = (if 2 < length t \<and> t ! 0 = 0x30 \<and> t ! 1 \<in> {0x58, 0x78} \<and> isxdigit (t ! 2) then drop 2 t else t);
          ds = takeWhile isxdigit t
      in if ds = [] then (0, s)
         else (max (- long_max - 1) (min long_max (strtol16 s)), drop (length ds) t))"

definition bt_string_to_uuid16 :: "int \<Rightarrow> byte list \<Rightarrow> int \<times> bt_uuid option" where
  "bt_string_to_uuid16 long_max s =
     (let (v, e) = strtol_end long_max s
      in if e = [] \<or> hd e = DASH then (0, Some (BT_UUID16 (word_of_int v))) else (- EINVAL, None))"

definition bt_string_to_uuid32 :: "int \<Rightarrow> byte list \<Rightarrow> int \<times> bt_uuid option" where
  "bt_string_to_uuid32 long_max s =
     (let (v, e) = strtol_end long_max s
      in if e = [] then (0, Some (BT_UUID32 (word_of_int v))) else (- EINVAL, None))"

definition bt_string_to_uuid128 :: "byte list \<Rightarrow> int \<times> bt_uuid option" where
  "bt_string_to_uuid128 s =
     (case do {
        (data0, s) \<leftarrow> scan_hex 8 s; s \<leftarrow> scan_lit [DASH] s;
        (data1, s) \<leftarrow> scan_hex 4 s; s \<leftarrow> scan_lit [DASH] s;
        (data2, s) \<leftarrow> scan_hex 4 s; s \<leftarrow> scan_lit [DASH] s;
        (data3, s) \<leftarrow> scan_hex 4 s; s \<leftarrow> scan_lit [DASH] s;
        (data4, s) \<leftarrow> scan_hex 8 s;
        (data5, s) \<leftarrow> scan_hex 4 s;
        Some (be32 (word_of_int data0) @ be16 (word_of_int data1) @ be16 (word_of_int data2) @ be16 (word_of_int data3)
          @ be32 (word_of_int data4) @ be16 (word_of_int data5))
      } of None \<Rightarrow> (- EINVAL, None) | Some b \<Rightarrow> (0, Some (BT_UUID128 b)))"

definition bt_string_to_uuid :: "int \<Rightarrow> byte list \<Rightarrow> int \<times> bt_uuid option" where
  "bt_string_to_uuid long_max s =
     (if is_base_uuid128 s then bt_string_to_uuid16 long_max (drop 4 s)
      else if is_uuid128 s then bt_string_to_uuid128 s
      else if is_uuid32 s then bt_string_to_uuid32 long_max s
      else if is_uuid16 s then bt_string_to_uuid16 long_max s
      else (- EINVAL, None))"

definition bt_uuid_strcmp :: "int \<Rightarrow> byte list \<Rightarrow> byte list \<Rightarrow> int option" where
  "bt_uuid_strcmp long_max a b =
     (case bt_string_to_uuid long_max a of
        (_, None) \<Rightarrow> Some (- EINVAL)
      | (_, Some u1) \<Rightarrow>
          (case bt_string_to_uuid long_max b of
             (_, None) \<Rightarrow> Some (- EINVAL)
           | (_, Some u2) \<Rightarrow> bt_uuid_cmp u1 u2))"

definition bt_uuid_to_le :: "bt_uuid \<Rightarrow> int \<times> byte list" where
  "bt_uuid_to_le src =
     (case src of
        BT_UUID16 v \<Rightarrow> (0, rev (be16 v))
      | BT_UUID32 v \<Rightarrow> (0, rev (uuid_bytes (bt_uuid32_to_uuid128 v)))
      | BT_UUID128 b \<Rightarrow> (0, rev b)
      | BT_UUID_UNSPEC \<Rightarrow> (- EINVAL, []))"

subsection \<open>Digits\<close>

definition hex_value :: "byte list \<Rightarrow> int" where
  "hex_value ds = foldl (\<lambda>v c. 16 * v + hexval c) 0 ds"

lemma hexn_digits: "list_all isxdigit (hexn n v)"
  by (induction n arbitrary: v) (simp_all add: hexdig_facts)

lemma length_hexn [simp]: "length (hexn n v) = n"
  by (induction n arbitrary: v) simp_all

lemma hex_value_hexn: "0 \<le> v \<Longrightarrow> v < 16 ^ n \<Longrightarrow> hex_value (hexn n v) = v"
proof (induction n arbitrary: v)
  case (Suc n)
  have "hex_value (hexn n (v div 16)) = v div 16"
    using Suc.prems by (intro Suc.IH) (simp_all add: pos_imp_zdiv_nonneg_iff)
  then show ?case by (simp add: hex_value_def hexdig_facts)
qed (simp add: hex_value_def)

text \<open>Two or more digits are a number for every reader of the file: no blank, sign or prefix is in front.\<close>

lemma digits_start:
  assumes "list_all isxdigit ds" and "2 \<le> length ds"
  obtains x y zs where "ds = x # y # zs" "isxdigit x" "isxdigit y" "list_all isxdigit zs"
  using assms by (cases ds rule: list.exhaust; cases "tl ds" rule: list.exhaust) auto

lemma scan_hex_digits:
  assumes "list_all isxdigit ds" and "2 \<le> length ds"
  shows "scan_hex (length ds) (ds @ s) = Some (hex_value ds, s)"
proof -
  obtain x y zs where d: "ds = x # y # zs" "isxdigit x" "isxdigit y" "list_all isxdigit zs"
    using digits_start [OF assms] .
  have tw: "takeWhile isxdigit zs = zs" using d(4) by (simp add: list_all_iff takeWhile_eq_all_conv)
  show ?thesis
    using d(1-3) xdigit_plain [OF d(2)] xdigit_plain [OF d(3)] by (auto simp: scan_hex_def hex_value_def Let_def tw)
qed

lemma takeWhile_digits: "list_all isxdigit zs \<Longrightarrow> \<not> isxdigit c \<Longrightarrow> takeWhile isxdigit (zs @ c # s) = zs"
  by (induction zs) auto

lemma strtol_end_digits:
  assumes "list_all isxdigit ds" and "2 \<le> length ds" and "\<not> isxdigit c" and "0 \<le> hex_value ds" and "hex_value ds \<le> long_max"
  shows "strtol_end long_max (ds @ c # s) = (hex_value ds, c # s)"
proof -
  obtain x y zs where d: "ds = x # y # zs" "isxdigit x" "isxdigit y" "list_all isxdigit zs"
    using digits_start [OF assms(1,2)] .
  note p = xdigit_plain [OF d(2)] xdigit_plain [OF d(3)]
  have "strtol16 (ds @ c # s) = hex_value ds"
    using d p takeWhile_digits [OF d(4) assms(3), of s] by (auto simp: strtol16_def hex_value_def)
  then show ?thesis
    using d p takeWhile_digits [OF d(4) assms(3), of s] assms(4,5) by (auto simp: strtol_end_def)
qed

lemma be_val_snoc: "be_val (bs @ [b]) = 256 * be_val bs + b2i b"
  by (simp add: be_val_def)

lemma be_val_bounds: "0 \<le> be_val bs \<and> be_val bs < 256 ^ length bs"
proof (induction bs rule: rev_induct)
  case (snoc b bs)
  then show ?case using b2i_bounds [of b] by (auto simp: be_val_snoc)
qed (simp add: be_val_def)

lemma hexn_be_val: "hexn (2 * length bs) (be_val bs) = concat (map (hex2 False) bs)"
proof (induction bs rule: rev_induct)
  case (snoc b bs)
  have e: "(256 * be_val bs + b2i b) div 16 = 16 * be_val bs + b2i b div 16" "(256 * be_val bs + b2i b) mod 16 = b2i b mod 16"
    using div_mult_self1 [of 16 "b2i b" "16 * be_val bs"] mod_mult_self1 [of "b2i b" "16 * be_val bs" 16]
    by (simp_all add: algebra_simps)
  have "(16 * be_val bs + b2i b div 16) div 16 = be_val bs" "(16 * be_val bs + b2i b div 16) mod 16 = b2i b div 16"
    using nibbles [of b] by auto
  with snoc e show ?case by (simp add: be_val_snoc hex2_def)
qed simp

lemma byte_of_word: "n + 8 \<le> LENGTH('a) \<Longrightarrow> (ucast (drop_bit n (word_of_int v :: 'a::len word)) :: byte) = i2b (v div 2 ^ n)"
  by (rule bit_word_eqI) (auto simp: bit_simps drop_bit_eq_div [symmetric])

lemma zero_256: "(256 :: byte) = 0" "(65536 :: byte) = 0" "(16777216 :: byte) = 0"
  by simp_all

lemma eval_2_8: "(2 :: int) ^ 8 = 256"
  by simp

lemma div_256: "(256 * x + b2i z) div 256 = x"
  using b2i_bounds [of z] by auto

lemma be16_be_val: "be16 (word_of_int (be_val [a, b])) = [a, b]"
proof -
  have "be_val [a, b] div 2 ^ 8 = b2i a" using div_256 [of "b2i a" b] by (simp add: be_val_def)
  then show ?thesis
    using byte_of_word [of 8 "be_val [a, b]", where 'a = 16] byte_of_word [of 0 "be_val [a, b]", where 'a = 16]
    by (simp add: be16_def be_val_def zero_256)
qed

lemma be32_be_val: "be32 (word_of_int (be_val [a, b, c, d])) = [a, b, c, d]"
proof -
  let ?v = "be_val [a, b, c, d]"
  have v: "?v = 256 * (256 * (256 * b2i a + b2i b) + b2i c) + b2i d" by (simp add: be_val_def)
  have 8: "?v div 2 ^ 8 = 256 * (256 * b2i a + b2i b) + b2i c" unfolding v using div_256 [of "256 * (256 * b2i a + b2i b) + b2i c" d] by (simp only: eval_2_8)
  have "?v div 2 ^ 16 = ?v div 2 ^ 8 div 256" "?v div 2 ^ 24 = ?v div 2 ^ 8 div 256 div 256"
    by (simp_all add: zdiv_zmult2_eq [symmetric])
  then have "?v div 2 ^ 16 = 256 * b2i a + b2i b" "?v div 2 ^ 24 = b2i a" unfolding 8 div_256 by simp_all
  then show ?thesis
    using byte_of_word [of 24 ?v, where 'a = 32] byte_of_word [of 16 ?v, where 'a = 32]
      byte_of_word [of 8 ?v, where 'a = 32] byte_of_word [of 0 ?v, where 'a = 32] v 8
    by (simp add: be32_def zero_256)
qed

subsection \<open>Strings and UUIDs\<close>

lemma sixteen_bytes:
  assumes "length b = 16"
  obtains b0 b1 b2 b3 b4 b5 b6 b7 b8 b9 b10 b11 b12 b13 b14 b15
  where "b = [b0, b1, b2, b3, b4, b5, b6, b7, b8, b9, b10, b11, b12, b13, b14, b15]"
  using assms by (auto simp: eval_nat_numeral length_Suc_conv)

lemma hexn_4: "hexn 4 (be_val [a, b]) = hex2 False a @ hex2 False b"
  using hexn_be_val [of "[a, b]"] by (simp add: eval_nat_numeral)

lemma hexn_8: "hexn 8 (be_val [a, b, c, d]) = hex2 False a @ hex2 False b @ hex2 False c @ hex2 False d"
  using hexn_be_val [of "[a, b, c, d]"] by (simp add: eval_nat_numeral)

lemma scan_hex_hexn:
  assumes "length bs = k" and "0 < k"
  shows "scan_hex (2 * k) (hexn (2 * k) (be_val bs) @ s) = Some (be_val bs, s)"
proof -
  have "hex_value (hexn (2 * k) (be_val bs)) = be_val bs"
    using be_val_bounds [of bs] assms(1) by (intro hex_value_hexn) (simp_all add: power_mult)
  then show ?thesis
    using scan_hex_digits [OF hexn_digits [of "2 * k" "be_val bs"], of s] assms by simp
qed

lemma scan_hex_4: "scan_hex 4 (hexn 4 (be_val [a, b]) @ s) = Some (be_val [a, b], s)"
  using scan_hex_hexn [of "[a, b]" 2 s] by simp

lemma scan_hex_8: "scan_hex 8 (hexn 8 (be_val [a, b, c, d]) @ s) = Some (be_val [a, b, c, d], s)"
  using scan_hex_hexn [of "[a, b, c, d]" 4 s] by simp

lemma scan_dash: "scan_lit [DASH] (DASH # s) = Some s"
  by (simp add: scan_lit_def)

lemma string_to_uuid128_print:
  assumes "length b = 16"
  shows "bt_string_to_uuid128 (uuid_print b) = (0, Some (BT_UUID128 b))"
proof -
  obtain b0 b1 b2 b3 b4 b5 b6 b7 b8 b9 b10 b11 b12 b13 b14 b15
    where b: "b = [b0, b1, b2, b3, b4, b5, b6, b7, b8, b9, b10, b11, b12, b13, b14, b15]"
    using sixteen_bytes [OF assms] .
  have 4: "scan_hex 4 (hexn 4 (be_val [x, y])) = Some (be_val [x, y], [])" for x y
    using scan_hex_4 [of x y "[]"] by simp
  show ?thesis
    by (simp add: bt_string_to_uuid128_def uuid_print_def b scan_hex_8 scan_hex_4 4 scan_dash be32_be_val be16_be_val)
qed

lemma uuid_print_shape: "length b = 16 \<Longrightarrow> is_uuid128 (uuid_print b)"
  by (simp add: is_uuid128_def uuid_print_def nth_append nth_Cons')

lemma hexdig_inj: "hexdig False v = c \<Longrightarrow> 0 \<le> v \<Longrightarrow> v < 16 \<Longrightarrow> v = hexval c"
  using hexdig_facts(2) [of v False] by simp

lemma hex2_eqD:
  assumes "hex2 False b = [c, d]"
  shows "b = i2b (16 * hexval c + hexval d)"
proof -
  have e: "hexdig False (b2i b div 16) = c" "hexdig False (b2i b mod 16) = d" using assms by (simp_all add: hex2_def)
  have "b2i b = 16 * (b2i b div 16) + b2i b mod 16" by simp
  then have "b2i b = 16 * hexval c + hexval d"
    using hexdig_inj [OF e(1) nibbles(1,2)] hexdig_inj [OF e(2) nibbles(3,4)] by simp
  then show ?thesis by (metis word_of_int_uint)
qed

lemma scan_litD: "scan_lit l s = Some t \<Longrightarrow> s = l @ t"
  by (auto simp: scan_lit_def split: if_splits) (metis append_take_drop_id)

lemma scan_setD: "scan_set cs s = Some t \<Longrightarrow> \<exists>c. c \<in> set cs \<and> s = c # t"
  by (cases s) (auto simp: scan_set_def split: if_splits)

lemma base_uuidD:
  assumes "is_base_uuid128 s"
  obtains w s1 c0 c1 c2 c3 t where "s = bytes_of_string ''0000'' @ s1"
    and "scan_hex 4 s1 = Some (w, bytes_of_string ''-0000-1000-8000-00805'' @ c0 # bytes_of_string ''9'' @ c1 # bytes_of_string ''34'' @ c2 # c3 # t)"
    and "c0 \<in> {0x66, 0x46}" "c1 \<in> {0x62, 0x42}" "c2 \<in> {0x66, 0x46}" "c3 \<in> {0x62, 0x42}"
proof -
  have fF: "set (bytes_of_string ''fF'') = {0x66, 0x46}" and bB: "set (bytes_of_string ''bB'') = {0x62, 0x42}"
    by (simp_all add: bytes_of_string_def)
  from assms obtain s1 w s2 s3 s4 s5 s6 s7 s8 t where
      "scan_lit (bytes_of_string ''0000'') s = Some s1" "scan_hex 4 s1 = Some (w, s2)"
      "scan_lit (bytes_of_string ''-0000-1000-8000-00805'') s2 = Some s3" "scan_set (bytes_of_string ''fF'') s3 = Some s4"
      "scan_lit (bytes_of_string ''9'') s4 = Some s5" "scan_set (bytes_of_string ''bB'') s5 = Some s6"
      "scan_lit (bytes_of_string ''34'') s6 = Some s7" "scan_set (bytes_of_string ''fF'') s7 = Some s8"
      "scan_set (bytes_of_string ''bB'') s8 = Some t"
    by (auto simp: is_base_uuid128_def bind_Some_iff)
  then show thesis
    using that by (auto dest!: scan_litD scan_setD simp: fF bB)
qed

lemma hexdig_lower: "0 \<le> v \<Longrightarrow> v < 16 \<Longrightarrow> hexdig False v \<notin> {0x42, 0x46}"
  using int_below_16 [of v] by (auto simp: hexdig_def)

text \<open>Only the strings of 16-bit UUIDs are recognised as such.\<close>

lemma base_uuid_print:
  assumes "length b = 16" and "is_base_uuid128 (uuid_print b)"
  shows "b = take 2 bluetooth_base_uuid @ [b ! 2, b ! 3] @ drop 4 bluetooth_base_uuid"
proof -
  obtain b0 b1 b2 b3 b4 b5 b6 b7 b8 b9 b10 b11 b12 b13 b14 b15
    where b: "b = [b0, b1, b2, b3, b4, b5, b6, b7, b8, b9, b10, b11, b12, b13, b14, b15]"
    using sixteen_bytes [OF assms(1)] .
  have 4: "scan_hex 4 (hex2 False x @ hex2 False y @ s) = Some (be_val [x, y], s)" for x y s
    using scan_hex_4 [of x y s] by (simp add: hexn_4)
  obtain w s1 c0 c1 c2 c3 t where s1: "uuid_print b = bytes_of_string ''0000'' @ s1"
    and sh: "scan_hex 4 s1 = Some (w, bytes_of_string ''-0000-1000-8000-00805'' @ c0 # bytes_of_string ''9'' @ c1 # bytes_of_string ''34'' @ c2 # c3 # t)"
    and c: "c0 \<in> {0x66, 0x46}" "c1 \<in> {0x62, 0x42}" "c2 \<in> {0x66, 0x46}" "c3 \<in> {0x62, 0x42}"
    using base_uuidD [OF assms(2)] .
  let ?r = "DASH # hex2 False b4 @ hex2 False b5 @ DASH # hex2 False b6 @ hex2 False b7 @ DASH # hex2 False b8 @ hex2 False b9 @ DASH #
      hex2 False b10 @ hex2 False b11 @ hex2 False b12 @ hex2 False b13 @ hex2 False b14 @ hex2 False b15"
  have p: "uuid_print b = hex2 False b0 @ hex2 False b1 @ hex2 False b2 @ hex2 False b3 @ ?r"
    by (simp add: uuid_print_def b hexn_4 hexn_8)
  have z: "hex2 False b0 @ hex2 False b1 = bytes_of_string ''0000''" and s1': "s1 = hex2 False b2 @ hex2 False b3 @ ?r"
    using s1 unfolding p by (simp_all add: hex2_def bytes_of_string_def)
  have e: "?r = bytes_of_string ''-0000-1000-8000-00805'' @ c0 # bytes_of_string ''9'' @ c1 # bytes_of_string ''34'' @ c2 # c3 # t"
    using sh unfolding s1' 4 by simp
  have h: "hex2 False b4 = [0x30, 0x30] \<and> hex2 False b5 = [0x30, 0x30] \<and> hex2 False b6 = [0x31, 0x30] \<and> hex2 False b7 = [0x30, 0x30]
      \<and> hex2 False b8 = [0x38, 0x30] \<and> hex2 False b9 = [0x30, 0x30] \<and> hex2 False b10 = [0x30, 0x30] \<and> hex2 False b11 = [0x38, 0x30]
      \<and> hex2 False b12 = [0x35, c0] \<and> hex2 False b13 = [0x39, c1] \<and> hex2 False b14 = [0x33, 0x34] \<and> hex2 False b15 = [c2, c3]"
    using e by (simp add: hex2_def bytes_of_string_def)
  have "c0 = 0x66" "c1 = 0x62" "c2 = 0x66" "c3 = 0x62"
    using h c hexdig_lower [OF nibbles(3,4), of b12] hexdig_lower [OF nibbles(3,4), of b13]
      hexdig_lower [OF nibbles(1,2), of b15] hexdig_lower [OF nibbles(3,4), of b15]
    by (auto simp: hex2_def)
  moreover have "hex2 False b0 = [0x30, 0x30] \<and> hex2 False b1 = [0x30, 0x30]"
    using z by (simp add: hex2_def bytes_of_string_def)
  ultimately show ?thesis
    using h by (auto dest!: hex2_eqD simp: b bluetooth_base_uuid_def hexval_def)
qed

lemma string_to_uuid16_print:
  assumes "length b = 16" and "0xFFFF \<le> long_max"
  shows "bt_string_to_uuid16 long_max (drop 4 (uuid_print b)) = (0, Some (BT_UUID16 (word_of_int (be_val [b ! 2, b ! 3]))))"
proof -
  obtain b0 b1 b2 b3 b4 b5 b6 b7 b8 b9 b10 b11 b12 b13 b14 b15
    where b: "b = [b0, b1, b2, b3, b4, b5, b6, b7, b8, b9, b10, b11, b12, b13, b14, b15]"
    using sixteen_bytes [OF assms(1)] .
  obtain r where r: "drop 4 (uuid_print b) = hexn 4 (be_val [b2, b3]) @ DASH # r"
    by (simp add: uuid_print_def b hexn_8 hexn_4 hex2_def)
  have v: "hex_value (hexn 4 (be_val [b2, b3])) = be_val [b2, b3]"
    using be_val_bounds [of "[b2, b3]"] by (intro hex_value_hexn) simp_all
  have "strtol_end long_max (hexn 4 (be_val [b2, b3]) @ DASH # r) = (be_val [b2, b3], DASH # r)"
    using strtol_end_digits [OF hexn_digits, of 4 "be_val [b2, b3]" DASH long_max r] be_val_bounds [of "[b2, b3]"] assms(2)
    by (simp add: v isxdigit_def)
  then have "bt_string_to_uuid16 long_max (drop 4 (uuid_print b)) = (0, Some (BT_UUID16 (word_of_int (be_val [b2, b3]))))"
    unfolding r by (simp add: bt_string_to_uuid16_def)
  then show ?thesis by (simp add: b)
qed

text \<open>A UUID that has a value, and its 16 bytes.\<close>

definition uuid_ok :: "bt_uuid \<Rightarrow> bool" where
  "uuid_ok u \<longleftrightarrow> (case u of BT_UUID_UNSPEC \<Rightarrow> False | BT_UUID128 b \<Rightarrow> length b = 16 | _ \<Rightarrow> True)"

lemma to_uuid128_bytes:
  assumes "uuid_ok u"
  obtains b where "bt_uuid_to_uuid128 u = Some (BT_UUID128 b)" "length b = 16"
  using assms
  by (cases u) (auto simp: uuid_ok_def bt_uuid16_to_uuid128_def bt_uuid32_to_uuid128_def bluetooth_base_uuid_def be16_def be32_def)

lemma memcmp_0_iff: "length a = length b \<Longrightarrow> memcmp a b = 0 \<longleftrightarrow> a = b"
  by (induction a b rule: memcmp.induct) auto

text \<open>
  C19. UUIDs survive printing and parsing. For every UUID of 16, 32 or 128 bits, \<^verbatim>\<open>bt_uuid_to_string\<close> into
  a buffer of \<^verbatim>\<open>MAX_LEN_UUID_STR\<close> bytes succeeds, \<^verbatim>\<open>bt_string_to_uuid\<close> accepts the text, and
  \<^verbatim>\<open>bt_uuid_cmp\<close> finds the result equal to the original.
\<close>

theorem uuid_string_roundtrip:
  assumes "uuid_ok u" and "0xFFFF \<le> long_max"
  shows "\<exists>txt v. bt_uuid_to_string (Some u) 37 = (0, txt) \<and> length txt = 36
    \<and> bt_string_to_uuid long_max txt = (0, Some v) \<and> bt_uuid_cmp u v = Some 0"
proof -
  obtain b where b: "bt_uuid_to_uuid128 u = Some (BT_UUID128 b)" "length b = 16"
    using to_uuid128_bytes [OF assms(1)] .
  have l: "length (uuid_print b) = 36" using uuid_print_shape [OF b(2)] by (simp add: is_uuid128_def)
  then have p: "bt_uuid_to_string (Some u) 37 = (0, uuid_print b)"
    by (simp add: bt_uuid_to_string_def b(1) uuid_bytes_def)
  have "\<exists>v. bt_string_to_uuid long_max (uuid_print b) = (0, Some v) \<and> bt_uuid_to_uuid128 v = Some (BT_UUID128 b)"
  proof (cases "is_base_uuid128 (uuid_print b)")
    case True
    have "take 2 bluetooth_base_uuid @ be16 (word_of_int (be_val [b ! 2, b ! 3])) @ drop 4 bluetooth_base_uuid = b"
      using base_uuid_print [OF b(2) True] by (simp add: be16_be_val)
    then show ?thesis
      using True by (simp add: bt_string_to_uuid_def string_to_uuid16_print [OF b(2) assms(2)] bt_uuid16_to_uuid128_def)
  next
    case False
    then show ?thesis
      using uuid_print_shape [OF b(2)] by (simp add: bt_string_to_uuid_def string_to_uuid128_print [OF b(2)])
  qed
  then show ?thesis
    using p l b by (auto simp: bt_uuid_cmp_def bt_uuid128_cmp_def memcmp_0_iff)
qed

theorem uuid_string_roundtrip_witness:
  "\<exists>txt v. bt_uuid_to_string (Some (BT_UUID16 0x2902)) 37 = (0, txt) \<and> length txt = 36
    \<and> bt_string_to_uuid 0x7FFFFFFF txt = (0, Some v) \<and> bt_uuid_cmp (BT_UUID16 0x2902) v = Some 0"
  by (rule uuid_string_roundtrip) (simp_all add: uuid_ok_def)

end
