(* ===== verification/Ble_Central.thy ===== *)
theory Ble_Central
  imports Ble_Link Ble_Scan Bt_Uuid "HOL-Library.Sublist"
begin

text \<open>
  The connection state machine of \<^verbatim>\<open>main.c\<close>: the loop of \<^verbatim>\<open>main\<close> with scanning, connecting and opening
  the socket, and the callbacks that run inside \<^verbatim>\<open>mainloop_run\<close>, from service discovery over the three
  writes of the SLATE protocol to the start of the file transfer, and back to scanning when the device
  disconnects.

  What the Bluetooth stack answers is the argument of a handler: the results of the system calls, the
  discovered characteristics, the outcome of a write. The GATT client behind
  \<^verbatim>\<open>bt_gatt_client_write_value\<close> is a parameter on the state \<open>'g\<close>, which gives the id of the request, or 0.
\<close>

subsection \<open>State\<close>

record client =
  mldp_data_char_handle :: u16
  mldp_data_desc_handle :: u16
  mldp_ctrl_char_handle :: u16
  central_identification_char_handle :: u16
  peripheral_authentication_char_handle :: u16
  misc_char_handle :: u16

datatype sps_char = Identification | Authentication | Misc

text \<open>
  \<^term>\<open>in_mainloop\<close> tells whether \<^verbatim>\<open>main\<close> is inside \<^verbatim>\<open>mainloop_run\<close>, \<^term>\<open>ready_due\<close> that \<^verbatim>\<open>ready_cb\<close>
  is registered and has not been called, and \<^term>\<open>requests\<close> lists the writes whose callbacks are due.
\<close>

record 'g app =
  dev :: "'g central"
  cli :: client
  sock_fd :: int
  in_mainloop :: bool
  end_of_state_machine :: bool
  signal_received :: bool
  ready_due :: bool
  requests :: "sps_char list"

definition zero_client :: client where
  "zero_client = \<lparr>mldp_data_char_handle = 0, mldp_data_desc_handle = 0, mldp_ctrl_char_handle = 0,
     central_identification_char_handle = 0, peripheral_authentication_char_handle = 0, misc_char_handle = 0\<rparr>"

abbreviation step :: "'g app \<Rightarrow> ble_connection_step" where
  "step a \<equiv> ble_con_step (dev a)"

definition set_step :: "ble_connection_step \<Rightarrow> 'g app \<Rightarrow> 'g app" where
  "set_step s a = a\<lparr>dev := (dev a)\<lparr>ble_con_step := s\<rparr>\<rparr>"

text \<open>How a part of \<^verbatim>\<open>main\<close> ends: it goes on, leaves the loop, or calls \<^verbatim>\<open>exit\<close>.\<close>

datatype 'g main_result = Goes_on "'g app" | Breaks "'g app" | Exits int

subsection \<open>Scanning and connecting\<close>

record scan_env =
  hci_open_ok :: bool
  params_ok :: bool
  enable_ok :: bool
  disable_ok :: bool
  getsock_ok :: bool
  setsock_ok :: bool
  reads :: "hci_read list"

definition cmd_lescan :: "scan_env \<Rightarrow> byte list \<Rightarrow> 'g app \<Rightarrow> 'g main_result option" where
  "cmd_lescan e slate_addr a =
     (if \<not> hci_open_ok e then Some (Exits 1)
      else if \<not> params_ok e then Some (Exits 1)
      else if \<not> enable_ok e then Some (Exits 1)
      else do {
        (err, found) \<leftarrow> scan_result (getsock_ok e) (setsock_ok e) 0 slate_addr (reads e);
        if err < 0 then Some (Exits 1)
        else if \<not> disable_ok e then Some (Exits 1)
        else Some (Goes_on (if found then set_step BLE_SLATE_FOUND a else a))
      })"

definition le_connection :: "bool \<Rightarrow> bool \<Rightarrow> 'g app \<Rightarrow> 'g main_result" where
  "le_connection hci_ok create_ok a =
     (if \<not> hci_ok then Exits 1 else if \<not> create_ok then Exits 1 else Goes_on (set_step BLE_CONNECTED a))"

text \<open>The descriptor of the socket, or the results of the failing calls: \<^verbatim>\<open>EXIT_FAILURE\<close>, but -1 for \<^verbatim>\<open>connect\<close>.\<close>

record sock_env =
  socket_fd :: int
  bind_ok :: bool
  security_ok :: bool
  connect_ok :: bool

definition l2cap_le_att_connect :: "sock_env \<Rightarrow> int" where
  "l2cap_le_att_connect e =
     (if socket_fd e < 0 then EXIT_FAILURE
      else if \<not> bind_ok e then EXIT_FAILURE
      else if \<not> security_ok e then EXIT_FAILURE
      else if \<not> connect_ok e then -1
      else socket_fd e)"

definition main_connected :: "bool \<Rightarrow> sock_env \<Rightarrow> byte list \<Rightarrow> 'g app \<Rightarrow> 'g main_result" where
  "main_connected devba_ok e addr a =
     (if fst (str2ba addr) \<noteq> 0 then Breaks a
      else if \<not> devba_ok then Breaks a
      else let fd = l2cap_le_att_connect e
           in if fd < 0 then Breaks (set_step BLE_SCANNING (a\<lparr>sock_fd := fd\<rparr>))
              else Goes_on (set_step BLE_SOCKET_OPEN (a\<lparr>sock_fd := fd\<rparr>)))"

text \<open>
  \<^verbatim>\<open>gatt_central_create\<close> gives a zeroed structure with the callbacks registered, or a null pointer when one
  of the objects it builds cannot be created. The global \<^verbatim>\<open>ble_con_step\<close> is not part of the structure.
\<close>

definition gatt_central_create :: "bool \<Rightarrow> 'g app \<Rightarrow> 'g app option" where
  "gatt_central_create objects_ok a =
     (if \<not> objects_ok then None
      else Some (a\<lparr>cli := zero_client, dev := (dev a)\<lparr>ft_threads := 0\<rparr>, ready_due := True, requests := []\<rparr>))"

definition main_socket_open :: "bool \<Rightarrow> bool \<Rightarrow> 'g app \<Rightarrow> 'g main_result" where
  "main_socket_open objects_ok sync_ok a =
     (case gatt_central_create objects_ok a of
        None \<Rightarrow> Breaks (set_step BLE_SCANNING a)
      | Some a \<Rightarrow>
          if \<not> sync_ok then Breaks a
          else Goes_on (a\<lparr>dev := snd (mldp_fifos_init (dev a)), in_mainloop := True\<rparr>))"

text \<open>
  The handler of \<^verbatim>\<open>SIGINT\<close>. While a device is connected, \<^verbatim>\<open>le_deconnection\<close> reads \<^verbatim>\<open>argv[0]\<close> of a null
  \<^verbatim>\<open>argv\<close> unless the adapter cannot be opened, which ends the program.
\<close>

definition le_deconnection :: "bool \<Rightarrow> 'g app \<Rightarrow> 'g main_result option" where
  "le_deconnection hci_ok a = (if \<not> hci_ok then Some (Exits 1) else None)"

definition sig_handler :: "bool \<Rightarrow> 'g app \<Rightarrow> 'g main_result option" where
  "sig_handler hci_ok a =
     (if step a = BLE_SCANNING then Some (Goes_on (a\<lparr>signal_received := True, end_of_state_machine := True\<rparr>))
      else le_deconnection hci_ok a)"

subsection \<open>Service discovery\<close>

abbreviation "LONG_MAX \<equiv> (0x7FFFFFFF::int)"

definition uuid_of :: "string \<Rightarrow> bt_uuid" where
  "uuid_of cs = (case snd (bt_string_to_uuid LONG_MAX (bytes_of_string cs)) of Some u \<Rightarrow> u | None \<Rightarrow> BT_UUID_UNSPEC)"

definition "CENTRAL_IDENTIFICATION_CHARACTERISTIC_UUID = uuid_of ''00000000-0000-0000-4000-0000024e4553''"
definition "PERIPHERAL_AUTHENTICATION_CHARACTERISTIC_UUID = uuid_of ''00000000-0000-0000-4000-0000034e4553''"
definition "MISC_CHARACTERISTIC_UUID = uuid_of ''00000000-0000-0000-4000-0000054e4553''"
definition "MLDP_DATA_CHARAC_UUID = uuid_of ''00035b03-58e6-07dd-021a-08123a000301''"
definition "MLDP_CTRL_CHARAC_UUID = uuid_of ''00035b03-58e6-07dd-021a-08123a0003ff''"

text \<open>A characteristic: its value handle and UUID, or nothing when \<^verbatim>\<open>gatt_db_attribute_get_char_data\<close> fails.\<close>

type_synonym char_data = "(u16 \<times> bt_uuid) option"

definition client_store_handle :: "char_data \<Rightarrow> 'g app \<Rightarrow> 'g app option" where
  "client_store_handle attr a =
     (let a = set_step BLE_SPS_DISCOVERING a
      in case attr of
           None \<Rightarrow> Some a
         | Some (value_handle, uuid) \<Rightarrow> do {
             e1 \<leftarrow> bt_uuid_cmp uuid CENTRAL_IDENTIFICATION_CHARACTERISTIC_UUID;
             let c = cli a;
             let c = (if e1 = 0 then c\<lparr>central_identification_char_handle := value_handle\<rparr> else c);
             e2 \<leftarrow> bt_uuid_cmp uuid PERIPHERAL_AUTHENTICATION_CHARACTERISTIC_UUID;
             let c = (if e2 = 0 then c\<lparr>peripheral_authentication_char_handle := value_handle\<rparr> else c);
             e3 \<leftarrow> bt_uuid_cmp uuid MISC_CHARACTERISTIC_UUID;
             let c = (if e3 = 0 then c\<lparr>misc_char_handle := value_handle\<rparr> else c);
             e4 \<leftarrow> bt_uuid_cmp uuid MLDP_DATA_CHARAC_UUID;
             let c = (if e4 = 0 then c\<lparr>mldp_data_char_handle := value_handle, mldp_data_desc_handle := value_handle + 1\<rparr> else c);
             e5 \<leftarrow> bt_uuid_cmp uuid MLDP_CTRL_CHARAC_UUID;
             let c = (if e5 = 0 then c\<lparr>mldp_ctrl_char_handle := value_handle\<rparr> else c);
             Some (a\<lparr>cli := c\<rparr>)
           })"

fun foreach :: "('x \<Rightarrow> 's \<Rightarrow> 's option) \<Rightarrow> 'x list \<Rightarrow> 's \<Rightarrow> 's option" where
  "foreach f [] s = Some s"
| "foreach f (x # xs) s = do { s \<leftarrow> f x s; foreach f xs s }"

text \<open>A service: its characteristics, or nothing when \<^verbatim>\<open>gatt_db_attribute_get_service_data\<close> fails.\<close>

definition client_parse_chrc :: "char_data list option \<Rightarrow> 'g app \<Rightarrow> 'g app option" where
  "client_parse_chrc srv a = (case srv of None \<Rightarrow> Some a | Some chars \<Rightarrow> foreach client_store_handle chars a)"

definition get_handle_from_uuid :: "char_data list option list \<Rightarrow> 'g app \<Rightarrow> 'g app option" where
  "get_handle_from_uuid services a = foreach client_parse_chrc services a"

subsection \<open>The writes of the SLATE protocol\<close>

type_synonym 'g write_value = "u16 \<Rightarrow> byte list \<Rightarrow> 'g \<Rightarrow> nat \<times> 'g"

text \<open>
  A write request with its callback. The three functions return \<^verbatim>\<open>EXIT_FAILURE\<close> when the id of the
  request is not 0, that is, when the request was accepted; their callers ignore the result.
\<close>

definition write_request :: "'g write_value \<Rightarrow> sps_char \<Rightarrow> u16 \<Rightarrow> byte list \<Rightarrow> 'g app \<Rightarrow> int \<times> 'g app" where
  "write_request w c handle v a =
     (let (i, g) = w handle v (gatt (dev a)); a = a\<lparr>dev := (dev a)\<lparr>gatt := g\<rparr>\<rparr>
      in if i \<noteq> 0 then (EXIT_FAILURE, a\<lparr>requests := requests a @ [c]\<rparr>) else (EXIT_SUCCESS, a))"

definition write_misc_char :: "'g write_value \<Rightarrow> 'g app \<Rightarrow> int \<times> 'g app" where
  "write_misc_char w a = write_request w Misc (misc_char_handle (cli a)) [1] a"

definition write_authentication_char :: "'g write_value \<Rightarrow> 'g app \<Rightarrow> int \<times> 'g app" where
  "write_authentication_char w a = write_request w Authentication (peripheral_authentication_char_handle (cli a)) [0, 0, 0, 0] a"

definition write_identification_char :: "'g write_value \<Rightarrow> 'g app \<Rightarrow> int \<times> 'g app" where
  "write_identification_char w a =
     write_request w Identification (central_identification_char_handle (cli a)) [0, 0, 0, 0, 0, 0, 0, 6] a"

definition write_ble_sps :: "'g write_value \<Rightarrow> 'g app \<Rightarrow> 'g app" where
  "write_ble_sps w a = snd (write_identification_char w a)"

subsection \<open>Callbacks\<close>

definition retry_scan :: "'g app \<Rightarrow> 'g app" where
  "retry_scan a = set_step BLE_SCANNING (a\<lparr>in_mainloop := False\<rparr>)"

definition client_write_cb_misc_char :: "bool \<Rightarrow> 'g app \<Rightarrow> 'g app" where
  "client_write_cb_misc_char success a = (if \<not> success then retry_scan a else set_step BLE_WAIT_MLDP_DATA a)"

definition client_write_cb_authentication_char :: "'g write_value \<Rightarrow> bool \<Rightarrow> 'g app \<Rightarrow> 'g app" where
  "client_write_cb_authentication_char w success a = (if \<not> success then retry_scan a else snd (write_misc_char w a))"

definition client_write_cb_identification_char :: "'g write_value \<Rightarrow> bool \<Rightarrow> 'g app \<Rightarrow> 'g app" where
  "client_write_cb_identification_char w success a = (if \<not> success then retry_scan a else snd (write_authentication_char w a))"

definition ready_cb :: "'g write_value \<Rightarrow> bool \<Rightarrow> char_data list option list \<Rightarrow> 'g app \<Rightarrow> 'g app option" where
  "ready_cb w success services a =
     (if \<not> success then Some a
      else do {
        a \<leftarrow> get_handle_from_uuid services a;
        Some (write_ble_sps w (set_step BLE_ALL_SERVICE_DISCOVERY_COMPLETE a))
      })"

text \<open>Joining the thread of a structure whose thread was never created is undefined.\<close>

definition att_disconnect_cb :: "'g app \<Rightarrow> 'g app option" where
  "att_disconnect_cb a =
     (if ft_threads (dev a) = 0 then None
      else Some ((set_step BLE_SCANNING a)\<lparr>in_mainloop := False\<rparr>))"

definition mldp_data_written :: "u16 \<Rightarrow> byte list \<Rightarrow> 'g app \<Rightarrow> 'g app option" where
  "mldp_data_written offset v a = do {
     (_, d) \<leftarrow> server_mldp_data_char_write_cb offset v (dev a);
     Some (a\<lparr>dev := d\<rparr>)
   }"

subsection \<open>Runs\<close>

datatype ble_event = Scan scan_env | Connect bool bool | Open_socket bool sock_env | Create bool bool
  | Interrupt bool | Ready bool "char_data list option list" | Written sps_char bool | Data u16 "byte list" | Disconnected

text \<open>
  One iteration of the loop of \<^verbatim>\<open>main\<close>, or one callback inside \<^verbatim>\<open>mainloop_run\<close>. An iteration that leaves
  the loop or the program, and a handler that is undefined, make no step. \<^verbatim>\<open>ready_cb\<close> is called once, and
  the callbacks of the writes in the order of the requests.
\<close>

inductive ble_step :: "'g write_value \<Rightarrow> byte list \<Rightarrow> 'g app \<Rightarrow> ble_event \<Rightarrow> 'g app \<Rightarrow> bool" for w addr where
  scan: "\<not> in_mainloop a \<Longrightarrow> \<not> end_of_state_machine a \<Longrightarrow> step a = BLE_SCANNING \<Longrightarrow> cmd_lescan e addr a = Some (Goes_on a')
    \<Longrightarrow> ble_step w addr a (Scan e) a'"
| connect: "\<not> in_mainloop a \<Longrightarrow> \<not> end_of_state_machine a \<Longrightarrow> step a = BLE_SLATE_FOUND \<Longrightarrow> le_connection p q a = Goes_on a'
    \<Longrightarrow> ble_step w addr a (Connect p q) a'"
| open_socket: "\<not> in_mainloop a \<Longrightarrow> \<not> end_of_state_machine a \<Longrightarrow> step a = BLE_CONNECTED \<Longrightarrow> main_connected p e addr a = Goes_on a'
    \<Longrightarrow> ble_step w addr a (Open_socket p e) a'"
| create: "\<not> in_mainloop a \<Longrightarrow> \<not> end_of_state_machine a \<Longrightarrow> step a = BLE_SOCKET_OPEN \<Longrightarrow> main_socket_open p q a = Goes_on a'
    \<Longrightarrow> ble_step w addr a (Create p q) a'"
| interrupt: "sig_handler p a = Some (Goes_on a') \<Longrightarrow> ble_step w addr a (Interrupt p) a'"
| ready: "in_mainloop a \<Longrightarrow> ready_due a \<Longrightarrow> ready_cb w ok services (a\<lparr>ready_due := False\<rparr>) = Some a'
    \<Longrightarrow> ble_step w addr a (Ready ok services) a'"
| written: "in_mainloop a \<Longrightarrow> requests a = c # rs \<Longrightarrow>
    a' = (case c of Identification \<Rightarrow> client_write_cb_identification_char w ok (a\<lparr>requests := rs\<rparr>)
          | Authentication \<Rightarrow> client_write_cb_authentication_char w ok (a\<lparr>requests := rs\<rparr>)
          | Misc \<Rightarrow> client_write_cb_misc_char ok (a\<lparr>requests := rs\<rparr>))
    \<Longrightarrow> ble_step w addr a (Written c ok) a'"
| data: "in_mainloop a \<Longrightarrow> mldp_data_written offset v a = Some a' \<Longrightarrow> ble_step w addr a (Data offset v) a'"
| disconnected: "in_mainloop a \<Longrightarrow> att_disconnect_cb a = Some a' \<Longrightarrow> ble_step w addr a Disconnected a'"

inductive ble_run :: "'g write_value \<Rightarrow> byte list \<Rightarrow> 'g app \<Rightarrow> ble_event list \<Rightarrow> 'g app \<Rightarrow> bool" for w addr where
  start: "ble_run w addr a [] a"
| event: "ble_run w addr a evs a' \<Longrightarrow> ble_step w addr a' e a'' \<Longrightarrow> ble_run w addr a (evs @ [e]) a''"

text \<open>The state in which \<^verbatim>\<open>main\<close> enters its loop, after \<^verbatim>\<open>parse_given_address\<close>.\<close>

definition app_start :: "'g central \<Rightarrow> 'g app" where
  "app_start d = \<lparr>dev = d\<lparr>ble_con_step := BLE_SCANNING, ft_threads := 0\<rparr>, cli = zero_client, sock_fd = 0, in_mainloop = False,
     end_of_state_machine = False, signal_received = False, ready_due = False, requests = []\<rparr>"

text \<open>The events since the last connection was set up.\<close>

fun is_create :: "ble_event \<Rightarrow> bool" where
  "is_create (Create p q) = True"
| "is_create e = False"

definition this_connection :: "ble_event list \<Rightarrow> ble_event list" where
  "this_connection evs = rev (takeWhile (\<lambda>e. \<not> is_create e) (rev evs))"

lemma this_connection_snoc [simp]:
  "this_connection (evs @ [e]) = (if is_create e then [] else this_connection evs @ [e])"
  by (simp add: this_connection_def)

text \<open>
  The invariant. Outside \<^verbatim>\<open>mainloop_run\<close> the step is one of the main loop's; inside, the step tells how far the
  protocol has come: which requests may be outstanding, which writes have been acknowledged on this
  connection, and whether the transfer thread runs.
\<close>

definition confirmed :: "sps_char list \<Rightarrow> ble_event list \<Rightarrow> bool" where
  "confirmed cs evs \<longleftrightarrow> (\<exists>services. subseq (Ready True services # map (\<lambda>c. Written c True) cs) (this_connection evs))"

definition protocol_inv :: "ble_event list \<Rightarrow> 'g app \<Rightarrow> bool" where
  "protocol_inv evs a \<longleftrightarrow>
     (\<not> in_mainloop a \<longrightarrow> step a \<in> {BLE_SCANNING, BLE_SLATE_FOUND, BLE_CONNECTED, BLE_SOCKET_OPEN}) \<and>
     (in_mainloop a \<longrightarrow>
       step a = BLE_SOCKET_OPEN \<and> requests a = [] \<and> ft_threads (dev a) = 0
     \<or> step a = BLE_ALL_SERVICE_DISCOVERY_COMPLETE \<and> \<not> ready_due a \<and> ft_threads (dev a) = 0 \<and>
         (requests a = [] \<or> requests a = [Identification] \<and> confirmed [] evs
          \<or> requests a = [Authentication] \<and> confirmed [Identification] evs
          \<or> requests a = [Misc] \<and> confirmed [Identification, Authentication] evs)
     \<or> step a = BLE_WAIT_MLDP_DATA \<and> \<not> ready_due a \<and> requests a = [] \<and> ft_threads (dev a) = 0
         \<and> confirmed [Identification, Authentication, Misc] evs
     \<or> step a = BLE_FILE_TRANSFER \<and> \<not> ready_due a \<and> requests a = [] \<and> ft_threads (dev a) = 1
         \<and> (\<exists>services v. subseq [Ready True services, Written Identification True, Written Authentication True, Written Misc True, Data 0 v]
              (this_connection evs)))"

lemma confirmed_snoc: "confirmed cs evs \<Longrightarrow> \<not> is_create e \<Longrightarrow> confirmed cs (evs @ [e])"
  by (auto simp: confirmed_def)

lemma confirmed_ready: "confirmed [] (evs @ [Ready True services])"
  unfolding confirmed_def by (intro exI [of _ services]) (simp add: subseq_singleton_left)

lemma confirmed_written:
  assumes "confirmed cs evs"
  shows "confirmed (cs @ [c]) (evs @ [Written c True])"
proof -
  obtain services where "subseq (Ready True services # map (\<lambda>c. Written c True) cs) (this_connection evs)"
    using assms by (auto simp: confirmed_def)
  then have "subseq ((Ready True services # map (\<lambda>c. Written c True) cs) @ [Written c True]) (this_connection evs @ [Written c True])"
    by (rule list_emb_append_mono) simp
  then show ?thesis by (auto simp: confirmed_def)
qed

lemma set_step_simps [simp]:
  "step (set_step x a) = x" "requests (set_step x a) = requests a" "ready_due (set_step x a) = ready_due a"
  "in_mainloop (set_step x a) = in_mainloop a" "ft_threads (dev (set_step x a)) = ft_threads (dev a)"
  "end_of_state_machine (set_step x a) = end_of_state_machine a"
  by (simp_all add: set_step_def)

text \<open>What discovery leaves alone.\<close>

definition same_protocol :: "'g app \<Rightarrow> 'g app \<Rightarrow> bool" where
  "same_protocol a a' \<longleftrightarrow> requests a' = requests a \<and> ready_due a' = ready_due a \<and> in_mainloop a' = in_mainloop a
     \<and> ft_threads (dev a') = ft_threads (dev a)"

lemma foreach_same:
  assumes "\<And>x a a'. f x a = Some a' \<Longrightarrow> same_protocol a a'"
  shows "foreach f xs a = Some a' \<Longrightarrow> same_protocol a a'"
proof (induction xs arbitrary: a)
  case (Cons x xs)
  then obtain b where "f x a = Some b" "foreach f xs b = Some a'" by (auto simp: bind_Some_iff)
  then show ?case using assms [of x a b] Cons.IH [of b] by (auto simp: same_protocol_def)
qed (simp add: same_protocol_def)

lemma store_handle_same: "client_store_handle attr a = Some a' \<Longrightarrow> same_protocol a a'"
  by (auto simp: client_store_handle_def same_protocol_def Let_def bind_Some_iff split: option.splits)

lemma parse_chrc_same: "client_parse_chrc srv a = Some a' \<Longrightarrow> same_protocol a a'"
proof (cases srv)
  case (Some chars)
  assume "client_parse_chrc srv a = Some a'"
  with Some have "foreach client_store_handle chars a = Some a'" by (simp add: client_parse_chrc_def)
  then show ?thesis by (rule foreach_same [where f = client_store_handle, rotated]) (rule store_handle_same)
qed (simp add: client_parse_chrc_def same_protocol_def)

lemma get_handle_same: "get_handle_from_uuid services a = Some a' \<Longrightarrow> same_protocol a a'"
  unfolding get_handle_from_uuid_def by (erule foreach_same [where f = client_parse_chrc, rotated]) (rule parse_chrc_same)

lemma write_request_effect:
  assumes "write_request w c h v a = (rc, a')"
  shows "step a' = step a" "ready_due a' = ready_due a" "in_mainloop a' = in_mainloop a" "ft_threads (dev a') = ft_threads (dev a)"
    "requests a' = requests a \<or> requests a' = requests a @ [c]"
  using assms by (auto simp: write_request_def Let_def split: prod.splits if_splits)

lemmas write_defs = write_misc_char_def write_authentication_char_def write_identification_char_def write_ble_sps_def
  client_write_cb_misc_char_def client_write_cb_authentication_char_def client_write_cb_identification_char_def

lemma data_written_effect:
  assumes "mldp_data_written offset v a = Some a'"
  shows "requests a' = requests a \<and> ready_due a' = ready_due a \<and> in_mainloop a' = in_mainloop a
    \<and> (if offset = 0 \<and> step a = BLE_WAIT_MLDP_DATA
       then step a' = BLE_FILE_TRANSFER \<and> ft_threads (dev a') = ft_threads (dev a) + 1
       else step a' = step a \<and> ft_threads (dev a') = ft_threads (dev a))"
  using assms
  by (auto simp: mldp_data_written_def server_mldp_data_char_write_cb_def start_file_transfer_def fifos_flush_def Let_def
      bind_Some_iff split: if_splits)

lemma inv_outside: "\<not> in_mainloop a \<Longrightarrow> step a \<in> {BLE_SCANNING, BLE_SLATE_FOUND, BLE_CONNECTED, BLE_SOCKET_OPEN} \<Longrightarrow> protocol_inv evs a"
  by (simp add: protocol_inv_def)

lemma inv_opened: "in_mainloop a \<Longrightarrow> step a = BLE_SOCKET_OPEN \<Longrightarrow> requests a = [] \<Longrightarrow> ft_threads (dev a) = 0 \<Longrightarrow> protocol_inv evs a"
  by (simp add: protocol_inv_def)

lemma inv_discovered:
  assumes "in_mainloop a" "step a = BLE_ALL_SERVICE_DISCOVERY_COMPLETE" "\<not> ready_due a" "ft_threads (dev a) = 0"
    and "requests a = [] \<or> requests a = [Identification] \<and> confirmed [] evs
          \<or> requests a = [Authentication] \<and> confirmed [Identification] evs
          \<or> requests a = [Misc] \<and> confirmed [Identification, Authentication] evs"
  shows "protocol_inv evs a"
  using assms by (simp add: protocol_inv_def)

lemma inv_waiting:
  assumes "in_mainloop a" "step a = BLE_WAIT_MLDP_DATA" "\<not> ready_due a" "ft_threads (dev a) = 0" "requests a = []"
    and "confirmed [Identification, Authentication, Misc] evs"
  shows "protocol_inv evs a"
  using assms by (simp add: protocol_inv_def)

lemma inv_ready:
  assumes "protocol_inv evs a" and "in_mainloop a" and "ready_due a" and "ready_cb w ok services (a\<lparr>ready_due := False\<rparr>) = Some a'"
  shows "protocol_inv (evs @ [Ready ok services]) a'"
proof -
  have s: "step a = BLE_SOCKET_OPEN" "requests a = []" "ft_threads (dev a) = 0" using assms(1-3) by (auto simp: protocol_inv_def)
  show ?thesis
  proof (cases ok)
    case False
    then have "a' = a\<lparr>ready_due := False\<rparr>" using assms(4) by (simp add: ready_cb_def)
    then show ?thesis using s assms(2) by (intro inv_opened) simp_all
  next
    case True
    obtain b where b: "get_handle_from_uuid services (a\<lparr>ready_due := False\<rparr>) = Some b"
      and a': "a' = write_ble_sps w (set_step BLE_ALL_SERVICE_DISCOVERY_COMPLETE b)"
      using assms(4) True by (auto simp: ready_cb_def bind_Some_iff)
    have p: "requests b = []" "\<not> ready_due b" "in_mainloop b" "ft_threads (dev b) = 0"
      using get_handle_same [OF b] s assms(2) by (auto simp: same_protocol_def)
    obtain rc where "write_request w Identification (central_identification_char_handle (cli (set_step BLE_ALL_SERVICE_DISCOVERY_COMPLETE b)))
        [0, 0, 0, 0, 0, 0, 0, 6] (set_step BLE_ALL_SERVICE_DISCOVERY_COMPLETE b) = (rc, a')"
      using a' by (metis prod.collapse write_ble_sps_def write_identification_char_def)
    from write_request_effect [OF this] show ?thesis
      using p True confirmed_ready [of evs services] by (intro inv_discovered) auto
  qed
qed

lemma inv_data:
  assumes "protocol_inv evs a" and "in_mainloop a" and "mldp_data_written offset v a = Some a'"
  shows "protocol_inv (evs @ [Data offset v]) a'"
proof -
  note e = data_written_effect [OF assms(3)]
  show ?thesis
  proof (cases "offset = 0 \<and> step a = BLE_WAIT_MLDP_DATA")
    case True
    then have "confirmed [Identification, Authentication, Misc] evs" using assms(1,2) by (auto simp: protocol_inv_def)
    then obtain services where "subseq [Ready True services, Written Identification True, Written Authentication True, Written Misc True]
        (this_connection evs)" by (auto simp: confirmed_def)
    then have "subseq ([Ready True services, Written Identification True, Written Authentication True, Written Misc True] @ [Data 0 v])
        (this_connection evs @ [Data 0 v])"
      by (rule list_emb_append_mono) simp
    then show ?thesis
      using e True assms(1,2) by (auto simp: protocol_inv_def)
  next
    case False
    then show ?thesis
      using e assms(1,2) confirmed_snoc [of _ evs "Data offset v"] by (auto simp: protocol_inv_def; fastforce)
  qed
qed

lemma inv_written:
  assumes "protocol_inv evs a" and "in_mainloop a" and "requests a = c # rs"
    and a': "a' = (case c of Identification \<Rightarrow> client_write_cb_identification_char w ok (a\<lparr>requests := rs\<rparr>)
          | Authentication \<Rightarrow> client_write_cb_authentication_char w ok (a\<lparr>requests := rs\<rparr>)
          | Misc \<Rightarrow> client_write_cb_misc_char ok (a\<lparr>requests := rs\<rparr>))"
  shows "protocol_inv (evs @ [Written c ok]) a'"
proof (cases ok)
  case False
  then show ?thesis
    using a' by (cases c) (auto simp: write_defs retry_scan_def intro!: inv_outside)
next
  case True
  have s: "step a = BLE_ALL_SERVICE_DISCOVERY_COMPLETE" "\<not> ready_due a" "ft_threads (dev a) = 0" "rs = []"
    and h: "confirmed (case c of Identification \<Rightarrow> [] | Authentication \<Rightarrow> [Identification] | Misc \<Rightarrow> [Identification, Authentication]) evs"
    using assms(1-3) by (auto simp: protocol_inv_def split: sps_char.splits)
  note k = confirmed_written [OF h, of c]
  show ?thesis
  proof (cases c)
    case Misc
    then show ?thesis using k a' True s assms(2) by (intro inv_waiting) (simp_all add: write_defs)
  next
    case Identification
    obtain rc where "write_request w Authentication (peripheral_authentication_char_handle (cli (a\<lparr>requests := []\<rparr>))) [0, 0, 0, 0] (a\<lparr>requests := []\<rparr>) = (rc, a')"
      using a' True s(4) Identification by (auto simp: write_defs prod_eq_iff)
    from write_request_effect [OF this] show ?thesis
      using k Identification True s(1-3) assms(2) by (intro inv_discovered) auto
  next
    case Authentication
    obtain rc where "write_request w Misc (misc_char_handle (cli (a\<lparr>requests := []\<rparr>))) [1] (a\<lparr>requests := []\<rparr>) = (rc, a')"
      using a' True s(4) Authentication by (auto simp: write_defs prod_eq_iff)
    from write_request_effect [OF this] show ?thesis
      using k Authentication True s(1-3) assms(2) by (intro inv_discovered) auto
  qed
qed

lemma ble_step_inv:
  assumes "ble_step w addr a e a'" and "protocol_inv evs a"
  shows "protocol_inv (evs @ [e]) a'"
  using assms
proof (cases rule: ble_step.cases)
  case (interrupt p)
  then have "a' = a\<lparr>signal_received := True, end_of_state_machine := True\<rparr>" "step a = BLE_SCANNING"
    by (auto simp: sig_handler_def le_deconnection_def split: if_splits)
  then show ?thesis using assms(2) interrupt by (auto simp: protocol_inv_def)
next
  case (create p q)
  then show ?thesis
    by (auto simp: protocol_inv_def main_socket_open_def gatt_central_create_def mldp_fifos_init_def split: option.splits if_splits prod.splits)
next
  case (ready ok services)
  then show ?thesis using inv_ready [OF assms(2)] by simp
next
  case (written c rs ok)
  then show ?thesis using inv_written [OF assms(2)] by simp
next
  case (data offset v)
  then show ?thesis using inv_data [OF assms(2)] by simp
qed (auto simp: cmd_lescan_def le_connection_def main_connected_def att_disconnect_cb_def Let_def bind_Some_iff split: if_splits
    intro!: inv_outside)

lemma ble_run_inv: "ble_run w addr a evs a' \<Longrightarrow> protocol_inv [] a \<Longrightarrow> protocol_inv evs a'"
proof (induction rule: ble_run.induct)
  case (event a evs a' e a'')
  then show ?case using ble_step_inv by blast
qed

lemma inv_start: "protocol_inv [] (app_start d)"
  by (simp add: protocol_inv_def app_start_def)

text \<open>
  C13. No file transfer without the SLATE protocol. Whenever the connection is in the file-transfer step,
  the events since the connection was set up contain, in this order, a successful discovery, the
  acknowledgements of the identification, the authentication and the miscellaneous write, and a write
  of the device to the data characteristic; and exactly one transfer thread has been started.
\<close>

theorem transfer_needs_protocol:
  assumes "ble_run w addr (app_start d) evs a" and "step a = BLE_FILE_TRANSFER"
  shows "\<exists>services v. subseq [Ready True services, Written Identification True, Written Authentication True, Written Misc True, Data 0 v]
      (this_connection evs) \<and> ft_threads (dev a) = 1"
  using ble_run_inv [OF assms(1) inv_start] assms(2) by (auto simp: protocol_inv_def)

text \<open>
  C14. One thread at a time. In every reachable state, inside the main loop of the GATT client, a transfer thread
  exists exactly in the file-transfer step, there is never a second one, and at most one write
  request is outstanding.
\<close>

theorem one_thread_per_connection:
  assumes "ble_run w addr (app_start d) evs a" and "in_mainloop a"
  shows "ft_threads (dev a) = (if step a = BLE_FILE_TRANSFER then 1 else 0) \<and> length (requests a) \<le> 1"
  using ble_run_inv [OF assms(1) inv_start] assms(2) by (auto simp: protocol_inv_def)

subsection \<open>The handshake\<close>

lemma accepted_write:
  assumes "\<forall>h v g. fst (w h v g) \<noteq> 0"
  shows "write_request w c h v a = (EXIT_FAILURE, a\<lparr>dev := (dev a)\<lparr>gatt := snd (w h v (gatt (dev a)))\<rparr>, requests := requests a @ [c]\<rparr>)"
proof -
  have "fst (w h v (gatt (dev a))) \<noteq> 0" using assms by blast
  then show ?thesis by (simp add: write_request_def split_beta Let_def)
qed

lemma first_data:
  assumes "step a = BLE_WAIT_MLDP_DATA" and "fifo_inv (mldp_fifo_rx (dev a))" and "length v < fifo_capacity (mldp_fifo_rx (dev a))"
  shows "\<exists>a'. mldp_data_written 0 v a = Some a' \<and> step a' = BLE_FILE_TRANSFER \<and> ft_threads (dev a') = ft_threads (dev a) + 1
    \<and> fifo_content (mldp_fifo_rx (dev a')) = v \<and> gatt (dev a') = gatt (dev a) \<and> cli a' = cli a"
proof -
  let ?f = "snd (fifo_flush (mldp_fifo_rx (dev a)))"
  have f: "fifo_inv ?f" "fifo_content ?f = []" "fifo_capacity ?f = fifo_capacity (mldp_fifo_rx (dev a))"
    using assms(2) by (simp_all add: fifo_flush_def fifo_inv_def fifo_content_def)
  have "fifo_capacity (mldp_fifo_rx (dev a)) \<le> 4096" using fifo_invD [OF assms(2)] by simp
  then have n: "unat (word_of_nat (length v) :: u32) = length v" using assms(3) by (simp add: unat_of_nat)
  obtain g where "fifo_write ?f (Some v) (word_of_nat (length v)) = Some (FIFO_SUCCESS, word_of_nat (length v), g)" "fifo_content g = v"
    using fifo_write_fits [OF f(1) _ n] f(2,3) assms(3) by auto
  then show ?thesis
    using assms(1)
    by (simp add: mldp_data_written_def server_mldp_data_char_write_cb_def start_file_transfer_def fifos_flush_def Let_def)
qed

lemma handshake:
  assumes "in_mainloop a" and "ready_due a" and "requests a = []" and "\<forall>h v g. fst (w h v g) \<noteq> 0"
    and "get_handle_from_uuid services (a\<lparr>ready_due := False\<rparr>) = Some b"
    and "fifo_inv (mldp_fifo_rx (dev b))" and "length v < fifo_capacity (mldp_fifo_rx (dev b))"
  shows "\<exists>a'. ble_run w addr a [Ready True services, Written Identification True, Written Authentication True, Written Misc True, Data 0 v] a'
    \<and> step a' = BLE_FILE_TRANSFER \<and> ft_threads (dev a') = ft_threads (dev a) + 1 \<and> fifo_content (mldp_fifo_rx (dev a')) = v
    \<and> gatt (dev a') = snd (w (misc_char_handle (cli b)) [1] (snd (w (peripheral_authentication_char_handle (cli b)) [0, 0, 0, 0]
        (snd (w (central_identification_char_handle (cli b)) [0, 0, 0, 0, 0, 0, 0, 6] (gatt (dev b)))))))"
proof -
  have b: "requests b = []" "in_mainloop b" "ft_threads (dev b) = ft_threads (dev a)"
    using get_handle_same [OF assms(5)] assms(1,3) by (simp_all add: same_protocol_def)
  let ?d = "\<lambda>g. (dev b)\<lparr>ble_con_step := BLE_ALL_SERVICE_DISCOVERY_COMPLETE, gatt := g\<rparr>"
  let ?g1 = "snd (w (central_identification_char_handle (cli b)) [0, 0, 0, 0, 0, 0, 0, 6] (gatt (dev b)))"
  let ?g2 = "snd (w (peripheral_authentication_char_handle (cli b)) [0, 0, 0, 0] ?g1)"
  let ?g3 = "snd (w (misc_char_handle (cli b)) [1] ?g2)"
  let ?a1 = "b\<lparr>dev := ?d ?g1, requests := [Identification]\<rparr>" and ?a2 = "b\<lparr>dev := ?d ?g2, requests := [Authentication]\<rparr>"
    and ?a3 = "b\<lparr>dev := ?d ?g3, requests := [Misc]\<rparr>" and ?a4 = "b\<lparr>dev := (?d ?g3)\<lparr>ble_con_step := BLE_WAIT_MLDP_DATA\<rparr>, requests := []\<rparr>"
  note w = accepted_write [OF assms(4)] write_defs set_step_def
  obtain a5 where a5: "mldp_data_written 0 v ?a4 = Some a5" "step a5 = BLE_FILE_TRANSFER" "ft_threads (dev a5) = ft_threads (dev ?a4) + 1"
      "fifo_content (mldp_fifo_rx (dev a5)) = v" "gatt (dev a5) = gatt (dev ?a4)"
    using first_data [of ?a4 v] assms(6,7) by auto
  have 1: "ble_step w addr a (Ready True services) ?a1"
    using assms(1,2,5) b by (intro ready) (simp_all add: ready_cb_def w)
  have 2: "ble_step w addr ?a1 (Written Identification True) ?a2" using b by (intro written [where rs = "[]"]) (simp_all add: w)
  have 3: "ble_step w addr ?a2 (Written Authentication True) ?a3" using b by (intro written [where rs = "[]"]) (simp_all add: w)
  have 4: "ble_step w addr ?a3 (Written Misc True) ?a4" using b by (intro written [where rs = "[]"]) (simp_all add: w)
  have 5: "ble_step w addr ?a4 (Data 0 v) a5" using b a5(1) by (intro data) simp_all
  have "ble_run w addr a ((((([] @ [Ready True services]) @ [Written Identification True]) @ [Written Authentication True])
      @ [Written Misc True]) @ [Data 0 v]) a5"
    by (rule event [OF event [OF event [OF event [OF event [OF start 1] 2] 3] 4] 5])
  then show ?thesis
    using a5(2-5) b(3) by auto
qed

text \<open>
  C15. The handshake with a cooperating device. When discovery succeeds, the GATT client accepts the requests
  and the device acknowledges them, the server writes the identification, the authentication and the
  miscellaneous value, in this order and to the handles just discovered, and the first data the
  device sends starts one transfer thread and is kept for it in the receive FIFO.
\<close>

theorem handshake_starts_transfer:
  assumes "in_mainloop a" and "ready_due a" and "requests a = []" and "\<forall>h v g. fst (w h v g) \<noteq> 0"
    and "get_handle_from_uuid services (a\<lparr>ready_due := False\<rparr>) = Some b"
    and "fifo_inv (mldp_fifo_rx (dev b))" and "length v < fifo_capacity (mldp_fifo_rx (dev b))"
  shows "\<exists>a'. ble_run w addr a [Ready True services, Written Identification True, Written Authentication True, Written Misc True, Data 0 v] a'
    \<and> step a' = BLE_FILE_TRANSFER \<and> ft_threads (dev a') = ft_threads (dev a) + 1 \<and> fifo_content (mldp_fifo_rx (dev a')) = v
    \<and> gatt (dev a') = snd (w (misc_char_handle (cli b)) [1] (snd (w (peripheral_authentication_char_handle (cli b)) [0, 0, 0, 0]
        (snd (w (central_identification_char_handle (cli b)) [0, 0, 0, 0, 0, 0, 0, 6] (gatt (dev b)))))))"
  using assms by (rule handshake)

text \<open>
  A device that disconnects before the transfer has started leaves the program in undefined behaviour:
  in every reachable state inside the main loop other than the file-transfer step, \<^verbatim>\<open>att_disconnect_cb\<close>
  joins the thread of a structure whose thread was never created.
\<close>

theorem early_disconnect_undefined:
  assumes "ble_run w addr (app_start d) evs a" and "in_mainloop a" and "step a \<noteq> BLE_FILE_TRANSFER"
  shows "att_disconnect_cb a = None"
  using ble_run_inv [OF assms(1) inv_start] assms(2,3) by (auto simp: protocol_inv_def att_disconnect_cb_def)

text \<open>
  A socket that cannot be created, bound or secured is not noticed: \<^verbatim>\<open>l2cap_le_att_connect\<close> returns
  \<^verbatim>\<open>EXIT_FAILURE\<close>, which is 1, \<^verbatim>\<open>main\<close> only tests for negative values, and goes on with the standard output as
  the descriptor of the connection.
\<close>

theorem socket_failure_unnoticed:
  assumes "socket_fd e < 0 \<or> \<not> bind_ok e \<or> \<not> security_ok e" and "fst (str2ba addr) = 0"
  shows "main_connected True e addr a = Goes_on (set_step BLE_SOCKET_OPEN (a\<lparr>sock_fd := 1\<rparr>))"
  using assms by (auto simp: main_connected_def l2cap_le_att_connect_def Let_def)

subsection \<open>An example run\<close>

definition demo_value :: "byte list list write_value" where
  "demo_value h v g = (1, g @ [v])"

definition demo_scan_env :: scan_env where
  "demo_scan_env = \<lparr>hci_open_ok = True, params_ok = True, enable_ok = True, disable_ok = True, getsock_ok = True, setsock_ok = True,
     reads = [Again, Event 2 demo_report]\<rparr>"

definition demo_sock :: sock_env where
  "demo_sock = \<lparr>socket_fd = 5, bind_ok = True, security_ok = True, connect_ok = True\<rparr>"

abbreviation "demo_addr \<equiv> ba2str [1, 2, 3, 4, 5, 6]"

definition demo_connecting :: "byte list list app" where
  "demo_connecting = (app_start quiet_central)\<lparr>sock_fd := 5, ready_due := True, in_mainloop := True,
     dev := (snd (mldp_fifos_init quiet_central))\<lparr>ble_con_step := BLE_SOCKET_OPEN, ft_threads := 0\<rparr>\<rparr>"

lemma demo_connects:
  "ble_run demo_value demo_addr (app_start quiet_central)
     [Scan demo_scan_env, Connect True True, Open_socket True demo_sock, Create True True] demo_connecting"
proof -
  let ?s = "app_start quiet_central"
  let ?a1 = "set_step BLE_SLATE_FOUND ?s" and ?a2 = "set_step BLE_CONNECTED ?s" and ?a3 = "set_step BLE_SOCKET_OPEN (?s\<lparr>sock_fd := 5\<rparr>)"
  have 1: "ble_step demo_value demo_addr ?s (Scan demo_scan_env) ?a1"
    by (intro scan) (simp_all add: app_start_def cmd_lescan_def demo_scan_env_def demo_scan)
  have 2: "ble_step demo_value demo_addr ?a1 (Connect True True) ?a2"
    by (intro connect) (simp_all add: app_start_def le_connection_def set_step_def)
  have s: "fst (str2ba demo_addr) = 0" using str2ba_print [of "[1, 2, 3, 4, 5, 6]" True] by (simp add: ba2str_def)
  have 3: "ble_step demo_value demo_addr ?a2 (Open_socket True demo_sock) ?a3"
    using s by (intro open_socket)
      (simp_all add: app_start_def main_connected_def l2cap_le_att_connect_def demo_sock_def set_step_def)
  have 4: "ble_step demo_value demo_addr ?a3 (Create True True) demo_connecting"
    by (intro create) (simp_all add: app_start_def main_socket_open_def gatt_central_create_def set_step_def demo_connecting_def
        mldp_fifos_init_def split_beta Let_def)
  have "ble_run demo_value demo_addr ?s (((([] @ [Scan demo_scan_env]) @ [Connect True True]) @ [Open_socket True demo_sock]) @ [Create True True])
      demo_connecting"
    by (rule event [OF event [OF event [OF event [OF start 1] 2] 3] 4])
  then show ?thesis by simp
qed

lemma ble_run_append: "ble_run w addr b evs' c \<Longrightarrow> ble_run w addr a evs b \<Longrightarrow> ble_run w addr a (evs @ evs') c"
proof (induction rule: ble_run.induct)
  case (event b evs' c e c')
  then show ?case using ble_run.event [of w addr a "evs @ evs'" c e c'] by simp
qed simp

lemma demo_connecting_facts:
  "in_mainloop demo_connecting" "ready_due demo_connecting" "requests demo_connecting = []" "step demo_connecting = BLE_SOCKET_OPEN"
  "ft_threads (dev demo_connecting) = 0" "fifo_inv (mldp_fifo_rx (dev demo_connecting))"
  "fifo_capacity (mldp_fifo_rx (dev demo_connecting)) = 4096"
  by (simp_all add: demo_connecting_def app_start_def mldp_fifos_init_def fifo_init_def fifo_inv_def MLDP_RX_BUFF_SIZE_def Let_def split_beta)

lemma demo_handshake:
  "\<exists>a. ble_run demo_value demo_addr demo_connecting
      [Ready True [], Written Identification True, Written Authentication True, Written Misc True, Data 0 [0x13]] a
    \<and> step a = BLE_FILE_TRANSFER \<and> ft_threads (dev a) = 1"
  using handshake [of demo_connecting demo_value "[]" "demo_connecting\<lparr>ready_due := False\<rparr>" "[0x13]" demo_addr] demo_connecting_facts
  by (auto simp: demo_value_def get_handle_from_uuid_def)

theorem transfer_needs_protocol_witness:
  "\<exists>evs a services v. ble_run demo_value demo_addr (app_start quiet_central) evs a \<and> step a = BLE_FILE_TRANSFER
    \<and> subseq [Ready True services, Written Identification True, Written Authentication True, Written Misc True, Data 0 v] (this_connection evs)
    \<and> ft_threads (dev a) = 1"
proof -
  obtain a where a: "ble_run demo_value demo_addr demo_connecting
      [Ready True [], Written Identification True, Written Authentication True, Written Misc True, Data 0 [0x13]] a" "step a = BLE_FILE_TRANSFER"
    using demo_handshake by blast
  note r = ble_run_append [OF a(1) demo_connects]
  show ?thesis using transfer_needs_protocol [OF r a(2)] r a(2) by blast
qed

theorem one_thread_per_connection_witness:
  "ft_threads (dev demo_connecting) = (if step demo_connecting = BLE_FILE_TRANSFER then 1 else 0) \<and> length (requests demo_connecting) \<le> 1"
  by (rule one_thread_per_connection [OF demo_connects demo_connecting_facts(1)])

theorem handshake_starts_transfer_witness:
  "\<exists>a'. ble_run demo_value demo_addr demo_connecting
      [Ready True [], Written Identification True, Written Authentication True, Written Misc True, Data 0 [0x13]] a'
    \<and> step a' = BLE_FILE_TRANSFER \<and> fifo_content (mldp_fifo_rx (dev a')) = [0x13]"
  using handshake_starts_transfer [of demo_connecting demo_value "[]" "demo_connecting\<lparr>ready_due := False\<rparr>" "[0x13]" demo_addr]
    demo_connecting_facts
  by (auto simp: demo_value_def get_handle_from_uuid_def)

theorem early_disconnect_undefined_witness: "att_disconnect_cb demo_connecting = None"
  by (rule early_disconnect_undefined [OF demo_connects]) (simp_all add: demo_connecting_facts)

theorem socket_failure_unnoticed_witness:
  "main_connected True (demo_sock\<lparr>bind_ok := False\<rparr>) demo_addr (app_start quiet_central)
    = Goes_on (set_step BLE_SOCKET_OPEN ((app_start quiet_central)\<lparr>sock_fd := 1\<rparr>))"
  by (rule socket_failure_unnoticed)
    (use str2ba_print [of "[1, 2, 3, 4, 5, 6]" True] in \<open>simp_all add: demo_sock_def ba2str_def\<close>)

end
