(* ===== verification/Simulation.thy ===== *)
theory Simulation
  imports Prelude
begin

text \<open>
  Functional refinement, once for all components: calls on a concrete state that may be undefined,
  calls on an abstract state that are total, and sequences of calls on both. An interpretation of
  \<^verbatim>\<open>simulation\<close> discharges one call; the locale carries it to every sequence.
\<close>

fun run_calls :: "('c \<Rightarrow> 's \<Rightarrow> ('o \<times> 's) option) \<Rightarrow> 'c list \<Rightarrow> 's \<Rightarrow> ('o list \<times> 's) option" where
  "run_calls f [] s = Some ([], s)"
| "run_calls f (c # cs) s = do {
     (r, s) \<leftarrow> f c s;
     (rs, s) \<leftarrow> run_calls f cs s;
     Some (r # rs, s)
   }"

fun run_spec :: "('c \<Rightarrow> 'a \<Rightarrow> 'o \<times> 'a) \<Rightarrow> 'c list \<Rightarrow> 'a \<Rightarrow> 'o list \<times> 'a" where
  "run_spec g [] a = ([], a)"
| "run_spec g (c # cs) a = (let (r, b) = g c a; (rs, d) = run_spec g cs b in (r # rs, d))"

text \<open>
  \<^term>\<open>rep\<close> relates the two states; \<^term>\<open>keeps\<close> is what a call leaves alone in the concrete one.
\<close>

locale simulation =
  fixes call :: "'c \<Rightarrow> 's \<Rightarrow> ('o \<times> 's) option"
    and spec :: "'c \<Rightarrow> 'a \<Rightarrow> 'o \<times> 'a"
    and rep :: "'s \<Rightarrow> 'a \<Rightarrow> bool"
    and keeps :: "'s \<Rightarrow> 's \<Rightarrow> bool"
  assumes step: "rep s a \<Longrightarrow> \<exists>s'. call c s = Some (fst (spec c a), s') \<and> rep s' (snd (spec c a)) \<and> keeps s s'"
    and keeps_refl: "rep s a \<Longrightarrow> keeps s s"
    and keeps_trans: "rep s a \<Longrightarrow> keeps s s' \<Longrightarrow> keeps s' s'' \<Longrightarrow> keeps s s''"
begin

lemma runs:
  "rep s a \<Longrightarrow> \<exists>s'. run_calls call cs s = Some (fst (run_spec spec cs a), s') \<and> rep s' (snd (run_spec spec cs a)) \<and> keeps s s'"
proof (induction cs arbitrary: s a)
  case Nil
  then show ?case using keeps_refl by auto
next
  case (Cons c cs)
  obtain s1 where 1: "call c s = Some (fst (spec c a), s1)" "rep s1 (snd (spec c a))" "keeps s s1"
    using step [OF Cons.prems] by blast
  obtain s2 where "run_calls call cs s1 = Some (fst (run_spec spec cs (snd (spec c a))), s2)"
    "rep s2 (snd (run_spec spec cs (snd (spec c a))))" "keeps s1 s2"
    using Cons.IH [OF 1(2)] by blast
  then show ?case using 1 keeps_trans [OF Cons.prems 1(3)] by (auto simp: split_beta)
qed

text \<open>What the calls answer depends on the abstract state only.\<close>

lemma answers_determined:
  assumes "rep s a" and "rep t a" and "run_calls call cs s = Some (rs, s')" and "run_calls call cs t = Some (rs', t')"
  shows "rs = rs'"
  using runs [OF assms(1), of cs] runs [OF assms(2), of cs] assms(3,4) by auto

end

end
