(* ===== verification/Bt_Queue.thy ===== *)
theory Bt_Queue
  imports Simulation
begin

text \<open>
  The queues of BlueZ, \<^verbatim>\<open>bluez_deps/src/shared/queue.c\<close>: singly linked lists with a head, a tail and
  a length counter, on an explicit store of list cells. The store maps the addresses of live cells to
  their contents; \<^verbatim>\<open>brk\<close> is an address above every cell ever allocated, so an allocation never
  returns a live cell. (\<^verbatim>\<open>new0\<close> aborts the program when memory is exhausted.) An access to a
  cell that is not live is undefined and gives \<^term>\<open>None\<close>. A \<^verbatim>\<open>void *\<close> is an
  \<^typ>\<open>'d option\<close>, with \<^term>\<open>None\<close> for the null pointer, and so is a \<^verbatim>\<open>struct queue *\<close>.

  The operations are shown to implement lists: every sequence of operations on a
  queue returns, touches no cell outside the queue, and answers what the same operations on a list
  answer.
\<close>

subsection \<open>Data\<close>

type_synonym 'd vptr = "'d option"

record 'd qentry =
  q_data :: "'d vptr"
  q_next :: "nat option"

record queue =
  q_ref_count :: int
  q_head :: "nat option"
  q_tail :: "nat option"
  q_entries :: u32

record 'd qmem =
  cells :: "nat \<rightharpoonup> 'd qentry"
  brk :: nat

subsection \<open>Operations\<close>

text \<open>Writing the \<^verbatim>\<open>next\<close> field of a cell, and \<^verbatim>\<open>free\<close>.\<close>

definition set_next :: "nat \<Rightarrow> nat option \<Rightarrow> 'd qmem \<Rightarrow> 'd qmem option" where
  "set_next a n m = do {
     e \<leftarrow> cells m a;
     Some (m\<lparr>cells := (cells m)(a \<mapsto> e\<lparr>q_next := n\<rparr>)\<rparr>)
   }"

definition free_entry :: "nat \<Rightarrow> 'd qmem \<Rightarrow> 'd qmem" where
  "free_entry a m = m\<lparr>cells := (cells m)(a := None)\<rparr>"

definition queue_ref :: "queue \<Rightarrow> queue" where
  "queue_ref q = q\<lparr>q_ref_count := q_ref_count q + 1\<rparr>"

text \<open>The result of \<^verbatim>\<open>queue_unref\<close> is \<^term>\<open>None\<close> when the structure is freed.\<close>

definition queue_unref :: "queue \<Rightarrow> queue option" where
  "queue_unref q = (if q_ref_count q - 1 \<noteq> 0 then Some (q\<lparr>q_ref_count := q_ref_count q - 1\<rparr>) else None)"

definition queue_new :: queue where
  "queue_new = queue_ref \<lparr>q_ref_count = 0, q_head = None, q_tail = None, q_entries = 0\<rparr>"

definition queue_entry_new :: "'d vptr \<Rightarrow> 'd qmem \<Rightarrow> nat \<times> 'd qmem" where
  "queue_entry_new d m =
     (brk m, m\<lparr>cells := (cells m)(brk m \<mapsto> \<lparr>q_data = d, q_next = None\<rparr>), brk := brk m + 1\<rparr>)"

definition queue_push_tail :: "'d vptr \<Rightarrow> queue option \<Rightarrow> 'd qmem \<Rightarrow> (bool \<times> queue option \<times> 'd qmem) option" where
  "queue_push_tail d qp m =
     (case qp of None \<Rightarrow> Some (False, None, m)
      | Some q \<Rightarrow> do {
          let (entry, m) = queue_entry_new d m;
          m \<leftarrow> (case q_tail q of Some t \<Rightarrow> set_next t (Some entry) m | None \<Rightarrow> Some m);
          let q = q\<lparr>q_tail := Some entry\<rparr>;
          let q = (if q_head q = None then q\<lparr>q_head := Some entry\<rparr> else q);
          Some (True, Some (q\<lparr>q_entries := q_entries q + 1\<rparr>), m)
        })"

definition queue_push_head :: "'d vptr \<Rightarrow> queue option \<Rightarrow> 'd qmem \<Rightarrow> (bool \<times> queue option \<times> 'd qmem) option" where
  "queue_push_head d qp m =
     (case qp of None \<Rightarrow> Some (False, None, m)
      | Some q \<Rightarrow> do {
          let (entry, m) = queue_entry_new d m;
          m \<leftarrow> set_next entry (q_head q) m;
          let q = q\<lparr>q_head := Some entry\<rparr>;
          let q = (if q_tail q = None then q\<lparr>q_tail := Some entry\<rparr> else q);
          Some (True, Some (q\<lparr>q_entries := q_entries q + 1\<rparr>), m)
        })"

text \<open>The loops over the cells: the first cell whose data satisfies \<^term>\<open>P\<close>, with the cell before it.\<close>

partial_function (option) find_entry :: "('d vptr \<Rightarrow> bool) \<Rightarrow> 'd qmem \<Rightarrow> nat option \<Rightarrow> nat option \<Rightarrow> (nat option \<times> nat option) option" where
  "find_entry P m prev p =
     (case p of None \<Rightarrow> Some (prev, None)
      | Some a \<Rightarrow> do {
          e \<leftarrow> cells m a;
          if P (q_data e) then Some (prev, Some a) else find_entry P m (Some a) (q_next e)
        })"

definition queue_push_after :: "'d vptr \<Rightarrow> 'd vptr \<Rightarrow> queue option \<Rightarrow> 'd qmem \<Rightarrow> (bool \<times> queue option \<times> 'd qmem) option" where
  "queue_push_after entry d qp m =
     (case qp of None \<Rightarrow> Some (False, None, m)
      | Some q \<Rightarrow> do {
          (_, qentry) \<leftarrow> find_entry (\<lambda>x. x = entry) m None (q_head q);
          case qentry of None \<Rightarrow> Some (False, Some q, m)
          | Some a \<Rightarrow> do {
              let (new_entry, m) = queue_entry_new d m;
              e \<leftarrow> cells m a;
              m \<leftarrow> set_next new_entry (q_next e) m;
              let q = (if q_next e = None then q\<lparr>q_tail := Some new_entry\<rparr> else q);
              m \<leftarrow> set_next a (Some new_entry) m;
              Some (True, Some (q\<lparr>q_entries := q_entries q + 1\<rparr>), m)
            }
        })"

definition queue_pop_head :: "queue option \<Rightarrow> 'd qmem \<Rightarrow> ('d vptr \<times> queue option \<times> 'd qmem) option" where
  "queue_pop_head qp m =
     (case qp of None \<Rightarrow> Some (None, None, m)
      | Some q \<Rightarrow> (case q_head q of None \<Rightarrow> Some (None, Some q, m)
          | Some entry \<Rightarrow> do {
              e \<leftarrow> cells m entry;
              let q = (if q_next e = None then q\<lparr>q_head := None, q_tail := None\<rparr> else q\<lparr>q_head := q_next e\<rparr>);
              Some (q_data e, Some (q\<lparr>q_entries := q_entries q - 1\<rparr>), free_entry entry m)
            }))"

definition queue_peek_head :: "queue option \<Rightarrow> 'd qmem \<Rightarrow> 'd vptr option" where
  "queue_peek_head qp m =
     (case qp of None \<Rightarrow> Some None
      | Some q \<Rightarrow> (case q_head q of None \<Rightarrow> Some None | Some a \<Rightarrow> do { e \<leftarrow> cells m a; Some (q_data e) }))"

definition queue_peek_tail :: "queue option \<Rightarrow> 'd qmem \<Rightarrow> 'd vptr option" where
  "queue_peek_tail qp m =
     (case qp of None \<Rightarrow> Some None
      | Some q \<Rightarrow> (case q_tail q of None \<Rightarrow> Some None | Some a \<Rightarrow> do { e \<leftarrow> cells m a; Some (q_data e) }))"

text \<open>
  \<^verbatim>\<open>queue_foreach\<close>. The callback gets the data, the queue and the store, which it may change, and a state
  of its own. The structure itself is alive during the loop because of the reference taken before it.
\<close>

type_synonym ('d, 's) q_callback = "'d vptr \<Rightarrow> queue \<Rightarrow> 'd qmem \<Rightarrow> 's \<Rightarrow> (queue \<times> 'd qmem \<times> 's) option"

partial_function (option) foreach_loop ::
    "('d, 's) q_callback \<Rightarrow> nat option \<Rightarrow> queue \<Rightarrow> 'd qmem \<Rightarrow> 's \<Rightarrow> (queue \<times> 'd qmem \<times> 's) option" where
  "foreach_loop f p q m s =
     (case p of None \<Rightarrow> Some (q, m, s)
      | Some a \<Rightarrow>
          if q_head q = None \<or> q_ref_count q \<le> 1 then Some (q, m, s)
          else do {
            e \<leftarrow> cells m a;
            (q', m', s') \<leftarrow> f (q_data e) q m s;
            foreach_loop f (q_next e) q' m' s'
          })"

definition queue_foreach :: "('d, 's) q_callback option \<Rightarrow> queue option \<Rightarrow> 'd qmem \<Rightarrow> 's
    \<Rightarrow> (queue option \<times> 'd qmem \<times> 's) option" where
  "queue_foreach fn qp m s =
     (case (qp, fn) of (Some q, Some f) \<Rightarrow>
        if q_head q = None then Some (Some q, m, s)
        else do {
          (q, m, s) \<leftarrow> foreach_loop f (q_head q) (queue_ref q) m s;
          Some (queue_unref q, m, s)
        }
      | _ \<Rightarrow> Some (qp, m, s))"

text \<open>A match function with its argument; without one the data is compared with the argument.\<close>

definition matcher :: "('d vptr \<Rightarrow> 'd vptr \<Rightarrow> bool) option \<Rightarrow> 'd vptr \<Rightarrow> 'd vptr \<Rightarrow> bool" where
  "matcher fn b = (\<lambda>a. case fn of Some f \<Rightarrow> f a b | None \<Rightarrow> a = b)"

definition queue_find :: "('d vptr \<Rightarrow> 'd vptr \<Rightarrow> bool) option \<Rightarrow> 'd vptr \<Rightarrow> queue option \<Rightarrow> 'd qmem \<Rightarrow> 'd vptr option" where
  "queue_find fn b qp m =
     (case qp of None \<Rightarrow> Some None
      | Some q \<Rightarrow> do {
          (_, p) \<leftarrow> find_entry (matcher fn b) m None (q_head q);
          case p of None \<Rightarrow> Some None | Some a \<Rightarrow> do { e \<leftarrow> cells m a; Some (q_data e) }
        })"

text \<open>Unlinking the cell \<^term>\<open>a\<close> behind \<^term>\<open>prev\<close>, as both removals do it.\<close>

definition unlink :: "nat option \<Rightarrow> nat \<Rightarrow> queue \<Rightarrow> 'd qmem \<Rightarrow> ('d vptr \<times> queue \<times> 'd qmem) option" where
  "unlink prev a q m = do {
     e \<leftarrow> cells m a;
     m \<leftarrow> (case prev of Some p \<Rightarrow> set_next p (q_next e) m | None \<Rightarrow> Some m);
     let q = (if prev = None then q\<lparr>q_head := q_next e\<rparr> else q);
     let q = (if q_next e = None then q\<lparr>q_tail := prev\<rparr> else q);
     Some (q_data e, q\<lparr>q_entries := q_entries q - 1\<rparr>, free_entry a m)
   }"

definition queue_remove :: "'d vptr \<Rightarrow> queue option \<Rightarrow> 'd qmem \<Rightarrow> (bool \<times> queue option \<times> 'd qmem) option" where
  "queue_remove d qp m =
     (case qp of None \<Rightarrow> Some (False, None, m)
      | Some q \<Rightarrow> do {
          (prev, p) \<leftarrow> find_entry (\<lambda>x. x = d) m None (q_head q);
          case p of None \<Rightarrow> Some (False, Some q, m)
          | Some a \<Rightarrow> do { (_, q, m) \<leftarrow> unlink prev a q m; Some (True, Some q, m) }
        })"

definition queue_remove_if :: "('d vptr \<Rightarrow> 'd vptr \<Rightarrow> bool) option \<Rightarrow> 'd vptr \<Rightarrow> queue option \<Rightarrow> 'd qmem
    \<Rightarrow> ('d vptr \<times> queue option \<times> 'd qmem) option" where
  "queue_remove_if fn b qp m =
     (case qp of None \<Rightarrow> Some (None, None, m)
      | Some q \<Rightarrow> do {
          (prev, p) \<leftarrow> find_entry (matcher fn b) m None (q_head q);
          case p of None \<Rightarrow> Some (None, Some q, m)
          | Some a \<Rightarrow> do { (d, q, m) \<leftarrow> unlink prev a q m; Some (d, Some q, m) }
        })"

text \<open>
  The two loops of \<^verbatim>\<open>queue_remove_all\<close>. The list is the data handed to \<^verbatim>\<open>destroy\<close>, in this order; the
  destroy functions of the callers do not touch the queue.
\<close>

partial_function (option) remove_matching :: "('d vptr \<Rightarrow> 'd vptr \<Rightarrow> bool) \<Rightarrow> 'd vptr \<Rightarrow> u32 \<Rightarrow> 'd vptr list
    \<Rightarrow> queue \<Rightarrow> 'd qmem \<Rightarrow> (u32 \<times> 'd vptr list \<times> queue \<times> 'd qmem) option" where
  "remove_matching f b count destroyed q m = do {
     (d, qp, m') \<leftarrow> queue_remove_if (Some f) b (Some q) m;
     case qp of None \<Rightarrow> None
     | Some q' \<Rightarrow>
         if q_entries q' = q_entries q then Some (count, destroyed, q', m')
         else remove_matching f b (count + 1) (destroyed @ [d]) q' m'
   }"

partial_function (option) free_all :: "u32 \<Rightarrow> 'd vptr list \<Rightarrow> nat option \<Rightarrow> 'd qmem \<Rightarrow> (u32 \<times> 'd vptr list \<times> 'd qmem) option" where
  "free_all count destroyed p m =
     (case p of None \<Rightarrow> Some (count, destroyed, m)
      | Some a \<Rightarrow> do {
          e \<leftarrow> cells m a;
          free_all (count + 1) (destroyed @ [q_data e]) (q_next e) (free_entry a m)
        })"

definition queue_remove_all :: "('d vptr \<Rightarrow> 'd vptr \<Rightarrow> bool) option \<Rightarrow> 'd vptr \<Rightarrow> queue option \<Rightarrow> 'd qmem
    \<Rightarrow> (u32 \<times> 'd vptr list \<times> queue option \<times> 'd qmem) option" where
  "queue_remove_all fn b qp m =
     (case qp of None \<Rightarrow> Some (0, [], None, m)
      | Some q \<Rightarrow> (case fn of
            Some f \<Rightarrow>
              if q_head q = None then Some (0, [], Some q, m)
              else do {
                (count, destroyed, q, m) \<leftarrow> remove_matching f b 0 [] q m;
                Some (count, destroyed, Some q, m)
              }
          | None \<Rightarrow> do {
              (count, destroyed, m) \<leftarrow> free_all 0 [] (q_head q) m;
              Some (count, destroyed, Some (q\<lparr>q_head := None, q_tail := None, q_entries := 0\<rparr>), m)
            }))"

definition queue_destroy :: "queue option \<Rightarrow> 'd qmem \<Rightarrow> ('d vptr list \<times> queue option \<times> 'd qmem) option" where
  "queue_destroy qp m =
     (case qp of None \<Rightarrow> Some ([], None, m)
      | Some q \<Rightarrow> do {
          (_, destroyed, qp', m) \<leftarrow> queue_remove_all None None (Some q) m;
          case qp' of None \<Rightarrow> None | Some q' \<Rightarrow> Some (destroyed, queue_unref q', m)
        })"

definition queue_get_entries :: "queue option \<Rightarrow> nat option" where
  "queue_get_entries qp = (case qp of None \<Rightarrow> None | Some q \<Rightarrow> q_head q)"

definition queue_length :: "queue option \<Rightarrow> u32" where
  "queue_length qp = (case qp of None \<Rightarrow> 0 | Some q \<Rightarrow> q_entries q)"

definition queue_isempty :: "queue option \<Rightarrow> bool" where
  "queue_isempty qp = (case qp of None \<Rightarrow> True | Some q \<Rightarrow> q_entries q = 0)"

subsection \<open>Lists in the store\<close>

text \<open>The cells from \<^term>\<open>p\<close> up to \<^term>\<open>z\<close>, with their addresses and data.\<close>

fun lseg :: "(nat \<rightharpoonup> 'd qentry) \<Rightarrow> nat option \<Rightarrow> (nat \<times> 'd vptr) list \<Rightarrow> nat option \<Rightarrow> bool" where
  "lseg h p [] z \<longleftrightarrow> p = z"
| "lseg h p ((a, d) # xs) z \<longleftrightarrow> p = Some a \<and> (\<exists>n. h a = Some \<lparr>q_data = d, q_next = n\<rparr> \<and> lseg h n xs z)"

definition queue_rep :: "queue \<Rightarrow> 'd qmem \<Rightarrow> (nat \<times> 'd vptr) list \<Rightarrow> bool" where
  "queue_rep q m xs \<longleftrightarrow> lseg (cells m) (q_head q) xs None \<and> distinct (map fst xs)
     \<and> q_tail q = (if xs = [] then None else Some (fst (last xs))) \<and> q_entries q = of_nat (length xs)"

definition mem_ok :: "'d qmem \<Rightarrow> bool" where
  "mem_ok m \<longleftrightarrow> (\<forall>a \<in> dom (cells m). a < brk m)"

text \<open>
  What an operation that turns the cells \<^term>\<open>xs\<close> of a queue into \<^term>\<open>ys\<close> does to the store: new cells
  are fresh, cells that left the queue are free, and no other cell is touched.
\<close>

definition owns :: "(nat \<times> 'd vptr) list \<Rightarrow> nat set" where
  "owns xs = fst ` set xs"

definition effect :: "'d qmem \<Rightarrow> (nat \<times> 'd vptr) list \<Rightarrow> 'd qmem \<Rightarrow> (nat \<times> 'd vptr) list \<Rightarrow> bool" where
  "effect m xs m' ys \<longleftrightarrow> mem_ok m' \<and> brk m \<le> brk m' \<and> (\<forall>a \<in> owns ys - owns xs. brk m \<le> a)
     \<and> (\<forall>a \<in> owns xs - owns ys. cells m' a = None) \<and> (\<forall>a. a \<notin> owns xs \<union> owns ys \<longrightarrow> cells m' a = cells m a)"

lemma owns_simps [simp]:
  "owns [] = {}" "owns ((a, d) # xs) = insert a (owns xs)" "owns (xs @ ys) = owns xs \<union> owns ys"
  by (auto simp: owns_def)

lemma distinct_owns: "distinct (map fst ((a, d) # xs)) \<longleftrightarrow> a \<notin> owns xs \<and> distinct (map fst xs)"
  by (simp add: owns_def)

lemma lseg_append [simp]: "lseg h p (xs @ ys) z \<longleftrightarrow> (\<exists>r. lseg h p xs r \<and> lseg h r ys z)"
  by (induction xs arbitrary: p) (fastforce+)

lemma lseg_upd [simp]: "a \<notin> owns xs \<Longrightarrow> lseg (h(a := c)) p xs z \<longleftrightarrow> lseg h p xs z"
  by (induction xs arbitrary: p) auto

lemma lseg_live: "lseg h p xs z \<Longrightarrow> a \<in> owns xs \<Longrightarrow> a \<in> dom h"
  by (induction xs arbitrary: p) fastforce+

lemma lseg_head: "lseg h p xs None \<Longrightarrow> p = None \<longleftrightarrow> xs = []"
  by (cases xs) auto

lemma qmem_order [simp]: "m\<lparr>brk := b, cells := h\<rparr> = m\<lparr>cells := h, brk := b\<rparr>"
  by simp

lemma mem_ok_grow: "mem_ok m \<Longrightarrow> dom h \<subseteq> insert (brk m) (dom (cells m)) \<Longrightarrow> mem_ok (m\<lparr>cells := h, brk := brk m + 1\<rparr>)"
  by (simp add: mem_ok_def subset_iff Ball_def less_Suc_eq) blast

lemma mem_ok_shrink: "mem_ok m \<Longrightarrow> dom h \<subseteq> dom (cells m) \<Longrightarrow> mem_ok (m\<lparr>cells := h\<rparr>)"
  by (simp add: mem_ok_def subset_iff Ball_def)

lemma rep_fresh: "queue_rep q m xs \<Longrightarrow> mem_ok m \<Longrightarrow> brk m \<notin> owns xs"
  using lseg_live [of "cells m" "q_head q" xs None "brk m"] by (auto simp: queue_rep_def mem_ok_def)

lemma effect_trans:
  assumes "effect m xs m' ys" and "effect m' ys m'' zs" and "mem_ok m"
  shows "effect m xs m'' zs"
proof -
  have fresh: "cells m a = None" if "brk m \<le> a" for a
    using assms(3) that by (metis domIff leD mem_ok_def)
  have "cells m'' a = cells m a" if "a \<notin> owns xs" "a \<notin> owns zs" for a
    using assms(1,2) that fresh by (cases "a \<in> owns ys") (auto simp: effect_def)
  moreover have "cells m'' a = None" if "a \<in> owns xs" "a \<notin> owns zs" for a
    using assms(1,2) that by (cases "a \<in> owns ys") (auto simp: effect_def)
  moreover have "brk m \<le> a" if "a \<in> owns zs" "a \<notin> owns xs" for a
    using assms(1,2) that by (cases "a \<in> owns ys") (auto simp: effect_def intro: le_trans)
  ultimately show ?thesis using assms(1,2) by (auto simp: effect_def)
qed

lemma effect_refl: "mem_ok m \<Longrightarrow> effect m xs m xs"
  by (simp add: effect_def)

lemma find_entry_none:
  assumes "lseg (cells m) p xs None" and "\<forall>x \<in> set xs. \<not> P (snd x)"
  shows "\<exists>pr. find_entry P m prev p = Some (pr, None)"
  using assms
proof (induction xs arbitrary: p prev)
  case Nil
  then show ?case by (simp add: find_entry.simps)
next
  case (Cons x xs)
  obtain a d n where x: "x = (a, d)" "p = Some a" "cells m a = Some \<lparr>q_data = d, q_next = n\<rparr>" "lseg (cells m) n xs None"
    using Cons.prems(1) by (cases x) auto
  then show ?case using Cons.IH [of n "Some a"] Cons.prems(2) by (subst find_entry.simps) simp
qed

lemma find_entry_some:
  assumes "lseg (cells m) p (ys @ (a, d) # zs) None" and "\<forall>y \<in> set ys. \<not> P (snd y)" and "P d"
  shows "find_entry P m prev p = Some (if ys = [] then prev else Some (fst (last ys)), Some a)"
  using assms
proof (induction ys arbitrary: p prev)
  case Nil
  then show ?case by (auto simp: find_entry.simps)
next
  case (Cons y ys)
  obtain b e n where y: "y = (b, e)" "p = Some b" "cells m b = Some \<lparr>q_data = e, q_next = n\<rparr>"
    "lseg (cells m) n (ys @ (a, d) # zs) None"
    using Cons.prems(1) by (cases y) auto
  then show ?case using Cons.IH [of n "Some b"] Cons.prems(2,3) by (subst find_entry.simps) simp
qed

subsection \<open>Each operation on a list in the store\<close>

text \<open>The state after an operation: the same structure with the cells \<^term>\<open>ys\<close>.\<close>

definition becomes :: "queue \<Rightarrow> 'd qmem \<Rightarrow> (nat \<times> 'd vptr) list \<Rightarrow> queue \<Rightarrow> 'd qmem \<Rightarrow> (nat \<times> 'd vptr) list \<Rightarrow> bool" where
  "becomes q m xs q' m' ys \<longleftrightarrow> queue_rep q' m' ys \<and> effect m xs m' ys \<and> q_ref_count q' = q_ref_count q"

lemma becomes_refl: "queue_rep q m xs \<Longrightarrow> mem_ok m \<Longrightarrow> becomes q m xs q m xs"
  by (simp add: becomes_def effect_refl)

lemma push_head_becomes:
  assumes "queue_rep q m xs" and "mem_ok m"
  shows "\<exists>q' m'. queue_push_head d (Some q) m = Some (True, Some q', m') \<and> becomes q m xs q' m' ((brk m, d) # xs)"
proof -
  note fresh = rep_fresh [OF assms]
  let ?m = "m\<lparr>cells := (cells m)(brk m \<mapsto> \<lparr>q_data = d, q_next = q_head q\<rparr>), brk := brk m + 1\<rparr>"
  have "lseg (cells ?m) (q_head q) xs None"
    using assms(1) fresh by (simp add: queue_rep_def)
  moreover have "effect m xs ?m ((brk m, d) # xs)"
    using mem_ok_grow [OF assms(2), of "cells ?m"] by (auto simp: effect_def)
  ultimately show ?thesis
    using assms(1) fresh lseg_head [of "cells m" "q_head q" xs]
    by (auto simp: queue_push_head_def queue_entry_new_def set_next_def becomes_def queue_rep_def owns_def)
qed

lemma push_tail_becomes:
  assumes "queue_rep q m xs" and "mem_ok m"
  shows "\<exists>q' m'. queue_push_tail d (Some q) m = Some (True, Some q', m') \<and> becomes q m xs q' m' (xs @ [(brk m, d)])"
proof (cases xs rule: rev_cases)
  case Nil
  then show ?thesis using assms mem_ok_grow [OF assms(2), of "(cells m)(brk m \<mapsto> \<lparr>q_data = d, q_next = None\<rparr>)"]
    by (auto simp: queue_push_tail_def queue_entry_new_def becomes_def queue_rep_def effect_def)
next
  case (snoc ys x)
  obtain t e where x: "x = (t, e)" by (cases x)
  note fresh = rep_fresh [OF assms]
  let ?m = "m\<lparr>cells := (cells m)(brk m \<mapsto> \<lparr>q_data = d, q_next = None\<rparr>, t \<mapsto> \<lparr>q_data = e, q_next = Some (brk m)\<rparr>), brk := brk m + 1\<rparr>"
  have at: "cells m t = Some \<lparr>q_data = e, q_next = None\<rparr>" "q_tail q = Some t" "q_head q \<noteq> None" "t \<noteq> brk m" "t \<notin> owns ys"
    using assms(1) fresh lseg_head [of "cells m" "q_head q" xs] by (auto simp: queue_rep_def snoc x owns_def)
  have "lseg (cells ?m) (q_head q) ys (Some t)"
    using assms(1) fresh at(5) by (auto simp: queue_rep_def snoc x)
  then have "lseg (cells ?m) (q_head q) (xs @ [(brk m, d)]) None"
    using at(4) by (auto simp: snoc x)
  moreover have "effect m xs ?m (xs @ [(brk m, d)])"
    using mem_ok_grow [OF assms(2), of "cells ?m"] at(1) by (auto simp: effect_def snoc x)
  ultimately show ?thesis
    using assms(1) at fresh by (auto simp: queue_push_tail_def queue_entry_new_def set_next_def becomes_def queue_rep_def owns_def)
qed

lemma push_after_becomes:
  assumes "queue_rep q m (ys @ (a, e) # zs)" and "mem_ok m" and "\<forall>y \<in> set ys. snd y \<noteq> e"
  shows "\<exists>q' m'. queue_push_after e d (Some q) m = Some (True, Some q', m')
    \<and> becomes q m (ys @ (a, e) # zs) q' m' (ys @ (a, e) # (brk m, d) # zs)"
proof -
  let ?xs = "ys @ (a, e) # zs"
  note fresh = rep_fresh [OF assms(1,2)]
  obtain n where n: "lseg (cells m) (q_head q) ys (Some a)" "cells m a = Some \<lparr>q_data = e, q_next = n\<rparr>" "lseg (cells m) n zs None"
    using assms(1) by (auto simp: queue_rep_def)
  let ?m = "m\<lparr>cells := (cells m)(brk m \<mapsto> \<lparr>q_data = d, q_next = n\<rparr>, a \<mapsto> \<lparr>q_data = e, q_next = Some (brk m)\<rparr>), brk := brk m + 1\<rparr>"
  have neq: "a \<noteq> brk m" "a \<notin> owns ys" "a \<notin> owns zs"
    using assms(1) fresh by (auto simp: queue_rep_def owns_def)
  have "lseg (cells ?m) (q_head q) ys (Some a)" "lseg (cells ?m) n zs None"
    using n fresh neq by simp_all
  then have seg: "lseg (cells ?m) (q_head q) (ys @ (a, e) # (brk m, d) # zs) None" using neq by auto
  have eff: "effect m ?xs ?m (ys @ (a, e) # (brk m, d) # zs)"
    using mem_ok_grow [OF assms(2), of "cells ?m"] n(2) by (auto simp: effect_def)
  have f: "find_entry (\<lambda>x. x = e) m None (q_head q) = Some (if ys = [] then None else Some (fst (last ys)), Some a)"
    using assms(1,3) by (intro find_entry_some) (auto simp: queue_rep_def)
  have op: "queue_push_after e d (Some q) m =
    Some (True, Some (if n = None then q\<lparr>q_tail := Some (brk m), q_entries := q_entries q + 1\<rparr> else q\<lparr>q_entries := q_entries q + 1\<rparr>), ?m)"
    using n(2) neq(1) by (simp add: queue_push_after_def f queue_entry_new_def set_next_def Let_def)
  show ?thesis
    using assms(1) fresh seg eff n(3) lseg_head [of "cells m" n zs]
    by (auto simp: op becomes_def queue_rep_def owns_def)
qed

lemma unlink_becomes:
  assumes "queue_rep q m (ys @ (a, d) # zs)" and "mem_ok m"
  shows "\<exists>q' m'. unlink (if ys = [] then None else Some (fst (last ys))) a q m = Some (d, q', m')
    \<and> becomes q m (ys @ (a, d) # zs) q' m' (ys @ zs)"
proof -
  obtain n where n: "lseg (cells m) (q_head q) ys (Some a)" "cells m a = Some \<lparr>q_data = d, q_next = n\<rparr>" "lseg (cells m) n zs None"
    using assms(1) by (auto simp: queue_rep_def)
  have neq: "a \<notin> owns ys" "a \<notin> owns zs" "owns ys \<inter> owns zs = {}" "distinct (map fst (ys @ zs))"
    using assms(1) by (auto simp: queue_rep_def owns_def)
  have count: "q_entries q - 1 = of_nat (length (ys @ zs))" using assms(1) by (simp add: queue_rep_def)
  show ?thesis
  proof (cases ys rule: rev_cases)
    case Nil
    let ?m = "m\<lparr>cells := (cells m)(a := None)\<rparr>"
    have "lseg (cells ?m) n zs None" using n(3) neq(2) by auto
    moreover have "effect m ((a, d) # zs) ?m zs"
      using mem_ok_shrink [OF assms(2), of "cells ?m"] neq(2) by (auto simp: effect_def)
    ultimately show ?thesis
      using Nil assms(1) n count neq(4) lseg_head [of "cells m" n zs]
      by (auto simp: unlink_def free_entry_def becomes_def queue_rep_def)
  next
    case (snoc us y)
    obtain t e where y: "y = (t, e)" by (cases y)
    let ?m = "m\<lparr>cells := (cells m)(t \<mapsto> \<lparr>q_data = e, q_next = n\<rparr>, a := None)\<rparr>"
    have at: "lseg (cells m) (q_head q) us (Some t)" "cells m t = Some \<lparr>q_data = e, q_next = Some a\<rparr>" "t \<noteq> a"
      "t \<notin> owns us" "t \<notin> owns zs" "a \<notin> owns us"
      using n(1) neq by (auto simp: snoc y owns_def)
    have "lseg (cells ?m) (q_head q) us (Some t)" "lseg (cells ?m) n zs None"
      using n at neq by auto
    then have seg: "lseg (cells ?m) (q_head q) (ys @ zs) None" using at by (auto simp: snoc y)
    have eff: "effect m (ys @ (a, d) # zs) ?m (ys @ zs)"
      using mem_ok_shrink [OF assms(2), of "cells ?m"] at neq by (auto simp: effect_def snoc y)
    have op: "unlink (Some t) a q m
      = Some (d, (if n = None then q\<lparr>q_tail := Some t, q_entries := q_entries q - 1\<rparr> else q\<lparr>q_entries := q_entries q - 1\<rparr>), ?m)"
      using n(2) at by (simp add: unlink_def set_next_def free_entry_def Let_def)
    show ?thesis
      using assms(1) seg eff count neq(4) lseg_head [of "cells m" n zs] n(3)
      by (auto simp: snoc y op becomes_def queue_rep_def)
  qed
qed

lemma pop_head_becomes:
  assumes "queue_rep q m ((a, d) # xs)" and "mem_ok m"
  shows "\<exists>q' m'. queue_pop_head (Some q) m = Some (d, Some q', m') \<and> becomes q m ((a, d) # xs) q' m' xs"
proof -
  have "queue_pop_head (Some q) m = (case unlink None a q m of Some (d, q, m) \<Rightarrow> Some (d, Some q, m) | None \<Rightarrow> None)"
    using assms(1) by (auto simp: queue_pop_head_def unlink_def queue_rep_def)
  then show ?thesis using unlink_becomes [of q m "[]" a d xs] assms by auto
qed

lemma find_in_rep:
  assumes "queue_rep q m xs"
  shows "(case List.extract P (map snd xs) of
      None \<Rightarrow> \<exists>pr. find_entry P m None (q_head q) = Some (pr, None)
    | Some (us, d, vs) \<Rightarrow> \<exists>ys a zs. xs = ys @ (a, d) # zs \<and> map snd ys = us \<and> map snd zs = vs
        \<and> (\<forall>y \<in> set ys. \<not> P (snd y)) \<and> P d
        \<and> find_entry P m None (q_head q) = Some (if ys = [] then None else Some (fst (last ys)), Some a))"
proof (cases "List.extract P (map snd xs)")
  case None
  then have "\<forall>x \<in> set xs. \<not> P (snd x)" by (simp add: extract_None_iff)
  then show ?thesis using find_entry_none [of m "q_head q" xs P None] assms None by (simp add: queue_rep_def)
next
  case (Some t)
  obtain us d vs where t: "t = (us, d, vs)" by (cases t)
  obtain ys a zs where x: "xs = ys @ (a, d) # zs" "map snd ys = us" "map snd zs = vs" "P d" "\<forall>y \<in> set ys. \<not> P (snd y)"
    using Some by (auto simp: t extract_Some_iff map_eq_append_conv map_eq_Cons_conv)
  then show ?thesis using find_entry_some [of m "q_head q" ys a d zs P None] assms Some t
    by (auto simp: queue_rep_def)
qed

lemma remove_if_becomes:
  assumes "queue_rep q m xs" and "mem_ok m"
  shows "\<exists>q' m' ys. queue_remove_if fn b (Some q) m
      = Some (case List.extract (matcher fn b) (map snd xs) of Some (_, d, _) \<Rightarrow> d | None \<Rightarrow> None, Some q', m')
    \<and> becomes q m xs q' m' ys
    \<and> map snd ys = (case List.extract (matcher fn b) (map snd xs) of Some (us, _, vs) \<Rightarrow> us @ vs | None \<Rightarrow> map snd xs)"
proof (cases "List.extract (matcher fn b) (map snd xs)")
  case None
  then show ?thesis using find_in_rep [OF assms(1), of "matcher fn b"] becomes_refl [OF assms]
    by (fastforce simp: queue_remove_if_def)
next
  case (Some t)
  obtain us d vs where t: "t = (us, d, vs)" by (cases t)
  obtain ys a zs where x: "xs = ys @ (a, d) # zs" "map snd ys = us" "map snd zs = vs"
    "find_entry (matcher fn b) m None (q_head q) = Some (if ys = [] then None else Some (fst (last ys)), Some a)"
    using find_in_rep [OF assms(1), of "matcher fn b"] Some t by auto
  then show ?thesis using unlink_becomes [of q m ys a d zs] assms Some t by (fastforce simp: queue_remove_if_def)
qed

lemma free_all_spec:
  assumes "lseg (cells m) p xs None" and "distinct (map fst xs)"
  shows "free_all c ds p m = Some (c + of_nat (length xs), ds @ map snd xs, m\<lparr>cells := (cells m) |` (- owns xs)\<rparr>)"
  using assms
proof (induction xs arbitrary: c ds p m)
  case Nil
  then show ?case by (subst free_all.simps) (simp add: restrict_map_def)
next
  case (Cons x xs)
  obtain a d n where x: "x = (a, d)" "p = Some a" "cells m a = Some \<lparr>q_data = d, q_next = n\<rparr>" "lseg (cells m) n xs None"
    "a \<notin> owns xs"
    using Cons.prems by (cases x) (auto simp: owns_def)
  then have "free_all (c + 1) (ds @ [d]) n (free_entry a m)
    = Some (c + 1 + of_nat (length xs), (ds @ [d]) @ map snd xs, (free_entry a m)\<lparr>cells := cells (free_entry a m) |` (- owns xs)\<rparr>)"
    using Cons.prems(2) by (intro Cons.IH) (simp_all add: free_entry_def del: fun_upd_apply)
  moreover have "((cells m)(a := None)) |` (- owns xs) = cells m |` (- owns ((a, d) # xs))"
    by (auto simp: restrict_map_def fun_eq_iff)
  ultimately show ?case using x by (subst free_all.simps) (simp add: free_entry_def add.assoc)
qed

lemma remove_matching_becomes:
  assumes "queue_rep q m xs" and "mem_ok m"
  shows "\<exists>q' m' ys. remove_matching f b c ds q m
      = Some (c + of_nat (length (filter (\<lambda>a. f a b) (map snd xs))), ds @ filter (\<lambda>a. f a b) (map snd xs), q', m')
    \<and> becomes q m xs q' m' ys \<and> map snd ys = filter (\<lambda>a. \<not> f a b) (map snd xs)"
  using assms
proof (induction "length xs" arbitrary: xs q m c ds rule: less_induct)
  case less
  obtain q1 m1 ys where r: "queue_remove_if (Some f) b (Some q) m
      = Some (case List.extract (matcher (Some f) b) (map snd xs) of Some (_, d, _) \<Rightarrow> d | None \<Rightarrow> None, Some q1, m1)"
    "becomes q m xs q1 m1 ys"
    "map snd ys = (case List.extract (matcher (Some f) b) (map snd xs) of Some (us, _, vs) \<Rightarrow> us @ vs | None \<Rightarrow> map snd xs)"
    using remove_if_becomes [OF less.prems, of "Some f" b] by blast
  show ?case
  proof (cases "List.extract (matcher (Some f) b) (map snd xs)")
    case None
    then have no: "\<forall>x \<in> set (map snd xs). \<not> f x b" by (simp add: extract_None_iff matcher_def)
    have ys: "map snd ys = map snd xs" using r(3) None by simp
    then have "length ys = length xs" by (metis length_map)
    then have "q_entries q1 = q_entries q" using r(2) less.prems(1) by (simp add: becomes_def queue_rep_def)
    with no r ys None show ?thesis
      by (subst remove_matching.simps) (auto simp: filter_empty_conv filter_id_conv)
  next
    case (Some t)
    obtain us d vs where t: "t = (us, d, vs)" by (cases t)
    have P: "map snd xs = us @ d # vs" "f d b" "\<forall>u \<in> set us. \<not> f u b"
      using Some by (auto simp: t extract_Some_iff matcher_def)
    have Q: "map snd ys = us @ vs" using Some r(3) by (simp add: t)
    have len: "length xs = Suc (length ys)" using P(1) Q by (metis add_Suc_right length_Cons length_append length_map)
    have ok1: "queue_rep q1 m1 ys" "mem_ok m1" using r(2) by (auto simp: becomes_def effect_def)
    have ne: "q_entries q1 \<noteq> q_entries q" using ok1(1) less.prems(1) len by (simp add: queue_rep_def)
    obtain q2 m2 zs where ih: "remove_matching f b (c + 1) (ds @ [d]) q1 m1
        = Some (c + 1 + of_nat (length (filter (\<lambda>a. f a b) (map snd ys))), (ds @ [d]) @ filter (\<lambda>a. f a b) (map snd ys), q2, m2)"
      "becomes q1 m1 ys q2 m2 zs" "map snd zs = filter (\<lambda>a. \<not> f a b) (map snd ys)"
      using less.hyps [OF _ ok1, of "c + 1" "ds @ [d]"] len by auto
    have "becomes q m xs q2 m2 zs"
      using r(2) ih(2) effect_trans [OF _ _ less.prems(2)] by (auto simp: becomes_def)
    moreover have "filter (\<lambda>a. f a b) us = []" using P(3) by (simp add: filter_empty_conv)
    moreover have "remove_matching f b c ds q m = remove_matching f b (c + 1) (ds @ [d]) q1 m1"
      using r(1) Some t ne by (subst remove_matching.simps) simp
    ultimately show ?thesis using ih P Q by auto
  qed
qed

subsection \<open>Queues implement lists\<close>

text \<open>The operations as calls with their answers, on a queue and on the list of its data.\<close>

datatype 'd qop = Push_tail "'d vptr" | Push_head "'d vptr" | Push_after "'d vptr" "'d vptr" | Pop_head | Peek_head | Peek_tail
  | Find "('d vptr \<Rightarrow> 'd vptr \<Rightarrow> bool) option" "'d vptr" | Remove "'d vptr"
  | Remove_if "('d vptr \<Rightarrow> 'd vptr \<Rightarrow> bool) option" "'d vptr" | Remove_all "('d vptr \<Rightarrow> 'd vptr \<Rightarrow> bool) option" "'d vptr"
  | Length | Is_empty

datatype 'd qout = Bool bool | Data "'d vptr" | Removed u32 "'d vptr list" | Len u32

fun queue_exec :: "'d qop \<Rightarrow> queue option \<Rightarrow> 'd qmem \<Rightarrow> ('d qout \<times> queue option \<times> 'd qmem) option" where
  "queue_exec (Push_tail d) q m = map_option (\<lambda>(r, s). (Bool r, s)) (queue_push_tail d q m)"
| "queue_exec (Push_head d) q m = map_option (\<lambda>(r, s). (Bool r, s)) (queue_push_head d q m)"
| "queue_exec (Push_after e d) q m = map_option (\<lambda>(r, s). (Bool r, s)) (queue_push_after e d q m)"
| "queue_exec Pop_head q m = map_option (\<lambda>(r, s). (Data r, s)) (queue_pop_head q m)"
| "queue_exec Peek_head q m = map_option (\<lambda>r. (Data r, q, m)) (queue_peek_head q m)"
| "queue_exec Peek_tail q m = map_option (\<lambda>r. (Data r, q, m)) (queue_peek_tail q m)"
| "queue_exec (Find fn b) q m = map_option (\<lambda>r. (Data r, q, m)) (queue_find fn b q m)"
| "queue_exec (Remove d) q m = map_option (\<lambda>(r, s). (Bool r, s)) (queue_remove d q m)"
| "queue_exec (Remove_if fn b) q m = map_option (\<lambda>(r, s). (Data r, s)) (queue_remove_if fn b q m)"
| "queue_exec (Remove_all fn b) q m = map_option (\<lambda>(n, ds, s). (Removed n ds, s)) (queue_remove_all fn b q m)"
| "queue_exec Length q m = Some (Len (queue_length q), q, m)"
| "queue_exec Is_empty q m = Some (Bool (queue_isempty q), q, m)"

text \<open>
  The same calls on a list. The counter of a queue has 32 bits, so \<^verbatim>\<open>queue_isempty\<close> also answers
  true for a multiple of \<open>2\<^sup>3\<^sup>2\<close> entries.
\<close>

fun list_exec :: "'d qop \<Rightarrow> 'd vptr list \<Rightarrow> 'd qout \<times> 'd vptr list" where
  "list_exec (Push_tail d) xs = (Bool True, xs @ [d])"
| "list_exec (Push_head d) xs = (Bool True, d # xs)"
| "list_exec (Push_after e d) xs =
     (case List.extract (\<lambda>x. x = e) xs of Some (us, x, vs) \<Rightarrow> (Bool True, us @ x # d # vs) | None \<Rightarrow> (Bool False, xs))"
| "list_exec Pop_head xs = (case xs of [] \<Rightarrow> (Data None, []) | x # xs' \<Rightarrow> (Data x, xs'))"
| "list_exec Peek_head xs = (Data (case xs of [] \<Rightarrow> None | x # _ \<Rightarrow> x), xs)"
| "list_exec Peek_tail xs = (Data (if xs = [] then None else last xs), xs)"
| "list_exec (Find fn b) xs = (Data (case List.extract (matcher fn b) xs of Some (_, x, _) \<Rightarrow> x | None \<Rightarrow> None), xs)"
| "list_exec (Remove d) xs = (Bool (d \<in> set xs), remove1 d xs)"
| "list_exec (Remove_if fn b) xs =
     (case List.extract (matcher fn b) xs of Some (us, x, vs) \<Rightarrow> (Data x, us @ vs) | None \<Rightarrow> (Data None, xs))"
| "list_exec (Remove_all fn b) xs =
     (let gone = (case fn of Some f \<Rightarrow> filter (\<lambda>a. f a b) xs | None \<Rightarrow> xs)
      in (Removed (of_nat (length gone)) gone, case fn of Some f \<Rightarrow> filter (\<lambda>a. \<not> f a b) xs | None \<Rightarrow> []))"
| "list_exec Length xs = (Len (of_nat (length xs)), xs)"
| "list_exec Is_empty xs = (Bool (of_nat (length xs) = (0 :: u32)), xs)"

text \<open>One call: it returns, answers as the list does, and leaves a queue of the list's result.\<close>

definition implements :: "'d qop \<Rightarrow> queue \<Rightarrow> 'd qmem \<Rightarrow> (nat \<times> 'd vptr) list \<Rightarrow> bool" where
  "implements c q m xs \<longleftrightarrow> (\<exists>q' m' ys. queue_exec c (Some q) m = Some (fst (list_exec c (map snd xs)), Some q', m')
     \<and> becomes q m xs q' m' ys \<and> map snd ys = snd (list_exec c (map snd xs)))"

lemma rep_head: "queue_rep q m xs \<Longrightarrow> q_head q = (case xs of [] \<Rightarrow> None | x # _ \<Rightarrow> Some (fst x))"
  by (cases xs) (auto simp: queue_rep_def)

lemma rep_cell:
  assumes "queue_rep q m xs" and "(a, d) \<in> set xs"
  shows "\<exists>n. cells m a = Some \<lparr>q_data = d, q_next = n\<rparr>"
proof -
  obtain ys zs where "xs = ys @ (a, d) # zs" using assms(2) by (meson split_list)
  then show ?thesis using assms(1) by (auto simp: queue_rep_def)
qed

lemma implements_push:
  assumes "queue_rep q m xs" and "mem_ok m"
  shows "implements (Push_tail d) q m xs" and "implements (Push_head d) q m xs"
  using push_tail_becomes [OF assms, of d] push_head_becomes [OF assms, of d] by (fastforce simp: implements_def)+

lemma implements_push_after:
  assumes "queue_rep q m xs" and "mem_ok m"
  shows "implements (Push_after e d) q m xs"
proof (cases "List.extract (\<lambda>x. x = e) (map snd xs)")
  case None
  then show ?thesis using find_in_rep [OF assms(1), of "\<lambda>x. x = e"] becomes_refl [OF assms]
    by (fastforce simp: implements_def queue_push_after_def)
next
  case (Some t)
  obtain us x vs where t: "t = (us, x, vs)" by (cases t)
  obtain ys a zs where x: "xs = ys @ (a, x) # zs" "map snd ys = us" "map snd zs = vs" "\<forall>y \<in> set ys. snd y \<noteq> e" "x = e"
    using find_in_rep [OF assms(1), of "\<lambda>x. x = e"] Some t by auto
  obtain q' m' where r: "queue_push_after e d (Some q) m = Some (True, Some q', m')"
    "becomes q m xs q' m' (ys @ (a, e) # (brk m, d) # zs)"
    using push_after_becomes [of q m ys a e zs d] assms x by auto
  have "map snd (ys @ (a, e) # (brk m, d) # zs) = us @ x # d # vs" using x by simp
  then show ?thesis using r Some t by (auto simp: implements_def)
qed

lemma implements_peek:
  assumes "queue_rep q m xs" and "mem_ok m"
  shows "implements Pop_head q m xs" and "implements Peek_head q m xs" and "implements Peek_tail q m xs"
proof -
  note r = becomes_refl [OF assms]
  show "implements Pop_head q m xs"
  proof (cases xs)
    case Nil
    then show ?thesis using r rep_head [OF assms(1)] by (auto simp: implements_def queue_pop_head_def)
  next
    case (Cons x xs')
    then show ?thesis using pop_head_becomes [of q m "fst x" "snd x" xs'] assms by (auto simp: implements_def)
  qed
  show "implements Peek_head q m xs"
    using r rep_head [OF assms(1)] rep_cell [OF assms(1)]
    by (cases xs) (fastforce simp: implements_def queue_peek_head_def)+
  show "implements Peek_tail q m xs"
  proof (cases "xs = []")
    case True
    then show ?thesis using r assms(1) by (auto simp: implements_def queue_peek_tail_def queue_rep_def)
  next
    case False
    then obtain n where "cells m (fst (last xs)) = Some \<lparr>q_data = snd (last xs), q_next = n\<rparr>"
      using rep_cell [OF assms(1), of "fst (last xs)" "snd (last xs)"] by auto
    moreover have "q_tail q = Some (fst (last xs))" using False assms(1) by (simp add: queue_rep_def)
    ultimately show ?thesis using False r by (auto simp: implements_def queue_peek_tail_def last_map)
  qed
qed

lemma implements_find:
  assumes "queue_rep q m xs" and "mem_ok m"
  shows "implements (Find fn b) q m xs"
proof (cases "List.extract (matcher fn b) (map snd xs)")
  case None
  then show ?thesis using find_in_rep [OF assms(1), of "matcher fn b"] becomes_refl [OF assms]
    by (fastforce simp: implements_def queue_find_def)
next
  case (Some t)
  obtain us x vs where t: "t = (us, x, vs)" by (cases t)
  obtain ys a zs where x: "xs = ys @ (a, x) # zs"
    "find_entry (matcher fn b) m None (q_head q) = Some (if ys = [] then None else Some (fst (last ys)), Some a)"
    using find_in_rep [OF assms(1), of "matcher fn b"] Some t by auto
  then obtain n where "cells m a = Some \<lparr>q_data = x, q_next = n\<rparr>" using rep_cell [OF assms(1), of a x] by auto
  then show ?thesis using x(2) becomes_refl [OF assms] Some t by (auto simp: implements_def queue_find_def)
qed

lemma extract_remove1: "(case List.extract (\<lambda>x. x = d) ds of Some (us, _, vs) \<Rightarrow> us @ vs | None \<Rightarrow> ds) = remove1 d ds"
proof (cases "List.extract (\<lambda>x. x = d) ds")
  case None
  then have "d \<notin> set ds" by (auto simp: extract_None_iff)
  then show ?thesis using None by (simp add: remove1_idem)
next
  case (Some t)
  obtain us x vs where t: "t = (us, x, vs)" by (cases t)
  have "ds = us @ d # vs" "d \<notin> set us" using Some by (auto simp: t extract_Some_iff)
  then have "remove1 d ds = us @ vs" by (simp add: remove1_append)
  then show ?thesis using Some t by simp
qed

lemma implements_remove:
  assumes "queue_rep q m xs" and "mem_ok m"
  shows "implements (Remove d) q m xs" and "implements (Remove_if fn b) q m xs"
proof -
  show "implements (Remove_if fn b) q m xs"
    using remove_if_becomes [OF assms, of fn b]
    by (cases "List.extract (matcher fn b) (map snd xs)") (auto simp: implements_def)
  have "queue_remove d (Some q) m = (case queue_remove_if None d (Some q) m of None \<Rightarrow> None
      | Some (_, q', m') \<Rightarrow> Some (d \<in> set (map snd xs), q', m'))"
    using find_in_rep [OF assms(1), of "\<lambda>x. x = d"]
    by (cases "List.extract (\<lambda>x. x = d) (map snd xs)")
       (auto simp: queue_remove_def queue_remove_if_def matcher_def extract_None_iff split: option.splits bind_splits)
  then show "implements (Remove d) q m xs"
    using remove_if_becomes [OF assms, of None d] extract_remove1 [of "map snd xs" d] by (auto simp: implements_def matcher_def)
qed

lemma implements_remove_all:
  assumes "queue_rep q m xs" and "mem_ok m"
  shows "implements (Remove_all fn b) q m xs"
proof (cases fn)
  case None
  let ?m = "m\<lparr>cells := (cells m) |` (- owns xs)\<rparr>"
  have "mem_ok ?m" using mem_ok_shrink [OF assms(2), of "cells ?m"] by auto
  then have "effect m xs ?m []" by (auto simp: effect_def)
  moreover have "free_all 0 [] (q_head q) m = Some (of_nat (length xs), map snd xs, ?m)"
    using free_all_spec [of m "q_head q" xs 0 "[]"] assms(1) by (simp add: queue_rep_def)
  ultimately show ?thesis using None by (auto simp: implements_def queue_remove_all_def becomes_def queue_rep_def)
next
  case (Some f)
  show ?thesis
  proof (cases "xs = []")
    case True
    then show ?thesis using Some rep_head [OF assms(1)] becomes_refl [OF assms]
      by (auto simp: implements_def queue_remove_all_def Let_def)
  next
    case False
    then have "q_head q \<noteq> None" using rep_head [OF assms(1)] by (simp split: list.splits)
    then show ?thesis using Some remove_matching_becomes [OF assms, of f b 0 "[]"]
      by (auto simp: implements_def queue_remove_all_def Let_def)
  qed
qed

lemma queue_implements:
  assumes "queue_rep q m xs" and "mem_ok m"
  shows "implements c q m xs"
proof (cases c)
  case Length
  then show ?thesis using assms(1) becomes_refl [OF assms] by (auto simp: implements_def queue_length_def queue_rep_def)
next
  case Is_empty
  then show ?thesis using assms(1) becomes_refl [OF assms] by (auto simp: implements_def queue_isempty_def queue_rep_def)
qed (use implements_push implements_push_after implements_peek implements_find implements_remove implements_remove_all assms in auto)

text \<open>A call on a queue that exists, and the queues that stand for a list.\<close>

definition queue_call :: "'d qop \<Rightarrow> queue \<times> 'd qmem \<Rightarrow> ('d qout \<times> queue \<times> 'd qmem) option" where
  "queue_call c s = (case queue_exec c (Some (fst s)) (snd s) of Some (r, Some q, m) \<Rightarrow> Some (r, q, m) | _ \<Rightarrow> None)"

definition queue_of :: "queue \<times> 'd qmem \<Rightarrow> 'd vptr list \<Rightarrow> bool" where
  "queue_of s ds \<longleftrightarrow> mem_ok (snd s) \<and> (\<exists>xs. queue_rep (fst s) (snd s) xs \<and> map snd xs = ds)"

definition queue_keeps :: "queue \<times> 'd qmem \<Rightarrow> queue \<times> 'd qmem \<Rightarrow> bool" where
  "queue_keeps s t \<longleftrightarrow> (\<exists>xs ys. queue_rep (fst s) (snd s) xs \<and> becomes (fst s) (snd s) xs (fst t) (snd t) ys)"

lemma lseg_unique: "lseg h p xs None \<Longrightarrow> lseg h p ys None \<Longrightarrow> xs = ys"
proof (induction xs arbitrary: p ys)
  case Nil
  then show ?case by (cases ys) auto
next
  case (Cons x xs)
  then show ?case by (cases x; cases ys) auto
qed

interpretation qs: simulation queue_call list_exec queue_of queue_keeps
proof
  fix s :: "queue \<times> 'd qmem" and ds c
  assume "queue_of s ds"
  then obtain xs where xs: "queue_rep (fst s) (snd s) xs" "mem_ok (snd s)" "map snd xs = ds" by (auto simp: queue_of_def)
  show "\<exists>s'. queue_call c s = Some (fst (list_exec c ds), s') \<and> queue_of s' (snd (list_exec c ds)) \<and> queue_keeps s s'"
  proof -
    obtain q' m' ys where "queue_exec c (Some (fst s)) (snd s) = Some (fst (list_exec c ds), Some q', m')"
      "becomes (fst s) (snd s) xs q' m' ys" "map snd ys = snd (list_exec c ds)"
      using queue_implements [OF xs(1,2), of c] xs(3) by (auto simp: implements_def)
    then have "queue_call c s = Some (fst (list_exec c ds), q', m')" "queue_of (q', m') (snd (list_exec c ds))"
      "queue_keeps s (q', m')"
      using xs(1) by (auto simp: queue_call_def queue_of_def queue_keeps_def becomes_def effect_def)
    then show ?thesis by blast
  qed
  show "queue_keeps s s" using becomes_refl [OF xs(1,2)] xs(1) by (auto simp: queue_keeps_def)
  fix t u
  assume "queue_keeps s t" "queue_keeps t u"
  then obtain xs' ys ys' zs where k: "queue_rep (fst s) (snd s) xs'" "becomes (fst s) (snd s) xs' (fst t) (snd t) ys"
    "queue_rep (fst t) (snd t) ys'" "becomes (fst t) (snd t) ys' (fst u) (snd u) zs"
    by (auto simp: queue_keeps_def)
  have "ys' = ys" using k lseg_unique by (auto simp: becomes_def queue_rep_def)
  then have "becomes (fst s) (snd s) xs' (fst u) (snd u) zs"
    using k effect_trans [OF _ _ xs(2)] by (auto simp: becomes_def)
  then show "queue_keeps s u" using k(1) by (auto simp: queue_keeps_def)
qed

text \<open>
  C22. Queues implement lists. Every sequence of calls on a queue that holds the data \<^term>\<open>ds\<close> returns,
  gives the answers the same calls give on the list \<^term>\<open>ds\<close>, and leaves a queue of the list's
  result; cells taken in are fresh, cells given up are freed, and no other cell of the store changes.
\<close>

theorem queue_refines_list:
  assumes "queue_rep q m xs" and "mem_ok m"
  shows "\<exists>q' m' ys. run_calls queue_call cs (q, m) = Some (fst (run_spec list_exec cs (map snd xs)), q', m')
    \<and> queue_rep q' m' ys \<and> map snd ys = snd (run_spec list_exec cs (map snd xs)) \<and> effect m xs m' ys"
proof -
  have "queue_of (q, m) (map snd xs)" using assms by (auto simp: queue_of_def)
  from qs.runs [OF this, of cs] obtain q' m' where r: "run_calls queue_call cs (q, m) = Some (fst (run_spec list_exec cs (map snd xs)), q', m')"
    "queue_of (q', m') (snd (run_spec list_exec cs (map snd xs)))" "queue_keeps (q, m) (q', m')"
    by auto
  obtain us ys where k: "queue_rep q m us" "becomes q m us q' m' ys" using r(3) by (auto simp: queue_keeps_def)
  have us: "us = xs" using k(1) assms(1) lseg_unique by (auto simp: queue_rep_def)
  obtain vs where "queue_rep q' m' vs" "map snd vs = snd (run_spec list_exec cs (map snd xs))"
    using r(2) by (auto simp: queue_of_def)
  moreover from this k(2) have "vs = ys" using lseg_unique by (auto simp: becomes_def queue_rep_def)
  ultimately show ?thesis using r(1) k(2) us by (auto simp: becomes_def)
qed

lemma queue_new_rep: "queue_rep queue_new m []"
  by (simp add: queue_rep_def queue_new_def queue_ref_def)

definition demo_calls :: "nat qop list" where
  "demo_calls = [Push_tail (Some 1), Push_head (Some 2), Length, Remove (Some 7), Pop_head]"

definition empty_store :: "nat qmem" where
  "empty_store = \<lparr>cells = Map.empty, brk = 0\<rparr>"

lemma demo_calls_spec: "run_spec list_exec demo_calls [] = ([Bool True, Bool True, Len 2, Bool False, Data (Some 2)], [Some 1])"
  by (simp add: demo_calls_def)

theorem queue_refines_list_witness:
  "\<exists>q' m' ys. run_calls queue_call demo_calls (queue_new, empty_store)
      = Some ([Bool True, Bool True, Len 2, Bool False, Data (Some 2)], q', m')
    \<and> queue_rep q' m' ys \<and> map snd ys = [Some 1] \<and> effect empty_store [] m' ys"
proof -
  have "mem_ok empty_store" by (simp add: mem_ok_def empty_store_def)
  from queue_refines_list [OF queue_new_rep this, of demo_calls] show ?thesis by (simp add: demo_calls_spec)
qed

subsection \<open>Iteration and destruction\<close>

text \<open>
  \<^verbatim>\<open>queue_foreach\<close> with a callback that leaves the queue alone visits every entry once, in order, and
  gives the queue back unchanged.
\<close>

lemma foreach_visits_all:
  assumes "queue_rep q m xs" and "1 \<le> q_ref_count q" and "\<forall>d q' s. f d q' m s = Some (q', m, g d s)"
  shows "queue_foreach (Some f) (Some q) m s = Some (Some q, m, fold g (map snd xs) s)"
proof -
  have loop: "foreach_loop f p (queue_ref q) m s = Some (queue_ref q, m, fold g (map snd ys) s)"
    if "lseg (cells m) p ys None" "q_head q \<noteq> None" for p ys s
    using that(1)
  proof (induction ys arbitrary: p s)
    case Nil
    then show ?case by (subst foreach_loop.simps) simp
  next
    case (Cons y ys)
    obtain a d n where y: "y = (a, d)" "p = Some a" "cells m a = Some \<lparr>q_data = d, q_next = n\<rparr>" "lseg (cells m) n ys None"
      using Cons.prems by (cases y) auto
    then show ?case using Cons.IH [of n "g d s"] that(2) assms(2,3)
      by (subst foreach_loop.simps) (auto simp: queue_ref_def)
  qed
  show ?thesis
  proof (cases "q_head q")
    case None
    then have "xs = []" using rep_head [OF assms(1)] by (simp split: list.splits)
    then show ?thesis using None by (simp add: queue_foreach_def)
  next
    case (Some a)
    then show ?thesis using loop [of "q_head q" xs s] assms(1,2)
      by (simp add: queue_foreach_def queue_unref_def queue_rep_def) (simp add: queue_ref_def)
  qed
qed

text \<open>
  C26. A queue may be destroyed by the callback of its own iteration: the loop stops after that callback, the
  structure and every cell are freed, and nothing is read afterwards.
\<close>

theorem foreach_destroy:
  assumes "queue_rep q m ((a, d) # xs)" and "mem_ok m" and "q_ref_count q = 1"
    and "\<forall>q' m' s. f d q' m' s = (case queue_destroy (Some q') m' of Some (gone, Some q'', m'') \<Rightarrow> Some (q'', m'', gone) | _ \<Rightarrow> None)"
  shows "\<exists>m'. queue_foreach (Some f) (Some q) m s = Some (None, m', d # map snd xs) \<and> effect m ((a, d) # xs) m' []"
proof -
  let ?q = "queue_ref q" and ?xs = "(a, d) # xs"
  have rep: "queue_rep ?q m ?xs" using assms(1) by (simp add: queue_rep_def queue_ref_def)
  obtain q1 m1 ys where r: "queue_remove_all None None (Some ?q) m = Some (of_nat (length ?xs), map snd ?xs, Some q1, m1)"
    "becomes ?q m ?xs q1 m1 ys" "map snd ys = []"
    using implements_remove_all [OF rep assms(2), of None None] by (auto simp: implements_def)
  have ys: "ys = []" "q_head q1 = None" "q_ref_count q1 = 2" "effect m ?xs m1 []"
    using r(2,3) assms(3) by (auto simp: becomes_def queue_rep_def queue_ref_def)
  obtain n where n: "q_head q = Some a" "cells m a = Some \<lparr>q_data = d, q_next = n\<rparr>"
    using assms(1) by (auto simp: queue_rep_def)
  let ?q2 = "q1\<lparr>q_ref_count := 1\<rparr>"
  have "f d ?q m s = Some (?q2, m1, d # map snd xs)"
    using assms(4) r(1) ys(3) by (simp add: queue_destroy_def queue_unref_def)
  moreover have "foreach_loop f n ?q2 m1 (d # map snd xs) = Some (?q2, m1, d # map snd xs)"
    using ys(2) by (subst foreach_loop.simps) (simp split: option.splits)
  ultimately have "foreach_loop f (Some a) ?q m s = Some (?q2, m1, d # map snd xs)"
    using n assms(3) by (subst foreach_loop.simps) (simp add: queue_ref_def)
  then show ?thesis using n(1) ys(4) by (auto simp: queue_foreach_def queue_unref_def)
qed

text \<open>A queue of two entries.\<close>

definition two_store :: "nat qmem" where
  "two_store = \<lparr>cells = [0 \<mapsto> \<lparr>q_data = Some 5, q_next = Some 1\<rparr>, 1 \<mapsto> \<lparr>q_data = Some 6, q_next = None\<rparr>], brk = 2\<rparr>"

definition two_queue :: queue where
  "two_queue = \<lparr>q_ref_count = 1, q_head = Some 0, q_tail = Some 1, q_entries = 2\<rparr>"

lemma two_facts: "queue_rep two_queue two_store [(0, Some 5), (1, Some 6)]" "mem_ok two_store" "q_ref_count two_queue = 1"
  by (simp_all add: queue_rep_def two_queue_def two_store_def mem_ok_def)

lemma foreach_visits_two:
  "queue_foreach (Some (\<lambda>d q m s. Some (q, m, s @ [d]))) (Some two_queue) two_store [] = Some (Some two_queue, two_store, [Some 5, Some 6])"
  using foreach_visits_all [OF two_facts(1), of "\<lambda>d q m s. Some (q, m, s @ [d])" "\<lambda>d s. s @ [d]" "[]"]
  by (simp add: two_facts)

theorem foreach_destroy_witness:
  "\<exists>m'. queue_foreach (Some (\<lambda>d q m s. case queue_destroy (Some q) m of Some (gone, Some q', m') \<Rightarrow> Some (q', m', gone) | _ \<Rightarrow> None))
      (Some two_queue) two_store [] = Some (None, m', [Some 5, Some 6]) \<and> effect two_store [(0, Some 5), (1, Some 6)] m' []"
  using foreach_destroy [OF two_facts] by simp

end
