(* ===== verification/Mainloop.thy ===== *)
theory Mainloop
  imports Simulation
begin

text \<open>
  The event loop of the program, \<^verbatim>\<open>src/mainloop.c\<close>: the table of watched descriptors, the timers, and
  the loop that dispatches the events of \<^verbatim>\<open>epoll\<close>. The structures the code allocates live in explicit
  stores, so that using one after \<^verbatim>\<open>free\<close> is undefined (\<^term>\<open>None\<close>). The kernel's side is the
  interest list of the \<^verbatim>\<open>epoll\<close> descriptor and, per call, what the system calls answer.

  A callback of a client is a name \<^typ>\<open>'c\<close>; a callback with its \<^verbatim>\<open>user_data\<close> is one name. What the
  callbacks do is the argument \<^verbatim>\<open>script\<close> of the loop: the calls of this interface they make. What the clients
  observe is written to a log.
\<close>

subsection \<open>Data\<close>

abbreviation "ENXIO \<equiv> (6::int)"
abbreviation "ENOMEM \<equiv> (12::int)"
abbreviation "MAX_MAINLOOP_ENTRIES \<equiv> (128::nat)"
abbreviation "EPOLLIN \<equiv> (0x001::u32)"
abbreviation "EPOLLERR \<equiv> (0x008::u32)"
abbreviation "EPOLLHUP \<equiv> (0x010::u32)"
abbreviation "EPOLLONESHOT \<equiv> (0x40000000::u32)"

text \<open>The callbacks in the table: those of clients, and the two of the timers with their structure.\<close>

datatype 'c handler = Handler 'c | Timeout_callback nat
datatype 'c destroyer = Destroyer 'c | Timeout_destroy nat

record 'c mainloop_data =
  md_fd :: int
  md_events :: u32
  md_callback :: "'c handler"
  md_destroy :: "'c destroyer option"

record 'c timeout_data =
  td_fd :: int
  td_callback :: 'c
  td_destroy :: "'c option"

datatype 'c ml_out = Called 'c int u32 | Expired 'c int | Destroyed 'c | Closed int | Armed int u32 u32 | Stopping

record 'c mainloop =
  epoll_fd :: int
  epoll_terminate :: bool
  exit_status :: int
  mainloop_list :: "nat option list"
  datas :: "nat \<rightharpoonup> 'c mainloop_data"
  timeouts :: "nat \<rightharpoonup> 'c timeout_data"
  ml_brk :: nat
  interest :: "int \<rightharpoonup> u32 \<times> nat"
  ml_log :: "'c ml_out list"

text \<open>What the system answers during a call: allocation, adding a descriptor that is not yet watched, and the timer
  calls. Changing and deleting a descriptor in \<^verbatim>\<open>epoll\<close> succeeds exactly when it is in the interest list.\<close>

record os_env =
  malloc_ok :: bool
  ctl_ok :: bool
  timer_fd :: int
  settime_ok :: bool

definition add_log :: "'c ml_out \<Rightarrow> 'c mainloop \<Rightarrow> 'c mainloop" where
  "add_log x s = s\<lparr>ml_log := ml_log s @ [x]\<rparr>"

subsection \<open>Starting and stopping\<close>

definition mainloop_init :: "int \<Rightarrow> 'c mainloop \<Rightarrow> 'c mainloop" where
  "mainloop_init fd s = s\<lparr>epoll_fd := fd, mainloop_list := replicate MAX_MAINLOOP_ENTRIES None, epoll_terminate := False\<rparr>"

definition mainloop_quit :: "'c mainloop \<Rightarrow> 'c mainloop" where
  "mainloop_quit s = add_log Stopping (s\<lparr>epoll_terminate := True\<rparr>)"

definition mainloop_exit_success :: "'c mainloop \<Rightarrow> 'c mainloop" where
  "mainloop_exit_success s = s\<lparr>exit_status := 0, epoll_terminate := True\<rparr>"

definition mainloop_exit_failure :: "'c mainloop \<Rightarrow> 'c mainloop" where
  "mainloop_exit_failure s = s\<lparr>exit_status := 1, epoll_terminate := True\<rparr>"

subsection \<open>Descriptors\<close>

definition fd_out_of_range :: "int \<Rightarrow> bool" where
  "fd_out_of_range fd \<longleftrightarrow> fd < 0 \<or> fd > int MAX_MAINLOOP_ENTRIES - 1"

definition mainloop_add_fd :: "os_env \<Rightarrow> int \<Rightarrow> u32 \<Rightarrow> 'c handler option \<Rightarrow> 'c destroyer option \<Rightarrow> 'c mainloop \<Rightarrow> int \<times> 'c mainloop" where
  "mainloop_add_fd e fd events callback destroy s =
     (if fd_out_of_range fd then (- EINVAL, s)
      else case callback of None \<Rightarrow> (- EINVAL, s)
      | Some cb \<Rightarrow>
        if \<not> malloc_ok e then (- ENOMEM, s)
        else if \<not> ctl_ok e \<or> fd \<in> dom (interest s) then (-1, s)
        else (0, s\<lparr>datas := (datas s)(ml_brk s \<mapsto> \<lparr>md_fd = fd, md_events = events, md_callback = cb, md_destroy = destroy\<rparr>),
               interest := (interest s)(fd \<mapsto> (events, ml_brk s)),
               mainloop_list := (mainloop_list s)[nat fd := Some (ml_brk s)], ml_brk := ml_brk s + 1\<rparr>))"

definition mainloop_modify_fd :: "int \<Rightarrow> u32 \<Rightarrow> 'c mainloop \<Rightarrow> (int \<times> 'c mainloop) option" where
  "mainloop_modify_fd fd events s =
     (if fd_out_of_range fd then Some (- EINVAL, s)
      else do {
        p \<leftarrow> lst_get (mainloop_list s) (nat fd);
        case p of None \<Rightarrow> Some (- ENXIO, s)
        | Some p \<Rightarrow> do {
            d \<leftarrow> datas s p;
            if md_fd d \<notin> dom (interest s) then Some (-1, s)
            else Some (0, s\<lparr>interest := (interest s)(md_fd d \<mapsto> (events, p)),
                   datas := (datas s)(p \<mapsto> d\<lparr>md_events := events\<rparr>)\<rparr>)
          }
      })"

text \<open>
  The destroy callbacks: a client's is observed; a timer's closes its descriptor, which also takes it out of
  the interest list, calls the client's and frees the timer.
\<close>

fun run_destroy :: "'c destroyer option \<Rightarrow> 'c mainloop \<Rightarrow> 'c mainloop option" where
  "run_destroy None s = Some s"
| "run_destroy (Some (Destroyer c)) s = Some (add_log (Destroyed c) s)"
| "run_destroy (Some (Timeout_destroy t)) s = do {
     td \<leftarrow> timeouts s t;
     let s = add_log (Closed (td_fd td)) (s\<lparr>interest := (interest s)(td_fd td := None)\<rparr>);
     let s = (case td_destroy td of Some c \<Rightarrow> add_log (Destroyed c) s | None \<Rightarrow> s);
     Some (s\<lparr>timeouts := (timeouts s)(t := None)\<rparr>)
   }"

text \<open>Taking a structure out of \<^verbatim>\<open>epoll\<close>, destroying and freeing it, in \<^verbatim>\<open>mainloop_remove_fd\<close> and at the end of \<^verbatim>\<open>mainloop_run\<close>.\<close>

definition drop_data :: "nat \<Rightarrow> 'c mainloop \<Rightarrow> (int \<times> 'c mainloop) option" where
  "drop_data p s = do {
     d \<leftarrow> datas s p;
     let err = (if md_fd d \<in> dom (interest s) then 0 else -1);
     s \<leftarrow> run_destroy (md_destroy d) (s\<lparr>interest := (interest s)(md_fd d := None)\<rparr>);
     Some (err, s\<lparr>datas := (datas s)(p := None)\<rparr>)
   }"

definition mainloop_remove_fd :: "int \<Rightarrow> 'c mainloop \<Rightarrow> (int \<times> 'c mainloop) option" where
  "mainloop_remove_fd fd s =
     (if fd_out_of_range fd then Some (- EINVAL, s)
      else do {
        p \<leftarrow> lst_get (mainloop_list s) (nat fd);
        case p of None \<Rightarrow> Some (- ENXIO, s)
        | Some p \<Rightarrow> drop_data p (s\<lparr>mainloop_list := (mainloop_list s)[nat fd := None]\<rparr>)
      })"

subsection \<open>Timers\<close>

definition timeout_set :: "os_env \<Rightarrow> int \<Rightarrow> u32 \<Rightarrow> 'c mainloop \<Rightarrow> int \<times> 'c mainloop" where
  "timeout_set e fd msec s =
     (let sec = msec div 1000
      in if settime_ok e then (0, add_log (Armed fd sec ((msec - sec * 1000) * 1000 * 1000)) s) else (-1, s))"

definition mainloop_add_timeout :: "os_env \<Rightarrow> u32 \<Rightarrow> 'c option \<Rightarrow> 'c option \<Rightarrow> 'c mainloop \<Rightarrow> int \<times> 'c mainloop" where
  "mainloop_add_timeout e msec callback destroy s =
     (case callback of None \<Rightarrow> (- EINVAL, s)
      | Some cb \<Rightarrow>
        if \<not> malloc_ok e then (- ENOMEM, s)
        else if timer_fd e < 0 then (- EIO, s)
        else
          (let t = ml_brk s;
               s1 = s\<lparr>timeouts := (timeouts s)(t \<mapsto> \<lparr>td_fd = timer_fd e, td_callback = cb, td_destroy = destroy\<rparr>), ml_brk := t + 1\<rparr>;
               (r, s2) = (if msec > 0 then timeout_set e (timer_fd e) msec s1 else (0, s1));
               undo = (\<lambda>s'. add_log (Closed (timer_fd e)) (s'\<lparr>timeouts := (timeouts s')(t := None)\<rparr>))
           in if r < 0 then (- EIO, undo s2)
              else (let (r, s3) = mainloop_add_fd e (timer_fd e) (EPOLLIN OR EPOLLONESHOT) (Some (Timeout_callback t)) (Some (Timeout_destroy t)) s2
                    in if r < 0 then (- EIO, undo s3) else (timer_fd e, s3))))"

definition mainloop_modify_timeout :: "os_env \<Rightarrow> int \<Rightarrow> u32 \<Rightarrow> 'c mainloop \<Rightarrow> (int \<times> 'c mainloop) option" where
  "mainloop_modify_timeout e tid msec s =
     (let (r, s) = (if msec > 0 then timeout_set e tid msec s else (0, s))
      in if r < 0 then Some (- EIO, s)
         else do {
           (r, s) \<leftarrow> mainloop_modify_fd tid (EPOLLIN OR EPOLLONESHOT) s;
           Some (if r < 0 then (- EIO, s) else (0, s))
         })"

definition mainloop_remove_timeout :: "int \<Rightarrow> 'c mainloop \<Rightarrow> (int \<times> 'c mainloop) option" where
  "mainloop_remove_timeout tid s = mainloop_remove_fd tid s"

subsection \<open>Calls and the loop\<close>

datatype 'c ml_call = Add_fd os_env int u32 "'c option" "'c option" | Modify_fd int u32 | Remove_fd int
  | Add_timeout os_env u32 "'c option" "'c option" | Modify_timeout os_env int u32 | Remove_timeout int
  | Quit | Exit_success | Exit_failure

fun ml_exec :: "'c ml_call \<Rightarrow> 'c mainloop \<Rightarrow> (int \<times> 'c mainloop) option" where
  "ml_exec (Add_fd e fd events cb destroy) s
     = Some (mainloop_add_fd e fd events (map_option Handler cb) (map_option Destroyer destroy) s)"
| "ml_exec (Modify_fd fd events) s = mainloop_modify_fd fd events s"
| "ml_exec (Remove_fd fd) s = mainloop_remove_fd fd s"
| "ml_exec (Add_timeout e msec cb destroy) s = Some (mainloop_add_timeout e msec cb destroy s)"
| "ml_exec (Modify_timeout e tid msec) s = mainloop_modify_timeout e tid msec s"
| "ml_exec (Remove_timeout tid) s = mainloop_remove_timeout tid s"
| "ml_exec Quit s = Some (0, mainloop_quit s)"
| "ml_exec Exit_success s = Some (0, mainloop_exit_success s)"
| "ml_exec Exit_failure s = Some (0, mainloop_exit_failure s)"

type_synonym 'c script = "'c \<Rightarrow> int \<Rightarrow> 'c mainloop \<Rightarrow> 'c ml_call list"

definition run_callback :: "'c script \<Rightarrow> 'c \<Rightarrow> int \<Rightarrow> 'c mainloop \<Rightarrow> 'c mainloop option" where
  "run_callback script c fd s = do { (_, s) \<leftarrow> run_calls ml_exec (script c fd s) s; Some s }"

text \<open>An event of \<^verbatim>\<open>epoll_wait\<close>: the pointer registered with the descriptor, the event bits, and whether a read of the timer succeeds.\<close>

record ep_event =
  ev_data :: nat
  ev_events :: u32
  ev_read_ok :: bool

definition timeout_callback :: "'c script \<Rightarrow> ep_event \<Rightarrow> nat \<Rightarrow> 'c mainloop \<Rightarrow> 'c mainloop option" where
  "timeout_callback script ev t s = do {
     td \<leftarrow> timeouts s t;
     if ev_events ev AND (EPOLLERR OR EPOLLHUP) \<noteq> 0 then Some s
     else if \<not> ev_read_ok ev then Some s
     else run_callback script (td_callback td) (td_fd td) (add_log (Expired (td_callback td) (td_fd td)) s)
   }"

definition dispatch :: "'c script \<Rightarrow> ep_event \<Rightarrow> 'c mainloop \<Rightarrow> 'c mainloop option" where
  "dispatch script ev s = do {
     d \<leftarrow> datas s (ev_data ev);
     case md_callback d of
       Handler c \<Rightarrow> run_callback script c (md_fd d) (add_log (Called c (md_fd d) (ev_events ev)) s)
     | Timeout_callback t \<Rightarrow> timeout_callback script ev t s
   }"

fun dispatch_all :: "'c script \<Rightarrow> ep_event list \<Rightarrow> 'c mainloop \<Rightarrow> 'c mainloop option" where
  "dispatch_all script [] s = Some s"
| "dispatch_all script (ev # evs) s = do { s \<leftarrow> dispatch script ev s; dispatch_all script evs s }"

text \<open>
  The loop of \<^verbatim>\<open>mainloop_run\<close> over the results of \<^verbatim>\<open>epoll_wait\<close>: a failure (\<^term>\<open>None\<close>) or a batch of events.
  It ends when the terminate flag is set, or waits for ever when there are no more results.
\<close>

fun run_loop :: "'c script \<Rightarrow> ep_event list option list \<Rightarrow> 'c mainloop \<Rightarrow> 'c mainloop option" where
  "run_loop script [] s = Some s"
| "run_loop script (w # ws) s =
     (if epoll_terminate s then Some s
      else case w of None \<Rightarrow> run_loop script ws s
      | Some evs \<Rightarrow> do { s \<leftarrow> dispatch_all script evs s; run_loop script ws s })"

fun drop_all :: "nat list \<Rightarrow> 'c mainloop \<Rightarrow> 'c mainloop option" where
  "drop_all [] s = Some s"
| "drop_all (i # is) s = do {
     p \<leftarrow> lst_get (mainloop_list s) i;
     let s = s\<lparr>mainloop_list := (mainloop_list s)[i := None]\<rparr>;
     case p of None \<Rightarrow> drop_all is s
     | Some p \<Rightarrow> do { (_, s) \<leftarrow> drop_data p s; drop_all is s }
   }"

datatype 'c ml_result = Waiting "'c mainloop" | Returned int "'c mainloop"

definition mainloop_run :: "'c script \<Rightarrow> ep_event list option list \<Rightarrow> 'c mainloop \<Rightarrow> 'c ml_result option" where
  "mainloop_run script ws s = do {
     s \<leftarrow> run_loop script ws s;
     if \<not> epoll_terminate s then Some (Waiting s)
     else do {
       s \<leftarrow> drop_all [0..<MAX_MAINLOOP_ENTRIES] s;
       Some (Returned (exit_status s) (s\<lparr>epoll_fd := 0\<rparr>))
     }
   }"

subsection \<open>The invariant of the tables\<close>

text \<open>
  The structure of a descriptor belongs to a client, or to a timer that exists and has the same descriptor.
\<close>

definition link_ok :: "'c mainloop \<Rightarrow> 'c mainloop_data \<Rightarrow> bool" where
  "link_ok s d \<longleftrightarrow> (case md_callback d of
      Handler c \<Rightarrow> (\<forall>t. md_destroy d \<noteq> Some (Timeout_destroy t))
    | Timeout_callback t \<Rightarrow> md_destroy d = Some (Timeout_destroy t) \<and> (\<exists>td. timeouts s t = Some td \<and> td_fd td = md_fd d))"

definition slot_at :: "nat option list \<Rightarrow> int \<Rightarrow> nat option" where
  "slot_at xs fd = (if fd_out_of_range fd then None else xs ! nat fd)"

abbreviation slot :: "'c mainloop \<Rightarrow> int \<Rightarrow> nat option" where
  "slot s \<equiv> slot_at (mainloop_list s)"

text \<open>
  The table, the structures and the interest list of the kernel say the same: every entry of the table
  points to a live structure of its descriptor, which the kernel watches with that pointer; every
  structure is in the table, every watched descriptor too, and every timer belongs to a structure.
\<close>

definition ml_inv :: "'c mainloop \<Rightarrow> bool" where
  "ml_inv s \<longleftrightarrow> length (mainloop_list s) = MAX_MAINLOOP_ENTRIES
     \<and> (\<forall>fd p. slot s fd = Some p \<longrightarrow> (\<exists>d. datas s p = Some d \<and> md_fd d = fd \<and> interest s fd = Some (md_events d, p) \<and> link_ok s d))
     \<and> (\<forall>fd. slot s fd = None \<longrightarrow> interest s fd = None)
     \<and> (\<forall>p d. datas s p = Some d \<longrightarrow> slot s (md_fd d) = Some p)
     \<and> (\<forall>t td. timeouts s t = Some td \<longrightarrow> (\<exists>p d. datas s p = Some d \<and> md_destroy d = Some (Timeout_destroy t)))
     \<and> (\<forall>p. p \<in> dom (datas s) \<or> p \<in> dom (timeouts s) \<longrightarrow> p < ml_brk s)"

lemma slot_upd:
  "length xs = MAX_MAINLOOP_ENTRIES \<Longrightarrow> \<not> fd_out_of_range fd \<Longrightarrow>
   slot_at (xs[nat fd := v]) fd' = (if fd' = fd then v else slot_at xs fd')"
  by (auto simp: slot_at_def fd_out_of_range_def nth_list_update nat_eq_iff)

lemma lst_slot: "length (mainloop_list s) = MAX_MAINLOOP_ENTRIES \<Longrightarrow> \<not> fd_out_of_range fd \<Longrightarrow> lst_get (mainloop_list s) (nat fd) = Some (slot s fd)"
  by (auto simp: lst_get_def slot_at_def fd_out_of_range_def)

lemma inv_length: "ml_inv s \<Longrightarrow> length (mainloop_list s) = MAX_MAINLOOP_ENTRIES"
  by (simp add: ml_inv_def)

lemma inv_slot: "ml_inv s \<Longrightarrow> slot s fd = Some p \<Longrightarrow>
    \<exists>d. datas s p = Some d \<and> md_fd d = fd \<and> interest s fd = Some (md_events d, p) \<and> link_ok s d"
  by (simp add: ml_inv_def)

lemma inv_unwatched: "ml_inv s \<Longrightarrow> slot s fd = None \<Longrightarrow> interest s fd = None"
  by (simp add: ml_inv_def)

lemma inv_datas: "ml_inv s \<Longrightarrow> datas s p = Some d \<Longrightarrow> slot s (md_fd d) = Some p"
  by (simp add: ml_inv_def)

lemma inv_timer: "ml_inv s \<Longrightarrow> timeouts s t = Some td \<Longrightarrow> \<exists>p d. datas s p = Some d \<and> md_destroy d = Some (Timeout_destroy t)"
  by (simp add: ml_inv_def)

lemma inv_fresh: "ml_inv s \<Longrightarrow> p \<ge> ml_brk s \<Longrightarrow> datas s p = None \<and> timeouts s p = None"
  unfolding ml_inv_def by (metis domIff leD)

lemma inv_below: "ml_inv s \<Longrightarrow> datas s p = Some d \<Longrightarrow> p < ml_brk s" "ml_inv s \<Longrightarrow> timeouts s p = Some td \<Longrightarrow> p < ml_brk s"
  unfolding ml_inv_def by blast+

lemmas ml_invD = inv_length inv_slot inv_unwatched inv_datas inv_timer inv_below inv_fresh

lemma interest_slot: "ml_inv s \<Longrightarrow> fd \<in> dom (interest s) \<longleftrightarrow> slot s fd \<noteq> None"
  using inv_slot [of s fd] inv_unwatched [of s fd] by (cases "slot s fd") (auto simp: domIff)

lemma link_ok_updates [simp]:
  "link_ok (s\<lparr>epoll_terminate := b\<rparr>) = link_ok s" "link_ok (s\<lparr>exit_status := e\<rparr>) = link_ok s" "link_ok (s\<lparr>datas := ds\<rparr>) = link_ok s"
  "link_ok (s\<lparr>ml_brk := n\<rparr>) = link_ok s" "link_ok (s\<lparr>interest := m\<rparr>) = link_ok s" "link_ok (s\<lparr>ml_log := l\<rparr>) = link_ok s"
  "link_ok (s\<lparr>mainloop_list := xs\<rparr>) = link_ok s" "link_ok (add_log x s) = link_ok s"
  by (simp_all add: link_ok_def fun_eq_iff add_log_def split: handler.split)

lemma add_log_sel [simp]:
  "datas (add_log x s) = datas s" "timeouts (add_log x s) = timeouts s" "interest (add_log x s) = interest s"
  "mainloop_list (add_log x s) = mainloop_list s" "ml_brk (add_log x s) = ml_brk s" "exit_status (add_log x s) = exit_status s"
  "epoll_terminate (add_log x s) = epoll_terminate s" "ml_log (add_log x s) = ml_log s @ [x]"
  by (simp_all add: add_log_def)

text \<open>Changes that the invariant does not see.\<close>

lemma ml_inv_updates [simp]:
  "ml_inv (s\<lparr>epoll_terminate := b\<rparr>) = ml_inv s" "ml_inv (s\<lparr>exit_status := e\<rparr>) = ml_inv s"
  "ml_inv (s\<lparr>ml_log := l\<rparr>) = ml_inv s" "ml_inv (add_log x s) = ml_inv s"
  by (simp_all add: ml_inv_def)

lemma link_ok_timeouts:
  assumes "link_ok s d" and "\<And>t td. md_callback d = Timeout_callback t \<Longrightarrow> timeouts s t = Some td \<Longrightarrow> timeouts s' t = Some td"
  shows "link_ok s' d"
  using assms by (auto simp: link_ok_def split: handler.splits)

text \<open>Adding a structure, and with it a timer when it has one.\<close>

definition added :: "nat \<Rightarrow> 'c mainloop_data \<Rightarrow> (nat \<rightharpoonup> 'c timeout_data) \<Rightarrow> nat \<Rightarrow> 'c mainloop \<Rightarrow> 'c mainloop" where
  "added p d ts n s = s\<lparr>datas := (datas s)(p \<mapsto> d), interest := (interest s)(md_fd d \<mapsto> (md_events d, p)),
      mainloop_list := (mainloop_list s)[nat (md_fd d) := Some p], timeouts := ts, ml_brk := n\<rparr>"

lemma add_inv:
  assumes s: "ml_inv s" and free: "slot s (md_fd d) = None" and range: "\<not> fd_out_of_range (md_fd d)"
    and p: "datas s p = None" "p < n" "ml_brk s \<le> n"
    and ts: "\<And>t td. timeouts s t = Some td \<Longrightarrow> ts t = Some td"
      "\<And>t td. ts t = Some td \<Longrightarrow> t < n \<and> (timeouts s t = Some td \<or> md_destroy d = Some (Timeout_destroy t))"
    and link: "link_ok (s\<lparr>timeouts := ts\<rparr>) d"
  shows "ml_inv (added p d ts n s)"
proof -
  let ?s = "s\<lparr>datas := (datas s)(p \<mapsto> d), interest := (interest s)(md_fd d \<mapsto> (md_events d, p)),
      mainloop_list := (mainloop_list s)[nat (md_fd d) := Some p], timeouts := ts, ml_brk := n\<rparr>"
  note sl = slot_upd [OF inv_length [OF s] range, of "Some p"]
  have "slot ?s fd = Some q \<Longrightarrow> \<exists>e. datas ?s q = Some e \<and> md_fd e = fd \<and> interest ?s fd = Some (md_events e, q) \<and> link_ok ?s e" for fd q
  proof (cases "fd = md_fd d")
    case True
    then show "slot ?s fd = Some q \<Longrightarrow> ?thesis" using link by (auto simp: sl link_ok_def split: handler.splits)
  next
    case False
    assume "slot ?s fd = Some q"
    then obtain e where e: "datas s q = Some e" "md_fd e = fd" "interest s fd = Some (md_events e, q)" "link_ok s e"
      using inv_slot [OF s, of fd q] False by (auto simp: sl)
    then have "link_ok ?s e" "q \<noteq> p" using ts(1) p(1) by (auto intro: link_ok_timeouts)
    then show ?thesis using e False by auto
  qed
  moreover have "slot ?s fd = None \<Longrightarrow> interest ?s fd = None" for fd
    using inv_unwatched [OF s, of fd] by (auto simp: sl split: if_splits)
  moreover have "slot ?s (md_fd e) = Some q" if e: "datas ?s q = Some e" for q e
  proof (cases "q = p")
    case True
    then show ?thesis using e sl [of "md_fd d"] by auto
  next
    case False
    then have "datas s q = Some e" using e by simp
    then show ?thesis using inv_datas [OF s, of q e] free by (auto simp: sl)
  qed
  moreover have "\<exists>q e. datas ?s q = Some e \<and> md_destroy e = Some (Timeout_destroy t)" if t: "timeouts ?s t = Some td" for t td
  proof -
    have "ts t = Some td" using t by simp
    from ts(2) [OF this] consider "timeouts s t = Some td" | "md_destroy d = Some (Timeout_destroy t)" by blast
    then show ?thesis
    proof cases
      case 1
      then obtain q e where "datas s q = Some e" "md_destroy e = Some (Timeout_destroy t)" using inv_timer [OF s] by blast
      moreover from this have "q \<noteq> p" using p(1) by auto
      ultimately show ?thesis by (auto intro!: exI [of _ q])
    qed (auto intro!: exI [of _ p])
  qed
  moreover have "q < ml_brk ?s" if q: "q \<in> dom (datas ?s) \<or> q \<in> dom (timeouts ?s)" for q
  proof -
    consider "q = p" | e where "datas s q = Some e" | td where "ts q = Some td"
      using q by (auto split: if_splits)
    then show ?thesis using p(2,3) ts(2) [of q] inv_below(1) [OF s, of q] by cases fastforce+
  qed
  moreover have "length (mainloop_list ?s) = MAX_MAINLOOP_ENTRIES" using inv_length [OF s] by simp
  ultimately show ?thesis unfolding added_def ml_inv_def by blast
qed

text \<open>Changing the events of a structure.\<close>

lemma modify_inv:
  assumes s: "ml_inv s" and p: "slot s fd = Some p" "datas s p = Some d"
  shows "ml_inv (s\<lparr>interest := (interest s)(fd \<mapsto> (ev, p)), datas := (datas s)(p \<mapsto> d\<lparr>md_events := ev\<rparr>)\<rparr>)" (is "ml_inv ?s")
proof -
  have d: "md_fd d = fd" "link_ok s d" using inv_slot [OF s p(1)] p(2) by auto
  have "slot s f = Some q \<Longrightarrow> \<exists>e. datas ?s q = Some e \<and> md_fd e = f \<and> interest ?s f = Some (md_events e, q) \<and> link_ok ?s e" for f q
  proof (cases "f = fd")
    case True
    then show "slot s f = Some q \<Longrightarrow> ?thesis" using p d by (auto simp: link_ok_def split: handler.splits)
  next
    case False
    assume "slot s f = Some q"
    then obtain e where e: "datas s q = Some e" "md_fd e = f" "interest s f = Some (md_events e, q)" "link_ok s e"
      using inv_slot [OF s] by blast
    moreover from this have "q \<noteq> p" using p(2) d(1) False by auto
    ultimately show ?thesis using False by auto
  qed
  moreover have "slot s f = None \<Longrightarrow> interest ?s f = None" for f using inv_unwatched [OF s, of f] p(1) by auto
  moreover have "slot s (md_fd e) = Some q" if "datas ?s q = Some e" for q e
    using that inv_datas [OF s, of q] p d(1) by (cases "q = p") auto
  moreover have "\<exists>q e. datas ?s q = Some e \<and> md_destroy e = Some (Timeout_destroy t)" if t: "timeouts ?s t = Some td" for t td
  proof -
    obtain q e where "datas s q = Some e" "md_destroy e = Some (Timeout_destroy t)" using inv_timer [OF s, of t td] t by auto
    then show ?thesis using p(2) by (cases "q = p") auto
  qed
  moreover have "q < ml_brk ?s" if "q \<in> dom (datas ?s) \<or> q \<in> dom (timeouts ?s)" for q
    using that inv_below [OF s, of q] p(2) by (cases "q = p") auto
  ultimately show ?thesis using inv_length [OF s] unfolding ml_inv_def by simp
qed

text \<open>Taking a structure out. Its timer goes with it.\<close>

fun timer_of :: "'c destroyer option \<Rightarrow> nat option" where
  "timer_of (Some (Timeout_destroy t)) = Some t"
| "timer_of _ = None"

definition destroy_log :: "'c mainloop \<Rightarrow> 'c mainloop_data \<Rightarrow> 'c ml_out list" where
  "destroy_log s d = (case md_destroy d of None \<Rightarrow> [] | Some (Destroyer c) \<Rightarrow> [Destroyed c]
     | Some (Timeout_destroy t) \<Rightarrow> (case timeouts s t of None \<Rightarrow> []
         | Some td \<Rightarrow> Closed (td_fd td) # (case td_destroy td of Some c \<Rightarrow> [Destroyed c] | None \<Rightarrow> [])))"

definition dropped :: "int \<Rightarrow> nat \<Rightarrow> 'c mainloop_data \<Rightarrow> 'c mainloop \<Rightarrow> 'c mainloop" where
  "dropped fd p d s = s\<lparr>mainloop_list := (mainloop_list s)[nat fd := None], interest := (interest s)(fd := None),
     datas := (datas s)(p := None), timeouts := (case timer_of (md_destroy d) of Some t \<Rightarrow> (timeouts s)(t := None) | None \<Rightarrow> timeouts s),
     ml_log := ml_log s @ destroy_log s d\<rparr>"

lemma link_ok_timer_of: "link_ok s d \<Longrightarrow> timer_of (md_destroy d) = (case md_callback d of Handler c \<Rightarrow> None | Timeout_callback t \<Rightarrow> Some t)"
  by (cases "md_destroy d" rule: timer_of.cases) (auto simp: link_ok_def split: handler.splits)

lemma drop_data_dropped:
  assumes "ml_inv s" and "slot s fd = Some p" and "datas s p = Some d"
  shows "drop_data p (s\<lparr>mainloop_list := (mainloop_list s)[nat fd := None]\<rparr>) = Some (0, dropped fd p d s)"
proof -
  have d: "md_fd d = fd" "interest s fd = Some (md_events d, p)" "link_ok s d" using inv_slot [OF assms(1,2)] assms(3) by auto
  show ?thesis
  proof (cases "md_callback d")
    case (Handler c)
    then have "timer_of (md_destroy d) = None" using link_ok_timer_of [OF d(3)] by simp
    then show ?thesis using assms(3) d
      by (cases "md_destroy d" rule: timer_of.cases) (auto simp: drop_data_def dropped_def destroy_log_def add_log_def)
  next
    case (Timeout_callback t)
    then obtain td where "md_destroy d = Some (Timeout_destroy t)" "timeouts s t = Some td" "td_fd td = fd"
      using d by (auto simp: link_ok_def)
    then show ?thesis using assms(3) d
      by (auto simp: drop_data_def dropped_def destroy_log_def add_log_def Let_def split: option.split)
  qed
qed

lemma slot_range: "slot_at xs fd = Some p \<Longrightarrow> \<not> fd_out_of_range fd"
  by (auto simp: slot_at_def split: if_splits)

lemma slot_dropped: "ml_inv s \<Longrightarrow> slot s fd = Some p \<Longrightarrow> slot (dropped fd p d s) f = (if f = fd then None else slot s f)"
  by (simp add: dropped_def slot_upd [OF inv_length slot_range])

lemma dropped_inv:
  assumes s: "ml_inv s" and p: "slot s fd = Some p" "datas s p = Some d"
  shows "ml_inv (dropped fd p d s)" (is "ml_inv ?s")
proof -
  have d: "md_fd d = fd" "link_ok s d" using inv_slot [OF s p(1)] p(2) by auto
  note sl = slot_dropped [OF s p(1), of d]
  have ts: "timeouts ?s t = (if timer_of (md_destroy d) = Some t then None else timeouts s t)" for t
    by (simp add: dropped_def split: option.split)
  have ds: "datas ?s = (datas s)(p := None)" and int: "interest ?s = (interest s)(fd := None)" by (simp_all add: dropped_def)
  have "\<exists>e. datas ?s q = Some e \<and> md_fd e = f \<and> interest ?s f = Some (md_events e, q) \<and> link_ok ?s e" if q: "slot ?s f = Some q" for f q
  proof -
    have f: "f \<noteq> fd" "slot s f = Some q" using q by (auto simp: sl split: if_splits)
    then obtain e where e: "datas s q = Some e" "md_fd e = f" "interest s f = Some (md_events e, q)" "link_ok s e"
      using inv_slot [OF s] by blast
    then have "link_ok ?s e"
      using d f(1) by (intro link_ok_timeouts [OF e(4)]) (auto simp: ts link_ok_timer_of link_ok_def split: handler.splits)
    moreover have "q \<noteq> p" using e p(2) d(1) f(1) by auto
    ultimately show ?thesis using e f(1) by (auto simp: ds int)
  qed
  moreover have "slot ?s f = None \<Longrightarrow> interest ?s f = None" for f
    using inv_unwatched [OF s, of f] by (auto simp: sl int split: if_splits)
  moreover have "slot ?s (md_fd e) = Some q" if e: "datas ?s q = Some e" for q e
  proof -
    have "datas s q = Some e" "q \<noteq> p" using e by (auto simp: ds split: if_splits)
    then show ?thesis using inv_datas [OF s, of q e] p(1) by (auto simp: sl)
  qed
  moreover have "\<exists>q e. datas ?s q = Some e \<and> md_destroy e = Some (Timeout_destroy t)" if t: "timeouts ?s t = Some td" for t td
  proof -
    have "timeouts s t = Some td" and nt: "timer_of (md_destroy d) \<noteq> Some t" using t by (auto simp: ts split: if_splits)
    then obtain q e where "datas s q = Some e" "md_destroy e = Some (Timeout_destroy t)" using inv_timer [OF s] by blast
    moreover from this have "q \<noteq> p" using p(2) nt by auto
    ultimately show ?thesis by (auto simp: ds)
  qed
  moreover have "q < ml_brk ?s" if "q \<in> dom (datas ?s) \<or> q \<in> dom (timeouts ?s)" for q
    using that inv_below [OF s, of q] by (auto simp: ds ts dropped_def split: if_splits option.splits)
  moreover have "length (mainloop_list ?s) = MAX_MAINLOOP_ENTRIES" using inv_length [OF s] by (simp add: dropped_def)
  ultimately show ?thesis unfolding ml_inv_def by blast
qed

subsection \<open>The registry the loop implements\<close>

text \<open>
  What a client sees of the loop: which descriptors are watched, with which events and callbacks, whether
  the loop is to stop, and its status.
\<close>

datatype 'c watch = Watch 'c "'c option" | Timer 'c "'c option"

record 'c registry =
  reg :: "int \<rightharpoonup> u32 \<times> 'c watch"
  stopping :: bool
  status :: int

definition reg_free :: "'c registry \<Rightarrow> int \<Rightarrow> bool" where
  "reg_free r fd \<longleftrightarrow> \<not> fd_out_of_range fd \<and> reg r fd = None"

definition reg_remove :: "int \<Rightarrow> 'c registry \<Rightarrow> int \<times> 'c registry" where
  "reg_remove fd r =
     (if fd_out_of_range fd then (- EINVAL, r)
      else case reg r fd of None \<Rightarrow> (- ENXIO, r) | Some _ \<Rightarrow> (0, r\<lparr>reg := (reg r)(fd := None)\<rparr>))"

fun reg_exec :: "'c ml_call \<Rightarrow> 'c registry \<Rightarrow> int \<times> 'c registry" where
  "reg_exec (Add_fd e fd events cb destroy) r =
     (case cb of None \<Rightarrow> (- EINVAL, r)
      | Some c \<Rightarrow>
        if fd_out_of_range fd then (- EINVAL, r)
        else if \<not> malloc_ok e then (- ENOMEM, r)
        else if \<not> ctl_ok e \<or> reg r fd \<noteq> None then (-1, r)
        else (0, r\<lparr>reg := (reg r)(fd \<mapsto> (events, Watch c destroy))\<rparr>))"
| "reg_exec (Modify_fd fd events) r =
     (if fd_out_of_range fd then (- EINVAL, r)
      else case reg r fd of None \<Rightarrow> (- ENXIO, r) | Some (_, w) \<Rightarrow> (0, r\<lparr>reg := (reg r)(fd \<mapsto> (events, w))\<rparr>))"
| "reg_exec (Remove_fd fd) r = reg_remove fd r"
| "reg_exec (Add_timeout e msec cb destroy) r =
     (case cb of None \<Rightarrow> (- EINVAL, r)
      | Some c \<Rightarrow>
        if \<not> malloc_ok e then (- ENOMEM, r)
        else if (msec > 0 \<longrightarrow> settime_ok e) \<and> ctl_ok e \<and> reg_free r (timer_fd e)
        then (timer_fd e, r\<lparr>reg := (reg r)(timer_fd e \<mapsto> (EPOLLIN OR EPOLLONESHOT, Timer c destroy))\<rparr>)
        else (- EIO, r))"
| "reg_exec (Modify_timeout e tid msec) r =
     (case reg r tid of
        Some (_, w) \<Rightarrow> if msec > 0 \<longrightarrow> settime_ok e then (0, r\<lparr>reg := (reg r)(tid \<mapsto> (EPOLLIN OR EPOLLONESHOT, w))\<rparr>) else (- EIO, r)
      | None \<Rightarrow> (- EIO, r))"
| "reg_exec (Remove_timeout tid) r = reg_remove tid r"
| "reg_exec Quit r = (0, r\<lparr>stopping := True\<rparr>)"
| "reg_exec Exit_success r = (0, r\<lparr>status := 0, stopping := True\<rparr>)"
| "reg_exec Exit_failure r = (0, r\<lparr>status := 1, stopping := True\<rparr>)"

definition watch_of :: "(nat \<rightharpoonup> 'c timeout_data) \<Rightarrow> 'c mainloop_data \<Rightarrow> u32 \<times> 'c watch" where
  "watch_of ts d = (md_events d, case md_callback d of
      Handler c \<Rightarrow> Watch c (case md_destroy d of Some (Destroyer x) \<Rightarrow> Some x | _ \<Rightarrow> None)
    | Timeout_callback t \<Rightarrow> Timer (td_callback (the (ts t))) (td_destroy (the (ts t))))"

definition reg_of :: "'c mainloop \<Rightarrow> int \<rightharpoonup> u32 \<times> 'c watch" where
  "reg_of s fd = (case slot s fd of None \<Rightarrow> None | Some p \<Rightarrow> map_option (watch_of (timeouts s)) (datas s p))"

definition ml_rep :: "'c mainloop \<Rightarrow> 'c registry \<Rightarrow> bool" where
  "ml_rep s r \<longleftrightarrow> ml_inv s \<and> reg r = reg_of s \<and> stopping r = epoll_terminate s \<and> status r = exit_status s"

definition log_grows :: "'c mainloop \<Rightarrow> 'c mainloop \<Rightarrow> bool" where
  "log_grows s t \<longleftrightarrow> (\<exists>l. ml_log t = ml_log s @ l)"

lemma reg_of_None: "ml_inv s \<Longrightarrow> reg_of s fd = None \<longleftrightarrow> slot s fd = None"
  using inv_slot [of s fd] by (auto simp: reg_of_def split: option.splits)

text \<open>What the three changes of the tables do to the registry.\<close>

lemma watch_of_timeouts:
  assumes "link_ok s d" and "\<And>t td. md_callback d = Timeout_callback t \<Longrightarrow> timeouts s t = Some td \<Longrightarrow> ts t = Some td"
  shows "watch_of ts d = watch_of (timeouts s) d"
  using assms by (auto simp: watch_of_def link_ok_def split: handler.splits)

lemma reg_of_other:
  assumes "ml_inv s" and "slot t fd = slot s fd"
    and "\<And>p d. slot s fd = Some p \<Longrightarrow> datas s p = Some d \<Longrightarrow> datas t p = Some d"
    and "\<And>p d x td. slot s fd = Some p \<Longrightarrow> datas s p = Some d \<Longrightarrow> md_callback d = Timeout_callback x \<Longrightarrow> timeouts s x = Some td \<Longrightarrow> timeouts t x = Some td"
  shows "reg_of t fd = reg_of s fd"
proof (cases "slot s fd")
  case (Some p)
  then obtain d where "datas s p = Some d" "link_ok s d" using inv_slot [OF assms(1)] by blast
  then show ?thesis using Some assms watch_of_timeouts [of s d "timeouts t"] by (auto simp: reg_of_def)
qed (use assms(2) in \<open>auto simp: reg_of_def\<close>)

lemma reg_of_added:
  assumes "ml_inv s" and "\<not> fd_out_of_range (md_fd d)" and "datas s p = None" and "\<And>t td. timeouts s t = Some td \<Longrightarrow> ts t = Some td"
  shows "reg_of (added p d ts n s) = (reg_of s)(md_fd d \<mapsto> watch_of ts d)"
proof
  fix fd
  note sl = slot_upd [OF inv_length [OF assms(1)] assms(2), of "Some p"]
  show "reg_of (added p d ts n s) fd = ((reg_of s)(md_fd d \<mapsto> watch_of ts d)) fd"
  proof (cases "fd = md_fd d")
    case True
    then show ?thesis by (simp add: reg_of_def added_def sl)
  next
    case False
    have "reg_of (added p d ts n s) fd = reg_of s fd"
      using False assms(3,4) by (intro reg_of_other [OF assms(1)]) (auto simp: added_def sl)
    then show ?thesis using False by simp
  qed
qed

lemma reg_of_modified:
  assumes "ml_inv s" and "slot s fd = Some p" and "datas s p = Some d"
  shows "reg_of (s\<lparr>interest := i, datas := (datas s)(p \<mapsto> d\<lparr>md_events := ev\<rparr>)\<rparr>) = (reg_of s)(fd \<mapsto> (ev, snd (watch_of (timeouts s) d)))"
    (is "reg_of ?s = _")
proof
  fix f
  have d: "md_fd d = fd" using inv_slot [OF assms(1,2)] assms(3) by auto
  show "reg_of ?s f = ((reg_of s)(fd \<mapsto> (ev, snd (watch_of (timeouts s) d)))) f"
  proof (cases "f = fd")
    case True
    then show ?thesis using assms(2) by (simp add: reg_of_def watch_of_def split: handler.split)
  next
    case False
    have "reg_of ?s f = reg_of s f"
      using False d assms(3) inv_slot [OF assms(1), of f] by (intro reg_of_other [OF assms(1)]) auto
    then show ?thesis using False by simp
  qed
qed

lemma reg_of_dropped:
  assumes "ml_inv s" and "slot s fd = Some p" and "datas s p = Some d"
  shows "reg_of (dropped fd p d s) = (reg_of s)(fd := None)"
proof
  fix f
  have d: "md_fd d = fd" "link_ok s d" using inv_slot [OF assms(1,2)] assms(3) by auto
  note sl = slot_dropped [OF assms(1,2), of d]
  show "reg_of (dropped fd p d s) f = ((reg_of s)(fd := None)) f"
  proof (cases "f = fd")
    case True
    then show ?thesis by (simp add: reg_of_def sl)
  next
    case False
    have "reg_of (dropped fd p d s) f = reg_of s f"
    proof (rule reg_of_other [OF assms(1)])
      fix q e
      assume q: "slot s f = Some q" "datas s q = Some e"
      then have e: "md_fd e = f" "link_ok s e" using inv_slot [OF assms(1)] by force+
      then show "datas (dropped fd p d s) q = Some e" using q False d assms(3) by (auto simp: dropped_def)
      fix x td
      assume "md_callback e = Timeout_callback x" "timeouts s x = Some td"
      then show "timeouts (dropped fd p d s) x = Some td"
        using e d False by (auto simp: dropped_def link_ok_timer_of link_ok_def split: option.splits handler.splits)
    qed (use False in \<open>simp add: sl\<close>)
    then show ?thesis using False by simp
  qed
qed

subsection \<open>Every call implements its registry operation\<close>

definition ml_implements :: "'c ml_call \<Rightarrow> 'c mainloop \<Rightarrow> 'c registry \<Rightarrow> bool" where
  "ml_implements c s r \<longleftrightarrow> (\<exists>s'. ml_exec c s = Some (fst (reg_exec c r), s') \<and> ml_rep s' (snd (reg_exec c r)) \<and> log_grows s s')"

lemma log_grows_simps [simp]: "log_grows s s" "log_grows s (add_log x s)" "log_grows s (s\<lparr>epoll_terminate := b\<rparr>)"
  "log_grows s (s\<lparr>exit_status := e, epoll_terminate := b\<rparr>)" "log_grows s (add_log x (s\<lparr>epoll_terminate := b\<rparr>))"
  "log_grows s (s\<lparr>interest := i, datas := ds\<rparr>)" "log_grows s (added p d ts n s)" "log_grows s (dropped fd p d s)"
  by (auto simp: log_grows_def added_def dropped_def)

lemma reg_of_updates [simp]:
  "reg_of (s\<lparr>epoll_terminate := b\<rparr>) = reg_of s" "reg_of (s\<lparr>exit_status := e\<rparr>) = reg_of s" "reg_of (add_log x s) = reg_of s"
  by (simp_all add: reg_of_def fun_eq_iff split: option.split)

lemma repD: "ml_rep s r \<Longrightarrow> ml_inv s" "ml_rep s r \<Longrightarrow> reg r fd = reg_of s fd"
  by (simp_all add: ml_rep_def)

lemma rep_slot: "ml_rep s r \<Longrightarrow> reg r fd = None \<longleftrightarrow> slot s fd = None"
  using reg_of_None [of s fd] by (simp add: ml_rep_def)

lemma rep_log [simp]: "ml_rep (add_log x s) r = ml_rep s r"
  by (simp add: ml_rep_def)

text \<open>Adding to the tables, for a client and for a timer.\<close>

lemma add_fd_added:
  assumes "ml_inv s" and "slot s fd = None" and "\<not> fd_out_of_range fd" and "malloc_ok e" and "ctl_ok e"
  shows "mainloop_add_fd e fd ev (Some cb) de s
    = (0, added (ml_brk s) \<lparr>md_fd = fd, md_events = ev, md_callback = cb, md_destroy = de\<rparr> (timeouts s) (ml_brk s + 1) s)"
  using assms interest_slot [OF assms(1), of fd] by (simp add: mainloop_add_fd_def added_def)

lemma implements_add_fd:
  assumes "ml_rep s r"
  shows "ml_implements (Add_fd e fd ev cb de) s r"
proof (cases "cb = None \<or> fd_out_of_range fd \<or> \<not> malloc_ok e \<or> \<not> ctl_ok e \<or> slot s fd \<noteq> None")
  case True
  then show ?thesis using assms rep_slot [OF assms, of fd] interest_slot [OF repD(1) [OF assms], of fd]
    by (auto simp: ml_implements_def mainloop_add_fd_def split: option.splits)
next
  case False
  then obtain c where c: "cb = Some c" and ok: "\<not> fd_out_of_range fd" "malloc_ok e" "ctl_ok e" "slot s fd = None" by auto
  let ?d = "\<lparr>md_fd = fd, md_events = ev, md_callback = Handler c, md_destroy = map_option Destroyer de\<rparr>"
  let ?s = "added (ml_brk s) ?d (timeouts s) (ml_brk s + 1) s"
  note inv = repD(1) [OF assms]
  have "ml_inv ?s"
    using ok inv inv_below(2) [OF inv] by (intro add_inv) (auto simp: link_ok_def inv_fresh less_Suc_eq)
  moreover have "reg_of ?s = (reg_of s)(fd \<mapsto> (ev, Watch c de))"
    using reg_of_added [of s ?d "ml_brk s" "timeouts s" "ml_brk s + 1"] ok inv
    by (cases de) (auto simp: inv_fresh watch_of_def)
  moreover have "ml_exec (Add_fd e fd ev cb de) s = Some (0, ?s)"
    using ok c add_fd_added [OF inv ok(4,1,2,3)] by simp
  moreover have "reg_exec (Add_fd e fd ev cb de) r = (0, r\<lparr>reg := (reg r)(fd \<mapsto> (ev, Watch c de))\<rparr>)"
    using ok c rep_slot [OF assms, of fd] by simp
  ultimately show ?thesis using assms by (auto simp: ml_implements_def ml_rep_def) (simp_all add: added_def)
qed

lemma implements_modify_fd:
  assumes "ml_rep s r"
  shows "ml_implements (Modify_fd fd ev) s r"
proof -
  note inv = repD(1) [OF assms]
  show ?thesis
  proof (cases "slot s fd")
    case None
    then show ?thesis using assms rep_slot [OF assms, of fd] lst_slot [OF inv_length [OF inv], of fd]
      by (auto simp: ml_implements_def mainloop_modify_fd_def)
  next
    case (Some p)
    then obtain d where d: "datas s p = Some d" "md_fd d = fd" "interest s fd = Some (md_events d, p)"
      using inv_slot [OF inv] by blast
    let ?s = "s\<lparr>interest := (interest s)(fd \<mapsto> (ev, p)), datas := (datas s)(p \<mapsto> d\<lparr>md_events := ev\<rparr>)\<rparr>"
    have "reg r fd = Some (watch_of (timeouts s) d)" using repD(2) [OF assms, of fd] Some d(1) by (simp add: reg_of_def)
    then have "reg_exec (Modify_fd fd ev) r = (0, r\<lparr>reg := (reg r)(fd \<mapsto> (ev, snd (watch_of (timeouts s) d)))\<rparr>)"
      using slot_range [OF Some] by (simp split: prod.split)
    moreover have "ml_exec (Modify_fd fd ev) s = Some (0, ?s)"
      using Some d slot_range [OF Some] lst_slot [OF inv_length [OF inv]] by (auto simp: mainloop_modify_fd_def)
    ultimately show ?thesis
      using assms modify_inv [OF inv Some d(1)] reg_of_modified [OF inv Some d(1)]
      by (auto simp: ml_implements_def ml_rep_def)
  qed
qed

lemma implements_remove_fd:
  assumes "ml_rep s r"
  shows "ml_implements (Remove_fd fd) s r"
proof -
  note inv = repD(1) [OF assms]
  show ?thesis
  proof (cases "slot s fd")
    case None
    then show ?thesis using assms rep_slot [OF assms, of fd] lst_slot [OF inv_length [OF inv], of fd]
      by (auto simp: ml_implements_def mainloop_remove_fd_def reg_remove_def)
  next
    case (Some p)
    then obtain d where d: "datas s p = Some d" using inv_slot [OF inv] by blast
    have "reg r fd \<noteq> None" using rep_slot [OF assms, of fd] Some by simp
    then have "reg_exec (Remove_fd fd) r = (0, r\<lparr>reg := (reg r)(fd := None)\<rparr>)"
      using slot_range [OF Some] by (auto simp: reg_remove_def)
    moreover have "ml_exec (Remove_fd fd) s = Some (0, dropped fd p d s)"
      using Some slot_range [OF Some] lst_slot [OF inv_length [OF inv]] drop_data_dropped [OF inv Some d]
      by (simp add: mainloop_remove_fd_def)
    moreover have "epoll_terminate (dropped fd p d s) = epoll_terminate s" "exit_status (dropped fd p d s) = exit_status s"
      by (simp_all add: dropped_def)
    ultimately show ?thesis
      using assms dropped_inv [OF inv Some d] reg_of_dropped [OF inv Some d] by (auto simp: ml_implements_def ml_rep_def)
  qed
qed

lemma rep_brk: "ml_rep s r \<Longrightarrow> ml_rep (s\<lparr>ml_brk := ml_brk s + 1\<rparr>) r"
  by (auto simp: ml_rep_def ml_inv_def reg_of_def fun_eq_iff less_Suc_eq split: option.split)

lemma timeouts_undo [simp]: "ml_inv s \<Longrightarrow> (timeouts s)(ml_brk s := None) = timeouts s"
  by (simp add: inv_fresh fun_upd_idem)

text \<open>The state a new timer leaves, and the one an attempt leaves that the system refused.\<close>

definition armed :: "int \<Rightarrow> u32 \<Rightarrow> 'c mainloop \<Rightarrow> 'c mainloop" where
  "armed fd msec s = (if msec > 0 then add_log (Armed fd (msec div 1000) ((msec - (msec div 1000) * 1000) * 1000 * 1000)) s else s)"

lemma armed_simps [simp]:
  "ml_rep (armed fd msec s) r = ml_rep s r" "ml_inv (armed fd msec s) = ml_inv s" "log_grows s (armed fd msec s)"
  "datas (armed fd msec s) = datas s" "timeouts (armed fd msec s) = timeouts s" "interest (armed fd msec s) = interest s"
  "mainloop_list (armed fd msec s) = mainloop_list s" "ml_brk (armed fd msec s) = ml_brk s"
  "epoll_terminate (armed fd msec s) = epoll_terminate s" "exit_status (armed fd msec s) = exit_status s"
  by (simp_all add: armed_def)

definition given_up :: "int \<Rightarrow> 'c mainloop \<Rightarrow> 'c mainloop" where
  "given_up fd s = add_log (Closed fd) (s\<lparr>ml_brk := ml_brk s + 1\<rparr>)"

definition timer_data :: "int \<Rightarrow> nat \<Rightarrow> 'c mainloop_data" where
  "timer_data fd t = \<lparr>md_fd = fd, md_events = EPOLLIN OR EPOLLONESHOT, md_callback = Timeout_callback t, md_destroy = Some (Timeout_destroy t)\<rparr>"

lemma add_timeout_cases:
  assumes "ml_inv s" and "malloc_ok e" and "0 \<le> timer_fd e"
  shows "mainloop_add_timeout e msec (Some c) de s =
    (if msec > 0 \<and> \<not> settime_ok e then (- EIO, given_up (timer_fd e) s)
     else if \<not> ctl_ok e \<or> fd_out_of_range (timer_fd e) \<or> slot s (timer_fd e) \<noteq> None
     then (- EIO, given_up (timer_fd e) (armed (timer_fd e) msec s))
     else (timer_fd e, added (ml_brk s + 1) (timer_data (timer_fd e) (ml_brk s))
       ((timeouts s)(ml_brk s \<mapsto> \<lparr>td_fd = timer_fd e, td_callback = c, td_destroy = de\<rparr>)) (ml_brk s + 2) (armed (timer_fd e) msec s)))"
  using assms interest_slot [OF assms(1), of "timer_fd e"] timeouts_undo [OF assms(1)]
  by (cases "msec > 0"; cases "settime_ok e")
     (auto simp: mainloop_add_timeout_def timeout_set_def armed_def given_up_def added_def timer_data_def mainloop_add_fd_def add_log_def Let_def)

lemma implements_add_timeout:
  assumes "ml_rep s r"
  shows "ml_implements (Add_timeout e msec cb de) s r"
proof (cases "cb = None \<or> \<not> malloc_ok e \<or> timer_fd e < 0")
  case True
  then show ?thesis using assms
    by (auto simp: ml_implements_def mainloop_add_timeout_def reg_free_def fd_out_of_range_def split: option.splits)
next
  case False
  then obtain c where c: "cb = Some c" and ok: "malloc_ok e" "0 \<le> timer_fd e" by auto
  note inv = repD(1) [OF assms] and free = rep_slot [OF assms, of "timer_fd e"]
  let ?ok = "(msec > 0 \<longrightarrow> settime_ok e) \<and> ctl_ok e \<and> reg_free r (timer_fd e)"
  show ?thesis
  proof (cases ?ok)
    case False
    have "ml_rep (given_up (timer_fd e) t) r \<and> log_grows s (given_up (timer_fd e) t)" if "t = s \<or> t = armed (timer_fd e) msec s" for t
      using that assms rep_brk [of t r] by (auto simp: given_up_def log_grows_def armed_def)
    then show ?thesis using False free c ok add_timeout_cases [OF inv ok, of msec c de]
      by (auto simp: ml_implements_def reg_free_def)
  next
    case True
    let ?d = "timer_data (timer_fd e) (ml_brk s) :: 'a mainloop_data"
      and ?ts = "(timeouts s)(ml_brk s \<mapsto> \<lparr>td_fd = timer_fd e, td_callback = c, td_destroy = de\<rparr>)"
      and ?s = "armed (timer_fd e) msec s"
    let ?t = "added (ml_brk s + 1) ?d ?ts (ml_brk s + 2) ?s"
    have fresh: "datas s (ml_brk s + 1) = None" "timeouts s (ml_brk s) = None" using inv_fresh [OF inv] by auto
    have "ml_inv ?t"
      using True free inv fresh inv_below(2) [OF inv]
      by (intro add_inv) (auto simp: timer_data_def reg_free_def link_ok_def less_Suc_eq split: if_splits)
    moreover have "reg_of ?t = (reg_of s)(timer_fd e \<mapsto> (EPOLLIN OR EPOLLONESHOT, Timer c de))"
    proof -
      have "reg_of ?t = (reg_of ?s)(md_fd ?d \<mapsto> watch_of ?ts ?d)"
        using True inv fresh by (intro reg_of_added) (auto simp: timer_data_def reg_free_def)
      moreover have "reg_of ?s = reg_of s" by (simp add: armed_def)
      ultimately show ?thesis by (simp add: timer_data_def watch_of_def)
    qed
    moreover have "log_grows s ?t" by (simp add: log_grows_def added_def armed_def)
    ultimately show ?thesis using True free c ok add_timeout_cases [OF inv ok, of msec c de] assms
      by (auto simp: ml_implements_def reg_free_def ml_rep_def) (simp_all add: added_def)
  qed
qed

lemma implements_modify_timeout:
  assumes "ml_rep s r"
  shows "ml_implements (Modify_timeout e tid msec) s r"
proof (cases "msec > 0 \<and> \<not> settime_ok e")
  case True
  then show ?thesis using assms
    by (auto simp: ml_implements_def mainloop_modify_timeout_def timeout_set_def split: option.splits)
next
  case False
  then have set: "(if msec > 0 then timeout_set e tid msec s else (0, s)) = (0, armed tid msec s)"
    by (auto simp: timeout_set_def armed_def Let_def)
  have rep: "ml_rep (armed tid msec s) r" using assms by simp
  obtain s' where s': "ml_exec (Modify_fd tid (EPOLLIN OR EPOLLONESHOT)) (armed tid msec s)
      = Some (fst (reg_exec (Modify_fd tid (EPOLLIN OR EPOLLONESHOT)) r), s')"
    "ml_rep s' (snd (reg_exec (Modify_fd tid (EPOLLIN OR EPOLLONESHOT)) r))" "log_grows (armed tid msec s) s'"
    using implements_modify_fd [OF rep] unfolding ml_implements_def by blast
  have "fd_out_of_range tid \<Longrightarrow> reg r tid = None" using rep_slot [OF assms, of tid] by (simp add: slot_at_def)
  moreover have "log_grows s s'" using s'(3) by (auto simp: log_grows_def armed_def split: if_splits)
  ultimately show ?thesis using s'(1,2) set False
    by (auto simp: ml_implements_def mainloop_modify_timeout_def split: option.splits if_splits)
qed

lemma implements_stop:
  assumes "ml_rep s r"
  shows "ml_implements Quit s r" and "ml_implements Exit_success s r" and "ml_implements Exit_failure s r"
  using assms by (auto simp: ml_implements_def ml_rep_def mainloop_quit_def mainloop_exit_success_def mainloop_exit_failure_def)

lemma implements_remove_timeout: "ml_rep s r \<Longrightarrow> ml_implements (Remove_timeout tid) s r"
  using implements_remove_fd [of s r tid] by (simp add: ml_implements_def mainloop_remove_timeout_def)

lemma mainloop_implements: "ml_rep s r \<Longrightarrow> ml_implements c s r"
  by (cases c) (simp_all add: implements_add_fd implements_modify_fd implements_remove_fd implements_add_timeout
      implements_modify_timeout implements_remove_timeout implements_stop)

interpretation ml: simulation ml_exec reg_exec ml_rep log_grows
  by unfold_locales (use mainloop_implements in \<open>auto simp: ml_implements_def log_grows_def\<close>)

text \<open>
  C21. The loop implements its registry. From a state whose tables satisfy the invariant, every sequence of
  calls of the interface returns without touching freed memory, answers what the registry answers
  (0, the descriptor of a timer, or the error code of the failed check), and leaves tables that
  satisfy the invariant and hold exactly the registered descriptors; nothing observed is undone.
\<close>

theorem mainloop_refines_registry:
  assumes "ml_inv s"
  shows "\<exists>s'. run_calls ml_exec cs s = Some (fst (run_spec reg_exec cs \<lparr>reg = reg_of s, stopping = epoll_terminate s, status = exit_status s\<rparr>), s')
    \<and> ml_inv s' \<and> \<lparr>reg = reg_of s', stopping = epoll_terminate s', status = exit_status s'\<rparr>
        = snd (run_spec reg_exec cs \<lparr>reg = reg_of s, stopping = epoll_terminate s, status = exit_status s\<rparr>)
    \<and> (\<exists>l. ml_log s' = ml_log s @ l)"
proof -
  let ?r = "\<lparr>reg = reg_of s, stopping = epoll_terminate s, status = exit_status s\<rparr> :: 'a registry"
  have "ml_rep s ?r" using assms by (simp add: ml_rep_def)
  from ml.runs [OF this, of cs] show ?thesis by (auto simp: ml_rep_def log_grows_def)
qed

subsection \<open>Batches of events\<close>

text \<open>The descriptors a call takes out of the table.\<close>

fun removes :: "'c ml_call \<Rightarrow> int set" where
  "removes (Remove_fd fd) = {fd}"
| "removes (Remove_timeout tid) = {tid}"
| "removes _ = {}"

lemma add_fd_slot:
  assumes "ml_inv s" and "slot s fd = Some p" and "interest t = interest s" and "mainloop_list t = mainloop_list s"
  shows "slot (snd (mainloop_add_fd e f ev cb de t)) fd = Some p"
proof -
  have "fd \<in> dom (interest s)" using interest_slot [OF assms(1), of fd] assms(2) by simp
  then show ?thesis using assms inv_length [OF assms(1)]
    by (auto simp: mainloop_add_fd_def slot_upd split: option.split)
qed

lemma add_timeout_slot:
  assumes "ml_inv s" and "slot s fd = Some p"
  shows "slot (snd (mainloop_add_timeout e msec cb de s)) fd = Some p"
proof (cases "\<exists>c. cb = Some c \<and> malloc_ok e \<and> 0 \<le> timer_fd e")
  case True
  then obtain c where "cb = Some c" "malloc_ok e" "0 \<le> timer_fd e" by blast
  then show ?thesis using add_timeout_cases [OF assms(1), of e msec c de] assms(2) slot_upd [OF inv_length [OF assms(1)], of "timer_fd e"]
    by (auto simp: given_up_def added_def timer_data_def)
qed (use assms(2) in \<open>auto simp: mainloop_add_timeout_def split: option.split\<close>)

lemma remove_slot:
  assumes "ml_inv s" and "slot s fd = Some p" and "fd \<noteq> f" and "mainloop_remove_fd f s = Some (v, s')"
  shows "slot s' fd = Some p"
proof (cases "slot s f")
  case None
  then show ?thesis using assms(2,4) lst_slot [OF inv_length [OF assms(1)], of f]
    by (auto simp: mainloop_remove_fd_def split: if_splits)
next
  case (Some q)
  then obtain d where "datas s q = Some d" using inv_slot [OF assms(1)] by blast
  then have "s' = dropped f q d s"
    using assms(4) Some slot_range [OF Some] lst_slot [OF inv_length [OF assms(1)], of f] drop_data_dropped [OF assms(1) Some]
    by (auto simp: mainloop_remove_fd_def)
  then show ?thesis using slot_dropped [OF assms(1) Some] assms(2,3) by simp
qed

lemma exec_slot:
  assumes "ml_inv s" and "slot s fd = Some p" and "fd \<notin> removes c" and "ml_exec c s = Some (v, s')"
  shows "slot s' fd = Some p"
proof (cases c)
  case (Add_fd e f ev cb de)
  then show ?thesis using assms(4) add_fd_slot [OF assms(1,2), of s e f ev "map_option Handler cb" "map_option Destroyer de"] by auto
next
  case (Modify_fd f ev)
  then show ?thesis using assms by (auto simp: mainloop_modify_fd_def split: if_splits option.splits bind_splits)
next
  case (Add_timeout e msec cb de)
  then show ?thesis using assms(4) add_timeout_slot [OF assms(1,2), of e msec cb de] by auto
next
  case (Modify_timeout e tid msec)
  then show ?thesis using assms
    by (auto simp: mainloop_modify_timeout_def mainloop_modify_fd_def timeout_set_def Let_def split: if_splits option.splits bind_splits)
qed (use assms remove_slot [OF assms(1,2)] in
    \<open>auto simp: mainloop_quit_def mainloop_exit_success_def mainloop_exit_failure_def mainloop_remove_timeout_def\<close>)

lemma calls_safe:
  assumes "ml_inv s" and "\<forall>c \<in> set cs. removes c \<subseteq> {own}"
  shows "\<exists>rs s'. run_calls ml_exec cs s = Some (rs, s') \<and> ml_inv s' \<and> (\<forall>fd p. fd \<noteq> own \<longrightarrow> slot s fd = Some p \<longrightarrow> slot s' fd = Some p)"
  using assms
proof (induction cs arbitrary: s)
  case (Cons c cs)
  have "ml_rep s \<lparr>reg = reg_of s, stopping = epoll_terminate s, status = exit_status s\<rparr>" using Cons.prems(1) by (simp add: ml_rep_def)
  then obtain v s1 where c: "ml_exec c s = Some (v, s1)" "ml_inv s1"
    using mainloop_implements [of s _ c] unfolding ml_implements_def ml_rep_def by blast
  have "fd \<noteq> own \<Longrightarrow> slot s fd = Some p \<Longrightarrow> slot s1 fd = Some p" for fd p
    using exec_slot [OF Cons.prems(1) _ _ c(1), of fd p] Cons.prems(2) by auto
  then show ?case using Cons.IH [OF c(2)] Cons.prems(2) c(1) by fastforce
qed simp

text \<open>The descriptor of an event, and its callback.\<close>

lemma dispatch_safe:
  assumes inv: "ml_inv s" and own: "slot s own = Some (ev_data ev)"
    and local: "\<forall>c fd s. \<forall>call \<in> set (script c fd s). removes call \<subseteq> {fd}"
  shows "\<exists>s'. dispatch script ev s = Some s' \<and> ml_inv s' \<and> (\<forall>fd p. fd \<noteq> own \<longrightarrow> slot s fd = Some p \<longrightarrow> slot s' fd = Some p)"
proof -
  obtain d where d: "datas s (ev_data ev) = Some d" "md_fd d = own" "link_ok s d" using inv_slot [OF inv own] by blast
  have call: "\<exists>s'. run_callback script c own (add_log x s) = Some s' \<and> ml_inv s'
      \<and> (\<forall>fd p. fd \<noteq> own \<longrightarrow> slot s fd = Some p \<longrightarrow> slot s' fd = Some p)" for c x
    using calls_safe [of "add_log x s" "script c own (add_log x s)" own] inv local by (auto simp: run_callback_def)
  show ?thesis
  proof (cases "md_callback d")
    case (Handler c)
    then show ?thesis using d call by (simp add: dispatch_def)
  next
    case (Timeout_callback t)
    then obtain td where "timeouts s t = Some td" "td_fd td = own" using d by (auto simp: link_ok_def)
    then show ?thesis using d Timeout_callback inv call by (simp add: dispatch_def timeout_callback_def)
  qed
qed

text \<open>
  C25. Dispatching is safe for callbacks that only remove their own descriptor: when \<^verbatim>\<open>epoll_wait\<close> reports
  different watched descriptors, every callback of the batch runs on a live structure, and the tables
  satisfy the invariant afterwards.
\<close>

theorem batch_safe:
  assumes "ml_inv s" and "\<forall>ev \<in> set evs. \<exists>fd. slot s fd = Some (ev_data ev)" and "distinct (map ev_data evs)"
    and "\<forall>c fd s. \<forall>call \<in> set (script c fd s). removes call \<subseteq> {fd}"
  shows "\<exists>s'. dispatch_all script evs s = Some s' \<and> ml_inv s'"
  using assms(1-3)
proof (induction evs arbitrary: s)
  case (Cons ev evs)
  obtain own where own: "slot s own = Some (ev_data ev)" using Cons.prems(2) by auto
  obtain s1 where s1: "dispatch script ev s = Some s1" "ml_inv s1" "\<forall>fd p. fd \<noteq> own \<longrightarrow> slot s fd = Some p \<longrightarrow> slot s1 fd = Some p"
    using dispatch_safe [OF Cons.prems(1) own assms(4)] by blast
  have "\<exists>fd. slot s1 fd = Some (ev_data e)" if e: "e \<in> set evs" for e
  proof -
    obtain fd where "slot s fd = Some (ev_data e)" using Cons.prems(2) e by auto
    moreover have "ev_data e \<noteq> ev_data ev" using Cons.prems(3) e by (auto simp: image_iff)
    ultimately have "slot s1 fd = Some (ev_data e)" using s1(3) own by (metis option.inject)
    then show ?thesis by blast
  qed
  then show ?case using Cons.IH [OF s1(2)] Cons.prems(3) s1(1) by auto
qed simp

text \<open>
  A callback that removes another descriptor of the same batch makes the loop use a freed structure:
  the event of that descriptor is still dispatched, through the pointer \<^verbatim>\<open>epoll_wait\<close> had stored.
\<close>

theorem batch_use_after_free:
  assumes "ml_inv s" and "slot s a = Some p" and "datas s p = Some d" and "md_callback d = Handler c" and "slot s b = Some q" and "a \<noteq> b"
    and "\<forall>t. script c a t = [Remove_fd b]"
  shows "dispatch_all script [\<lparr>ev_data = p, ev_events = ea, ev_read_ok = ra\<rparr>, \<lparr>ev_data = q, ev_events = eb, ev_read_ok = rb\<rparr>] s = None"
proof -
  let ?s = "add_log (Called c a ea) s"
  have d: "md_fd d = a" using inv_slot [OF assms(1,2)] assms(3) by auto
  obtain e where e: "datas s q = Some e" using inv_slot [OF assms(1,5)] by blast
  have "ml_exec (Remove_fd b) ?s = Some (0, dropped b q e ?s)"
    using assms(1,5) e slot_range [OF assms(5)] lst_slot [OF inv_length [OF assms(1)], of b] drop_data_dropped [of ?s b q e]
    by (simp add: mainloop_remove_fd_def)
  moreover have "datas (dropped b q e ?s) q = None" by (simp add: dropped_def)
  ultimately show ?thesis using assms(3,4,7) d by (simp add: dispatch_def run_callback_def)
qed

subsection \<open>Leaving the loop\<close>

text \<open>What is observed when the table is emptied: the destroy callbacks of the registered descriptors, in order.\<close>

fun watch_log :: "int \<Rightarrow> (u32 \<times> 'c watch) option \<Rightarrow> 'c ml_out list" where
  "watch_log fd None = []"
| "watch_log fd (Some (_, Watch c de)) = map Destroyed (case de of Some x \<Rightarrow> [x] | None \<Rightarrow> [])"
| "watch_log fd (Some (_, Timer c de)) = Closed fd # map Destroyed (case de of Some x \<Rightarrow> [x] | None \<Rightarrow> [])"

lemma destroy_log_watch:
  assumes "link_ok s d"
  shows "destroy_log s d = watch_log (md_fd d) (Some (watch_of (timeouts s) d))"
proof (cases "md_callback d")
  case (Handler c)
  then have "timer_of (md_destroy d) = None" using link_ok_timer_of [OF assms] by simp
  then show ?thesis using Handler by (cases "md_destroy d" rule: timer_of.cases) (auto simp: destroy_log_def watch_of_def)
next
  case (Timeout_callback t)
  then show ?thesis using assms by (auto simp: destroy_log_def watch_of_def link_ok_def split: option.split)
qed

lemma drop_all_drops:
  assumes "ml_inv s" and "\<forall>i \<in> set is. i < MAX_MAINLOOP_ENTRIES" and "distinct is"
  shows "\<exists>s'. drop_all is s = Some s' \<and> ml_inv s' \<and> (\<forall>fd. slot s' fd = (if fd \<in> int ` set is then None else slot s fd))
    \<and> (\<forall>fd. reg_of s' fd = (if fd \<in> int ` set is then None else reg_of s fd))
    \<and> ml_log s' = ml_log s @ concat (map (\<lambda>i. watch_log (int i) (reg_of s (int i))) is)
    \<and> exit_status s' = exit_status s"
  using assms
proof (induction "is" arbitrary: s)
  case (Cons i "is")
  have range: "\<not> fd_out_of_range (int i)" using Cons.prems(2) by (simp add: fd_out_of_range_def)
  have get: "lst_get (mainloop_list s) i = Some (slot s (int i))"
    using lst_slot [OF inv_length [OF Cons.prems(1)] range] by simp
  show ?case
  proof (cases "slot s (int i)")
    case None
    have "(mainloop_list s)[i := None] = mainloop_list s" using None range list_update_id [of "mainloop_list s" i] by (simp add: slot_at_def)
    then have same: "s\<lparr>mainloop_list := (mainloop_list s)[i := None]\<rparr> = s" by simp
    show ?thesis using Cons.IH [OF Cons.prems(1)] Cons.prems(2,3) None reg_of_None [OF Cons.prems(1), of "int i"]
      by (auto simp: get same)
  next
    case (Some p)
    then obtain d where d: "datas s p = Some d" "md_fd d = int i" "link_ok s d" using inv_slot [OF Cons.prems(1)] by blast
    let ?s = "dropped (int i) p d s"
    have "drop_data p (s\<lparr>mainloop_list := (mainloop_list s)[i := None]\<rparr>) = Some (0, ?s)"
      using drop_data_dropped [OF Cons.prems(1) Some d(1)] by simp
    then have "drop_all (i # is) s = drop_all is ?s" using get Some by simp
    moreover obtain s' where ih: "drop_all is ?s = Some s'" "ml_inv s'"
      "\<forall>fd. slot s' fd = (if fd \<in> int ` set is then None else slot ?s fd)"
      "\<forall>fd. reg_of s' fd = (if fd \<in> int ` set is then None else reg_of ?s fd)"
      "ml_log s' = ml_log ?s @ concat (map (\<lambda>i. watch_log (int i) (reg_of ?s (int i))) is)" "exit_status s' = exit_status ?s"
      using Cons.IH [OF dropped_inv [OF Cons.prems(1) Some d(1)]] Cons.prems(2,3) by auto
    moreover have "ml_log s' = ml_log s @ concat (map (\<lambda>i. watch_log (int i) (reg_of s (int i))) (i # is))"
    proof -
      have "ml_log ?s = ml_log s @ watch_log (int i) (reg_of s (int i))"
        using destroy_log_watch [OF d(3)] d Some by (simp add: dropped_def reg_of_def)
      moreover have "map (\<lambda>i. watch_log (int i) (reg_of ?s (int i))) is = map (\<lambda>i. watch_log (int i) (reg_of s (int i))) is"
        using Cons.prems(3) reg_of_dropped [OF Cons.prems(1) Some d(1)] by auto
      ultimately show ?thesis using ih(5) by (simp only: list.map concat.simps append_assoc)
    qed
    moreover have "exit_status ?s = exit_status s" by (simp add: dropped_def)
    ultimately show ?thesis
      using slot_dropped [OF Cons.prems(1) Some, of d] reg_of_dropped [OF Cons.prems(1) Some d(1)] by (auto simp del: drop_all.simps)
  qed
qed simp

text \<open>
  Leaving the loop. A loop whose terminate flag is set returns its status after destroying every
  registered descriptor exactly once, in the order of the descriptors, and closing the timers; no
  structure, no timer and no watched descriptor is left.
\<close>

theorem mainloop_run_cleans_up:
  assumes "ml_inv s" and "epoll_terminate s"
  shows "\<exists>s'. mainloop_run script ws s = Some (Returned (exit_status s) s') \<and> datas s' = Map.empty \<and> timeouts s' = Map.empty
    \<and> interest s' = Map.empty \<and> epoll_fd s' = 0
    \<and> ml_log s' = ml_log s @ concat (map (\<lambda>i. watch_log (int i) (reg_of s (int i))) [0..<MAX_MAINLOOP_ENTRIES])"
proof -
  obtain s' where s': "drop_all [0..<MAX_MAINLOOP_ENTRIES] s = Some s'" "ml_inv s'"
    "\<forall>fd. slot s' fd = (if fd \<in> int ` set [0..<MAX_MAINLOOP_ENTRIES] then None else slot s fd)"
    "ml_log s' = ml_log s @ concat (map (\<lambda>i. watch_log (int i) (reg_of s (int i))) [0..<MAX_MAINLOOP_ENTRIES])"
    "exit_status s' = exit_status s"
    using drop_all_drops [OF assms(1), of "[0..<MAX_MAINLOOP_ENTRIES]"] by auto
  have none: "slot s' fd = None" for fd
  proof (cases "fd_out_of_range fd")
    case False
    then have "fd = int (nat fd)" "nat fd < MAX_MAINLOOP_ENTRIES" by (auto simp: fd_out_of_range_def)
    then have "fd \<in> int ` set [0..<MAX_MAINLOOP_ENTRIES]" by (metis atLeastLessThan_iff atLeast_upt image_eqI le0 lessThan_iff)
    then show ?thesis using s'(3) by simp
  qed (simp add: slot_at_def)
  have ds: "datas s' = Map.empty"
  proof
    fix p
    show "datas s' p = None" using inv_datas [OF s'(2), of p] none by (cases "datas s' p") auto
  qed
  moreover have "timeouts s' = Map.empty"
  proof
    fix t
    show "timeouts s' t = None" using inv_timer [OF s'(2), of t] ds by (cases "timeouts s' t") auto
  qed
  moreover have "interest s' = Map.empty" using inv_unwatched [OF s'(2) none] by blast
  moreover have "run_loop script ws s = Some s" using assms(2) by (cases ws) auto
  ultimately show ?thesis using s' assms(2) by (auto simp: mainloop_run_def simp del: upt_rec_numeral)
qed

subsection \<open>A loop with two descriptors\<close>

definition loop_zero :: "string mainloop" where
  "loop_zero = \<lparr>epoll_fd = 0, epoll_terminate = False, exit_status = 0, mainloop_list = [], datas = Map.empty, timeouts = Map.empty,
     ml_brk = 0, interest = Map.empty, ml_log = []\<rparr>"

definition demo_env :: os_env where
  "demo_env = \<lparr>malloc_ok = True, ctl_ok = True, timer_fd = 9, settime_ok = True\<rparr>"

lemma mainloop_init_inv: "ml_inv (mainloop_init 5 loop_zero)"
  by (auto simp: ml_inv_def mainloop_init_def loop_zero_def slot_at_def fd_out_of_range_def)

lemma reg_of_init: "reg_of (mainloop_init 5 loop_zero) = Map.empty"
  by (auto simp: reg_of_def mainloop_init_def loop_zero_def fun_eq_iff slot_at_def fd_out_of_range_def)

theorem mainloop_refines_registry_witness:
  "\<exists>s'. run_calls ml_exec [Add_fd demo_env 7 EPOLLIN (Some ''a'') None, Add_timeout demo_env 1500 (Some ''t'') None, Modify_fd 8 EPOLLIN,
      Add_fd demo_env 200 EPOLLIN (Some ''b'') None, Remove_fd 7, Exit_failure] (mainloop_init 5 loop_zero)
    = Some ([0, 9, - ENXIO, - EINVAL, 0, 0], s') \<and> ml_inv s' \<and> epoll_terminate s' \<and> exit_status s' = 1
    \<and> reg_of s' = [9 \<mapsto> (EPOLLIN OR EPOLLONESHOT, Timer ''t'' None)]"
proof -
  have flags: "epoll_terminate (mainloop_init 5 loop_zero) = False" "exit_status (mainloop_init 5 loop_zero) = 0"
    by (simp_all add: mainloop_init_def loop_zero_def)
  have none: "(Map.empty :: int \<rightharpoonup> u32 \<times> string watch)(7 \<mapsto> w, 9 \<mapsto> v, 7 := None) = [9 \<mapsto> v]" for w v
    by (auto simp: fun_eq_iff)
  show ?thesis
    using mainloop_refines_registry [OF mainloop_init_inv, of "[Add_fd demo_env 7 EPOLLIN (Some ''a'') None, Add_timeout demo_env 1500 (Some ''t'') None,
      Modify_fd 8 EPOLLIN, Add_fd demo_env 200 EPOLLIN (Some ''b'') None, Remove_fd 7, Exit_failure]"]
    by (simp add: reg_of_init flags demo_env_def reg_free_def fd_out_of_range_def reg_remove_def none) blast
qed

definition demo_loop :: "string mainloop" where
  "demo_loop = snd (mainloop_add_fd demo_env 8 EPOLLIN (Some (Handler ''b'')) (Some (Destroyer ''b''))
     (snd (mainloop_add_fd demo_env 7 EPOLLIN (Some (Handler ''a'')) None (mainloop_init 5 loop_zero))))"

lemma demo_loop_facts: "ml_inv demo_loop" "slot demo_loop 7 = Some 0" "slot demo_loop 8 = Some 1"
  "datas demo_loop 0 = Some \<lparr>md_fd = 7, md_events = EPOLLIN, md_callback = Handler ''a'', md_destroy = None\<rparr>"
proof -
  have "ml_rep (mainloop_init 5 loop_zero) \<lparr>reg = Map.empty, stopping = False, status = 0\<rparr>"
    using mainloop_init_inv reg_of_init by (simp add: ml_rep_def) (simp add: mainloop_init_def loop_zero_def)
  then obtain rs s' where "run_calls ml_exec [Add_fd demo_env 7 EPOLLIN (Some ''a'') None, Add_fd demo_env 8 EPOLLIN (Some ''b'') (Some ''b'')]
      (mainloop_init 5 loop_zero) = Some (rs, s')" "ml_inv s'"
    using ml.runs [of "mainloop_init 5 loop_zero"] unfolding ml_rep_def by blast
  then show "ml_inv demo_loop" by (auto simp: demo_loop_def split_beta)
  show "slot demo_loop 7 = Some 0" "slot demo_loop 8 = Some 1"
    "datas demo_loop 0 = Some \<lparr>md_fd = 7, md_events = EPOLLIN, md_callback = Handler ''a'', md_destroy = None\<rparr>"
    by (simp_all add: demo_loop_def mainloop_add_fd_def demo_env_def mainloop_init_def loop_zero_def fd_out_of_range_def slot_at_def
        nth_list_update)
qed

theorem batch_safe_witness:
  "\<exists>s'. dispatch_all (\<lambda>c fd s. [Remove_fd fd, Quit])
      [\<lparr>ev_data = 1, ev_events = EPOLLIN, ev_read_ok = True\<rparr>, \<lparr>ev_data = 0, ev_events = EPOLLIN, ev_read_ok = True\<rparr>] demo_loop
    = Some s' \<and> ml_inv s'"
  using demo_loop_facts by (intro batch_safe) auto

theorem batch_use_after_free_witness:
  "dispatch_all (\<lambda>c fd s. if c = ''a'' then [Remove_fd 8] else [])
      [\<lparr>ev_data = 0, ev_events = EPOLLIN, ev_read_ok = True\<rparr>, \<lparr>ev_data = 1, ev_events = EPOLLIN, ev_read_ok = True\<rparr>] demo_loop = None"
  by (rule batch_use_after_free [OF demo_loop_facts(1,2,4) _ demo_loop_facts(3)]) simp_all

theorem mainloop_run_cleans_up_witness:
  "\<exists>s'. mainloop_run (\<lambda>c fd s. []) [] (mainloop_quit demo_loop) = Some (Returned (exit_status demo_loop) s') \<and> datas s' = Map.empty
    \<and> interest s' = Map.empty"
  using mainloop_run_cleans_up [of "mainloop_quit demo_loop" "\<lambda>c fd s. []" "[]"] demo_loop_facts(1)
  by (auto simp: mainloop_quit_def)

end
