(* ===== verification/Att.thy ===== *)
theory Att
  imports Prelude "HOL-Library.Multiset"
begin

text \<open>
  The ATT protocol layer under the GATT client and server, \<^verbatim>\<open>bluez_deps/src/shared/att.c\<close>: queues of
  operations, the request and the indication that wait for their answer, the callbacks, and the
  handlers of the socket.

  The record \<^verbatim>\<open>att\<close> is the object a client holds, with its one channel: \<^verbatim>\<open>bt_att_attach_fd\<close>, which adds
  more, is never called in the repository. The queues are lists, which is what \<^verbatim>\<open>Bt_Queue\<close> shows of
  \<^verbatim>\<open>queue.c\<close>. A callback with its \<^verbatim>\<open>user_data\<close> is a name \<^typ>\<open>'u\<close>; the argument \<^verbatim>\<open>script\<close> says which
  calls of this interface a callback makes, depending on what it is told and on the state. Destroy callbacks only
  release what belongs to their client. The log records what is observed from outside. Every operation
  carries the number of its allocation, so that the log can say which operation was sent, answered and
  freed. \<^term>\<open>None\<close> is a use of freed or uninitialised memory.
\<close>

subsection \<open>Opcodes\<close>

datatype att_op_type = ATT_OP_TYPE_REQ | ATT_OP_TYPE_RSP | ATT_OP_TYPE_CMD | ATT_OP_TYPE_IND | ATT_OP_TYPE_NFY
  | ATT_OP_TYPE_CONF | ATT_OP_TYPE_UNKNOWN

abbreviation "BT_ATT_OP_ERROR_RSP \<equiv> (0x01 :: byte)"
abbreviation "BT_ATT_OP_MTU_REQ \<equiv> (0x02 :: byte)"
abbreviation "BT_ATT_OP_HANDLE_CONF \<equiv> (0x1E :: byte)"
abbreviation "BT_ATT_OP_SIGNED_WRITE_CMD \<equiv> (0xD2 :: byte)"
abbreviation "ATT_OP_CMD_MASK \<equiv> (0x40 :: byte)"
abbreviation "ATT_OP_SIGNED_MASK \<equiv> (0x80 :: byte)"
abbreviation "BT_ATT_ALL_REQUESTS \<equiv> (0 :: byte)"
abbreviation "BT_ATT_SIGNATURE_LEN \<equiv> (12 :: nat)"
abbreviation "BT_ATT_DEFAULT_LE_MTU \<equiv> (23 :: u16)"
abbreviation "BT_ATT_BREDR \<equiv> (0 :: byte)"
abbreviation "BT_ATT_LE \<equiv> (1 :: byte)"
abbreviation "BT_ATT_LOCAL \<equiv> (0xFF :: byte)"
abbreviation "ENOTCONN \<equiv> (107 :: int)"

definition att_opcode_type_table :: "(byte \<times> att_op_type) list" where
  "att_opcode_type_table =
    [(0x01, ATT_OP_TYPE_RSP), (0x02, ATT_OP_TYPE_REQ), (0x03, ATT_OP_TYPE_RSP), (0x04, ATT_OP_TYPE_REQ), (0x05, ATT_OP_TYPE_RSP),
     (0x06, ATT_OP_TYPE_REQ), (0x07, ATT_OP_TYPE_RSP), (0x08, ATT_OP_TYPE_REQ), (0x09, ATT_OP_TYPE_RSP), (0x0A, ATT_OP_TYPE_REQ),
     (0x0B, ATT_OP_TYPE_RSP), (0x0C, ATT_OP_TYPE_REQ), (0x0D, ATT_OP_TYPE_RSP), (0x0E, ATT_OP_TYPE_REQ), (0x0F, ATT_OP_TYPE_RSP),
     (0x10, ATT_OP_TYPE_REQ), (0x11, ATT_OP_TYPE_RSP), (0x12, ATT_OP_TYPE_REQ), (0x13, ATT_OP_TYPE_RSP), (0x52, ATT_OP_TYPE_CMD),
     (0xD2, ATT_OP_TYPE_CMD), (0x16, ATT_OP_TYPE_REQ), (0x17, ATT_OP_TYPE_RSP), (0x18, ATT_OP_TYPE_REQ), (0x19, ATT_OP_TYPE_RSP),
     (0x1B, ATT_OP_TYPE_NFY), (0x23, ATT_OP_TYPE_NFY), (0x1D, ATT_OP_TYPE_IND), (0x1E, ATT_OP_TYPE_CONF)]"

definition get_op_type :: "byte \<Rightarrow> att_op_type" where
  "get_op_type opcode =
     (case map_of att_opcode_type_table opcode of Some t \<Rightarrow> t
      | None \<Rightarrow> if opcode AND ATT_OP_CMD_MASK \<noteq> 0 then ATT_OP_TYPE_CMD else ATT_OP_TYPE_UNKNOWN)"

definition att_req_rsp_mapping_table :: "(byte \<times> byte) list" where
  "att_req_rsp_mapping_table =
    [(0x02, 0x03), (0x04, 0x05), (0x06, 0x07), (0x08, 0x09), (0x0A, 0x0B), (0x0C, 0x0D), (0x0E, 0x0F), (0x10, 0x11),
     (0x12, 0x13), (0x16, 0x17), (0x18, 0x19)]"

definition get_req_opcode :: "byte \<Rightarrow> byte" where
  "get_req_opcode rsp_opcode =
     (case find (\<lambda>(_, r). r = rsp_opcode) att_req_rsp_mapping_table of Some (q, _) \<Rightarrow> q | None \<Rightarrow> 0)"

subsection \<open>State\<close>

record 'u att_send_op =
  op_key :: nat
  op_id :: u32
  op_timeout_id :: bool
  op_type :: att_op_type
  op_opcode :: byte
  op_pdu :: "byte list"
  op_callback :: "'u option"
  op_destroy :: "'u option"

record 'u att_notify =
  nt_key :: nat
  nt_id :: u32
  nt_opcode :: byte
  nt_callback :: "'u option"
  nt_destroy :: "'u option"

record 'u att_disconn =
  dc_id :: u32
  dc_removed :: bool
  dc_callback :: "'u option"
  dc_destroy :: "'u option"

record 'u bt_att_chan =
  ch_type :: byte
  ch_sec_level :: int
  ch_queue :: "'u att_send_op list"
  pending_req :: "'u att_send_op option"
  pending_ind :: "'u att_send_op option"
  writer_active :: bool
  in_req :: bool
  ch_mtu :: u16

text \<open>The log: operations by their number, clients by name.\<close>

datatype 'u att_out =
    Wrote nat att_op_type "byte list" int
  | Response nat 'u byte "byte list"
  | Freed nat
  | Retried nat
  | Timed_out 'u u32 byte
  | Notified 'u byte "byte list"
  | Disconnected 'u int
  | Released 'u
  | Shutdown

text \<open>
  \<^verbatim>\<open>chan\<close> is \<^term>\<open>None\<close> once the channel is freed; \<^verbatim>\<open>attached\<close> says that it is in \<^verbatim>\<open>att->chans\<close>. The
  system's answers are fields: the security level of the socket (\<^term>\<open>None\<close> when \<^verbatim>\<open>getsockopt\<close> fails),
  whether it can be changed, and whether a write handler can be installed. A signing key comes with
  its counter; \<^verbatim>\<open>crypto\<close> computes the signature of a message under a key and a counter.
\<close>

record 'u att =
  ref_count :: int
  alive :: bool
  chan :: "'u bt_att_chan option"
  attached :: bool
  att_mtu :: u16
  notify_list :: "'u att_notify list"
  disconn_list :: "'u att_disconn list"
  next_send_id :: u32
  next_reg_id :: u32
  req_queue :: "'u att_send_op list"
  ind_queue :: "'u att_send_op list"
  write_queue :: "'u att_send_op list"
  timeout_callback :: "'u option"
  timeout_destroy :: "'u option"
  crypto :: "(byte list \<Rightarrow> byte list \<Rightarrow> u32 \<Rightarrow> byte list option) option"
  local_sign :: "(byte list \<times> u32 option) option"
  remote_sign :: "(byte list \<times> (u32 \<Rightarrow> u32 option)) option"
  sock_security :: "int option"
  set_security_ok :: bool
  set_write_handler_ok :: bool
  op_brk :: nat
  nt_brk :: nat
  att_log :: "'u att_out list"

definition att_say :: "'u att_out \<Rightarrow> 'u att \<Rightarrow> 'u att" where
  "att_say x s = s\<lparr>att_log := att_log s @ [x]\<rparr>"

definition upd_chan :: "('u bt_att_chan \<Rightarrow> 'u bt_att_chan) \<Rightarrow> 'u att \<Rightarrow> 'u att option" where
  "upd_chan f s = do { ch \<leftarrow> chan s; Some (s\<lparr>chan := Some (f ch)\<rparr>) }"

subsection \<open>Operations to send\<close>

definition release :: "'u option \<Rightarrow> 'u att \<Rightarrow> 'u att" where
  "release u s = (case u of Some u \<Rightarrow> att_say (Released u) s | None \<Rightarrow> s)"

definition destroy_att_send_op :: "'u att_send_op \<Rightarrow> 'u att \<Rightarrow> 'u att" where
  "destroy_att_send_op op s = att_say (Freed (op_key op)) (release (op_destroy op) s)"

definition cancel_att_send_op :: "'u att_send_op \<Rightarrow> 'u att \<Rightarrow> 'u att_send_op \<times> 'u att" where
  "cancel_att_send_op op s = (op\<lparr>op_callback := None, op_destroy := None\<rparr>, release (op_destroy op) s)"

text \<open>
  \<^verbatim>\<open>encode_pdu\<close>. The length is a 16-bit number; when it wraps, the buffer is smaller than what is copied into
  it. With a key but without \<^verbatim>\<open>crypto\<close> the signature is never written. The result is \<^term>\<open>Some None\<close> when the code returns false.
\<close>

definition encode_pdu :: "'u att \<Rightarrow> byte \<Rightarrow> byte list \<Rightarrow> byte list option option" where
  "encode_pdu s opcode pdu =
     (let signed = (local_sign s \<noteq> None \<and> opcode AND ATT_OP_SIGNED_MASK \<noteq> 0);
          n = 1 + (if signed then BT_ATT_SIGNATURE_LEN else 0) + length pdu
      in if n mod 2 ^ 16 > unat (att_mtu s) then Some None
         else if n \<ge> 2 ^ 16 then None
         else if \<not> signed then Some (Some (opcode # pdu))
         else case (crypto s, local_sign s) of
             (Some sign, Some (key, Some cnt)) \<Rightarrow> Some (map_option (\<lambda>sig. opcode # pdu @ sig) (sign key (opcode # pdu) cnt))
           | (Some sign, Some (key, None)) \<Rightarrow> Some None
           | _ \<Rightarrow> None)"

definition create_att_send_op :: "'u att \<Rightarrow> byte \<Rightarrow> byte list \<Rightarrow> 'u option \<Rightarrow> 'u option \<Rightarrow> 'u att_send_op option option" where
  "create_att_send_op s opcode pdu callback destroy =
     (let type = get_op_type opcode
      in if type = ATT_OP_TYPE_UNKNOWN then Some None
         else if callback \<noteq> None \<and> type \<noteq> ATT_OP_TYPE_REQ \<and> type \<noteq> ATT_OP_TYPE_IND then Some None
         else if callback = None \<and> (type = ATT_OP_TYPE_REQ \<or> type = ATT_OP_TYPE_IND) then Some None
         else do {
           p \<leftarrow> encode_pdu s opcode pdu;
           Some (map_option (\<lambda>b. \<lparr>op_key = op_brk s, op_id = 0, op_timeout_id = False, op_type = type, op_opcode = opcode,
             op_pdu = b, op_callback = callback, op_destroy = destroy\<rparr>) p)
         })"

definition pick_next_send_op :: "'u att \<Rightarrow> ('u att_send_op option \<times> 'u att) option" where
  "pick_next_send_op s = do {
     ch \<leftarrow> chan s;
     let fits = (\<lambda>q. q \<noteq> [] \<and> length (op_pdu (hd q)) \<le> unat (ch_mtu ch));
     Some (case ch_queue ch of
         op # q \<Rightarrow> (Some op, s\<lparr>chan := Some (ch\<lparr>ch_queue := q\<rparr>)\<rparr>)
       | [] \<Rightarrow>
           if fits (write_queue s) then (Some (hd (write_queue s)), s\<lparr>write_queue := tl (write_queue s)\<rparr>)
           else if pending_req ch = None \<and> fits (req_queue s) then (Some (hd (req_queue s)), s\<lparr>req_queue := tl (req_queue s)\<rparr>)
           else if pending_ind ch = None \<and> fits (ind_queue s) then (Some (hd (ind_queue s)), s\<lparr>ind_queue := tl (ind_queue s)\<rparr>)
           else (None, s))
   }"

definition wakeup_chan_writer :: "'u att \<Rightarrow> 'u att option" where
  "wakeup_chan_writer s = do {
     ch \<leftarrow> chan s;
     Some (if writer_active ch then s
       else if ch_queue ch = [] \<and> write_queue s = [] \<and> (pending_req ch \<noteq> None \<or> req_queue s = []) \<and> (pending_ind ch \<noteq> None \<or> ind_queue s = [])
       then s
       else if \<not> set_write_handler_ok s then s
       else s\<lparr>chan := Some (ch\<lparr>writer_active := True\<rparr>)\<rparr>)
   }"

definition wakeup_writer :: "'u att \<Rightarrow> 'u att option" where
  "wakeup_writer s = (if attached s then wakeup_chan_writer s else Some s)"

subsection \<open>Calls of the clients\<close>

definition bt_att_send :: "byte \<Rightarrow> byte list \<Rightarrow> 'u option \<Rightarrow> 'u option \<Rightarrow> 'u att \<Rightarrow> (u32 \<times> 'u att) option" where
  "bt_att_send opcode pdu callback destroy s =
     (if \<not> attached s then Some (0, s)
      else do {
        r \<leftarrow> create_att_send_op s opcode pdu callback destroy;
        case r of None \<Rightarrow> Some (0, s)
        | Some op \<Rightarrow> do {
            let id = (if next_send_id s < 1 then 1 else next_send_id s);
            let op = op\<lparr>op_id := id\<rparr>;
            let s = s\<lparr>next_send_id := id + 1, op_brk := op_brk s + 1\<rparr>;
            let s = (case op_type op of ATT_OP_TYPE_REQ \<Rightarrow> s\<lparr>req_queue := req_queue s @ [op]\<rparr>
              | ATT_OP_TYPE_IND \<Rightarrow> s\<lparr>ind_queue := ind_queue s @ [op]\<rparr>
              | _ \<Rightarrow> s\<lparr>write_queue := write_queue s @ [op]\<rparr>);
            s \<leftarrow> wakeup_writer s;
            Some (id, s)
          }
      })"

definition bt_att_chan_send :: "byte \<Rightarrow> byte list \<Rightarrow> 'u option \<Rightarrow> 'u option \<Rightarrow> 'u att \<Rightarrow> (u32 \<times> 'u att) option" where
  "bt_att_chan_send opcode pdu callback destroy s = do {
     r \<leftarrow> create_att_send_op s opcode pdu callback destroy;
     case r of None \<Rightarrow> Some (word_of_int (- EINVAL), s)
     | Some op \<Rightarrow> do {
         s \<leftarrow> upd_chan (\<lambda>ch. ch\<lparr>ch_queue := ch_queue ch @ [op]\<rparr>) (s\<lparr>op_brk := op_brk s + 1\<rparr>);
         s \<leftarrow> wakeup_chan_writer s;
         Some (op_id op, s)
       }
   }"

text \<open>Taking the first element with a property out of a list, as \<^verbatim>\<open>queue_remove_if\<close> does.\<close>

definition take_if :: "('a \<Rightarrow> bool) \<Rightarrow> 'a list \<Rightarrow> ('a \<times> 'a list) option" where
  "take_if P xs = (case List.extract P xs of Some (us, x, vs) \<Rightarrow> Some (x, us @ vs) | None \<Rightarrow> None)"

definition bt_att_chan_cancel :: "u32 \<Rightarrow> 'u att \<Rightarrow> (bool \<times> 'u att) option" where
  "bt_att_chan_cancel rid s = do {
     ch \<leftarrow> chan s;
     let hit = (\<lambda>p. case p of Some op \<Rightarrow> op_id op = rid | None \<Rightarrow> False);
     if hit (pending_req ch) then
       (let (op, s) = cancel_att_send_op (the (pending_req ch)) s in Some (True, s\<lparr>chan := Some (ch\<lparr>pending_req := Some op\<rparr>)\<rparr>))
     else if hit (pending_ind ch) then
       (let (op, s) = cancel_att_send_op (the (pending_ind ch)) s in Some (True, s\<lparr>chan := Some (ch\<lparr>pending_ind := Some op\<rparr>)\<rparr>))
     else case take_if (\<lambda>op. op_id op = rid) (ch_queue ch) of
         None \<Rightarrow> Some (False, s)
       | Some (op, q) \<Rightarrow> do {
           s \<leftarrow> wakeup_chan_writer (destroy_att_send_op op (s\<lparr>chan := Some (ch\<lparr>ch_queue := q\<rparr>)\<rparr>));
           Some (True, s)
         }
   }"

definition bt_att_cancel :: "u32 \<Rightarrow> 'u att \<Rightarrow> (bool \<times> 'u att) option" where
  "bt_att_cancel rid s =
     (if rid = 0 then Some (False, s)
      else do {
        (found, s) \<leftarrow> (if attached s then bt_att_chan_cancel rid s else Some (False, s));
        if found then Some (True, s)
        else case take_if (\<lambda>op. op_id op = rid) (req_queue s) of
            Some (op, q) \<Rightarrow> do { s \<leftarrow> wakeup_writer (destroy_att_send_op op (s\<lparr>req_queue := q\<rparr>)); Some (True, s) }
          | None \<Rightarrow> (case take_if (\<lambda>op. op_id op = rid) (ind_queue s) of
                Some (op, q) \<Rightarrow> do { s \<leftarrow> wakeup_writer (destroy_att_send_op op (s\<lparr>ind_queue := q\<rparr>)); Some (True, s) }
              | None \<Rightarrow> (case take_if (\<lambda>op. op_id op = rid) (write_queue s) of
                    Some (op, q) \<Rightarrow> do { s \<leftarrow> wakeup_writer (destroy_att_send_op op (s\<lparr>write_queue := q\<rparr>)); Some (True, s) }
                  | None \<Rightarrow> Some (False, s)))
      })"

definition cancel_pending :: "'u att \<Rightarrow> 'u att" where
  "cancel_pending s =
     (case chan s of None \<Rightarrow> s
      | Some ch \<Rightarrow>
        (let (req, s) = (case pending_req ch of Some op \<Rightarrow> apfst Some (cancel_att_send_op op s) | None \<Rightarrow> (None, s));
             (ind, s) = (case pending_ind ch of Some op \<Rightarrow> apfst Some (cancel_att_send_op op s) | None \<Rightarrow> (None, s))
         in s\<lparr>chan := Some (ch\<lparr>pending_req := req, pending_ind := ind\<rparr>)\<rparr>))"

definition bt_att_cancel_all :: "'u att \<Rightarrow> 'u att" where
  "bt_att_cancel_all s =
     (let s = fold destroy_att_send_op (req_queue s) (s\<lparr>req_queue := []\<rparr>);
          s = fold destroy_att_send_op (ind_queue s) (s\<lparr>ind_queue := []\<rparr>);
          s = fold destroy_att_send_op (write_queue s) (s\<lparr>write_queue := []\<rparr>)
      in if attached s then cancel_pending s else s)"

definition bt_att_register :: "byte \<Rightarrow> 'u option \<Rightarrow> 'u option \<Rightarrow> 'u att \<Rightarrow> u32 \<times> 'u att" where
  "bt_att_register opcode callback destroy s =
     (if callback = None \<or> \<not> attached s then (0, s)
      else (let id = (if next_reg_id s < 1 then 1 else next_reg_id s)
            in (id, s\<lparr>next_reg_id := id + 1, nt_brk := nt_brk s + 1, notify_list := notify_list s
                 @ [\<lparr>nt_key = nt_brk s, nt_id = id, nt_opcode = opcode, nt_callback = callback, nt_destroy = destroy\<rparr>]\<rparr>)))"

definition bt_att_unregister :: "u32 \<Rightarrow> 'u att \<Rightarrow> bool \<times> 'u att" where
  "bt_att_unregister rid s =
     (if rid = 0 then (False, s)
      else case take_if (\<lambda>n. nt_id n = rid) (notify_list s) of None \<Rightarrow> (False, s)
      | Some (n, q) \<Rightarrow> (True, release (nt_destroy n) (s\<lparr>notify_list := q\<rparr>)))"

definition bt_att_unregister_all :: "'u att \<Rightarrow> 'u att" where
  "bt_att_unregister_all s =
     (let s = fold (\<lambda>n. release (nt_destroy n)) (notify_list s) (s\<lparr>notify_list := []\<rparr>)
      in fold (\<lambda>d. release (dc_destroy d)) (disconn_list s) (s\<lparr>disconn_list := []\<rparr>))"

definition bt_att_register_disconnect :: "'u option \<Rightarrow> 'u option \<Rightarrow> 'u att \<Rightarrow> u32 \<times> 'u att" where
  "bt_att_register_disconnect callback destroy s =
     (if \<not> attached s then (0, s)
      else (let id = (if next_reg_id s < 1 then 1 else next_reg_id s)
            in (id, s\<lparr>next_reg_id := id + 1, disconn_list := disconn_list s
                 @ [\<lparr>dc_id = id, dc_removed = False, dc_callback = callback, dc_destroy = destroy\<rparr>]\<rparr>)))"

definition bt_att_unregister_disconnect :: "u32 \<Rightarrow> 'u att \<Rightarrow> bool \<times> 'u att" where
  "bt_att_unregister_disconnect rid s =
     (if rid = 0 then (False, s)
      else case List.extract (\<lambda>d. dc_id d = rid) (disconn_list s) of None \<Rightarrow> (False, s)
      | Some (us, d, vs) \<Rightarrow>
          if \<not> attached s then (True, s\<lparr>disconn_list := us @ d\<lparr>dc_removed := True\<rparr> # vs\<rparr>)
          else (True, release (dc_destroy d) (s\<lparr>disconn_list := us @ vs\<rparr>)))"

definition bt_att_set_mtu :: "u16 \<Rightarrow> 'u att \<Rightarrow> (bool \<times> 'u att) option" where
  "bt_att_set_mtu mtu s =
     (if mtu < BT_ATT_DEFAULT_LE_MTU then Some (False, s)
      else if \<not> attached s then Some (True, s)
      else do {
        s \<leftarrow> upd_chan (\<lambda>ch. ch\<lparr>ch_mtu := mtu\<rparr>) s;
        Some (True, if mtu > att_mtu s then s\<lparr>att_mtu := mtu\<rparr> else s)
      })"

definition bt_att_set_timeout_cb :: "'u option \<Rightarrow> 'u option \<Rightarrow> 'u att \<Rightarrow> bool \<times> 'u att" where
  "bt_att_set_timeout_cb callback destroy s =
     (True, (release (timeout_destroy s) s)\<lparr>timeout_callback := callback, timeout_destroy := destroy\<rparr>)"

definition bt_att_chan_get_security :: "'u att \<Rightarrow> 'u bt_att_chan \<Rightarrow> int" where
  "bt_att_chan_get_security s ch =
     (if ch_type ch = BT_ATT_LOCAL then ch_sec_level ch else case sock_security s of None \<Rightarrow> - EIO | Some l \<Rightarrow> l)"

definition bt_att_chan_set_security :: "int \<Rightarrow> 'u att \<Rightarrow> 'u bt_att_chan \<Rightarrow> bool \<times> 'u att" where
  "bt_att_chan_set_security level s ch =
     (if ch_type ch = BT_ATT_LOCAL then (True, s\<lparr>chan := Some (ch\<lparr>ch_sec_level := level\<rparr>)\<rparr>)
      else if set_security_ok s then (True, s\<lparr>sock_security := Some level\<rparr>) else (False, s))"

definition bt_att_set_security :: "int \<Rightarrow> 'u att \<Rightarrow> (bool \<times> 'u att) option" where
  "bt_att_set_security level s =
     (if level < 0 \<or> level > 3 then Some (False, s)
      else if \<not> attached s then Some (True, s)
      else do { ch \<leftarrow> chan s; Some (bt_att_chan_set_security level s ch) })"

text \<open>The error response of a server: error numbers of the system are mapped to codes of the protocol.\<close>

definition att_ecode_from_error :: "int \<Rightarrow> byte" where
  "att_ecode_from_error err =
     (if err > 0 \<and> err < 255 then word_of_int err
      else if err = - 2 then 0x01
      else if err = - 12 then 0x11
      else if err = - 114 then 0xFE
      else if err = - 75 then 0xFF
      else 0x0E)"

definition bt_att_chan_send_error_rsp :: "byte \<Rightarrow> u16 \<Rightarrow> int \<Rightarrow> 'u att \<Rightarrow> (int \<times> 'u att) option" where
  "bt_att_chan_send_error_rsp opcode handle error s =
     (if opcode = 0 then Some (- EINVAL, s)
      else do {
        (r, s) \<leftarrow> bt_att_chan_send BT_ATT_OP_ERROR_RSP
          [opcode, ucast handle, ucast (drop_bit 8 handle), att_ecode_from_error error] None None s;
        Some (sint r, s)
      })"

definition bt_att_set_local_key :: "byte list \<Rightarrow> u32 option \<Rightarrow> 'u att \<Rightarrow> bool \<times> 'u att" where
  "bt_att_set_local_key sign_key counter s = (True, s\<lparr>local_sign := Some (sign_key, counter)\<rparr>)"

definition bt_att_set_remote_key :: "byte list \<Rightarrow> (u32 \<Rightarrow> u32 option) \<Rightarrow> 'u att \<Rightarrow> bool \<times> 'u att" where
  "bt_att_set_remote_key sign_key counter s = (True, s\<lparr>remote_sign := Some (sign_key, counter)\<rparr>)"

subsection \<open>References\<close>

definition bt_att_chan_free :: "'u att \<Rightarrow> 'u att option" where
  "bt_att_chan_free s = do {
     ch \<leftarrow> chan s;
     let s = (case pending_req ch of Some op \<Rightarrow> destroy_att_send_op op s | None \<Rightarrow> s);
     let s = (case pending_ind ch of Some op \<Rightarrow> destroy_att_send_op op s | None \<Rightarrow> s);
     let s = fold destroy_att_send_op (ch_queue ch) s;
     Some (s\<lparr>chan := None\<rparr>)
   }"

definition bt_att_free :: "'u att \<Rightarrow> 'u att option" where
  "bt_att_free s = do {
     let s = release (timeout_destroy s) s;
     let s = s\<lparr>req_queue := [], ind_queue := [], write_queue := [], notify_list := [], disconn_list := []\<rparr>;
     s \<leftarrow> (if attached s then bt_att_chan_free s else Some s);
     Some (s\<lparr>attached := False, alive := False\<rparr>)
   }"

definition bt_att_ref :: "'u att \<Rightarrow> 'u att" where
  "bt_att_ref s = s\<lparr>ref_count := ref_count s + 1\<rparr>"

definition bt_att_unref :: "'u att \<Rightarrow> 'u att option" where
  "bt_att_unref s =
     (let dead = \<not> alive s; s = s\<lparr>ref_count := ref_count s - 1\<rparr>
      in if dead then None else if ref_count s \<noteq> 0 then Some s else bt_att_free (bt_att_cancel_all (bt_att_unregister_all s)))"

subsection \<open>Callbacks\<close>

datatype 'u att_api = Send byte "byte list" "'u option" "'u option" | Chan_send byte "byte list" "'u option" "'u option"
  | Cancel u32 | Chan_cancel u32 | Cancel_all | Register byte "'u option" "'u option" | Unregister u32 | Unregister_all
  | Register_disconnect "'u option" "'u option" | Unregister_disconnect u32 | Set_mtu u16 | Set_security int
  | Set_timeout_cb "'u option" "'u option" | Send_error_rsp byte u16 int | Set_local_key "byte list" "u32 option"
  | Set_remote_key "byte list" "u32 \<Rightarrow> u32 option" | Ref | Unref

fun att_call :: "'u att_api \<Rightarrow> 'u att \<Rightarrow> 'u att option" where
  "att_call (Send opcode pdu cb de) s = map_option snd (bt_att_send opcode pdu cb de s)"
| "att_call (Chan_send opcode pdu cb de) s = map_option snd (bt_att_chan_send opcode pdu cb de s)"
| "att_call (Cancel rid) s = map_option snd (bt_att_cancel rid s)"
| "att_call (Chan_cancel rid) s = map_option snd (bt_att_chan_cancel rid s)"
| "att_call Cancel_all s = Some (bt_att_cancel_all s)"
| "att_call (Register opcode cb de) s = Some (snd (bt_att_register opcode cb de s))"
| "att_call (Unregister rid) s = Some (snd (bt_att_unregister rid s))"
| "att_call Unregister_all s = Some (bt_att_unregister_all s)"
| "att_call (Register_disconnect cb de) s = Some (snd (bt_att_register_disconnect cb de s))"
| "att_call (Unregister_disconnect rid) s = Some (snd (bt_att_unregister_disconnect rid s))"
| "att_call (Set_mtu mtu) s = map_option snd (bt_att_set_mtu mtu s)"
| "att_call (Set_security level) s = map_option snd (bt_att_set_security level s)"
| "att_call (Set_timeout_cb cb de) s = Some (snd (bt_att_set_timeout_cb cb de s))"
| "att_call (Send_error_rsp opcode handle error) s = map_option snd (bt_att_chan_send_error_rsp opcode handle error s)"
| "att_call (Set_local_key key counter) s = Some (snd (bt_att_set_local_key key counter s))"
| "att_call (Set_remote_key key counter) s = Some (snd (bt_att_set_remote_key key counter s))"
| "att_call Ref s = Some (bt_att_ref s)"
| "att_call Unref s = bt_att_unref s"

text \<open>A call on an object that was freed is undefined.\<close>

definition att_exec :: "'u att_api \<Rightarrow> 'u att \<Rightarrow> 'u att option" where
  "att_exec c s = (if alive s then att_call c s else None)"

fun att_execs :: "'u att_api list \<Rightarrow> 'u att \<Rightarrow> 'u att option" where
  "att_execs [] s = Some s"
| "att_execs (c # cs) s = do { s \<leftarrow> att_exec c s; att_execs cs s }"

type_synonym 'u att_script = "'u att_out \<Rightarrow> 'u att \<Rightarrow> 'u att_api list"

definition att_callback :: "'u att_script \<Rightarrow> 'u att_out \<Rightarrow> 'u att \<Rightarrow> 'u att option" where
  "att_callback script x s = (let s = att_say x s in att_execs (script x s) s)"

definition respond :: "'u att_script \<Rightarrow> 'u att_send_op \<Rightarrow> byte \<Rightarrow> byte list \<Rightarrow> 'u att \<Rightarrow> 'u att option" where
  "respond script op opcode pdu s =
     (case op_callback op of Some u \<Rightarrow> att_callback script (Response (op_key op) u opcode pdu) s | None \<Rightarrow> Some s)"

definition disc_att_send_op :: "'u att_script \<Rightarrow> 'u att_send_op \<Rightarrow> 'u att \<Rightarrow> 'u att option" where
  "disc_att_send_op script op s = do {
     s \<leftarrow> respond script op BT_ATT_OP_ERROR_RSP [] s;
     Some (destroy_att_send_op op s)
   }"

fun disc_all :: "'u att_script \<Rightarrow> 'u att_send_op list \<Rightarrow> 'u att \<Rightarrow> 'u att option" where
  "disc_all script [] s = Some s"
| "disc_all script (op # ops) s = do { s \<leftarrow> disc_att_send_op script op s; disc_all script ops s }"

text \<open>
  The end of the pending request and of the pending indication. The operation is still pending while its
  callback runs, which may cancel it; its fields are read again afterwards.
\<close>

definition end_req :: "'u att_script \<Rightarrow> byte \<Rightarrow> byte list \<Rightarrow> 'u att \<Rightarrow> 'u att option" where
  "end_req script opcode pdu s = do {
     ch \<leftarrow> chan s;
     op \<leftarrow> pending_req ch;
     s \<leftarrow> respond script op opcode pdu s;
     ch \<leftarrow> chan s;
     op \<leftarrow> pending_req ch;
     Some (destroy_att_send_op op (s\<lparr>chan := Some (ch\<lparr>pending_req := None\<rparr>)\<rparr>))
   }"

definition end_ind :: "'u att_script \<Rightarrow> byte \<Rightarrow> byte list \<Rightarrow> 'u att \<Rightarrow> 'u att option" where
  "end_ind script opcode pdu s = do {
     ch \<leftarrow> chan s;
     op \<leftarrow> pending_ind ch;
     s \<leftarrow> respond script op opcode pdu s;
     ch \<leftarrow> chan s;
     op \<leftarrow> pending_ind ch;
     Some (destroy_att_send_op op (s\<lparr>chan := Some (ch\<lparr>pending_ind := None\<rparr>)\<rparr>))
   }"

subsection \<open>Handlers of the socket and the timers\<close>

definition timeout_cb :: "'u att_script \<Rightarrow> u32 \<Rightarrow> 'u att \<Rightarrow> 'u att option" where
  "timeout_cb script rid s = do {
     ch \<leftarrow> chan s;
     let hit = (\<lambda>p. case p of Some op \<Rightarrow> op_id op = rid | None \<Rightarrow> False);
     let found = (if hit (pending_req ch) then Some (the (pending_req ch), ch\<lparr>pending_req := None\<rparr>)
                  else if hit (pending_ind ch) then Some (the (pending_ind ch), ch\<lparr>pending_ind := None\<rparr>) else None);
     case found of None \<Rightarrow> Some s
     | Some (op, ch) \<Rightarrow> do {
         let s = s\<lparr>chan := Some ch\<rparr>;
         s \<leftarrow> (case timeout_callback s of Some u \<Rightarrow> att_callback script (Timed_out u (op_id op) (op_opcode op)) s | None \<Rightarrow> Some s);
         s \<leftarrow> disc_att_send_op script op s;
         _ \<leftarrow> chan s;
         Some (att_say Shutdown s)
       }
   }"

text \<open>\<^verbatim>\<open>can_write_data\<close>, with the result of \<^verbatim>\<open>io_send\<close>. Only 0 counts as a failure; a negative error number is taken for success.\<close>

definition can_write_data :: "'u att_script \<Rightarrow> int \<Rightarrow> 'u att \<Rightarrow> (bool \<times> 'u att) option" where
  "can_write_data script ret s = do {
     (p, s) \<leftarrow> pick_next_send_op s;
     case p of None \<Rightarrow> Some (False, s)
     | Some op \<Rightarrow>
         if ret = 0 then do {
           s \<leftarrow> respond script op BT_ATT_OP_ERROR_RSP [] s;
           Some (True, destroy_att_send_op op s)
         } else do {
           let s = att_say (Wrote (op_key op) (op_type op) (op_pdu op) ret) s;
           s \<leftarrow> (case op_type op of
               ATT_OP_TYPE_REQ \<Rightarrow> upd_chan (\<lambda>ch. ch\<lparr>pending_req := Some (op\<lparr>op_timeout_id := True\<rparr>)\<rparr>) s
             | ATT_OP_TYPE_IND \<Rightarrow> upd_chan (\<lambda>ch. ch\<lparr>pending_ind := Some (op\<lparr>op_timeout_id := True\<rparr>)\<rparr>) s
             | ATT_OP_TYPE_RSP \<Rightarrow> do { s \<leftarrow> upd_chan (\<lambda>ch. ch\<lparr>in_req := False\<rparr>) s; Some (destroy_att_send_op op s) }
             | _ \<Rightarrow> Some (destroy_att_send_op op s));
           Some (True, s)
         }
   }"

text \<open>A write event: a handler that returns false is taken away, which resets \<^verbatim>\<open>writer_active\<close>.\<close>

definition write_event :: "'u att_script \<Rightarrow> int \<Rightarrow> 'u att \<Rightarrow> 'u att option" where
  "write_event script ret s = do {
     (more, s) \<leftarrow> can_write_data script ret s;
     if more then Some s else upd_chan (\<lambda>ch. ch\<lparr>writer_active := False\<rparr>) s
   }"

definition change_security :: "byte \<Rightarrow> 'u att \<Rightarrow> 'u bt_att_chan \<Rightarrow> bool \<times> 'u att" where
  "change_security ecode s ch =
     (if ch_sec_level ch \<noteq> 0 then (False, s)
      else (let security = bt_att_chan_get_security s ch
            in if ecode = 0x0F \<and> security < 2 then bt_att_chan_set_security 2 s ch
               else if ecode = 0x05 then
                 (if security < 2 then bt_att_chan_set_security 2 s ch
                  else if security < 3 then bt_att_chan_set_security 3 s ch
                  else if security < 4 then bt_att_chan_set_security 4 s ch
                  else (False, s))
               else (False, s)))"

text \<open>\<^verbatim>\<open>handle_error_rsp\<close>: whether the request is tried again, and the opcode of the request the error is about.\<close>

definition handle_error_rsp :: "byte list \<Rightarrow> 'u att \<Rightarrow> (bool \<times> byte \<times> 'u att) option" where
  "handle_error_rsp pdu s =
     (if length pdu \<noteq> 4 then Some (False, 0, s)
      else do {
        ch \<leftarrow> chan s;
        let (changed, s) = change_security (pdu ! 3) s ch;
        if \<not> changed then Some (False, pdu ! 0, s)
        else do {
          ch \<leftarrow> chan s;
          op \<leftarrow> pending_req ch;
          let s = s\<lparr>chan := Some (ch\<lparr>pending_req := None\<rparr>), req_queue := op\<lparr>op_timeout_id := False\<rparr> # req_queue s\<rparr>;
          Some (True, pdu ! 0, att_say (Retried (op_key op)) s)
        }
      })"

definition handle_rsp :: "'u att_script \<Rightarrow> byte \<Rightarrow> byte list \<Rightarrow> 'u att \<Rightarrow> 'u att option" where
  "handle_rsp script opcode pdu s = do {
     ch \<leftarrow> chan s;
     case pending_req ch of None \<Rightarrow> Some (att_say Shutdown s)
     | Some op \<Rightarrow> do {
         (retry, req_opcode, s) \<leftarrow> (if opcode = BT_ATT_OP_ERROR_RSP then handle_error_rsp pdu s else Some (False, get_req_opcode opcode, s));
         if retry then wakeup_chan_writer s
         else do {
           s \<leftarrow> (if req_opcode = 0 \<or> req_opcode \<noteq> op_opcode op then end_req script BT_ATT_OP_ERROR_RSP [] s else end_req script opcode pdu s);
           wakeup_chan_writer s
         }
       }
   }"

definition handle_conf :: "'u att_script \<Rightarrow> byte list \<Rightarrow> 'u att \<Rightarrow> 'u att option" where
  "handle_conf script pdu s = do {
     ch \<leftarrow> chan s;
     if pending_ind ch = None \<or> pdu \<noteq> [] then Some (att_say Shutdown s)
     else do {
       s \<leftarrow> end_ind script BT_ATT_OP_HANDLE_CONF [] s;
       wakeup_chan_writer s
     }
   }"

definition opcode_match :: "byte \<Rightarrow> byte \<Rightarrow> bool" where
  "opcode_match opcode test_opcode \<longleftrightarrow>
     opcode = BT_ATT_ALL_REQUESTS \<and> get_op_type test_opcode \<in> {ATT_OP_TYPE_REQ, ATT_OP_TYPE_CMD} \<or> opcode = test_opcode"

definition respond_not_supported :: "byte \<Rightarrow> 'u att \<Rightarrow> 'u att option" where
  "respond_not_supported opcode s = map_option snd (bt_att_send BT_ATT_OP_ERROR_RSP [opcode, 0, 0, 0x06] None None s)"

text \<open>\<^verbatim>\<open>handle_signed\<close>; the counter is the first four bytes of the signature. The signature that is computed is not compared with the received one.\<close>

definition le32 :: "byte list \<Rightarrow> u32" where
  "le32 b = word_of_int (b2i (b ! 0) + 2 ^ 8 * b2i (b ! 1) + 2 ^ 16 * b2i (b ! 2) + 2 ^ 24 * b2i (b ! 3))"

definition handle_signed :: "byte list \<Rightarrow> 'u att \<Rightarrow> bool" where
  "handle_signed pdu s =
     (if length pdu < 2 + BT_ATT_SIGNATURE_LEN then False
      else case remote_sign s of None \<Rightarrow> False
      | Some (key, counter) \<Rightarrow>
          (let n = length pdu - BT_ATT_SIGNATURE_LEN
           in case counter (le32 (drop n pdu)) of None \<Rightarrow> False
              | Some cnt \<Rightarrow> (case crypto s of None \<Rightarrow> False | Some sign \<Rightarrow> sign key (take n pdu) cnt \<noteq> None)))"

definition bt_att_get_link_type :: "'u att \<Rightarrow> byte" where
  "bt_att_get_link_type s =
     (if attached s then (case chan s of Some ch \<Rightarrow> ch_type ch | None \<Rightarrow> 0) else word_of_int (- ENOTCONN))"

text \<open>The loop over the registered handlers; the entry is found by the number of its allocation.\<close>

definition next_key :: "nat \<Rightarrow> 'u att_notify list \<Rightarrow> nat option" where
  "next_key k ns = (case dropWhile (\<lambda>n. nt_key n \<noteq> k) ns of _ # n # _ \<Rightarrow> Some (nt_key n) | _ \<Rightarrow> None)"

partial_function (option) notify_loop :: "'u att_script \<Rightarrow> byte \<Rightarrow> byte list \<Rightarrow> bool \<Rightarrow> nat option \<Rightarrow> 'u att \<Rightarrow> (bool \<times> 'u att) option" where
  "notify_loop script opcode pdu found key s =
     (case key of None \<Rightarrow> Some (found, s)
      | Some k \<Rightarrow> do {
          n \<leftarrow> find (\<lambda>n. nt_key n = k) (notify_list s);
          let nxt = next_key k (notify_list s);
          if \<not> opcode_match (nt_opcode n) opcode then notify_loop script opcode pdu found nxt s
          else if bt_att_get_link_type s = BT_ATT_BREDR \<and> opcode = BT_ATT_OP_MTU_REQ then Some (found, s)
          else do {
            s' \<leftarrow> (case nt_callback n of Some u \<Rightarrow> att_callback script (Notified u opcode pdu) s | None \<Rightarrow> Some s);
            if notify_list s' = [] then Some (True, s') else notify_loop script opcode pdu True nxt s'
          }
        })"

definition handle_notify :: "'u att_script \<Rightarrow> byte \<Rightarrow> byte list \<Rightarrow> 'u att \<Rightarrow> 'u att option" where
  "handle_notify script opcode pdu s =
     (let check = (opcode AND ATT_OP_SIGNED_MASK \<noteq> 0 \<and> crypto s = None)
      in if check \<and> \<not> handle_signed pdu s then Some s
         else do {
           let pdu = (if check then take (length pdu - BT_ATT_SIGNATURE_LEN) pdu else pdu);
           (found, s) \<leftarrow> notify_loop script opcode pdu False (case notify_list s of [] \<Rightarrow> None | n # _ \<Rightarrow> Some (nt_key n)) (bt_att_ref s);
           s \<leftarrow> (if \<not> found \<and> get_op_type opcode \<noteq> ATT_OP_TYPE_CMD then respond_not_supported opcode s else Some s);
           bt_att_unref s
         })"

text \<open>\<^verbatim>\<open>can_read_data\<close>, with what \<^verbatim>\<open>read\<close> returned: \<^term>\<open>None\<close> on an error.\<close>

definition can_read_data :: "'u att_script \<Rightarrow> byte list option \<Rightarrow> 'u att \<Rightarrow> 'u att option" where
  "can_read_data script buf s =
     (case buf of None \<Rightarrow> Some s | Some [] \<Rightarrow> Some s
      | Some (opcode # pdu) \<Rightarrow> do {
          ch \<leftarrow> chan s;
          let s = bt_att_ref s;
          case get_op_type opcode of
            ATT_OP_TYPE_RSP \<Rightarrow> do { s \<leftarrow> handle_rsp script opcode pdu s; bt_att_unref s }
          | ATT_OP_TYPE_CONF \<Rightarrow> do { s \<leftarrow> handle_conf script pdu s; bt_att_unref s }
          | ATT_OP_TYPE_REQ \<Rightarrow>
              if in_req ch then bt_att_unref (att_say Shutdown s)
              else do { s \<leftarrow> handle_notify script opcode pdu (s\<lparr>chan := Some (ch\<lparr>in_req := True\<rparr>)\<rparr>); bt_att_unref s }
          | _ \<Rightarrow> do { s \<leftarrow> handle_notify script opcode pdu s; bt_att_unref s }
        })"

fun disconn_loop :: "'u att_script \<Rightarrow> int \<Rightarrow> nat \<Rightarrow> nat \<Rightarrow> 'u att \<Rightarrow> 'u att option" where
  "disconn_loop script err i 0 s = Some s"
| "disconn_loop script err i (Suc n) s =
     (if disconn_list s = [] then Some s
      else do {
        d \<leftarrow> lst_get (disconn_list s) i;
        s \<leftarrow> (case dc_callback d of Some u \<Rightarrow> if dc_removed d then Some s else att_callback script (Disconnected u err) s | None \<Rightarrow> Some s);
        disconn_loop script err (Suc i) n s
      })"

definition disconnect_cb :: "'u att_script \<Rightarrow> int \<Rightarrow> 'u att \<Rightarrow> 'u att option" where
  "disconnect_cb script err s = do {
     let s = s\<lparr>attached := False\<rparr>;
     s \<leftarrow> disc_all script (req_queue s) (s\<lparr>req_queue := []\<rparr>);
     s \<leftarrow> (if alive s then disc_all script (ind_queue s) (s\<lparr>ind_queue := []\<rparr>) else None);
     s \<leftarrow> (if alive s then disc_all script (write_queue s) (s\<lparr>write_queue := []\<rparr>) else None);
     ch \<leftarrow> chan s;
     s \<leftarrow> (if pending_req ch = None then Some s else end_req script BT_ATT_OP_ERROR_RSP [] s);
     ch \<leftarrow> chan s;
     s \<leftarrow> (if pending_ind ch = None then Some s else end_ind script BT_ATT_OP_ERROR_RSP [] s);
     s \<leftarrow> bt_att_chan_free s;
     if \<not> alive s then None
     else do {
       s \<leftarrow> disconn_loop script err 0 (length (disconn_list s)) (bt_att_ref s);
       bt_att_unref (bt_att_unregister_all s)
     }
   }"

subsection \<open>Opening\<close>

text \<open>
  \<^verbatim>\<open>bt_att_chan_new\<close>, with the type of the link, the MTU the system reports for it, and whether the
  handlers can be installed; and \<^verbatim>\<open>bt_att_new\<close>, whose other arguments are the answers of the system.
\<close>

definition bt_att_chan_new :: "byte \<Rightarrow> u16 \<Rightarrow> bool \<Rightarrow> 'u bt_att_chan option" where
  "bt_att_chan_new type io_mtu io_ok =
     (let mtu = (if type = BT_ATT_LOCAL \<or> type = BT_ATT_LE then BT_ATT_DEFAULT_LE_MTU else io_mtu)
      in if \<not> io_ok \<or> mtu < BT_ATT_DEFAULT_LE_MTU then None
         else Some \<lparr>ch_type = type, ch_sec_level = (if type = BT_ATT_LOCAL then 1 else 0), ch_queue = [],
           pending_req = None, pending_ind = None, writer_active = False, in_req = False, ch_mtu = mtu\<rparr>)"

definition bt_att_new :: "byte \<Rightarrow> u16 \<Rightarrow> bool \<Rightarrow> (byte list \<Rightarrow> byte list \<Rightarrow> u32 \<Rightarrow> byte list option) option \<Rightarrow> int option \<Rightarrow> bool \<Rightarrow> bool \<Rightarrow> 'u att option" where
  "bt_att_new type io_mtu io_ok crypt security set_security set_write = do {
     ch \<leftarrow> bt_att_chan_new type io_mtu io_ok;
     Some \<lparr>ref_count = 1, alive = True, chan = Some ch, attached = True, att_mtu = ch_mtu ch, notify_list = [], disconn_list = [],
       next_send_id = 0, next_reg_id = 0, req_queue = [], ind_queue = [], write_queue = [], timeout_callback = None,
       timeout_destroy = None, crypto = crypt, local_sign = None, remote_sign = None, sock_security = security,
       set_security_ok = set_security, set_write_handler_ok = set_write, op_brk = 0, nt_brk = 0, att_log = []\<rparr>
   }"

end
