(* ===== verification/Att_Invariant.thy ===== *)
theory Att_Invariant
  imports Att
begin

text \<open>
  What the ATT layer guarantees in every reachable state: every operation is in exactly one place or freed, is freed
  once and answered at most once, and at most one request and one indication wait for their answer. The
  invariant has two parameters for the states inside a handler: the operations the handler holds in its
  hands, and those whose answer is being delivered.
\<close>

subsection \<open>What the log says\<close>

definition freed :: "'u att_out list \<Rightarrow> nat list" where
  "freed l = concat (map (\<lambda>x. case x of Freed k \<Rightarrow> [k] | _ \<Rightarrow> []) l)"

definition responded :: "'u att_out list \<Rightarrow> nat list" where
  "responded l = concat (map (\<lambda>x. case x of Response k _ _ _ \<Rightarrow> [k] | _ \<Rightarrow> []) l)"

text \<open>The operations of a type that were written and neither freed nor taken back since.\<close>

definition outstanding :: "att_op_type \<Rightarrow> 'u att_out list \<Rightarrow> nat set" where
  "outstanding t l = fold (\<lambda>x S. case x of Wrote k t' _ _ \<Rightarrow> if t' = t then insert k S else S
     | Freed k \<Rightarrow> S - {k} | Retried k \<Rightarrow> S - {k} | _ \<Rightarrow> S) l {}"

definition quiet :: "'u att_out \<Rightarrow> bool" where
  "quiet x \<longleftrightarrow> (case x of Wrote _ _ _ _ \<Rightarrow> False | Response _ _ _ _ \<Rightarrow> False | Freed _ \<Rightarrow> False | Retried _ \<Rightarrow> False | _ \<Rightarrow> True)"

lemma quiet_simps [simp]: "quiet (Timed_out u i c)" "quiet (Notified u c b)" "quiet (Disconnected u e)" "quiet (Released u)" "quiet Shutdown"
  by (simp_all add: quiet_def)

lemma log_snoc [simp]:
  "freed (l @ [x]) = freed l @ (case x of Freed k \<Rightarrow> [k] | _ \<Rightarrow> [])"
  "responded (l @ [x]) = responded l @ (case x of Response k _ _ _ \<Rightarrow> [k] | _ \<Rightarrow> [])"
  "outstanding t (l @ [x]) = (case x of Wrote k t' _ _ \<Rightarrow> if t' = t then insert k (outstanding t l) else outstanding t l
     | Freed k \<Rightarrow> outstanding t l - {k} | Retried k \<Rightarrow> outstanding t l - {k} | _ \<Rightarrow> outstanding t l)"
  by (simp_all add: freed_def responded_def outstanding_def split: att_out.split)

lemma log_quiet:
  "quiet x \<Longrightarrow> freed (l @ [x]) = freed l" "quiet x \<Longrightarrow> responded (l @ [x]) = responded l" "quiet x \<Longrightarrow> outstanding t (l @ [x]) = outstanding t l"
  by (auto simp: quiet_def split: att_out.splits)

subsection \<open>The invariant\<close>

abbreviation waits :: "att_op_type \<Rightarrow> bool" where
  "waits t \<equiv> t = ATT_OP_TYPE_REQ \<or> t = ATT_OP_TYPE_IND"

definition opt_list :: "'a option \<Rightarrow> 'a list" where
  "opt_list p = (case p of Some x \<Rightarrow> [x] | None \<Rightarrow> [])"

lemma opt_list_simps [simp]: "opt_list None = []" "opt_list (Some x) = [x]"
  by (simp_all add: opt_list_def)

definition live :: "'u att \<Rightarrow> 'u att_send_op list" where
  "live s = (case chan s of None \<Rightarrow> [] | Some ch \<Rightarrow> ch_queue ch @ opt_list (pending_req ch) @ opt_list (pending_ind ch))
     @ req_queue s @ ind_queue s @ write_queue s"

definition pend :: "att_op_type \<Rightarrow> 'u att \<Rightarrow> nat option" where
  "pend t s = (case chan s of None \<Rightarrow> None
     | Some ch \<Rightarrow> map_option op_key (if t = ATT_OP_TYPE_REQ then pending_req ch else pending_ind ch))"

text \<open>The places hold the right types. An operation is of the type of its opcode, which is its first byte.\<close>

definition op_ok :: "'u att_send_op \<Rightarrow> bool" where
  "op_ok op \<longleftrightarrow> op_type op = get_op_type (op_opcode op) \<and> op_pdu op \<noteq> [] \<and> hd (op_pdu op) = op_opcode op"

definition placed :: "'u att \<Rightarrow> bool" where
  "placed s \<longleftrightarrow> (\<forall>op \<in> set (live s). op_ok op)
     \<and> (\<forall>op \<in> set (req_queue s). op_type op = ATT_OP_TYPE_REQ) \<and> (\<forall>op \<in> set (ind_queue s). op_type op = ATT_OP_TYPE_IND)
     \<and> (\<forall>op \<in> set (write_queue s). \<not> waits (op_type op))
     \<and> (\<forall>ch. chan s = Some ch \<longrightarrow> (\<forall>op \<in> set (ch_queue ch). \<not> waits (op_type op))
         \<and> (\<forall>op \<in> set (opt_list (pending_req ch)). op_type op = ATT_OP_TYPE_REQ)
         \<and> (\<forall>op \<in> set (opt_list (pending_ind ch)). op_type op = ATT_OP_TYPE_IND))"

definition counted :: "nat multiset \<Rightarrow> 'u att \<Rightarrow> bool" where
  "counted H s \<longleftrightarrow> mset (map op_key (live s)) + H + mset (freed (att_log s)) = mset [0..<op_brk s]"

definition answered_once :: "nat set \<Rightarrow> 'u att \<Rightarrow> bool" where
  "answered_once Y s \<longleftrightarrow> distinct (responded (att_log s)) \<and> set (responded (att_log s)) \<subseteq> set (freed (att_log s)) \<union> Y"

definition sequential :: "nat multiset \<Rightarrow> 'u att \<Rightarrow> bool" where
  "sequential H s \<longleftrightarrow> (\<forall>t. waits t \<longrightarrow> set_option (pend t s) \<subseteq> outstanding t (att_log s)
     \<and> outstanding t (att_log s) \<subseteq> set_option (pend t s) \<union> set_mset H)"

definition att_ok :: "nat multiset \<Rightarrow> nat set \<Rightarrow> 'u att \<Rightarrow> bool" where
  "att_ok H Y s \<longleftrightarrow> placed s \<and> counted H s \<and> answered_once Y s \<and> sequential H s"

lemmas att_ok_defs = att_ok_def placed_def counted_def answered_once_def sequential_def live_def pend_def

text \<open>Fields the invariant does not read.\<close>

lemma att_ok_fields [simp]:
  "att_ok H Y (s\<lparr>ref_count := a\<rparr>) = att_ok H Y s" "att_ok H Y (s\<lparr>alive := b\<rparr>) = att_ok H Y s" "att_ok H Y (s\<lparr>attached := b\<rparr>) = att_ok H Y s"
  "att_ok H Y (s\<lparr>att_mtu := m\<rparr>) = att_ok H Y s" "att_ok H Y (s\<lparr>notify_list := n\<rparr>) = att_ok H Y s" "att_ok H Y (s\<lparr>disconn_list := d\<rparr>) = att_ok H Y s"
  "att_ok H Y (s\<lparr>next_send_id := i\<rparr>) = att_ok H Y s" "att_ok H Y (s\<lparr>next_reg_id := i\<rparr>) = att_ok H Y s"
  "att_ok H Y (s\<lparr>timeout_callback := u\<rparr>) = att_ok H Y s" "att_ok H Y (s\<lparr>timeout_destroy := u\<rparr>) = att_ok H Y s"
  "att_ok H Y (s\<lparr>sock_security := l\<rparr>) = att_ok H Y s" "att_ok H Y (s\<lparr>nt_brk := k\<rparr>) = att_ok H Y s"
  "att_ok H Y (s\<lparr>local_sign := g\<rparr>) = att_ok H Y s" "att_ok H Y (s\<lparr>remote_sign := e\<rparr>) = att_ok H Y s"
  by (simp_all add: att_ok_defs)

lemma att_ok_chan [simp]:
  "chan s = Some ch \<Longrightarrow> att_ok H Y (s\<lparr>chan := Some (ch\<lparr>writer_active := b\<rparr>)\<rparr>) = att_ok H Y s"
  "chan s = Some ch \<Longrightarrow> att_ok H Y (s\<lparr>chan := Some (ch\<lparr>in_req := b\<rparr>)\<rparr>) = att_ok H Y s"
  "chan s = Some ch \<Longrightarrow> att_ok H Y (s\<lparr>chan := Some (ch\<lparr>ch_mtu := m\<rparr>)\<rparr>) = att_ok H Y s"
  "chan s = Some ch \<Longrightarrow> att_ok H Y (s\<lparr>chan := Some (ch\<lparr>ch_sec_level := l\<rparr>)\<rparr>) = att_ok H Y s"
  by (simp_all add: att_ok_defs)

lemma att_ok_quiet [simp]: "quiet x \<Longrightarrow> att_ok H Y (att_say x s) = att_ok H Y s"
  by (simp add: att_ok_defs att_say_def log_quiet del: log_snoc)

lemma att_ok_release [simp]: "att_ok H Y (release u s) = att_ok H Y s"
  by (simp add: release_def split: option.split)

lemma att_ok_weaken: "att_ok H Y s \<Longrightarrow> Y \<subseteq> Y' \<Longrightarrow> att_ok H Y' s"
  by (auto simp: att_ok_def answered_once_def)

subsection \<open>Moving operations\<close>

lemma counted_once:
  assumes "counted H s"
  shows "count (mset (map op_key (live s))) k + count H k + count (mset (freed (att_log s))) k \<le> 1"
proof -
  have "count (mset (map op_key (live s)) + H + mset (freed (att_log s))) k \<le> 1"
    using assms distinct_count_atmost_1 [of "[0..<op_brk s]"] by (simp add: counted_def del: mset_upt)
  then show ?thesis by simp
qed

lemma held_not_freed: "counted H s \<Longrightarrow> k \<in># H \<Longrightarrow> k \<notin> set (freed (att_log s)) \<and> k \<notin> op_key ` set (live s)"
proof -
  assume "counted H s" "k \<in># H"
  then have "count (mset (freed (att_log s))) k = 0" "count (mset (map op_key (live s))) k = 0"
    using counted_once [of H s k] count_greater_zero_iff [of H k] by linarith+
  then have "k \<notin># mset (freed (att_log s))" "k \<notin># mset (map op_key (live s))" by (simp_all only: not_in_iff)
  then show ?thesis by simp
qed

lemma live_not_freed: "counted H s \<Longrightarrow> op \<in> set (live s) \<Longrightarrow> op_key op \<notin> set (freed (att_log s)) \<and> op_key op \<notin># H"
proof -
  assume c: "counted H s" "op \<in> set (live s)"
  then have "op_key op \<in># mset (map op_key (live s))" by simp
  then have "count (mset (map op_key (live s))) (op_key op) > 0" by (simp only: count_greater_zero_iff)
  then have "count (mset (freed (att_log s))) (op_key op) = 0" "count H (op_key op) = 0"
    using counted_once [OF c(1), of "op_key op"] by linarith+
  then show ?thesis by (simp add: count_mset_0_iff not_in_iff)
qed

lemma pend_live: "k \<in> set_option (pend t s) \<Longrightarrow> k \<in> op_key ` set (live s)"
  by (auto simp: pend_def live_def split: option.splits if_splits)

text \<open>Freeing an operation the handler holds.\<close>

lemma destroy_ok:
  assumes "att_ok (add_mset (op_key op) H) (insert (op_key op) Y) s"
  shows "att_ok H Y (destroy_att_send_op op s)"
proof -
  let ?k = "op_key op" and ?s = "release (op_destroy op) s"
  have ok: "att_ok (add_mset ?k H) (insert ?k Y) ?s" using assms by simp
  have "?k \<notin> op_key ` set (live ?s)" using held_not_freed [of "add_mset ?k H" ?s ?k] ok by (simp add: att_ok_def)
  then have "?k \<notin> set_option (pend t ?s)" for t using pend_live by blast
  then show ?thesis using ok unfolding destroy_att_send_op_def
    by (auto simp: att_ok_def placed_def counted_def answered_once_def sequential_def att_say_def live_def pend_def)
qed

lemma destroy_held: "att_ok (add_mset (op_key op) H) Y s \<Longrightarrow> att_ok H Y (destroy_att_send_op op s)"
  by (rule destroy_ok) (auto intro: att_ok_weaken)

text \<open>Taking an operation into the hands: the state \<^term>\<open>t\<close> has one operation less.\<close>

lemma take_many_ok:
  assumes "att_ok H Y s" and "mset (map op_key (live s)) = K + mset (map op_key (live t))"
    and "placed t" and "att_log t = att_log s" and "op_brk t = op_brk s"
    and "\<And>ty. waits ty \<Longrightarrow> pend ty t = pend ty s \<or> pend ty t = None \<and> set_option (pend ty s) \<subseteq> set_mset K"
  shows "att_ok (K + H) Y t"
proof -
  have "sequential (K + H) t" unfolding sequential_def
  proof (intro allI impI)
    fix ty
    assume w: "waits ty"
    then have "set_option (pend ty s) \<subseteq> outstanding ty (att_log s)" "outstanding ty (att_log s) \<subseteq> set_option (pend ty s) \<union> set_mset H"
      using assms(1) by (auto simp: att_ok_def sequential_def)
    then show "set_option (pend ty t) \<subseteq> outstanding ty (att_log t) \<and> outstanding ty (att_log t) \<subseteq> set_option (pend ty t) \<union> set_mset (K + H)"
      using assms(6) [OF w] assms(4) by auto
  qed
  then show ?thesis using assms(1-5) by (simp add: att_ok_def counted_def answered_once_def ac_simps)
qed

lemmas take_ok = take_many_ok [where K = "{#k#}" for k, simplified]

text \<open>A new operation.\<close>

lemma put_ok:
  assumes "att_ok H Y s" and "mset (map op_key (live t)) = add_mset (op_brk s) (mset (map op_key (live s)))"
    and "placed t" and "att_log t = att_log s" and "op_brk t = op_brk s + 1" and "\<And>ty. waits ty \<Longrightarrow> pend ty t = pend ty s"
  shows "att_ok H Y t"
  using assms by (simp add: att_ok_def counted_def answered_once_def sequential_def)

text \<open>Telling a client the answer of an operation that is live or held.\<close>

lemma say_response_ok:
  assumes "att_ok H Y s" and "k \<notin> Y" and "k \<in># H \<or> k \<in> op_key ` set (live s)"
  shows "att_ok H (insert k Y) (att_say (Response k u opcode pdu) s)"
proof -
  have "k \<notin> set (freed (att_log s))"
    using assms(1,3) held_not_freed [of H s k] live_not_freed [of H s] by (auto simp: att_ok_def)
  then have "k \<notin> set (responded (att_log s))" using assms(1,2) by (auto simp: att_ok_def answered_once_def)
  then show ?thesis using assms(1)
    by (auto simp: att_ok_def placed_def counted_def answered_once_def sequential_def att_say_def live_def pend_def)
qed

subsection \<open>The calls of the clients keep the invariant\<close>

text \<open>What a call leaves alone: unless the channel is freed, the same operations wait.\<close>

definition steady :: "'u att \<Rightarrow> 'u att \<Rightarrow> bool" where
  "steady s t \<longleftrightarrow> (chan t \<noteq> None \<longrightarrow> chan s \<noteq> None \<and> (\<forall>ty. waits ty \<longrightarrow> pend ty t = pend ty s))"

definition kept :: "'u att \<Rightarrow> 'u att \<Rightarrow> bool" where
  "kept s t \<longleftrightarrow> (\<forall>H Y. att_ok H Y s \<longrightarrow> att_ok H Y t) \<and> steady s t"

lemma kept_refl [simp]: "kept s s"
  by (simp add: kept_def steady_def)

lemma kept_trans: "kept s t \<Longrightarrow> kept t u \<Longrightarrow> kept s u"
  by (auto simp: kept_def steady_def)

lemma pend_same: "chan t = chan s \<Longrightarrow> pend ty t = pend ty s"
  by (simp add: pend_def)

lemma keptI: "(\<And>H Y. att_ok H Y s \<Longrightarrow> att_ok H Y t) \<Longrightarrow> chan t = chan s \<Longrightarrow> kept s t"
  by (simp add: kept_def steady_def pend_def)

lemma say_sel [simp]:
  "chan (att_say x s) = chan s" "req_queue (att_say x s) = req_queue s" "ind_queue (att_say x s) = ind_queue s"
  "write_queue (att_say x s) = write_queue s" "attached (att_say x s) = attached s" "op_brk (att_say x s) = op_brk s"
  "alive (att_say x s) = alive s" "notify_list (att_say x s) = notify_list s" "disconn_list (att_say x s) = disconn_list s"
  "set_write_handler_ok (att_say x s) = set_write_handler_ok s"
  by (simp_all add: att_say_def)

lemma release_sel [simp]:
  "chan (release u s) = chan s" "req_queue (release u s) = req_queue s" "ind_queue (release u s) = ind_queue s"
  "write_queue (release u s) = write_queue s" "attached (release u s) = attached s" "op_brk (release u s) = op_brk s"
  "alive (release u s) = alive s" "notify_list (release u s) = notify_list s" "disconn_list (release u s) = disconn_list s"
  "set_write_handler_ok (release u s) = set_write_handler_ok s"
  by (simp_all add: release_def split: option.split)

lemma destroy_sel [simp]:
  "chan (destroy_att_send_op op s) = chan s" "req_queue (destroy_att_send_op op s) = req_queue s" "ind_queue (destroy_att_send_op op s) = ind_queue s"
  "write_queue (destroy_att_send_op op s) = write_queue s" "attached (destroy_att_send_op op s) = attached s"
  "op_brk (destroy_att_send_op op s) = op_brk s" "alive (destroy_att_send_op op s) = alive s"
  by (simp_all add: destroy_att_send_op_def)

lemma wakeup_kept: "wakeup_chan_writer s = Some t \<Longrightarrow> kept s t"
  by (auto simp: wakeup_chan_writer_def kept_def steady_def pend_def split: if_splits bind_splits)

lemma wakeup_writer_kept: "wakeup_writer s = Some t \<Longrightarrow> kept s t"
  using wakeup_kept by (auto simp: wakeup_writer_def split: if_splits)

lemma create_op:
  assumes "create_att_send_op s opcode pdu cb de = Some (Some op)"
  shows "op_ok op" "op_key op = op_brk s" "op_type op = get_op_type opcode" "op_callback op = cb" "op_destroy op = de"
  using assms
  by (auto simp: create_att_send_op_def encode_pdu_def Let_def op_ok_def split: if_splits bind_splits option.splits prod.splits)

lemma push_ok:
  assumes "op_ok op" and "op_key op = op_brk s" and "att_ok H Y s"
  shows "op_type op = ATT_OP_TYPE_REQ \<Longrightarrow> att_ok H Y (s\<lparr>next_send_id := i, op_brk := op_brk s + 1, req_queue := req_queue s @ [op]\<rparr>)"
    and "op_type op = ATT_OP_TYPE_IND \<Longrightarrow> att_ok H Y (s\<lparr>next_send_id := i, op_brk := op_brk s + 1, ind_queue := ind_queue s @ [op]\<rparr>)"
    and "\<not> waits (op_type op) \<Longrightarrow> att_ok H Y (s\<lparr>next_send_id := i, op_brk := op_brk s + 1, write_queue := write_queue s @ [op]\<rparr>)"
    and "\<not> waits (op_type op) \<Longrightarrow> chan s = Some ch \<Longrightarrow> att_ok H Y (s\<lparr>op_brk := op_brk s + 1, chan := Some (ch\<lparr>ch_queue := ch_queue ch @ [op]\<rparr>)\<rparr>)"
proof -
  have p: "placed s" using assms(3) by (simp add: att_ok_def)
  show "op_type op = ATT_OP_TYPE_REQ \<Longrightarrow> att_ok H Y (s\<lparr>next_send_id := i, op_brk := op_brk s + 1, req_queue := req_queue s @ [op]\<rparr>)"
    by (rule put_ok [OF assms(3)]) (use p assms(1,2) in \<open>auto simp: live_def placed_def pend_def\<close>)
  show "op_type op = ATT_OP_TYPE_IND \<Longrightarrow> att_ok H Y (s\<lparr>next_send_id := i, op_brk := op_brk s + 1, ind_queue := ind_queue s @ [op]\<rparr>)"
    by (rule put_ok [OF assms(3)]) (use p assms(1,2) in \<open>auto simp: live_def placed_def pend_def\<close>)
  show "\<not> waits (op_type op) \<Longrightarrow> att_ok H Y (s\<lparr>next_send_id := i, op_brk := op_brk s + 1, write_queue := write_queue s @ [op]\<rparr>)"
    by (rule put_ok [OF assms(3)]) (use p assms(1,2) in \<open>auto simp: live_def placed_def pend_def\<close>)
  show "\<not> waits (op_type op) \<Longrightarrow> chan s = Some ch \<Longrightarrow> att_ok H Y (s\<lparr>op_brk := op_brk s + 1, chan := Some (ch\<lparr>ch_queue := ch_queue ch @ [op]\<rparr>)\<rparr>)"
    by (rule put_ok [OF assms(3)]) (use p assms(1,2) in \<open>auto simp: live_def placed_def pend_def\<close>)
qed

lemma send_kept:
  assumes "bt_att_send opcode pdu cb de s = Some (r, t)"
  shows "kept s t"
proof (cases "attached s \<and> (\<exists>op. create_att_send_op s opcode pdu cb de = Some (Some op))")
  case False
  then show ?thesis using assms by (auto simp: bt_att_send_def split: if_splits bind_splits option.splits)
next
  case True
  then obtain op where op: "create_att_send_op s opcode pdu cb de = Some (Some op)" by blast
  let ?id = "if next_send_id s < 1 then 1 else next_send_id s"
  let ?op = "op\<lparr>op_id := ?id\<rparr>" and ?s = "s\<lparr>next_send_id := ?id + 1, op_brk := op_brk s + 1\<rparr>"
  let ?t = "case op_type op of ATT_OP_TYPE_REQ \<Rightarrow> ?s\<lparr>req_queue := req_queue s @ [?op]\<rparr>
      | ATT_OP_TYPE_IND \<Rightarrow> ?s\<lparr>ind_queue := ind_queue s @ [?op]\<rparr> | _ \<Rightarrow> ?s\<lparr>write_queue := write_queue s @ [?op]\<rparr>"
  have w: "wakeup_writer ?t = Some t"
    using assms True op by (cases "op_type op") (auto simp: bt_att_send_def Let_def split: bind_splits)
  have ok: "op_ok ?op" "op_key ?op = op_brk s" using create_op [OF op] by (simp_all add: op_ok_def)
  have "att_ok H Y s \<Longrightarrow> att_ok H Y ?t" for H Y
    using push_ok [of ?op s H Y] ok by (cases "op_type op") simp_all
  moreover have "chan ?t = chan s" by (cases "op_type op") auto
  ultimately have "kept s ?t" by (rule keptI)
  then show ?thesis using wakeup_writer_kept [OF w] kept_trans by blast
qed

lemma chan_send_kept:
  assumes "bt_att_chan_send opcode pdu cb de s = Some (r, t)" and "\<not> waits (get_op_type opcode)"
  shows "kept s t"
proof (cases "\<exists>op. create_att_send_op s opcode pdu cb de = Some (Some op)")
  case False
  then show ?thesis using assms by (auto simp: bt_att_chan_send_def split: bind_splits option.splits)
next
  case True
  then obtain op where op: "create_att_send_op s opcode pdu cb de = Some (Some op)" by blast
  then obtain ch where ch: "chan s = Some ch" using assms(1) by (auto simp: bt_att_chan_send_def upd_chan_def split: bind_splits)
  let ?t = "s\<lparr>op_brk := op_brk s + 1, chan := Some (ch\<lparr>ch_queue := ch_queue ch @ [op]\<rparr>)\<rparr>"
  have w: "wakeup_chan_writer ?t = Some t" using assms(1) op ch by (auto simp: bt_att_chan_send_def upd_chan_def split: bind_splits)
  have "att_ok H Y s \<Longrightarrow> att_ok H Y ?t" for H Y
    using push_ok(4) [of op s H Y ch] create_op [OF op] assms(2) ch by simp
  moreover have "steady s ?t" using ch by (simp add: steady_def pend_def)
  ultimately have "kept s ?t" by (simp add: kept_def)
  then show ?thesis using wakeup_kept [OF w] kept_trans by blast
qed

text \<open>Cancelling. An operation taken from a queue is freed; one that waits only loses its callbacks.\<close>

lemma take_if_Some:
  assumes "take_if P xs = Some (x, ys)"
  shows "P x" "x \<in> set xs" "mset xs = add_mset x (mset ys)" "set ys \<subseteq> set xs"
  using assms by (auto simp: take_if_def extract_Some_iff split: option.splits)

lemma take_queue_ok:
  assumes "att_ok H Y s"
  shows "take_if P (req_queue s) = Some (op, q) \<Longrightarrow> att_ok (add_mset (op_key op) H) Y (s\<lparr>req_queue := q\<rparr>)"
    and "take_if P (ind_queue s) = Some (op, q) \<Longrightarrow> att_ok (add_mset (op_key op) H) Y (s\<lparr>ind_queue := q\<rparr>)"
    and "take_if P (write_queue s) = Some (op, q) \<Longrightarrow> att_ok (add_mset (op_key op) H) Y (s\<lparr>write_queue := q\<rparr>)"
    and "chan s = Some ch \<Longrightarrow> take_if P (ch_queue ch) = Some (op, q) \<Longrightarrow> att_ok (add_mset (op_key op) H) Y (s\<lparr>chan := Some (ch\<lparr>ch_queue := q\<rparr>)\<rparr>)"
proof -
  have p: "placed s" using assms by (simp add: att_ok_def)
  show "take_if P (req_queue s) = Some (op, q) \<Longrightarrow> att_ok (add_mset (op_key op) H) Y (s\<lparr>req_queue := q\<rparr>)"
    by (rule take_ok [OF assms]) (use p take_if_Some [of P "req_queue s" op q] in \<open>auto simp: live_def placed_def pend_def\<close>)
  show "take_if P (ind_queue s) = Some (op, q) \<Longrightarrow> att_ok (add_mset (op_key op) H) Y (s\<lparr>ind_queue := q\<rparr>)"
    by (rule take_ok [OF assms]) (use p take_if_Some [of P "ind_queue s" op q] in \<open>auto simp: live_def placed_def pend_def\<close>)
  show "take_if P (write_queue s) = Some (op, q) \<Longrightarrow> att_ok (add_mset (op_key op) H) Y (s\<lparr>write_queue := q\<rparr>)"
    by (rule take_ok [OF assms]) (use p take_if_Some [of P "write_queue s" op q] in \<open>auto simp: live_def placed_def pend_def\<close>)
  show "chan s = Some ch \<Longrightarrow> take_if P (ch_queue ch) = Some (op, q) \<Longrightarrow> att_ok (add_mset (op_key op) H) Y (s\<lparr>chan := Some (ch\<lparr>ch_queue := q\<rparr>)\<rparr>)"
    by (rule take_ok [OF assms]) (use p take_if_Some [of P "ch_queue ch" op q] in \<open>auto simp: live_def placed_def pend_def\<close>)
qed

lemma cancel_waiting_ok [simp]:
  "chan s = Some ch \<Longrightarrow> pending_req ch = Some op \<Longrightarrow> att_ok H Y (s\<lparr>chan := Some (ch\<lparr>pending_req := Some (op\<lparr>op_callback := None, op_destroy := None\<rparr>)\<rparr>)\<rparr>) = att_ok H Y s"
  "chan s = Some ch \<Longrightarrow> pending_ind ch = Some op \<Longrightarrow> att_ok H Y (s\<lparr>chan := Some (ch\<lparr>pending_ind := Some (op\<lparr>op_callback := None, op_destroy := None\<rparr>)\<rparr>)\<rparr>) = att_ok H Y s"
  by (simp_all add: att_ok_defs op_ok_def cong: conj_cong)

lemma take_destroy_kept:
  assumes "\<And>H Y. att_ok H Y s \<Longrightarrow> att_ok (add_mset (op_key op) H) Y t" and "steady s t"
  shows "kept s (destroy_att_send_op op t)"
  using assms by (auto simp: kept_def steady_def pend_def intro: destroy_held)

lemma chan_cancel_kept:
  assumes "bt_att_chan_cancel rid s = Some (r, t)"
  shows "kept s t"
proof -
  obtain ch where ch: "chan s = Some ch" using assms by (auto simp: bt_att_chan_cancel_def split: bind_splits)
  let ?hit = "\<lambda>p. case p of Some op \<Rightarrow> op_id op = rid | None \<Rightarrow> False"
  show ?thesis
  proof (cases "?hit (pending_req ch)")
    case True
    then obtain op where op: "pending_req ch = Some op" "op_id op = rid" by (auto split: option.splits)
    then have "t = (release (op_destroy op) s)\<lparr>chan := Some (ch\<lparr>pending_req := Some (op\<lparr>op_callback := None, op_destroy := None\<rparr>)\<rparr>)\<rparr>"
      using assms ch by (auto simp: bt_att_chan_cancel_def cancel_att_send_op_def)
    then show ?thesis using ch op(1) by (auto simp: kept_def steady_def pend_def)
  next
    case no_req: False
    show ?thesis
    proof (cases "?hit (pending_ind ch)")
      case True
      then obtain op where op: "pending_ind ch = Some op" "op_id op = rid" by (auto split: option.splits)
      then have "t = (release (op_destroy op) s)\<lparr>chan := Some (ch\<lparr>pending_ind := Some (op\<lparr>op_callback := None, op_destroy := None\<rparr>)\<rparr>)\<rparr>"
        using assms ch no_req by (auto simp: bt_att_chan_cancel_def cancel_att_send_op_def)
      then show ?thesis using ch op(1) by (auto simp: kept_def steady_def pend_def)
    next
      case False
      show ?thesis
      proof (cases "take_if (\<lambda>op. op_id op = rid) (ch_queue ch)")
        case None
        then show ?thesis using assms ch no_req False by (auto simp: bt_att_chan_cancel_def)
      next
        case (Some x)
        obtain op q where x: "x = (op, q)" by (cases x)
        have w: "wakeup_chan_writer (destroy_att_send_op op (s\<lparr>chan := Some (ch\<lparr>ch_queue := q\<rparr>)\<rparr>)) = Some t"
          using assms ch no_req False Some x by (auto simp: bt_att_chan_cancel_def split: bind_splits)
        have "kept s (destroy_att_send_op op (s\<lparr>chan := Some (ch\<lparr>ch_queue := q\<rparr>)\<rparr>))"
          using take_queue_ok(4) ch Some x by (intro take_destroy_kept) (auto simp: steady_def pend_def)
        then show ?thesis using wakeup_kept [OF w] kept_trans by blast
      qed
    qed
  qed
qed

lemma take_cancel_kept:
  "take_if P (req_queue s) = Some (op, q) \<Longrightarrow> wakeup_writer (destroy_att_send_op op (s\<lparr>req_queue := q\<rparr>)) = Some t \<Longrightarrow> kept s t"
  "take_if P (ind_queue s) = Some (op, q) \<Longrightarrow> wakeup_writer (destroy_att_send_op op (s\<lparr>ind_queue := q\<rparr>)) = Some t \<Longrightarrow> kept s t"
  "take_if P (write_queue s) = Some (op, q) \<Longrightarrow> wakeup_writer (destroy_att_send_op op (s\<lparr>write_queue := q\<rparr>)) = Some t \<Longrightarrow> kept s t"
  by (rule kept_trans [OF take_destroy_kept wakeup_writer_kept], auto simp: steady_def pend_def intro: take_queue_ok)+

lemma cancel_kept:
  assumes "bt_att_cancel rid s = Some (r, t)"
  shows "kept s t"
proof (cases "rid = 0")
  case False
  then obtain found u where u: "(if attached s then bt_att_chan_cancel rid s else Some (False, s)) = Some (found, u)"
    using assms by (auto simp: bt_att_cancel_def split: bind_splits)
  then have "kept s u" using chan_cancel_kept by (auto split: if_splits)
  moreover have "kept u t"
    using assms False u take_cancel_kept [of "\<lambda>op. op_id op = rid" u]
    by (auto simp: bt_att_cancel_def split: if_splits option.splits bind_splits)
  ultimately show ?thesis by (rule kept_trans)
qed (use assms in \<open>simp add: bt_att_cancel_def\<close>)

text \<open>Freeing all operations of a queue.\<close>

abbreviation keys :: "'u att_send_op list \<Rightarrow> nat multiset" where
  "keys ops \<equiv> mset (map op_key ops)"

lemma drain_ok: "att_ok (keys ops + H) Y s \<Longrightarrow> att_ok H Y (fold destroy_att_send_op ops s)"
  by (induction ops arbitrary: s) (auto intro: destroy_held)

lemma fold_destroy_sel [simp]:
  "chan (fold destroy_att_send_op ops s) = chan s" "req_queue (fold destroy_att_send_op ops s) = req_queue s"
  "ind_queue (fold destroy_att_send_op ops s) = ind_queue s" "write_queue (fold destroy_att_send_op ops s) = write_queue s"
  "attached (fold destroy_att_send_op ops s) = attached s" "op_brk (fold destroy_att_send_op ops s) = op_brk s"
  "alive (fold destroy_att_send_op ops s) = alive s"
  by (induction ops arbitrary: s) simp_all

lemma take_queues_ok:
  assumes "att_ok H Y s"
  shows "att_ok (keys (req_queue s) + H) Y (s\<lparr>req_queue := []\<rparr>)" "att_ok (keys (ind_queue s) + H) Y (s\<lparr>ind_queue := []\<rparr>)"
    "att_ok (keys (write_queue s) + H) Y (s\<lparr>write_queue := []\<rparr>)"
proof -
  have p: "placed s" using assms by (simp add: att_ok_def)
  show "att_ok (keys (req_queue s) + H) Y (s\<lparr>req_queue := []\<rparr>)"
    by (rule take_many_ok [OF assms]) (use p in \<open>auto simp: live_def placed_def pend_def\<close>)
  show "att_ok (keys (ind_queue s) + H) Y (s\<lparr>ind_queue := []\<rparr>)"
    by (rule take_many_ok [OF assms]) (use p in \<open>auto simp: live_def placed_def pend_def\<close>)
  show "att_ok (keys (write_queue s) + H) Y (s\<lparr>write_queue := []\<rparr>)"
    by (rule take_many_ok [OF assms]) (use p in \<open>auto simp: live_def placed_def pend_def\<close>)
qed

lemma drain_queues_kept:
  "kept s (fold destroy_att_send_op (req_queue s) (s\<lparr>req_queue := []\<rparr>))"
  "kept s (fold destroy_att_send_op (ind_queue s) (s\<lparr>ind_queue := []\<rparr>))"
  "kept s (fold destroy_att_send_op (write_queue s) (s\<lparr>write_queue := []\<rparr>))"
  by (rule keptI, auto intro!: drain_ok take_queues_ok)+

lemma cancel_pending_kept: "kept s (cancel_pending s)"
proof (cases "chan s")
  case (Some ch)
  have "att_ok H Y (s\<lparr>att_log := l, chan := Some (ch\<lparr>pending_req := map_option (\<lambda>op. op\<lparr>op_callback := None, op_destroy := None\<rparr>) (pending_req ch),
      pending_ind := map_option (\<lambda>op. op\<lparr>op_callback := None, op_destroy := None\<rparr>) (pending_ind ch)\<rparr>)\<rparr>) = att_ok H Y (s\<lparr>att_log := l\<rparr>)" for H Y l
    using Some by (cases "pending_req ch"; cases "pending_ind ch") (auto simp: att_ok_defs op_ok_def)
  moreover obtain l where l: "cancel_pending s = s\<lparr>att_log := l, chan := Some (ch\<lparr>pending_req := map_option (\<lambda>op. op\<lparr>op_callback := None, op_destroy := None\<rparr>) (pending_req ch),
      pending_ind := map_option (\<lambda>op. op\<lparr>op_callback := None, op_destroy := None\<rparr>) (pending_ind ch)\<rparr>)\<rparr>" "\<And>H Y. att_ok H Y (s\<lparr>att_log := l\<rparr>) = att_ok H Y s"
  proof
    let ?l = "att_log (release (case pending_ind ch of Some op \<Rightarrow> op_destroy op | None \<Rightarrow> None)
        (release (case pending_req ch of Some op \<Rightarrow> op_destroy op | None \<Rightarrow> None) s))"
    have e: "release u s = s\<lparr>att_log := att_log (release u s)\<rparr>" for u and s :: "'a att" by (simp add: release_def att_say_def split: option.split)
    have "s\<lparr>att_log := ?l\<rparr> = release (case pending_ind ch of Some op \<Rightarrow> op_destroy op | None \<Rightarrow> None)
        (release (case pending_req ch of Some op \<Rightarrow> op_destroy op | None \<Rightarrow> None) s)"
      by (subst (3) e, subst (3) e) simp
    then show "att_ok H Y (s\<lparr>att_log := ?l\<rparr>) = att_ok H Y s" for H Y by simp
    show "cancel_pending s = s\<lparr>att_log := ?l, chan := Some (ch\<lparr>pending_req := map_option (\<lambda>op. op\<lparr>op_callback := None, op_destroy := None\<rparr>) (pending_req ch),
      pending_ind := map_option (\<lambda>op. op\<lparr>op_callback := None, op_destroy := None\<rparr>) (pending_ind ch)\<rparr>)\<rparr>"
      using Some by (cases "pending_req ch"; cases "pending_ind ch")
        (auto simp: cancel_pending_def cancel_att_send_op_def release_def att_say_def split: option.split)
  qed
  ultimately show ?thesis using Some by (auto simp: kept_def steady_def pend_def option.map_comp comp_def)
qed (simp add: cancel_pending_def)

lemma cancel_pending_sel [simp]:
  "req_queue (cancel_pending s) = req_queue s" "ind_queue (cancel_pending s) = ind_queue s" "write_queue (cancel_pending s) = write_queue s"
  "alive (cancel_pending s) = alive s"
  by (auto simp: cancel_pending_def cancel_att_send_op_def split: option.splits)

lemma cancel_all_kept: "kept s (bt_att_cancel_all s)"
proof -
  let ?a = "fold destroy_att_send_op (req_queue s) (s\<lparr>req_queue := []\<rparr>)"
  let ?b = "fold destroy_att_send_op (ind_queue ?a) (?a\<lparr>ind_queue := []\<rparr>)"
  let ?c = "fold destroy_att_send_op (write_queue ?b) (?b\<lparr>write_queue := []\<rparr>)"
  have 1: "kept s ?c" using drain_queues_kept(1) [of s] drain_queues_kept(2) [of ?a] drain_queues_kept(3) [of ?b] kept_trans by blast
  have 2: "kept ?c (if attached ?c then cancel_pending ?c else ?c)" using cancel_pending_kept [of ?c] by (simp del: fold_destroy_sel)
  have "bt_att_cancel_all s = (if attached ?c then cancel_pending ?c else ?c)" by (simp only: bt_att_cancel_all_def Let_def)
  then show ?thesis using kept_trans [OF 1 2] by (simp only:)
qed

lemma cancel_all_empty:
  "req_queue (bt_att_cancel_all s) = []" "ind_queue (bt_att_cancel_all s) = []" "write_queue (bt_att_cancel_all s) = []"
  by (simp_all add: bt_att_cancel_all_def Let_def)

lemma fold_release [simp]:
  "att_ok H Y (fold (\<lambda>x. release (f x)) xs s) = att_ok H Y s" "chan (fold (\<lambda>x. release (f x)) xs s) = chan s"
  by (induction xs arbitrary: s) simp_all

lemma unregister_all_kept: "kept s (bt_att_unregister_all s)"
  by (rule keptI) (simp_all add: bt_att_unregister_all_def Let_def)

lemma registry_kept:
  "kept s (snd (bt_att_register opcode cb de s))" "kept s (snd (bt_att_unregister rid s))"
  "kept s (snd (bt_att_register_disconnect cb de s))" "kept s (snd (bt_att_unregister_disconnect rid s))"
  "kept s (snd (bt_att_set_timeout_cb cb de s))" "kept s (bt_att_ref s)"
  by (rule keptI; auto simp: bt_att_register_def bt_att_unregister_def bt_att_register_disconnect_def bt_att_unregister_disconnect_def
      bt_att_set_timeout_cb_def bt_att_ref_def Let_def split: option.split if_splits)+

lemma error_rsp_type [simp]: "get_op_type BT_ATT_OP_ERROR_RSP = ATT_OP_TYPE_RSP"
  by (simp add: get_op_type_def att_opcode_type_table_def)

lemma error_rsp_kept: "bt_att_chan_send_error_rsp opcode handle error s = Some (r, t) \<Longrightarrow> kept s t"
  by (auto simp: bt_att_chan_send_error_rsp_def split: if_splits bind_splits intro: chan_send_kept)

lemma keys_kept: "kept s (snd (bt_att_set_local_key key c s))" "kept s (snd (bt_att_set_remote_key key d s))"
  by (rule keptI; simp add: bt_att_set_local_key_def bt_att_set_remote_key_def)+

lemma channel_settings_kept:
  "bt_att_set_mtu mtu s = Some (r, t) \<Longrightarrow> kept s t" "bt_att_set_security level s = Some (r, t) \<Longrightarrow> kept s t"
  by (auto simp: kept_def steady_def pend_def bt_att_set_mtu_def upd_chan_def bt_att_set_security_def bt_att_chan_set_security_def
      split: if_splits bind_splits option.splits)

lemma destroy_chan: "destroy_att_send_op op (s\<lparr>chan := c\<rparr>) = (destroy_att_send_op op s)\<lparr>chan := c\<rparr>"
  by (simp add: destroy_att_send_op_def release_def att_say_def split: option.split)

lemma fold_destroy_chan: "fold destroy_att_send_op ops (s\<lparr>chan := c\<rparr>) = (fold destroy_att_send_op ops s)\<lparr>chan := c\<rparr>"
  by (induction ops arbitrary: s) (simp_all add: destroy_chan)

lemma chan_free_eq:
  "bt_att_chan_free s = map_option (\<lambda>ch. fold destroy_att_send_op (opt_list (pending_req ch) @ opt_list (pending_ind ch) @ ch_queue ch) (s\<lparr>chan := None\<rparr>)) (chan s)"
  by (auto simp: bt_att_chan_free_def fold_destroy_chan Let_def split: bind_splits option.splits)

lemma chan_free_kept:
  assumes "bt_att_chan_free s = Some t"
  shows "kept s t" and "chan t = None"
proof -
  obtain ch where ch: "chan s = Some ch" using assms by (auto simp: chan_free_eq)
  let ?ops = "opt_list (pending_req ch) @ opt_list (pending_ind ch) @ ch_queue ch"
  have t: "t = fold destroy_att_send_op ?ops (s\<lparr>chan := None\<rparr>)" using assms ch by (simp add: chan_free_eq)
  then show c: "chan t = None" by simp
  have "att_ok (keys ?ops + H) Y (s\<lparr>chan := None\<rparr>)" if ok: "att_ok H Y s" for H Y
  proof (rule take_many_ok [OF ok])
    show "placed (s\<lparr>chan := None\<rparr>)" using ok ch by (auto simp: att_ok_def placed_def live_def)
  qed (use ch in \<open>auto simp: live_def pend_def opt_list_def split: option.splits\<close>)
  then have "att_ok H Y s \<Longrightarrow> att_ok H Y t" for H Y using drain_ok [of ?ops H Y "s\<lparr>chan := None\<rparr>"] by (simp only: t)
  then show "kept s t" using c by (simp add: kept_def steady_def)
qed

lemma unref_kept:
  assumes "bt_att_unref s = Some t"
  shows "kept s t"
proof (cases "ref_count s - 1 = 0")
  case False
  then show ?thesis using assms by (auto simp: bt_att_unref_def Let_def intro: keptI split: if_splits)
next
  case True
  let ?s = "bt_att_cancel_all (bt_att_unregister_all (s\<lparr>ref_count := ref_count s - 1\<rparr>))"
  have "kept s (s\<lparr>ref_count := ref_count s - 1\<rparr>)" by (rule keptI) simp_all
  then have 1: "kept s ?s" using unregister_all_kept cancel_all_kept kept_trans by blast
  let ?u = "release (timeout_destroy ?s) ?s"
  have "?u\<lparr>req_queue := [], ind_queue := [], write_queue := [], notify_list := [], disconn_list := []\<rparr> = ?u\<lparr>notify_list := [], disconn_list := []\<rparr>"
    using cancel_all_empty [of "bt_att_unregister_all (s\<lparr>ref_count := ref_count s - 1\<rparr>)"] by (simp add: att.equality)
  then obtain v where v: "(if attached ?s then bt_att_chan_free (?u\<lparr>notify_list := [], disconn_list := []\<rparr>) else Some (?u\<lparr>notify_list := [], disconn_list := []\<rparr>)) = Some v"
    "t = v\<lparr>attached := False, alive := False\<rparr>"
    using assms True by (auto simp: bt_att_unref_def bt_att_free_def Let_def split: bind_splits if_splits)
  have 2: "kept ?s (?u\<lparr>notify_list := [], disconn_list := []\<rparr>)" by (rule keptI) simp_all
  have 3: "kept (?u\<lparr>notify_list := [], disconn_list := []\<rparr>) v" using v(1) chan_free_kept(1) by (auto split: if_splits)
  have 4: "kept v t" using v(2) by (auto intro: keptI)
  from 1 2 3 4 show ?thesis using kept_trans by blast
qed

text \<open>
  A client is polite when it sends requests and indications through \<^verbatim>\<open>bt_att_send\<close>, not on the channel, whose
  queue is not held back by a pending operation.
\<close>

definition polite :: "'u att_api \<Rightarrow> bool" where
  "polite c \<longleftrightarrow> (case c of Chan_send opcode _ _ _ \<Rightarrow> \<not> waits (get_op_type opcode) | _ \<Rightarrow> True)"

lemma exec_kept: "att_exec c s = Some t \<Longrightarrow> polite c \<Longrightarrow> kept s t"
  by (cases c) (auto simp: att_exec_def polite_def cancel_all_kept unregister_all_kept registry_kept keys_kept
      intro: send_kept chan_send_kept error_rsp_kept cancel_kept chan_cancel_kept channel_settings_kept unref_kept split: if_splits)

lemma execs_kept: "att_execs cs s = Some t \<Longrightarrow> \<forall>c \<in> set cs. polite c \<Longrightarrow> kept s t"
proof (induction cs arbitrary: s)
  case (Cons c cs)
  then obtain u where u: "att_exec c s = Some u" "att_execs cs u = Some t" by (auto split: bind_splits)
  then show ?case using exec_kept [OF u(1)] Cons.IH [OF u(2)] Cons.prems(2) kept_trans by auto
qed simp

subsection \<open>The handlers keep the invariant\<close>

definition polite_script :: "'u att_script \<Rightarrow> bool" where
  "polite_script script \<longleftrightarrow> (\<forall>x s. \<forall>c \<in> set (script x s). polite c)"

lemma callback_kept: "att_callback script x s = Some t \<Longrightarrow> polite_script script \<Longrightarrow> kept (att_say x s) t"
  by (auto simp: att_callback_def polite_script_def Let_def intro: execs_kept)

lemma quiet_callback_kept: "att_callback script x s = Some t \<Longrightarrow> polite_script script \<Longrightarrow> quiet x \<Longrightarrow> kept s t"
  using callback_kept [of script x s t] kept_trans [of s "att_say x s" t] keptI [of s "att_say x s"] by simp

lemma steady_trans: "steady s t \<Longrightarrow> steady t u \<Longrightarrow> steady s u"
  by (auto simp: steady_def)

lemma steady_same: "chan t = chan s \<Longrightarrow> steady s t"
  by (simp add: steady_def pend_def)

lemma respond_ok:
  assumes "respond script op opcode pdu s = Some t" and "polite_script script" and "att_ok H Y s" and "op_key op \<notin> Y"
    and "op_key op \<in># H \<or> op_key op \<in> op_key ` set (live s)"
  shows "att_ok H (insert (op_key op) Y) t \<and> steady s t"
proof (cases "op_callback op")
  case None
  then show ?thesis using assms att_ok_weaken [OF assms(3)] by (auto simp: respond_def steady_def)
next
  case (Some u)
  let ?x = "Response (op_key op) u opcode pdu"
  have "kept (att_say ?x s) t" using assms(1,2) Some callback_kept by (auto simp: respond_def)
  then show ?thesis using say_response_ok [OF assms(3-5)] steady_trans [OF steady_same [of "att_say ?x s" s]] by (auto simp: kept_def)
qed

lemma disc_op_ok:
  assumes "disc_att_send_op script op s = Some t" and "polite_script script" and "att_ok (add_mset (op_key op) H) Y s" and "op_key op \<notin> Y"
  shows "att_ok H Y t \<and> steady s t"
proof -
  obtain u where u: "respond script op BT_ATT_OP_ERROR_RSP [] s = Some u" "t = destroy_att_send_op op u"
    using assms(1) by (auto simp: disc_att_send_op_def split: bind_splits)
  then show ?thesis using respond_ok [OF u(1) assms(2,3,4)] destroy_ok steady_trans [OF _ steady_same [of t u]] by auto
qed

lemma disc_all_ok:
  "disc_all script ops s = Some t \<Longrightarrow> polite_script script \<Longrightarrow> att_ok (keys ops + H) {} s \<Longrightarrow> att_ok H {} t \<and> steady s t"
proof (induction ops arbitrary: s)
  case (Cons op ops)
  then obtain u where u: "disc_att_send_op script op s = Some u" "disc_all script ops u = Some t" by (auto split: bind_splits)
  have "att_ok (keys ops + H) {} u \<and> steady s u" using disc_op_ok [OF u(1) Cons.prems(2), of "keys ops + H" "{}"] Cons.prems(3) by simp
  then show ?case using Cons.IH [OF u(2) Cons.prems(2)] steady_trans by blast
qed (simp add: steady_def)

lemma take_waiting_ok:
  assumes "att_ok H Y s" and "chan s = Some ch"
  shows "pending_req ch = Some op \<Longrightarrow> att_ok (add_mset (op_key op) H) Y (s\<lparr>chan := Some (ch\<lparr>pending_req := None\<rparr>)\<rparr>)"
    and "pending_ind ch = Some op \<Longrightarrow> att_ok (add_mset (op_key op) H) Y (s\<lparr>chan := Some (ch\<lparr>pending_ind := None\<rparr>)\<rparr>)"
proof -
  have p: "placed s" using assms(1) by (simp add: att_ok_def)
  show "pending_req ch = Some op \<Longrightarrow> att_ok (add_mset (op_key op) H) Y (s\<lparr>chan := Some (ch\<lparr>pending_req := None\<rparr>)\<rparr>)"
    by (rule take_ok [OF assms(1)]) (use p assms(2) in \<open>auto simp: live_def placed_def pend_def\<close>)
  show "pending_ind ch = Some op \<Longrightarrow> att_ok (add_mset (op_key op) H) Y (s\<lparr>chan := Some (ch\<lparr>pending_ind := None\<rparr>)\<rparr>)"
    by (rule take_ok [OF assms(1)]) (use p assms(2) in \<open>auto simp: live_def placed_def pend_def\<close>)
qed

lemma end_req_ok:
  assumes "end_req script opcode pdu s = Some t" and "polite_script script" and "att_ok {#} {} s"
  shows "att_ok {#} {} t"
proof -
  obtain ch op u ch' op' where e: "chan s = Some ch" "pending_req ch = Some op" "respond script op opcode pdu s = Some u"
    "chan u = Some ch'" "pending_req ch' = Some op'" "t = destroy_att_send_op op' (u\<lparr>chan := Some (ch'\<lparr>pending_req := None\<rparr>)\<rparr>)"
    using assms(1) by (auto simp: end_req_def split: bind_splits)
  have "op \<in> set (live s)" using e(1,2) by (simp add: live_def)
  then have r: "att_ok {#} {op_key op} u" "steady s u" using respond_ok [OF e(3) assms(2,3)] by auto
  then have "pend ATT_OP_TYPE_REQ u = pend ATT_OP_TYPE_REQ s" using e(4) by (auto simp: steady_def)
  then have "op_key op' = op_key op" using e by (simp add: pend_def)
  then show ?thesis using take_waiting_ok(1) [OF r(1) e(4,5)] destroy_ok [of op' "{#}" "{}"] e(6) by simp
qed

lemma end_ind_ok:
  assumes "end_ind script opcode pdu s = Some t" and "polite_script script" and "att_ok {#} {} s"
  shows "att_ok {#} {} t"
proof -
  obtain ch op u ch' op' where e: "chan s = Some ch" "pending_ind ch = Some op" "respond script op opcode pdu s = Some u"
    "chan u = Some ch'" "pending_ind ch' = Some op'" "t = destroy_att_send_op op' (u\<lparr>chan := Some (ch'\<lparr>pending_ind := None\<rparr>)\<rparr>)"
    using assms(1) by (auto simp: end_ind_def split: bind_splits)
  have "op \<in> set (live s)" using e(1,2) by (simp add: live_def)
  then have r: "att_ok {#} {op_key op} u" "steady s u" using respond_ok [OF e(3) assms(2,3)] by auto
  then have "pend ATT_OP_TYPE_IND u = pend ATT_OP_TYPE_IND s" using e(4) by (auto simp: steady_def)
  then have "op_key op' = op_key op" using e by (simp add: pend_def)
  then show ?thesis using take_waiting_ok(2) [OF r(1) e(4,5)] destroy_ok [of op' "{#}" "{}"] e(6) by simp
qed

text \<open>Picking an operation, and writing it.\<close>

lemma att_ok_outstanding: "att_ok {#} Y s \<Longrightarrow> waits t \<Longrightarrow> outstanding t (att_log s) = set_option (pend t s)"
  by (auto simp: att_ok_def sequential_def)

lemma pick_some:
  assumes "pick_next_send_op s = Some (Some op, t)" and "att_ok {#} {} s"
  shows "att_ok {#op_key op#} {} t" and "op_ok op" and "waits (op_type op) \<Longrightarrow> pend (op_type op) t = None"
    and "waits ty \<Longrightarrow> op_key op \<notin> outstanding ty (att_log t)" and "waits ty \<Longrightarrow> pend ty t = pend ty s"
proof -
  obtain ch where ch: "chan s = Some ch" using assms(1) by (auto simp: pick_next_send_op_def split: bind_splits)
  have p: "placed s" using assms(2) by (simp add: att_ok_def)
  have "(\<exists>q. ch_queue ch = op # q \<and> t = s\<lparr>chan := Some (ch\<lparr>ch_queue := q\<rparr>)\<rparr>)
    \<or> (\<exists>q. write_queue s = op # q \<and> t = s\<lparr>write_queue := q\<rparr>)
    \<or> (\<exists>q. req_queue s = op # q \<and> pending_req ch = None \<and> t = s\<lparr>req_queue := q\<rparr>)
    \<or> (\<exists>q. ind_queue s = op # q \<and> pending_ind ch = None \<and> t = s\<lparr>ind_queue := q\<rparr>)"
    using assms(1) ch
    by (cases "ch_queue ch"; cases "write_queue s"; cases "req_queue s"; cases "ind_queue s")
       (auto simp: pick_next_send_op_def Let_def split: if_splits)
  then have *: "mset (map op_key (live s)) = {#op_key op#} + mset (map op_key (live t)) \<and> placed t \<and> att_log t = att_log s \<and> op_brk t = op_brk s
    \<and> (\<forall>ty. pend ty t = pend ty s) \<and> op \<in> set (live s) \<and> (waits (op_type op) \<longrightarrow> pend (op_type op) s = None)"
    using p ch by (elim disjE exE conjE) (auto simp: live_def placed_def pend_def)
  then show "att_ok {#op_key op#} {} t" using take_many_ok [OF assms(2), of "{#op_key op#}" t] by simp
  show "op_ok op" using * p by (auto simp: placed_def)
  show "waits (op_type op) \<Longrightarrow> pend (op_type op) t = None" "waits ty \<Longrightarrow> pend ty t = pend ty s" using * by auto
  show "op_key op \<notin> outstanding ty (att_log t)" if "waits ty"
  proof -
    have "op_key op \<in># mset (map op_key (live s))" using * by simp
    have "op_key op \<notin> op_key ` set (live t)"
      using held_not_freed [of "{#op_key op#}" t "op_key op"] \<open>att_ok {#op_key op#} {} t\<close> by (simp add: att_ok_def)
    then have "op_key op \<notin> set_option (pend ty s)" using * pend_live [of "op_key op" ty t] by auto
    then show ?thesis using att_ok_outstanding [OF assms(2) that] * by simp
  qed
qed

lemma wait_ok:
  assumes ok: "att_ok {#op_key op#} {} s" and op: "op_ok op" and ch: "chan s = Some ch"
    and new: "\<And>ty. waits ty \<Longrightarrow> op_key op \<notin> outstanding ty (att_log s)"
    and t: "t = (att_say (Wrote (op_key op) (op_type op) b r) s)\<lparr>chan := Some ch'\<rparr>"
    and ch': "op_type op = ATT_OP_TYPE_REQ \<and> pending_req ch = None \<and> ch' = ch\<lparr>pending_req := Some (op\<lparr>op_timeout_id := True\<rparr>)\<rparr>
      \<or> op_type op = ATT_OP_TYPE_IND \<and> pending_ind ch = None \<and> ch' = ch\<lparr>pending_ind := Some (op\<lparr>op_timeout_id := True\<rparr>)\<rparr>"
  shows "att_ok {#} {} t"
proof -
  have "op_ok (op\<lparr>op_timeout_id := True\<rparr>)" using op by (simp add: op_ok_def)
  then have "placed t" using ok ch ch' unfolding t by (elim disjE) (auto simp: att_ok_def placed_def live_def)
  moreover have "counted {#} t" using ok ch ch' unfolding t
    by (elim disjE) (auto simp: att_ok_def counted_def live_def att_say_def)
  moreover have "answered_once {} t" using ok unfolding t by (simp add: att_ok_def answered_once_def att_say_def)
  moreover have "sequential {#} t" unfolding sequential_def
  proof (intro allI impI)
    fix ty
    assume w: "waits ty"
    have o: "set_option (pend ty s) \<subseteq> outstanding ty (att_log s)" "outstanding ty (att_log s) \<subseteq> set_option (pend ty s)"
      using ok w new [OF w] by (auto simp: att_ok_def sequential_def)
    have l: "outstanding ty (att_log t) = (if op_type op = ty then insert (op_key op) (outstanding ty (att_log s)) else outstanding ty (att_log s))"
      by (simp add: t att_say_def)
    have "set_option (pend ty t) = (if op_type op = ty then insert (op_key op) (set_option (pend ty s)) else set_option (pend ty s))"
      using ch ch' w by (auto simp: t pend_def)
    then show "set_option (pend ty t) \<subseteq> outstanding ty (att_log t) \<and> outstanding ty (att_log t) \<subseteq> set_option (pend ty t) \<union> set_mset {#}"
      using o l by auto
  qed
  ultimately show ?thesis by (simp add: att_ok_def)
qed

lemma write_ok:
  assumes "can_write_data script ret s = Some (again, t)" and "polite_script script" and "att_ok {#} {} s"
  shows "att_ok {#} {} t"
proof -
  obtain p u where u: "pick_next_send_op s = Some (p, u)" using assms(1) by (auto simp: can_write_data_def split: bind_splits)
  show ?thesis
  proof (cases p)
    case None
    then have "u = s" using u by (auto simp: pick_next_send_op_def Let_def split: bind_splits list.splits if_splits)
    then show ?thesis using assms u None by (simp add: can_write_data_def)
  next
    case (Some op)
    note pick = pick_some [OF u [unfolded Some] assms(3)]
    let ?w = "att_say (Wrote (op_key op) (op_type op) (op_pdu op) ret) u"
    show ?thesis
    proof (cases "ret = 0")
      case True
      then obtain v where v: "respond script op BT_ATT_OP_ERROR_RSP [] u = Some v" "t = destroy_att_send_op op v"
        using assms(1) u Some by (auto simp: can_write_data_def split: bind_splits)
      then show ?thesis using respond_ok [OF v(1) assms(2) pick(1)] destroy_ok [of op "{#}" "{}" v] by simp
    next
      case sent: False
      show ?thesis
      proof (cases "waits (op_type op)")
        case True
        then obtain ch where ch: "chan u = Some ch"
          using assms(1) u Some sent by (auto simp: can_write_data_def upd_chan_def split: bind_splits)
        let ?op = "Some (op\<lparr>op_timeout_id := True\<rparr>)"
        let ?ch = "if op_type op = ATT_OP_TYPE_REQ then ch\<lparr>pending_req := ?op\<rparr> else ch\<lparr>pending_ind := ?op\<rparr>"
        have t: "t = ?w\<lparr>chan := Some ?ch\<rparr>" using True assms(1) u Some sent ch by (auto simp: can_write_data_def upd_chan_def)
        show ?thesis using True pick(3) ch by (intro wait_ok [OF pick(1,2) ch pick(4) t]) (auto simp: pend_def)
      next
        case False
        have "att_ok {#op_key op#} {} ?w"
          using pick(1) False by (auto simp: att_ok_def placed_def counted_def answered_once_def sequential_def live_def pend_def att_say_def)
        moreover have "t = destroy_att_send_op op ?w \<or> (\<exists>ch. chan ?w = Some ch \<and> t = destroy_att_send_op op (?w\<lparr>chan := Some (ch\<lparr>in_req := False\<rparr>)\<rparr>))"
          using assms(1) u Some sent False
          by (cases "op_type op") (auto simp: can_write_data_def upd_chan_def split: bind_splits)
        ultimately show ?thesis by (auto intro!: destroy_held)
      qed
    qed
  qed
qed

lemma write_event_ok:
  assumes "write_event script ret s = Some t" and "polite_script script" and "att_ok {#} {} s"
  shows "att_ok {#} {} t"
proof -
  obtain again u where u: "can_write_data script ret s = Some (again, u)" using assms(1) by (auto simp: write_event_def split: bind_splits)
  then show ?thesis using assms(1) write_ok [OF u assms(2,3)] by (auto simp: write_event_def upd_chan_def split: if_splits bind_splits)
qed

lemma timeout_ok:
  assumes "timeout_cb script rid s = Some t" and "polite_script script" and "att_ok {#} {} s"
  shows "att_ok {#} {} t"
proof -
  obtain ch where ch: "chan s = Some ch" using assms(1) by (auto simp: timeout_cb_def split: bind_splits)
  let ?hit = "\<lambda>p. case p of Some op \<Rightarrow> op_id op = rid | None \<Rightarrow> False"
  let ?found = "if ?hit (pending_req ch) then Some (the (pending_req ch), ch\<lparr>pending_req := None\<rparr>)
      else if ?hit (pending_ind ch) then Some (the (pending_ind ch), ch\<lparr>pending_ind := None\<rparr>) else None"
  show ?thesis
  proof (cases ?found)
    case None
    then show ?thesis using assms(1,3) ch by (simp add: timeout_cb_def Let_def split: if_splits)
  next
    case (Some x)
    obtain op c where x: "x = (op, c)" by (cases x)
    have u: "att_ok {#op_key op#} {} (s\<lparr>chan := Some c\<rparr>)"
      using Some x take_waiting_ok [OF assms(3) ch] by (auto split: if_splits option.splits)
    obtain v w where v: "(case timeout_callback s of Some y \<Rightarrow> att_callback script (Timed_out y (op_id op) (op_opcode op)) (s\<lparr>chan := Some c\<rparr>)
        | None \<Rightarrow> Some (s\<lparr>chan := Some c\<rparr>)) = Some v" "disc_att_send_op script op v = Some w" "t = att_say Shutdown w"
      using assms(1) ch Some x unfolding timeout_cb_def Let_def by (auto split: bind_splits)
    have "kept (s\<lparr>chan := Some c\<rparr>) v" using v(1) assms(2) by (auto split: option.splits intro: quiet_callback_kept)
    then have "att_ok {#op_key op#} {} v" using u by (simp add: kept_def)
    then have "att_ok {#} {} w" using disc_op_ok [OF v(2) assms(2), of "{#}" "{}"] by simp
    then show ?thesis using v(3) by simp
  qed
qed

lemma set_security_cases:
  "bt_att_chan_set_security level s ch = (r, t) \<Longrightarrow> t = s \<or> (\<exists>l. t = s\<lparr>sock_security := l\<rparr>) \<or> (\<exists>l. t = s\<lparr>chan := Some (ch\<lparr>ch_sec_level := l\<rparr>)\<rparr>)"
  by (auto simp: bt_att_chan_set_security_def split: if_splits)

lemma change_security_cases:
  "\<exists>level. change_security ecode s ch = (False, s) \<or> change_security ecode s ch = bt_att_chan_set_security level s ch"
  by (simp add: change_security_def Let_def) blast

lemma security_kept:
  assumes "change_security ecode s ch = (r, t)" and "chan s = Some ch"
  shows "kept s t" and "\<exists>l. chan t = Some (ch\<lparr>ch_sec_level := l\<rparr>)"
proof -
  have "t = s \<or> (\<exists>l. t = s\<lparr>sock_security := l\<rparr>) \<or> (\<exists>l. t = s\<lparr>chan := Some (ch\<lparr>ch_sec_level := l\<rparr>)\<rparr>)"
    using change_security_cases [of ecode s ch] assms(1) set_security_cases [of _ s ch r t] by auto
  then show "kept s t" "\<exists>l. chan t = Some (ch\<lparr>ch_sec_level := l\<rparr>)" using assms(2)
    by (auto simp: kept_def steady_def pend_def intro: exI [of _ "ch_sec_level ch"])
qed

lemma retry_ok:
  assumes "att_ok {#} {} s" and "chan s = Some ch" and "pending_req ch = Some op"
  shows "att_ok {#} {} (att_say (Retried (op_key op))
    (s\<lparr>chan := Some (ch\<lparr>pending_req := None\<rparr>), req_queue := op\<lparr>op_timeout_id := False\<rparr> # req_queue s\<rparr>))" (is "att_ok _ _ ?t")
proof -
  have o: "waits ty \<Longrightarrow> outstanding ty (att_log s) = set_option (pend ty s)" for ty using att_ok_outstanding [OF assms(1)] .
  have "op \<in> set (live s)" using assms(2,3) by (simp add: live_def)
  have c: "counted {#op_key op#} (s\<lparr>chan := Some (ch\<lparr>pending_req := None\<rparr>)\<rparr>)"
    using take_waiting_ok(1) [OF assms] by (simp add: att_ok_def)
  then have "op_key op \<notin> set_option (pend ATT_OP_TYPE_IND s)"
    using held_not_freed [OF c, of "op_key op"] pend_live [of "op_key op" ATT_OP_TYPE_IND "s\<lparr>chan := Some (ch\<lparr>pending_req := None\<rparr>)\<rparr>"] assms(2)
    by (auto simp: pend_def)
  moreover have "op_ok (op\<lparr>op_timeout_id := False\<rparr>)" using assms by (auto simp: att_ok_def placed_def live_def op_ok_def)
  ultimately show ?thesis using assms o [of ATT_OP_TYPE_REQ] o [of ATT_OP_TYPE_IND]
    by (auto simp: att_ok_def placed_def counted_def answered_once_def sequential_def live_def pend_def att_say_def)
qed

lemma handle_rsp_ok:
  assumes "handle_rsp script opcode pdu s = Some t" and "polite_script script" and "att_ok {#} {} s"
  shows "att_ok {#} {} t"
proof -
  obtain ch where ch: "chan s = Some ch" using assms(1) by (auto simp: handle_rsp_def split: bind_splits)
  show ?thesis
  proof (cases "pending_req ch")
    case None
    then show ?thesis using assms ch by (auto simp: handle_rsp_def)
  next
    case (Some op)
    obtain retry req u where e: "(if opcode = BT_ATT_OP_ERROR_RSP then handle_error_rsp pdu s else Some (False, get_req_opcode opcode, s)) = Some (retry, req, u)"
      using assms(1) ch Some by (auto simp: handle_rsp_def split: bind_splits)
    have u: "att_ok {#} {} u"
    proof (cases "opcode = BT_ATT_OP_ERROR_RSP \<and> length pdu = 4")
      case False
      then show ?thesis using e assms(3) by (auto simp: handle_error_rsp_def split: if_splits)
    next
      case True
      obtain r v where v: "change_security (pdu ! 3) s ch = (r, v)" by (cases "change_security (pdu ! 3) s ch")
      obtain l where l: "chan v = Some (ch\<lparr>ch_sec_level := l\<rparr>)" "att_ok {#} {} v"
        using security_kept [OF v ch] assms(3) by (auto simp: kept_def)
      then show ?thesis using retry_ok [OF l(2,1)] e True v ch Some
        by (auto simp: handle_error_rsp_def split: if_splits)
    qed
    have fin: "end_req script c b u = Some v \<Longrightarrow> wakeup_chan_writer v = Some t \<Longrightarrow> ?thesis" for c b v
      using end_req_ok [OF _ assms(2) u] wakeup_kept [of v t] by (auto simp: kept_def)
    show ?thesis using assms(1) ch Some e u fin wakeup_kept [of u t]
      by (auto simp: handle_rsp_def kept_def split: bind_splits if_splits)
  qed
qed

lemma handle_conf_ok:
  assumes "handle_conf script pdu s = Some t" and "polite_script script" and "att_ok {#} {} s"
  shows "att_ok {#} {} t"
proof -
  have "end_ind script c b s = Some v \<Longrightarrow> wakeup_chan_writer v = Some t \<Longrightarrow> ?thesis" for c b v
    using end_ind_ok [OF _ assms(2,3)] wakeup_kept [of v t] by (auto simp: kept_def)
  then show ?thesis using assms(1,3) by (auto simp: handle_conf_def split: bind_splits if_splits)
qed

lemma notify_loop_kept:
  assumes "notify_loop script opcode pdu found key s = Some (f, t)" and "polite_script script"
  shows "kept s t"
proof -
  have "polite_script script \<longrightarrow> kept s (snd r)" if "notify_loop script opcode pdu found key s = Some r" for r
    using that
  proof (induction script opcode pdu found key s r rule: notify_loop.raw_induct [rotated, consumes 1])
    case (1 loop script opcode pdu found key s r)
    show ?case
    proof (intro impI)
      assume pol: "polite_script script"
      show "kept s (snd r)"
      proof (cases key)
        case None
        then show ?thesis using 1(2) by auto
      next
        case (Some k)
        obtain n where n: "find (\<lambda>n. nt_key n = k) (notify_list s) = Some n" using 1(2) Some by (auto split: bind_splits)
        let ?cb = "case nt_callback n of Some u \<Rightarrow> att_callback script (Notified u opcode pdu) s | None \<Rightarrow> Some s"
        have cb: "?cb = Some v \<Longrightarrow> kept s v" for v using pol by (auto split: option.splits intro: quiet_callback_kept)
        have go: "loop script opcode pdu g l v = Some r \<Longrightarrow> kept s v \<Longrightarrow> ?thesis" for g l v
          using 1(1) [of script opcode pdu g l v r] pol kept_trans by blast
        show ?thesis using 1(2) Some n cb go [OF _ kept_refl] go
          by (simp add: Let_def split: if_splits bind_splits) auto
      qed
    qed
  qed
  then show ?thesis using assms by fastforce
qed

lemma handle_notify_kept:
  assumes "handle_notify script opcode pdu s = Some t" and "polite_script script"
  shows "kept s t"
proof -
  let ?check = "opcode AND ATT_OP_SIGNED_MASK \<noteq> 0 \<and> crypto s = None"
  show ?thesis
  proof (cases "?check \<and> \<not> handle_signed pdu s")
    case True
    then show ?thesis using assms(1) by (simp add: handle_notify_def Let_def)
  next
    case False
    let ?first = "case notify_list s of [] \<Rightarrow> None | n # _ \<Rightarrow> Some (nt_key n)"
    let ?pdu = "if ?check then take (length pdu - BT_ATT_SIGNATURE_LEN) pdu else pdu"
    obtain f u v where l: "notify_loop script opcode ?pdu False ?first (bt_att_ref s) = Some (f, u)"
      "(if \<not> f \<and> get_op_type opcode \<noteq> ATT_OP_TYPE_CMD then respond_not_supported opcode u else Some u) = Some v" "bt_att_unref v = Some t"
      using assms(1) False unfolding handle_notify_def Let_def by (auto split: bind_splits simp del: not_None_eq)
    have "kept s (bt_att_ref s)" by (rule registry_kept)
    moreover have "kept (bt_att_ref s) u" using notify_loop_kept [OF l(1) assms(2)] .
    moreover have "kept u v" using l(2) send_kept by (auto simp: respond_not_supported_def split: if_splits)
    moreover have "kept v t" using unref_kept [OF l(3)] .
    ultimately show ?thesis using kept_trans by blast
  qed
qed

lemma read_ok:
  assumes "can_read_data script buf s = Some t" and "polite_script script" and "att_ok {#} {} s"
  shows "att_ok {#} {} t"
proof (cases "\<exists>opcode pdu. buf = Some (opcode # pdu)")
  case False
  then show ?thesis using assms by (auto simp: can_read_data_def split: option.splits list.splits)
next
  case True
  then obtain opcode pdu where b: "buf = Some (opcode # pdu)" by blast
  obtain ch where ch: "chan s = Some ch" using assms(1) b by (auto simp: can_read_data_def split: bind_splits)
  let ?s = "bt_att_ref s"
  have r: "att_ok {#} {} ?s" using assms(3) by (simp add: bt_att_ref_def)
  have unref: "bt_att_unref u = Some t \<Longrightarrow> att_ok {#} {} u \<Longrightarrow> ?thesis" for u using unref_kept [of u t] by (simp add: kept_def)
  have notify: "handle_notify script opcode pdu v = Some u \<Longrightarrow> att_ok {#} {} v \<Longrightarrow> att_ok {#} {} u" for u v
    using handle_notify_kept [OF _ assms(2)] by (auto simp: kept_def)
  have c: "chan ?s = Some ch" using ch by (simp add: bt_att_ref_def)
  have i: "att_ok {#} {} (?s\<lparr>chan := Some (ch\<lparr>in_req := True\<rparr>)\<rparr>)" using r c by simp
  show ?thesis
    using assms(1) b ch handle_rsp_ok [OF _ assms(2) r] handle_conf_ok [OF _ assms(2) r] notify [OF _ r] notify [OF _ i] unref r
    by (cases "get_op_type opcode") (auto simp: can_read_data_def Let_def split: bind_splits if_splits)
qed

lemma disconn_loop_kept: "disconn_loop script err i n s = Some t \<Longrightarrow> polite_script script \<Longrightarrow> kept s t"
proof (induction n arbitrary: i s)
  case (Suc n)
  show ?case
  proof (cases "disconn_list s = []")
    case True
    then show ?thesis using Suc.prems by simp
  next
    case False
    then obtain d u where u: "lst_get (disconn_list s) i = Some d"
      "(case dc_callback d of Some x \<Rightarrow> if dc_removed d then Some s else att_callback script (Disconnected x err) s | None \<Rightarrow> Some s) = Some u"
      "disconn_loop script err (Suc i) n u = Some t"
      using Suc.prems(1) by (auto split: bind_splits)
    have "kept s u" using u(2) Suc.prems(2) by (auto split: option.splits if_splits intro: quiet_callback_kept)
    then show ?thesis using Suc.IH [OF u(3) Suc.prems(2)] kept_trans by blast
  qed
qed simp

lemma disconnect_ok:
  assumes "disconnect_cb script err s = Some t" and "polite_script script" and "att_ok {#} {} s"
  shows "att_ok {#} {} t"
proof -
  let ?s = "s\<lparr>attached := False\<rparr>"
  obtain a b c ch d ch' e f g where q:
    "disc_all script (req_queue ?s) (?s\<lparr>req_queue := []\<rparr>) = Some a" "disc_all script (ind_queue a) (a\<lparr>ind_queue := []\<rparr>) = Some b"
    "disc_all script (write_queue b) (b\<lparr>write_queue := []\<rparr>) = Some c" "chan c = Some ch"
    "(if pending_req ch = None then Some c else end_req script BT_ATT_OP_ERROR_RSP [] c) = Some d" "chan d = Some ch'"
    "(if pending_ind ch' = None then Some d else end_ind script BT_ATT_OP_ERROR_RSP [] d) = Some e" "bt_att_chan_free e = Some f"
    "disconn_loop script err 0 (length (disconn_list f)) (bt_att_ref f) = Some g" "bt_att_unref (bt_att_unregister_all g) = Some t"
    using assms(1) unfolding disconnect_cb_def Let_def by (auto split: bind_splits if_split_asm)
  have s: "att_ok {#} {} ?s" using assms(3) by simp
  have "att_ok {#} {} a" using disc_all_ok [OF q(1) assms(2)] take_queues_ok(1) [OF s] by blast
  then have "att_ok {#} {} b" using disc_all_ok [OF q(2) assms(2)] take_queues_ok(2) by blast
  then have "att_ok {#} {} c" using disc_all_ok [OF q(3) assms(2)] take_queues_ok(3) by blast
  then have "att_ok {#} {} d" using q(5) end_req_ok [OF _ assms(2)] by (auto split: if_splits)
  then have "att_ok {#} {} e" using q(7) end_ind_ok [OF _ assms(2)] by (auto split: if_splits)
  then have "att_ok {#} {} f" using chan_free_kept(1) [OF q(8)] by (simp add: kept_def)
  moreover have "kept f g" using disconn_loop_kept [OF q(9) assms(2)] registry_kept(6) kept_trans by blast
  moreover have "kept g t" using unregister_all_kept unref_kept [OF q(10)] kept_trans by blast
  ultimately show ?thesis by (auto simp: kept_def)
qed

end
