(* ===== verification/Att_Protocol.thy ===== *)
theory Att_Protocol
  imports Att_Invariant
begin

text \<open>
  The runs of the ATT layer: the calls of its clients, the events of the socket and the timers, in any
  order, from \<^verbatim>\<open>bt_att_new\<close> on. What holds in every reachable state, where answers and incoming
  operations go, and two places where the code does not do what it means to: failed writes and signed commands.
\<close>

subsection \<open>Runs\<close>

datatype 'u att_event = Call "'u att_api" | Writable int | Readable "byte list option" | Hangup int | Timer u32

text \<open>An event can happen while its handler is installed: the handlers of the socket live as long as the channel, the timer of an operation while it is pending.\<close>

definition timer_armed :: "u32 \<Rightarrow> 'u bt_att_chan \<Rightarrow> bool" where
  "timer_armed rid ch \<longleftrightarrow> (\<exists>op \<in> set_option (pending_req ch) \<union> set_option (pending_ind ch). op_timeout_id op \<and> op_id op = rid)"

inductive att_step :: "'u att_script \<Rightarrow> 'u att \<Rightarrow> 'u att_event \<Rightarrow> 'u att \<Rightarrow> bool" for script where
  call: "att_exec c s = Some t \<Longrightarrow> att_step script s (Call c) t"
| writable: "chan s = Some ch \<Longrightarrow> writer_active ch \<Longrightarrow> write_event script ret s = Some t \<Longrightarrow> att_step script s (Writable ret) t"
| readable: "chan s = Some ch \<Longrightarrow> can_read_data script buf s = Some t \<Longrightarrow> att_step script s (Readable buf) t"
| hangup: "chan s = Some ch \<Longrightarrow> disconnect_cb script err s = Some t \<Longrightarrow> att_step script s (Hangup err) t"
| timer: "chan s = Some ch \<Longrightarrow> timer_armed rid ch \<Longrightarrow> timeout_cb script rid s = Some t \<Longrightarrow> att_step script s (Timer rid) t"

inductive att_run :: "'u att_script \<Rightarrow> 'u att \<Rightarrow> 'u att_event list \<Rightarrow> 'u att \<Rightarrow> bool" for script where
  start: "att_run script s [] s"
| step: "att_step script s e t \<Longrightarrow> att_run script t es u \<Longrightarrow> att_run script s (e # es) u"

inductive_cases att_stepE: "att_step script s e t"

definition polite_event :: "'u att_event \<Rightarrow> bool" where
  "polite_event e \<longleftrightarrow> (case e of Call c \<Rightarrow> polite c | _ \<Rightarrow> True)"

lemma att_step_ok:
  assumes "att_step script s e t" and "polite_script script" and "polite_event e" and "att_ok {#} {} s"
  shows "att_ok {#} {} t"
  using assms(1)
proof cases
  case (call c)
  then show ?thesis using exec_kept [of c s t] assms(3,4) by (simp add: kept_def polite_event_def)
qed (use assms write_event_ok read_ok disconnect_ok timeout_ok in blast)+

lemma att_run_ok: "att_run script s es t \<Longrightarrow> polite_script script \<Longrightarrow> \<forall>e \<in> set es. polite_event e \<Longrightarrow> att_ok {#} {} s \<Longrightarrow> att_ok {#} {} t"
  by (induction rule: att_run.induct) (auto intro: att_step_ok)

lemma new_ok: "bt_att_new type io_mtu io_ok crypt security set_security set_write = Some s \<Longrightarrow> att_ok {#} {} s"
  by (auto simp: bt_att_new_def bt_att_chan_new_def Let_def att_ok_defs freed_def responded_def outstanding_def split: bind_splits if_splits)

text \<open>Runs can be computed.\<close>

fun att_do :: "'u att_script \<Rightarrow> 'u att_event \<Rightarrow> 'u att \<Rightarrow> 'u att option" where
  "att_do script (Call c) s = att_exec c s"
| "att_do script (Writable ret) s = (case chan s of Some ch \<Rightarrow> if writer_active ch then write_event script ret s else None | None \<Rightarrow> None)"
| "att_do script (Readable buf) s = (case chan s of Some ch \<Rightarrow> can_read_data script buf s | None \<Rightarrow> None)"
| "att_do script (Hangup err) s = (case chan s of Some ch \<Rightarrow> disconnect_cb script err s | None \<Rightarrow> None)"
| "att_do script (Timer rid) s = (case chan s of Some ch \<Rightarrow> if timer_armed rid ch then timeout_cb script rid s else None | None \<Rightarrow> None)"

fun att_does :: "'u att_script \<Rightarrow> 'u att_event list \<Rightarrow> 'u att \<Rightarrow> 'u att option" where
  "att_does script [] s = Some s"
| "att_does script (e # es) s = do { s \<leftarrow> att_do script e s; att_does script es s }"

lemma att_do_step: "att_do script e s = Some t \<Longrightarrow> att_step script s e t"
  by (cases e) (auto intro: att_step.intros split: option.splits if_splits)

lemma att_does_run: "att_does script es s = Some t \<Longrightarrow> att_run script s es t"
  by (induction es arbitrary: s) (auto intro: att_run.intros att_do_step split: bind_splits)

subsection \<open>Every operation is accounted for\<close>

text \<open>
  C20. In every run of the ATT layer, whatever arrives and whatever polite callbacks do: every operation that
  was accepted is in exactly one place, or was freed, once; it was answered at most once, and only
  operations that are freed by now were answered; and the requests (indications) that were sent and are not finished are exactly the
  pending one, so at most one is outstanding at any time.
\<close>

theorem att_accounting:
  assumes "bt_att_new type io_mtu io_ok crypt security set_security set_write = Some s0"
    and "att_run script s0 es s" and "polite_script script" and "\<forall>e \<in> set es. polite_event e"
  shows "mset (map op_key (live s)) + mset (freed (att_log s)) = mset [0..<op_brk s]
    \<and> distinct (responded (att_log s)) \<and> set (responded (att_log s)) \<subseteq> set (freed (att_log s))
    \<and> outstanding ATT_OP_TYPE_REQ (att_log s) = set_option (pend ATT_OP_TYPE_REQ s)
    \<and> outstanding ATT_OP_TYPE_IND (att_log s) = set_option (pend ATT_OP_TYPE_IND s)"
proof -
  have "att_ok {#} {} s" using att_run_ok [OF assms(2,3,4)] new_ok [OF assms(1)] .
  then show ?thesis using att_ok_outstanding [of "{}" s] by (simp add: att_ok_def counted_def answered_once_def del: mset_upt)
qed

text \<open>A read request and its answer; a second request waits until the first is answered.\<close>

definition demo_att :: "nat att" where
  "demo_att = the (bt_att_new BT_ATT_LE 0 True None (Some 1) False True)"

definition demo_events :: "nat att_event list" where
  "demo_events = [Call (Send 0x0A [3, 0] (Some 7) None), Call (Send 0x0A [5, 0] (Some 8) None), Writable 3, Writable 3,
     Readable (Some [0x0B, 42])]"

lemma demo_att_new: "bt_att_new BT_ATT_LE 0 True None (Some 1) False True = Some demo_att"
  by (simp add: demo_att_def bt_att_new_def bt_att_chan_new_def)

lemma demo_opcodes [simp]: "get_op_type 0x0A = ATT_OP_TYPE_REQ" "get_op_type 0x0B = ATT_OP_TYPE_RSP" "get_op_type 0xD2 = ATT_OP_TYPE_CMD" "get_req_opcode 0x0B = 0x0A"
  by (simp_all add: get_op_type_def att_opcode_type_table_def get_req_opcode_def att_req_rsp_mapping_table_def)

lemmas att_eval = demo_att_def bt_att_new_def bt_att_chan_new_def att_exec_def bt_att_send_def create_att_send_op_def encode_pdu_def
  wakeup_writer_def wakeup_chan_writer_def write_event_def can_write_data_def pick_next_send_op_def att_say_def upd_chan_def
  can_read_data_def handle_rsp_def end_req_def respond_def att_callback_def bt_att_ref_def bt_att_unref_def
  destroy_att_send_op_def release_def Let_def

lemma demo_att_log:
  "map_option att_log (att_does (\<lambda>_ _. []) demo_events demo_att)
     = Some [Wrote 0 ATT_OP_TYPE_REQ [0x0A, 3, 0] 3, Response 0 7 0x0B [42], Freed 0]"
  by (simp add: demo_events_def att_eval)

theorem att_accounting_witness:
  "\<exists>s. att_run (\<lambda>_ _. []) demo_att demo_events s
    \<and> att_log s = [Wrote 0 ATT_OP_TYPE_REQ [0x0A, 3, 0] 3, Response 0 7 0x0B [42], Freed 0]
    \<and> mset (map op_key (live s)) + mset (freed (att_log s)) = mset [0..<op_brk s]"
proof -
  obtain s where s: "att_does (\<lambda>_ _. []) demo_events demo_att = Some s"
    "att_log s = [Wrote 0 ATT_OP_TYPE_REQ [0x0A, 3, 0] 3, Response 0 7 0x0B [42], Freed 0]" using demo_att_log by auto
  then have r: "att_run (\<lambda>_ _. []) demo_att demo_events s" by (simp add: att_does_run)
  have p: "polite_script (\<lambda>_ _. [])" by (simp add: polite_script_def)
  have "\<forall>e \<in> set demo_events. polite_event e" by (simp add: demo_events_def polite_event_def polite_def)
  from att_accounting [OF demo_att_new r p this] show ?thesis using r s by blast
qed

subsection \<open>Answers\<close>

text \<open>What is observed when an operation ends: its callback is told, its client's data released, the operation freed.\<close>

definition ends_as :: "'u att_send_op \<Rightarrow> byte \<Rightarrow> byte list \<Rightarrow> 'u att_out list" where
  "ends_as op opcode pdu = map (\<lambda>u. Response (op_key op) u opcode pdu) (opt_list (op_callback op))
     @ map Released (opt_list (op_destroy op)) @ [Freed (op_key op)]"

lemma destroy_log: "destroy_att_send_op op s = s\<lparr>att_log := att_log s @ map Released (opt_list (op_destroy op)) @ [Freed (op_key op)]\<rparr>"
  by (simp add: destroy_att_send_op_def release_def att_say_def split: option.split)

lemma respond_quiet: "respond (\<lambda>_ _. []) op opcode pdu s = Some (s\<lparr>att_log := att_log s @ map (\<lambda>u. Response (op_key op) u opcode pdu) (opt_list (op_callback op))\<rparr>)"
  by (simp add: respond_def att_callback_def att_say_def split: option.split)

lemma end_req_quiet:
  "chan s = Some ch \<Longrightarrow> pending_req ch = Some op \<Longrightarrow>
    end_req (\<lambda>_ _. []) opcode pdu s = Some (s\<lparr>chan := Some (ch\<lparr>pending_req := None\<rparr>), att_log := att_log s @ ends_as op opcode pdu\<rparr>)"
  by (simp add: end_req_def respond_quiet destroy_log ends_as_def)

lemma wakeup_total:
  assumes "chan s = Some ch"
  shows "\<exists>b. wakeup_chan_writer s = Some (s\<lparr>chan := Some (ch\<lparr>writer_active := b\<rparr>)\<rparr>)"
proof -
  have e: "s = s\<lparr>chan := Some (ch\<lparr>writer_active := writer_active ch\<rparr>)\<rparr>" using assms by simp
  have "wakeup_chan_writer s \<in> {Some s, Some (s\<lparr>chan := Some (ch\<lparr>writer_active := True\<rparr>)\<rparr>)}"
    using assms by (simp add: wakeup_chan_writer_def Let_def)
  then show ?thesis using e by (elim insertE) (metis, blast+)
qed

lemma unref_total: "alive s \<Longrightarrow> 1 < ref_count s \<Longrightarrow> bt_att_unref s = Some (s\<lparr>ref_count := ref_count s - 1\<rparr>)"
  by (simp add: bt_att_unref_def Let_def)

subsection \<open>What callbacks may do\<close>

text \<open>
  The calls after which the layer can go on: all but the one that gives up a reference, and but the sending of signed or oversized operations, which
  may be undefined. Of these, the ones that leave the list of handlers alone.
\<close>

definition defined_call :: "'u att_api \<Rightarrow> bool" where
  "defined_call c \<longleftrightarrow> (case c of Unref \<Rightarrow> False
     | Send opcode pdu _ _ \<Rightarrow> opcode AND ATT_OP_SIGNED_MASK = 0 \<and> length pdu + 1 < 2 ^ 16
     | Chan_send opcode pdu _ _ \<Rightarrow> opcode AND ATT_OP_SIGNED_MASK = 0 \<and> length pdu + 1 < 2 ^ 16
     | _ \<Rightarrow> True)"

definition keeps_handlers :: "'u att_api \<Rightarrow> bool" where
  "keeps_handlers c \<longleftrightarrow> (case c of Register _ _ _ \<Rightarrow> False | Unregister _ \<Rightarrow> False | Unregister_all \<Rightarrow> False | _ \<Rightarrow> True)"

definition script_all :: "('u att_api \<Rightarrow> bool) \<Rightarrow> 'u att_script \<Rightarrow> bool" where
  "script_all P script \<longleftrightarrow> (\<forall>x s. \<forall>c \<in> set (script x s). P c)"

text \<open>What such calls leave behind: the same channel with the same pending request, and a log that only tells of operations and data given up.\<close>

definition minor :: "'u att_out \<Rightarrow> bool" where
  "minor x \<longleftrightarrow> (case x of Freed _ \<Rightarrow> True | Released _ \<Rightarrow> True | _ \<Rightarrow> False)"

definition same_chan :: "'u bt_att_chan option \<Rightarrow> 'u bt_att_chan option \<Rightarrow> bool" where
  "same_chan c d \<longleftrightarrow> (\<forall>ch. c = Some ch \<longrightarrow> (\<exists>ch'. d = Some ch' \<and> map_option op_key (pending_req ch') = map_option op_key (pending_req ch) \<and> ch_type ch' = ch_type ch))"

definition carried :: "'u att \<Rightarrow> 'u att \<Rightarrow> bool" where
  "carried s t \<longleftrightarrow> alive t = alive s \<and> ref_count s \<le> ref_count t \<and> attached t = attached s \<and> same_chan (chan s) (chan t)
     \<and> (\<exists>l. att_log t = att_log s @ l \<and> list_all minor l)"

lemma same_chan_simps [simp]:
  "same_chan c c" "same_chan (Some ch) (Some (ch\<lparr>ch_queue := q\<rparr>))" "same_chan (Some ch) (Some (ch\<lparr>writer_active := b\<rparr>))"
  "same_chan (Some ch) (Some (ch\<lparr>ch_mtu := m\<rparr>))" "same_chan (Some ch) (Some (ch\<lparr>ch_sec_level := l\<rparr>))" "same_chan (Some ch) (Some (ch\<lparr>pending_ind := p\<rparr>))"
  by (simp_all add: same_chan_def)

lemma same_chan_trans: "same_chan c d \<Longrightarrow> same_chan d e \<Longrightarrow> same_chan c e"
  by (fastforce simp: same_chan_def)

lemma carried_refl [simp]: "carried s s"
  by (simp add: carried_def)

lemma carried_trans [trans]:
  assumes "carried s t" and "carried t u"
  shows "carried s u"
proof -
  obtain l m where "att_log t = att_log s @ l" "list_all minor l" "att_log u = att_log t @ m" "list_all minor m" using assms by (auto simp: carried_def)
  then have "\<exists>l. att_log u = att_log s @ l \<and> list_all minor l" by (intro exI [of _ "l @ m"]) simp
  then show ?thesis using assms same_chan_trans [of "chan s" "chan t" "chan u"] by (simp add: carried_def)
qed

lemma carriedI:
  "alive t = alive s \<Longrightarrow> ref_count t = ref_count s \<Longrightarrow> attached t = attached s \<Longrightarrow> same_chan (chan s) (chan t) \<Longrightarrow> att_log t = att_log s \<Longrightarrow> carried s t"
  by (simp add: carried_def)

lemma release_facts: "carried s (release u s)" "notify_list (release u s) = notify_list s" "ref_count (release u s) = ref_count s"
  by (auto simp: carried_def release_def att_say_def minor_def split: option.split)

lemma req_destroy_facts: "carried s (destroy_att_send_op op s)" "notify_list (destroy_att_send_op op s) = notify_list s"
  by (auto simp: carried_def destroy_log minor_def list_all_iff opt_list_def split: option.split)

lemma fold_destroy_facts: "carried s (fold destroy_att_send_op ops s) \<and> notify_list (fold destroy_att_send_op ops s) = notify_list s"
proof (induction ops arbitrary: s)
  case (Cons op ops)
  then show ?case using req_destroy_facts [where s = "s" and op = op] carried_trans [of s "destroy_att_send_op op s"] by simp
qed simp

lemma fold_release_facts: "carried s (fold (\<lambda>n. release (f n)) ns s)"
proof (induction ns arbitrary: s)
  case (Cons n ns)
  then show ?case using release_facts(1) [of s "f n"] carried_trans [of s "release (f n) s"] by simp
qed simp

lemma wakeup_facts:
  assumes "chan s = Some ch"
  shows "\<exists>t. wakeup_chan_writer s = Some t \<and> carried s t \<and> notify_list t = notify_list s" and "\<exists>t. wakeup_writer s = Some t \<and> carried s t \<and> notify_list t = notify_list s"
proof -
  obtain b where "wakeup_chan_writer s = Some (s\<lparr>chan := Some (ch\<lparr>writer_active := b\<rparr>)\<rparr>)" using wakeup_total [OF assms] by blast
  then show "\<exists>t. wakeup_chan_writer s = Some t \<and> carried s t \<and> notify_list t = notify_list s" using assms by (auto intro!: carriedI)
  then show "\<exists>t. wakeup_writer s = Some t \<and> carried s t \<and> notify_list t = notify_list s" by (auto simp: wakeup_writer_def)
qed

lemma create_total: "opcode AND ATT_OP_SIGNED_MASK = 0 \<Longrightarrow> length pdu + 1 < 2 ^ 16 \<Longrightarrow> \<exists>r. create_att_send_op s opcode pdu cb de = Some r"
  by (auto simp: create_att_send_op_def encode_pdu_def Let_def)

text \<open>After a change that is \<^term>\<open>carried\<close>, waking the writer is.\<close>

lemma then_wakeup:
  assumes "chan s = Some ch" and "carried s u" and "notify_list u = notify_list s"
  shows "\<exists>t. wakeup_chan_writer u = Some t \<and> carried s t \<and> notify_list t = notify_list s" and "\<exists>t. wakeup_writer u = Some t \<and> carried s t \<and> notify_list t = notify_list s"
proof -
  obtain ch' where "chan u = Some ch'" using assms(1,2) by (auto simp: carried_def same_chan_def)
  from wakeup_facts [OF this] assms(2,3) show
    "\<exists>t. wakeup_chan_writer u = Some t \<and> carried s t \<and> notify_list t = notify_list s" "\<exists>t. wakeup_writer u = Some t \<and> carried s t \<and> notify_list t = notify_list s"
    using carried_trans by force+
qed

lemma send_facts:
  assumes "chan s = Some ch" and "opcode AND ATT_OP_SIGNED_MASK = 0" and "length pdu + 1 < 2 ^ 16"
  shows "\<exists>r t. bt_att_send opcode pdu cb de s = Some (r, t) \<and> carried s t \<and> notify_list t = notify_list s"
    and "\<exists>r t. bt_att_chan_send opcode pdu cb de s = Some (r, t) \<and> carried s t \<and> notify_list t = notify_list s"
proof -
  obtain r where r: "create_att_send_op s opcode pdu cb de = Some r" using create_total [OF assms(2,3)] by blast
  show "\<exists>r t. bt_att_send opcode pdu cb de s = Some (r, t) \<and> carried s t \<and> notify_list t = notify_list s"
  proof (cases r)
    case None
    then show ?thesis using r by (simp add: bt_att_send_def)
  next
    case (Some op)
    define i where "i = (if next_send_id s < 1 then 1 else next_send_id s)"
    define o' where "o' = op\<lparr>op_id := i\<rparr>"
    define v where "v = s\<lparr>next_send_id := i + 1, op_brk := op_brk s + 1\<rparr>"
    define u where "u = (case op_type o' of ATT_OP_TYPE_REQ \<Rightarrow> v\<lparr>req_queue := req_queue v @ [o']\<rparr>
      | ATT_OP_TYPE_IND \<Rightarrow> v\<lparr>ind_queue := ind_queue v @ [o']\<rparr> | _ \<Rightarrow> v\<lparr>write_queue := write_queue v @ [o']\<rparr>)"
    have "carried s u" "notify_list u = notify_list s" by (auto simp: u_def v_def intro!: carriedI split: att_op_type.split)
    then obtain t where t: "wakeup_writer u = Some t" "carried s t" "notify_list t = notify_list s" using then_wakeup(2) [OF assms(1)] by blast
    have "bt_att_send opcode pdu cb de s = (if \<not> attached s then Some (0, s) else Some (i, t))"
      by (simp only: bt_att_send_def r Some Option.bind.bind_lunit option.case Let_def i_def [symmetric] o'_def [symmetric] v_def [symmetric] u_def [symmetric] t(1))
    then show ?thesis using t by (cases "attached s") auto
  qed
  show "\<exists>r t. bt_att_chan_send opcode pdu cb de s = Some (r, t) \<and> carried s t \<and> notify_list t = notify_list s"
  proof (cases r)
    case None
    then show ?thesis using r by (simp add: bt_att_chan_send_def)
  next
    case (Some op)
    let ?u = "s\<lparr>op_brk := op_brk s + 1, chan := Some (ch\<lparr>ch_queue := ch_queue ch @ [op]\<rparr>)\<rparr>"
    have "carried s ?u" using assms(1) by (auto intro!: carriedI)
    then obtain t where "wakeup_chan_writer ?u = Some t" "carried s t" "notify_list t = notify_list s" using then_wakeup(1) [OF assms(1), of ?u] by auto
    then show ?thesis using r Some assms(1) by (simp add: bt_att_chan_send_def upd_chan_def)
  qed
qed

lemma cancel_op_facts:
  assumes "chan s = Some ch"
  shows "pending_req ch = Some op \<Longrightarrow> carried s ((snd (cancel_att_send_op op s))\<lparr>chan := Some (ch\<lparr>pending_req := Some (fst (cancel_att_send_op op s))\<rparr>)\<rparr>)"
    and "carried s ((snd (cancel_att_send_op op s))\<lparr>chan := Some (ch\<lparr>pending_ind := p\<rparr>)\<rparr>)"
    and "notify_list (snd (cancel_att_send_op op s)) = notify_list s"
  using assms release_facts [where s = s and u = "op_destroy op"] by (auto simp: cancel_att_send_op_def carried_def same_chan_def)

lemma chan_cancel_facts:
  assumes "chan s = Some ch"
  shows "\<exists>r t. bt_att_chan_cancel rid s = Some (r, t) \<and> carried s t \<and> notify_list t = notify_list s"
proof -
  let ?hit = "\<lambda>p. case p of Some op \<Rightarrow> op_id op = rid | None \<Rightarrow> False"
  consider (req) op where "pending_req ch = Some op" "op_id op = rid" | (ind) op where "\<not> ?hit (pending_req ch)" "pending_ind ch = Some op" "op_id op = rid"
    | (no) "\<not> ?hit (pending_req ch)" "\<not> ?hit (pending_ind ch)" by (cases "pending_req ch"; cases "pending_ind ch"; fastforce)
  then show ?thesis
  proof cases
    case req
    then show ?thesis using assms cancel_op_facts(1) [OF assms, of op] cancel_op_facts(2) [OF assms] cancel_op_facts(3) [OF assms] by (auto simp: bt_att_chan_cancel_def case_prod_beta)
  next
    case ind
    then show ?thesis using assms cancel_op_facts(1) [OF assms, of op] cancel_op_facts(2) [OF assms] cancel_op_facts(3) [OF assms] by (auto simp: bt_att_chan_cancel_def case_prod_beta)
  next
    case no
    show ?thesis
    proof (cases "take_if (\<lambda>op. op_id op = rid) (ch_queue ch)")
      case None
      then show ?thesis using assms no by (auto simp: bt_att_chan_cancel_def)
    next
      case (Some x)
      obtain op q where x: "x = (op, q)" by (cases x)
      let ?u = "s\<lparr>chan := Some (ch\<lparr>ch_queue := q\<rparr>)\<rparr>"
      have "carried s ?u" using assms by (auto intro!: carriedI)
      then have "carried s (destroy_att_send_op op ?u)" "notify_list (destroy_att_send_op op ?u) = notify_list s"
        using req_destroy_facts [where s = "?u" and op = op] carried_trans [of s ?u] by simp_all
      from then_wakeup(1) [OF assms this] show ?thesis using assms no Some x by (auto simp: bt_att_chan_cancel_def)
    qed
  qed
qed

lemma take_wakeup_facts:
  assumes "chan s = Some ch" and "carried s u" and "notify_list u = notify_list s"
  shows "\<exists>t. wakeup_writer (destroy_att_send_op op u) = Some t \<and> carried s t \<and> notify_list t = notify_list s"
  using then_wakeup(2) [OF assms(1) carried_trans [OF assms(2) req_destroy_facts(1)]] req_destroy_facts(2) assms(3) by metis

lemma cancel_facts:
  assumes "chan s = Some ch"
  shows "\<exists>r t. bt_att_cancel rid s = Some (r, t) \<and> carried s t \<and> notify_list t = notify_list s"
proof (cases "rid = 0")
  case False
  obtain f u where u: "(if attached s then bt_att_chan_cancel rid s else Some (False, s)) = Some (f, u)" "carried s u" "notify_list u = notify_list s"
    using chan_cancel_facts [OF assms, of rid] by (cases "attached s") auto
  have q: "\<exists>t. wakeup_writer (destroy_att_send_op op (u\<lparr>req_queue := q\<rparr>)) = Some t \<and> carried s t \<and> notify_list t = notify_list s"
    "\<exists>t. wakeup_writer (destroy_att_send_op op (u\<lparr>ind_queue := q\<rparr>)) = Some t \<and> carried s t \<and> notify_list t = notify_list s"
    "\<exists>t. wakeup_writer (destroy_att_send_op op (u\<lparr>write_queue := q\<rparr>)) = Some t \<and> carried s t \<and> notify_list t = notify_list s" for op q
    by (rule take_wakeup_facts [OF assms]; use u(2,3) in \<open>simp add: carried_def\<close>)+
  let ?w = "\<lambda>v. do { s \<leftarrow> wakeup_writer v; Some (True, s) }" and ?P = "\<lambda>op. op_id op = rid"
  define good where "good m \<longleftrightarrow> (\<exists>r t. m = Some (r, t) \<and> carried s t \<and> notify_list t = notify_list s)" for m :: "(bool \<times> 'a att) option"
  have w: "good (?w (destroy_att_send_op op (u\<lparr>req_queue := q\<rparr>)))" "good (?w (destroy_att_send_op op (u\<lparr>ind_queue := q\<rparr>)))"
    "good (?w (destroy_att_send_op op (u\<lparr>write_queue := q\<rparr>)))" "good (Some (b, u))" for op q b
    using q(1) [of op q] q(2) [of op q] q(3) [of op q] u(2,3) by (auto simp: good_def)
  have "bt_att_cancel rid s = (if f then Some (True, u) else case take_if ?P (req_queue u) of Some (op, q) \<Rightarrow> ?w (destroy_att_send_op op (u\<lparr>req_queue := q\<rparr>))
    | None \<Rightarrow> (case take_if ?P (ind_queue u) of Some (op, q) \<Rightarrow> ?w (destroy_att_send_op op (u\<lparr>ind_queue := q\<rparr>))
      | None \<Rightarrow> (case take_if ?P (write_queue u) of Some (op, q) \<Rightarrow> ?w (destroy_att_send_op op (u\<lparr>write_queue := q\<rparr>)) | None \<Rightarrow> Some (False, u))))"
    using u(1) False by (simp add: bt_att_cancel_def)
  then have "good (bt_att_cancel rid s)" by (simp add: w split: option.split prod.split)
  then show ?thesis by (simp add: good_def)
qed (auto simp: bt_att_cancel_def)

lemma cancel_all_facts: "carried s (bt_att_cancel_all s) \<and> notify_list (bt_att_cancel_all s) = notify_list s"
proof -
  have f: "carried s u \<and> notify_list u = notify_list s \<Longrightarrow> carried s (fold destroy_att_send_op ops u) \<and> notify_list (fold destroy_att_send_op ops u) = notify_list s" for u ops
    using fold_destroy_facts [of u ops] carried_trans [of s u] by auto
  have q: "carried s u \<and> notify_list u = notify_list s \<Longrightarrow> carried s (u\<lparr>req_queue := []\<rparr>) \<and> notify_list (u\<lparr>req_queue := []\<rparr>) = notify_list s"
    "carried s u \<and> notify_list u = notify_list s \<Longrightarrow> carried s (u\<lparr>ind_queue := []\<rparr>) \<and> notify_list (u\<lparr>ind_queue := []\<rparr>) = notify_list s"
    "carried s u \<and> notify_list u = notify_list s \<Longrightarrow> carried s (u\<lparr>write_queue := []\<rparr>) \<and> notify_list (u\<lparr>write_queue := []\<rparr>) = notify_list s" for u
    by (simp_all add: carried_def)
  have p: "carried u (cancel_pending u) \<and> notify_list (cancel_pending u) = notify_list u" for u :: "'a att"
  proof (cases "chan u")
    case None
    then show ?thesis by (simp add: cancel_pending_def)
  next
    case (Some ch)
    define off where "off = map_option (\<lambda>op :: 'a att_send_op. op\<lparr>op_callback := None, op_destroy := None\<rparr>)"
    define r where "r = (\<lambda>p :: 'a att_send_op option. case p of Some op \<Rightarrow> op_destroy op | None \<Rightarrow> None)"
    let ?v = "release (r (pending_ind ch)) (release (r (pending_req ch)) u)"
    have c: "cancel_pending u = ?v\<lparr>chan := Some (ch\<lparr>pending_req := off (pending_req ch), pending_ind := off (pending_ind ch)\<rparr>)\<rparr>"
      using Some by (auto simp: cancel_pending_def cancel_att_send_op_def off_def r_def release_def [of None] split: option.split)
    have v: "carried u ?v" "notify_list ?v = notify_list u" using release_facts carried_trans [OF release_facts(1) release_facts(1)] by simp_all
    have "same_chan (chan u) (chan (cancel_pending u))" using Some unfolding c by (auto simp: same_chan_def off_def option.map_comp comp_def)
    then show ?thesis using v unfolding c by (simp add: carried_def)
  qed
  let ?u = "fold destroy_att_send_op (req_queue s) (s\<lparr>req_queue := []\<rparr>)"
  let ?v = "fold destroy_att_send_op (ind_queue ?u) (?u\<lparr>ind_queue := []\<rparr>)"
  let ?w = "fold destroy_att_send_op (write_queue ?v) (?v\<lparr>write_queue := []\<rparr>)"
  have "carried s ?w \<and> notify_list ?w = notify_list s" by (intro f q conjI carried_refl refl)
  then show ?thesis using p [of ?w] carried_trans [of s ?w] by (simp add: bt_att_cancel_all_def Let_def)
qed

lemma settings_facts:
  assumes "chan s = Some ch"
  shows "\<exists>r t. bt_att_set_mtu mtu s = Some (r, t) \<and> carried s t \<and> notify_list t = notify_list s"
    and "\<exists>r t. bt_att_set_security level s = Some (r, t) \<and> carried s t \<and> notify_list t = notify_list s"
    and "\<exists>r t. bt_att_chan_send_error_rsp opcode handle err s = Some (r, t) \<and> carried s t \<and> notify_list t = notify_list s"
    and "carried s (snd (bt_att_set_timeout_cb cb de s)) \<and> notify_list (snd (bt_att_set_timeout_cb cb de s)) = notify_list s"
proof -
  show "\<exists>r t. bt_att_set_mtu mtu s = Some (r, t) \<and> carried s t \<and> notify_list t = notify_list s"
    using assms by (auto simp: bt_att_set_mtu_def upd_chan_def intro!: carriedI)
  show "\<exists>r t. bt_att_set_security level s = Some (r, t) \<and> carried s t \<and> notify_list t = notify_list s"
    using assms by (auto simp: bt_att_set_security_def bt_att_chan_set_security_def intro!: carriedI)
  have "BT_ATT_OP_ERROR_RSP AND ATT_OP_SIGNED_MASK = 0" by simp
  from send_facts(2) [OF assms this, of "[opcode, ucast handle, ucast (drop_bit 8 handle), att_ecode_from_error err]" None None]
  show "\<exists>r t. bt_att_chan_send_error_rsp opcode handle err s = Some (r, t) \<and> carried s t \<and> notify_list t = notify_list s"
    by (auto simp: bt_att_chan_send_error_rsp_def)
  show "carried s (snd (bt_att_set_timeout_cb cb de s)) \<and> notify_list (snd (bt_att_set_timeout_cb cb de s)) = notify_list s"
    using release_facts [where s = s and u = "timeout_destroy s"] by (simp add: bt_att_set_timeout_cb_def carried_def)
qed

lemma registry_facts:
  "carried s (snd (bt_att_register opcode cb de s))" "carried s (snd (bt_att_unregister rid s))" "carried s (bt_att_unregister_all s)"
  "carried s (snd (bt_att_register_disconnect cb de s)) \<and> notify_list (snd (bt_att_register_disconnect cb de s)) = notify_list s"
  "carried s (snd (bt_att_unregister_disconnect rid s)) \<and> notify_list (snd (bt_att_unregister_disconnect rid s)) = notify_list s"
proof -
  show "carried s (snd (bt_att_register opcode cb de s))" by (auto simp: bt_att_register_def Let_def intro!: carriedI)
  have n: "carried s (release u (s\<lparr>notify_list := q\<rparr>))" for u q using release_facts(1) [of "s\<lparr>notify_list := q\<rparr>" u] by (simp add: carried_def)
  then show "carried s (snd (bt_att_unregister rid s))" by (auto simp: bt_att_unregister_def split: option.split)
  have "carried s (fold (\<lambda>n. release (nt_destroy n)) (notify_list s) (s\<lparr>notify_list := []\<rparr>))" (is "carried s ?u")
    using fold_release_facts [of "s\<lparr>notify_list := []\<rparr>" nt_destroy "notify_list s"] by (simp add: carried_def)
  then have "carried s (?u\<lparr>disconn_list := []\<rparr>)" by (simp add: carried_def)
  then show "carried s (bt_att_unregister_all s)"
    using fold_release_facts [of "?u\<lparr>disconn_list := []\<rparr>" dc_destroy "disconn_list ?u"] carried_trans by (auto simp: bt_att_unregister_all_def Let_def)
  show "carried s (snd (bt_att_register_disconnect cb de s)) \<and> notify_list (snd (bt_att_register_disconnect cb de s)) = notify_list s"
    by (auto simp: bt_att_register_disconnect_def Let_def intro!: carriedI)
  have d: "carried s (release u (s\<lparr>disconn_list := q\<rparr>)) \<and> notify_list (release u (s\<lparr>disconn_list := q\<rparr>)) = notify_list s" for u q
    using release_facts(1) [of "s\<lparr>disconn_list := q\<rparr>" u] by (simp add: carried_def)
  then show "carried s (snd (bt_att_unregister_disconnect rid s)) \<and> notify_list (snd (bt_att_unregister_disconnect rid s)) = notify_list s"
    by (auto simp: bt_att_unregister_disconnect_def intro!: carriedI split: option.split)
qed

lemma field_facts:
  "carried s (snd (bt_att_set_local_key key cnt s))" "notify_list (snd (bt_att_set_local_key key cnt s)) = notify_list s"
  "carried s (snd (bt_att_set_remote_key key f s))" "notify_list (snd (bt_att_set_remote_key key f s)) = notify_list s"
  "carried s (bt_att_ref s)" "notify_list (bt_att_ref s) = notify_list s"
  by (simp_all add: bt_att_set_local_key_def bt_att_set_remote_key_def bt_att_ref_def carried_def)

lemma exec_carried:
  assumes "defined_call c" and "alive s" and "chan s = Some ch"
  shows "\<exists>t. att_exec c s = Some t \<and> carried s t \<and> (keeps_handlers c \<longrightarrow> notify_list t = notify_list s)"
proof (cases c)
  case (Send opcode pdu cb de)
  then show ?thesis using assms send_facts(1) [OF assms(3), of opcode pdu cb de] by (auto simp: att_exec_def defined_call_def)
next
  case (Chan_send opcode pdu cb de)
  then show ?thesis using assms send_facts(2) [OF assms(3), of opcode pdu cb de] by (auto simp: att_exec_def defined_call_def)
next
  case (Cancel rid)
  then show ?thesis using assms(2) cancel_facts [OF assms(3), of rid] by (auto simp: att_exec_def)
next
  case (Chan_cancel rid)
  then show ?thesis using assms(2) chan_cancel_facts [OF assms(3), of rid] by (auto simp: att_exec_def)
next
  case (Set_mtu mtu)
  then show ?thesis using assms(2) settings_facts(1) [OF assms(3), of mtu] by (auto simp: att_exec_def)
next
  case (Set_security level)
  then show ?thesis using assms(2) settings_facts(2) [OF assms(3), of level] by (auto simp: att_exec_def)
next
  case (Send_error_rsp opcode handle err)
  then show ?thesis using assms(2) settings_facts(3) [OF assms(3), of opcode handle err] by (auto simp: att_exec_def)
qed (use assms in \<open>auto simp: att_exec_def defined_call_def keeps_handlers_def registry_facts settings_facts(4) cancel_all_facts field_facts\<close>)

lemma execs_carried:
  assumes "\<forall>c \<in> set cs. defined_call c" and "alive s" and "chan s = Some ch"
  shows "\<exists>t. att_execs cs s = Some t \<and> carried s t \<and> ((\<forall>c \<in> set cs. keeps_handlers c) \<longrightarrow> notify_list t = notify_list s)"
  using assms
proof (induction cs arbitrary: s ch)
  case (Cons c cs)
  obtain u where u: "att_exec c s = Some u" "carried s u" "keeps_handlers c \<longrightarrow> notify_list u = notify_list s" using exec_carried [of c s ch] Cons.prems by auto
  obtain ch' where ch': "alive u" "chan u = Some ch'" using u(2) Cons.prems(2,3) by (auto simp: carried_def same_chan_def)
  obtain t where "att_execs cs u = Some t" "carried u t" "(\<forall>c \<in> set cs. keeps_handlers c) \<longrightarrow> notify_list t = notify_list u"
    using Cons.IH [OF _ ch'] Cons.prems(1) by auto
  then show ?case using u carried_trans [OF u(2)] by auto
qed simp

lemma callback_carried:
  assumes "script_all defined_call script" and "alive s" and "chan s = Some ch"
  shows "\<exists>t. att_callback script x s = Some t \<and> carried (att_say x s) t \<and> (script_all keeps_handlers script \<longrightarrow> notify_list t = notify_list s)"
  using execs_carried [of "script x (att_say x s)" "att_say x s" ch] assms by (auto simp: att_callback_def Let_def script_all_def)

lemma respond_carried:
  assumes "script_all defined_call script" and "alive s" and "chan s = Some ch"
  shows "\<exists>t. respond script op opcode pdu s = Some t \<and> carried (s\<lparr>att_log := att_log s @ map (\<lambda>u. Response (op_key op) u opcode pdu) (opt_list (op_callback op))\<rparr>) t"
proof (cases "op_callback op")
  case (Some u)
  then show ?thesis using callback_carried [OF assms, of "Response (op_key op) u opcode pdu"] by (auto simp: respond_def att_say_def)
qed (simp add: respond_def)

text \<open>What the code makes of a response \<^term>\<open>r\<close> to the pending request: \<^term>\<open>None\<close> when the request is tried again with more security, otherwise what its callback is told.\<close>

definition verdict :: "'u att \<Rightarrow> 'u bt_att_chan \<Rightarrow> 'u att_send_op \<Rightarrow> byte \<Rightarrow> byte list \<Rightarrow> (byte \<times> byte list) option" where
  "verdict s ch op r pdu =
     (if r = BT_ATT_OP_ERROR_RSP \<and> length pdu = 4 \<and> fst (change_security (pdu ! 3) s ch) then None
      else (let about = (if r \<noteq> BT_ATT_OP_ERROR_RSP then get_req_opcode r else if length pdu = 4 then pdu ! 0 else 0)
            in Some (if about \<noteq> 0 \<and> about = op_opcode op then (r, pdu) else (BT_ATT_OP_ERROR_RSP, []))))"

lemma end_req_total:
  assumes "script_all defined_call script" and "alive s" and "chan s = Some ch" and "pending_req ch = Some op"
  shows "\<exists>t own ch'. end_req script opcode pdu s = Some t \<and> chan t = Some ch' \<and> pending_req ch' = None \<and> alive t \<and> ref_count s \<le> ref_count t
    \<and> list_all minor own \<and> ((\<forall>x s. script x s = []) \<longrightarrow> own = map Released (opt_list (op_destroy op)))
    \<and> att_log t = att_log s @ map (\<lambda>u. Response (op_key op) u opcode pdu) (opt_list (op_callback op)) @ own @ [Freed (op_key op)]"
proof (cases "\<forall>x s. script x s = []")
  case True
  then have q: "script = (\<lambda>_ _. [])" by (intro ext) simp
  show ?thesis unfolding q end_req_quiet [OF assms(3,4)]
    using assms(2) by (auto simp: ends_as_def minor_def list_all_iff)
next
  case False
  let ?s = "s\<lparr>att_log := att_log s @ map (\<lambda>u. Response (op_key op) u opcode pdu) (opt_list (op_callback op))\<rparr>"
  obtain u where u: "respond script op opcode pdu s = Some u" "carried ?s u" using respond_carried [OF assms(1-3)] by blast
  obtain ch' where "chan u = Some ch'" "map_option op_key (pending_req ch') = Some (op_key op)" using u(2) assms(3,4) by (auto simp: carried_def same_chan_def)
  then obtain op' where p: "chan u = Some ch'" "pending_req ch' = Some op'" "op_key op' = op_key op" by auto
  obtain l where l: "att_log u = att_log ?s @ l" "list_all minor l" using u(2) by (auto simp: carried_def)
  let ?t = "destroy_att_send_op op' (u\<lparr>chan := Some (ch'\<lparr>pending_req := None\<rparr>)\<rparr>)"
  have "end_req script opcode pdu s = Some ?t" using assms(3,4) u(1) p(1,2) by (simp add: end_req_def)
  moreover have "att_log ?t = att_log s @ map (\<lambda>u. Response (op_key op) u opcode pdu) (opt_list (op_callback op)) @ (l @ map Released (opt_list (op_destroy op'))) @ [Freed (op_key op)]"
    using l(1) p(3) by (simp add: destroy_log)
  moreover have "list_all minor (l @ map Released (opt_list (op_destroy op')))" using l(2) by (auto simp: minor_def list_all_iff)
  moreover have "alive ?t" "ref_count s \<le> ref_count ?t" using u(2) assms(2) by (simp_all add: carried_def destroy_log)
  ultimately show ?thesis by (intro exI [of _ ?t] exI [of _ "l @ map Released (opt_list (op_destroy op'))"] exI [of _ "ch'\<lparr>pending_req := None\<rparr>"]) (use False in auto)
qed

lemma security_ref [simp]: "fst (change_security e (bt_att_ref s) ch) = fst (change_security e s ch)"
proof -
  have "bt_att_chan_get_security (bt_att_ref s) ch = bt_att_chan_get_security s ch"
    "fst (bt_att_chan_set_security l (bt_att_ref s) ch) = fst (bt_att_chan_set_security l s ch)" for l
    by (simp_all add: bt_att_chan_get_security_def bt_att_chan_set_security_def bt_att_ref_def)
  then show ?thesis by (simp add: change_security_def Let_def)
qed

lemma security_facts:
  assumes "change_security e s ch = (b, u)" and "chan s = Some ch"
  shows "\<exists>l. chan u = Some (ch\<lparr>ch_sec_level := l\<rparr>)" and "alive u = alive s" "ref_count u = ref_count s" "att_log u = att_log s" "req_queue u = req_queue s"
proof -
  show "\<exists>l. chan u = Some (ch\<lparr>ch_sec_level := l\<rparr>)" by (rule security_kept(2) [OF assms])
  have "u = s \<or> (\<exists>l. u = s\<lparr>sock_security := l\<rparr>) \<or> (\<exists>l. u = s\<lparr>chan := Some (ch\<lparr>ch_sec_level := l\<rparr>)\<rparr>)"
    using change_security_cases [of e s ch] assms(1) set_security_cases [of _ s ch b u] by auto
  then show "alive u = alive s" "ref_count u = ref_count s" "att_log u = att_log s" "req_queue u = req_queue s" by auto
qed

text \<open>The end of \<^verbatim>\<open>can_read_data\<close>: the writer is woken up and the reference given back.\<close>

lemma wakeup_unref:
  assumes "chan u = Some ch" and "alive u" and "1 < ref_count u"
  shows "\<exists>t b. wakeup_chan_writer u \<bind> bt_att_unref = Some t \<and> chan t = Some (ch\<lparr>writer_active := b\<rparr>) \<and> att_log t = att_log u \<and> req_queue t = req_queue u"
proof -
  obtain b where b: "wakeup_chan_writer u = Some (u\<lparr>chan := Some (ch\<lparr>writer_active := b\<rparr>)\<rparr>)" using wakeup_total [OF assms(1)] by blast
  show ?thesis using unref_total [of "u\<lparr>chan := Some (ch\<lparr>writer_active := b\<rparr>)\<rparr>"] assms(2,3) by (auto simp: b)
qed

text \<open>
  C23. A response that arrives is handled to the end, for every response and every client whose callbacks make defined calls: they do not give up a reference and
  send no signed or oversized operations. Without a pending request the connection is shut down. An error that the link can answer with
  more security puts the request back in front of the queue, to be sent again. Every other response ends the request: its callback gets the response when
  it answers that request, or else an error, once and before anything else, the operation is freed at the end, and in between only data and operations are given
  up; when callbacks make no calls, that is exactly the data of the request.
\<close>

theorem response_ends_request:
  assumes "alive s" and "0 < ref_count s" and "chan s = Some ch" and "get_op_type r = ATT_OP_TYPE_RSP" and "script_all defined_call script"
  shows "\<exists>t. can_read_data script (Some (r # pdu)) s = Some t \<and> pend ATT_OP_TYPE_REQ t = None
    \<and> (case pending_req ch of
         None \<Rightarrow> att_log t = att_log s @ [Shutdown]
       | Some op \<Rightarrow>
           (case verdict s ch op r pdu of
              None \<Rightarrow> att_log t = att_log s @ [Retried (op_key op)] \<and> req_queue t = op\<lparr>op_timeout_id := False\<rparr> # req_queue s
            | Some (c, b) \<Rightarrow> \<exists>own. att_log t = att_log s @ map (\<lambda>u. Response (op_key op) u c b) (opt_list (op_callback op)) @ own @ [Freed (op_key op)]
                \<and> list_all minor own \<and> ((\<forall>x s. script x s = []) \<longrightarrow> own = map Released (opt_list (op_destroy op)))))"
proof (cases "pending_req ch")
  case None
  then show ?thesis using assms unref_total [of "att_say Shutdown (bt_att_ref s)"]
    by (simp add: can_read_data_def handle_rsp_def bt_att_ref_def pend_def att_say_def)
next
  case (Some op)
  let ?s = "bt_att_ref s"
  have rs: "alive ?s" "chan ?s = Some ch" "1 < ref_count ?s" "att_log ?s = att_log s" "req_queue ?s = req_queue s" using assms(1-3) by (simp_all add: bt_att_ref_def)
  have c: "can_read_data script (Some (r # pdu)) s = handle_rsp script r pdu ?s \<bind> bt_att_unref" using assms(3,4) by (simp add: can_read_data_def)
  obtain b u where b: "change_security (pdu ! 3) ?s ch = (b, u)" by (cases "change_security (pdu ! 3) ?s ch")
  have f: "fst (change_security (pdu ! 3) s ch) = b" using b security_ref [of "pdu ! 3" s ch] by simp
  obtain l where u: "chan u = Some (ch\<lparr>ch_sec_level := l\<rparr>)" "alive u" "1 < ref_count u" "att_log u = att_log s" "req_queue u = req_queue s"
    using security_facts [OF b rs(2)] rs by auto
  show ?thesis
  proof (cases "r = BT_ATT_OP_ERROR_RSP \<and> length pdu = 4 \<and> b")
    case True
    let ?v = "att_say (Retried (op_key op)) (u\<lparr>chan := Some (ch\<lparr>ch_sec_level := l, pending_req := None\<rparr>), req_queue := op\<lparr>op_timeout_id := False\<rparr> # req_queue u\<rparr>)"
    have "handle_rsp script r pdu ?s = wakeup_chan_writer ?v" using True Some rs(2) b u(1) by (simp add: handle_rsp_def handle_error_rsp_def)
    moreover have "verdict s ch op r pdu = None" using True f by (simp add: verdict_def)
    moreover have "\<exists>t b. wakeup_chan_writer ?v \<bind> bt_att_unref = Some t \<and> chan t = Some (ch\<lparr>ch_sec_level := l, pending_req := None, writer_active := b\<rparr>)
        \<and> att_log t = att_log s @ [Retried (op_key op)] \<and> req_queue t = op\<lparr>op_timeout_id := False\<rparr> # req_queue s"
      using wakeup_unref [of ?v "ch\<lparr>ch_sec_level := l, pending_req := None\<rparr>"] u by (simp add: att_say_def)
    ultimately show ?thesis using Some unfolding c by (auto simp: pend_def)
  next
    case False
    define w where "w = (if r = BT_ATT_OP_ERROR_RSP \<and> length pdu = 4 then u else ?s)"
    obtain ch' where w: "chan w = Some ch'" "pending_req ch' = Some op" "alive w" "1 < ref_count w" "att_log w = att_log s"
      using that [of ch] that [of "ch\<lparr>ch_sec_level := l\<rparr>"] rs u Some by (cases "r = BT_ATT_OP_ERROR_RSP \<and> length pdu = 4") (simp_all add: w_def)
    obtain cc bb where v: "verdict s ch op r pdu = Some (cc, bb)" using False f by (cases "verdict s ch op r pdu") (auto simp: verdict_def Let_def split: if_splits)
    have h: "handle_rsp script r pdu ?s = end_req script cc bb w \<bind> wakeup_chan_writer"
      using False v Some rs(2) b f by (auto simp: handle_rsp_def handle_error_rsp_def verdict_def w_def Let_def split: if_splits)
    obtain t own ct where t: "end_req script cc bb w = Some t" "chan t = Some ct" "pending_req ct = None" "alive t" "ref_count w \<le> ref_count t" "list_all minor own"
      "(\<forall>x s. script x s = []) \<longrightarrow> own = map Released (opt_list (op_destroy op))"
      "att_log t = att_log w @ map (\<lambda>u. Response (op_key op) u cc bb) (opt_list (op_callback op)) @ own @ [Freed (op_key op)]"
      using end_req_total [OF assms(5) w(3,1,2), of cc bb] by blast
    obtain t' d where "wakeup_chan_writer t \<bind> bt_att_unref = Some t'" "chan t' = Some (ct\<lparr>writer_active := d\<rparr>)" "att_log t' = att_log t"
      using wakeup_unref [OF t(2,4)] t(5) w(4) by auto
    then show ?thesis using Some v h t w(5) unfolding c by (intro exI [of _ t']) (auto simp: pend_def)
  qed
qed

text \<open>The state in which the read request of the demonstration waits for its answer.\<close>

lemma demo_pending:
  "\<exists>s ch op. att_does (\<lambda>_ _. []) (take 3 demo_events) demo_att = Some s \<and> alive s \<and> ref_count s = 1 \<and> chan s = Some ch
    \<and> pending_req ch = Some op \<and> op_opcode op = 0x0A \<and> ends_as op 0x0B [42] = [Response 0 7 0x0B [42], Freed 0]
    \<and> att_log s = [Wrote 0 ATT_OP_TYPE_REQ [0x0A, 3, 0] 3]"
  by (simp add: demo_events_def att_eval ends_as_def)

theorem response_ends_request_witness:
  "\<exists>s t. att_does (\<lambda>_ _. []) (take 3 demo_events) demo_att = Some s \<and> can_read_data (\<lambda>_ _. []) (Some [0x0B, 42]) s = Some t
    \<and> att_log t = att_log s @ [Response 0 7 0x0B [42], Freed 0]"
proof -
  obtain s ch op where d: "att_does (\<lambda>_ _. []) (take 3 demo_events) demo_att = Some s" "alive s" "ref_count s = 1" "chan s = Some ch"
    "pending_req ch = Some op" "op_opcode op = 0x0A" "ends_as op 0x0B [42] = [Response 0 7 0x0B [42], Freed 0]"
    using demo_pending by blast
  have v: "verdict s ch op 0x0B [42] = Some (0x0B, [42])" using d(6) by (simp add: verdict_def)
  show ?thesis using response_ends_request [OF d(2) _ d(4), where r = "0x0B" and pdu = "[42]" and script = "\<lambda>_ _. []"] d v
    by (auto simp: script_all_def ends_as_def)
qed

subsection \<open>Failed writes\<close>

text \<open>
  A request whose write fails, with a negative error number, is treated as sent: it becomes the pending request, no callback is
  told, and its client waits for the timer, which shuts the connection down. Only a write of no bytes is handled as the failure it is.
\<close>

theorem failed_write_pending:
  assumes "chan s = Some ch" and "ch_queue ch = []" and "write_queue s = []" and "pending_req ch = None" and "req_queue s = op # q"
    and "length (op_pdu op) \<le> unat (ch_mtu ch)" and "op_type op = ATT_OP_TYPE_REQ" and "ret < 0"
  shows "write_event script ret s = Some (s\<lparr>req_queue := q, chan := Some (ch\<lparr>pending_req := Some (op\<lparr>op_timeout_id := True\<rparr>)\<rparr>),
      att_log := att_log s @ [Wrote (op_key op) ATT_OP_TYPE_REQ (op_pdu op) ret]\<rparr>)
    \<and> write_event (\<lambda>_ _. []) 0 s = Some (s\<lparr>req_queue := q, att_log := att_log s @ ends_as op BT_ATT_OP_ERROR_RSP []\<rparr>)"
  using assms by (simp add: write_event_def can_write_data_def pick_next_send_op_def upd_chan_def att_say_def Let_def respond_quiet destroy_log ends_as_def)

theorem failed_write_pending_witness:
  "\<exists>s t ch. att_does (\<lambda>_ _. []) (take 1 demo_events) demo_att = Some s \<and> write_event (\<lambda>_ _. []) (- EIO) s = Some t
    \<and> chan t = Some ch \<and> pending_req ch \<noteq> None \<and> responded (att_log t) = []"
proof -
  obtain s ch op where d: "att_does (\<lambda>_ _. []) (take 1 demo_events) demo_att = Some s" "chan s = Some ch" "ch_queue ch = []"
    "write_queue s = []" "pending_req ch = None" "req_queue s = op # []" "length (op_pdu op) \<le> unat (ch_mtu ch)"
    "op_type op = ATT_OP_TYPE_REQ" "att_log s = []"
    by (simp add: demo_events_def att_eval)
  show ?thesis using failed_write_pending [OF d(2-8), of "- EIO" "\<lambda>_ _. []"] d(1,9) by (auto simp: responded_def)
qed

subsection \<open>Incoming operations\<close>

text \<open>What the registered handlers are told of an incoming operation.\<close>

definition hears :: "byte \<Rightarrow> byte list \<Rightarrow> 'u att_notify list \<Rightarrow> 'u att_out list" where
  "hears opcode pdu ns = concat (map (\<lambda>n. if opcode_match (nt_opcode n) opcode then map (\<lambda>u. Notified u opcode pdu) (opt_list (nt_callback n)) else []) ns)"

lemma hears_simps [simp]:
  "hears opcode pdu [] = []"
  "hears opcode pdu (n # ns) = (if opcode_match (nt_opcode n) opcode then map (\<lambda>u. Notified u opcode pdu) (opt_list (nt_callback n)) else []) @ hears opcode pdu ns"
  by (simp_all add: hears_def)

definition first_key :: "'u att_notify list \<Rightarrow> nat option" where
  "first_key ns = (case ns of [] \<Rightarrow> None | n # _ \<Rightarrow> Some (nt_key n))"

lemma keys_split:
  assumes "distinct (map nt_key (us @ n # vs))"
  shows "find (\<lambda>m. nt_key m = nt_key n) (us @ n # vs) = Some n" and "next_key (nt_key n) (us @ n # vs) = first_key vs"
proof -
  have "nt_key n \<notin> nt_key ` set us" using assms by simp
  then have u: "\<forall>m \<in> set us. nt_key m \<noteq> nt_key n" by (metis image_eqI)
  then show "find (\<lambda>m. nt_key m = nt_key n) (us @ n # vs) = Some n" by (induction us) auto
  have "dropWhile (\<lambda>m. nt_key m \<noteq> nt_key n) (us @ n # vs) = n # vs" using u by (induction us) auto
  then show "next_key (nt_key n) (us @ n # vs) = first_key vs" by (simp add: next_key_def first_key_def split: list.split)
qed

lemma notify_loop_quiet:
  assumes "notify_list s = us @ vs" and "distinct (map nt_key (notify_list s))" and "\<not> (bt_att_get_link_type s = BT_ATT_BREDR \<and> opcode = BT_ATT_OP_MTU_REQ)"
  shows "notify_loop (\<lambda>_ _. []) opcode pdu found (first_key vs) s
    = Some (found \<or> (\<exists>n \<in> set vs. opcode_match (nt_opcode n) opcode), s\<lparr>att_log := att_log s @ hears opcode pdu vs\<rparr>)"
  using assms
proof (induction vs arbitrary: us found s)
  case Nil
  then show ?case by (simp add: first_key_def notify_loop.simps)
next
  case (Cons n vs)
  have k: "find (\<lambda>m. nt_key m = nt_key n) (notify_list s) = Some n" "next_key (nt_key n) (notify_list s) = first_key vs"
    using keys_split [of us n vs] Cons.prems(1,2) by simp_all
  have n: "first_key (n # vs) = Some (nt_key n)" by (simp add: first_key_def)
  let ?t = "s\<lparr>att_log := att_log s @ map (\<lambda>u. Notified u opcode pdu) (opt_list (nt_callback n))\<rparr>"
  have cb: "(case nt_callback n of Some u \<Rightarrow> att_callback (\<lambda>_ _. []) (Notified u opcode pdu) s | None \<Rightarrow> Some s) = Some ?t"
    by (simp add: att_callback_def att_say_def split: option.split)
  have ih: "notify_loop (\<lambda>_ _. []) opcode pdu found (first_key vs) s
      = Some (found \<or> (\<exists>n \<in> set vs. opcode_match (nt_opcode n) opcode), s\<lparr>att_log := att_log s @ hears opcode pdu vs\<rparr>)"
    using Cons.IH [of s "us @ [n]"] Cons.prems by simp
  have it: "notify_loop (\<lambda>_ _. []) opcode pdu True (first_key vs) ?t = Some (True, ?t\<lparr>att_log := att_log ?t @ hears opcode pdu vs\<rparr>)"
    using Cons.IH [of ?t "us @ [n]"] Cons.prems by (simp add: bt_att_get_link_type_def)
  show ?case using Cons.prems(1,3) k ih it cb unfolding n by (subst notify_loop.simps) (auto simp: Let_def)
qed

lemma error_rsp_total:
  assumes "chan s = Some ch"
  shows "\<exists>t. respond_not_supported opcode s = Some t \<and> att_log t = att_log s \<and> alive t = alive s \<and> ref_count t = ref_count s"
proof -
  have w: "chan v = Some ch \<Longrightarrow> \<exists>t. wakeup_writer v = Some t \<and> att_log t = att_log v \<and> alive t = alive v \<and> ref_count t = ref_count v" for v
    using wakeup_total [of v ch] by (auto simp: wakeup_writer_def)
  let ?r = "create_att_send_op s BT_ATT_OP_ERROR_RSP [opcode, 0, 0, 0x06] None None"
  have "?r = Some None \<or> (\<exists>op. ?r = Some (Some op) \<and> op_type op = ATT_OP_TYPE_RSP)"
    by (simp add: create_att_send_op_def encode_pdu_def Let_def)
  then show ?thesis
  proof (elim disjE exE conjE)
    fix op assume r: "?r = Some (Some op)" "op_type op = ATT_OP_TYPE_RSP"
    let ?i = "if next_send_id s < 1 then 1 else next_send_id s"
    let ?v = "s\<lparr>next_send_id := ?i + 1, op_brk := op_brk s + 1, write_queue := write_queue s @ [op\<lparr>op_id := ?i\<rparr>]\<rparr>"
    show ?thesis using r assms w [of ?v] by (auto simp: respond_not_supported_def bt_att_send_def Let_def)
  qed (simp add: respond_not_supported_def bt_att_send_def)
qed

lemma handle_notify_quiet:
  assumes "alive s" and "1 < ref_count s" and "chan s = Some ch" and "distinct (map nt_key (notify_list s))"
    and "\<not> (bt_att_get_link_type s = BT_ATT_BREDR \<and> opcode = BT_ATT_OP_MTU_REQ)" and "opcode AND ATT_OP_SIGNED_MASK = 0 \<or> crypto s \<noteq> None"
  shows "\<exists>t. handle_notify (\<lambda>_ _. []) opcode pdu s = Some t \<and> att_log t = att_log s @ hears opcode pdu (notify_list s)
    \<and> alive t \<and> ref_count t = ref_count s"
proof -
  define v where v: "v = (bt_att_ref s)\<lparr>att_log := att_log s @ hears opcode pdu (notify_list s)\<rparr>"
  let ?f = "\<exists>n \<in> set (notify_list s). opcode_match (nt_opcode n) opcode"
  have l: "notify_loop (\<lambda>_ _. []) opcode pdu False (case notify_list s of [] \<Rightarrow> None | n # _ \<Rightarrow> Some (nt_key n)) (bt_att_ref s) = Some (?f, v)"
    using notify_loop_quiet [of "bt_att_ref s" "[]" "notify_list s" opcode pdu False] assms(4,5)
    by (simp add: v first_key_def bt_att_ref_def bt_att_get_link_type_def)
  have w: "chan v = Some ch" "alive v" "att_log v = att_log s @ hears opcode pdu (notify_list s)" "ref_count v = ref_count s + 1"
    using assms(1,3) by (simp_all add: v bt_att_ref_def)
  have "\<exists>u. (if B then respond_not_supported opcode v else Some v) = Some u \<and> att_log u = att_log v \<and> alive u \<and> ref_count u = ref_count v" for B
    using error_rsp_total [OF w(1), of opcode] w(2) by (cases B) simp_all
  then obtain u where u: "(if \<not> ?f \<and> get_op_type opcode \<noteq> ATT_OP_TYPE_CMD then respond_not_supported opcode v else Some v) = Some u"
    "att_log u = att_log v" "alive u" "ref_count u = ref_count v" by blast
  have "handle_notify (\<lambda>_ _. []) opcode pdu s = bt_att_unref u"
    using assms(6) l u(1) by (auto simp: handle_notify_def Let_def)
  then show ?thesis using u(2-4) w(3,4) assms(2) unref_total [of u] by simp
qed











text \<open>
  C27. Signed commands are not verified. With cryptography available, a signed write reaches every handler registered for it,
  with its signature as part of the value, whatever the signature is and whether or not a key is known; without
  cryptography it is always dropped, even when a key is known.
\<close>

theorem signed_write_unverified:
  assumes "alive s" and "0 < ref_count s" and "chan s = Some ch" and "distinct (map nt_key (notify_list s))"
  shows "\<exists>t. can_read_data (\<lambda>_ _. []) (Some (BT_ATT_OP_SIGNED_WRITE_CMD # pdu)) s = Some t
    \<and> att_log t = att_log s @ (if crypto s = None then [] else hears BT_ATT_OP_SIGNED_WRITE_CMD pdu (notify_list s))"
proof -
  let ?s = "bt_att_ref s"
  have r: "can_read_data (\<lambda>_ _. []) (Some (BT_ATT_OP_SIGNED_WRITE_CMD # pdu)) s = handle_notify (\<lambda>_ _. []) BT_ATT_OP_SIGNED_WRITE_CMD pdu ?s \<bind> bt_att_unref"
    using assms(3) by (simp add: can_read_data_def Let_def)
  show ?thesis
  proof (cases "crypto s")
    case None
    then have "handle_notify (\<lambda>_ _. []) BT_ATT_OP_SIGNED_WRITE_CMD pdu ?s = Some ?s"
      by (simp add: handle_notify_def handle_signed_def bt_att_ref_def Let_def split: option.split)
    then show ?thesis unfolding r using None assms(1,2) unref_total [of ?s] by (simp add: bt_att_ref_def)
  next
    case (Some sign)
    then show ?thesis unfolding r using assms handle_notify_quiet [of ?s ch BT_ATT_OP_SIGNED_WRITE_CMD pdu] unref_total
      by (fastforce simp: bt_att_ref_def)
  qed
qed

definition demo_crypto :: "nat att" where
  "demo_crypto = the (bt_att_new BT_ATT_LE 0 True (Some (\<lambda>key m cnt. Some (replicate 12 0))) (Some 1) False True)"

theorem signed_write_unverified_witness:
  "\<exists>s t. att_does (\<lambda>_ _. []) [Call (Register 0xD2 (Some 1) None)] demo_crypto = Some s
    \<and> can_read_data (\<lambda>_ _. []) (Some [0xD2, 3, 0, 77]) s = Some t \<and> att_log t = [Notified 1 0xD2 [3, 0, 77]]"
proof -
  obtain s ch where d: "att_does (\<lambda>_ _. []) [Call (Register 0xD2 (Some 1) None)] demo_crypto = Some s" "alive s" "0 < ref_count s"
    "chan s = Some ch" "distinct (map nt_key (notify_list s))" "att_log s = []" "crypto s \<noteq> None"
    "hears 0xD2 [3, 0, 77] (notify_list s) = [Notified 1 0xD2 [3, 0, 77]]"
    by (simp add: demo_crypto_def att_eval bt_att_register_def opcode_match_def)
  show ?thesis using signed_write_unverified [OF d(2-5), of "[3, 0, 77]"] d(1,6-8) by auto
qed

end
