(* ===== verification/Gatt_Db.thy ===== *)
theory Gatt_Db
  imports Bt_Uuid "HOL-Library.Multiset"
begin

text \<open>
  The attribute database of GATT, \<^verbatim>\<open>bluez_deps/src/shared/gatt-db.c\<close>: services with their attributes,
  lookup by handle and type, declarations of characteristics and included services, reading and writing of
  attributes with their pending requests, and the hash over the database.

  A pointer to an attribute is the number of its service and its index there; attributes are never moved or freed
  one by one. A pointer into a service that was removed is dangling: using it is undefined (\<^term>\<open>None\<close>). Callbacks with
  their user data are names; the log records that they are called. What a callback itself calls comes after the call that
  runs it, as in the program, where callbacks are called last. Requests carry the number of
  their order so that the log can say which one was answered. Bytes that were allocated and never written are \<^term>\<open>None\<close>.
  Allocations succeed, and references to the database are not counted: it lives as long as it is used.
\<close>

subsection \<open>Data\<close>

type_synonym aptr = "nat \<times> nat"

abbreviation "GATT_PRIM_SVC_UUID \<equiv> (0x2800 :: u16)"
abbreviation "GATT_SND_SVC_UUID \<equiv> (0x2801 :: u16)"
abbreviation "GATT_INCLUDE_UUID \<equiv> (0x2802 :: u16)"
abbreviation "GATT_CHARAC_UUID \<equiv> (0x2803 :: u16)"
abbreviation "primary_service_uuid \<equiv> BT_UUID16 GATT_PRIM_SVC_UUID"
abbreviation "secondary_service_uuid \<equiv> BT_UUID16 GATT_SND_SVC_UUID"
abbreviation "characteristic_uuid \<equiv> BT_UUID16 GATT_CHARAC_UUID"
abbreviation "included_service_uuid \<equiv> BT_UUID16 GATT_INCLUDE_UUID"
abbreviation "ext_desc_uuid \<equiv> BT_UUID16 0x2900"
abbreviation "BT_ATT_PERM_READ \<equiv> (0x01 :: u32)"
abbreviation "BT_ATT_ERROR_INVALID_OFFSET \<equiv> (0x07 :: int)"
abbreviation "ECANCELED \<equiv> (125 :: int)"
abbreviation "ETIMEDOUT \<equiv> (110 :: int)"

record 'u pending =
  pd_num :: nat
  pd_id :: u32
  pd_func :: 'u

record 'u gatt_db_attribute =
  ga_handle :: u16
  ga_uuid :: bt_uuid
  permissions :: u32
  value_len :: u16
  ga_value :: "byte option list"
  read_func :: "'u option"
  write_func :: "'u option"
  read_id :: u32
  pending_reads :: "'u pending list"
  write_id :: u32
  pending_writes :: "'u pending list"

record 'u gatt_db_service =
  sv_key :: nat
  sv_active :: bool
  claimed :: bool
  num_handles :: u16
  attributes :: "'u gatt_db_attribute option list"

record 'u db_notify =
  gn_id :: u32
  service_added :: "'u option"
  service_removed :: "'u option"
  gn_destroy :: "'u option"

datatype 'u db_out =
    Read_done nat 'u aptr int "byte option list"
  | Write_done nat 'u aptr int
  | Asked_read 'u aptr u32 u16 byte
  | Asked_write 'u aptr u32 u16 "byte list" byte
  | Service_added 'u aptr
  | Service_removed 'u aptr
  | Unregistered 'u

text \<open>\<^verbatim>\<open>gatt_hash\<close> is \<^verbatim>\<open>bt_crypto_gatt_hash\<close>, absent without \<^verbatim>\<open>crypto\<close>; \<^verbatim>\<open>hash_id\<close> says that the timer of the hash runs.\<close>

record 'u gatt_db =
  gatt_hash :: "(byte option list list \<Rightarrow> byte list option) option"
  db_hash :: "byte list"
  hash_id :: bool
  next_handle :: u16
  services :: "'u gatt_db_service list"
  db_notify_list :: "'u db_notify list"
  next_notify_id :: u32
  authorize :: "(aptr \<Rightarrow> byte \<Rightarrow> byte) option"
  sv_brk :: nat
  rq_brk :: nat
  db_log :: "'u db_out list"

definition db_say :: "'u db_out list \<Rightarrow> 'u gatt_db \<Rightarrow> 'u gatt_db" where
  "db_say xs db = db\<lparr>db_log := db_log db @ xs\<rparr>"

definition gatt_db_new :: "(byte option list list \<Rightarrow> byte list option) option \<Rightarrow> 'u gatt_db" where
  "gatt_db_new crypt = \<lparr>gatt_hash = crypt, db_hash = replicate 16 0, hash_id = False, next_handle = 1, services = [],
     db_notify_list = [], next_notify_id = 0, authorize = None, sv_brk = 0, rq_brk = 0, db_log = []\<rparr>"

subsection \<open>Following pointers\<close>

definition get_svc :: "nat \<Rightarrow> 'u gatt_db \<Rightarrow> 'u gatt_db_service option" where
  "get_svc k db = find (\<lambda>s. sv_key s = k) (services db)"

definition put_svc :: "'u gatt_db_service \<Rightarrow> 'u gatt_db \<Rightarrow> 'u gatt_db" where
  "put_svc s db = db\<lparr>services := map (\<lambda>t. if sv_key t = sv_key s then s else t) (services db)\<rparr>"

definition svc_attr :: "nat \<Rightarrow> 'u gatt_db_service \<Rightarrow> 'u gatt_db_attribute option" where
  "svc_attr i s = Option.bind (lst_get (attributes s) i) (\<lambda>a. a)"

definition get_attr :: "aptr \<Rightarrow> 'u gatt_db \<Rightarrow> 'u gatt_db_attribute option" where
  "get_attr p db = do { s \<leftarrow> get_svc (fst p) db; svc_attr (snd p) s }"

definition put_attr :: "aptr \<Rightarrow> 'u gatt_db_attribute \<Rightarrow> 'u gatt_db \<Rightarrow> 'u gatt_db option" where
  "put_attr p a db = do { s \<leftarrow> get_svc (fst p) db; Some (put_svc (s\<lparr>attributes := (attributes s)[snd p := Some a]\<rparr>) db) }"

subsection \<open>Attributes\<close>

definition new_attribute :: "u16 \<Rightarrow> bt_uuid \<Rightarrow> byte list \<Rightarrow> 'u gatt_db_attribute" where
  "new_attribute handle type val = \<lparr>ga_handle = handle, ga_uuid = type, permissions = 0, value_len = word_of_nat (length val),
     ga_value = map Some val, read_func = None, write_func = None, read_id = 0, pending_reads = [], write_id = 0, pending_writes = []\<rparr>"

definition set_attribute_data :: "'u option \<Rightarrow> 'u option \<Rightarrow> u32 \<Rightarrow> 'u gatt_db_attribute \<Rightarrow> 'u gatt_db_attribute" where
  "set_attribute_data rd wr perm a = a\<lparr>permissions := perm, read_func := rd, write_func := wr\<rparr>"

text \<open>\<^verbatim>\<open>attribute_destroy\<close>: the pending requests are answered with \<^verbatim>\<open>-ECANCELED\<close>, reads first.\<close>

definition attribute_destroy :: "aptr \<Rightarrow> 'u gatt_db_attribute \<Rightarrow> 'u db_out list" where
  "attribute_destroy p a = map (\<lambda>r. Read_done (pd_num r) (pd_func r) p (- ECANCELED) []) (pending_reads a)
     @ map (\<lambda>r. Write_done (pd_num r) (pd_func r) p (- ECANCELED)) (pending_writes a)"

subsection \<open>UUIDs and numbers in attribute values\<close>

definition put_le16 :: "u16 \<Rightarrow> byte list" where
  "put_le16 v = rev (be16 v)"

definition get_le16 :: "byte list \<Rightarrow> u16" where
  "get_le16 b = word_of_int (be_val (rev (take 2 b)))"

definition uuid_to_le :: "bt_uuid \<Rightarrow> byte list option" where
  "uuid_to_le uuid = (case uuid of BT_UUID16 v \<Rightarrow> Some (put_le16 v) | _ \<Rightarrow> map_option (\<lambda>u. rev (uuid_bytes u)) (bt_uuid_to_uuid128 uuid))"

definition le_to_uuid :: "byte list \<Rightarrow> bt_uuid option" where
  "le_to_uuid src = (if length src = 2 then Some (BT_UUID16 (get_le16 src))
     else if length src = 4 then Some (BT_UUID32 (word_of_int (be_val (rev src))))
     else if length src = 16 then Some (BT_UUID128 (rev src)) else None)"

text \<open>Reading \<^term>\<open>n\<close> bytes of a stored value; outside the buffer or never written, they have no value.\<close>

definition val_bytes :: "nat \<Rightarrow> 'u gatt_db_attribute \<Rightarrow> byte list option" where
  "val_bytes n a = (if n \<le> length (ga_value a) then those (take n (ga_value a)) else None)"

subsection \<open>Services\<close>

definition sv_start :: "'u gatt_db_service \<Rightarrow> u16" where
  "sv_start s = (case svc_attr 0 s of Some a \<Rightarrow> ga_handle a | None \<Rightarrow> 0)"

definition gatt_db_service_get_handles :: "'u gatt_db_service \<Rightarrow> u16 \<times> u16" where
  "gatt_db_service_get_handles s = (sv_start s, sv_start s + num_handles s - 1)"

definition gatt_db_service_create :: "nat \<Rightarrow> bt_uuid \<Rightarrow> u16 \<Rightarrow> bool \<Rightarrow> u16 \<Rightarrow> 'u gatt_db_service option" where
  "gatt_db_service_create key uuid handle primary n = do {
     value \<leftarrow> uuid_to_le uuid;
     let a = new_attribute handle (if primary then primary_service_uuid else secondary_service_uuid) value;
     Some \<lparr>sv_key = key, sv_active = False, claimed = False, num_handles = n,
       attributes = Some (set_attribute_data None None BT_ATT_PERM_READ a) # replicate (unat n - 1) None\<rparr>
   }"

definition gatt_db_attribute_get_service_uuid :: "'u gatt_db_service \<Rightarrow> (bool \<times> bt_uuid) option" where
  "gatt_db_attribute_get_service_uuid s = do {
     a \<leftarrow> svc_attr 0 s;
     if value_len a = 2 then do { b \<leftarrow> val_bytes 2 a; Some (True, BT_UUID16 (get_le16 b)) }
     else if value_len a = 16 then do { b \<leftarrow> val_bytes 16 a; Some (True, BT_UUID128 (rev b)) }
     else Some (False, BT_UUID_UNSPEC)
   }"

fun find_insert_loc :: "u16 \<Rightarrow> u16 \<Rightarrow> 'u gatt_db_service option \<Rightarrow> 'u gatt_db_service list \<Rightarrow> 'u gatt_db_service option \<times> 'u gatt_db_service option" where
  "find_insert_loc start end after [] = (None, after)"
| "find_insert_loc start end after (s # ss) =
     (let (cur_start, cur_end) = gatt_db_service_get_handles s
      in if start \<ge> cur_start \<and> start \<le> cur_end then (Some s, after)
         else if end \<ge> cur_start \<and> end \<le> cur_end then (Some s, after)
         else if end < cur_start then (None, after)
         else find_insert_loc start end (Some s) ss)"

fun push_after :: "nat \<Rightarrow> 'u gatt_db_service \<Rightarrow> 'u gatt_db_service list \<Rightarrow> 'u gatt_db_service list" where
  "push_after k new [] = []"
| "push_after k new (s # ss) = (if sv_key s = k then s # new # ss else s # push_after k new ss)"

definition gatt_db_insert_service :: "u16 \<Rightarrow> bt_uuid \<Rightarrow> bool \<Rightarrow> u16 \<Rightarrow> 'u gatt_db \<Rightarrow> (aptr option \<times> 'u gatt_db) option" where
  "gatt_db_insert_service handle uuid primary n db =
     (let handle = (if handle = 0 then next_handle db else handle)
      in if n < 1 \<or> uint handle + uint n - 1 > 0xFFFF then Some (None, db)
         else case find_insert_loc handle (handle + n - 1) None (services db) of
             (Some s, _) \<Rightarrow> do {
               a \<leftarrow> svc_attr 0 s;
               (_, value) \<leftarrow> gatt_db_attribute_get_service_uuid s;
               c \<leftarrow> bt_uuid_cmp (ga_uuid a) (if primary then primary_service_uuid else secondary_service_uuid);
               d \<leftarrow> (if c = 0 then bt_uuid_cmp value uuid else Some 1);
               Some (if c = 0 \<and> d = 0 \<and> num_handles s = n \<and> ga_handle a = handle then Some (sv_key s, 0) else None, db)
             }
           | (None, after) \<Rightarrow> do {
               s \<leftarrow> gatt_db_service_create (sv_brk db) uuid handle primary n;
               let ss = (case after of Some t \<Rightarrow> push_after (sv_key t) s (services db) | None \<Rightarrow> s # services db);
               Some (Some (sv_brk db, 0), db\<lparr>services := ss, sv_brk := sv_brk db + 1,
                 next_handle := word_of_int (max (uint handle + uint n) (uint (next_handle db)))\<rparr>)
             })"

definition gatt_db_add_service :: "bt_uuid \<Rightarrow> bool \<Rightarrow> u16 \<Rightarrow> 'u gatt_db \<Rightarrow> (aptr option \<times> 'u gatt_db) option" where
  "gatt_db_add_service uuid primary n db = gatt_db_insert_service 0 uuid primary n db"

subsection \<open>Watching services\<close>

text \<open>\<^verbatim>\<open>handle_notify\<close> calls the callback without a check; a client may have registered only one of the two.\<close>

definition handle_service_notify :: "bool \<Rightarrow> aptr \<Rightarrow> 'u db_notify \<Rightarrow> 'u db_out option" where
  "handle_service_notify added p n = (if added then map_option (\<lambda>u. Service_added u p) (service_added n) else map_option (\<lambda>u. Service_removed u p) (service_removed n))"

definition notify_service_changed :: "'u gatt_db_service \<Rightarrow> bool \<Rightarrow> 'u gatt_db \<Rightarrow> 'u gatt_db option" where
  "notify_service_changed s added db =
     (if db_notify_list db = [] then Some db
      else do {
        out \<leftarrow> those (map (handle_service_notify added (sv_key s, 0)) (db_notify_list db));
        let db = db_say out db;
        Some (if \<not> hash_id db \<and> gatt_hash db \<noteq> None then db\<lparr>hash_id := True\<rparr> else db)
      })"

definition gatt_db_service_destroy :: "'u gatt_db_service \<Rightarrow> 'u gatt_db \<Rightarrow> 'u gatt_db option" where
  "gatt_db_service_destroy s db = do {
     db \<leftarrow> (if sv_active s then notify_service_changed s False db else Some db);
     Some (db_say (concat (map (\<lambda>(i, a). case a of None \<Rightarrow> [] | Some a \<Rightarrow> attribute_destroy (sv_key s, i) a) (enumerate 0 (attributes s)))) db)
   }"

fun destroy_services :: "'u gatt_db_service list \<Rightarrow> 'u gatt_db \<Rightarrow> 'u gatt_db option" where
  "destroy_services [] db = Some db"
| "destroy_services (s # ss) db = do { db \<leftarrow> gatt_db_service_destroy s db; destroy_services ss db }"

definition gatt_db_remove_service :: "aptr \<Rightarrow> 'u gatt_db \<Rightarrow> (bool \<times> 'u gatt_db) option" where
  "gatt_db_remove_service p db = do {
     _ \<leftarrow> get_attr p db;
     s \<leftarrow> get_svc (fst p) db;
     db \<leftarrow> gatt_db_service_destroy s (db\<lparr>services := filter (\<lambda>t. sv_key t \<noteq> fst p) (services db)\<rparr>);
     Some (True, db)
   }"

definition match_range :: "u16 \<Rightarrow> u16 \<Rightarrow> 'u gatt_db_service \<Rightarrow> bool" where
  "match_range start end s = (let (svc_start, svc_end) = gatt_db_service_get_handles s in svc_start \<le> end \<and> svc_end \<ge> start)"

definition gatt_db_isempty :: "'u gatt_db \<Rightarrow> bool" where
  "gatt_db_isempty db \<longleftrightarrow> services db = []"

definition gatt_db_clear_range :: "u16 \<Rightarrow> u16 \<Rightarrow> 'u gatt_db \<Rightarrow> (bool \<times> 'u gatt_db) option" where
  "gatt_db_clear_range start end db =
     (if start > end then Some (False, db)
      else do {
        let gone = (if start = 1 \<and> end = 0xFFFF then (\<lambda>s. True) else match_range start end);
        db \<leftarrow> destroy_services (filter gone (services db)) (db\<lparr>services := filter (\<lambda>s. \<not> gone s) (services db)\<rparr>);
        Some (True, if gatt_db_isempty db then db\<lparr>next_handle := 0\<rparr> else db)
      })"

definition gatt_db_clear :: "'u gatt_db \<Rightarrow> (bool \<times> 'u gatt_db) option" where
  "gatt_db_clear db = gatt_db_clear_range 1 0xFFFF db"

definition gatt_db_register :: "'u option \<Rightarrow> 'u option \<Rightarrow> 'u option \<Rightarrow> 'u gatt_db \<Rightarrow> u32 \<times> 'u gatt_db" where
  "gatt_db_register added removed destroy db =
     (if added = None \<and> removed = None then (0, db)
      else (let i = (if next_notify_id db < 1 then 1 else next_notify_id db)
            in (i, db\<lparr>next_notify_id := i + 1, db_notify_list := db_notify_list db
                 @ [\<lparr>gn_id = i, service_added = added, service_removed = removed, gn_destroy = destroy\<rparr>]\<rparr>)))"

definition gatt_db_unregister :: "u32 \<Rightarrow> 'u gatt_db \<Rightarrow> bool \<times> 'u gatt_db" where
  "gatt_db_unregister rid db =
     (if rid = 0 then (False, db)
      else case List.extract (\<lambda>n. gn_id n = rid) (db_notify_list db) of None \<Rightarrow> (False, db)
      | Some (us, n, vs) \<Rightarrow> (True, db_say (case gn_destroy n of Some u \<Rightarrow> [Unregistered u] | None \<Rightarrow> []) (db\<lparr>db_notify_list := us @ vs\<rparr>)))"

definition gatt_db_set_authorize :: "(aptr \<Rightarrow> byte \<Rightarrow> byte) option \<Rightarrow> 'u gatt_db \<Rightarrow> bool \<times> 'u gatt_db" where
  "gatt_db_set_authorize cb db = (True, db\<lparr>authorize := cb\<rparr>)"

definition gatt_db_service_set_active :: "aptr \<Rightarrow> bool \<Rightarrow> 'u gatt_db \<Rightarrow> (bool \<times> 'u gatt_db) option" where
  "gatt_db_service_set_active p active db = do {
     _ \<leftarrow> get_attr p db;
     s \<leftarrow> get_svc (fst p) db;
     if sv_active s = active then Some (True, db)
     else do {
       let s = s\<lparr>sv_active := active\<rparr>;
       db \<leftarrow> notify_service_changed s active (put_svc s db);
       Some (True, db)
     }
   }"

definition gatt_db_service_set_claimed :: "aptr \<Rightarrow> bool \<Rightarrow> 'u gatt_db \<Rightarrow> (bool \<times> 'u gatt_db) option" where
  "gatt_db_service_set_claimed p b db = do {
     _ \<leftarrow> get_attr p db;
     s \<leftarrow> get_svc (fst p) db;
     Some (True, put_svc (s\<lparr>claimed := b\<rparr>) db)
   }"

subsection \<open>Adding attributes to a service\<close>

text \<open>\<^verbatim>\<open>get_attribute_index\<close>: the first free index, or 0 when the service has no room for \<^term>\<open>off + 1\<close> attributes.\<close>

definition get_attribute_index :: "'u gatt_db_service \<Rightarrow> nat \<Rightarrow> nat" where
  "get_attribute_index s off =
     (let n = unat (num_handles s) - off; i = length (takeWhile (\<lambda>a. a \<noteq> None) (take n (attributes s)))
      in if i = n then 0 else i)"

definition get_handle_at_index :: "'u gatt_db_service \<Rightarrow> nat \<Rightarrow> u16 option" where
  "get_handle_at_index s i = map_option ga_handle (svc_attr i s)"

definition set_attr :: "nat \<Rightarrow> 'u gatt_db_attribute \<Rightarrow> 'u gatt_db_service \<Rightarrow> 'u gatt_db_service option" where
  "set_attr i a s = do { as \<leftarrow> lst_set (attributes s) i (Some a); Some (s\<lparr>attributes := as\<rparr>) }"

definition service_insert_characteristic :: "nat \<Rightarrow> u16 \<Rightarrow> bt_uuid \<Rightarrow> u32 \<Rightarrow> byte \<Rightarrow> 'u option \<Rightarrow> 'u option \<Rightarrow> 'u gatt_db \<Rightarrow> (aptr option \<times> 'u gatt_db) option" where
  "service_insert_characteristic k handle uuid perm properties rd wr db = do {
     s \<leftarrow> get_svc k db;
     let i = get_attribute_index s 1;
     if handle \<noteq> 0 \<and> handle \<le> sv_start s then Some (None, db)
     else if handle = 0xFFFF then Some (None, db)
     else if i = 0 then Some (None, db)
     else do {
       last \<leftarrow> get_handle_at_index s (i - 1);
       let handle = (if handle = 0 then last + 2 else handle);
       le \<leftarrow> uuid_to_le uuid;
       s \<leftarrow> set_attr i (set_attribute_data None None BT_ATT_PERM_READ
             (new_attribute (handle - 1) characteristic_uuid (properties # put_le16 handle @ le))) s;
       s \<leftarrow> set_attr (i + 1) (set_attribute_data rd wr perm (new_attribute handle uuid [])) s;
       Some (Some (k, i + 1), put_svc s db)
     }
   }"

definition service_insert_descriptor :: "nat \<Rightarrow> u16 \<Rightarrow> bt_uuid \<Rightarrow> u32 \<Rightarrow> 'u option \<Rightarrow> 'u option \<Rightarrow> 'u gatt_db \<Rightarrow> (aptr option \<times> 'u gatt_db) option" where
  "service_insert_descriptor k handle uuid perm rd wr db = do {
     s \<leftarrow> get_svc k db;
     let i = get_attribute_index s 0;
     if i = 0 then Some (None, db)
     else if handle \<noteq> 0 \<and> handle \<le> sv_start s then Some (None, db)
     else do {
       last \<leftarrow> get_handle_at_index s (i - 1);
       s \<leftarrow> set_attr i (set_attribute_data rd wr perm (new_attribute (if handle = 0 then last + 1 else handle) uuid [])) s;
       Some (Some (k, i), put_svc s db)
     }
   }"

definition service_insert_included :: "nat \<Rightarrow> u16 \<Rightarrow> aptr \<Rightarrow> 'u gatt_db \<Rightarrow> (aptr option \<times> 'u gatt_db) option" where
  "service_insert_included k handle inc db = do {
     included \<leftarrow> get_svc (fst inc) db;
     decl \<leftarrow> svc_attr 0 included;
     uuid \<leftarrow> (if value_len decl = 2 then val_bytes 2 decl else Some []);
     let value = put_le16 (ga_handle decl) @ put_le16 (ga_handle decl + num_handles included - 1) @ uuid;
     s \<leftarrow> get_svc k db;
     let i = get_attribute_index s 0;
     if i = 0 then Some (None, db)
     else if handle \<noteq> 0 \<and> handle \<le> sv_start s then Some (None, db)
     else do {
       last \<leftarrow> get_handle_at_index s (i - 1);
       s \<leftarrow> set_attr i (set_attribute_data None None BT_ATT_PERM_READ
             (new_attribute (if handle = 0 then last + 1 else handle) included_service_uuid value)) s;
       Some (Some (k, i), put_svc s db)
     }
   }"

subsection \<open>Lookup\<close>

definition find_service_for_handle :: "u16 \<Rightarrow> 'u gatt_db_service \<Rightarrow> bool" where
  "find_service_for_handle handle s = (let (start, end) = gatt_db_service_get_handles s in start \<le> handle \<and> handle \<le> end)"

definition gatt_db_get_service :: "u16 \<Rightarrow> 'u gatt_db \<Rightarrow> aptr option" where
  "gatt_db_get_service handle db =
     (if handle = 0 then None else map_option (\<lambda>s. (sv_key s, 0)) (find (find_service_for_handle handle) (services db)))"

text \<open>The attributes of a service that are there, with their pointers.\<close>

definition svc_attrs :: "'u gatt_db_service \<Rightarrow> (aptr \<times> 'u gatt_db_attribute) list" where
  "svc_attrs s = concat (map (\<lambda>(i, a). case a of None \<Rightarrow> [] | Some a \<Rightarrow> [((sv_key s, i), a)]) (enumerate 0 (take (unat (num_handles s)) (attributes s))))"

definition gatt_db_get_attribute :: "u16 \<Rightarrow> 'u gatt_db \<Rightarrow> aptr option" where
  "gatt_db_get_attribute handle db =
     (if handle = 0 then None
      else case find (find_service_for_handle handle) (services db) of None \<Rightarrow> None
      | Some s \<Rightarrow> map_option fst (find (\<lambda>(p, a). ga_handle a = handle) (svc_attrs s)))"

definition same_uuid :: "bt_uuid \<Rightarrow> bt_uuid \<Rightarrow> bool option" where
  "same_uuid u v = map_option (\<lambda>c. c = 0) (bt_uuid_cmp u v)"

fun find_opt :: "('a \<Rightarrow> bool option) \<Rightarrow> 'a list \<Rightarrow> 'a option option" where
  "find_opt f [] = Some None"
| "find_opt f (x # xs) = do { b \<leftarrow> f x; if b then Some (Some x) else find_opt f xs }"

definition find_service_with_uuid :: "bt_uuid \<Rightarrow> 'u gatt_db_service \<Rightarrow> bool option" where
  "find_service_with_uuid uuid s = do { (_, svc_uuid) \<leftarrow> gatt_db_attribute_get_service_uuid s; same_uuid uuid svc_uuid }"

definition gatt_db_get_service_with_uuid :: "bt_uuid \<Rightarrow> 'u gatt_db \<Rightarrow> aptr option option" where
  "gatt_db_get_service_with_uuid uuid db = map_option (map_option (\<lambda>s. (sv_key s, 0))) (find_opt (find_service_with_uuid uuid) (services db))"

text \<open>The walks over services and attributes, as the list of the pointers they hand to their callback.\<close>

definition foreach_service_in_range :: "bt_uuid option \<Rightarrow> 'u gatt_db_service \<Rightarrow> aptr list option" where
  "foreach_service_in_range uuid s =
     (case uuid of None \<Rightarrow> Some [(sv_key s, 0)]
      | Some u \<Rightarrow> do {
          a \<leftarrow> svc_attr 0 s;
          (_, v) \<leftarrow> gatt_db_attribute_get_service_uuid s;
          b \<leftarrow> same_uuid v u;
          b \<leftarrow> (if b then Some True else same_uuid (ga_uuid a) u);
          Some (if b then [(sv_key s, 0)] else [])
        })"

fun foreach_attr :: "bt_uuid option \<Rightarrow> u16 \<Rightarrow> u16 \<Rightarrow> (aptr \<times> 'u gatt_db_attribute) list \<Rightarrow> aptr list option" where
  "foreach_attr uuid start end [] = Some []"
| "foreach_attr uuid start end ((p, a) # as) =
     (if ga_handle a < start then foreach_attr uuid start end as
      else if ga_handle a > end then Some []
      else do {
        b \<leftarrow> (case uuid of None \<Rightarrow> Some True | Some u \<Rightarrow> same_uuid u (ga_uuid a));
        ps \<leftarrow> foreach_attr uuid start end as;
        Some (if b then p # ps else ps)
      })"

definition foreach_in_range :: "bool \<Rightarrow> bt_uuid option \<Rightarrow> u16 \<Rightarrow> u16 \<Rightarrow> 'u gatt_db_service \<Rightarrow> aptr list option" where
  "foreach_in_range attr uuid start end s =
     (let (svc_start, svc_end) = gatt_db_service_get_handles s
      in if \<not> sv_active s then Some []
         else if svc_start > end \<or> svc_end < start then Some []
         else if \<not> attr then (if svc_start < start \<or> svc_start > end then Some [] else foreach_service_in_range uuid s)
         else foreach_attr uuid start end (svc_attrs s))"

definition gatt_db_foreach :: "bool \<Rightarrow> bt_uuid option \<Rightarrow> u16 \<Rightarrow> u16 \<Rightarrow> 'u gatt_db \<Rightarrow> aptr list option" where
  "gatt_db_foreach attr uuid start end db =
     (if start > end then Some [] else map_option concat (those (map (foreach_in_range attr uuid start end) (services db))))"

definition gatt_db_foreach_service_in_range :: "bt_uuid option \<Rightarrow> u16 \<Rightarrow> u16 \<Rightarrow> 'u gatt_db \<Rightarrow> aptr list option" where
  "gatt_db_foreach_service_in_range uuid start end db = gatt_db_foreach False uuid start end db"

definition gatt_db_foreach_in_range :: "bt_uuid option \<Rightarrow> u16 \<Rightarrow> u16 \<Rightarrow> 'u gatt_db \<Rightarrow> aptr list option" where
  "gatt_db_foreach_in_range uuid start end db = gatt_db_foreach True uuid start end db"

definition gatt_db_foreach_service :: "bt_uuid option \<Rightarrow> 'u gatt_db \<Rightarrow> aptr list option" where
  "gatt_db_foreach_service uuid db = gatt_db_foreach_service_in_range uuid 0x0001 0xFFFF db"

definition gatt_db_read_by_group_type :: "u16 \<Rightarrow> u16 \<Rightarrow> bt_uuid \<Rightarrow> 'u gatt_db \<Rightarrow> aptr list option" where
  "gatt_db_read_by_group_type start end type db = gatt_db_foreach_service_in_range (Some type) start end db"

definition gatt_db_read_by_type :: "u16 \<Rightarrow> u16 \<Rightarrow> bt_uuid \<Rightarrow> 'u gatt_db \<Rightarrow> aptr list option" where
  "gatt_db_read_by_type start end type db = gatt_db_foreach_in_range (Some type) start end db"

definition gatt_db_find_information :: "u16 \<Rightarrow> u16 \<Rightarrow> 'u gatt_db \<Rightarrow> aptr list option" where
  "gatt_db_find_information start end db = gatt_db_foreach_in_range None start end db"

definition gatt_db_find_by_type :: "u16 \<Rightarrow> u16 \<Rightarrow> bt_uuid \<Rightarrow> 'u gatt_db \<Rightarrow> (nat \<times> aptr list) option" where
  "gatt_db_find_by_type start end type db = do { ps \<leftarrow> gatt_db_foreach_in_range (Some type) start end db; Some (length ps, ps) }"

definition find_by_type :: "byte list \<Rightarrow> 'u gatt_db \<Rightarrow> aptr \<Rightarrow> bool option" where
  "find_by_type value db p = do {
     a \<leftarrow> get_attr p db;
     if length value \<noteq> unat (value_len a) then Some False else do { b \<leftarrow> val_bytes (length value) a; Some (b = value) }
   }"

text \<open>The attributes \<^verbatim>\<open>gatt_db_find_by_type_value\<close> finds; the number it returns is not initialised and has no value.\<close>

definition gatt_db_find_by_type_value :: "u16 \<Rightarrow> u16 \<Rightarrow> bt_uuid \<Rightarrow> byte list \<Rightarrow> 'u gatt_db \<Rightarrow> aptr list option" where
  "gatt_db_find_by_type_value start end type value db = do {
     ps \<leftarrow> gatt_db_foreach_in_range (Some type) start end db;
     bs \<leftarrow> those (map (find_by_type value db) ps);
     Some (map fst (filter snd (zip ps bs)))
   }"

fun keep_same :: "bt_uuid \<Rightarrow> (aptr \<times> 'u gatt_db_attribute) list \<Rightarrow> aptr list option" where
  "keep_same u [] = Some []"
| "keep_same u ((p, a) # as) = do { b \<leftarrow> same_uuid u (ga_uuid a); ps \<leftarrow> keep_same u as; Some (if b then p # ps else ps) }"

definition gatt_db_service_foreach :: "aptr \<Rightarrow> bt_uuid option \<Rightarrow> 'u gatt_db \<Rightarrow> aptr list option" where
  "gatt_db_service_foreach p uuid db = do {
     _ \<leftarrow> get_attr p db;
     s \<leftarrow> get_svc (fst p) db;
     case uuid of None \<Rightarrow> Some (map fst (svc_attrs s)) | Some u \<Rightarrow> keep_same u (svc_attrs s)
   }"

definition gatt_db_service_foreach_char :: "aptr \<Rightarrow> 'u gatt_db \<Rightarrow> aptr list option" where
  "gatt_db_service_foreach_char p db = gatt_db_service_foreach p (Some characteristic_uuid) db"

definition gatt_db_service_foreach_incl :: "aptr \<Rightarrow> 'u gatt_db \<Rightarrow> aptr list option" where
  "gatt_db_service_foreach_incl p db = gatt_db_service_foreach p (Some included_service_uuid) db"

fun until_decl :: "(aptr \<times> 'u gatt_db_attribute) list \<Rightarrow> aptr list option" where
  "until_decl [] = Some []"
| "until_decl ((p, a) # as) = do {
     c \<leftarrow> same_uuid characteristic_uuid (ga_uuid a);
     i \<leftarrow> (if c then Some True else same_uuid included_service_uuid (ga_uuid a));
     if i then Some [] else do { ps \<leftarrow> until_decl as; Some (p # ps) }
   }"

definition gatt_db_service_foreach_desc :: "aptr \<Rightarrow> 'u gatt_db \<Rightarrow> aptr list option" where
  "gatt_db_service_foreach_desc p db = do {
     a \<leftarrow> get_attr p db;
     s \<leftarrow> get_svc (fst p) db;
     c \<leftarrow> same_uuid characteristic_uuid (ga_uuid a);
     if \<not> c then Some [] else until_decl (filter (\<lambda>((_, i), _). snd p + 2 \<le> i) (svc_attrs s))
   }"

subsection \<open>Calls that insert attributes\<close>

definition gatt_db_insert_characteristic :: "u16 \<Rightarrow> bt_uuid \<Rightarrow> u32 \<Rightarrow> byte \<Rightarrow> 'u option \<Rightarrow> 'u option \<Rightarrow> 'u gatt_db \<Rightarrow> (aptr option \<times> 'u gatt_db) option" where
  "gatt_db_insert_characteristic handle uuid perm properties rd wr db =
     (case gatt_db_get_service handle db of None \<Rightarrow> Some (None, db)
      | Some p \<Rightarrow> service_insert_characteristic (fst p) handle uuid perm properties rd wr db)"

definition gatt_db_service_insert_characteristic :: "aptr \<Rightarrow> u16 \<Rightarrow> bt_uuid \<Rightarrow> u32 \<Rightarrow> byte \<Rightarrow> 'u option \<Rightarrow> 'u option \<Rightarrow> 'u gatt_db \<Rightarrow> (aptr option \<times> 'u gatt_db) option" where
  "gatt_db_service_insert_characteristic p handle uuid perm properties rd wr db = do {
     _ \<leftarrow> get_attr p db;
     service_insert_characteristic (fst p) handle uuid perm properties rd wr db
   }"

definition gatt_db_service_add_characteristic :: "aptr \<Rightarrow> bt_uuid \<Rightarrow> u32 \<Rightarrow> byte \<Rightarrow> 'u option \<Rightarrow> 'u option \<Rightarrow> 'u gatt_db \<Rightarrow> (aptr option \<times> 'u gatt_db) option" where
  "gatt_db_service_add_characteristic p uuid perm properties rd wr db = do {
     _ \<leftarrow> get_attr p db;
     service_insert_characteristic (fst p) 0 uuid perm properties rd wr db
   }"

definition gatt_db_insert_descriptor :: "u16 \<Rightarrow> bt_uuid \<Rightarrow> u32 \<Rightarrow> 'u option \<Rightarrow> 'u option \<Rightarrow> 'u gatt_db \<Rightarrow> (aptr option \<times> 'u gatt_db) option" where
  "gatt_db_insert_descriptor handle uuid perm rd wr db =
     (case gatt_db_get_service handle db of None \<Rightarrow> Some (None, db)
      | Some p \<Rightarrow> service_insert_descriptor (fst p) handle uuid perm rd wr db)"

definition gatt_db_service_insert_descriptor :: "aptr \<Rightarrow> u16 \<Rightarrow> bt_uuid \<Rightarrow> u32 \<Rightarrow> 'u option \<Rightarrow> 'u option \<Rightarrow> 'u gatt_db \<Rightarrow> (aptr option \<times> 'u gatt_db) option" where
  "gatt_db_service_insert_descriptor p handle uuid perm rd wr db = do {
     _ \<leftarrow> get_attr p db;
     service_insert_descriptor (fst p) handle uuid perm rd wr db
   }"

definition gatt_db_service_add_descriptor :: "aptr \<Rightarrow> bt_uuid \<Rightarrow> u32 \<Rightarrow> 'u option \<Rightarrow> 'u option \<Rightarrow> 'u gatt_db \<Rightarrow> (aptr option \<times> 'u gatt_db) option" where
  "gatt_db_service_add_descriptor p uuid perm rd wr db = do {
     _ \<leftarrow> get_attr p db;
     service_insert_descriptor (fst p) 0 uuid perm rd wr db
   }"

definition gatt_db_service_add_included :: "aptr \<Rightarrow> aptr \<Rightarrow> 'u gatt_db \<Rightarrow> (aptr option \<times> 'u gatt_db) option" where
  "gatt_db_service_add_included p inc db = do {
     _ \<leftarrow> get_attr p db;
     _ \<leftarrow> get_attr inc db;
     service_insert_included (fst p) 0 inc db
   }"

definition gatt_db_service_insert_included :: "aptr \<Rightarrow> u16 \<Rightarrow> aptr \<Rightarrow> 'u gatt_db \<Rightarrow> (aptr option \<times> 'u gatt_db) option" where
  "gatt_db_service_insert_included p handle inc db =
     (if handle = 0 then Some (None, db)
      else do {
        _ \<leftarrow> get_attr p db;
        _ \<leftarrow> get_attr inc db;
        service_insert_included (fst p) handle inc db
      })"

definition gatt_db_insert_included :: "u16 \<Rightarrow> aptr \<Rightarrow> 'u gatt_db \<Rightarrow> (aptr option \<times> 'u gatt_db) option" where
  "gatt_db_insert_included handle inc db =
     (case gatt_db_get_service handle db of None \<Rightarrow> Some (None, db)
      | Some p \<Rightarrow> do { _ \<leftarrow> get_attr inc db; service_insert_included (fst p) handle inc db })"

subsection \<open>Reading and writing\<close>

definition attribute_authorize :: "aptr \<Rightarrow> byte \<Rightarrow> 'u gatt_db \<Rightarrow> byte" where
  "attribute_authorize p opcode db = (case authorize db of None \<Rightarrow> 0 | Some f \<Rightarrow> f p opcode)"

definition gatt_db_attribute_read :: "aptr \<Rightarrow> u16 \<Rightarrow> byte \<Rightarrow> 'u \<Rightarrow> 'u gatt_db \<Rightarrow> (bool \<times> 'u gatt_db) option" where
  "gatt_db_attribute_read p offset opcode func db = do {
     a \<leftarrow> get_attr p db;
     let n = rq_brk db;
     let db = db\<lparr>rq_brk := n + 1\<rparr>;
     case read_func a of
       Some rd \<Rightarrow> (let err = attribute_authorize p opcode db
         in if err \<noteq> 0 then Some (True, db_say [Read_done n func p (uint err) []] db)
            else do {
              let i = read_id a + 1;
              db \<leftarrow> put_attr p (a\<lparr>read_id := i, pending_reads := pending_reads a @ [\<lparr>pd_num = n, pd_id = i, pd_func = func\<rparr>]\<rparr>) db;
              Some (True, db_say [Asked_read rd p i offset opcode] db)
            })
     | None \<Rightarrow>
         if offset > value_len a then Some (True, db_say [Read_done n func p BT_ATT_ERROR_INVALID_OFFSET []] db)
         else if length (ga_value a) < unat (value_len a) then None
         else Some (True, db_say [Read_done n func p 0 (drop (unat offset) (take (unat (value_len a)) (ga_value a)))] db)
   }"

text \<open>The first pending request with an identifier is taken out of its queue.\<close>

definition take_pending :: "u32 \<Rightarrow> 'u pending list \<Rightarrow> ('u pending \<times> 'u pending list) option" where
  "take_pending i ps = (case List.extract (\<lambda>r. pd_id r = i) ps of Some (us, r, vs) \<Rightarrow> Some (r, us @ vs) | None \<Rightarrow> None)"

definition gatt_db_attribute_read_result :: "aptr \<Rightarrow> u32 \<Rightarrow> int \<Rightarrow> byte list \<Rightarrow> 'u gatt_db \<Rightarrow> (bool \<times> 'u gatt_db) option" where
  "gatt_db_attribute_read_result p i err value db = do {
     a \<leftarrow> get_attr p db;
     if i = 0 then Some (False, db)
     else case take_pending i (pending_reads a) of None \<Rightarrow> Some (False, db)
       | Some (r, ps) \<Rightarrow> do {
           db \<leftarrow> put_attr p (a\<lparr>pending_reads := ps\<rparr>) db;
           Some (True, db_say [Read_done (pd_num r) (pd_func r) p err (map Some value)] db)
         }
   }"

text \<open>\<^verbatim>\<open>read_timeout\<close>, which runs while its request is pending.\<close>

definition read_timeout :: "aptr \<Rightarrow> nat \<Rightarrow> 'u gatt_db \<Rightarrow> 'u gatt_db option" where
  "read_timeout p n db = do {
     a \<leftarrow> get_attr p db;
     r \<leftarrow> find (\<lambda>r. pd_num r = n) (pending_reads a);
     db \<leftarrow> put_attr p (a\<lparr>pending_reads := remove1 r (pending_reads a)\<rparr>) db;
     Some (db_say [Read_done n (pd_func r) p (- ETIMEDOUT) []] db)
   }"

text \<open>
  Writing into the stored value. The buffer grows to the end of the written bytes; what lies between the old end and the
  offset is set to zero only when the value was empty.
\<close>

definition store_value :: "u16 \<Rightarrow> byte list \<Rightarrow> 'u gatt_db_attribute \<Rightarrow> 'u gatt_db_attribute" where
  "store_value offset value a =
     (let k = unat offset;
          grow = (ga_value a = [] \<or> offset \<ge> value_len a \<or> length value > unat (value_len a) - k);
          buf = (if \<not> grow then ga_value a
                 else (let b = take (length value + k) (ga_value a) @ replicate (length value + k - length (ga_value a)) None
                       in if value_len a = 0 then replicate k (Some 0) @ drop k b else b));
          a = (if grow then a\<lparr>value_len := word_of_nat (length value + k)\<rparr> else a)
      in a\<lparr>ga_value := take k buf @ map Some value @ drop (k + length value) buf\<rparr>)"

definition gatt_db_attribute_write :: "aptr \<Rightarrow> u16 \<Rightarrow> byte list \<Rightarrow> byte \<Rightarrow> 'u \<Rightarrow> 'u gatt_db \<Rightarrow> (bool \<times> 'u gatt_db) option" where
  "gatt_db_attribute_write p offset value opcode func db = do {
     a \<leftarrow> get_attr p db;
     let n = rq_brk db;
     let db = db\<lparr>rq_brk := n + 1\<rparr>;
     case write_func a of
       Some wr \<Rightarrow> (let err = attribute_authorize p opcode db
         in if err \<noteq> 0 then Some (True, db_say [Write_done n func p (uint err)] db)
            else do {
              let i = write_id a + 1;
              db \<leftarrow> put_attr p (a\<lparr>write_id := i, pending_writes := pending_writes a @ [\<lparr>pd_num = n, pd_id = i, pd_func = func\<rparr>]\<rparr>) db;
              Some (True, db_say [Asked_write wr p i offset value opcode] db)
            })
     | None \<Rightarrow> do {
         db \<leftarrow> (if value = [] then Some db else put_attr p (store_value offset value a) db);
         Some (True, db_say [Write_done n func p 0] db)
       }
   }"

definition gatt_db_attribute_write_result :: "aptr \<Rightarrow> u32 \<Rightarrow> int \<Rightarrow> 'u gatt_db \<Rightarrow> (bool \<times> 'u gatt_db) option" where
  "gatt_db_attribute_write_result p i err db = do {
     a \<leftarrow> get_attr p db;
     if i = 0 then Some (False, db)
     else case take_pending i (pending_writes a) of None \<Rightarrow> Some (False, db)
       | Some (r, ps) \<Rightarrow> do {
           db \<leftarrow> put_attr p (a\<lparr>pending_writes := ps\<rparr>) db;
           Some (True, db_say [Write_done (pd_num r) (pd_func r) p err] db)
         }
   }"

definition write_timeout :: "aptr \<Rightarrow> nat \<Rightarrow> 'u gatt_db \<Rightarrow> 'u gatt_db option" where
  "write_timeout p n db = do {
     a \<leftarrow> get_attr p db;
     r \<leftarrow> find (\<lambda>r. pd_num r = n) (pending_writes a);
     db \<leftarrow> put_attr p (a\<lparr>pending_writes := remove1 r (pending_writes a)\<rparr>) db;
     Some (db_say [Write_done n (pd_func r) p (- ETIMEDOUT)] db)
   }"

definition gatt_db_attribute_reset :: "aptr \<Rightarrow> 'u gatt_db \<Rightarrow> (bool \<times> 'u gatt_db) option" where
  "gatt_db_attribute_reset p db = do {
     a \<leftarrow> get_attr p db;
     if ga_value a = [] \<or> value_len a = 0 then Some (True, db)
     else do { db \<leftarrow> put_attr p (a\<lparr>ga_value := [], value_len := 0\<rparr>) db; Some (True, db) }
   }"

subsection \<open>What declarations say\<close>

definition gatt_db_attribute_get_service_data :: "aptr \<Rightarrow> 'u gatt_db \<Rightarrow> ((u16 \<times> u16) \<times> bool \<times> bt_uuid option) option" where
  "gatt_db_attribute_get_service_data p db = do {
     _ \<leftarrow> get_attr p db;
     s \<leftarrow> get_svc (fst p) db;
     decl \<leftarrow> svc_attr 0 s;
     second \<leftarrow> same_uuid (ga_uuid decl) secondary_service_uuid;
     uuid \<leftarrow> (if value_len decl \<in> {2, 4, 16} then map_option le_to_uuid (val_bytes (unat (value_len decl)) decl) else Some None);
     Some (gatt_db_service_get_handles s, \<not> second, uuid)
   }"

text \<open>
  \<^verbatim>\<open>get_char_extended_prop\<close>: the first extended-properties descriptor of the characteristic that is stored in the
  database decides, unless its first byte is 0. A read of one with a callback is not waited for and leaves a pointer to a
  dead variable behind, which is undefined here.
\<close>

fun read_ext_prop :: "(aptr \<times> 'u gatt_db_attribute) list \<Rightarrow> byte option" where
  "read_ext_prop [] = Some 0"
| "read_ext_prop ((p, a) # as) = do {
     e \<leftarrow> same_uuid ext_desc_uuid (ga_uuid a);
     if \<not> e then read_ext_prop as
     else if read_func a \<noteq> None then None
     else if value_len a \<noteq> 2 then read_ext_prop as
     else do { b \<leftarrow> val_bytes 1 a; if b ! 0 \<noteq> 0 then Some (b ! 0) else read_ext_prop as }
   }"

definition get_char_extended_prop :: "aptr \<Rightarrow> 'u gatt_db \<Rightarrow> byte option" where
  "get_char_extended_prop p db = do {
     a \<leftarrow> get_attr p db;
     c \<leftarrow> same_uuid characteristic_uuid (ga_uuid a);
     if \<not> c then Some 0
     else do {
       b \<leftarrow> val_bytes 1 a;
       if b ! 0 AND 0x80 = 0 then Some 0
       else do {
         ps \<leftarrow> gatt_db_service_foreach_desc p db;
         as \<leftarrow> those (map (\<lambda>q. get_attr q db) ps);
         read_ext_prop (zip ps as)
       }
     }
   }"

record char_data =
  cd_handle :: u16
  cd_value_handle :: u16
  cd_properties :: byte
  cd_ext_prop :: byte
  cd_uuid :: "bt_uuid option"

text \<open>\<^term>\<open>Some None\<close> where the code returns false without looking at the value.\<close>

definition gatt_db_attribute_get_char_data :: "aptr \<Rightarrow> 'u gatt_db \<Rightarrow> char_data option option" where
  "gatt_db_attribute_get_char_data p db = do {
     a \<leftarrow> get_attr p db;
     c \<leftarrow> same_uuid characteristic_uuid (ga_uuid a);
     if \<not> c \<or> ga_value a = [] \<or> value_len a \<noteq> 5 \<and> value_len a \<noteq> 19 then Some None
     else do {
       b \<leftarrow> val_bytes (unat (value_len a)) a;
       ext \<leftarrow> get_char_extended_prop p db;
       Some (Some \<lparr>cd_handle = ga_handle a, cd_value_handle = get_le16 (drop 1 b), cd_properties = b ! 0, cd_ext_prop = ext,
         cd_uuid = le_to_uuid (drop 3 b)\<rparr>)
     }
   }"

definition gatt_db_attribute_get_incl_data :: "aptr \<Rightarrow> 'u gatt_db \<Rightarrow> (u16 \<times> u16 \<times> u16) option option" where
  "gatt_db_attribute_get_incl_data p db = do {
     a \<leftarrow> get_attr p db;
     c \<leftarrow> same_uuid included_service_uuid (ga_uuid a);
     if \<not> c \<or> ga_value a = [] \<or> value_len a < 4 \<or> value_len a > 6 then Some None
     else do { b \<leftarrow> val_bytes 4 a; Some (Some (ga_handle a, get_le16 b, get_le16 (drop 2 b))) }
   }"

subsection \<open>The hash over the database\<close>

definition gen_hash_m :: "'u gatt_db_attribute \<Rightarrow> byte option list list option" where
  "gen_hash_m a =
     (case ga_uuid a of
        BT_UUID16 v \<Rightarrow>
          if v \<in> {GATT_PRIM_SVC_UUID, GATT_SND_SVC_UUID, GATT_INCLUDE_UUID, GATT_CHARAC_UUID} then
            (if length (ga_value a) < unat (value_len a) then None
             else Some [map Some (put_le16 (ga_handle a) @ put_le16 v) @ take (unat (value_len a)) (ga_value a)])
          else if v \<in> {0x2901, 0x2902, 0x2903, 0x2904, 0x2905} then Some [map Some (put_le16 (ga_handle a) @ put_le16 v)]
          else Some []
      | _ \<Rightarrow> Some [])"

definition service_gen_hash_m :: "aptr \<Rightarrow> 'u gatt_db \<Rightarrow> byte option list list option" where
  "service_gen_hash_m p db = do { s \<leftarrow> get_svc (fst p) db; map_option concat (those (map (\<lambda>(_, a). gen_hash_m a) (svc_attrs s))) }"

text \<open>The array of the pieces has one entry per handle below \<^verbatim>\<open>next_handle\<close>; a piece more is stored behind it.\<close>

definition db_hash_update :: "'u gatt_db \<Rightarrow> 'u gatt_db option" where
  "db_hash_update db =
     (let db = db\<lparr>hash_id := False\<rparr>
      in if next_handle db = 0 then Some db
         else do {
           ps \<leftarrow> gatt_db_foreach_service None db;
           ms \<leftarrow> map_option concat (those (map (\<lambda>p. service_gen_hash_m p db) ps));
           if length ms > unat (next_handle db) then None
           else Some (case gatt_hash db of None \<Rightarrow> db
             | Some h \<Rightarrow> (case h ms of None \<Rightarrow> db | Some v \<Rightarrow> db\<lparr>db_hash := v\<rparr>))
         })"

definition gatt_db_get_hash :: "'u gatt_db \<Rightarrow> (byte list option \<times> 'u gatt_db) option" where
  "gatt_db_get_hash db =
     (if gatt_hash db = None then Some (None, db)
      else do {
        db \<leftarrow> (if hash_id db \<or> db_hash db = replicate 16 0 then db_hash_update db else Some db);
        Some (Some (db_hash db), db)
      })"

end
