(* ===== verification/Gatt_Db_Invariant.thy ===== *)
theory Gatt_Db_Invariant
  imports Gatt_Db
begin

text \<open>
  The invariant of the attribute database, kept by every call: the shape of services and values, and the
  accounting of read and write requests, each of which is pending in one place or was answered once.
\<close>

subsection \<open>The invariant\<close>

definition attr_nums :: "'u gatt_db_attribute \<Rightarrow> nat list" where
  "attr_nums a = map pd_num (pending_reads a) @ map pd_num (pending_writes a)"

definition slot_nums :: "'u gatt_db_attribute option \<Rightarrow> nat list" where
  "slot_nums x = (case x of None \<Rightarrow> [] | Some a \<Rightarrow> attr_nums a)"

definition svc_nums :: "'u gatt_db_service \<Rightarrow> nat list" where
  "svc_nums s = concat (map slot_nums (attributes s))"

definition db_nums :: "'u gatt_db_service list \<Rightarrow> nat list" where
  "db_nums ss = concat (map svc_nums ss)"

definition answered :: "'u db_out list \<Rightarrow> nat list" where
  "answered l = concat (map (\<lambda>x. case x of Read_done n _ _ _ _ \<Rightarrow> [n] | Write_done n _ _ _ \<Rightarrow> [n] | _ \<Rightarrow> []) l)"

lemma nums_simps [simp]:
  "db_nums [] = []" "db_nums (s # ss) = svc_nums s @ db_nums ss" "db_nums (ss @ ts) = db_nums ss @ db_nums ts"
  "answered [] = []" "answered (x # l) = (case x of Read_done n _ _ _ _ \<Rightarrow> [n] | Write_done n _ _ _ \<Rightarrow> [n] | _ \<Rightarrow> []) @ answered l"
  "answered (l @ m) = answered l @ answered m"
  by (simp_all add: db_nums_def answered_def)

definition svc_ok :: "'u gatt_db_service \<Rightarrow> bool" where
  "svc_ok s \<longleftrightarrow> length (attributes s) = unat (num_handles s)
     \<and> (\<exists>as k. as \<noteq> [] \<and> attributes s = map Some as @ replicate k None \<and> (\<forall>a \<in> set as. unat (value_len a) \<le> length (ga_value a)))"

definition shape_ok :: "'u gatt_db \<Rightarrow> bool" where
  "shape_ok db \<longleftrightarrow> distinct (map sv_key (services db)) \<and> (\<forall>s \<in> set (services db). sv_key s < sv_brk db \<and> svc_ok s)"

definition requests_ok :: "'u gatt_db \<Rightarrow> bool" where
  "requests_ok db \<longleftrightarrow> mset (db_nums (services db)) + mset (answered (db_log db)) = mset [0..<rq_brk db]"

definition db_inv :: "'u gatt_db \<Rightarrow> bool" where
  "db_inv db \<longleftrightarrow> shape_ok db \<and> requests_ok db"

lemma db_new_inv: "db_inv (gatt_db_new crypt)"
  by (simp add: db_inv_def shape_ok_def requests_ok_def gatt_db_new_def)

subsection \<open>Changes of one service\<close>

lemma find_split: "find P xs = Some x \<Longrightarrow> \<exists>us vs. xs = us @ x # vs \<and> P x \<and> (\<forall>u \<in> set us. \<not> P u)"
proof (induction xs)
  case (Cons y ys)
  show ?case
  proof (cases "P y")
    case False
    then obtain us vs where "ys = us @ x # vs" "P x" "\<forall>u \<in> set us. \<not> P u" using Cons by auto
    then have "y # ys = (y # us) @ x # vs \<and> P x \<and> (\<forall>u \<in> set (y # us). \<not> P u)" using False by simp
    then show ?thesis by blast
  qed (use Cons.prems in force)
qed simp

lemma get_svc_split:
  assumes "get_svc k db = Some s" and "distinct (map sv_key (services db))"
  obtains us vs where "services db = us @ s # vs" "sv_key s = k" "\<forall>t \<in> set us \<union> set vs. sv_key t \<noteq> k"
proof -
  obtain us vs where e: "services db = us @ s # vs" "sv_key s = k"
    using find_split [of "\<lambda>s. sv_key s = k" "services db" s] assms(1) by (auto simp: get_svc_def)
  then have "k \<notin> sv_key ` set us" "k \<notin> sv_key ` set vs" using assms(2) by auto
  then show ?thesis using that e by (metis Un_iff image_eqI)
qed

text \<open>Replacing a service by one with the same number: the shape, and the balance of its requests.\<close>

lemma put_svc_split:
  assumes "services db = us @ s # vs" and "\<forall>t \<in> set us \<union> set vs. sv_key t \<noteq> sv_key s" and "sv_key s' = sv_key s"
  shows "put_svc s' db = db\<lparr>services := us @ s' # vs\<rparr>"
proof -
  have "map (\<lambda>t. if sv_key t = sv_key s' then s' else t) us = us" "map (\<lambda>t. if sv_key t = sv_key s' then s' else t) vs = vs"
    using assms(2,3) by (simp_all add: map_idI)
  then show ?thesis using assms(1,3) by (simp add: put_svc_def)
qed

lemma put_svc_shape:
  assumes "shape_ok db" and "get_svc k db = Some s" and "sv_key s' = k" and "svc_ok s'"
  shows "shape_ok (put_svc s' db)"
proof -
  obtain us vs where e: "services db = us @ s # vs" "sv_key s = k" "\<forall>t \<in> set us \<union> set vs. sv_key t \<noteq> k"
    using get_svc_split [OF assms(2)] assms(1) by (auto simp: shape_ok_def)
  then show ?thesis using assms put_svc_split [OF e(1)] by (auto simp: shape_ok_def)
qed

lemma put_svc_nums:
  assumes "shape_ok db" and "get_svc k db = Some s" and "sv_key s' = k"
  shows "mset (db_nums (services (put_svc s' db))) + mset (svc_nums s) = mset (db_nums (services db)) + mset (svc_nums s')"
proof -
  obtain us vs where e: "services db = us @ s # vs" "sv_key s = k" "\<forall>t \<in> set us \<union> set vs. sv_key t \<noteq> k"
    using get_svc_split [OF assms(2)] assms(1) by (auto simp: shape_ok_def)
  then show ?thesis using assms put_svc_split [OF e(1), of s'] by simp
qed

lemma put_svc_sel [simp]:
  "sv_brk (put_svc s db) = sv_brk db" "rq_brk (put_svc s db) = rq_brk db" "db_log (put_svc s db) = db_log db"
  "next_handle (put_svc s db) = next_handle db" "db_notify_list (put_svc s db) = db_notify_list db" "hash_id (put_svc s db) = hash_id db"
  "gatt_hash (put_svc s db) = gatt_hash db"
  by (simp_all add: put_svc_def)

lemma db_say_sel [simp]:
  "services (db_say l db) = services db" "sv_brk (db_say l db) = sv_brk db" "rq_brk (db_say l db) = rq_brk db" "db_log (db_say l db) = db_log db @ l"
  "next_handle (db_say l db) = next_handle db" "db_notify_list (db_say l db) = db_notify_list db"
  by (simp_all add: db_say_def)

lemma get_svc_key: "get_svc k db = Some s \<Longrightarrow> sv_key s = k" "get_svc k db = Some s \<Longrightarrow> s \<in> set (services db)"
  using find_split [of "\<lambda>s. sv_key s = k" "services db" s] by (auto simp: get_svc_def)

lemma slot_update_nums:
  "i < length as \<Longrightarrow> mset (concat (map slot_nums (as[i := x]))) + mset (slot_nums (as ! i)) = mset (concat (map slot_nums as)) + mset (slot_nums x)"
proof (induction as arbitrary: i)
  case (Cons a as)
  then show ?case by (cases i) (auto simp: ac_simps)
qed simp

lemma svc_okD:
  assumes "svc_ok s"
  obtains as k where "as \<noteq> []" "attributes s = map Some as @ replicate k None" "\<forall>a \<in> set as. unat (value_len a) \<le> length (ga_value a)"
    "length as + k = unat (num_handles s)"
  using assms by (auto simp: svc_ok_def)

lemma balance:
  fixes x :: "'a multiset"
  assumes "x + s = n + s'" and "s' + a = s + a'"
  shows "x + a = n + a'"
proof -
  have "(x + a) + (s + s') = (x + s) + (s' + a)" by (simp only: ac_simps)
  also have "\<dots> = (n + a') + (s + s')" unfolding assms by (simp only: ac_simps)
  finally show ?thesis by (simp only: add_right_cancel)
qed

text \<open>Changing an attribute that is there.\<close>

lemma attr_update:
  assumes "shape_ok db" and "get_attr p db = Some a" and "put_attr p a' db = Some db'" and "unat (value_len a') \<le> length (ga_value a')"
  shows "shape_ok db'" and "mset (db_nums (services db')) + mset (attr_nums a) = mset (db_nums (services db)) + mset (attr_nums a')"
    and "db_log db' = db_log db" and "rq_brk db' = rq_brk db"
proof -
  obtain s where s: "get_svc (fst p) db = Some s" "svc_attr (snd p) s = Some a" using assms(2) by (auto simp: get_attr_def split: bind_splits)
  let ?s = "s\<lparr>attributes := (attributes s)[snd p := Some a']\<rparr>"
  have d: "db' = put_svc ?s db" using assms(3) s(1) by (simp add: put_attr_def)
  obtain as k where o: "as \<noteq> []" "attributes s = map Some as @ replicate k None" "\<forall>a \<in> set as. unat (value_len a) \<le> length (ga_value a)"
    "length as + k = unat (num_handles s)"
    using svc_okD assms(1) get_svc_key(2) [OF s(1)] by (metis shape_ok_def)
  have i: "snd p < length (attributes s)" "attributes s ! snd p = Some a" using s(2) by (auto simp: svc_attr_def lst_get_def split: if_splits)
  then have "snd p < length as" using o(2) by (auto simp: nth_append split: if_splits)
  then have "attributes ?s = map Some (as[snd p := a']) @ replicate k None" using o(2) by (simp add: list_update_append map_update)
  moreover have "\<forall>b \<in> set (as[snd p := a']). unat (value_len b) \<le> length (ga_value b)" using o(3) assms(4) by (auto dest: set_update_subset_insert [THEN subsetD])
  ultimately have "svc_ok ?s" using o(1,4) by (auto simp: svc_ok_def intro!: exI [of _ "as[snd p := a']"])
  then show "shape_ok db'" using put_svc_shape [OF assms(1) s(1)] get_svc_key(1) [OF s(1)] by (simp add: d)
  have n: "mset (svc_nums ?s) + mset (attr_nums a) = mset (svc_nums s) + mset (attr_nums a')"
    using slot_update_nums [OF i(1), of "Some a'"] i(2) by (simp add: svc_nums_def slot_nums_def)
  have k: "sv_key ?s = fst p" using get_svc_key(1) [OF s(1)] by simp
  show "mset (db_nums (services db')) + mset (attr_nums a) = mset (db_nums (services db)) + mset (attr_nums a')"
    unfolding d by (rule balance [OF put_svc_nums [OF assms(1) s(1) k] n])
  show "db_log db' = db_log db" "rq_brk db' = rq_brk db" by (simp_all add: d)
qed

subsection \<open>The calls keep the invariant\<close>

text \<open>Adding attributes to a service: they have no pending request.\<close>

lemma attribute_index:
  assumes "svc_ok s" and "get_attribute_index s off = i" and "i \<noteq> 0"
  obtains as k where "attributes s = map Some as @ replicate k None" "i = length as" "off < k" "as \<noteq> []"
    "\<forall>a \<in> set as. unat (value_len a) \<le> length (ga_value a)" "length as + k = unat (num_handles s)"
proof -
  obtain as k where o: "as \<noteq> []" "attributes s = map Some as @ replicate k None" "\<forall>a \<in> set as. unat (value_len a) \<le> length (ga_value a)"
    "length as + k = unat (num_handles s)" using svc_okD [OF assms(1)] .
  let ?n = "unat (num_handles s) - off"
  have t: "length (takeWhile (\<lambda>a. a \<noteq> None) (take ?n (attributes s))) = min ?n (length as)"
  proof -
    have w: "takeWhile (\<lambda>a. a \<noteq> None) (map Some xs @ replicate j None) = map Some xs" for xs :: "'a gatt_db_attribute list" and j
      by (cases j) (simp_all add: takeWhile_append takeWhile_eq_all_conv)
    have "take ?n (attributes s) = map Some (take ?n as) @ replicate (min (?n - length as) k) None"
      by (simp add: o(2) take_map)
    then show ?thesis by (simp only: w) simp
  qed
  then have "i = length as" "length as < ?n" using assms(2,3) by (auto simp: get_attribute_index_def Let_def split: if_splits)
  moreover from this have "off < k" using o(4) by linarith
  ultimately show ?thesis using that o by blast
qed

lemma nums_new [simp]: "attr_nums (set_attribute_data rd wr pm (new_attribute h u v)) = []"
  by (simp add: attr_nums_def set_attribute_data_def new_attribute_def)

lemma len_new: "length v < 2 ^ 16 \<Longrightarrow> unat (value_len (set_attribute_data rd wr pm (new_attribute h u v))) \<le> length (ga_value (set_attribute_data rd wr pm (new_attribute h u v)))"
  by (simp add: set_attribute_data_def new_attribute_def unat_of_nat take_bit_nat_def)

lemma append_attrs:
  assumes "db_inv db" and "get_svc k db = Some s" and "attributes s = map Some as @ replicate m None" and "as \<noteq> []"
    and "\<forall>a \<in> set as. unat (value_len a) \<le> length (ga_value a)" and "length as + m = unat (num_handles s)"
    and "attributes s' = map Some (as @ bs) @ replicate (m - length bs) None" and "s' = s\<lparr>attributes := xs\<rparr>" and "length bs \<le> m"
    and "\<forall>b \<in> set bs. attr_nums b = [] \<and> unat (value_len b) \<le> length (ga_value b)"
  shows "db_inv (put_svc s' db)"
proof -
  have "svc_ok s'" unfolding svc_ok_def
  proof (intro conjI exI)
    show "length (attributes s') = unat (num_handles s')" using assms(6,7,8,9) by simp
    show "attributes s' = map Some (as @ bs) @ replicate (m - length bs) None" by (rule assms(7))
  qed (use assms(4,5,10) in auto)
  moreover have k: "sv_key s' = k" using get_svc_key(1) [OF assms(2)] assms(8) by simp
  moreover have "svc_nums s' = svc_nums s"
  proof -
    have "concat (map (slot_nums \<circ> Some) bs) = []" using assms(10) by (simp add: slot_nums_def)
    moreover have "concat (replicate n []) = []" for n by simp
    ultimately show ?thesis unfolding svc_nums_def assms(3,7) by (simp add: slot_nums_def)
  qed
  ultimately show ?thesis using assms(1) put_svc_shape [OF _ assms(2)] put_svc_nums [OF _ assms(2) k]
    by (simp add: db_inv_def requests_ok_def)
qed

lemma le_length: "uuid_to_le u = Some v \<Longrightarrow> uuid_ok u \<Longrightarrow> length v = 2 \<or> length v = 16"
  by (auto simp: uuid_to_le_def uuid_ok_def put_le16_def be16_def be32_def uuid_bytes_def bt_uuid32_to_uuid128_def bluetooth_base_uuid_def split: bt_uuid.splits)

lemma put_le16_length [simp]: "length (put_le16 v) = 2"
  by (simp add: put_le16_def be16_def)

lemma insert_characteristic_inv:
  fixes db :: "'u gatt_db"
  assumes "service_insert_characteristic k handle uuid pm props rd wr db = Some (r, db')" and "db_inv db" and "uuid_ok uuid"
  shows "db_inv db'"
proof (cases "db' = db")
  case False
  obtain s i h h' le s1 s2 where q: "get_svc k db = Some s" "get_attribute_index s 1 = i" "i \<noteq> 0" "uuid_to_le uuid = Some le"
    "set_attr i (set_attribute_data None None BT_ATT_PERM_READ (new_attribute h' characteristic_uuid (props # put_le16 h @ le))) s = Some s1"
    "set_attr (Suc i) (set_attribute_data rd wr pm (new_attribute h uuid [])) s1 = Some s2" "db' = put_svc s2 db"
    using assms(1) False unfolding service_insert_characteristic_def Let_def by (auto split: bind_splits if_splits)
  have "svc_ok s" using assms(2) get_svc_key(2) [OF q(1)] by (auto simp: db_inv_def shape_ok_def)
  then obtain as m where a: "attributes s = map Some as @ replicate m None" "i = length as" "1 < m" "as \<noteq> []"
    "\<forall>a \<in> set as. unat (value_len a) \<le> length (ga_value a)" "length as + m = unat (num_handles s)"
    using attribute_index [OF _ q(2,3)] by metis
  obtain m' where m: "m = Suc (Suc m')" using a(3) by (metis One_nat_def Suc_lessE less_imp_Suc_add plus_1_eq_Suc)
  let ?a = "set_attribute_data None None BT_ATT_PERM_READ (new_attribute h' characteristic_uuid (props # put_le16 h @ le)) :: 'u gatt_db_attribute"
  let ?b = "set_attribute_data rd wr pm (new_attribute h uuid []) :: 'u gatt_db_attribute"
  have u: "(map Some as @ None # None # replicate m' None)[length as := Some ?a, Suc (length as) := Some ?b] = map Some (as @ [?a, ?b]) @ replicate m' None"
    by (simp add: list_update_append)
  have d: "db' = put_svc (s\<lparr>attributes := map Some (as @ [?a, ?b]) @ replicate m' None\<rparr>) db"
    using q(5,6,7) a(1,2) u m by (auto simp: set_attr_def lst_set_def)
  have l: "length (props # put_le16 h @ le) < 2 ^ 16" using le_length [OF q(4) assms(3)] by auto
  have "unat (value_len ?a) \<le> length (ga_value ?a)" using l by (rule len_new)
  moreover have "unat (value_len ?b) \<le> length (ga_value ?b)" by (rule len_new) simp
  ultimately show ?thesis unfolding d
    by (intro append_attrs [OF assms(2) q(1) a(1,4,5,6), where bs = "[?a, ?b]"]) (use m in simp_all)
qed (use assms(2) in simp)

lemma append_one:
  assumes "db_inv db" and "get_svc k db = Some s" and "get_attribute_index s 0 = i" and "i \<noteq> 0" and "set_attr i b s = Some s'"
    and "attr_nums b = []" and "unat (value_len b) \<le> length (ga_value b)"
  shows "db_inv (put_svc s' db)"
proof -
  have "svc_ok s" using assms(1) get_svc_key(2) [OF assms(2)] by (auto simp: db_inv_def shape_ok_def)
  then obtain as m where a: "attributes s = map Some as @ replicate m None" "i = length as" "0 < m" "as \<noteq> []"
    "\<forall>a \<in> set as. unat (value_len a) \<le> length (ga_value a)" "length as + m = unat (num_handles s)"
    using attribute_index [OF _ assms(3,4)] by metis
  obtain m' where m: "m = Suc m'" using a(3) by (cases m) auto
  have d: "s' = s\<lparr>attributes := map Some (as @ [b]) @ replicate m' None\<rparr>"
    using assms(5) a(1,2) m by (auto simp: set_attr_def lst_set_def list_update_append)
  show ?thesis unfolding d
    by (rule append_attrs [OF assms(1,2) a(1,4,5,6), where bs = "[b]"]) (use m assms(6,7) in simp_all)
qed

lemma insert_descriptor_inv:
  assumes "service_insert_descriptor k handle uuid pm rd wr db = Some (r, db')" and "db_inv db"
  shows "db_inv db'"
proof (cases "db' = db")
  case False
  obtain s s' i h where q: "get_svc k db = Some s" "get_attribute_index s 0 = i" "i \<noteq> 0" "db' = put_svc s' db"
    "set_attr i (set_attribute_data rd wr pm (new_attribute h uuid [])) s = Some s'"
    using assms(1) False unfolding service_insert_descriptor_def Let_def by (auto split: bind_splits if_splits)
  have "length [] < (2 :: nat) ^ 16" by simp
  then show ?thesis unfolding q(4) by (rule append_one [OF assms(2) q(1,2,3,5) nums_new len_new])
qed (use assms(2) in simp)

lemma val_bytes_length: "val_bytes n a = Some b \<Longrightarrow> length b = n"
proof -
  have l: "those xs = Some ys \<Longrightarrow> length ys = length xs" for xs :: "'x option list" and ys
    by (induction xs arbitrary: ys) (auto split: option.splits)
  show "val_bytes n a = Some b \<Longrightarrow> length b = n" using l by (force simp: val_bytes_def split: if_splits)
qed

lemma insert_included_inv:
  assumes "service_insert_included k handle inc db = Some (r, db')" and "db_inv db"
  shows "db_inv db'"
proof (cases "db' = db")
  case False
  obtain t d u s where q: "get_svc (fst inc) db = Some t" "svc_attr 0 t = Some d" "(if value_len d = 2 then val_bytes 2 d else Some []) = Some u"
    "get_svc k db = Some s"
    using assms(1) unfolding service_insert_included_def by (auto split: bind_splits)
  let ?v = "put_le16 (ga_handle d) @ put_le16 (ga_handle d + num_handles t - 1) @ u"
  obtain s' h where r: "get_attribute_index s 0 \<noteq> 0" "db' = put_svc s' db"
    "set_attr (get_attribute_index s 0) (set_attribute_data None None BT_ATT_PERM_READ (new_attribute h included_service_uuid ?v)) s = Some s'"
    using assms(1) False q unfolding service_insert_included_def Let_def by (simp split: bind_splits if_splits) blast+
  have "length u \<le> 2" using q(3) val_bytes_length [of 2 d u] by (auto split: if_splits)
  then have "length ?v < 2 ^ 16" by simp
  then show ?thesis unfolding r(2) by (rule append_one [OF assms(2) q(4) refl r(1,3) nums_new len_new])
qed (use assms(2) in simp)

text \<open>Services come and go.\<close>

lemma create_facts:
  assumes "gatt_db_service_create key uuid handle primary n = Some s" and "uuid_ok uuid" and "n \<noteq> 0"
  shows "svc_ok s" and "svc_nums s = []" and "sv_key s = key" and "sv_start s = handle" and "num_handles s = n"
proof -
  obtain v a where v: "uuid_to_le uuid = Some v" "a = set_attribute_data None None BT_ATT_PERM_READ (new_attribute handle (if primary then primary_service_uuid else secondary_service_uuid) v)"
    "attributes s = map Some [a] @ replicate (unat n - 1) None" "num_handles s = n" "sv_key s = key"
    using assms(1) by (auto simp: gatt_db_service_create_def Let_def split: bind_splits)
  have "1 \<le> unat n" using assms(3) by (simp add: unat_gt_0 Suc_le_eq)
  moreover have l: "length v < 2 ^ 16" using le_length [OF v(1) assms(2)] by auto
  have "unat (value_len a) \<le> length (ga_value a)" unfolding v(2) using l by (rule len_new)
  ultimately show "svc_ok s" unfolding svc_ok_def using v(3,4) by (intro conjI exI [of _ "[a]"] exI [of _ "unat n - 1"]) simp_all
  show "svc_nums s = []" using v(2,3) by (simp add: svc_nums_def slot_nums_def)
  show "sv_key s = key" "num_handles s = n" using v by simp_all
  show "sv_start s = handle" using v(2,3) by (simp add: sv_start_def svc_attr_def lst_get_def set_attribute_data_def new_attribute_def)
qed

lemma find_insert_loc_after: "find_insert_loc st en after ss = (r, Some t) \<Longrightarrow> t \<in> set ss \<or> after = Some t"
  by (induction st en after ss rule: find_insert_loc.induct) (auto simp: Let_def split: prod.splits if_splits)

lemma push_after_split:
  assumes "t \<in> set ss" and "distinct (map sv_key ss)"
  obtains us vs where "ss = us @ t # vs" "push_after (sv_key t) new ss = us @ t # new # vs"
proof -
  obtain us vs where e: "ss = us @ t # vs" using split_list [OF assms(1)] by blast
  then have "sv_key t \<notin> sv_key ` set us" using assms(2) by auto
  then have "push_after (sv_key t) new (us @ t # vs) = us @ t # new # vs" by (induction us) auto
  then show ?thesis using that e by blast
qed

lemma insert_service_inv:
  assumes "gatt_db_insert_service handle uuid primary n db = Some (r, db')" and "db_inv db" and "uuid_ok uuid"
  shows "db_inv db'"
proof (cases "db' = db")
  case False
  define h where "h = (if handle = 0 then next_handle db else handle)"
  obtain after where f: "find_insert_loc h (h + n - 1) None (services db) = (None, after)"
    using assms(1) False unfolding gatt_db_insert_service_def h_def [symmetric] Let_def
    by (auto split: if_splits prod.splits option.splits bind_splits)
  obtain s where s: "gatt_db_service_create (sv_brk db) uuid h primary n = Some s" "n \<noteq> 0"
    "services db' = (case after of Some t \<Rightarrow> push_after (sv_key t) s (services db) | None \<Rightarrow> s # services db)"
    "sv_brk db' = Suc (sv_brk db)" "rq_brk db' = rq_brk db" "db_log db' = db_log db"
    using assms(1) False f unfolding gatt_db_insert_service_def h_def [symmetric] Let_def
    by (auto split: if_splits bind_splits simp: not_less)
  obtain us vs where e: "services db = us @ vs" "services db' = us @ s # vs"
  proof (cases after)
    case None
    then show ?thesis using that [of "[]"] s(3) by simp
  next
    case (Some t)
    then have "t \<in> set (services db)" using find_insert_loc_after f by fastforce
    then obtain us vs where "services db = us @ t # vs" "push_after (sv_key t) s (services db) = us @ t # s # vs"
      using push_after_split [of t "services db" s] assms(2) by (auto simp: db_inv_def shape_ok_def)
    then show ?thesis using that [of "us @ [t]" vs] s(3) Some by simp
  qed
  have "sv_brk db \<notin> sv_key ` set (us @ vs)" using assms(2) e(1) by (force simp: db_inv_def shape_ok_def)
  then show ?thesis using assms(2) e s(4-6) create_facts [OF s(1) assms(3) s(2)]
    by (auto simp: db_inv_def shape_ok_def requests_ok_def less_Suc_eq)
qed (use assms(2) in simp)

text \<open>Notifications answer no request.\<close>

lemma notify_facts:
  assumes "notify_service_changed s added db = Some db'"
  shows "services db' = services db" and "sv_brk db' = sv_brk db" and "rq_brk db' = rq_brk db" and "answered (db_log db') = answered (db_log db)"
    and "next_handle db' = next_handle db" and "db_notify_list db' = db_notify_list db"
proof -
  have a: "those (map (handle_service_notify added p) ns) = Some out \<Longrightarrow> answered out = []" for p and ns :: "'a db_notify list" and out
    by (induction ns arbitrary: out) (auto simp: handle_service_notify_def split: if_splits option.splits)
  obtain out b where "db' = db \<or> db' = (db_say out db)\<lparr>hash_id := b\<rparr> \<and> answered out = []"
  proof (cases "db_notify_list db = []")
    case False
    then obtain out where o: "those (map (handle_service_notify added (sv_key s, 0)) (db_notify_list db)) = Some out"
      "db' = (if \<not> hash_id (db_say out db) \<and> gatt_hash (db_say out db) \<noteq> None then (db_say out db)\<lparr>hash_id := True\<rparr> else db_say out db)"
      using assms by (auto simp: notify_service_changed_def Let_def split: bind_splits)
    have "db_say out db = (db_say out db)\<lparr>hash_id := hash_id (db_say out db)\<rparr>" by simp
    then show ?thesis using that a [OF o(1)] o(2) by (metis (full_types))
  qed (use assms that in \<open>auto simp: notify_service_changed_def\<close>)
  then show "services db' = services db" "sv_brk db' = sv_brk db" "rq_brk db' = rq_brk db" "answered (db_log db') = answered (db_log db)"
    "next_handle db' = next_handle db" "db_notify_list db' = db_notify_list db"
    by auto
qed

lemma destroyed_nums:
  "answered (concat (map (\<lambda>(i, a). case a of None \<Rightarrow> [] | Some a \<Rightarrow> attribute_destroy (k, i) a) (enumerate m as))) = concat (map slot_nums as)"
proof (induction as arbitrary: m)
  case (Cons a as)
  have "answered (map (\<lambda>r. Read_done (pd_num r) (pd_func r) p e v) rs) = map pd_num rs" "answered (map (\<lambda>r. Write_done (pd_num r) (pd_func r) p e) rs) = map pd_num rs"
    for p e v and rs :: "'a pending list" by (induction rs) simp_all
  then show ?case using Cons by (simp add: attribute_destroy_def slot_nums_def attr_nums_def split: option.split)
qed simp

lemma destroy_facts:
  assumes "gatt_db_service_destroy s db = Some db'"
  shows "services db' = services db" and "sv_brk db' = sv_brk db" and "rq_brk db' = rq_brk db"
    and "answered (db_log db') = answered (db_log db) @ svc_nums s" and "next_handle db' = next_handle db" and "db_notify_list db' = db_notify_list db"
proof -
  obtain u where u: "(if sv_active s then notify_service_changed s False db else Some db) = Some u"
    "db' = db_say (concat (map (\<lambda>(i, a). case a of None \<Rightarrow> [] | Some a \<Rightarrow> attribute_destroy (sv_key s, i) a) (enumerate 0 (attributes s)))) u"
    using assms by (auto simp: gatt_db_service_destroy_def split: bind_splits)
  have n: "services u = services db" "sv_brk u = sv_brk db" "rq_brk u = rq_brk db" "answered (db_log u) = answered (db_log db)"
    "next_handle u = next_handle db" "db_notify_list u = db_notify_list db"
    using u(1) notify_facts [of s False db u] by (auto split: if_splits)
  show "services db' = services db" "sv_brk db' = sv_brk db" "rq_brk db' = rq_brk db" "next_handle db' = next_handle db" "db_notify_list db' = db_notify_list db"
    using n by (simp_all add: u(2))
  show "answered (db_log db') = answered (db_log db) @ svc_nums s" using n(4) by (simp add: u(2) svc_nums_def destroyed_nums)
qed

lemma destroy_services_facts:
  "destroy_services ss db = Some db' \<Longrightarrow> services db' = services db \<and> sv_brk db' = sv_brk db \<and> rq_brk db' = rq_brk db
     \<and> answered (db_log db') = answered (db_log db) @ db_nums ss \<and> next_handle db' = next_handle db"
proof (induction ss arbitrary: db)
  case (Cons s ss)
  then obtain u where "gatt_db_service_destroy s db = Some u" "destroy_services ss u = Some db'" by (auto split: bind_splits)
  then show ?case using destroy_facts [of s db u] Cons.IH [of u] by simp
qed simp

lemma filter_nums: "mset (db_nums (filter P ss)) + mset (db_nums (filter (\<lambda>s. \<not> P s) ss)) = mset (db_nums ss)"
  by (induction ss) (simp_all add: ac_simps)

lemma filter_shape: "shape_ok db \<Longrightarrow> shape_ok (db\<lparr>services := filter P (services db)\<rparr>)"
  by (auto simp: shape_ok_def distinct_map inj_on_def)

lemma removed_inv:
  assumes "db_inv db" and "services db' = filter P (services db)" and "sv_brk db' = sv_brk db" and "rq_brk db' = rq_brk db"
    and "answered (db_log db') = answered (db_log db) @ db_nums (filter (\<lambda>s. \<not> P s) (services db))"
  shows "db_inv db'"
  using assms filter_shape [of db P] filter_nums [of P "services db"]
  by (simp add: db_inv_def shape_ok_def requests_ok_def add.assoc add.left_commute add.commute)

lemma remove_service_inv:
  assumes "gatt_db_remove_service p db = Some (r, db')" and "db_inv db"
  shows "db_inv db'"
proof -
  let ?P = "\<lambda>t. sv_key t \<noteq> fst p"
  obtain s where s: "get_svc (fst p) db = Some s" "gatt_db_service_destroy s (db\<lparr>services := filter ?P (services db)\<rparr>) = Some db'"
    using assms(1) by (auto simp: gatt_db_remove_service_def split: bind_splits)
  obtain us vs where e: "services db = us @ s # vs" "sv_key s = fst p" "\<forall>t \<in> set us \<union> set vs. ?P t"
    using get_svc_split [OF s(1)] assms(2) by (auto simp: db_inv_def shape_ok_def)
  have "filter (\<lambda>t. \<not> ?P t) (services db) = [s]" using e by (simp add: filter_empty_conv)
  then show ?thesis using destroy_facts [OF s(2)] by (intro removed_inv [OF assms(2), of _ ?P]) simp_all
qed

lemma clear_range_inv:
  assumes "gatt_db_clear_range st en db = Some (r, db')" and "db_inv db"
  shows "db_inv db'"
proof (cases "st > en")
  case False
  let ?gone = "if st = 1 \<and> en = 0xFFFF then (\<lambda>s. True) else match_range st en"
  obtain u where u: "destroy_services (filter ?gone (services db)) (db\<lparr>services := filter (\<lambda>s. \<not> ?gone s) (services db)\<rparr>) = Some u"
    "db' = (if gatt_db_isempty u then u\<lparr>next_handle := 0\<rparr> else u)"
    using assms(1) False by (auto simp: gatt_db_clear_range_def Let_def split: bind_splits if_splits)
  have "db_inv u" using destroy_services_facts [OF u(1)] by (intro removed_inv [OF assms(2), of _ "\<lambda>s. \<not> ?gone s"]) simp_all
  then show ?thesis by (simp add: u(2) db_inv_def shape_ok_def requests_ok_def)
qed (use assms in \<open>simp add: gatt_db_clear_range_def\<close>)

lemma inv_cong:
  "db_inv db \<Longrightarrow> services db' = services db \<Longrightarrow> sv_brk db' = sv_brk db \<Longrightarrow> rq_brk db' = rq_brk db \<Longrightarrow> answered (db_log db') = answered (db_log db) \<Longrightarrow> db_inv db'"
  by (simp add: db_inv_def shape_ok_def requests_ok_def)

lemma flags_inv:
  assumes "db_inv db" and "get_svc k db = Some s"
  shows "db_inv (put_svc (s\<lparr>sv_active := b\<rparr>) db)" and "db_inv (put_svc (s\<lparr>claimed := b\<rparr>) db)"
proof -
  have s: "svc_ok s" "sv_key s = k" using assms get_svc_key [OF assms(2)] by (auto simp: db_inv_def shape_ok_def)
  have "db_inv (put_svc s' db)" if "attributes s' = attributes s" "num_handles s' = num_handles s" "sv_key s' = k" for s'
  proof -
    have "svc_ok s'" "svc_nums s' = svc_nums s" using s(1) that by (simp_all add: svc_ok_def svc_nums_def)
    then show ?thesis using assms(1) put_svc_shape [OF _ assms(2) that(3)] put_svc_nums [OF _ assms(2) that(3)]
      by (simp add: db_inv_def requests_ok_def)
  qed
  then show "db_inv (put_svc (s\<lparr>sv_active := b\<rparr>) db)" "db_inv (put_svc (s\<lparr>claimed := b\<rparr>) db)" using s(2) by simp_all
qed

lemma set_active_inv:
  assumes "gatt_db_service_set_active p b db = Some (r, db')" and "db_inv db"
  shows "db_inv db'"
proof -
  obtain s where s: "get_svc (fst p) db = Some s" "db' = db \<or> notify_service_changed (s\<lparr>sv_active := b\<rparr>) b (put_svc (s\<lparr>sv_active := b\<rparr>) db) = Some db'"
    using assms(1) by (auto simp: gatt_db_service_set_active_def Let_def split: bind_splits if_splits)
  then show ?thesis using assms(2) notify_facts [of "s\<lparr>sv_active := b\<rparr>" b "put_svc (s\<lparr>sv_active := b\<rparr>) db" db']
      inv_cong [OF flags_inv(1) [OF assms(2) s(1)], of db'] by auto
qed

lemma set_claimed_inv: "gatt_db_service_set_claimed p b db = Some (r, db') \<Longrightarrow> db_inv db \<Longrightarrow> db_inv db'"
  by (auto simp: gatt_db_service_set_claimed_def flags_inv split: bind_splits)

lemma registry_inv:
  "db_inv db \<Longrightarrow> db_inv (snd (gatt_db_register ad re de db))" "db_inv db \<Longrightarrow> db_inv (snd (gatt_db_unregister i db))"
  "db_inv db \<Longrightarrow> db_inv (snd (gatt_db_set_authorize cb db))"
  by (erule inv_cong; auto simp: gatt_db_register_def gatt_db_unregister_def gatt_db_set_authorize_def Let_def split: option.splits prod.splits)+

lemma hash_inv: "db_hash_update db = Some db' \<Longrightarrow> db_inv db \<Longrightarrow> db_inv db'" "gatt_db_get_hash db = Some (r, db') \<Longrightarrow> db_inv db \<Longrightarrow> db_inv db'"
proof -
  show h: "db_hash_update db = Some db' \<Longrightarrow> db_inv db \<Longrightarrow> db_inv db'" for db db'
    by (erule inv_cong; auto simp: db_hash_update_def Let_def split: option.splits if_splits bind_splits)
  show "gatt_db_get_hash db = Some (r, db') \<Longrightarrow> db_inv db \<Longrightarrow> db_inv db'"
    by (auto simp: gatt_db_get_hash_def split: if_splits bind_splits intro: h)
qed

text \<open>A request that is taken in is pending or answered at once; an answer takes a pending one away.\<close>

lemma request_inv:
  assumes "db_inv db" and "get_attr p db = Some a" and "put_attr p a' (db\<lparr>rq_brk := rq_brk db + 1\<rparr>) = Some u"
    and "unat (value_len a') \<le> length (ga_value a')" and "mset (attr_nums a') = mset (attr_nums a) + N"
    and "N + mset (answered out) = {#rq_brk db#}"
  shows "db_inv (db_say out u)"
proof -
  let ?d = "db\<lparr>rq_brk := rq_brk db + 1\<rparr>"
  have "shape_ok ?d" "get_attr p ?d = Some a" using assms(1,2) by (simp_all add: db_inv_def shape_ok_def get_attr_def get_svc_def)
  from attr_update [OF this assms(3,4)] have u: "shape_ok u" "mset (db_nums (services u)) = mset (db_nums (services db)) + N" "db_log u = db_log db" "rq_brk u = rq_brk db + 1"
    using assms(5) by simp_all
  have "mset (db_nums (services u)) + mset (answered (db_log u @ out)) = (mset (db_nums (services db)) + mset (answered (db_log db))) + (N + mset (answered out))"
    by (simp add: u(2,3) ac_simps)
  also have "\<dots> = mset [0..<rq_brk u]" using assms(1,6) u(4) by (simp add: db_inv_def requests_ok_def del: mset_upt)
  finally show ?thesis using u(1) by (simp add: db_inv_def requests_ok_def shape_ok_def)
qed

lemma answer_inv:
  assumes "db_inv db" and "get_attr p db = Some a" and "put_attr p a' db = Some u"
    and "unat (value_len a') \<le> length (ga_value a')" and "mset (attr_nums a) = mset (attr_nums a') + mset (answered out)"
  shows "db_inv (db_say out u)"
proof -
  have "shape_ok db" using assms(1) by (simp add: db_inv_def)
  note u = attr_update [OF this assms(2-4)]
  have n: "mset (db_nums (services u)) + mset (answered out) = mset (db_nums (services db))"
    using u(2) unfolding assms(5) by (simp add: ac_simps)
  have "mset (db_nums (services u)) + mset (answered (db_log db @ out)) = (mset (db_nums (services u)) + mset (answered out)) + mset (answered (db_log db))"
    by (simp add: ac_simps)
  also have "\<dots> = mset [0..<rq_brk db]" using assms(1) unfolding n by (simp add: db_inv_def requests_ok_def)
  finally show ?thesis using assms(1) u(1,3,4) by (simp add: db_inv_def requests_ok_def shape_ok_def)
qed

lemma attr_len: "db_inv db \<Longrightarrow> get_attr p db = Some a \<Longrightarrow> unat (value_len a) \<le> length (ga_value a)"
proof -
  assume "db_inv db" "get_attr p db = Some a"
  then obtain s where "svc_ok s" "svc_attr (snd p) s = Some a" using get_svc_key(2)
    by (fastforce simp: get_attr_def db_inv_def shape_ok_def split: bind_splits)
  then show ?thesis by (auto simp: svc_ok_def svc_attr_def lst_get_def nth_append split: if_splits)
qed

lemma same_attr: "get_attr p db = Some a \<Longrightarrow> shape_ok db \<Longrightarrow> put_attr p a db = Some db"
proof -
  assume a: "get_attr p db = Some a" "shape_ok db"
  then obtain s where s: "get_svc (fst p) db = Some s" "svc_attr (snd p) s = Some a" by (auto simp: get_attr_def split: bind_splits)
  obtain us vs where e: "services db = us @ s # vs" "sv_key s = fst p" "\<forall>t \<in> set us \<union> set vs. sv_key t \<noteq> fst p"
    using get_svc_split [OF s(1)] a(2) by (auto simp: shape_ok_def)
  have "(attributes s)[snd p := Some a] = attributes s"
    using s(2) by (auto simp: svc_attr_def lst_get_def list_update_same_conv split: if_splits)
  then have "s\<lparr>attributes := (attributes s)[snd p := Some a]\<rparr> = s" by simp
  then show ?thesis using s(1) e put_svc_split [OF e(1), of s] by (simp add: put_attr_def)
qed

lemma quick_inv:
  assumes "db_inv db" and "get_attr p db = Some a" and "mset (answered out) = {#rq_brk db#}"
  shows "db_inv (db_say out (db\<lparr>rq_brk := rq_brk db + 1\<rparr>))"
proof -
  have "put_attr p a (db\<lparr>rq_brk := rq_brk db + 1\<rparr>) = Some (db\<lparr>rq_brk := rq_brk db + 1\<rparr>)"
    using assms(1,2) by (intro same_attr) (simp_all add: db_inv_def shape_ok_def get_attr_def get_svc_def)
  from request_inv [OF assms(1,2) this, of "{#}" out] show ?thesis using assms attr_len [OF assms(1,2)] by simp
qed

lemma read_inv:
  assumes "gatt_db_attribute_read p off opc f db = Some (r, db')" and "db_inv db"
  shows "db_inv db'"
proof -
  obtain a where a: "get_attr p db = Some a" using assms(1) by (auto simp: gatt_db_attribute_read_def split: bind_splits)
  show ?thesis
  proof (cases "\<exists>out. db' = db_say out (db\<lparr>rq_brk := rq_brk db + 1\<rparr>) \<and> mset (answered out) = {#rq_brk db#}")
    case True
    then show ?thesis using quick_inv [OF assms(2) a] by blast
  next
    case False
    let ?a = "a\<lparr>read_id := read_id a + 1, pending_reads := pending_reads a @ [\<lparr>pd_num = rq_brk db, pd_id = read_id a + 1, pd_func = f\<rparr>]\<rparr>"
    obtain u rd where "put_attr p ?a (db\<lparr>rq_brk := rq_brk db + 1\<rparr>) = Some u" "db' = db_say [Asked_read rd p (read_id a + 1) off opc] u"
      using assms(1) a False unfolding gatt_db_attribute_read_def Let_def by (auto split: option.splits if_splits bind_splits)
    then show ?thesis using request_inv [OF assms(2) a, of ?a u "{#rq_brk db#}"] attr_len [OF assms(2) a] by (simp add: attr_nums_def)
  qed
qed

lemma store_length:
  assumes "unat (value_len a) \<le> length (ga_value a)"
  shows "unat (value_len (store_value off v a)) \<le> length (ga_value (store_value off v a))"
proof (cases "ga_value a = [] \<or> off \<ge> value_len a \<or> length v > unat (value_len a) - unat off")
  case True
  have "unat (word_of_nat (length v + unat off) :: u16) \<le> length v + unat off" by (simp add: unat_of_nat take_bit_nat_def del: of_nat_add)
  then show ?thesis using True by (auto simp: store_value_def Let_def min_def simp del: of_nat_add)
next
  case False
  then have "unat off < unat (value_len a)" by (simp add: not_le word_less_nat_alt)
  then show ?thesis using False assms by (simp add: store_value_def Let_def)
qed

lemma store_nums [simp]: "attr_nums (store_value off v a) = attr_nums a"
  by (simp add: store_value_def attr_nums_def Let_def)

lemma write_inv:
  assumes "gatt_db_attribute_write p off v opc f db = Some (r, db')" and "db_inv db"
  shows "db_inv db'"
proof -
  obtain a where a: "get_attr p db = Some a" using assms(1) by (auto simp: gatt_db_attribute_write_def split: bind_splits)
  note l = attr_len [OF assms(2) a]
  show ?thesis
  proof (cases "\<exists>out. db' = db_say out (db\<lparr>rq_brk := rq_brk db + 1\<rparr>) \<and> mset (answered out) = {#rq_brk db#}")
    case True
    then show ?thesis using quick_inv [OF assms(2) a] by blast
  next
    case False
    let ?a = "a\<lparr>write_id := write_id a + 1, pending_writes := pending_writes a @ [\<lparr>pd_num = rq_brk db, pd_id = write_id a + 1, pd_func = f\<rparr>]\<rparr>"
    consider u wr where "put_attr p ?a (db\<lparr>rq_brk := rq_brk db + 1\<rparr>) = Some u" "db' = db_say [Asked_write wr p (write_id a + 1) off v opc] u"
      | u where "put_attr p (store_value off v a) (db\<lparr>rq_brk := rq_brk db + 1\<rparr>) = Some u" "db' = db_say [Write_done (rq_brk db) f p 0] u"
      using assms(1) a False unfolding gatt_db_attribute_write_def Let_def by (auto split: option.splits if_splits bind_splits)
    then show ?thesis
    proof cases
      case 1
      then show ?thesis using request_inv [OF assms(2) a, of ?a u "{#rq_brk db#}"] l by (simp add: attr_nums_def)
    next
      case 2
      then show ?thesis using request_inv [OF assms(2) a, of "store_value off v a" u "{#}"] store_length [OF l] by simp
    qed
  qed
qed

lemma take_pending_nums: "take_pending i ps = Some (r, qs) \<Longrightarrow> mset (map pd_num ps) = add_mset (pd_num r) (mset (map pd_num qs))"
  by (auto simp: take_pending_def extract_Some_iff split: option.splits)

lemma remove1_nums: "find P ps = Some r \<Longrightarrow> mset (map pd_num ps) = add_mset (pd_num r) (mset (map pd_num (remove1 r ps)))"
proof -
  assume "find P ps = Some r"
  then have "r \<in> set ps" using find_split by fastforce
  then have "mset ps = add_mset r (mset (remove1 r ps))" by simp
  then have "image_mset pd_num (mset ps) = image_mset pd_num (add_mset r (mset (remove1 r ps)))" by (rule arg_cong)
  then show ?thesis by (simp only: mset_map image_mset_add_mset)
qed

lemma results_inv:
  "gatt_db_attribute_read_result p i err v db = Some (r, db') \<Longrightarrow> db_inv db \<Longrightarrow> db_inv db'"
  "gatt_db_attribute_write_result p i err db = Some (r, db') \<Longrightarrow> db_inv db \<Longrightarrow> db_inv db'"
proof -
  assume a: "gatt_db_attribute_read_result p i err v db = Some (r, db')" "db_inv db"
  show "db_inv db'"
  proof (cases "db' = db")
    case False
    then obtain b q ps u where "get_attr p db = Some b" "take_pending i (pending_reads b) = Some (q, ps)" "put_attr p (b\<lparr>pending_reads := ps\<rparr>) db = Some u"
      "db' = db_say [Read_done (pd_num q) (pd_func q) p err (map Some v)] u"
      using a(1) by (auto simp: gatt_db_attribute_read_result_def split: bind_splits if_splits option.splits)
    then show ?thesis using answer_inv [OF a(2), of p b "b\<lparr>pending_reads := ps\<rparr>" u] attr_len [OF a(2)] take_pending_nums [of i "pending_reads b" q ps]
      by (simp add: attr_nums_def)
  qed (use a in simp)
next
  assume a: "gatt_db_attribute_write_result p i err db = Some (r, db')" "db_inv db"
  show "db_inv db'"
  proof (cases "db' = db")
    case False
    then obtain b q ps u where "get_attr p db = Some b" "take_pending i (pending_writes b) = Some (q, ps)" "put_attr p (b\<lparr>pending_writes := ps\<rparr>) db = Some u"
      "db' = db_say [Write_done (pd_num q) (pd_func q) p err] u"
      using a(1) by (auto simp: gatt_db_attribute_write_result_def split: bind_splits if_splits option.splits)
    then show ?thesis using answer_inv [OF a(2), of p b "b\<lparr>pending_writes := ps\<rparr>" u] attr_len [OF a(2)] take_pending_nums [of i "pending_writes b" q ps]
      by (simp add: attr_nums_def)
  qed (use a in simp)
qed

lemma timeouts_inv:
  "read_timeout p n db = Some db' \<Longrightarrow> db_inv db \<Longrightarrow> db_inv db'"
  "write_timeout p n db = Some db' \<Longrightarrow> db_inv db \<Longrightarrow> db_inv db'"
proof -
  have num: "find (\<lambda>r. pd_num r = n) ps = Some q \<Longrightarrow> pd_num q = n" for ps :: "'a pending list" and q using find_split by fastforce
  show "read_timeout p n db = Some db' \<Longrightarrow> db_inv db \<Longrightarrow> db_inv db'" for db db' :: "'a gatt_db"
  proof -
    assume a: "read_timeout p n db = Some db'" "db_inv db"
    then obtain b q u where q: "get_attr p db = Some b" "find (\<lambda>r. pd_num r = n) (pending_reads b) = Some q"
      "put_attr p (b\<lparr>pending_reads := remove1 q (pending_reads b)\<rparr>) db = Some u" "db' = db_say [Read_done n (pd_func q) p (- ETIMEDOUT) []] u"
      by (auto simp: read_timeout_def split: bind_splits)
    then show ?thesis using answer_inv [OF a(2) q(1,3)] attr_len [OF a(2) q(1)] remove1_nums [OF q(2)] num [OF q(2)] by (simp add: attr_nums_def)
  qed
  show "write_timeout p n db = Some db' \<Longrightarrow> db_inv db \<Longrightarrow> db_inv db'" for db db' :: "'a gatt_db"
  proof -
    assume a: "write_timeout p n db = Some db'" "db_inv db"
    then obtain b q u where q: "get_attr p db = Some b" "find (\<lambda>r. pd_num r = n) (pending_writes b) = Some q"
      "put_attr p (b\<lparr>pending_writes := remove1 q (pending_writes b)\<rparr>) db = Some u" "db' = db_say [Write_done n (pd_func q) p (- ETIMEDOUT)] u"
      by (auto simp: write_timeout_def split: bind_splits)
    then show ?thesis using answer_inv [OF a(2) q(1,3)] attr_len [OF a(2) q(1)] remove1_nums [OF q(2)] num [OF q(2)] by (simp add: attr_nums_def)
  qed
qed

lemma reset_inv:
  assumes "gatt_db_attribute_reset p db = Some (r, db')" and "db_inv db"
  shows "db_inv db'"
proof (cases "db' = db")
  case False
  then obtain a where a: "get_attr p db = Some a" "put_attr p (a\<lparr>ga_value := [], value_len := 0\<rparr>) db = Some db'"
    using assms(1) by (auto simp: gatt_db_attribute_reset_def split: bind_splits if_splits)
  then have "db_inv (db_say [] db')" by (intro answer_inv [OF assms(2) a]) (simp_all add: attr_nums_def)
  then show ?thesis by (simp add: db_say_def)
qed (use assms in simp)

end
