(* ===== verification/Gatt_Db_Correct.thy ===== *)
theory Gatt_Db_Correct
  imports Gatt_Db_Invariant
begin

text \<open>
  What the attribute database guarantees to its clients: the invariant in every run, lookup after an insertion, the
  declarations of characteristics, and reading after writing; and where it fails: insertions that
  enclose a service, the handle after clearing, and bytes that were never written.
\<close>

subsection \<open>Runs\<close>

datatype 'u db_api =
    Insert_service u16 bt_uuid bool u16
  | Remove_service aptr
  | Clear_range u16 u16
  | Db_register "'u option" "'u option" "'u option"
  | Db_unregister u32
  | Set_authorize "(aptr \<Rightarrow> byte \<Rightarrow> byte) option"
  | Insert_characteristic u16 bt_uuid u32 byte "'u option" "'u option"
  | Service_insert_characteristic aptr u16 bt_uuid u32 byte "'u option" "'u option"
  | Insert_descriptor u16 bt_uuid u32 "'u option" "'u option"
  | Service_insert_descriptor aptr u16 bt_uuid u32 "'u option" "'u option"
  | Insert_included u16 aptr
  | Service_insert_included aptr u16 aptr
  | Service_add_included aptr aptr
  | Set_active aptr bool
  | Set_claimed aptr bool
  | Read_attr aptr u16 byte 'u
  | Read_result aptr u32 int "byte list"
  | Read_timer aptr nat
  | Write_attr aptr u16 "byte list" byte 'u
  | Write_result aptr u32 int
  | Write_timer aptr nat
  | Reset_attr aptr
  | Get_hash
  | Hash_timer

fun db_exec :: "'u db_api \<Rightarrow> 'u gatt_db \<Rightarrow> 'u gatt_db option" where
  "db_exec (Insert_service h u pr n) db = map_option snd (gatt_db_insert_service h u pr n db)"
| "db_exec (Remove_service p) db = map_option snd (gatt_db_remove_service p db)"
| "db_exec (Clear_range a b) db = map_option snd (gatt_db_clear_range a b db)"
| "db_exec (Db_register a r d) db = Some (snd (gatt_db_register a r d db))"
| "db_exec (Db_unregister i) db = Some (snd (gatt_db_unregister i db))"
| "db_exec (Set_authorize f) db = Some (snd (gatt_db_set_authorize f db))"
| "db_exec (Insert_characteristic h u pm props rd wr) db = map_option snd (gatt_db_insert_characteristic h u pm props rd wr db)"
| "db_exec (Service_insert_characteristic p h u pm props rd wr) db = map_option snd (gatt_db_service_insert_characteristic p h u pm props rd wr db)"
| "db_exec (Insert_descriptor h u pm rd wr) db = map_option snd (gatt_db_insert_descriptor h u pm rd wr db)"
| "db_exec (Service_insert_descriptor p h u pm rd wr) db = map_option snd (gatt_db_service_insert_descriptor p h u pm rd wr db)"
| "db_exec (Insert_included h i) db = map_option snd (gatt_db_insert_included h i db)"
| "db_exec (Service_insert_included p h i) db = map_option snd (gatt_db_service_insert_included p h i db)"
| "db_exec (Service_add_included p i) db = map_option snd (gatt_db_service_add_included p i db)"
| "db_exec (Set_active p b) db = map_option snd (gatt_db_service_set_active p b db)"
| "db_exec (Set_claimed p b) db = map_option snd (gatt_db_service_set_claimed p b db)"
| "db_exec (Read_attr p off opc f) db = map_option snd (gatt_db_attribute_read p off opc f db)"
| "db_exec (Read_result p i err v) db = map_option snd (gatt_db_attribute_read_result p i err v db)"
| "db_exec (Read_timer p n) db = read_timeout p n db"
| "db_exec (Write_attr p off v opc f) db = map_option snd (gatt_db_attribute_write p off v opc f db)"
| "db_exec (Write_result p i err) db = map_option snd (gatt_db_attribute_write_result p i err db)"
| "db_exec (Write_timer p n) db = write_timeout p n db"
| "db_exec (Reset_attr p) db = map_option snd (gatt_db_attribute_reset p db)"
| "db_exec Get_hash db = map_option snd (gatt_db_get_hash db)"
| "db_exec Hash_timer db = (if hash_id db then db_hash_update db else None)"

fun db_execs :: "'u db_api list \<Rightarrow> 'u gatt_db \<Rightarrow> 'u gatt_db option" where
  "db_execs [] db = Some db"
| "db_execs (c # cs) db = do { db \<leftarrow> db_exec c db; db_execs cs db }"

definition call_uuid_ok :: "'u db_api \<Rightarrow> bool" where
  "call_uuid_ok c \<longleftrightarrow> (case c of Insert_service _ u _ _ \<Rightarrow> uuid_ok u | Insert_characteristic _ u _ _ _ _ \<Rightarrow> uuid_ok u
     | Service_insert_characteristic _ _ u _ _ _ _ \<Rightarrow> uuid_ok u | _ \<Rightarrow> True)"

lemma db_exec_inv: "db_exec c db = Some db' \<Longrightarrow> call_uuid_ok c \<Longrightarrow> db_inv db \<Longrightarrow> db_inv db'"
  by (cases c) (auto simp: call_uuid_ok_def gatt_db_insert_characteristic_def gatt_db_service_insert_characteristic_def
      gatt_db_insert_descriptor_def gatt_db_service_insert_descriptor_def gatt_db_insert_included_def gatt_db_service_insert_included_def
      gatt_db_service_add_included_def registry_inv
      intro: insert_service_inv remove_service_inv clear_range_inv insert_characteristic_inv insert_descriptor_inv insert_included_inv
        set_active_inv set_claimed_inv read_inv write_inv results_inv timeouts_inv reset_inv hash_inv
      split: option.splits bind_splits if_splits)

lemma db_execs_inv: "db_execs cs db = Some db' \<Longrightarrow> \<forall>c \<in> set cs. call_uuid_ok c \<Longrightarrow> db_inv db \<Longrightarrow> db_inv db'"
  by (induction cs arbitrary: db) (auto intro: db_exec_inv split: bind_splits)

text \<open>
  C28. In every run of the database from its creation: the services have their shape (a declaration, attributes without gaps, as many
  slots as handles), every read and write request that was taken in is pending in exactly one place or was
  answered exactly once, whatever answered it (the stored value, a result, a timeout, or the removal of its service), and
  a stored value is never longer than its buffer.
\<close>

theorem gatt_db_accounting:
  assumes "db_execs cs (gatt_db_new crypt) = Some db" and "\<forall>c \<in> set cs. call_uuid_ok c"
  shows "mset (db_nums (services db)) + mset (answered (db_log db)) = mset [0..<rq_brk db]
    \<and> distinct (map sv_key (services db)) \<and> (\<forall>s \<in> set (services db). svc_ok s)"
  using db_execs_inv [OF assms db_new_inv] by (simp add: db_inv_def shape_ok_def requests_ok_def)

definition demo_db_calls :: "nat db_api list" where
  "demo_db_calls = [Insert_service 0 (BT_UUID16 0x1800) True 4, Service_insert_characteristic (0, 0) 0 (BT_UUID16 0x2A00) 1 2 (Some 5) None,
     Read_attr (0, 2) 0 0x0A 7, Read_attr (0, 0) 0 0x0A 8, Read_result (0, 2) 1 0 [1, 2], Write_attr (0, 2) 0 [3] 0x12 9]"

lemma demo_db_log:
  "map_option db_log (db_execs demo_db_calls (gatt_db_new None)) = Some [Asked_read 5 (0, 2) 1 0 0x0A, Read_done 1 8 (0, 0) 0 [Some 0, Some 0x18],
     Read_done 0 7 (0, 2) 0 [Some 1, Some 2], Write_done 2 9 (0, 2) 0]"
  by code_simp

theorem gatt_db_accounting_witness:
  "\<exists>db. db_execs demo_db_calls (gatt_db_new None) = Some db \<and> length (db_log db) = 4
    \<and> mset (db_nums (services db)) + mset (answered (db_log db)) = mset [0..<rq_brk db]"
proof -
  obtain db where d: "db_execs demo_db_calls (gatt_db_new None) = Some db" "length (db_log db) = 4"
    using demo_db_log by (auto dest!: arg_cong [where f = "map_option length"])
  have "\<forall>c \<in> set demo_db_calls. call_uuid_ok c" by (simp add: demo_db_calls_def call_uuid_ok_def uuid_ok_def)
  from gatt_db_accounting [OF d(1) this] show ?thesis using d by blast
qed

subsection \<open>Handles\<close>

text \<open>The handles of a service as numbers, and databases whose services lie in order, without overlap, above handle 0.\<close>

definition sv_lo :: "'u gatt_db_service \<Rightarrow> nat" where
  "sv_lo s = unat (sv_start s)"

definition sv_hi :: "'u gatt_db_service \<Rightarrow> nat" where
  "sv_hi s = sv_lo s + unat (num_handles s) - 1"

definition sv_fits :: "'u gatt_db_service \<Rightarrow> bool" where
  "sv_fits s \<longleftrightarrow> num_handles s \<noteq> 0 \<and> 0 < sv_lo s \<and> sv_lo s + unat (num_handles s) \<le> 2 ^ 16"

definition in_order :: "'u gatt_db_service list \<Rightarrow> bool" where
  "in_order ss \<longleftrightarrow> (\<forall>s \<in> set ss. sv_fits s) \<and> sorted_wrt (\<lambda>s t. sv_hi s < sv_lo t) ss"

lemma unat_last:
  fixes a n :: u16
  assumes "n \<noteq> 0" and "unat a + unat n \<le> 2 ^ 16"
  shows "unat (a + n - 1) = unat a + unat n - 1"
proof -
  have p: "0 < unat n" using assms(1) by (simp add: unat_gt_0)
  then have "a + n - 1 = word_of_nat (unat a + unat n - 1)" by (simp add: of_nat_diff)
  moreover have "unat (word_of_nat (unat a + unat n - 1) :: u16) = unat a + unat n - 1"
    unfolding unat_of_nat take_bit_nat_def using assms(2) p by simp
  ultimately show ?thesis by simp
qed

lemma handles: "sv_fits s \<Longrightarrow> \<exists>b. gatt_db_service_get_handles s = (sv_start s, b) \<and> unat b = sv_hi s \<and> sv_lo s \<le> sv_hi s"
proof -
  assume f: "sv_fits s"
  then have "unat (sv_start s + num_handles s - 1) = sv_hi s" using unat_last [of "num_handles s" "sv_start s"]
    by (simp add: sv_fits_def sv_hi_def sv_lo_def)
  moreover have "0 < unat (num_handles s)" using f by (simp add: sv_fits_def unat_gt_0)
  ultimately show ?thesis by (simp add: gatt_db_service_get_handles_def sv_hi_def)
qed

lemma find_append: "find P (xs @ ys) = (case find P xs of Some x \<Rightarrow> Some x | None \<Rightarrow> find P ys)"
  by (induction xs) simp_all

lemma lookup_range: "sv_fits s \<Longrightarrow> find_service_for_handle x s \<longleftrightarrow> sv_lo s \<le> unat x \<and> unat x \<le> sv_hi s"
  using handles [of s] by (auto simp: find_service_for_handle_def sv_lo_def word_le_nat_alt)

text \<open>Where \<^verbatim>\<open>find_insert_loc\<close> puts a new range neither end of which lies in a service.\<close>

lemma insert_loc:
  assumes "\<forall>s \<in> set ss. sv_fits s \<and> unat st \<notin> {sv_lo s..sv_hi s} \<and> unat en \<notin> {sv_lo s..sv_hi s}" and "sorted_wrt (\<lambda>s t. sv_hi s < sv_lo t) ss"
  shows "\<exists>us vs. ss = us @ vs \<and> (\<forall>u \<in> set us. sv_hi u < unat en) \<and> (\<forall>v \<in> set vs. unat en < sv_lo v)
    \<and> find_insert_loc st en after ss = (None, if us = [] then after else Some (last us))"
  using assms
proof (induction ss arbitrary: after)
  case (Cons s ss)
  obtain b where b: "gatt_db_service_get_handles s = (sv_start s, b)" "unat b = sv_hi s" "sv_lo s \<le> sv_hi s" using handles Cons.prems(1) by auto
  have n: "\<not> (st \<ge> sv_start s \<and> st \<le> b)" "\<not> (en \<ge> sv_start s \<and> en \<le> b)" "en < sv_start s \<longleftrightarrow> unat en < sv_lo s"
    using Cons.prems(1) b(2) by (auto simp: word_le_nat_alt word_less_nat_alt sv_lo_def)
  show ?case
  proof (cases "unat en < sv_lo s")
    case True
    have "\<forall>v \<in> set (s # ss). unat en < sv_lo v" using True b(3) Cons.prems(2) by force
    moreover have "find_insert_loc st en after (s # ss) = (None, after)" using True n b(1) by simp
    ultimately have "s # ss = [] @ (s # ss) \<and> (\<forall>u \<in> set []. sv_hi u < unat en) \<and> (\<forall>v \<in> set (s # ss). unat en < sv_lo v)
      \<and> find_insert_loc st en after (s # ss) = (None, if [] = [] then after else Some (last []))" by (simp del: find_insert_loc.simps)
    then show ?thesis by blast
  next
    case False
    then have h: "sv_hi s < unat en" using Cons.prems(1) by auto
    obtain us vs where r: "ss = us @ vs" "\<forall>u \<in> set us. sv_hi u < unat en" "\<forall>v \<in> set vs. unat en < sv_lo v"
      "find_insert_loc st en (Some s) ss = (None, if us = [] then Some s else Some (last us))"
      using Cons.IH [of "Some s"] Cons.prems by auto
    have "find_insert_loc st en after (s # ss) = find_insert_loc st en (Some s) ss" using False n b(1) by auto
    then have "s # ss = (s # us) @ vs \<and> (\<forall>u \<in> set (s # us). sv_hi u < unat en) \<and> (\<forall>v \<in> set vs. unat en < sv_lo v)
      \<and> find_insert_loc st en after (s # ss) = (None, if s # us = [] then after else Some (last (s # us)))"
      using r h by (simp del: find_insert_loc.simps)
    then show ?thesis by blast
  qed
qed auto

lemma le_total: "uuid_ok u \<Longrightarrow> \<exists>v. uuid_to_le u = Some v"
  by (cases u) (auto simp: uuid_to_le_def uuid_ok_def)

lemma insert_at:
  fixes db :: "'u gatt_db"
  assumes "db_inv db" and "uuid_ok uuid" and "n \<noteq> 0" and "unat h + unat n \<le> 2 ^ 16" and "h = (if handle = 0 then next_handle db else handle)"
    and "services db = us @ vs" and "find_insert_loc h (h + n - 1) None (services db) = (None, if us = [] then None else Some (last us))"
  shows "\<exists>s db'. gatt_db_insert_service handle uuid primary n db = Some (Some (sv_brk db, 0), db') \<and> db_inv db' \<and> services db' = us @ s # vs
    \<and> sv_key s = sv_brk db \<and> sv_start s = h \<and> num_handles s = n"
proof -
  obtain s :: "'u gatt_db_service" where s: "gatt_db_service_create (sv_brk db) uuid h primary n = Some s" using le_total [OF assms(2)] by (auto simp: gatt_db_service_create_def)
  have p: "push_after (sv_key (last us)) s (us @ vs) = us @ s # vs" if us: "us \<noteq> []"
  proof -
    obtain ws x where w: "us = ws @ [x]" using us by (metis rev_exhaust)
    then have "sv_key x \<notin> sv_key ` set ws" using assms(1,6) by (auto simp: db_inv_def shape_ok_def)
    then have "push_after (sv_key x) s (ws @ x # vs) = ws @ x # s # vs" by (induction ws) auto
    then show ?thesis by (simp add: w)
  qed
  have f: "\<not> (n < 1 \<or> uint h + uint n - 1 > 0xFFFF)"
  proof -
    have "int (unat h + unat n) \<le> int 65536" using assms(4) by (simp only: of_nat_le_iff) simp
    then have "uint h + uint n \<le> 65536" by simp
    moreover have "\<not> n < 1" using assms(3) by (simp add: word_less_nat_alt unat_gt_0)
    ultimately show ?thesis by simp
  qed
  obtain db' where d: "gatt_db_insert_service handle uuid primary n db = Some (Some (sv_brk db, 0), db')" "services db' = us @ s # vs"
    using f s p assms(6,7) unfolding gatt_db_insert_service_def assms(5) [symmetric] Let_def by (cases "us = []") simp_all
  then show ?thesis using insert_service_inv [OF d(1) assms(1,2)] create_facts [OF s assms(2,3)] by blast
qed

text \<open>
  C29. Inserting and finding services. In a database whose services lie in order, a service whose handles meet no other
  one can always be inserted; the services lie in order afterwards, its handles lead to it, and every
  other handle leads where it led before.
\<close>

theorem insert_service_lookup:
  assumes "db_inv db" and "in_order (services db)" and "uuid_ok uuid" and "n \<noteq> 0" and "h \<noteq> 0" and "unat h + unat n \<le> 2 ^ 16"
    and "\<forall>s \<in> set (services db). sv_hi s < unat h \<or> unat h + unat n \<le> sv_lo s"
  shows "\<exists>db'. gatt_db_insert_service h uuid primary n db = Some (Some (sv_brk db, 0), db') \<and> db_inv db' \<and> in_order (services db')
    \<and> (\<forall>x. gatt_db_get_service x db' = (if unat h \<le> unat x \<and> unat x < unat h + unat n then Some (sv_brk db, 0) else gatt_db_get_service x db))"
proof -
  have p: "0 < unat n" "0 < unat h" using assms(4,5) by (simp_all add: unat_gt_0)
  have e: "unat (h + n - 1) = unat h + unat n - 1" using unat_last [OF assms(4,6)] .
  have fits: "\<forall>s \<in> set (services db). sv_fits s \<and> sv_lo s \<le> sv_hi s" using assms(2) handles by (auto simp: in_order_def)
  obtain us vs where l: "services db = us @ vs" "\<forall>u \<in> set us. sv_hi u < unat (h + n - 1)" "\<forall>v \<in> set vs. unat (h + n - 1) < sv_lo v"
    "find_insert_loc h (h + n - 1) None (services db) = (None, if us = [] then None else Some (last us))"
    using insert_loc [of "services db" h "h + n - 1" None] assms(2,7) fits p e by (fastforce simp: in_order_def)
  obtain s db' where d: "gatt_db_insert_service h uuid primary n db = Some (Some (sv_brk db, 0), db')" "db_inv db'" "services db' = us @ s # vs"
    "sv_key s = sv_brk db" "sv_start s = h" "num_handles s = n"
    using insert_at [OF assms(1,3,4,6) _ l(1,4), of h primary] assms(5) by auto
  have r: "sv_lo s = unat h" "sv_hi s = unat h + unat n - 1" "sv_fits s" using d(5,6) assms(4,6) p by (simp_all add: sv_lo_def sv_hi_def sv_fits_def)
  have u: "\<forall>t \<in> set us. sv_hi t < sv_lo s"
  proof
    fix t assume t: "t \<in> set us"
    then have "t \<in> set (services db)" using l(1) by simp
    then show "sv_hi t < sv_lo s" using t l(2) e assms(7) fits r(1) by fastforce
  qed
  have v: "\<forall>t \<in> set vs. sv_hi s < sv_lo t" using l(3) e r(2) by simp
  have o: "in_order (services db')" using assms(2) u v r(3) unfolding d(3) l(1) by (auto simp: in_order_def sorted_wrt_append)
  have "gatt_db_get_service x db' = (if unat h \<le> unat x \<and> unat x < unat h + unat n then Some (sv_brk db, 0) else gatt_db_get_service x db)" for x
  proof (cases "unat h \<le> unat x \<and> unat x < unat h + unat n")
    case True
    have "find (find_service_for_handle x) us = None" using True u r(1) fits lookup_range unfolding l(1) by (fastforce simp: find_None_iff)
    moreover have "find_service_for_handle x s" using True r lookup_range [OF r(3), of x] by auto
    moreover have "x \<noteq> 0" using True p(2) by (auto simp: unat_eq_zero)
    ultimately show ?thesis using True d(3,4) by (simp add: gatt_db_get_service_def find_append)
  next
    case False
    then have "\<not> find_service_for_handle x s" using r(1,2) p(1) lookup_range [OF r(3), of x] by auto
    then show ?thesis unfolding if_not_P [OF False] using d(3) l(1) by (simp add: gatt_db_get_service_def find_append split: option.split)
  qed
  then show ?thesis using d(1,2) o by blast
qed

definition demo_two :: "nat gatt_db" where
  "demo_two = the (db_execs [Insert_service 1 (BT_UUID16 0x1800) True 3, Insert_service 10 (BT_UUID16 0x1801) True 4] (gatt_db_new None))"

lemma demo_two_facts:
  "db_inv demo_two" "map sv_lo (services demo_two) = [1, 10]" "map sv_hi (services demo_two) = [3, 13]"
  "map num_handles (services demo_two) = [3, 4]" "sv_brk demo_two = 2" "next_handle demo_two = 14"
proof -
  let ?cs = "[Insert_service 1 (BT_UUID16 0x1800) True 3, Insert_service 10 (BT_UUID16 0x1801) True 4] :: nat db_api list"
  have "db_execs ?cs (gatt_db_new None) \<noteq> None" by code_simp
  then have "db_execs ?cs (gatt_db_new None) = Some demo_two" by (simp add: demo_two_def)
  then show "db_inv demo_two" by (rule db_execs_inv) (simp_all add: call_uuid_ok_def uuid_ok_def db_new_inv)
  show "map sv_lo (services demo_two) = [1, 10]" by code_simp
  show "map sv_hi (services demo_two) = [3, 13]" by code_simp
  show "map num_handles (services demo_two) = [3, 4]" by code_simp
  show "sv_brk demo_two = 2" by code_simp
  show "next_handle demo_two = 14" by code_simp
qed

lemma demo_two_order: "in_order (services demo_two)"
proof -
  obtain s t where e: "services demo_two = [s, t]" using arg_cong [OF demo_two_facts(2), of length] by (auto simp: length_Suc_conv eval_nat_numeral)
  then show ?thesis using demo_two_facts by (simp add: in_order_def sv_fits_def)
qed

theorem insert_service_lookup_witness:
  "\<exists>db'. gatt_db_insert_service 5 (BT_UUID16 0x1802) True 3 demo_two = Some (Some (2, 0), db') \<and> in_order (services db')
    \<and> gatt_db_get_service 6 db' = Some (2, 0)"
proof -
  obtain s t where e: "services demo_two = [s, t]" using arg_cong [OF demo_two_facts(2), of length] by (auto simp: length_Suc_conv eval_nat_numeral)
  then have "\<forall>s \<in> set (services demo_two). sv_hi s < unat (5 :: u16) \<or> unat (5 :: u16) + unat (3 :: u16) \<le> sv_lo s"
    using demo_two_facts by simp
  from insert_service_lookup [OF demo_two_facts(1) demo_two_order _ _ _ _ this, of "BT_UUID16 0x1802" True]
  show ?thesis using demo_two_facts(5) by (auto simp: uuid_ok_def)
qed

text \<open>
  A new service that encloses an existing one is accepted, although only services that do not overlap should be: only the
  two ends of its range are compared with the services. The handles of the enclosed service then belong to two services.
\<close>

theorem insert_service_encloses:
  assumes "db_inv db" and "in_order (services db)" and "uuid_ok uuid" and "n \<noteq> 0" and "h \<noteq> 0" and "unat h + unat n \<le> 2 ^ 16"
    and "s \<in> set (services db)" and "unat h < sv_lo s" and "sv_hi s + 1 < unat h + unat n"
    and "\<forall>t \<in> set (services db). unat h \<notin> {sv_lo t..sv_hi t} \<and> unat h + unat n - 1 \<notin> {sv_lo t..sv_hi t}"
  shows "\<exists>db' t. gatt_db_insert_service h uuid primary n db = Some (Some (sv_brk db, 0), db') \<and> s \<in> set (services db') \<and> t \<in> set (services db')
    \<and> sv_key t = sv_brk db \<and> {sv_lo s..sv_hi s} \<subseteq> {sv_lo t..sv_hi t} \<and> \<not> in_order (services db')"
proof -
  have p: "0 < unat n" using assms(4) by (simp add: unat_gt_0)
  have e: "unat (h + n - 1) = unat h + unat n - 1" using unat_last [OF assms(4,6)] .
  obtain us vs where l: "services db = us @ vs" "\<forall>u \<in> set us. sv_hi u < unat (h + n - 1)" "\<forall>v \<in> set vs. unat (h + n - 1) < sv_lo v"
    "find_insert_loc h (h + n - 1) None (services db) = (None, if us = [] then None else Some (last us))"
    using insert_loc [of "services db" h "h + n - 1" None] assms(2,10) e by (fastforce simp: in_order_def)
  obtain t db' where d: "gatt_db_insert_service h uuid primary n db = Some (Some (sv_brk db, 0), db')" "services db' = us @ t # vs"
    "sv_key t = sv_brk db" "sv_start t = h" "num_handles t = n"
    using insert_at [OF assms(1,3,4,6) _ l(1,4), of h primary] assms(5) by auto
  have r: "sv_lo t = unat h" "sv_hi t = unat h + unat n - 1" using d(4,5) by (simp_all add: sv_lo_def sv_hi_def)
  have f: "sv_lo s \<le> sv_hi s" using assms(2,7) handles by (auto simp: in_order_def)
  have s: "s \<in> set us" using assms(7,9) l(1,3) e f by fastforce
  have "\<not> in_order (services db')" using s assms(8) f r(1) unfolding d(2) by (fastforce simp: in_order_def sorted_wrt_append)
  moreover have "{sv_lo s..sv_hi s} \<subseteq> {sv_lo t..sv_hi t}" using assms(8,9) r by auto
  ultimately show ?thesis using d(1-3) s by auto
qed

theorem insert_service_encloses_witness:
  "\<exists>db' s t. gatt_db_insert_service 5 (BT_UUID16 0x1802) True 11 demo_two = Some (Some (2, 0), db') \<and> s \<in> set (services db') \<and> t \<in> set (services db')
    \<and> sv_key t = 2 \<and> {sv_lo s..sv_hi s} \<subseteq> {sv_lo t..sv_hi t} \<and> \<not> in_order (services db')"
proof -
  obtain s t where e: "services demo_two = [s, t]" using arg_cong [OF demo_two_facts(2), of length] by (auto simp: length_Suc_conv eval_nat_numeral)
  show ?thesis using insert_service_encloses [OF demo_two_facts(1) demo_two_order, of "BT_UUID16 0x1802" 11 5 t True] demo_two_facts e
    by (auto simp: uuid_ok_def)
qed

text \<open>
  Clearing the database sets the next handle to 0, which is no handle: the service that is added next gets
  the declaration handle 0, and neither \<^verbatim>\<open>gatt_db_get_service\<close> nor \<^verbatim>\<open>gatt_db_get_attribute\<close> finds it under it.
\<close>

theorem clear_then_add_handle_0:
  assumes "db_inv db" and "gatt_db_clear db = Some (r, db1)" and "uuid_ok uuid" and "n \<noteq> 0"
  shows "\<exists>db2 a. gatt_db_add_service uuid primary n db1 = Some (Some (sv_brk db1, 0), db2) \<and> get_attr (sv_brk db1, 0) db2 = Some a
    \<and> ga_handle a = 0 \<and> gatt_db_get_service (ga_handle a) db2 = None \<and> gatt_db_get_attribute (ga_handle a) db2 = None"
proof -
  obtain u where u: "destroy_services (filter (\<lambda>s. True) (services db)) (db\<lparr>services := filter (\<lambda>s. \<not> True) (services db)\<rparr>) = Some u"
    "db1 = (if gatt_db_isempty u then u\<lparr>next_handle := 0\<rparr> else u)"
    using assms(2) by (auto simp: gatt_db_clear_def gatt_db_clear_range_def Let_def split: bind_splits)
  have c: "services db1 = []" "next_handle db1 = 0" using u destroy_services_facts [OF u(1)] by (simp_all add: gatt_db_isempty_def)
  have i: "db_inv db1" using assms(1,2) clear_range_inv by (auto simp: gatt_db_clear_def)
  have "int (unat n) \<le> int 65536" using uint_lt2p [of n] by simp
  then have n: "unat (0 :: u16) + unat n \<le> 2 ^ 16" by (simp only: of_nat_le_iff) simp
  have l: "find_insert_loc 0 (0 + n - 1) None (services db1) = (None, if ([] :: 'a gatt_db_service list) = [] then None else Some (last []))" "services db1 = [] @ []"
    using c(1) by simp_all
  obtain s db2 where d: "gatt_db_insert_service 0 uuid primary n db1 = Some (Some (sv_brk db1, 0), db2)" "db_inv db2" "services db2 = [s]"
    "sv_key s = sv_brk db1" "sv_start s = 0"
    using insert_at [OF i assms(3,4) n _ l(2,1), of 0 primary] c(2) by auto
  have "svc_ok s" using d(2,3) by (simp add: db_inv_def shape_ok_def)
  then obtain a where a: "svc_attr 0 s = Some a" by (auto simp: svc_ok_def svc_attr_def lst_get_def nth_append)
  then have "get_attr (sv_brk db1, 0) db2 = Some a" "ga_handle a = 0" using d(3-5) by (simp_all add: get_attr_def get_svc_def sv_start_def)
  then show ?thesis using d(1) by (auto simp: gatt_db_add_service_def gatt_db_get_service_def gatt_db_get_attribute_def)
qed

theorem clear_then_add_handle_0_witness:
  "\<exists>db1 db2 a. gatt_db_clear demo_two = Some (True, db1) \<and> gatt_db_add_service (BT_UUID16 0x1800) True 5 db1 = Some (Some (2, 0), db2)
    \<and> get_attr (2, 0) db2 = Some a \<and> ga_handle a = 0"
proof -
  have c: "map_option (\<lambda>(r, db). (r, sv_brk db)) (gatt_db_clear demo_two) = Some (True, 2)" by code_simp
  then obtain db1 where d: "gatt_db_clear demo_two = Some (True, db1)" "sv_brk db1 = 2" by auto
  show ?thesis using clear_then_add_handle_0 [OF demo_two_facts(1) d(1), of "BT_UUID16 0x1800" 5 True] d by (auto simp: uuid_ok_def)
qed

subsection \<open>Declarations of characteristics\<close>

lemma word_of_be16: "word_of_int (be_val (be16 w)) = w"
proof -
  have b: "uint w < 65536" "0 \<le> uint w" using uint_lt2p [of w] by simp_all
  have "(ucast (drop_bit 8 w) :: byte) = i2b (uint w div 256)" using byte_of_word [of 8 "uint w", where 'a = 16] by simp
  moreover have "(ucast w :: byte) = i2b (uint w)" using byte_of_word [of 0 "uint w", where 'a = 16] by simp
  ultimately have "b2i (ucast (drop_bit 8 w)) = uint w div 256 mod 256" "b2i (ucast w) = uint w mod 256" by (simp_all only: uint_i2b_mod)
  moreover have "uint w div 256 mod 256 = uint w div 256" using b by (intro mod_pos_pos_trivial) (simp_all add: pos_imp_zdiv_nonneg_iff)
  ultimately have "be_val (be16 w) = uint w" by (simp add: be16_def be_val_def)
  then show ?thesis by simp
qed

lemma get_put_le16: "get_le16 (put_le16 w @ xs) = w"
proof -
  have "take 2 (put_le16 w @ xs) = rev (be16 w)" by (simp add: put_le16_def be16_def)
  then show ?thesis by (simp only: get_le16_def rev_rev_ident word_of_be16)
qed

lemmas get_put_le16' = get_put_le16 [where xs = "[]", simplified append_Nil2]

lemma cmp_refl: "uuid_ok u \<Longrightarrow> bt_uuid_cmp u u = Some 0"
proof -
  assume "uuid_ok u"
  then obtain b where "bt_uuid_to_uuid128 u = Some (BT_UUID128 b)" by (rule to_uuid128_bytes)
  then show ?thesis by (simp add: bt_uuid_cmp_def bt_uuid128_cmp_def memcmp_0_iff)
qed

lemma le_uuid_roundtrip:
  assumes "uuid_ok u" and "uuid_to_le u = Some le"
  shows "\<exists>v. le_to_uuid le = Some v \<and> bt_uuid_cmp u v = Some 0 \<and> (length le = 2 \<or> length le = 16)"
proof (cases "\<exists>w. u = BT_UUID16 w")
  case True
  then obtain w where w: "u = BT_UUID16 w" "le = put_le16 w" using assms(2) by (auto simp: uuid_to_le_def)
  then have "le_to_uuid le = Some u" by (simp add: le_to_uuid_def get_put_le16')
  then show ?thesis using cmp_refl [OF assms(1)] w(2) by simp
next
  case False
  obtain b where b: "bt_uuid_to_uuid128 u = Some (BT_UUID128 b)" "length b = 16" using to_uuid128_bytes [OF assms(1)] .
  then have "le = rev b" using assms False by (cases u) (auto simp: uuid_to_le_def uuid_bytes_def uuid_ok_def)
  then have "le_to_uuid le = Some (BT_UUID128 b)" using b(2) by (simp add: le_to_uuid_def)
  then show ?thesis using b \<open>le = rev b\<close> by (simp add: bt_uuid_cmp_def bt_uuid128_cmp_def memcmp_0_iff)
qed

lemma those_map_Some [simp]: "those (map Some xs) = Some xs"
  by (induction xs) simp_all

lemma get_put_svc: "get_svc k db = Some s \<Longrightarrow> shape_ok db \<Longrightarrow> sv_key s' = k \<Longrightarrow> get_svc k (put_svc s' db) = Some s'"
proof -
  assume a: "get_svc k db = Some s" "shape_ok db" "sv_key s' = k"
  obtain us vs where e: "services db = us @ s # vs" "sv_key s = k" "\<forall>t \<in> set us \<union> set vs. sv_key t \<noteq> k"
    using get_svc_split [OF a(1)] a(2) by (auto simp: shape_ok_def)
  then have "put_svc s' db = db\<lparr>services := us @ s' # vs\<rparr>" using put_svc_split [OF e(1)] a(3) by simp
  moreover have "find (\<lambda>t. sv_key t = k) (us @ s' # vs) = Some s'" using e(3) a(3) by (induction us) auto
  ultimately show ?thesis by (simp add: get_svc_def)
qed

lemma svc_attrs_mem: "((j, i), a) \<in> set (svc_attrs s) \<Longrightarrow> i < length (attributes s) \<and> attributes s ! i = Some a"
  by (auto simp: svc_attrs_def in_set_enumerate_eq split: option.splits)

text \<open>
  C30. What is declared can be read back. A service with two free slots takes a characteristic; the attribute that is returned carries its
  type, permissions and callbacks, and the declaration before it reads back as the same properties, the handle of that
  attribute and a UUID equal to the given one, for UUIDs of every width.
\<close>

theorem characteristic_roundtrip:
  fixes db :: "'u gatt_db"
  assumes "db_inv db" and "get_attr p db = Some a0" and "get_svc (fst p) db = Some s" and "get_attribute_index s 1 \<noteq> 0" and "uuid_ok uuid"
  shows "\<exists>q a c v db'. gatt_db_service_add_characteristic p uuid pm props rd wr db = Some (Some q, db') \<and> db_inv db'
    \<and> get_attr q db' = Some a \<and> ga_uuid a = uuid \<and> permissions a = pm \<and> read_func a = rd \<and> write_func a = wr
    \<and> gatt_db_attribute_get_char_data (fst q, snd q - 1) db' = Some (Some c) \<and> cd_properties c = props \<and> cd_value_handle c = ga_handle a
    \<and> cd_handle c + 1 = ga_handle a \<and> cd_ext_prop c = 0 \<and> cd_uuid c = Some v \<and> bt_uuid_cmp uuid v = Some 0"
proof -
  have sh: "shape_ok db" "svc_ok s" using assms(1) get_svc_key(2) [OF assms(3)] by (auto simp: db_inv_def shape_ok_def)
  have key: "sv_key s = fst p" using get_svc_key(1) [OF assms(3)] .
  obtain as m where o: "attributes s = map Some as @ replicate m None" "get_attribute_index s 1 = length as" "1 < m" "as \<noteq> []"
    "length as + m = unat (num_handles s)" using attribute_index [OF sh(2) refl assms(4)] .
  obtain m' where m: "m = Suc (Suc m')" using o(3) by (metis One_nat_def Suc_lessE less_imp_Suc_add plus_1_eq_Suc)
  define h where "h = ga_handle (last as) + 2"
  have last: "get_handle_at_index s (length as - 1) = Some (ga_handle (last as))"
    using o(1,3,4) by (simp add: get_handle_at_index_def svc_attr_def lst_get_def nth_append last_conv_nth)
  obtain le where le: "uuid_to_le uuid = Some le" using assms(5) by (cases uuid) (auto simp: uuid_to_le_def uuid_ok_def)
  obtain v where v: "le_to_uuid le = Some v" "bt_uuid_cmp uuid v = Some 0" "length le = 2 \<or> length le = 16" using le_uuid_roundtrip [OF assms(5) le] by blast
  define val where "val = props # put_le16 h @ le"
  have val: "length val = 5 \<or> length val = 19" using v(3) by (auto simp: val_def)
  define d :: "'u gatt_db_attribute" where "d = set_attribute_data None None BT_ATT_PERM_READ (new_attribute (h - 1) characteristic_uuid val)"
  define a :: "'u gatt_db_attribute" where "a = set_attribute_data rd wr pm (new_attribute h uuid [])"
  define s' where "s' = s\<lparr>attributes := map Some (as @ [d, a]) @ replicate m' None\<rparr>"
  have u: "(map Some as @ None # None # replicate m' None)[length as := Some d, Suc (length as) := Some a] = map Some (as @ [d, a]) @ replicate m' None"
    by (simp add: list_update_append)
  have ins: "gatt_db_service_add_characteristic p uuid pm props rd wr db = Some (Some (fst p, length as + 1), put_svc s' db)"
    using assms(2,3) o(1,2,4) last le u m
    by (simp add: gatt_db_service_add_characteristic_def service_insert_characteristic_def set_attr_def lst_set_def s'_def d_def a_def h_def val_def Let_def)
  have inv: "db_inv (put_svc s' db)" using ins insert_characteristic_inv [OF _ assms(1,5)]
    by (auto simp: gatt_db_service_add_characteristic_def split: bind_splits)
  have g: "get_svc (fst p) (put_svc s' db) = Some s'" using get_put_svc [OF assms(3) sh(1)] key by (simp add: s'_def)
  have at: "get_attr (fst p, length as) (put_svc s' db) = Some d" "get_attr (fst p, length as + 1) (put_svc s' db) = Some a"
    using g by (simp_all add: get_attr_def svc_attr_def lst_get_def s'_def nth_append)
  have df: "ga_uuid d = characteristic_uuid" "ga_handle d = h - 1" "ga_value d = map Some val" "unat (value_len d) = length val"
    using val by (auto simp: d_def set_attribute_data_def new_attribute_def)
  have vl: "value_len d = 5 \<or> value_len d = 19" using val by (auto simp: d_def set_attribute_data_def new_attribute_def)
  have vb: "val_bytes (unat (value_len d)) d = Some val" "ga_value d \<noteq> []"
    unfolding val_bytes_def df(3,4) using val by auto
  have props: "val ! 0 = props" by (simp add: val_def)
  have c: "same_uuid characteristic_uuid characteristic_uuid = Some True" by (simp add: same_uuid_def cmp_refl uuid_ok_def)
  have none: "filter (\<lambda>((_, i), _). length as + 2 \<le> i) (svc_attrs s') = []"
    using svc_attrs_mem [of _ _ _ s'] by (fastforce simp: filter_empty_conv s'_def nth_append)
  have "gatt_db_service_foreach_desc (fst p, length as) (put_svc s' db) = Some []"
    using at(1) g c df(1) none by (simp add: gatt_db_service_foreach_desc_def)
  then have ext: "get_char_extended_prop (fst p, length as) (put_svc s' db) = Some 0"
    using at(1) c df by (simp add: get_char_extended_prop_def val_bytes_def val_def)
  have "gatt_db_attribute_get_char_data (fst p, length as) (put_svc s' db) = Some (Some \<lparr>cd_handle = h - 1, cd_value_handle = get_le16 (drop 1 val),
      cd_properties = props, cd_ext_prop = 0, cd_uuid = le_to_uuid (drop 3 val)\<rparr>)"
    using at(1) c df(1,2) vl ext vb props by (auto simp: gatt_db_attribute_get_char_data_def)
  moreover have "get_le16 (drop 1 val) = h" "drop 3 val = le" by (simp_all add: val_def get_put_le16 eval_nat_numeral)
  moreover have "ga_uuid a = uuid" "permissions a = pm" "read_func a = rd" "write_func a = wr" "ga_handle a = h"
    by (simp_all add: a_def set_attribute_data_def new_attribute_def)
  ultimately show ?thesis using ins inv at(2) v by (intro exI conjI) (simp_all; fail)+
qed

theorem characteristic_roundtrip_witness:
  "\<exists>q a c v db'. gatt_db_service_add_characteristic (1, 0) (BT_UUID32 0x12345678) 3 0x12 (Some 5) None demo_two = Some (Some q, db') \<and> db_inv db'
    \<and> get_attr q db' = Some a \<and> ga_uuid a = BT_UUID32 0x12345678
    \<and> gatt_db_attribute_get_char_data (fst q, snd q - 1) db' = Some (Some c) \<and> cd_properties c = 0x12 \<and> cd_value_handle c = ga_handle a
    \<and> cd_uuid c = Some v \<and> bt_uuid_cmp (BT_UUID32 0x12345678) v = Some 0"
proof -
  have "map_option (\<lambda>s. get_attribute_index s 1) (get_svc 1 demo_two) = Some 1" by code_simp
  then obtain s where s: "get_svc (fst (1, 0 :: nat)) demo_two = Some s" "get_attribute_index s 1 \<noteq> 0" by auto
  have "get_attr (1, 0) demo_two \<noteq> None" by code_simp
  then obtain a0 where a0: "get_attr (1, 0) demo_two = Some a0" by auto
  show ?thesis using characteristic_roundtrip [OF demo_two_facts(1) a0 s, of "BT_UUID32 0x12345678" 3 "0x12" "Some 5" None]
    by (auto simp: uuid_ok_def)
qed

subsection \<open>Stored values\<close>

lemma get_put_attr:
  assumes "shape_ok db" and "get_attr p db = Some a"
  shows "\<exists>db'. put_attr p b db = Some db' \<and> get_attr p db' = Some b \<and> rq_brk db' = rq_brk db \<and> db_log db' = db_log db"
proof -
  obtain s where s: "get_svc (fst p) db = Some s" "svc_attr (snd p) s = Some a" using assms(2) by (auto simp: get_attr_def split: bind_splits)
  let ?s = "s\<lparr>attributes := (attributes s)[snd p := Some b]\<rparr>"
  have "get_svc (fst p) (put_svc ?s db) = Some ?s" using get_put_svc [OF s(1) assms(1)] get_svc_key(1) [OF s(1)] by simp
  moreover have "svc_attr (snd p) ?s = Some b" using s(2) by (auto simp: svc_attr_def lst_get_def split: if_splits)
  ultimately show ?thesis using s(1) by (simp add: put_attr_def get_attr_def)
qed

lemma middle: "length x = k \<Longrightarrow> k + length y \<le> n \<Longrightarrow> drop k (take n (x @ y @ z)) = y @ take (n - (k + length y)) z"
  by auto

lemma store_facts:
  assumes "unat (value_len a) \<le> length (ga_value a)" and "unat off + length v < 2 ^ 16"
  shows "read_func (store_value off v a) = read_func a"
    and "drop (unat off) (take (unat (value_len (store_value off v a))) (ga_value (store_value off v a)))
      = map Some v @ drop (unat off + length v) (take (unat (value_len a)) (ga_value a))"
    and "off \<le> value_len (store_value off v a)"
proof -
  show "read_func (store_value off v a) = read_func a" by (simp add: store_value_def Let_def)
  have l: "unat (word_of_nat (length v + unat off) :: u16) = length v + unat off"
    unfolding unat_of_nat take_bit_nat_def using assms(2) by simp
  consider "ga_value a = [] \<or> off \<ge> value_len a \<or> length v > unat (value_len a) - unat off"
    | "ga_value a \<noteq> []" "off < value_len a" "length v \<le> unat (value_len a) - unat off" by force
  then have "drop (unat off) (take (unat (value_len (store_value off v a))) (ga_value (store_value off v a)))
      = map Some v @ drop (unat off + length v) (take (unat (value_len a)) (ga_value a)) \<and> off \<le> value_len (store_value off v a)"
  proof cases
    case 1
    then have d: "drop (unat off + length v) (take (unat (value_len a)) (ga_value a)) = []" using assms(1) by (auto simp: word_le_nat_alt)
    have s: "value_len (store_value off v a) = word_of_nat (length v + unat off)"
      "\<exists>w. length w = unat off \<and> ga_value (store_value off v a) = w @ map Some v"
    proof -
      show "value_len (store_value off v a) = word_of_nat (length v + unat off)" unfolding store_value_def Let_def using 1 by simp
      show "\<exists>w. length w = unat off \<and> ga_value (store_value off v a) = w @ map Some v"
      proof -
        define b where "b = take (length v + unat off) (ga_value a) @ replicate (length v + unat off - length (ga_value a)) None"
        define c where "c = (if value_len a = 0 then replicate (unat off) (Some 0) @ drop (unat off) b else b)"
        have "length b = length v + unat off" by (simp add: b_def min_def)
        then have "length c = length v + unat off" by (simp add: c_def)
        moreover have "ga_value (store_value off v a) = take (unat off) c @ map Some v @ drop (unat off + length v) c"
          unfolding store_value_def Let_def b_def [symmetric] c_def [symmetric] using 1 by simp
        ultimately show ?thesis by (intro exI [of _ "take (unat off) c"]) simp
      qed
    qed
    then obtain w where "length w = unat off" "ga_value (store_value off v a) = w @ map Some v" by blast
    then show ?thesis unfolding s(1) d word_le_nat_alt l by simp
  next
    case 2
    then have k: "unat off + length v \<le> unat (value_len a)" by (simp add: word_less_nat_alt)
    have n: "(ga_value a = [] \<or> off \<ge> value_len a \<or> length v > unat (value_len a) - unat off) = False" using 2 by auto
    have s: "value_len (store_value off v a) = value_len a"
      "ga_value (store_value off v a) = take (unat off) (ga_value a) @ map Some v @ drop (unat off + length v) (ga_value a)"
      unfolding store_value_def Let_def n by simp_all
    have "length (take (unat off) (ga_value a)) = unat off" using k assms(1) by simp
    then have "drop (unat off) (take (unat (value_len a)) (take (unat off) (ga_value a) @ map Some v @ drop (unat off + length v) (ga_value a)))
        = map Some v @ take (unat (value_len a) - (unat off + length v)) (drop (unat off + length v) (ga_value a))"
      using middle [of "take (unat off) (ga_value a)" "unat off" "map Some v"] k by simp
    then show ?thesis unfolding s using 2(2) by (simp only: drop_take order_less_imp_le)
  qed
  then show "drop (unat off) (take (unat (value_len (store_value off v a))) (ga_value (store_value off v a)))
      = map Some v @ drop (unat off + length v) (take (unat (value_len a)) (ga_value a))" "off \<le> value_len (store_value off v a)" by simp_all
qed

lemma write_stores:
  assumes "db_inv db" and "get_attr p db = Some a" and "write_func a = None" and "v \<noteq> []"
  shows "\<exists>u. gatt_db_attribute_write p off v opc f db = Some (True, u) \<and> get_attr p u = Some (store_value off v a) \<and> rq_brk u = rq_brk db + 1
    \<and> db_log u = db_log db @ [Write_done (rq_brk db) f p 0]"
proof -
  let ?d = "db\<lparr>rq_brk := rq_brk db + 1\<rparr>" and ?a = "store_value off v a"
  have "shape_ok ?d" "get_attr p ?d = Some a" using assms(1,2) by (simp_all add: db_inv_def shape_ok_def get_attr_def get_svc_def)
  then obtain u where "put_attr p ?a ?d = Some u" "get_attr p u = Some ?a" "rq_brk u = rq_brk db + 1" "db_log u = db_log db"
    using get_put_attr [of ?d p a ?a] by auto
  then show ?thesis using assms(2,3,4) by (simp add: gatt_db_attribute_write_def Let_def get_attr_def get_svc_def)
qed

text \<open>
  C31. Reading back what was written. A write of bytes into an attribute whose value is stored in the database succeeds at every
  offset, and reading at that offset then returns these bytes, followed by what the value already had behind
  them; both calls answer their caller at once.
\<close>

theorem write_then_read:
  assumes "db_inv db" and "get_attr p db = Some a" and "read_func a = None" and "write_func a = None" and "v \<noteq> []" and "unat off + length v < 2 ^ 16"
  shows "\<exists>db1 db2. gatt_db_attribute_write p off v opc f db = Some (True, db1) \<and> gatt_db_attribute_read p off opc' g db1 = Some (True, db2)
    \<and> db_log db2 = db_log db @ [Write_done (rq_brk db) f p 0,
        Read_done (rq_brk db + 1) g p 0 (map Some v @ drop (unat off + length v) (take (unat (value_len a)) (ga_value a)))]"
proof -
  let ?a = "store_value off v a"
  note l = attr_len [OF assms(1,2)]
  obtain u where u: "gatt_db_attribute_write p off v opc f db = Some (True, u)" "get_attr p u = Some ?a" "rq_brk u = rq_brk db + 1"
    "db_log u = db_log db @ [Write_done (rq_brk db) f p 0]" using write_stores [OF assms(1,2,4,5)] by blast
  have s: "\<not> value_len ?a < off" "\<not> length (ga_value ?a) < unat (value_len ?a)" using store_facts(3) [OF l assms(6)] store_length [OF l, of off v] by auto
  have "gatt_db_attribute_read p off opc' g u = Some (True, db_say [Read_done (rq_brk u) g p 0
      (map Some v @ drop (unat off + length v) (take (unat (value_len a)) (ga_value a)))] (u\<lparr>rq_brk := rq_brk u + 1\<rparr>))"
    unfolding gatt_db_attribute_read_def u(2) Let_def using store_facts(1,2) [OF l assms(6)] assms(3) s by simp
  then show ?thesis using u(1,3,4) by (auto simp: db_say_def)
qed

text \<open>
  A write behind the end of a stored value leaves bytes that were never written: only a value that was empty is filled with zeros. A
  read from the old end returns the uninitialised memory between it and the offset to the caller.
\<close>

theorem write_gap_uninitialised:
  assumes "db_inv db" and "get_attr p db = Some a" and "read_func a = None" and "write_func a = None" and "v \<noteq> []" and "unat off + length v < 2 ^ 16"
    and "length (ga_value a) = unat (value_len a)" and "0 < value_len a" and "value_len a < off"
  shows "\<exists>db1 db2. gatt_db_attribute_write p off v opc f db = Some (True, db1) \<and> gatt_db_attribute_read p (value_len a) opc' g db1 = Some (True, db2)
    \<and> db_log db2 = db_log db @ [Write_done (rq_brk db) f p 0,
        Read_done (rq_brk db + 1) g p 0 (replicate (unat off - unat (value_len a)) None @ map Some v)]"
proof -
  let ?a = "store_value off v a"
  note l = attr_len [OF assms(1,2)]
  obtain u where u: "gatt_db_attribute_write p off v opc f db = Some (True, u)" "get_attr p u = Some ?a" "rq_brk u = rq_brk db + 1"
    "db_log u = db_log db @ [Write_done (rq_brk db) f p 0]" using write_stores [OF assms(1,2,4,5)] by blast
  have o: "unat (value_len a) < unat off" using assms(9) by (simp add: word_less_nat_alt)
  have vl: "unat (word_of_nat (length v + unat off) :: u16) = length v + unat off"
    unfolding unat_of_nat take_bit_nat_def using assms(6) by simp
  have s: "value_len ?a = word_of_nat (length v + unat off)"
    "ga_value ?a = ga_value a @ replicate (unat off - unat (value_len a)) None @ map Some v"
    unfolding store_value_def Let_def using assms(7,8,9) o by (auto simp: min_def)
  have b: "\<not> value_len ?a < value_len a" "\<not> length (ga_value ?a) < unat (value_len ?a)"
    unfolding s word_less_nat_alt vl using o assms(7) by simp_all
  have "drop (unat (value_len a)) (take (unat (value_len ?a)) (ga_value ?a)) = replicate (unat off - unat (value_len a)) None @ map Some v"
    unfolding s vl using o assms(7) by simp
  then have "gatt_db_attribute_read p (value_len a) opc' g u = Some (True, db_say [Read_done (rq_brk u) g p 0
      (replicate (unat off - unat (value_len a)) None @ map Some v)] (u\<lparr>rq_brk := rq_brk u + 1\<rparr>))"
    unfolding gatt_db_attribute_read_def u(2) Let_def using store_facts(1) [OF l assms(6)] assms(3) b by simp
  then show ?thesis using u(1,3,4) by (auto simp: db_say_def)
qed

definition demo_value_calls :: "nat db_api list" where
  "demo_value_calls = [Insert_service 1 (BT_UUID16 0x1800) True 3, Service_insert_characteristic (0, 0) 0 (BT_UUID16 0x2A00) 3 2 None None,
     Write_attr (0, 2) 0 [1, 2] 0x12 9]"

lemma demo_value:
  obtains db a where "db_execs demo_value_calls (gatt_db_new None) = Some db" "db_inv db" "get_attr (0, 2) db = Some a" "read_func a = None"
    "write_func a = None" "length (ga_value a) = unat (value_len a)" "value_len a = 2" "db_log db = [Write_done 0 9 (0, 2) 0]" "rq_brk db = 1"
    "ga_value a = [Some 1, Some 2]"
proof -
  have "map_option (\<lambda>db. (db_log db, rq_brk db, map_option (\<lambda>a. (read_func a, write_func a, value_len a, ga_value a)) (get_attr (0, 2) db)))
      (db_execs demo_value_calls (gatt_db_new None)) = Some ([Write_done 0 9 (0, 2) 0], 1, Some (None, None, 2, [Some 1, Some 2]))" by code_simp
  then obtain db a where d: "db_execs demo_value_calls (gatt_db_new None) = Some db" "get_attr (0, 2) db = Some a" "read_func a = None"
    "write_func a = None" "value_len a = 2" "ga_value a = [Some 1, Some 2]" "db_log db = [Write_done 0 9 (0, 2) 0]" "rq_brk db = 1" by auto
  have "\<forall>c \<in> set demo_value_calls. call_uuid_ok c" by (simp add: demo_value_calls_def call_uuid_ok_def uuid_ok_def)
  then have "db_inv db" using db_execs_inv [OF d(1) _ db_new_inv] by blast
  then show ?thesis using that d by simp
qed

theorem write_then_read_witness:
  "\<exists>db db1 db2. db_execs demo_value_calls (gatt_db_new None) = Some db \<and> gatt_db_attribute_write (0, 2) 1 [7] 0x12 3 db = Some (True, db1)
    \<and> gatt_db_attribute_read (0, 2) 1 0x0A 4 db1 = Some (True, db2)
    \<and> db_log db2 = [Write_done 0 9 (0, 2) 0, Write_done 1 3 (0, 2) 0, Read_done 2 4 (0, 2) 0 [Some 7]]"
proof -
  obtain db a where d: "db_execs demo_value_calls (gatt_db_new None) = Some db" "db_inv db" "get_attr (0, 2) db = Some a" "read_func a = None"
    "write_func a = None" "length (ga_value a) = unat (value_len a)" "value_len a = 2" "db_log db = [Write_done 0 9 (0, 2) 0]" "rq_brk db = 1"
    "ga_value a = [Some 1, Some 2]" by (rule demo_value)
  show ?thesis using write_then_read [OF d(2-5), of "[7]" 1 "0x12" 3 "0x0A" 4] d(1,7-10) by auto
qed

theorem write_gap_uninitialised_witness:
  "\<exists>db db1 db2. db_execs demo_value_calls (gatt_db_new None) = Some db \<and> gatt_db_attribute_write (0, 2) 4 [7] 0x12 3 db = Some (True, db1)
    \<and> gatt_db_attribute_read (0, 2) 2 0x0A 4 db1 = Some (True, db2)
    \<and> db_log db2 = [Write_done 0 9 (0, 2) 0, Write_done 1 3 (0, 2) 0, Read_done 2 4 (0, 2) 0 [None, None, Some 7]]"
proof -
  obtain db a where d: "db_execs demo_value_calls (gatt_db_new None) = Some db" "db_inv db" "get_attr (0, 2) db = Some a" "read_func a = None"
    "write_func a = None" "length (ga_value a) = unat (value_len a)" "value_len a = 2" "db_log db = [Write_done 0 9 (0, 2) 0]" "rq_brk db = 1"
    "ga_value a = [Some 1, Some 2]" by (rule demo_value)
  have r: "replicate (unat (4 :: u16) - unat (2 :: u16)) (None :: byte option) = [None, None]"
  proof -
    have "unat (4 :: u16) - unat (2 :: u16) = Suc (Suc 0)" by simp
    then show ?thesis by (simp only: replicate.simps)
  qed
  have "\<exists>db1 db2. gatt_db_attribute_write (0, 2) 4 [7] 0x12 3 db = Some (True, db1) \<and> gatt_db_attribute_read (0, 2) (value_len a) 0x0A 4 db1 = Some (True, db2)
    \<and> db_log db2 = db_log db @ [Write_done (rq_brk db) 3 (0, 2) 0,
        Read_done (rq_brk db + 1) 4 (0, 2) 0 (replicate (unat (4 :: u16) - unat (value_len a)) None @ map Some [7])]"
    by (rule write_gap_uninitialised [OF d(2-5) _ _ d(6)]) (simp_all add: d(7))
  then show ?thesis using d(1) unfolding d(7,8,9) r by auto
qed

end
