(* ===== verification/Gatt_Server.thy ===== *)
theory Gatt_Server
  imports Gatt_Db_Correct
begin

text \<open>
  The GATT server of BlueZ, \<^verbatim>\<open>bluez_deps/src/shared/gatt-server.c\<close>: the handlers of the ATT requests over the
  attribute database, their asynchronous completion, prepared writes, permissions, MTU exchange, notifications and indications.

  The completion callbacks of the server are values of \<^verbatim>\<open>srv_cb\<close> that carry the structure the code allocates for them: each
  structure is reachable through its callback only, apart from the pointers \<^verbatim>\<open>pending_read_op\<close> and \<^verbatim>\<open>pending_write_op\<close>, of which
  the code uses that they are set and, when the server is freed, that the operation learns of it. A callback the database runs
  within a call is run at the end of that call, where the code has nothing left to do. Requests carry the number of
  their order, and the list \<^verbatim>\<open>srv_log\<close> records what is sent for which request; buffers are lists with checked writes, and
  bytes never written are \<^term>\<open>None\<close>. Allocations succeed. The ATT layer appears as its MTU, its security level and the result of sending.
\<close>

subsection \<open>Data\<close>

abbreviation "BT_ATT_DEFAULT_LE_MTU \<equiv> (23 :: u16)"
abbreviation "DEFAULT_MAX_PREP_QUEUE_LEN \<equiv> (30 :: nat)"

abbreviation "BT_ATT_PERM_WRITE \<equiv> (0x02 :: u32)"
abbreviation "BT_ATT_PERM_READ_ENCRYPT \<equiv> (0x04 :: u32)"
abbreviation "BT_ATT_PERM_WRITE_ENCRYPT \<equiv> (0x08 :: u32)"
abbreviation "BT_ATT_PERM_ENCRYPT \<equiv> (0x0C :: u32)"
abbreviation "BT_ATT_PERM_READ_AUTHEN \<equiv> (0x10 :: u32)"
abbreviation "BT_ATT_PERM_WRITE_AUTHEN \<equiv> (0x20 :: u32)"
abbreviation "BT_ATT_PERM_AUTHEN \<equiv> (0x30 :: u32)"
abbreviation "BT_ATT_PERM_SECURE \<equiv> (0x300 :: u32)"
abbreviation "READ_MASK \<equiv> (BT_ATT_PERM_READ OR BT_ATT_PERM_READ_AUTHEN OR BT_ATT_PERM_READ_ENCRYPT)"
abbreviation "WRITE_MASK \<equiv> (BT_ATT_PERM_WRITE OR BT_ATT_PERM_WRITE_AUTHEN OR BT_ATT_PERM_WRITE_ENCRYPT)"

abbreviation "BT_ATT_SECURITY_MEDIUM \<equiv> (2 :: int)"
abbreviation "BT_ATT_SECURITY_HIGH \<equiv> (3 :: int)"
abbreviation "BT_ATT_SECURITY_FIPS \<equiv> (4 :: int)"

abbreviation "ERR_INVALID_HANDLE \<equiv> (0x01 :: byte)"
abbreviation "ERR_READ_NOT_PERMITTED \<equiv> (0x02 :: byte)"
abbreviation "ERR_WRITE_NOT_PERMITTED \<equiv> (0x03 :: byte)"
abbreviation "ERR_INVALID_PDU \<equiv> (0x04 :: byte)"
abbreviation "ERR_AUTHENTICATION \<equiv> (0x05 :: byte)"
abbreviation "ERR_REQUEST_NOT_SUPPORTED \<equiv> (0x06 :: byte)"
abbreviation "ERR_PREPARE_QUEUE_FULL \<equiv> (0x09 :: byte)"
abbreviation "ERR_ATTRIBUTE_NOT_FOUND \<equiv> (0x0A :: byte)"
abbreviation "ERR_KEY_SIZE \<equiv> (0x0C :: byte)"
abbreviation "ERR_UNLIKELY \<equiv> (0x0E :: byte)"
abbreviation "ERR_INSUFFICIENT_ENCRYPTION \<equiv> (0x0F :: byte)"
abbreviation "ERR_UNSUPPORTED_GROUP_TYPE \<equiv> (0x10 :: byte)"

abbreviation "OP_MTU_REQ \<equiv> (0x02 :: byte)"
abbreviation "OP_FIND_INFO_REQ \<equiv> (0x04 :: byte)"
abbreviation "OP_FIND_BY_TYPE_REQ \<equiv> (0x06 :: byte)"
abbreviation "OP_READ_BY_TYPE_REQ \<equiv> (0x08 :: byte)"
abbreviation "OP_READ_REQ \<equiv> (0x0A :: byte)"
abbreviation "OP_READ_BLOB_REQ \<equiv> (0x0C :: byte)"
abbreviation "OP_READ_MULT_REQ \<equiv> (0x0E :: byte)"
abbreviation "OP_READ_BY_GRP_TYPE_REQ \<equiv> (0x10 :: byte)"
abbreviation "OP_WRITE_REQ \<equiv> (0x12 :: byte)"
abbreviation "OP_WRITE_CMD \<equiv> (0x52 :: byte)"
abbreviation "OP_PREP_WRITE_REQ \<equiv> (0x16 :: byte)"
abbreviation "OP_EXEC_WRITE_REQ \<equiv> (0x18 :: byte)"
abbreviation "OP_READ_MULT_VL_REQ \<equiv> (0x20 :: byte)"
abbreviation "OP_HANDLE_NFY \<equiv> (0x1B :: byte)"
abbreviation "OP_HANDLE_IND \<equiv> (0x1D :: byte)"
abbreviation "OP_HANDLE_NFY_MULT \<equiv> (0x23 :: byte)"

record async_read_op =
  ro_rq :: nat
  ro_opcode :: byte
  ro_done :: bool
  ro_pdu :: "byte option list"
  ro_pdu_len :: nat
  ro_value_len :: nat
  ro_db_data :: "aptr list"

record read_mult_data =
  rm_rq :: nat
  rm_opcode :: byte
  rm_handles :: "u16 list"
  rm_cur_handle :: nat
  rm_rsp_data :: "byte option list"
  rm_length :: nat
  rm_mtu :: nat

record prep_write_data =
  pw_value :: "byte list"
  pw_handle :: u16
  pw_offset :: u16
  pw_length :: u16
  reliable_supported :: bool

record nfy_mult_data =
  nm_id :: bool
  nm_pdu :: "byte option list"
  nm_offset :: u16
  nm_len :: u16

datatype srv_cb =
    App_cb nat
  | On_attribute_read
  | On_read_by_type async_read_op
  | On_read nat byte
  | On_write nat byte
  | On_read_multiple read_mult_data
  | On_prep_write nat "byte list"
  | On_exec_write nat

datatype srv_out =
    Send_rsp nat byte "byte option list"
  | Send_error_rsp nat byte u16 int
  | Send_pdu byte "byte option list"
  | Ind_destroyed nat

record gatt_server =
  srv_ref_count :: int
  sdb :: "srv_cb gatt_db"
  att_mtu :: u16
  chan_mtu :: u16
  att_security :: "int \<times> byte"
  srv_mtu :: u16
  min_enc_size :: byte
  prep_queue :: "prep_write_data list"
  max_prep_queue_len :: nat
  pending_read_op :: bool
  pending_write_op :: bool
  srv_authorize :: "(byte \<Rightarrow> u16 \<Rightarrow> byte) option"
  nfy_mult :: "nfy_mult_data option"
  alive :: bool
  rq_count :: nat
  srv_log :: "srv_out list"

definition bt_gatt_server_new :: "srv_cb gatt_db \<Rightarrow> u16 \<Rightarrow> int \<times> byte \<Rightarrow> u16 \<Rightarrow> byte \<Rightarrow> gatt_server" where
  "bt_gatt_server_new db attm sec mtu enc = \<lparr>srv_ref_count = 1, sdb = db, att_mtu = attm, chan_mtu = attm, att_security = sec, srv_mtu = max mtu BT_ATT_DEFAULT_LE_MTU,
     min_enc_size = enc, prep_queue = [], max_prep_queue_len = DEFAULT_MAX_PREP_QUEUE_LEN, pending_read_op = False, pending_write_op = False,
     srv_authorize = None, nfy_mult = None, alive = True, rq_count = 0, srv_log = []\<rparr>"

definition srv_say :: "srv_out \<Rightarrow> gatt_server \<Rightarrow> gatt_server" where
  "srv_say x s = s\<lparr>srv_log := srv_log s @ [x]\<rparr>"

definition bt_gatt_server_set_authorize :: "(byte \<Rightarrow> u16 \<Rightarrow> byte) option \<Rightarrow> gatt_server \<Rightarrow> gatt_server" where
  "bt_gatt_server_set_authorize cb s = s\<lparr>srv_authorize := cb\<rparr>"

text \<open>\<^verbatim>\<open>bt_gatt_server_free\<close>: pending operations learn that the server is gone; the prepared writes are dropped.\<close>

definition bt_gatt_server_free :: "gatt_server \<Rightarrow> gatt_server" where
  "bt_gatt_server_free s = s\<lparr>alive := False, prep_queue := []\<rparr>"

definition bt_gatt_server_ref :: "gatt_server \<Rightarrow> gatt_server" where
  "bt_gatt_server_ref s = s\<lparr>srv_ref_count := srv_ref_count s + 1\<rparr>"

definition bt_gatt_server_unref :: "gatt_server \<Rightarrow> gatt_server" where
  "bt_gatt_server_unref s = (let s = s\<lparr>srv_ref_count := srv_ref_count s - 1\<rparr> in if srv_ref_count s \<noteq> 0 then s else bt_gatt_server_free s)"

definition bt_gatt_server_get_mtu :: "gatt_server \<Rightarrow> u16" where
  "bt_gatt_server_get_mtu s = att_mtu s"

definition buf_put :: "byte option list \<Rightarrow> nat \<Rightarrow> byte option list \<Rightarrow> byte option list option" where
  "buf_put b i xs = (if i + length xs \<le> length b then Some (take i b @ xs @ drop (i + length xs) b) else None)"

definition get_uuid_le :: "byte list \<Rightarrow> bt_uuid option" where
  "get_uuid_le b = (if length b = 2 then Some (BT_UUID16 (get_le16 b)) else if length b = 16 then Some (BT_UUID128 (rev b)) else None)"

text \<open>
  Calls of the database: reading and writing an attribute, with the result the completion callback is given within the call, if it is.
\<close>

definition attribute_read :: "aptr \<Rightarrow> u16 \<Rightarrow> byte \<Rightarrow> srv_cb \<Rightarrow> gatt_server \<Rightarrow> (bool \<times> (int \<times> byte option list) option \<times> gatt_server) option" where
  "attribute_read p offset opcode cb s = do {
     (ok, db) \<leftarrow> gatt_db_attribute_read p offset opcode cb (sdb s);
     Some (ok, case drop (length (db_log (sdb s))) (db_log db) of [Read_done _ _ _ err v] \<Rightarrow> Some (err, v) | _ \<Rightarrow> None, s\<lparr>sdb := db\<rparr>)
   }"

definition attribute_write :: "aptr \<Rightarrow> u16 \<Rightarrow> byte list \<Rightarrow> byte \<Rightarrow> srv_cb \<Rightarrow> gatt_server \<Rightarrow> (bool \<times> int option \<times> gatt_server) option" where
  "attribute_write p offset value opcode cb s = do {
     (ok, db) \<leftarrow> gatt_db_attribute_write p offset value opcode cb (sdb s);
     Some (ok, case drop (length (db_log (sdb s))) (db_log db) of [Write_done _ _ _ err] \<Rightarrow> Some err | _ \<Rightarrow> None, s\<lparr>sdb := db\<rparr>)
   }"

subsection \<open>Permissions\<close>

definition check_min_key_size :: "byte \<Rightarrow> byte \<Rightarrow> bool" where
  "check_min_key_size min_size key \<longleftrightarrow> min_size = 0 \<or> key = 0 \<or> min_size \<le> key"

definition check_permissions :: "u32 \<Rightarrow> u32 \<Rightarrow> gatt_server \<Rightarrow> byte" where
  "check_permissions perm msk s =
     (let (security, enc_size) = att_security s; p = perm AND msk; key = check_min_key_size (min_enc_size s) enc_size
      in if perm \<noteq> 0 \<and> msk AND BT_ATT_PERM_READ \<noteq> 0 \<and> perm AND BT_ATT_PERM_READ = 0 then ERR_READ_NOT_PERMITTED
         else if perm \<noteq> 0 \<and> msk AND BT_ATT_PERM_WRITE \<noteq> 0 \<and> perm AND BT_ATT_PERM_WRITE = 0 then ERR_WRITE_NOT_PERMITTED
         else if p = 0 then 0
         else if security < 0 then ERR_UNLIKELY
         else if p AND BT_ATT_PERM_SECURE \<noteq> 0 \<and> security < BT_ATT_SECURITY_FIPS then ERR_AUTHENTICATION
         else if p AND BT_ATT_PERM_SECURE \<noteq> 0 \<and> \<not> key then ERR_KEY_SIZE
         else if p AND BT_ATT_PERM_AUTHEN \<noteq> 0 \<and> security < BT_ATT_SECURITY_HIGH then ERR_AUTHENTICATION
         else if p AND BT_ATT_PERM_AUTHEN \<noteq> 0 \<and> \<not> key then ERR_KEY_SIZE
         else if p AND BT_ATT_PERM_ENCRYPT \<noteq> 0 \<and> security < BT_ATT_SECURITY_MEDIUM then ERR_INSUFFICIENT_ENCRYPTION
         else if p AND BT_ATT_PERM_ENCRYPT \<noteq> 0 \<and> \<not> key then ERR_KEY_SIZE
         else 0)"

definition authorize_req :: "byte \<Rightarrow> u16 \<Rightarrow> gatt_server \<Rightarrow> byte" where
  "authorize_req opcode handle s = (case srv_authorize s of None \<Rightarrow> 0 | Some f \<Rightarrow> f opcode handle)"

subsection \<open>Discovery of services\<close>

text \<open>The loop of \<^verbatim>\<open>encode_read_by_grp_type_rsp\<close>; the result is the buffer and its length, or \<^term>\<open>None\<close> where it returns false.\<close>

primrec encode_read_by_grp_type_rsp :: "u16 \<Rightarrow> aptr list \<Rightarrow> nat \<Rightarrow> byte \<Rightarrow> byte option list \<Rightarrow> gatt_server \<Rightarrow> ((byte option list \<times> nat) option \<times> gatt_server) option" where
  "encode_read_by_grp_type_rsp mtu [] iter data_val_len pdu s = Some (Some (pdu, iter), s)"
| "encode_read_by_grp_type_rsp mtu (p # q) iter data_val_len pdu s = do {
     (ok, r, s) \<leftarrow> attribute_read p 0 OP_READ_BY_GRP_TYPE_REQ On_attribute_read s;
     let v = (case r of Some (_, v) \<Rightarrow> v | None \<Rightarrow> []);
     if \<not> ok \<or> v = [] then Some (None, s)
     else if iter \<noteq> 0 \<and> length v \<noteq> unat data_val_len then Some (Some (pdu, iter), s)
     else do {
       let len = (if iter = 0 then i2b (min (min ((uint mtu - 6) mod 2 ^ 32) 251) (int (length v))) else data_val_len);
       pdu \<leftarrow> (if iter = 0 then buf_put pdu 0 [Some (len + 4)] else Some pdu);
       let iter = (if iter = 0 then 1 else iter);
       if int iter + uint len + 4 > uint mtu - 1 then Some (Some (pdu, iter), s)
       else do {
         svc \<leftarrow> get_svc (fst p) (sdb s);
         let (start, end) = gatt_db_service_get_handles svc;
         pdu \<leftarrow> buf_put pdu iter (map Some (put_le16 start @ put_le16 end) @ take (unat len) v);
         encode_read_by_grp_type_rsp mtu q (iter + unat len + 4) len pdu s
       }
     }
   }"

definition read_by_grp_type_cb :: "nat \<Rightarrow> byte \<Rightarrow> byte list \<Rightarrow> gatt_server \<Rightarrow> gatt_server option" where
  "read_by_grp_type_cb rq opcode pdu s =
     (let mtu = att_mtu s; start = get_le16 pdu; end = get_le16 (drop 2 pdu)
      in if length pdu \<noteq> 6 \<and> length pdu \<noteq> 20 then Some (srv_say (Send_error_rsp rq opcode 0 (uint ERR_INVALID_PDU)) s)
         else if start = 0 \<or> end = 0 then Some (srv_say (Send_error_rsp rq opcode 0 (uint ERR_INVALID_HANDLE)) s)
         else if start > end then Some (srv_say (Send_error_rsp rq opcode start (uint ERR_INVALID_HANDLE)) s)
         else do {
           type \<leftarrow> get_uuid_le (drop 4 pdu);
           prim \<leftarrow> same_uuid type primary_service_uuid;
           snd \<leftarrow> same_uuid type secondary_service_uuid;
           if \<not> prim \<and> \<not> snd then Some (srv_say (Send_error_rsp rq opcode start (uint ERR_UNSUPPORTED_GROUP_TYPE)) s)
           else do {
             q \<leftarrow> gatt_db_read_by_group_type start end type (sdb s);
             if q = [] then Some (srv_say (Send_error_rsp rq opcode start (uint ERR_ATTRIBUTE_NOT_FOUND)) s)
             else do {
               (r, s) \<leftarrow> encode_read_by_grp_type_rsp mtu q 0 0 (replicate (unat mtu) None) s;
               Some (case r of None \<Rightarrow> srv_say (Send_error_rsp rq opcode start (uint ERR_UNLIKELY)) s
                     | Some (buf, len) \<Rightarrow> srv_say (Send_rsp rq 0x11 (take len buf)) s)
             }
           }
         })"

subsection \<open>Reading by type\<close>

definition async_read_op_destroy :: "gatt_server \<Rightarrow> gatt_server" where
  "async_read_op_destroy s = (if alive s then s\<lparr>pending_read_op := False\<rparr> else s)"

text \<open>The first value fixes the length of the entries.\<close>

definition read_by_type_start :: "async_read_op \<Rightarrow> u16 \<Rightarrow> nat \<Rightarrow> async_read_op option" where
  "read_by_type_start op mtu len = do {
     let n = nat (min (min ((uint mtu - 4) mod 2 ^ 32) 253) (int len));
     pdu \<leftarrow> buf_put (ro_pdu op) 0 [Some (word_of_nat (n + 2))];
     Some (op\<lparr>ro_value_len := n, ro_pdu := pdu, ro_pdu_len := 1\<rparr>)
   }"

text \<open>
  \<^verbatim>\<open>read_by_type_read_complete_cb\<close> up to its call of \<^verbatim>\<open>process_read_by_type\<close>: what it adds to the response. \<^term>\<open>None\<close> in the result
  says that the operation has ended.
\<close>

definition read_by_type_value :: "async_read_op \<Rightarrow> aptr \<Rightarrow> int \<Rightarrow> byte option list \<Rightarrow> gatt_server \<Rightarrow> (async_read_op option \<times> gatt_server) option" where
  "read_by_type_value op p err v s =
     (if \<not> alive s then Some (None, s)
      else do {
        let mtu = att_mtu s;
        a \<leftarrow> get_attr p (sdb s);
        if err \<noteq> 0 then Some (None, async_read_op_destroy (srv_say (Send_error_rsp (ro_rq op) OP_READ_BY_TYPE_REQ (ga_handle a) err) s))
        else if ro_pdu_len op \<noteq> 0 \<and> length v \<noteq> ro_value_len op then Some (Some (op\<lparr>ro_done := True\<rparr>), s)
        else do {
          op \<leftarrow> (if ro_pdu_len op = 0 then read_by_type_start op mtu (length v) else Some op);
          if int (ro_pdu_len op + ro_value_len op + 2) > (uint mtu - 1) mod 2 ^ 32 then Some (Some (op\<lparr>ro_done := True\<rparr>), s)
          else do {
            pdu \<leftarrow> buf_put (ro_pdu op) (ro_pdu_len op) (map Some (put_le16 (ga_handle a)) @ take (ro_value_len op) v);
            let n = ro_pdu_len op + ro_value_len op + 2;
            Some (Some (op\<lparr>ro_pdu := pdu, ro_pdu_len := n, ro_done := (ro_done op \<or> int n = (uint mtu - 1) mod 2 ^ 32)\<rparr>), s)
          }
        }
      })"

text \<open>\<^verbatim>\<open>process_read_by_type\<close>; the list is the queue of the operation, and the callback is run where the database runs it.\<close>

primrec process_read_by_type :: "aptr list \<Rightarrow> async_read_op \<Rightarrow> gatt_server \<Rightarrow> gatt_server option" where
  "process_read_by_type [] op s = Some (async_read_op_destroy (srv_say (Send_rsp (ro_rq op) 0x09 (take (ro_pdu_len op) (ro_pdu op))) s))"
| "process_read_by_type (p # q) op s =
     (if ro_done op then Some (async_read_op_destroy (srv_say (Send_rsp (ro_rq op) 0x09 (take (ro_pdu_len op) (ro_pdu op))) s))
      else do {
        a \<leftarrow> get_attr p (sdb s);
        let ecode = check_permissions (permissions a) READ_MASK s;
        if ecode \<noteq> 0 then Some (async_read_op_destroy (srv_say (Send_error_rsp (ro_rq op) OP_READ_BY_TYPE_REQ (ga_handle a) (uint ecode)) s))
        else do {
          let op = op\<lparr>ro_db_data := q\<rparr>;
          (ok, r, s) \<leftarrow> attribute_read p 0 (ro_opcode op) (On_read_by_type op) s;
          if \<not> ok then Some (async_read_op_destroy (srv_say (Send_error_rsp (ro_rq op) OP_READ_BY_TYPE_REQ (ga_handle a) (uint ERR_UNLIKELY)) s))
          else case r of None \<Rightarrow> Some s
            | Some (err, v) \<Rightarrow> do {
                (op', s) \<leftarrow> read_by_type_value op p err v s;
                case op' of None \<Rightarrow> Some s | Some op \<Rightarrow> process_read_by_type q op s
              }
        }
      })"

definition read_by_type_read_complete_cb :: "async_read_op \<Rightarrow> aptr \<Rightarrow> int \<Rightarrow> byte option list \<Rightarrow> gatt_server \<Rightarrow> gatt_server option" where
  "read_by_type_read_complete_cb op p err v s = do {
     (op', s) \<leftarrow> read_by_type_value op p err v s;
     case op' of None \<Rightarrow> Some s | Some op \<Rightarrow> process_read_by_type (ro_db_data op) op s
   }"

definition read_by_type_cb :: "nat \<Rightarrow> byte \<Rightarrow> byte list \<Rightarrow> gatt_server \<Rightarrow> gatt_server option" where
  "read_by_type_cb rq opcode pdu s =
     (let start = get_le16 pdu; end = get_le16 (drop 2 pdu)
      in if length pdu \<noteq> 6 \<and> length pdu \<noteq> 20 then Some (srv_say (Send_error_rsp rq opcode 0 (uint ERR_INVALID_PDU)) s)
         else if start = 0 \<or> end = 0 then Some (srv_say (Send_error_rsp rq opcode 0 (uint ERR_INVALID_HANDLE)) s)
         else if start > end then Some (srv_say (Send_error_rsp rq opcode start (uint ERR_INVALID_HANDLE)) s)
         else do {
           type \<leftarrow> get_uuid_le (drop 4 pdu);
           q \<leftarrow> gatt_db_read_by_type start end type (sdb s);
           if q = [] then Some (srv_say (Send_error_rsp rq opcode start (uint ERR_ATTRIBUTE_NOT_FOUND)) s)
           else if pending_read_op s then Some (srv_say (Send_error_rsp rq opcode start (uint ERR_UNLIKELY)) s)
           else process_read_by_type q \<lparr>ro_rq = rq, ro_opcode = opcode, ro_done = False, ro_pdu = replicate (unat (att_mtu s)) None, ro_pdu_len = 0,
             ro_value_len = 0, ro_db_data = q\<rparr> (s\<lparr>pending_read_op := True\<rparr>)
         })"

subsection \<open>Finding information\<close>

definition bt_uuid_len :: "bt_uuid \<Rightarrow> nat" where
  "bt_uuid_len u = (case u of BT_UUID_UNSPEC \<Rightarrow> 0 | BT_UUID16 _ \<Rightarrow> 2 | BT_UUID32 _ \<Rightarrow> 4 | BT_UUID128 _ \<Rightarrow> 16)"

primrec encode_find_info_rsp :: "u16 \<Rightarrow> aptr list \<Rightarrow> nat \<Rightarrow> nat \<Rightarrow> byte option list \<Rightarrow> srv_cb gatt_db \<Rightarrow> (byte option list \<times> nat) option option" where
  "encode_find_info_rsp mtu [] iter uuid_len pdu db = Some (Some (pdu, iter))"
| "encode_find_info_rsp mtu (p # q) iter uuid_len pdu db = do {
     a \<leftarrow> get_attr p db;
     let cur = bt_uuid_len (ga_uuid a);
     if ga_handle a = 0 then Some None
     else if iter = 0 \<and> cur \<notin> {2, 4, 16} then Some None
     else if iter \<noteq> 0 \<and> cur \<noteq> uuid_len then Some (Some (pdu, iter))
     else do {
       let len = (if iter = 0 then (if cur = 2 then 2 else 16) else uuid_len);
       pdu \<leftarrow> (if iter = 0 then buf_put pdu 0 [Some (if cur = 2 then 1 else 2)] else Some pdu);
       let iter = (if iter = 0 then 1 else iter);
       if int (iter + len + 2) > uint mtu - 1 then Some (Some (pdu, iter))
       else do {
         pdu \<leftarrow> buf_put pdu iter (map Some (put_le16 (ga_handle a) @ snd (bt_uuid_to_le (ga_uuid a))));
         encode_find_info_rsp mtu q (iter + len + 2) len pdu db
       }
     }
   }"

definition find_info_cb :: "nat \<Rightarrow> byte \<Rightarrow> byte list \<Rightarrow> gatt_server \<Rightarrow> gatt_server option" where
  "find_info_cb rq opcode pdu s =
     (let mtu = att_mtu s; start = get_le16 pdu; end = get_le16 (drop 2 pdu)
      in if length pdu \<noteq> 4 then Some (srv_say (Send_error_rsp rq opcode 0 (uint ERR_INVALID_PDU)) s)
         else if start = 0 \<or> end = 0 then Some (srv_say (Send_error_rsp rq opcode 0 (uint ERR_INVALID_HANDLE)) s)
         else if start > end then Some (srv_say (Send_error_rsp rq opcode start (uint ERR_INVALID_HANDLE)) s)
         else do {
           q \<leftarrow> gatt_db_find_information start end (sdb s);
           if q = [] then Some (srv_say (Send_error_rsp rq opcode start (uint ERR_ATTRIBUTE_NOT_FOUND)) s)
           else do {
             r \<leftarrow> encode_find_info_rsp mtu q 0 0 (replicate (unat mtu) None) (sdb s);
             Some (case r of None \<Rightarrow> srv_say (Send_error_rsp rq opcode start (uint ERR_UNLIKELY)) s
                   | Some (buf, len) \<Rightarrow> srv_say (Send_rsp rq 0x05 (take len buf)) s)
           }
         })"

record find_by_type_val_data =
  fd_pdu :: "byte option list"
  fd_len :: u16
  fd_mtu :: u16
  fd_ecode :: byte

definition find_by_type_val_att_cb :: "srv_cb gatt_db \<Rightarrow> aptr \<Rightarrow> find_by_type_val_data \<Rightarrow> find_by_type_val_data option" where
  "find_by_type_val_att_cb db p d =
     (if fd_ecode d \<noteq> 0 then Some d
      else if uint (fd_len d) + 4 > uint (fd_mtu d) - 1 then Some d
      else do {
        ((handle, end_handle), _) \<leftarrow> gatt_db_attribute_get_service_data p db;
        if handle = 0 \<or> end_handle = 0 then Some (d\<lparr>fd_ecode := ERR_UNLIKELY\<rparr>)
        else do {
          pdu \<leftarrow> buf_put (fd_pdu d) (unat (fd_len d)) (map Some (put_le16 handle @ put_le16 end_handle));
          Some (d\<lparr>fd_pdu := pdu, fd_len := fd_len d + 4\<rparr>)
        }
      })"

primrec find_by_type_vals :: "srv_cb gatt_db \<Rightarrow> aptr list \<Rightarrow> find_by_type_val_data \<Rightarrow> find_by_type_val_data option" where
  "find_by_type_vals db [] d = Some d"
| "find_by_type_vals db (p # ps) d = do { d \<leftarrow> find_by_type_val_att_cb db p d; find_by_type_vals db ps d }"

definition find_by_type_val_cb :: "nat \<Rightarrow> byte \<Rightarrow> byte list \<Rightarrow> gatt_server \<Rightarrow> gatt_server option" where
  "find_by_type_val_cb rq opcode pdu s =
     (let mtu = att_mtu s; start = get_le16 pdu; end = get_le16 (drop 2 pdu); uuid16 = get_le16 (drop 4 pdu)
      in if length pdu < 6 then Some (srv_say (Send_error_rsp rq opcode 0 (uint ERR_INVALID_PDU)) s)
         else if start > end then Some (srv_say (Send_error_rsp rq opcode start (uint ERR_INVALID_HANDLE)) s)
         else do {
           ps \<leftarrow> gatt_db_find_by_type_value start end (BT_UUID16 uuid16) (drop 6 pdu) (sdb s);
           d \<leftarrow> find_by_type_vals (sdb s) ps \<lparr>fd_pdu = replicate (unat mtu) None, fd_len = 0, fd_mtu = mtu, fd_ecode = 0\<rparr>;
           let ecode = (if fd_len d = 0 then ERR_ATTRIBUTE_NOT_FOUND else fd_ecode d);
           Some (if ecode \<noteq> 0 then srv_say (Send_error_rsp rq opcode start (uint ecode)) s
                 else srv_say (Send_rsp rq 0x07 (take (unat (fd_len d)) (fd_pdu d))) s)
         })"

subsection \<open>Writing\<close>

definition async_write_op_destroy :: "gatt_server \<Rightarrow> gatt_server" where
  "async_write_op_destroy s = (if alive s then s\<lparr>pending_write_op := False\<rparr> else s)"

text \<open>\<^verbatim>\<open>write_complete_cb\<close> looks into the server for its debug function before it asks whether there is one.\<close>

definition write_complete_cb :: "nat \<Rightarrow> byte \<Rightarrow> aptr \<Rightarrow> int \<Rightarrow> gatt_server \<Rightarrow> gatt_server option" where
  "write_complete_cb rq opcode p err s =
     (if \<not> alive s then None
      else if opcode = OP_WRITE_CMD then Some (async_write_op_destroy s)
      else do {
        a \<leftarrow> get_attr p (sdb s);
        Some (async_write_op_destroy (srv_say (if err \<noteq> 0 then Send_error_rsp rq opcode (ga_handle a) err else Send_rsp rq 0x13 []) s))
      })"

definition write_cb :: "nat \<Rightarrow> byte \<Rightarrow> byte list \<Rightarrow> gatt_server \<Rightarrow> gatt_server option" where
  "write_cb rq opcode pdu s =
     (let handle = get_le16 pdu; fail = (\<lambda>h (e :: byte) s. Some (if opcode = OP_WRITE_CMD then s else srv_say (Send_error_rsp rq opcode h (uint e)) s))
      in if length pdu < 2 then fail 0 ERR_INVALID_PDU s
         else if authorize_req opcode 0 s \<noteq> 0 then fail 0 (authorize_req opcode 0 s) s
         else case gatt_db_get_attribute handle (sdb s) of None \<Rightarrow> fail handle ERR_INVALID_HANDLE s
         | Some p \<Rightarrow> do {
             a \<leftarrow> get_attr p (sdb s);
             let ecode = check_permissions (permissions a) WRITE_MASK s;
             if ecode \<noteq> 0 then fail handle ecode s
             else if pending_write_op s then fail handle ERR_UNLIKELY s
             else do {
               (ok, r, s) \<leftarrow> attribute_write p 0 (drop 2 pdu) opcode (On_write rq opcode) (s\<lparr>pending_write_op := True\<rparr>);
               if \<not> ok then fail handle ERR_UNLIKELY (async_write_op_destroy s)
               else case r of None \<Rightarrow> Some s | Some err \<Rightarrow> write_complete_cb rq opcode p err s
             }
           })"

subsection \<open>Reading\<close>

definition get_read_rsp_opcode :: "byte \<Rightarrow> byte" where
  "get_read_rsp_opcode opcode = (if opcode = OP_READ_REQ then 0x0B else if opcode = OP_READ_BLOB_REQ then 0x0D else 0)"

definition read_complete_cb :: "nat \<Rightarrow> byte \<Rightarrow> aptr \<Rightarrow> int \<Rightarrow> byte option list \<Rightarrow> gatt_server \<Rightarrow> gatt_server option" where
  "read_complete_cb rq opcode p err v s =
     (if \<not> alive s then None
      else do {
        a \<leftarrow> get_attr p (sdb s);
        Some (async_read_op_destroy (srv_say (if err \<noteq> 0 then Send_error_rsp rq opcode (ga_handle a) err
          else Send_rsp rq (get_read_rsp_opcode opcode) (take (nat ((uint (att_mtu s) - 1) mod 2 ^ 32)) v)) s))
      })"

definition handle_read_req :: "nat \<Rightarrow> byte \<Rightarrow> u16 \<Rightarrow> u16 \<Rightarrow> gatt_server \<Rightarrow> gatt_server option" where
  "handle_read_req rq opcode handle offset s =
     (let fail = (\<lambda>(e :: byte) s. Some (srv_say (Send_error_rsp rq opcode handle (uint e)) s))
      in if authorize_req opcode handle s \<noteq> 0 then fail (authorize_req opcode handle s) s
         else case gatt_db_get_attribute handle (sdb s) of None \<Rightarrow> fail ERR_INVALID_HANDLE s
         | Some p \<Rightarrow> do {
             a \<leftarrow> get_attr p (sdb s);
             let ecode = check_permissions (permissions a) READ_MASK s;
             if ecode \<noteq> 0 then fail ecode s
             else if pending_read_op s then fail ERR_UNLIKELY s
             else do {
               (ok, r, s) \<leftarrow> attribute_read p offset opcode (On_read rq opcode) (s\<lparr>pending_read_op := True\<rparr>);
               if \<not> ok then fail ERR_UNLIKELY (async_read_op_destroy s)
               else case r of None \<Rightarrow> Some s | Some (err, v) \<Rightarrow> read_complete_cb rq opcode p err v s
             }
           })"

definition read_cb :: "nat \<Rightarrow> byte \<Rightarrow> byte list \<Rightarrow> gatt_server \<Rightarrow> gatt_server option" where
  "read_cb rq opcode pdu s =
     (if length pdu \<noteq> 2 then Some (srv_say (Send_error_rsp rq opcode 0 (uint ERR_INVALID_PDU)) s)
      else handle_read_req rq opcode (get_le16 pdu) 0 s)"

definition read_blob_cb :: "nat \<Rightarrow> byte \<Rightarrow> byte list \<Rightarrow> gatt_server \<Rightarrow> gatt_server option" where
  "read_blob_cb rq opcode pdu s =
     (if length pdu \<noteq> 4 then Some (srv_say (Send_error_rsp rq opcode 0 (uint ERR_INVALID_PDU)) s)
      else handle_read_req rq opcode (get_le16 pdu) (get_le16 (drop 2 pdu)) s)"

subsection \<open>Reading several attributes\<close>

text \<open>Room left in the response, a \<^verbatim>\<open>size_t\<close>.\<close>

definition rm_room :: "read_mult_data \<Rightarrow> int" where
  "rm_room d = (int (rm_mtu d) - int (rm_length d) - (if rm_opcode d = OP_READ_MULT_VL_REQ then 3 else 1)) mod 2 ^ 64"

text \<open>
  \<^verbatim>\<open>read_multiple_complete_cb\<close> up to the request of the next attribute. The callback of a server that was freed uses it.
\<close>

definition read_multiple_value :: "read_mult_data \<Rightarrow> aptr \<Rightarrow> int \<Rightarrow> byte option list \<Rightarrow> gatt_server \<Rightarrow> (read_mult_data option \<times> gatt_server) option" where
  "read_multiple_value d p err v s = do {
     a \<leftarrow> get_attr p (sdb s);
     if err \<noteq> 0 then Some (None, srv_say (Send_error_rsp (rm_rq d) (rm_opcode d) (ga_handle a) err) s)
     else if \<not> alive s then None
     else do {
       let ecode = check_permissions (permissions a) READ_MASK s;
       if ecode \<noteq> 0 then Some (None, srv_say (Send_error_rsp (rm_rq d) (rm_opcode d) (ga_handle a) (uint ecode)) s)
       else do {
         let n = nat (min (int (length v)) (rm_room d) mod 2 ^ 16);
         d \<leftarrow> (if rm_opcode d = OP_READ_MULT_VL_REQ then do {
                 buf \<leftarrow> buf_put (rm_rsp_data d) (rm_length d) (map Some (put_le16 (word_of_nat (length v))));
                 Some (d\<lparr>rm_rsp_data := buf, rm_length := rm_length d + 2\<rparr>)
               } else Some d);
         buf \<leftarrow> buf_put (rm_rsp_data d) (rm_length d) (take n v);
         let d = d\<lparr>rm_rsp_data := buf, rm_length := rm_length d + n, rm_cur_handle := rm_cur_handle d + 1\<rparr>;
         Some (if rm_room d = 0 \<or> rm_cur_handle d = length (rm_handles d)
               then (None, srv_say (Send_rsp (rm_rq d) (rm_opcode d + 1) (take (rm_length d) (rm_rsp_data d))) s) else (Some d, s))
       }
     }
   }"

text \<open>The rest of it; the list holds the handles after the attribute that was read.\<close>

fun read_multiple_from :: "u16 list \<Rightarrow> read_mult_data \<Rightarrow> aptr \<Rightarrow> int \<Rightarrow> byte option list \<Rightarrow> gatt_server \<Rightarrow> gatt_server option" where
  "read_multiple_from hs d p err v s = do {
     (d', s) \<leftarrow> read_multiple_value d p err v s;
     case d' of None \<Rightarrow> Some s
     | Some d \<Rightarrow> (case hs of [] \<Rightarrow> None
         | h # hs \<Rightarrow> (case gatt_db_get_attribute h (sdb s) of
               None \<Rightarrow> Some (srv_say (Send_error_rsp (rm_rq d) OP_READ_MULT_REQ h (uint ERR_INVALID_HANDLE)) s)
             | Some p \<Rightarrow> do {
                 (ok, r, s) \<leftarrow> attribute_read p 0 OP_READ_MULT_REQ (On_read_multiple d) s;
                 if \<not> ok then Some (srv_say (Send_error_rsp (rm_rq d) OP_READ_MULT_REQ h (uint ERR_UNLIKELY)) s)
                 else case r of None \<Rightarrow> Some s | Some (err, v) \<Rightarrow> read_multiple_from hs d p err v s
               }))
   }"

definition read_multiple_complete_cb :: "read_mult_data \<Rightarrow> aptr \<Rightarrow> int \<Rightarrow> byte option list \<Rightarrow> gatt_server \<Rightarrow> gatt_server option" where
  "read_multiple_complete_cb d p err v s = read_multiple_from (drop (rm_cur_handle d + 1) (rm_handles d)) d p err v s"

fun le16s :: "byte list \<Rightarrow> u16 list" where
  "le16s (a # b # bs) = get_le16 [a, b] # le16s bs"
| "le16s _ = []"

definition read_mult_data_new :: "nat \<Rightarrow> byte \<Rightarrow> u16 list \<Rightarrow> gatt_server \<Rightarrow> read_mult_data" where
  "read_mult_data_new rq opcode hs s = \<lparr>rm_rq = rq, rm_opcode = opcode, rm_handles = hs, rm_cur_handle = 0,
     rm_rsp_data = replicate (unat (att_mtu s) - 1) (Some 0), rm_length = 0, rm_mtu = unat (att_mtu s)\<rparr>"

definition read_multiple_cb :: "nat \<Rightarrow> byte \<Rightarrow> byte list \<Rightarrow> gatt_server \<Rightarrow> gatt_server option" where
  "read_multiple_cb rq opcode pdu s =
     (if length pdu < 4 then Some (srv_say (Send_error_rsp rq opcode 0 (uint ERR_INVALID_PDU)) s)
      else do {
        let d = read_mult_data_new rq opcode (le16s pdu) s;
        case gatt_db_get_attribute (hd (le16s pdu)) (sdb s) of
          None \<Rightarrow> Some (srv_say (Send_error_rsp rq opcode 0 (uint ERR_INVALID_HANDLE)) s)
        | Some p \<Rightarrow> do {
            (ok, r, s) \<leftarrow> attribute_read p 0 opcode (On_read_multiple d) s;
            if \<not> ok then Some (srv_say (Send_error_rsp rq opcode 0 (uint ERR_UNLIKELY)) s)
            else case r of None \<Rightarrow> Some s | Some (err, v) \<Rightarrow> read_multiple_complete_cb d p err v s
          }
      })"

subsection \<open>Prepared writes\<close>

text \<open>\<^verbatim>\<open>append_prep_data\<close>: the new length wraps, and the bytes are copied into a buffer of that length.\<close>

definition append_prep_data :: "byte list \<Rightarrow> prep_write_data \<Rightarrow> prep_write_data option" where
  "append_prep_data value d =
     (if value = [] then Some d
      else (let len = pw_length d + word_of_nat (length value)
            in if unat (pw_length d) + length value \<le> unat len
               then Some (d\<lparr>pw_value := take (unat (pw_length d)) (pw_value d) @ value, pw_length := len\<rparr>) else None))"

definition is_reliable_write_supported :: "u16 \<Rightarrow> srv_cb gatt_db \<Rightarrow> bool option" where
  "is_reliable_write_supported handle db =
     (case gatt_db_get_attribute handle db of None \<Rightarrow> Some False
      | Some p \<Rightarrow> do { c \<leftarrow> gatt_db_attribute_get_char_data p db; Some (case c of None \<Rightarrow> False | Some c \<Rightarrow> cd_ext_prop c AND 0x01 \<noteq> 0) })"

definition prep_data_new :: "u16 \<Rightarrow> u16 \<Rightarrow> byte list \<Rightarrow> gatt_server \<Rightarrow> gatt_server option" where
  "prep_data_new handle offset value s = do {
     d \<leftarrow> append_prep_data value \<lparr>pw_value = [], pw_handle = handle, pw_offset = offset, pw_length = 0, reliable_supported = False\<rparr>;
     rel \<leftarrow> is_reliable_write_supported (handle - 1) (sdb s);
     Some (s\<lparr>prep_queue := prep_queue s @ [d\<lparr>reliable_supported := rel\<rparr>]\<rparr>)
   }"

definition store_prep_data :: "u16 \<Rightarrow> u16 \<Rightarrow> byte list \<Rightarrow> gatt_server \<Rightarrow> gatt_server option" where
  "store_prep_data handle offset value s =
     (if prep_queue s \<noteq> [] \<and> pw_handle (last (prep_queue s)) = handle
         \<and> uint offset = uint (pw_length (last (prep_queue s))) + uint (pw_offset (last (prep_queue s)))
      then do { d \<leftarrow> append_prep_data value (last (prep_queue s)); Some (s\<lparr>prep_queue := butlast (prep_queue s) @ [d]\<rparr>) }
      else prep_data_new handle offset value s)"

definition prep_write_complete_cb :: "nat \<Rightarrow> byte list \<Rightarrow> int \<Rightarrow> gatt_server \<Rightarrow> gatt_server option" where
  "prep_write_complete_cb rq pdu err s =
     (if err \<noteq> 0 then Some (srv_say (Send_error_rsp rq OP_PREP_WRITE_REQ (get_le16 pdu) err) s)
      else if \<not> alive s then None
      else do {
        s \<leftarrow> store_prep_data (get_le16 pdu) (get_le16 (drop 2 pdu)) (drop 4 pdu) s;
        Some (srv_say (Send_rsp rq 0x17 (map Some pdu)) s)
      })"

definition prep_write_cb :: "nat \<Rightarrow> byte \<Rightarrow> byte list \<Rightarrow> gatt_server \<Rightarrow> gatt_server option" where
  "prep_write_cb rq opcode pdu s =
     (let handle = get_le16 pdu; offset = get_le16 (drop 2 pdu); fail = (\<lambda>h (e :: byte) s. Some (srv_say (Send_error_rsp rq opcode h (uint e)) s))
      in if length pdu < 4 then fail 0 ERR_INVALID_PDU s
         else if length (prep_queue s) \<ge> max_prep_queue_len s then fail 0 ERR_PREPARE_QUEUE_FULL s
         else case gatt_db_get_attribute handle (sdb s) of None \<Rightarrow> fail handle ERR_INVALID_HANDLE s
         | Some p \<Rightarrow> do {
             a \<leftarrow> get_attr p (sdb s);
             let ecode = check_permissions (permissions a) WRITE_MASK s;
             if ecode \<noteq> 0 then fail handle ecode s
             else do {
               (ok, r, s) \<leftarrow> attribute_write p offset [] OP_PREP_WRITE_REQ (On_prep_write rq pdu) s;
               if \<not> ok then fail handle ERR_UNLIKELY s
               else case r of None \<Rightarrow> Some s | Some err \<Rightarrow> prep_write_complete_cb rq pdu err s
             }
           })"

text \<open>
  \<^verbatim>\<open>exec_next_prep_write\<close> with its callback \<^verbatim>\<open>exec_write_complete_cb\<close>; the list is the queue of the server.
\<close>

primrec exec_prep_writes :: "prep_write_data list \<Rightarrow> nat \<Rightarrow> u16 \<Rightarrow> int \<Rightarrow> gatt_server \<Rightarrow> gatt_server option" where
  "exec_prep_writes [] rq ehandle err s =
     Some (srv_say (if err \<noteq> 0 then Send_error_rsp rq OP_EXEC_WRITE_REQ ehandle err else Send_rsp rq 0x19 []) (s\<lparr>prep_queue := []\<rparr>))"
| "exec_prep_writes (d # q) rq ehandle err s =
     (if err \<noteq> 0 then Some (srv_say (Send_error_rsp rq OP_EXEC_WRITE_REQ ehandle err) (s\<lparr>prep_queue := []\<rparr>))
      else case gatt_db_get_attribute (pw_handle d) (sdb s) of
        None \<Rightarrow> Some (srv_say (Send_error_rsp rq OP_EXEC_WRITE_REQ ehandle (uint ERR_UNLIKELY)) (s\<lparr>prep_queue := []\<rparr>))
      | Some p \<Rightarrow> do {
          a \<leftarrow> get_attr p (sdb s);
          (ok, r, s) \<leftarrow> attribute_write p (pw_offset d) (pw_value d) OP_EXEC_WRITE_REQ (On_exec_write rq) (s\<lparr>prep_queue := q\<rparr>);
          if \<not> ok then Some (srv_say (Send_error_rsp rq OP_EXEC_WRITE_REQ ehandle (uint ERR_UNLIKELY)) (s\<lparr>prep_queue := []\<rparr>))
          else case r of None \<Rightarrow> Some s | Some err \<Rightarrow> exec_prep_writes q rq (ga_handle a) err s
        })"

definition exec_next_prep_write :: "nat \<Rightarrow> u16 \<Rightarrow> int \<Rightarrow> gatt_server \<Rightarrow> gatt_server option" where
  "exec_next_prep_write rq ehandle err s = (if \<not> alive s then None else exec_prep_writes (prep_queue s) rq ehandle err s)"

definition exec_write_complete_cb :: "nat \<Rightarrow> aptr \<Rightarrow> int \<Rightarrow> gatt_server \<Rightarrow> gatt_server option" where
  "exec_write_complete_cb rq p err s = do { a \<leftarrow> get_attr p (sdb s); exec_next_prep_write rq (ga_handle a) err s }"

definition exec_write_cb :: "nat \<Rightarrow> byte \<Rightarrow> byte list \<Rightarrow> gatt_server \<Rightarrow> gatt_server option" where
  "exec_write_cb rq opcode pdu s =
     (if length pdu \<noteq> 1 \<or> hd pdu \<noteq> 0 \<and> hd pdu \<noteq> 1
      then Some (srv_say (Send_error_rsp rq opcode 0 (uint ERR_INVALID_PDU)) (s\<lparr>prep_queue := []\<rparr>))
      else if hd pdu = 0 then Some (srv_say (Send_rsp rq 0x19 []) (s\<lparr>prep_queue := []\<rparr>))
      else case (if length (prep_queue s) > 1 then find (\<lambda>d. \<not> reliable_supported d) (prep_queue s) else None) of
        Some d \<Rightarrow> Some (srv_say (Send_error_rsp rq opcode (pw_handle d) (uint ERR_REQUEST_NOT_SUPPORTED)) (s\<lparr>prep_queue := []\<rparr>))
      | None \<Rightarrow> exec_next_prep_write rq 0 0 s)"

subsection \<open>MTU exchange\<close>

text \<open>\<^verbatim>\<open>bt_att_set_mtu\<close> sets the MTU of the channel and raises the one \<^verbatim>\<open>bt_att_get_mtu\<close> returns.\<close>

definition exchange_mtu_cb :: "nat \<Rightarrow> byte \<Rightarrow> byte list \<Rightarrow> gatt_server \<Rightarrow> gatt_server option" where
  "exchange_mtu_cb rq opcode pdu s =
     (if length pdu \<noteq> 2 then Some (srv_say (Send_error_rsp rq opcode 0 (uint ERR_INVALID_PDU)) s)
      else (let final_mtu = max (min (get_le16 pdu) (srv_mtu s)) BT_ATT_DEFAULT_LE_MTU; s = srv_say (Send_rsp rq 0x03 (map Some (put_le16 (srv_mtu s)))) s
            in Some (s\<lparr>srv_mtu := final_mtu, chan_mtu := final_mtu, att_mtu := max final_mtu (att_mtu s)\<rparr>)))"

subsection \<open>Notifications and indications\<close>

text \<open>The boolean is the result of \<^verbatim>\<open>bt_att_send\<close>, and \<^verbatim>\<open>sint (ucast x)\<close> the value of a \<^verbatim>\<open>uint16_t\<close> as an \<^verbatim>\<open>int\<close>.\<close>

definition notify_multiple :: "gatt_server \<Rightarrow> gatt_server option" where
  "notify_multiple s = do { d \<leftarrow> (if alive s then nfy_mult s else None); Some (srv_say (Send_pdu OP_HANDLE_NFY_MULT (take (unat (nm_offset d)) (nm_pdu d))) (s\<lparr>nfy_mult := None\<rparr>)) }"

definition bt_gatt_server_send_notification :: "bool \<Rightarrow> u16 \<Rightarrow> byte list \<Rightarrow> bool \<Rightarrow> gatt_server \<Rightarrow> (bool \<times> gatt_server) option" where
  "bt_gatt_server_send_notification sent handle value multiple s = do {
     let len = att_mtu s - 1;
     let d = (case if multiple then nfy_mult s else None of Some d \<Rightarrow> d
              | None \<Rightarrow> \<lparr>nm_id = False, nm_pdu = replicate (unat len) None, nm_offset = 0, nm_len = len\<rparr>);
     pdu \<leftarrow> buf_put (nm_pdu d) (unat (nm_offset d)) (map Some (put_le16 handle));
     let off = nm_offset d + 2;
     let n = nat (min (uint (nm_len d) - uint off) (int (length value)) mod 2 ^ 16);
     if n > length value then None
     else do {
       pdu \<leftarrow> (if multiple then buf_put pdu (unat off) (map Some (put_le16 (word_of_nat n))) else Some pdu);
       let off = (if multiple then off + 2 else off);
       pdu \<leftarrow> buf_put pdu (unat off) (map Some (take n value));
       let d = d\<lparr>nm_pdu := pdu, nm_offset := off + word_of_nat n\<rparr>;
       if multiple then Some (True, s\<lparr>nfy_mult := Some (d\<lparr>nm_id := True\<rparr>)\<rparr>)
       else Some (sent, if sent then srv_say (Send_pdu OP_HANDLE_NFY (take (unat (nm_offset d)) pdu)) s else s)
     }
   }"

definition bt_gatt_server_send_indication :: "bool \<Rightarrow> u16 \<Rightarrow> byte list \<Rightarrow> nat \<Rightarrow> gatt_server \<Rightarrow> (bool \<times> gatt_server) option" where
  "bt_gatt_server_send_indication sent handle value user s = do {
     let n = nat (min (uint (att_mtu s) - 1) (int (length value) + 2) mod 2 ^ 16);
     if n < 2 then None
     else do {
       pdu \<leftarrow> buf_put (replicate n None) 0 (map Some (put_le16 handle));
       pdu \<leftarrow> buf_put pdu 2 (map Some (take (n - 2) value));
       Some (sent, srv_say (if sent then Send_pdu OP_HANDLE_IND pdu else Ind_destroyed user) s)
     }
   }"

subsection \<open>Requests and completions\<close>

text \<open>The handlers \<^verbatim>\<open>gatt_server_register_att_handlers\<close> registers.\<close>

definition srv_handler :: "byte \<Rightarrow> (nat \<Rightarrow> byte \<Rightarrow> byte list \<Rightarrow> gatt_server \<Rightarrow> gatt_server option) option" where
  "srv_handler opcode =
     (if opcode = OP_MTU_REQ then Some exchange_mtu_cb
      else if opcode = OP_READ_BY_GRP_TYPE_REQ then Some read_by_grp_type_cb
      else if opcode = OP_READ_BY_TYPE_REQ then Some read_by_type_cb
      else if opcode = OP_FIND_INFO_REQ then Some find_info_cb
      else if opcode = OP_FIND_BY_TYPE_REQ then Some find_by_type_val_cb
      else if opcode = OP_WRITE_REQ \<or> opcode = OP_WRITE_CMD then Some write_cb
      else if opcode = OP_READ_REQ then Some read_cb
      else if opcode = OP_READ_BLOB_REQ then Some read_blob_cb
      else if opcode = OP_READ_MULT_REQ \<or> opcode = OP_READ_MULT_VL_REQ then Some read_multiple_cb
      else if opcode = OP_PREP_WRITE_REQ then Some prep_write_cb
      else if opcode = OP_EXEC_WRITE_REQ then Some exec_write_cb
      else None)"

definition srv_request :: "byte \<Rightarrow> byte list \<Rightarrow> gatt_server \<Rightarrow> gatt_server option" where
  "srv_request opcode pdu s = do { h \<leftarrow> srv_handler opcode; if alive s then h (rq_count s) opcode pdu (s\<lparr>rq_count := rq_count s + 1\<rparr>) else None }"

text \<open>
  The callbacks the database runs. \<^verbatim>\<open>attribute_read_cb\<close> writes into a variable that is gone by then, and a callback that is called for
  the other kind of request is called with the wrong type.
\<close>

definition srv_callback :: "srv_cb db_out \<Rightarrow> gatt_server \<Rightarrow> gatt_server option" where
  "srv_callback x s =
     (case x of
        Read_done _ cb p err v \<Rightarrow>
          (case cb of App_cb _ \<Rightarrow> Some s
           | On_read_by_type op \<Rightarrow> read_by_type_read_complete_cb op p err v s
           | On_read rq opcode \<Rightarrow> read_complete_cb rq opcode p err v s
           | On_read_multiple d \<Rightarrow> read_multiple_complete_cb d p err v s
           | _ \<Rightarrow> None)
      | Write_done _ cb p err \<Rightarrow>
          (case cb of App_cb _ \<Rightarrow> Some s
           | On_write rq opcode \<Rightarrow> write_complete_cb rq opcode p err s
           | On_prep_write rq pdu \<Rightarrow> prep_write_complete_cb rq pdu err s
           | On_exec_write rq \<Rightarrow> exec_write_complete_cb rq p err s
           | _ \<Rightarrow> None)
      | _ \<Rightarrow> Some s)"

primrec srv_callbacks :: "srv_cb db_out list \<Rightarrow> gatt_server \<Rightarrow> gatt_server option" where
  "srv_callbacks [] s = Some s"
| "srv_callbacks (x # xs) s = do { s \<leftarrow> srv_callback x s; srv_callbacks xs s }"

definition db_news :: "srv_cb gatt_db \<Rightarrow> srv_cb gatt_db \<Rightarrow> srv_cb db_out list" where
  "db_news db db' = drop (length (db_log db)) (db_log db')"

text \<open>
  What happens to a server: requests of the client, results and timeouts of the attributes the application
  serves, the removal of a service, whose pending requests are cancelled while it still exists, and the calls of the application.
\<close>

datatype srv_event =
    Request byte "byte list"
  | Read_answer aptr u32 int "byte list"
  | Write_answer aptr u32 int
  | Read_expires aptr nat
  | Write_expires aptr nat
  | Service_goes aptr
  | Notification bool u16 "byte list" bool
  | Nfy_mult_timer
  | Indication bool u16 "byte list" nat
  | Server_authorize "(byte \<Rightarrow> u16 \<Rightarrow> byte) option"

definition srv_exec :: "srv_event \<Rightarrow> gatt_server \<Rightarrow> gatt_server option" where
  "srv_exec e s =
     (case e of
        Request opcode pdu \<Rightarrow> srv_request opcode pdu s
      | Read_answer p i err v \<Rightarrow> do { (_, db) \<leftarrow> gatt_db_attribute_read_result p i err v (sdb s); srv_callbacks (db_news (sdb s) db) (s\<lparr>sdb := db\<rparr>) }
      | Write_answer p i err \<Rightarrow> do { (_, db) \<leftarrow> gatt_db_attribute_write_result p i err (sdb s); srv_callbacks (db_news (sdb s) db) (s\<lparr>sdb := db\<rparr>) }
      | Read_expires p n \<Rightarrow> do { db \<leftarrow> read_timeout p n (sdb s); srv_callbacks (db_news (sdb s) db) (s\<lparr>sdb := db\<rparr>) }
      | Write_expires p n \<Rightarrow> do { db \<leftarrow> write_timeout p n (sdb s); srv_callbacks (db_news (sdb s) db) (s\<lparr>sdb := db\<rparr>) }
      | Service_goes p \<Rightarrow> do { (_, db) \<leftarrow> gatt_db_remove_service p (sdb s); s \<leftarrow> srv_callbacks (db_news (sdb s) db) s; Some (s\<lparr>sdb := db\<rparr>) }
      | Notification sent handle value multiple \<Rightarrow> map_option snd (bt_gatt_server_send_notification sent handle value multiple s)
      | Nfy_mult_timer \<Rightarrow> notify_multiple s
      | Indication sent handle value user \<Rightarrow> map_option snd (bt_gatt_server_send_indication sent handle value user s)
      | Server_authorize cb \<Rightarrow> Some (bt_gatt_server_set_authorize cb s))"

primrec srv_execs :: "srv_event list \<Rightarrow> gatt_server \<Rightarrow> gatt_server option" where
  "srv_execs [] s = Some s"
| "srv_execs (e # es) s = do { s \<leftarrow> srv_exec e s; srv_execs es s }"

end
