(* ===== verification/Gatt_Server_Invariant.thy ===== *)
theory Gatt_Server_Invariant
  imports Gatt_Server
begin

text \<open>
  The accounting of requests across the GATT server and the database: a request is answered once, or its completion callback is
  pending in the database; and no response is larger than the MTU allows.
\<close>

subsection \<open>Callbacks pending in the database\<close>

definition attr_cbs :: "'u gatt_db_attribute \<Rightarrow> 'u multiset" where
  "attr_cbs a = mset (map pd_func (pending_reads a)) + mset (map pd_func (pending_writes a))"

definition slot_cbs :: "'u gatt_db_attribute option \<Rightarrow> 'u multiset" where
  "slot_cbs x = (case x of None \<Rightarrow> {#} | Some a \<Rightarrow> attr_cbs a)"

definition svc_cbs :: "'u gatt_db_service \<Rightarrow> 'u multiset" where
  "svc_cbs s = sum_list (map slot_cbs (attributes s))"

definition db_cbs :: "'u gatt_db \<Rightarrow> 'u multiset" where
  "db_cbs db = sum_list (map svc_cbs (services db))"

definition done_cbs :: "'u db_out list \<Rightarrow> 'u multiset" where
  "done_cbs l = sum_list (map (\<lambda>x. case x of Read_done _ u _ _ _ \<Rightarrow> {#u#} | Write_done _ u _ _ \<Rightarrow> {#u#} | _ \<Rightarrow> {#}) l)"

lemma done_cbs_simps [simp]:
  "done_cbs [] = {#}" "done_cbs (l @ m) = done_cbs l + done_cbs m"
  "done_cbs (x # l) = (case x of Read_done _ u _ _ _ \<Rightarrow> {#u#} | Write_done _ u _ _ \<Rightarrow> {#u#} | _ \<Rightarrow> {#}) + done_cbs l"
  by (simp_all add: done_cbs_def)

lemma db_cbs_sel [simp]: "db_cbs (db_say l db) = db_cbs db" "db_cbs (db\<lparr>rq_brk := n\<rparr>) = db_cbs db"
  by (simp_all add: db_cbs_def)

lemma sum_update:
  fixes f :: "'b \<Rightarrow> 'a multiset"
  shows "i < length xs \<Longrightarrow> sum_list (map f (xs[i := x])) + f (xs ! i) = sum_list (map f xs) + f x"
proof (induction xs arbitrary: i)
  case (Cons a as)
  then show ?case by (cases i) (auto simp: ac_simps)
qed simp

lemma put_attr_cbs:
  assumes "shape_ok db" and "get_attr p db = Some a" and "put_attr p a' db = Some db'"
  shows "db_cbs db' + attr_cbs a = db_cbs db + attr_cbs a'"
proof -
  obtain s where s: "get_svc (fst p) db = Some s" "svc_attr (snd p) s = Some a" using assms(2) by (auto simp: get_attr_def split: bind_splits)
  let ?s = "s\<lparr>attributes := (attributes s)[snd p := Some a']\<rparr>"
  have d: "db' = put_svc ?s db" using assms(3) s(1) by (simp add: put_attr_def)
  obtain us vs where e: "services db = us @ s # vs" "sv_key s = fst p" "\<forall>t \<in> set us \<union> set vs. sv_key t \<noteq> fst p"
    using get_svc_split [OF s(1)] assms(1) by (auto simp: shape_ok_def)
  have i: "snd p < length (attributes s)" "attributes s ! snd p = Some a" using s(2) by (auto simp: svc_attr_def lst_get_def split: if_splits)
  have "svc_cbs ?s + attr_cbs a = svc_cbs s + attr_cbs a'"
    using sum_update [OF i(1), of slot_cbs "Some a'"] i(2) by (simp add: svc_cbs_def slot_cbs_def)
  moreover have "db_cbs db' + svc_cbs s = db_cbs db + svc_cbs ?s"
    using put_svc_split [OF e(1), of ?s] e by (simp add: d db_cbs_def)
  ultimately show ?thesis by (metis balance)
qed

text \<open>A request is pending, or its callback was called; an answer calls the callback of a pending one.\<close>

lemma get_attr_brk [simp]: "get_attr p (db\<lparr>rq_brk := n\<rparr>) = get_attr p db"
  by (simp add: get_attr_def get_svc_def)

lemma shape_brk [simp]: "shape_ok (db\<lparr>rq_brk := n\<rparr>) = shape_ok db"
  by (simp add: shape_ok_def)

lemma put_attr_log: "put_attr p a db = Some db' \<Longrightarrow> db_log db' = db_log db"
  by (auto simp: put_attr_def split: bind_splits)

lemma read_cbs:
  assumes "gatt_db_attribute_read p off opc f db = Some (r, db')" and "db_inv db"
  shows "r" and "(\<exists>n e v. db_news db db' = [Read_done n f p e v] \<and> db_cbs db' = db_cbs db)
    \<or> (\<exists>u i. db_news db db' = [Asked_read u p i off opc] \<and> db_cbs db' = add_mset f (db_cbs db))"
  using assms put_attr_cbs [of "db\<lparr>rq_brk := rq_brk db + 1\<rparr>" p]
  by (fastforce simp: gatt_db_attribute_read_def db_inv_def Let_def db_news_def attr_cbs_def put_attr_log
      split: bind_splits option.splits if_splits)+

lemma write_cbs:
  assumes "gatt_db_attribute_write p off v opc f db = Some (r, db')" and "db_inv db"
  shows "r" and "(\<exists>n e. db_news db db' = [Write_done n f p e] \<and> db_cbs db' = db_cbs db)
    \<or> (\<exists>u i. db_news db db' = [Asked_write u p i off v opc] \<and> db_cbs db' = add_mset f (db_cbs db))"
proof -
  have st: "attr_cbs (store_value off v a) = attr_cbs a" for a :: "srv_cb gatt_db_attribute" by (simp add: store_value_def attr_cbs_def Let_def)
  show "r" using assms(1) by (auto simp: gatt_db_attribute_write_def Let_def split: bind_splits option.splits if_splits)
  show "(\<exists>n e. db_news db db' = [Write_done n f p e] \<and> db_cbs db' = db_cbs db)
    \<or> (\<exists>u i. db_news db db' = [Asked_write u p i off v opc] \<and> db_cbs db' = add_mset f (db_cbs db))"
    using assms put_attr_cbs [of "db\<lparr>rq_brk := rq_brk db + 1\<rparr>" p] st
    by (fastforce simp: gatt_db_attribute_write_def db_inv_def Let_def db_news_def attr_cbs_def put_attr_log
        split: bind_splits option.splits if_splits)
qed

lemma take_pending_cbs: "take_pending i ps = Some (r, qs) \<Longrightarrow> mset (map pd_func ps) = add_mset (pd_func r) (mset (map pd_func qs))"
  by (auto simp: take_pending_def extract_Some_iff split: option.splits)

lemma remove1_cbs: "find P ps = Some r \<Longrightarrow> mset (map pd_func ps) = add_mset (pd_func r) (mset (map pd_func (remove1 r ps)))"
proof -
  assume "find P ps = Some r"
  then have "r \<in> set ps" using find_split by fastforce
  then have "image_mset pd_func (mset ps) = image_mset pd_func (add_mset r (mset (remove1 r ps)))" by simp
  then show ?thesis by (simp only: mset_map image_mset_add_mset)
qed

lemma answer_cbs:
  assumes "db_inv db" and "get_attr p db = Some a" and "put_attr p a' db = Some u" and "attr_cbs a = attr_cbs a' + done_cbs out"
  shows "db_cbs (db_say out u) + done_cbs (db_news db (db_say out u)) = db_cbs db"
proof -
  have "db_cbs u + (attr_cbs a' + done_cbs out) = db_cbs db + attr_cbs a'"
    using put_attr_cbs [of db p a a' u] assms by (simp add: db_inv_def)
  then have "(db_cbs u + done_cbs out) + attr_cbs a' = db_cbs db + attr_cbs a'" by (simp add: ac_simps)
  then show ?thesis using put_attr_log [OF assms(3)] by (simp add: db_news_def)
qed

lemma no_news: "db_cbs db + done_cbs (db_news db db) = db_cbs db"
  by (simp add: db_news_def)

lemma read_result_cbs:
  assumes "gatt_db_attribute_read_result p i err v db = Some (r, db')" and "db_inv db"
  shows "db_cbs db' + done_cbs (db_news db db') = db_cbs db"
proof (cases "db' = db")
  case False
  then obtain b q ps u where "get_attr p db = Some b" "take_pending i (pending_reads b) = Some (q, ps)" "put_attr p (b\<lparr>pending_reads := ps\<rparr>) db = Some u"
    "db' = db_say [Read_done (pd_num q) (pd_func q) p err (map Some v)] u"
    using assms(1) by (auto simp: gatt_db_attribute_read_result_def split: bind_splits if_splits option.splits)
  then show ?thesis using answer_cbs [OF assms(2), of p b "b\<lparr>pending_reads := ps\<rparr>" u] take_pending_cbs [of i "pending_reads b" q ps] by (simp add: attr_cbs_def)
qed (simp add: no_news)

lemma write_result_cbs:
  assumes "gatt_db_attribute_write_result p i err db = Some (r, db')" and "db_inv db"
  shows "db_cbs db' + done_cbs (db_news db db') = db_cbs db"
proof (cases "db' = db")
  case False
  then obtain b q ps u where "get_attr p db = Some b" "take_pending i (pending_writes b) = Some (q, ps)" "put_attr p (b\<lparr>pending_writes := ps\<rparr>) db = Some u"
    "db' = db_say [Write_done (pd_num q) (pd_func q) p err] u"
    using assms(1) by (auto simp: gatt_db_attribute_write_result_def split: bind_splits if_splits option.splits)
  then show ?thesis using answer_cbs [OF assms(2), of p b "b\<lparr>pending_writes := ps\<rparr>" u] take_pending_cbs [of i "pending_writes b" q ps] by (simp add: attr_cbs_def)
qed (simp add: no_news)

lemma timeout_cbs:
  assumes "db_inv db"
  shows "read_timeout p n db = Some db' \<Longrightarrow> db_cbs db' + done_cbs (db_news db db') = db_cbs db"
    and "write_timeout p n db = Some db' \<Longrightarrow> db_cbs db' + done_cbs (db_news db db') = db_cbs db"
proof -
  assume "read_timeout p n db = Some db'"
  then obtain b q u where q: "get_attr p db = Some b" "find (\<lambda>r. pd_num r = n) (pending_reads b) = Some q"
    "put_attr p (b\<lparr>pending_reads := remove1 q (pending_reads b)\<rparr>) db = Some u" "db' = db_say [Read_done n (pd_func q) p (- ETIMEDOUT) []] u"
    by (auto simp: read_timeout_def split: bind_splits)
  then show "db_cbs db' + done_cbs (db_news db db') = db_cbs db"
    using answer_cbs [OF assms q(1,3)] remove1_cbs [OF q(2)] by (simp add: attr_cbs_def)
next
  assume "write_timeout p n db = Some db'"
  then obtain b q u where q: "get_attr p db = Some b" "find (\<lambda>r. pd_num r = n) (pending_writes b) = Some q"
    "put_attr p (b\<lparr>pending_writes := remove1 q (pending_writes b)\<rparr>) db = Some u" "db' = db_say [Write_done n (pd_func q) p (- ETIMEDOUT)] u"
    by (auto simp: write_timeout_def split: bind_splits)
  then show "db_cbs db' + done_cbs (db_news db db') = db_cbs db"
    using answer_cbs [OF assms q(1,3)] remove1_cbs [OF q(2)] by (simp add: attr_cbs_def)
qed

lemma destroyed_cbs:
  "done_cbs (concat (map (\<lambda>(i, a). case a of None \<Rightarrow> [] | Some a \<Rightarrow> attribute_destroy (k, i) a) (enumerate m as))) = sum_list (map slot_cbs as)"
proof (induction as arbitrary: m)
  case (Cons a as)
  have "done_cbs (map (\<lambda>r. Read_done (pd_num r) (pd_func r) p e v) rs) = mset (map pd_func rs)" "done_cbs (map (\<lambda>r. Write_done (pd_num r) (pd_func r) p e) rs) = mset (map pd_func rs)"
    for p e v and rs :: "'a pending list" by (induction rs) simp_all
  then show ?case using Cons by (simp add: attribute_destroy_def slot_cbs_def attr_cbs_def split: option.split)
qed simp

lemma notify_news:
  assumes "notify_service_changed s added db = Some db'"
  shows "\<exists>out. db_log db' = db_log db @ out \<and> done_cbs out = {#}"
proof -
  have "those (map (handle_service_notify added p) ns) = Some out \<Longrightarrow> done_cbs out = {#}" for p and ns :: "'a db_notify list" and out
    by (induction ns arbitrary: out) (auto simp: handle_service_notify_def split: if_splits option.splits)
  then show ?thesis using assms by (auto simp: notify_service_changed_def Let_def split: bind_splits if_splits)
qed

lemma remove_cbs:
  assumes "gatt_db_remove_service p db = Some (r, db')" and "db_inv db"
  shows "db_cbs db' + done_cbs (db_news db db') = db_cbs db"
proof -
  let ?P = "\<lambda>t. sv_key t \<noteq> fst p" and ?out = "\<lambda>s. concat (map (\<lambda>(i, a). case a of None \<Rightarrow> [] | Some a \<Rightarrow> attribute_destroy (sv_key s, i) a) (enumerate 0 (attributes s)))"
  obtain s where s: "get_svc (fst p) db = Some s" "gatt_db_service_destroy s (db\<lparr>services := filter ?P (services db)\<rparr>) = Some db'"
    using assms(1) by (auto simp: gatt_db_remove_service_def split: bind_splits)
  obtain us vs where e: "services db = us @ s # vs" "sv_key s = fst p" "\<forall>t \<in> set us \<union> set vs. ?P t"
    using get_svc_split [OF s(1)] assms(2) by (auto simp: db_inv_def shape_ok_def)
  obtain u where u: "(if sv_active s then notify_service_changed s False (db\<lparr>services := filter ?P (services db)\<rparr>) else Some (db\<lparr>services := filter ?P (services db)\<rparr>)) = Some u"
    "db' = db_say (?out s) u" using s(2) by (auto simp: gatt_db_service_destroy_def split: bind_splits)
  have "\<exists>out. db_log u = db_log db @ out \<and> done_cbs out = {#}"
    using u(1) notify_news [of s False "db\<lparr>services := filter ?P (services db)\<rparr>" u] by (auto split: if_splits)
  then have "done_cbs (db_news db db') = svc_cbs s" using destroyed_cbs [of "sv_key s" 0 "attributes s"] by (auto simp: db_news_def u(2) svc_cbs_def)
  moreover have "services db' = us @ vs" using destroy_facts(1) [OF s(2)] e by (simp add: filter_id_conv)
  ultimately show ?thesis by (simp add: db_cbs_def e(1))
qed

subsection \<open>The invariant of the server\<close>

text \<open>The request a callback will answer, and the request an output answers.\<close>

definition tok :: "srv_cb \<Rightarrow> nat multiset" where
  "tok cb = (case cb of On_read_by_type op \<Rightarrow> {#ro_rq op#} | On_read rq _ \<Rightarrow> {#rq#} | On_write rq opcode \<Rightarrow> (if opcode = OP_WRITE_CMD then {#} else {#rq#})
     | On_read_multiple d \<Rightarrow> {#rm_rq d#} | On_prep_write rq _ \<Rightarrow> {#rq#} | On_exec_write rq \<Rightarrow> {#rq#} | _ \<Rightarrow> {#})"

definition ans :: "srv_out \<Rightarrow> nat multiset" where
  "ans x = (case x of Send_rsp rq _ _ \<Rightarrow> {#rq#} | Send_error_rsp rq _ _ _ \<Rightarrow> {#rq#} | _ \<Rightarrow> {#})"

definition pending_rqs :: "gatt_server \<Rightarrow> nat multiset" where
  "pending_rqs s = sum_mset (image_mset tok (db_cbs (sdb s)))"

definition answered_rqs :: "gatt_server \<Rightarrow> nat multiset" where
  "answered_rqs s = sum_list (map ans (srv_log s))"

definition owed :: "gatt_server \<Rightarrow> nat multiset" where
  "owed s = pending_rqs s + answered_rqs s"

text \<open>What fits into the MTU, with the byte of the opcode.\<close>

definition fits :: "u16 \<Rightarrow> 'a list \<Rightarrow> bool" where
  "fits mtu pdu \<longleftrightarrow> length pdu + 1 \<le> unat mtu"

definition cb_ok :: "u16 \<Rightarrow> srv_cb \<Rightarrow> bool" where
  "cb_ok mtu cb = (case cb of On_read_by_type op \<Rightarrow> ro_pdu_len op + 1 \<le> unat mtu | On_read_multiple d \<Rightarrow> fits mtu (rm_rsp_data d)
     | On_prep_write _ pdu \<Rightarrow> fits mtu pdu | _ \<Rightarrow> True)"

definition out_ok :: "u16 \<Rightarrow> srv_out \<Rightarrow> bool" where
  "out_ok mtu x = (case x of Send_rsp _ _ pdu \<Rightarrow> fits mtu pdu | Send_pdu _ pdu \<Rightarrow> fits mtu pdu | _ \<Rightarrow> True)"

definition srv_ok :: "gatt_server \<Rightarrow> bool" where
  "srv_ok s \<longleftrightarrow> alive s \<and> db_inv (sdb s) \<and> 23 \<le> unat (att_mtu s) \<and> (\<forall>cb \<in># db_cbs (sdb s). cb_ok (att_mtu s) cb)
     \<and> (\<forall>x \<in> set (srv_log s). out_ok (att_mtu s) x) \<and> (\<forall>d. nfy_mult s = Some d \<longrightarrow> fits (att_mtu s) (nm_pdu d))"

text \<open>A step that keeps the invariant and adds \<^term>\<open>N\<close> to what was asked for.\<close>

definition pays :: "nat multiset \<Rightarrow> gatt_server \<Rightarrow> gatt_server \<Rightarrow> bool" where
  "pays N s s' \<longleftrightarrow> srv_ok s' \<and> owed s' = N + owed s \<and> att_mtu s' = att_mtu s \<and> rq_count s' = rq_count s"

lemma pays_refl: "srv_ok s \<Longrightarrow> pays {#} s s"
  by (simp add: pays_def)

lemma pays_trans: "pays M s s' \<Longrightarrow> pays N s' s'' \<Longrightarrow> pays (M + N) s s''"
  by (simp add: pays_def ac_simps)

lemma pays_zero: "pays {#} s s' \<Longrightarrow> pays N s' s'' \<Longrightarrow> pays N s s''"
  using pays_trans [of "{#}"] by simp

lemma pays_updates [simp]:
  "pays N s (s'\<lparr>pending_read_op := b\<rparr>) = pays N s s'" "pays N s (s'\<lparr>pending_write_op := b\<rparr>) = pays N s s'" "pays N s (s'\<lparr>prep_queue := q\<rparr>) = pays N s s'"
  "pays N s (async_read_op_destroy s') = pays N s s'" "pays N s (async_write_op_destroy s') = pays N s s'"
  "pays N (s\<lparr>pending_read_op := b\<rparr>) s' = pays N s s'" "pays N (s\<lparr>pending_write_op := b\<rparr>) s' = pays N s s'" "pays N (s\<lparr>prep_queue := q\<rparr>) s' = pays N s s'"
  by (simp_all add: pays_def srv_ok_def owed_def pending_rqs_def answered_rqs_def async_read_op_destroy_def async_write_op_destroy_def)

lemma pays_say: "pays N s s' \<Longrightarrow> out_ok (att_mtu s') x \<Longrightarrow> pays (ans x + N) s (srv_say x s')"
  by (auto simp: pays_def srv_ok_def owed_def pending_rqs_def answered_rqs_def srv_say_def ac_simps)

lemma pays_error: "srv_ok s \<Longrightarrow> pays {#rq#} s (srv_say (Send_error_rsp rq opcode h e) s)"
  using pays_say [OF pays_refl, of s "Send_error_rsp rq opcode h e"] by (simp add: ans_def out_ok_def)

lemma pays_rsp: "srv_ok s \<Longrightarrow> fits (att_mtu s) pdu \<Longrightarrow> pays {#rq#} s (srv_say (Send_rsp rq opcode pdu) s)"
  using pays_say [OF pays_refl, of s "Send_rsp rq opcode pdu"] by (simp add: ans_def out_ok_def)

lemma ok_updates [simp]:
  "srv_ok (s\<lparr>pending_read_op := b\<rparr>) = srv_ok s" "srv_ok (s\<lparr>pending_write_op := b\<rparr>) = srv_ok s" "srv_ok (s\<lparr>prep_queue := q\<rparr>) = srv_ok s"
  "srv_ok (s\<lparr>rq_count := n\<rparr>) = srv_ok s" "srv_ok (s\<lparr>srv_authorize := f\<rparr>) = srv_ok s"
  by (simp_all add: srv_ok_def)

lemma paysD: "pays N s s' \<Longrightarrow> srv_ok s'" "pays N s s' \<Longrightarrow> att_mtu s' = att_mtu s" "pays N s s' \<Longrightarrow> rq_count s' = rq_count s"
  by (simp_all add: pays_def)

lemma sdb_pays:
  assumes "srv_ok s" and "db_inv db" and "db_cbs db = M + db_cbs (sdb s)" and "\<forall>cb \<in># M. cb_ok (att_mtu s) cb"
  shows "pays (sum_mset (image_mset tok M)) s (s\<lparr>sdb := db\<rparr>)"
  using assms by (auto simp: pays_def srv_ok_def owed_def pending_rqs_def answered_rqs_def)

lemma attribute_read_pays:
  assumes "attribute_read p off opc cb s = Some (ok, r, s')" and "srv_ok s"
  shows "ok" and "r \<noteq> None \<Longrightarrow> pays {#} s s'" and "r = None \<Longrightarrow> cb_ok (att_mtu s) cb \<Longrightarrow> pays (tok cb) s s'"
proof -
  obtain db where d: "gatt_db_attribute_read p off opc cb (sdb s) = Some (ok, db)" "s' = s\<lparr>sdb := db\<rparr>"
    "r = (case db_news (sdb s) db of [Read_done _ _ _ err v] \<Rightarrow> Some (err, v) | _ \<Rightarrow> None)"
    using assms(1) by (auto simp: attribute_read_def db_news_def split: bind_splits)
  have i: "db_inv (sdb s)" "db_inv db" using assms(2) read_inv [OF d(1)] by (auto simp: srv_ok_def)
  note c = read_cbs [OF d(1) i(1)]
  show "ok" using c(1) .
  show "r \<noteq> None \<Longrightarrow> pays {#} s s'" using c(2) sdb_pays [OF assms(2) i(2), of "{#}"] d(2,3) by auto
  show "r = None \<Longrightarrow> cb_ok (att_mtu s) cb \<Longrightarrow> pays (tok cb) s s'" using c(2) sdb_pays [OF assms(2) i(2), of "{#cb#}"] d(2,3) by auto
qed

lemma attribute_write_pays:
  assumes "attribute_write p off v opc cb s = Some (ok, r, s')" and "srv_ok s"
  shows "ok" and "r \<noteq> None \<Longrightarrow> pays {#} s s'" and "r = None \<Longrightarrow> cb_ok (att_mtu s) cb \<Longrightarrow> pays (tok cb) s s'"
proof -
  obtain db where d: "gatt_db_attribute_write p off v opc cb (sdb s) = Some (ok, db)" "s' = s\<lparr>sdb := db\<rparr>"
    "r = (case db_news (sdb s) db of [Write_done _ _ _ err] \<Rightarrow> Some err | _ \<Rightarrow> None)"
    using assms(1) by (auto simp: attribute_write_def db_news_def split: bind_splits)
  have i: "db_inv (sdb s)" "db_inv db" using assms(2) write_inv [OF d(1)] by (auto simp: srv_ok_def)
  note c = write_cbs [OF d(1) i(1)]
  show "ok" using c(1) .
  show "r \<noteq> None \<Longrightarrow> pays {#} s s'" using c(2) sdb_pays [OF assms(2) i(2), of "{#}"] d(2,3) by auto
  show "r = None \<Longrightarrow> cb_ok (att_mtu s) cb \<Longrightarrow> pays (tok cb) s s'" using c(2) sdb_pays [OF assms(2) i(2), of "{#cb#}"] d(2,3) by auto
qed

lemma buf_put_length: "buf_put b i xs = Some b' \<Longrightarrow> length b' = length b"
  by (auto simp: buf_put_def split: if_splits)

subsection \<open>The handlers answer their request\<close>

lemma ok_alive: "srv_ok s \<Longrightarrow> alive s"
  by (simp add: srv_ok_def)

text \<open>One round of the loop of \<^verbatim>\<open>encode_read_by_grp_type_rsp\<close>: it stops with what it has, or goes on within the MTU.\<close>

lemma encode_grp_cases:
  assumes "encode_read_by_grp_type_rsp mtu (p # q) iter len pdu s = Some (r, s')"
  obtains ok r1 where "attribute_read p 0 OP_READ_BY_GRP_TYPE_REQ On_attribute_read s = Some (ok, r1, s')" "r = None \<or> (\<exists>b i. r = Some (b, i) \<and> i \<le> max 1 iter)"
  | ok r1 s1 i l b where "attribute_read p 0 OP_READ_BY_GRP_TYPE_REQ On_attribute_read s = Some (ok, r1, s1)"
      "encode_read_by_grp_type_rsp mtu q (i + unat l + 4) l b s1 = Some (r, s')" "int i + uint l + 4 \<le> uint mtu - 1"
proof -
  obtain ok r1 s1 where a: "attribute_read p 0 OP_READ_BY_GRP_TYPE_REQ On_attribute_read s = Some (ok, r1, s1)"
    using assms by (auto split: bind_splits)
  define v where "v = (case r1 of Some (_, v) \<Rightarrow> v | None \<Rightarrow> [])"
  define l where "l = (if iter = 0 then i2b (min (min ((uint mtu - 6) mod 2 ^ 32) 251) (int (length v))) else len)"
  define i where "i = (if iter = 0 then 1 else iter)"
  note e = assms [unfolded encode_read_by_grp_type_rsp.simps a bind.simps prod.case Let_def v_def [symmetric] l_def [symmetric] i_def [symmetric]]
  consider "\<not> ok \<or> v = []" | "ok" "v \<noteq> []" "iter \<noteq> 0 \<and> length v \<noteq> unat len" | "ok" "v \<noteq> []" "\<not> (iter \<noteq> 0 \<and> length v \<noteq> unat len)" by blast
  then show thesis
  proof cases
    case 3
    have c: "\<not> (\<not> ok \<or> v = [])" using 3 by simp
    obtain b where b: "(if iter = 0 then buf_put pdu 0 [Some (l + 4)] else Some pdu) = Some b"
      "(if int i + uint l + 4 > uint mtu - 1 then Some (Some (b, i), s1)
        else do { svc \<leftarrow> get_svc (fst p) (sdb s1);
          case gatt_db_service_get_handles svc of (start, end) \<Rightarrow> do {
            pdu \<leftarrow> buf_put b i (map Some (put_le16 start @ put_le16 end) @ take (unat l) v);
            encode_read_by_grp_type_rsp mtu q (i + unat l + 4) l pdu s1 } }) = Some (r, s')"
      using e [unfolded if_not_P [OF c] if_not_P [OF 3(3)]] by (cases "if iter = 0 then buf_put pdu 0 [Some (l + 4)] else Some pdu") simp_all
    show thesis
    proof (cases "int i + uint l + 4 > uint mtu - 1")
      case True
      then have "s' = s1 \<and> r = Some (b, i)" using b(2) by simp
      then show thesis using that(1) a by (auto simp: i_def)
    next
      case False
      then obtain pdu' where "encode_read_by_grp_type_rsp mtu q (i + unat l + 4) l pdu' s1 = Some (r, s')" using b(2) by (auto split: bind_splits prod.splits)
      then show thesis using that(2) a False by (metis not_less)
    qed
  qed (use e a that(1) in auto)
qed

lemma encode_grp_pays:
  "encode_read_by_grp_type_rsp mtu q iter len pdu s = Some (r, s') \<Longrightarrow> srv_ok s \<Longrightarrow> mtu = att_mtu s \<Longrightarrow> iter + 1 \<le> unat mtu
     \<Longrightarrow> pays {#} s s' \<and> (\<forall>buf n. r = Some (buf, n) \<longrightarrow> n + 1 \<le> unat mtu)"
proof (induction q arbitrary: iter len pdu s)
  case (Cons p q)
  have p: "pays {#} s s1" if "attribute_read p 0 OP_READ_BY_GRP_TYPE_REQ On_attribute_read s = Some (ok, r1, s1)" for ok r1 s1
    using attribute_read_pays [OF that Cons.prems(2)] by (cases r1) (auto simp: cb_ok_def tok_def)
  show ?case
    using Cons.prems(1)
  proof (cases rule: encode_grp_cases)
    case (1 ok r1)
    have "23 \<le> unat mtu" using Cons.prems(2,3) by (simp add: srv_ok_def)
    then show ?thesis using p [OF 1(1)] 1(2) Cons.prems(4) by auto
  next
    case (2 ok r1 s1 i l b)
    note r = p [OF 2(1)]
    have "int (i + unat l + 4 + 1) \<le> int (unat mtu)" using 2(3) by simp
    then have "i + unat l + 4 + 1 \<le> unat mtu" by (simp only: of_nat_le_iff)
    then have "pays {#} s1 s' \<and> (\<forall>buf n. r = Some (buf, n) \<longrightarrow> n + 1 \<le> unat mtu)"
      using Cons.IH [OF 2(2)] paysD [OF r] Cons.prems(3) by simp
    then show ?thesis using pays_zero [OF r] by blast
  qed
qed (auto simp: pays_refl)

lemma read_by_grp_type_pays:
  assumes "read_by_grp_type_cb rq opc pdu s = Some s'" and "srv_ok s"
  shows "pays {#rq#} s s'"
proof (cases "\<exists>q r s1. encode_read_by_grp_type_rsp (att_mtu s) q 0 0 (replicate (unat (att_mtu s)) None) s = Some (r, s1)
    \<and> s' = (case r of None \<Rightarrow> srv_say (Send_error_rsp rq opc (get_le16 pdu) (uint ERR_UNLIKELY)) s1 | Some (buf, len) \<Rightarrow> srv_say (Send_rsp rq 0x11 (take len buf)) s1)")
  case True
  then obtain q r s1 where e: "encode_read_by_grp_type_rsp (att_mtu s) q 0 0 (replicate (unat (att_mtu s)) None) s = Some (r, s1)"
    "s' = (case r of None \<Rightarrow> srv_say (Send_error_rsp rq opc (get_le16 pdu) (uint ERR_UNLIKELY)) s1 | Some (buf, len) \<Rightarrow> srv_say (Send_rsp rq 0x11 (take len buf)) s1)"
    by blast
  have g: "pays {#} s s1" "\<forall>buf n. r = Some (buf, n) \<longrightarrow> n + 1 \<le> unat (att_mtu s)"
    using encode_grp_pays [OF e(1) assms(2)] assms(2) by (auto simp: srv_ok_def)
  have "pays {#rq#} s1 s'" using e(2) g(2) paysD [OF g(1)] by (auto simp: fits_def intro!: pays_error pays_rsp split: option.splits)
  then show ?thesis by (rule pays_zero [OF g(1)])
next
  case False
  then show ?thesis using assms by (auto simp: read_by_grp_type_cb_def Let_def intro!: pays_error split: bind_splits if_splits)
qed

lemma bound_int: "int n \<le> (uint m - 1) mod 2 ^ 32 \<Longrightarrow> 23 \<le> unat m \<Longrightarrow> n + 1 \<le> unat m" for m :: u16
proof -
  assume a: "int n \<le> (uint m - 1) mod 2 ^ 32" "23 \<le> unat m"
  have "int 23 \<le> int (unat m)" using a(2) by (simp only: of_nat_le_iff)
  then have "0 \<le> uint m - 1" "uint m - 1 < 2 ^ 32" using uint_lt2p [of m] by simp_all
  then have "(uint m - 1) mod 2 ^ 32 = uint m - 1" by (rule mod_pos_pos_trivial)
  then have "int (n + 1) \<le> int (unat m)" using a(1) by simp
  then show ?thesis by (simp only: of_nat_le_iff)
qed

lemma read_by_type_start_facts:
  "read_by_type_start op mtu n = Some op' \<Longrightarrow> ro_rq op' = ro_rq op \<and> ro_db_data op' = ro_db_data op \<and> ro_pdu_len op' = 1"
  by (auto simp: read_by_type_start_def Let_def split: bind_splits)

lemma read_by_type_value_pays:
  assumes "read_by_type_value op p err v s = Some (op', s')" and "srv_ok s" and "ro_pdu_len op + 1 \<le> unat (att_mtu s)"
  shows "op' = None \<Longrightarrow> pays {#ro_rq op#} s s'"
    and "op' = Some o1 \<Longrightarrow> s' = s \<and> ro_rq o1 = ro_rq op \<and> ro_db_data o1 = ro_db_data op \<and> ro_pdu_len o1 + 1 \<le> unat (att_mtu s)"
proof -
  have u: "23 \<le> unat (att_mtu s)" using assms(2) by (simp add: srv_ok_def)
  note al = ok_alive [OF assms(2)]
  show "op' = None \<Longrightarrow> pays {#ro_rq op#} s s'"
    using assms(1,2) al unfolding read_by_type_value_def Let_def
    by (auto intro!: pays_error split: bind_splits if_splits)
  assume o1: "op' = Some o1"
  obtain a where a: "get_attr p (sdb s) = Some a"
    using assms(1) al by (cases "get_attr p (sdb s)") (simp_all add: read_by_type_value_def Let_def)
  note e = assms(1) [unfolded read_by_type_value_def Let_def a bind.simps o1]
  have err: "err = 0" using e al by (auto split: if_splits)
  show "s' = s \<and> ro_rq o1 = ro_rq op \<and> ro_db_data o1 = ro_db_data op \<and> ro_pdu_len o1 + 1 \<le> unat (att_mtu s)"
  proof (cases "ro_pdu_len op \<noteq> 0 \<and> length v \<noteq> ro_value_len op")
    case True
    then show ?thesis using e err al assms(3) by auto
  next
    case False
    obtain o2 where o2: "(if ro_pdu_len op = 0 then read_by_type_start op (att_mtu s) (length v) else Some op) = Some o2"
      using e [unfolded if_not_P [OF False]] err al by (cases "if ro_pdu_len op = 0 then read_by_type_start op (att_mtu s) (length v) else Some op") simp_all
    have f: "ro_rq o2 = ro_rq op" "ro_db_data o2 = ro_db_data op" "ro_pdu_len o2 + 1 \<le> unat (att_mtu s)"
      using o2 assms(3) u by (auto dest: read_by_type_start_facts split: if_splits)
    let ?n = "ro_pdu_len o2 + ro_value_len o2 + 2"
    note g = e [unfolded if_not_P [OF False] o2 bind.simps]
    show ?thesis
    proof (cases "int ?n > (uint (att_mtu s) - 1) mod 2 ^ 32")
      case True
      then show ?thesis using g [unfolded if_P [OF True]] err f al by auto
    next
      case False
      then have "?n + 1 \<le> unat (att_mtu s)" by (intro bound_int u) (simp only: not_less)
      then show ?thesis using g [unfolded if_not_P [OF False]] err f al by (auto split: bind_splits)
    qed
  qed
qed

lemma fits_take: "n + 1 \<le> unat m \<Longrightarrow> fits m (take n b)" "fits m b \<Longrightarrow> fits m (take n b)"
  by (auto simp: fits_def)

lemma process_read_by_type_pays:
  "process_read_by_type q op s = Some s' \<Longrightarrow> srv_ok s \<Longrightarrow> ro_pdu_len op + 1 \<le> unat (att_mtu s) \<Longrightarrow> pays {#ro_rq op#} s s'"
proof (induction q arbitrary: op s)
  case (Cons p q)
  let ?op = "op\<lparr>ro_db_data := q\<rparr>"
  obtain a where a: "\<not> ro_done op \<Longrightarrow> get_attr p (sdb s) = Some a" using Cons.prems(1) by (cases "get_attr p (sdb s)") (auto split: if_splits)
  show ?case
  proof (cases "ro_done op \<or> check_permissions (permissions a) READ_MASK s \<noteq> 0")
    case True
    then show ?thesis using Cons.prems a by (cases "ro_done op") (auto simp: Let_def fits_take intro!: pays_error pays_rsp)
  next
    case False
    then have g: "\<not> ro_done op" "get_attr p (sdb s) = Some a" "check_permissions (permissions a) READ_MASK s = 0" using a by auto
    obtain ok r s1 where t: "attribute_read p 0 (ro_opcode op) (On_read_by_type ?op) s = Some (ok, r, s1)"
      using Cons.prems(1) g by (cases "attribute_read p 0 (ro_opcode op) (On_read_by_type ?op) s") (auto simp: Let_def)
    note r = attribute_read_pays [OF t Cons.prems(2)]
    have e: "(case r of None \<Rightarrow> Some s1 | Some (err, v) \<Rightarrow> do {
        (op', s) \<leftarrow> read_by_type_value ?op p err v s1; case op' of None \<Rightarrow> Some s | Some op \<Rightarrow> process_read_by_type q op s }) = Some s'"
      using Cons.prems(1) g t r(1) by simp
    show ?thesis
    proof (cases r)
      case None
      then show ?thesis using r(3) e Cons.prems(3) by (simp add: cb_ok_def tok_def)
    next
      case (Some ev)
      have z: "pays {#} s s1" using r(2) Some by simp
      obtain op' s2 where v: "read_by_type_value ?op p (fst ev) (snd ev) s1 = Some (op', s2)" "case op' of None \<Rightarrow> s' = s2 | Some o1 \<Rightarrow> process_read_by_type q o1 s2 = Some s'"
        using e Some by (cases "read_by_type_value ?op p (fst ev) (snd ev) s1") (auto split: prod.splits option.splits)
      note w = read_by_type_value_pays [OF v(1) paysD(1) [OF z]]
      have "pays {#ro_rq op#} s1 s'"
      proof (cases op')
        case None
        then show ?thesis using w(1) v(2) Cons.prems(3) paysD(2) [OF z] by simp
      next
        case (Some o1)
        then show ?thesis using w(2) [OF _ Some] v(2) Cons.IH [of o1 s2] Cons.prems(3) paysD [OF z] by simp
      qed
      then show ?thesis by (rule pays_zero [OF z])
    qed
  qed
qed (auto simp: fits_take intro!: pays_rsp)

lemma read_by_type_complete_pays:
  assumes "read_by_type_read_complete_cb op p err v s = Some s'" and "srv_ok s" and "ro_pdu_len op + 1 \<le> unat (att_mtu s)"
  shows "pays {#ro_rq op#} s s'"
proof -
  obtain op' s1 where v: "read_by_type_value op p err v s = Some (op', s1)" "case op' of None \<Rightarrow> s' = s1 | Some o1 \<Rightarrow> process_read_by_type (ro_db_data o1) o1 s1 = Some s'"
    using assms(1) by (auto simp: read_by_type_read_complete_cb_def split: bind_splits option.splits)
  note w = read_by_type_value_pays [OF v(1) assms(2,3)]
  show ?thesis
  proof (cases op')
    case (Some o1)
    then show ?thesis using w(2) [OF Some] process_read_by_type_pays [of "ro_db_data o1" o1 s1 s'] v(2) assms(2) by simp
  qed (use w(1) v(2) in simp)
qed

lemma read_by_type_pays: "read_by_type_cb rq opc pdu s = Some s' \<Longrightarrow> srv_ok s \<Longrightarrow> pays {#rq#} s s'"
  by (auto simp: read_by_type_cb_def Let_def srv_ok_def dest!: process_read_by_type_pays intro!: pays_error split: bind_splits if_splits)

lemma encode_info_bound:
  "encode_find_info_rsp mtu q iter len pdu db = Some (Some (buf, n)) \<Longrightarrow> iter + 1 \<le> unat mtu \<Longrightarrow> 23 \<le> unat mtu \<Longrightarrow> n + 1 \<le> unat mtu"
proof (induction q arbitrary: iter len pdu)
  case (Cons p q)
  obtain a where a: "get_attr p db = Some a" using Cons.prems(1) by (cases "get_attr p db") simp_all
  define cur where "cur = bt_uuid_len (ga_uuid a)"
  define l where "l = (if iter = 0 then (if cur = 2 then 2 else 16) else len)"
  define i where "i = (if iter = 0 then 1 else iter)"
  note e = Cons.prems(1) [unfolded encode_find_info_rsp.simps a bind.simps Let_def cur_def [symmetric] l_def [symmetric] i_def [symmetric]]
  have h: "\<not> ga_handle a = 0" "\<not> (iter = 0 \<and> cur \<notin> {2, 4, 16})" using e by (auto split: if_splits)
  note g = e [unfolded if_not_P [OF h(1)] if_not_P [OF h(2)]]
  show ?case
  proof (cases "iter \<noteq> 0 \<and> cur \<noteq> len")
    case True
    show ?thesis using g [unfolded if_P [OF True]] Cons.prems(2) by simp
  next
    case False
    obtain b where b: "(if iter = 0 then buf_put pdu 0 [Some (if cur = 2 then 1 else 2)] else Some pdu) = Some b"
      using g [unfolded if_not_P [OF False]] by (cases "if iter = 0 then buf_put pdu 0 [Some (if cur = 2 then 1 else 2)] else Some pdu") simp_all
    note f = g [unfolded if_not_P [OF False] b bind.simps]
    show ?thesis
    proof (cases "int (i + l + 2) > uint mtu - 1")
      case True
      then have "n = i" using f [unfolded if_P [OF True]] by simp
      then show ?thesis using Cons.prems(2,3) by (simp add: i_def split: if_splits)
    next
      case False
      then have "int (i + l + 2 + 1) \<le> int (unat mtu)" by simp
      then have m: "i + l + 2 + 1 \<le> unat mtu" by (simp only: of_nat_le_iff)
      obtain c where "encode_find_info_rsp mtu q (i + l + 2) l c db = Some (Some (buf, n))"
        using f [unfolded if_not_P [OF False]] by (auto split: bind_splits)
      from Cons.IH [OF this m Cons.prems(3)] show ?thesis .
    qed
  qed
qed auto

lemma find_info_pays: "find_info_cb rq opc pdu s = Some s' \<Longrightarrow> srv_ok s \<Longrightarrow> pays {#rq#} s s'"
  using encode_info_bound [of "att_mtu s" _ 0]
  by (fastforce simp: find_info_cb_def Let_def srv_ok_def fits_take intro!: pays_error pays_rsp split: bind_splits if_splits option.splits)

lemma find_by_type_vals_bound:
  "find_by_type_vals db ps d = Some d' \<Longrightarrow> unat (fd_len d) + 1 \<le> unat (fd_mtu d) \<Longrightarrow> unat (fd_len d') + 1 \<le> unat (fd_mtu d)"
proof (induction ps arbitrary: d)
  case (Cons p ps)
  then obtain e where e: "find_by_type_val_att_cb db p d = Some e" "find_by_type_vals db ps e = Some d'" by (auto split: bind_splits)
  have "fd_mtu e = fd_mtu d \<and> unat (fd_len e) + 1 \<le> unat (fd_mtu d)"
  proof (cases "e = d \<or> fd_len e = fd_len d")
    case True
    then show ?thesis using e(1) Cons.prems(2) by (auto simp: find_by_type_val_att_cb_def split: if_splits bind_splits)
  next
    case False
    then have l: "fd_len e = fd_len d + 4" "fd_mtu e = fd_mtu d" "uint (fd_len d) + 4 \<le> uint (fd_mtu d) - 1"
      using e(1) by (auto simp: find_by_type_val_att_cb_def split: if_splits bind_splits)
    have "int (unat (fd_len d) + 4 + 1) \<le> int (unat (fd_mtu d))" using l(3) by simp
    then have "unat (fd_len d) + 4 + 1 \<le> unat (fd_mtu d)" by (simp only: of_nat_le_iff)
    moreover have "unat (fd_len d + 4) \<le> unat (fd_len d) + 4" by (simp add: unat_word_ariths)
    ultimately show ?thesis using l(1,2) by simp
  qed
  then show ?case using Cons.IH [OF e(2)] by simp
qed simp

lemma find_by_type_val_pays: "find_by_type_val_cb rq opc pdu s = Some s' \<Longrightarrow> srv_ok s \<Longrightarrow> pays {#rq#} s s'"
  by (auto simp: find_by_type_val_cb_def Let_def srv_ok_def intro!: pays_error pays_rsp fits_take(1)
      dest!: find_by_type_vals_bound split: bind_splits if_splits)

lemma write_complete_pays: "write_complete_cb rq opc p err s = Some s' \<Longrightarrow> srv_ok s \<Longrightarrow> pays (tok (On_write rq opc)) s s'"
  by (auto simp: write_complete_cb_def tok_def fits_def srv_ok_def intro!: pays_error pays_rsp pays_refl split: bind_splits if_splits)

lemma read_complete_pays: "read_complete_cb rq opc p err v s = Some s' \<Longrightarrow> srv_ok s \<Longrightarrow> pays {#rq#} s s'"
proof -
  assume a: "read_complete_cb rq opc p err v s = Some s'" "srv_ok s"
  have u: "23 \<le> unat (att_mtu s)" using a(2) by (simp add: srv_ok_def)
  have "nat ((uint (att_mtu s) - 1) mod 2 ^ 32) + 1 \<le> unat (att_mtu s)" by (rule bound_int [OF _ u]) simp
  then show ?thesis using a by (auto simp: read_complete_cb_def intro!: pays_error pays_rsp fits_take(1) split: bind_splits if_splits)
qed

lemma write_pays:
  assumes "write_cb rq opc pdu s = Some s'" and "srv_ok s"
  shows "pays (tok (On_write rq opc)) s s'"
proof -
  have f: "pays (tok (On_write rq opc)) s (if opc = OP_WRITE_CMD then s else srv_say (Send_error_rsp rq opc h e) s)" for h e
    using assms(2) by (simp add: tok_def pays_refl pays_error)
  show ?thesis
  proof (cases "\<exists>h e. s' = (if opc = OP_WRITE_CMD then s else srv_say (Send_error_rsp rq opc h e) s)")
    case False
    then obtain p v ok r s1 where a: "attribute_write p 0 v opc (On_write rq opc) (s\<lparr>pending_write_op := True\<rparr>) = Some (ok, r, s1)"
      "ok \<Longrightarrow> (case r of None \<Rightarrow> Some s1 | Some err \<Rightarrow> write_complete_cb rq opc p err s1) = Some s'"
      using assms(1) unfolding write_cb_def Let_def by (auto split: if_splits option.splits bind_splits)
    have o: "srv_ok (s\<lparr>pending_write_op := True\<rparr>)" using assms(2) by simp
    note w = attribute_write_pays [OF a(1) o]
    show ?thesis
    proof (cases r)
      case None
      then show ?thesis using w(1,3) a(2) by (simp add: cb_ok_def)
    next
      case (Some err)
      then have z: "pays {#} s s1" using w(2) by simp
      show ?thesis using pays_zero [OF z write_complete_pays [of rq opc p err s1]] a(2) w(1) Some paysD(1) [OF z] by simp
    qed
  qed (use f in auto)
qed

lemma handle_read_pays:
  assumes "handle_read_req rq opc h off s = Some s'" and "srv_ok s"
  shows "pays {#rq#} s s'"
proof (cases "\<exists>e. s' = srv_say (Send_error_rsp rq opc h e) s")
  case False
  then obtain p ok r s1 where a: "attribute_read p off opc (On_read rq opc) (s\<lparr>pending_read_op := True\<rparr>) = Some (ok, r, s1)"
    "ok \<Longrightarrow> (case r of None \<Rightarrow> Some s1 | Some (err, v) \<Rightarrow> read_complete_cb rq opc p err v s1) = Some s'"
    using assms(1) unfolding handle_read_req_def Let_def by (auto split: if_splits option.splits bind_splits)
  have o: "srv_ok (s\<lparr>pending_read_op := True\<rparr>)" using assms(2) by simp
  note w = attribute_read_pays [OF a(1) o]
  show ?thesis
  proof (cases r)
    case None
    then show ?thesis using w(1,3) a(2) by (simp add: cb_ok_def tok_def)
  next
    case (Some ev)
    then have z: "pays {#} s s1" using w(2) by simp
    show ?thesis using pays_zero [OF z read_complete_pays [of rq opc p "fst ev" "snd ev" s1]] a(2) w(1) Some paysD(1) [OF z]
      by (simp split: prod.splits)
  qed
qed (use assms(2) pays_error in auto)

lemma reads_pay: "read_cb rq opc pdu s = Some s' \<Longrightarrow> srv_ok s \<Longrightarrow> pays {#rq#} s s'" "read_blob_cb rq opc pdu s = Some s' \<Longrightarrow> srv_ok s \<Longrightarrow> pays {#rq#} s s'"
  by (auto simp: read_cb_def read_blob_cb_def intro!: pays_error dest: handle_read_pays split: if_splits)

lemma read_multiple_value_pays:
  assumes "read_multiple_value d p err v s = Some (d', s')" and "srv_ok s" and "fits (att_mtu s) (rm_rsp_data d)"
  shows "d' = None \<Longrightarrow> pays {#rm_rq d#} s s'" and "d' = Some d1 \<Longrightarrow> s' = s \<and> rm_rq d1 = rm_rq d \<and> fits (att_mtu s) (rm_rsp_data d1)"
  using assms ok_alive [OF assms(2)] unfolding read_multiple_value_def Let_def
  by (auto simp: fits_def min_def intro!: pays_error pays_rsp dest!: buf_put_length split: bind_splits if_splits)

declare read_multiple_from.simps [simp del]

lemma read_multiple_from_pays:
  "read_multiple_from hs d p err v s = Some s' \<Longrightarrow> srv_ok s \<Longrightarrow> fits (att_mtu s) (rm_rsp_data d) \<Longrightarrow> pays {#rm_rq d#} s s'"
proof (induction hs arbitrary: d p err v s)
  case Nil
  then show ?case using read_multiple_value_pays(1)
    by (fastforce simp: read_multiple_from.simps split: bind_splits option.splits)
next
  case (Cons h hs)
  obtain d' s1 where v: "read_multiple_value d p err v s = Some (d', s1)" using Cons.prems(1)
    by (cases "read_multiple_value d p err v s") (auto simp: read_multiple_from.simps)
  note w = read_multiple_value_pays [OF v Cons.prems(2,3)]
  show ?case
  proof (cases d')
    case None
    then show ?thesis using w(1) v Cons.prems(1) by (simp add: read_multiple_from.simps)
  next
    case (Some d1)
    then have d1: "s1 = s" "rm_rq d1 = rm_rq d" "fits (att_mtu s) (rm_rsp_data d1)" using w(2) by auto
    show ?thesis
    proof (cases "gatt_db_get_attribute h (sdb s)")
      case None
      then show ?thesis using Cons.prems(1,2) v Some d1 by (auto simp: read_multiple_from.simps intro!: pays_error)
    next
      case q: (Some q)
      obtain ok r s2 where a: "attribute_read q 0 OP_READ_MULT_REQ (On_read_multiple d1) s = Some (ok, r, s2)"
        using Cons.prems(1) v Some d1(1) q by (cases "attribute_read q 0 OP_READ_MULT_REQ (On_read_multiple d1) s") (auto simp: read_multiple_from.simps [of "h # hs"])
      note t = attribute_read_pays [OF a Cons.prems(2)]
      have e: "(case r of None \<Rightarrow> Some s2 | Some (err, v) \<Rightarrow> read_multiple_from hs d1 q err v s2) = Some s'"
        using Cons.prems(1) v Some d1(1) q a t(1) by (simp add: read_multiple_from.simps [of "h # hs"])
      show ?thesis
      proof (cases r)
        case None
        then show ?thesis using e t(3) d1 by (simp add: cb_ok_def tok_def)
      next
        case (Some ev)
        then have z: "pays {#} s s2" using t(2) by simp
        have "pays {#rm_rq d1#} s2 s'" using Cons.IH [of d1 q "fst ev" "snd ev" s2] e Some paysD [OF z] d1(3) by (simp split: prod.splits)
        then show ?thesis using pays_zero [OF z] d1(2) by simp
      qed
    qed
  qed
qed

lemma read_multiple_pays:
  assumes "read_multiple_cb rq opc pdu s = Some s'" and "srv_ok s"
  shows "pays {#rq#} s s'"
proof (cases "\<exists>e. s' = srv_say (Send_error_rsp rq opc 0 e) s")
  case False
  let ?d = "read_mult_data_new rq opc (le16s pdu) s"
  obtain p ok r s1 where a: "attribute_read p 0 opc (On_read_multiple ?d) s = Some (ok, r, s1)"
    "ok \<Longrightarrow> (case r of None \<Rightarrow> Some s1 | Some (err, v) \<Rightarrow> read_multiple_complete_cb ?d p err v s1) = Some s'"
    using assms(1) False unfolding read_multiple_cb_def Let_def by (auto split: if_splits option.splits bind_splits)
  have d: "rm_rq ?d = rq" "fits (att_mtu s) (rm_rsp_data ?d)" using assms(2) by (auto simp: read_mult_data_new_def fits_def srv_ok_def)
  note w = attribute_read_pays [OF a(1) assms(2)]
  show ?thesis
  proof (cases r)
    case None
    then show ?thesis using w(1,3) a(2) d by (simp add: cb_ok_def tok_def)
  next
    case (Some ev)
    then have z: "pays {#} s s1" using w(2) by simp
    have "read_multiple_complete_cb ?d p (fst ev) (snd ev) s1 = Some s'" using a(2) w(1) Some by (simp split: prod.splits)
    then have "pays {#rq#} s1 s'" using read_multiple_from_pays [of _ ?d p "fst ev" "snd ev" s1] d paysD [OF z] by (simp add: read_multiple_complete_cb_def)
    then show ?thesis by (rule pays_zero [OF z])
  qed
qed (use assms(2) pays_error in auto)

text \<open>Prepared writes.\<close>

lemma store_prep_facts: "store_prep_data h off v s = Some s' \<Longrightarrow> \<exists>q. s' = s\<lparr>prep_queue := q\<rparr>"
  by (auto simp: store_prep_data_def prep_data_new_def split: if_splits bind_splits)

lemma prep_complete_pays:
  assumes "prep_write_complete_cb rq pdu err s = Some s'" and "srv_ok s" and "fits (att_mtu s) pdu"
  shows "pays {#rq#} s s'"
proof (cases "err \<noteq> 0")
  case False
  then obtain q where "s' = srv_say (Send_rsp rq 0x17 (map Some pdu)) (s\<lparr>prep_queue := q\<rparr>)"
    using assms(1) ok_alive [OF assms(2)] store_prep_facts by (fastforce simp: prep_write_complete_cb_def split: bind_splits)
  moreover have "pays {#rq#} (s\<lparr>prep_queue := q\<rparr>) (srv_say (Send_rsp rq 0x17 (map Some pdu)) (s\<lparr>prep_queue := q\<rparr>))"
    using assms by (intro pays_rsp) (simp_all add: fits_def)
  ultimately show ?thesis by simp
qed (use assms pays_error in \<open>auto simp: prep_write_complete_cb_def\<close>)

lemma prep_write_pays:
  assumes "prep_write_cb rq opc pdu s = Some s'" and "srv_ok s" and "fits (att_mtu s) pdu"
  shows "pays {#rq#} s s'"
proof (cases "\<exists>h e. s' = srv_say (Send_error_rsp rq opc h e) s")
  case False
  then obtain p off ok r s1 where a: "attribute_write p off [] OP_PREP_WRITE_REQ (On_prep_write rq pdu) s = Some (ok, r, s1)"
    "ok \<Longrightarrow> (case r of None \<Rightarrow> Some s1 | Some err \<Rightarrow> prep_write_complete_cb rq pdu err s1) = Some s'"
    using assms(1) unfolding prep_write_cb_def Let_def by (auto split: if_splits option.splits bind_splits)
  note w = attribute_write_pays [OF a(1) assms(2)]
  show ?thesis
  proof (cases r)
    case None
    then show ?thesis using w(1,3) a(2) assms(3) by (simp add: cb_ok_def tok_def)
  next
    case (Some err)
    then have z: "pays {#} s s1" using w(2) by simp
    show ?thesis using pays_zero [OF z prep_complete_pays [of rq pdu err s1]] a(2) w(1) Some paysD [OF z] assms(3) by simp
  qed
qed (use assms(2) pays_error in auto)

lemma exec_prep_pays: "exec_prep_writes q rq eh err s = Some s' \<Longrightarrow> srv_ok s \<Longrightarrow> pays {#rq#} s s'"
proof (induction q arbitrary: eh err s)
  case Nil
  have "pays {#rq#} (s\<lparr>prep_queue := []\<rparr>) s'" using Nil by (auto intro!: pays_error pays_rsp simp: fits_def srv_ok_def simp del: pays_updates)
  then show ?case by simp
next
  case (Cons d q)
  have f: "pays {#rq#} s (srv_say (Send_error_rsp rq opc h e) (s\<lparr>prep_queue := []\<rparr>))" for opc h e
    using pays_error [of "s\<lparr>prep_queue := []\<rparr>"] Cons.prems(2) by simp
  show ?case
  proof (cases "\<exists>h e. s' = srv_say (Send_error_rsp rq OP_EXEC_WRITE_REQ h e) (s\<lparr>prep_queue := []\<rparr>)")
    case False
    then obtain p h ok r s1 where a: "attribute_write p (pw_offset d) (pw_value d) OP_EXEC_WRITE_REQ (On_exec_write rq) (s\<lparr>prep_queue := q\<rparr>) = Some (ok, r, s1)"
      "ok \<Longrightarrow> (case r of None \<Rightarrow> Some s1 | Some err \<Rightarrow> exec_prep_writes q rq h err s1) = Some s'"
      using Cons.prems(1) by (auto split: if_splits option.splits bind_splits)
    have o: "srv_ok (s\<lparr>prep_queue := q\<rparr>)" using Cons.prems(2) by simp
    note w = attribute_write_pays [OF a(1) o]
    show ?thesis
    proof (cases r)
      case None
      then show ?thesis using w(1,3) a(2) by (simp add: cb_ok_def tok_def)
    next
      case (Some e)
      then have z: "pays {#} s s1" using w(2) by simp
      show ?thesis using pays_zero [OF z Cons.IH [of h e s1]] a(2) w(1) Some paysD(1) [OF z] by simp
    qed
  qed (use f in auto)
qed

lemma exec_write_pays: "exec_write_cb rq opc pdu s = Some s' \<Longrightarrow> srv_ok s \<Longrightarrow> pays {#rq#} s s'"
proof -
  assume a: "exec_write_cb rq opc pdu s = Some s'" "srv_ok s"
  have o: "srv_ok (s\<lparr>prep_queue := []\<rparr>)" using a(2) by simp
  have f: "pays {#rq#} s (srv_say (Send_error_rsp rq opc h e) (s\<lparr>prep_queue := []\<rparr>))" "pays {#rq#} s (srv_say (Send_rsp rq 0x19 []) (s\<lparr>prep_queue := []\<rparr>))" for h e
    using pays_error [OF o] pays_rsp [OF o, of "[]"] a(2) by (auto simp: fits_def srv_ok_def)
  show ?thesis using a f by (auto simp: exec_write_cb_def exec_next_prep_write_def intro: exec_prep_pays split: if_splits option.splits)
qed

subsection \<open>Requests and callbacks\<close>

lemma fits_mono: "fits m b \<Longrightarrow> m \<le> m' \<Longrightarrow> fits m' b"
  by (simp add: fits_def word_le_nat_alt)

lemma ok_mono:
  assumes "m \<le> m'"
  shows "cb_ok m cb \<Longrightarrow> cb_ok m' cb" and "out_ok m x \<Longrightarrow> out_ok m' x"
proof -
  have "unat m \<le> unat m'" using assms by (simp add: word_le_nat_alt)
  then show "cb_ok m cb \<Longrightarrow> cb_ok m' cb" by (auto simp: cb_ok_def intro: fits_mono [OF _ assms] split: srv_cb.splits)
  show "out_ok m x \<Longrightarrow> out_ok m' x" by (auto simp: out_ok_def intro: fits_mono [OF _ assms] split: srv_out.splits)
qed

text \<open>A larger MTU keeps the invariant.\<close>

lemma mtu_ok:
  assumes "srv_ok s" and "att_mtu s \<le> m"
  shows "srv_ok (s\<lparr>srv_mtu := a, chan_mtu := b, att_mtu := m\<rparr>)" "owed (s\<lparr>srv_mtu := a, chan_mtu := b, att_mtu := m\<rparr>) = owed s"
proof -
  have "23 \<le> unat m" using assms by (simp add: srv_ok_def word_le_nat_alt)
  then show "srv_ok (s\<lparr>srv_mtu := a, chan_mtu := b, att_mtu := m\<rparr>)" using assms by (auto simp: srv_ok_def intro: ok_mono fits_mono)
  show "owed (s\<lparr>srv_mtu := a, chan_mtu := b, att_mtu := m\<rparr>) = owed s" by (simp add: owed_def pending_rqs_def answered_rqs_def)
qed

lemma exchange_mtu_pays:
  assumes "exchange_mtu_cb rq opc pdu s = Some s'" and "srv_ok s"
  shows "srv_ok s' \<and> owed s' = {#rq#} + owed s \<and> rq_count s' = rq_count s"
proof (cases "length pdu = 2")
  case True
  let ?s = "srv_say (Send_rsp rq 0x03 (map Some (put_le16 (srv_mtu s)))) s"
  have p: "pays {#rq#} s ?s" using assms(2) by (intro pays_rsp) (auto simp: fits_def srv_ok_def)
  obtain a b where "s' = ?s\<lparr>srv_mtu := a, chan_mtu := b, att_mtu := max a (att_mtu ?s)\<rparr>" using assms(1) True by (auto simp: exchange_mtu_cb_def Let_def)
  moreover have "srv_ok (?s\<lparr>srv_mtu := a, chan_mtu := b, att_mtu := max a (att_mtu ?s)\<rparr>)" "owed (?s\<lparr>srv_mtu := a, chan_mtu := b, att_mtu := max a (att_mtu ?s)\<rparr>) = owed ?s"
    by (rule mtu_ok [OF paysD(1) [OF p] max.cobounded2])+
  ultimately show ?thesis using p by (simp add: pays_def)
next
  case False
  then have "pays {#rq#} s s'" using assms pays_error by (auto simp: exchange_mtu_cb_def)
  then show ?thesis by (simp add: pays_def)
qed

lemma request_pays:
  assumes "srv_request opc pdu s = Some s'" and "srv_ok s" and "fits (att_mtu s) pdu"
  shows "srv_ok s' \<and> owed s' = tok (On_write (rq_count s) opc) + owed s \<and> rq_count s' = rq_count s + 1"
proof -
  let ?s = "s\<lparr>rq_count := rq_count s + 1\<rparr>"
  obtain h where h: "srv_handler opc = Some h" "h (rq_count s) opc pdu ?s = Some s'"
    using assms(1) by (auto simp: srv_request_def split: bind_splits if_splits)
  have o: "srv_ok ?s" "fits (att_mtu ?s) pdu" using assms(2,3) by simp_all
  have w: "owed ?s = owed s" by (simp add: owed_def pending_rqs_def answered_rqs_def)
  show ?thesis
  proof (cases "opc = OP_MTU_REQ")
    case True
    then show ?thesis using exchange_mtu_pays [of _ _ _ ?s] h o w by (simp add: srv_handler_def tok_def)
  next
    case False
    have "pays (tok (On_write (rq_count s) opc)) ?s s'"
    proof (cases "opc = OP_WRITE_REQ \<or> opc = OP_WRITE_CMD")
      case True
      then have "h = write_cb" using h(1) by (auto simp: srv_handler_def)
      then show ?thesis using write_pays [OF _ o(1)] h(2) by blast
    next
      case False
      then have "tok (On_write (rq_count s) opc) = {#rq_count s#}" by (simp add: tok_def)
      then show ?thesis
      using h o False \<open>opc \<noteq> OP_MTU_REQ\<close> read_by_grp_type_pays [OF _ o(1)] read_by_type_pays [OF _ o(1)] find_info_pays [OF _ o(1)] find_by_type_val_pays [OF _ o(1)]
        reads_pay [OF _ o(1)] read_multiple_pays [OF _ o(1)] prep_write_pays [OF _ o] exec_write_pays [OF _ o(1)]
      unfolding srv_handler_def by (auto split: if_splits)
    qed
    then show ?thesis using w by (simp add: pays_def)
  qed
qed

definition toks :: "srv_cb multiset \<Rightarrow> nat multiset" where
  "toks M = sum_mset (image_mset tok M)"

lemma toks_simps [simp]: "toks {#} = {#}" "toks (add_mset c M) = tok c + toks M" "toks (M + N) = toks M + toks N"
  by (simp_all add: toks_def)

lemma callback_pays:
  assumes "srv_callback x s = Some s'" and "srv_ok s" and "\<forall>cb \<in># done_cbs [x]. cb_ok (att_mtu s) cb"
  shows "pays (toks (done_cbs [x])) s s'"
proof (cases x)
  case (Read_done n cb p err v)
  then show ?thesis using assms read_by_type_complete_pays [OF _ assms(2)] read_complete_pays [OF _ assms(2)] read_multiple_from_pays [OF _ assms(2)] pays_refl
    by (auto simp: srv_callback_def tok_def cb_ok_def read_multiple_complete_cb_def split: srv_cb.splits)
next
  case (Write_done n cb p err)
  have t: "tok (On_prep_write rq pdu) = {#rq#}" "tok (On_exec_write rq) = {#rq#}" "tok (App_cb u) = {#}" for rq pdu u by (simp_all add: tok_def)
  show ?thesis using Write_done assms write_complete_pays [OF _ assms(2)] prep_complete_pays [OF _ assms(2)] exec_prep_pays [OF _ assms(2)] pays_refl
    by (auto simp: srv_callback_def t cb_ok_def exec_write_complete_cb_def exec_next_prep_write_def split: srv_cb.splits bind_splits if_splits)
qed (use assms pays_refl in \<open>auto simp: srv_callback_def\<close>)

lemma callbacks_pay:
  "srv_callbacks xs s = Some s' \<Longrightarrow> srv_ok s \<Longrightarrow> \<forall>cb \<in># done_cbs xs. cb_ok (att_mtu s) cb \<Longrightarrow> pays (toks (done_cbs xs)) s s'"
proof (induction xs arbitrary: s)
  case (Cons x xs)
  obtain s1 where s1: "srv_callback x s = Some s1" "srv_callbacks xs s1 = Some s'" using Cons.prems(1) by (auto split: bind_splits)
  have c: "done_cbs (x # xs) = done_cbs [x] + done_cbs xs" by simp
  have p: "pays (toks (done_cbs [x])) s s1" using Cons.prems(2,3) unfolding c by (intro callback_pays [OF s1(1)]) auto
  have "pays (toks (done_cbs xs)) s1 s'" using Cons.IH [OF s1(2)] Cons.prems(3) paysD [OF p] unfolding c by auto
  from pays_trans [OF p this] show ?case unfolding c toks_simps .
qed (simp add: pays_refl)

text \<open>The database answers pending requests, and their callbacks run.\<close>

lemma answers_pay:
  assumes "srv_ok s" and "db_inv db" and "db_cbs db + done_cbs (db_news (sdb s) db) = db_cbs (sdb s)"
    and "srv_callbacks (db_news (sdb s) db) (s\<lparr>sdb := db\<rparr>) = Some s'"
  shows "pays {#} s s'"
proof -
  let ?s = "s\<lparr>sdb := db\<rparr>" and ?D = "done_cbs (db_news (sdb s) db)"
  have c: "\<forall>cb \<in># ?D. cb_ok (att_mtu s) cb" "\<forall>cb \<in># db_cbs db. cb_ok (att_mtu s) cb"
    using assms(1) unfolding srv_ok_def assms(3) [symmetric] by auto
  have o: "srv_ok ?s" using assms(1,2) c(2) by (auto simp: srv_ok_def)
  have "toks (db_cbs db) + toks ?D = toks (db_cbs (sdb s))" unfolding assms(3) [symmetric] by simp
  then have "owed s = toks ?D + owed ?s" by (simp add: owed_def pending_rqs_def answered_rqs_def toks_def [symmetric] ac_simps)
  then show ?thesis using callbacks_pay [OF assms(4) o] c(1) by (simp add: pays_def)
qed

end
