(* ===== verification/Gatt_Server_Correct.thy ===== *)
theory Gatt_Server_Correct
  imports Gatt_Server_Invariant
begin

text \<open>
  What the GATT server guarantees in every run: the accounting of requests and the size of responses; permissions; long
  writes; and where it fails: a long write whose length wraps, reading several long values, a server freed with an
  operation pending, and permissions nobody asks for.
\<close>

subsection \<open>Runs\<close>


lemma destroy_sdb [simp]: "sdb (async_read_op_destroy s) = sdb s" "sdb (async_write_op_destroy s) = sdb s" "sdb (srv_say x s) = sdb s"
  by (simp_all add: async_read_op_destroy_def async_write_op_destroy_def srv_say_def)


















definition demo_server_calls :: "srv_cb db_api list" where
  "demo_server_calls = [Insert_service 0 (BT_UUID16 0x1800) True 6, Service_insert_characteristic (0, 0) 0 (BT_UUID16 0x2A00) 3 0x0A None None,
     Service_insert_characteristic (0, 0) 0 (BT_UUID16 0x2A01) 1 2 (Some (App_cb 5)) None, Set_active (0, 0) True]"

definition demo_db :: "srv_cb gatt_db" where
  "demo_db = the (db_execs demo_server_calls (gatt_db_new None))"


lemma demo_db_inv: "db_inv demo_db"
proof -
  have "db_execs demo_server_calls (gatt_db_new None) \<noteq> None" by code_simp
  then obtain db where d: "db_execs demo_server_calls (gatt_db_new None) = Some db" by blast
  have "\<forall>c \<in> set demo_server_calls. call_uuid_ok c" by (simp add: demo_server_calls_def call_uuid_ok_def uuid_ok_def)
  then show ?thesis using db_execs_inv [OF d _ db_new_inv] by (simp add: demo_db_def d)
qed



subsection \<open>Long writes\<close>

text \<open>An attribute a client may write, whose value the database stores.\<close>

definition writable :: "u16 \<Rightarrow> aptr \<Rightarrow> srv_cb gatt_db_attribute \<Rightarrow> gatt_server \<Rightarrow> bool" where
  "writable h p a s \<longleftrightarrow> alive s \<and> gatt_db_get_attribute h (sdb s) = Some p \<and> get_attr p (sdb s) = Some a \<and> write_func a = None
     \<and> check_permissions (permissions a) WRITE_MASK s = 0"

primrec prep_requests :: "u16 \<Rightarrow> u16 \<Rightarrow> byte list list \<Rightarrow> srv_event list" where
  "prep_requests h off [] = []"
| "prep_requests h off (c # cs) = Request OP_PREP_WRITE_REQ (put_le16 h @ put_le16 off @ c) # prep_requests h (off + word_of_nat (length c)) cs"

text \<open>The responses repeat the requests.\<close>

primrec prep_echoes :: "nat \<Rightarrow> u16 \<Rightarrow> u16 \<Rightarrow> byte list list \<Rightarrow> srv_out list" where
  "prep_echoes n h off [] = []"
| "prep_echoes n h off (c # cs) = Send_rsp n 0x17 (map Some (put_le16 h @ put_le16 off @ c)) # prep_echoes (n + 1) h (off + word_of_nat (length c)) cs"

lemma get_attribute_cong: "services db' = services db \<Longrightarrow> gatt_db_get_attribute h db' = gatt_db_get_attribute h db"
  by (simp add: gatt_db_get_attribute_def)

lemma get_attr_cong: "services db' = services db \<Longrightarrow> get_attr p db' = get_attr p db"
  by (simp add: get_attr_def get_svc_def)

lemma get_pdu: "get_le16 (put_le16 h @ xs) = h" "drop 2 (put_le16 h @ xs) = xs" "drop 4 (put_le16 h @ put_le16 off @ xs) = xs"
  by (simp_all add: get_put_le16)

text \<open>What a prepared write leaves: the same services, one more request, and a queue that \<^verbatim>\<open>store_prep_data\<close> made.\<close>

definition prep_done :: "prep_write_data list \<Rightarrow> srv_out list \<Rightarrow> gatt_server \<Rightarrow> gatt_server \<Rightarrow> bool" where
  "prep_done q out s s' \<longleftrightarrow> services (sdb s') = services (sdb s) \<and> sv_brk (sdb s') = sv_brk (sdb s) \<and> prep_queue s' = q \<and> srv_log s' = srv_log s @ out \<and> rq_count s' = rq_count s + length out
     \<and> alive s' = alive s \<and> att_security s' = att_security s \<and> min_enc_size s' = min_enc_size s \<and> max_prep_queue_len s' = max_prep_queue_len s"

lemma writable_kept: "writable h p a s \<Longrightarrow> prep_done q out s s' \<Longrightarrow> writable h p a s'"
  by (simp add: writable_def prep_done_def get_attribute_cong [of "sdb s'" "sdb s"] get_attr_cong [of "sdb s'" "sdb s"] check_permissions_def)

lemma reliable_cong:
  assumes "services db' = services db"
  shows "is_reliable_write_supported h db' = is_reliable_write_supported h db"
proof -
  have g: "get_svc k db' = get_svc k db" "get_attr q db' = get_attr q db" "gatt_db_get_attribute h db' = gatt_db_get_attribute h db" for k q
    using assms by (simp_all add: get_svc_def get_attr_def gatt_db_get_attribute_def)
  have e: "get_char_extended_prop q db' = get_char_extended_prop q db" for q unfolding get_char_extended_prop_def gatt_db_service_foreach_desc_def g ..
  show ?thesis unfolding is_reliable_write_supported_def gatt_db_attribute_get_char_data_def g e ..
qed

lemma store_prep_cong:
  assumes "services (sdb s1) = services (sdb s)" and "prep_queue s1 = prep_queue s"
  shows "store_prep_data h off c s1 = map_option (\<lambda>s'. s1\<lparr>prep_queue := prep_queue s'\<rparr>) (store_prep_data h off c s)"
  using assms(2) unfolding store_prep_data_def prep_data_new_def reliable_cong [OF assms(1)] by (auto split: bind_splits)

text \<open>A prepared write of a writable attribute: the database is asked, and the bytes are queued or the queue is not safe.\<close>

lemma prep_write_eq:
  assumes "writable h p a s" and "length (prep_queue s) < max_prep_queue_len s"
  shows "\<exists>s1. srv_request OP_PREP_WRITE_REQ (put_le16 h @ put_le16 off @ c) s
      = prep_write_complete_cb (rq_count s) (put_le16 h @ put_le16 off @ c) 0 s1 \<and> prep_done (prep_queue s) [] s (s1\<lparr>rq_count := rq_count s\<rparr>) \<and> rq_count s1 = rq_count s + 1"
proof -
  let ?pdu = "put_le16 h @ put_le16 off @ c" and ?s = "s\<lparr>rq_count := rq_count s + 1\<rparr>" and ?cb = "On_prep_write (rq_count s) (put_le16 h @ put_le16 off @ c)"
  let ?db = "db_say [Write_done (rq_brk (sdb s)) ?cb p 0] ((sdb s)\<lparr>rq_brk := rq_brk (sdb s) + 1\<rparr>)"
  have w: "attribute_write p off [] OP_PREP_WRITE_REQ ?cb ?s = Some (True, Some 0, ?s\<lparr>sdb := ?db\<rparr>)"
    using assms(1) by (simp add: attribute_write_def gatt_db_attribute_write_def writable_def Let_def)
  have "prep_write_cb (rq_count s) OP_PREP_WRITE_REQ ?pdu ?s = prep_write_complete_cb (rq_count s) ?pdu 0 (?s\<lparr>sdb := ?db\<rparr>)"
    using assms w by (simp add: prep_write_cb_def Let_def get_pdu writable_def check_permissions_def)
  moreover have "srv_request OP_PREP_WRITE_REQ ?pdu s = prep_write_cb (rq_count s) OP_PREP_WRITE_REQ ?pdu ?s"
    using assms(1) by (simp add: srv_request_def srv_handler_def writable_def)
  ultimately have "srv_request OP_PREP_WRITE_REQ ?pdu s = prep_write_complete_cb (rq_count s) ?pdu 0 (?s\<lparr>sdb := ?db\<rparr>)" by simp
  then show ?thesis by (intro exI [of _ "?s\<lparr>sdb := ?db\<rparr>"]) (simp add: prep_done_def)
qed

lemma prep_step:
  assumes "writable h p a s" and "length (prep_queue s) < max_prep_queue_len s" and "store_prep_data h off c s = Some (s\<lparr>prep_queue := q\<rparr>)"
  shows "\<exists>s'. srv_request OP_PREP_WRITE_REQ (put_le16 h @ put_le16 off @ c) s = Some s'
    \<and> prep_done q [Send_rsp (rq_count s) 0x17 (map Some (put_le16 h @ put_le16 off @ c))] s s'"
proof -
  let ?pdu = "put_le16 h @ put_le16 off @ c"
  obtain s1 where s1: "srv_request OP_PREP_WRITE_REQ ?pdu s = prep_write_complete_cb (rq_count s) ?pdu 0 s1"
    "prep_done (prep_queue s) [] s (s1\<lparr>rq_count := rq_count s\<rparr>)" "rq_count s1 = rq_count s + 1" using prep_write_eq [OF assms(1,2)] by blast
  have k: "services (sdb s1) = services (sdb s)" "prep_queue s1 = prep_queue s" "alive s1" using s1(2) assms(1) by (auto simp: prep_done_def writable_def)
  have "prep_write_complete_cb (rq_count s) ?pdu 0 s1 = Some (srv_say (Send_rsp (rq_count s) 0x17 (map Some ?pdu)) (s1\<lparr>prep_queue := q\<rparr>))"
    using k(3) store_prep_cong [OF k(1,2), of h off c] assms(3) by (simp add: prep_write_complete_cb_def get_pdu)
  then show ?thesis using s1 by (simp add: prep_done_def srv_say_def)
qed

lemma prep_overflows:
  assumes "writable h p a s" and "length (prep_queue s) < max_prep_queue_len s" and "store_prep_data h off c s = None"
  shows "srv_request OP_PREP_WRITE_REQ (put_le16 h @ put_le16 off @ c) s = None"
proof -
  let ?pdu = "put_le16 h @ put_le16 off @ c"
  obtain s1 where s1: "srv_request OP_PREP_WRITE_REQ ?pdu s = prep_write_complete_cb (rq_count s) ?pdu 0 s1"
    "prep_done (prep_queue s) [] s (s1\<lparr>rq_count := rq_count s\<rparr>)" using prep_write_eq [OF assms(1,2)] by blast
  have k: "services (sdb s1) = services (sdb s)" "prep_queue s1 = prep_queue s" using s1(2) by (auto simp: prep_done_def)
  show ?thesis using store_prep_cong [OF k, of h off c] assms(3) s1(1) by (simp add: prep_write_complete_cb_def get_pdu)
qed

text \<open>A queued piece of a long write, and what the next piece makes of it.\<close>

definition seg :: "u16 \<Rightarrow> u16 \<Rightarrow> byte list \<Rightarrow> bool \<Rightarrow> prep_write_data" where
  "seg h off v rel = \<lparr>pw_value = v, pw_handle = h, pw_offset = off, pw_length = word_of_nat (length v), reliable_supported = rel\<rparr>"

lemma unat_len: "n < 2 ^ 16 \<Longrightarrow> unat (word_of_nat n :: u16) = n"
  unfolding unat_of_nat take_bit_nat_def by simp

lemma append_seg:
  assumes "length v < 2 ^ 16"
  shows "append_prep_data c (seg h off v rel) = (if length v + length c < 2 ^ 16 then Some (seg h off (v @ c) rel) else None)"
proof (cases "length v + length c < 2 ^ 16")
  case True
  have "unat (word_of_nat (length v + length c) :: u16) = length v + length c" by (rule unat_len [OF True])
  then show ?thesis using True unat_len [OF assms] by (auto simp: append_prep_data_def seg_def Let_def)
next
  case False
  have "(length v + length c) mod 2 ^ 16 < 2 ^ 16" by simp
  then have "unat (word_of_nat (length v + length c) :: u16) < length v + length c" using False unfolding unat_of_nat take_bit_nat_def by simp
  then show ?thesis using False unat_len [OF assms] assms by (auto simp: append_prep_data_def seg_def Let_def)
qed

lemma store_first:
  assumes "prep_queue s = []" and "is_reliable_write_supported (h - 1) (sdb s) = Some rel" and "length c < 2 ^ 16"
  shows "store_prep_data h off c s = Some (s\<lparr>prep_queue := [seg h off c rel]\<rparr>)"
proof -
  have "append_prep_data c (seg h off [] False) = Some (seg h off c False)" using append_seg [of "[]" c] assms(3) by simp
  then show ?thesis using assms(1,2) by (simp add: store_prep_data_def prep_data_new_def seg_def)
qed

lemma store_next:
  assumes "prep_queue s = [seg h off v rel]" and "unat off + length v < 2 ^ 16"
  shows "store_prep_data h (off + word_of_nat (length v)) c s = (if length v + length c < 2 ^ 16 then Some (s\<lparr>prep_queue := [seg h off (v @ c) rel]\<rparr>) else None)"
proof -
  have l: "length v < 2 ^ 16" using assms(2) by simp
  have "off + word_of_nat (length v) = word_of_nat (unat off + length v)" by simp
  then have "unat (off + word_of_nat (length v)) = unat off + length v" using unat_len [OF assms(2)] by simp
  then have "int (unat (off + word_of_nat (length v))) = int (unat (word_of_nat (length v) :: u16)) + int (unat off)" using unat_len [OF l] by simp
  then have "uint (off + word_of_nat (length v)) = uint (pw_length (seg h off v rel)) + uint off" by (simp add: seg_def)
  then show ?thesis using assms(1) append_seg [OF l, of c h off rel] by (simp add: store_prep_data_def seg_def)
qed

lemma prep_done_trans:
  "prep_done q out s s1 \<Longrightarrow> prep_done q' out' s1 s' \<Longrightarrow> prep_done q' (out @ out') s s'"
  by (simp add: prep_done_def)

lemma preps:
  "writable h p a s \<Longrightarrow> 1 < max_prep_queue_len s \<Longrightarrow> prep_queue s = [seg h off v rel] \<Longrightarrow> unat off + length v + length (concat cs) < 2 ^ 16
     \<Longrightarrow> \<exists>s'. srv_execs (prep_requests h (off + word_of_nat (length v)) cs) s = Some s'
       \<and> prep_done [seg h off (v @ concat cs) rel] (prep_echoes (rq_count s) h (off + word_of_nat (length v)) cs) s s'"
proof (induction cs arbitrary: s v)
  case (Cons c cs)
  have st: "store_prep_data h (off + word_of_nat (length v)) c s = Some (s\<lparr>prep_queue := [seg h off (v @ c) rel]\<rparr>)"
    using store_next [OF Cons.prems(3), of c] Cons.prems(4) by simp
  obtain s1 where s1: "srv_request OP_PREP_WRITE_REQ (put_le16 h @ put_le16 (off + word_of_nat (length v)) @ c) s = Some s1"
    "prep_done [seg h off (v @ c) rel] [Send_rsp (rq_count s) 0x17 (map Some (put_le16 h @ put_le16 (off + word_of_nat (length v)) @ c))] s s1"
    using prep_step [OF Cons.prems(1) _ st] Cons.prems(2,3) by auto
  have n: "prep_queue s1 = [seg h off (v @ c) rel]" "rq_count s1 = rq_count s + 1" "1 < max_prep_queue_len s1" using s1(2) Cons.prems(2) by (simp_all add: prep_done_def)
  have w: "off + word_of_nat (length (v @ c)) = off + word_of_nat (length v) + word_of_nat (length c)" by simp
  obtain s' where s': "srv_execs (prep_requests h (off + word_of_nat (length (v @ c))) cs) s1 = Some s'"
    "prep_done [seg h off ((v @ c) @ concat cs) rel] (prep_echoes (rq_count s1) h (off + word_of_nat (length (v @ c))) cs) s1 s'"
    using Cons.IH [OF writable_kept [OF Cons.prems(1) s1(2)] n(3,1)] Cons.prems(4) by auto
  show ?case
    using s'(1) s1(1) prep_done_trans [OF s1(2) s'(2)] unfolding w n(2) by (intro exI [of _ s']) (simp add: srv_exec_def)
qed (simp add: prep_done_def)

lemma first_preps:
  assumes "writable h p a s" and "1 < max_prep_queue_len s" and "prep_queue s = []" and "is_reliable_write_supported (h - 1) (sdb s) = Some rel"
    and "cs \<noteq> []" and "unat off + length (concat cs) < 2 ^ 16"
  shows "\<exists>s'. srv_execs (prep_requests h off cs) s = Some s' \<and> prep_done [seg h off (concat cs) rel] (prep_echoes (rq_count s) h off cs) s s'"
proof -
  obtain c ds where cs: "cs = c # ds" using assms(5) by (cases cs) auto
  have st: "store_prep_data h off c s = Some (s\<lparr>prep_queue := [seg h off c rel]\<rparr>)" using assms(6) cs by (intro store_first assms) simp
  obtain s1 where s1: "srv_request OP_PREP_WRITE_REQ (put_le16 h @ put_le16 off @ c) s = Some s1"
    "prep_done [seg h off c rel] [Send_rsp (rq_count s) 0x17 (map Some (put_le16 h @ put_le16 off @ c))] s s1"
    using prep_step [OF assms(1) _ st] assms(2,3) by auto
  have n: "prep_queue s1 = [seg h off c rel]" "rq_count s1 = rq_count s + 1" "1 < max_prep_queue_len s1" using s1(2) assms(2) by (simp_all add: prep_done_def)
  obtain s' where s': "srv_execs (prep_requests h (off + word_of_nat (length c)) ds) s1 = Some s'"
    "prep_done [seg h off (c @ concat ds) rel] (prep_echoes (rq_count s1) h (off + word_of_nat (length c)) ds) s1 s'"
    using preps [OF writable_kept [OF assms(1) s1(2)] n(3,1), of ds] assms(6) cs by auto
  show ?thesis using s'(1) s1(1) prep_done_trans [OF s1(2) s'(2)] unfolding n(2) cs by (intro exI [of _ s']) (simp add: srv_exec_def)
qed

text \<open>Executing the queue: the bytes are stored as one write would store them.\<close>

lemma exec_one:
  assumes "writable h p a s" and "shape_ok (sdb s)" and "prep_queue s = [seg h off v rel]"
  shows "\<exists>s'. srv_request OP_EXEC_WRITE_REQ [1] s = Some s' \<and> get_attr p (sdb s') = Some (if v = [] then a else store_value off v a)
    \<and> prep_queue s' = [] \<and> srv_log s' = srv_log s @ [Send_rsp (rq_count s) 0x19 []]"
proof -
  let ?d = "(sdb s)\<lparr>rq_brk := rq_brk (sdb s) + 1\<rparr>" and ?b = "if v = [] then a else store_value off v a"
    and ?s = "s\<lparr>rq_count := rq_count s + 1, prep_queue := []\<rparr>" and ?cb = "On_exec_write (rq_count s)"
  have w: "alive s" "gatt_db_get_attribute h (sdb s) = Some p" "get_attr p (sdb s) = Some a" "write_func a = None" using assms(1) by (auto simp: writable_def)
  obtain u where u: "put_attr p ?b ?d = Some u" "get_attr p u = Some ?b" "db_log u = db_log (sdb s)"
    using get_put_attr [of ?d p a ?b] assms(2) w(3) by auto
  have same: "put_attr p a ?d = Some ?d" using same_attr [of p ?d a] w(3) assms(2) by simp
  let ?u = "db_say [Write_done (rq_brk (sdb s)) ?cb p 0] u"
  have "gatt_db_attribute_write p off v OP_EXEC_WRITE_REQ ?cb (sdb s) = Some (True, ?u)"
    using w(3,4) u(1) same by (cases "v = []") (simp_all add: gatt_db_attribute_write_def Let_def)
  then have "attribute_write p off v OP_EXEC_WRITE_REQ ?cb ?s = Some (True, Some 0, ?s\<lparr>sdb := ?u\<rparr>)" by (simp add: attribute_write_def u(3))
  then have "srv_request OP_EXEC_WRITE_REQ [1] s = Some (srv_say (Send_rsp (rq_count s) 0x19 []) (s\<lparr>rq_count := rq_count s + 1, sdb := ?u, prep_queue := []\<rparr>))"
    using assms(3) w by (simp add: srv_request_def srv_handler_def exec_write_cb_def exec_next_prep_write_def seg_def)
  then show ?thesis using u(2) by (simp add: srv_say_def get_attr_cong [of ?u u])
qed

lemma srv_execs_append: "srv_execs (xs @ ys) s = do { s \<leftarrow> srv_execs xs s; srv_execs ys s }"
  by (induction xs arbitrary: s) (auto split: bind_splits)

text \<open>
  C33. Long writes. A value a client sends in pieces, each prepared at the offset where the one before ended, and then
  executes is stored as one write of all the bytes at the first offset would store it. Every piece is confirmed by a response that repeats it,
  the execution by its response, and the queue is empty afterwards.
\<close>

theorem long_write:
  assumes "writable h p a s" and "db_inv (sdb s)" and "1 < max_prep_queue_len s" and "prep_queue s = []"
    and "is_reliable_write_supported (h - 1) (sdb s) = Some rel" and "cs \<noteq> []" and "unat off + length (concat cs) < 2 ^ 16"
  shows "\<exists>s'. srv_execs (prep_requests h off cs @ [Request OP_EXEC_WRITE_REQ [1]]) s = Some s'
    \<and> get_attr p (sdb s') = Some (if concat cs = [] then a else store_value off (concat cs) a) \<and> prep_queue s' = []
    \<and> (\<exists>n. srv_log s' = srv_log s @ prep_echoes (rq_count s) h off cs @ [Send_rsp n 0x19 []])"
proof -
  obtain s1 where s1: "srv_execs (prep_requests h off cs) s = Some s1" "prep_done [seg h off (concat cs) rel] (prep_echoes (rq_count s) h off cs) s s1"
    using first_preps [OF assms(1,3-7)] by blast
  have "shape_ok (sdb s1)" "prep_queue s1 = [seg h off (concat cs) rel]" "srv_log s1 = srv_log s @ prep_echoes (rq_count s) h off cs"
    using s1(2) assms(2) by (simp_all add: prep_done_def db_inv_def shape_ok_def)
  then show ?thesis using exec_one [OF writable_kept [OF assms(1) s1(2)], of off "concat cs" rel] s1(1) by (auto simp: srv_execs_append srv_exec_def)
qed

text \<open>
  C35. The length of a long write wraps. When the pieces a client prepares for one attribute reach 65536 bytes, the last one is copied
  behind the end of a buffer whose length was computed modulo 65536: the server writes outside its memory.
\<close>

theorem prep_write_overflow:
  assumes "writable h p a s" and "1 < max_prep_queue_len s" and "prep_queue s = []" and "is_reliable_write_supported (h - 1) (sdb s) = Some rel"
    and "cs \<noteq> []" and "unat off + length (concat cs) < 2 ^ 16" and "2 ^ 16 \<le> length (concat (cs @ [c]))"
  shows "srv_execs (prep_requests h off cs @ [Request OP_PREP_WRITE_REQ (put_le16 h @ put_le16 (off + word_of_nat (length (concat cs))) @ c)]) s = None"
proof -
  obtain s1 where s1: "srv_execs (prep_requests h off cs) s = Some s1" "prep_done [seg h off (concat cs) rel] (prep_echoes (rq_count s) h off cs) s s1"
    using first_preps [OF assms(1-6)] by blast
  have q: "prep_queue s1 = [seg h off (concat cs) rel]" "1 < max_prep_queue_len s1" using s1(2) assms(2) by (simp_all add: prep_done_def)
  have "store_prep_data h (off + word_of_nat (length (concat cs))) c s1 = None" using store_next [OF q(1) assms(6), of c] assms(7) by simp
  then show ?thesis using prep_overflows [OF writable_kept [OF assms(1) s1(2)]] q s1(1) by (auto simp: srv_execs_append srv_exec_def)
qed

abbreviation demo_server :: gatt_server where
  "demo_server \<equiv> bt_gatt_server_new demo_db 23 (1, 0) 64 0"

lemma demo_writable:
  obtains a where "writable 3 (0, 2) a demo_server" "ga_value a = []" "value_len a = 0"
proof -
  have "case get_attr (0, 2) demo_db of None \<Rightarrow> False | Some a \<Rightarrow> write_func a = None \<and> permissions a = 3 \<and> ga_value a = [] \<and> value_len a = 0" by code_simp
  then obtain a where a: "get_attr (0, 2) demo_db = Some a" "write_func a = None" "permissions a = 3" "ga_value a = []" "value_len a = 0" by (auto split: option.splits)
  have "gatt_db_get_attribute 3 demo_db = Some (0, 2)" by code_simp
  moreover have "check_permissions 3 WRITE_MASK demo_server = 0" by (simp add: check_permissions_def bt_gatt_server_new_def)
  ultimately show ?thesis using that a by (simp add: writable_def bt_gatt_server_new_def)
qed

lemma demo_server_facts: "1 < max_prep_queue_len demo_server" "prep_queue demo_server = []" "is_reliable_write_supported (3 - 1) (sdb demo_server) = Some False" "sdb demo_server = demo_db"
proof -
  have "is_reliable_write_supported 2 demo_db = Some False" by code_simp
  then show "is_reliable_write_supported (3 - 1) (sdb demo_server) = Some False" by (simp add: bt_gatt_server_new_def)
qed (simp_all add: bt_gatt_server_new_def)

theorem long_write_witness:
  "\<exists>s'. srv_execs (prep_requests 3 0 [[1, 2], [3]] @ [Request OP_EXEC_WRITE_REQ [1]]) demo_server = Some s'
    \<and> (\<exists>a. get_attr (0, 2) (sdb s') = Some a \<and> ga_value a = [Some 1, Some 2, Some 3])"
proof -
  obtain a where a: "writable 3 (0, 2) a demo_server" "ga_value a = []" "value_len a = 0" by (rule demo_writable)
  have v: "ga_value (store_value 0 [1, 2, 3] a) = [Some 1, Some 2, Some 3]" using a(2,3) by (simp add: store_value_def)
  have i: "db_inv (sdb demo_server)" using demo_db_inv demo_server_facts(4) by simp
  show ?thesis using long_write [OF a(1) i demo_server_facts(1-3), of "[[1, 2], [3]]" 0] v by auto
qed

theorem prep_write_overflow_witness:
  "srv_execs (prep_requests 3 0 (replicate 128 (replicate 511 0))
     @ [Request OP_PREP_WRITE_REQ (put_le16 3 @ put_le16 (0 + word_of_nat (length (concat (replicate 128 (replicate 511 (0 :: byte)))))) @ replicate 200 0)]) demo_server = None"
proof -
  obtain a where a: "writable 3 (0, 2) a demo_server" by (rule demo_writable)
  have l: "length (concat (replicate n xs)) = n * length xs" for n and xs :: "byte list" by (simp add: length_concat sum_list_replicate)
  show ?thesis by (rule prep_write_overflow [OF a demo_server_facts(1-3)]) (simp_all only: concat_append length_append l, simp_all)
qed

subsection \<open>Reading several values\<close>

text \<open>An attribute a client may read, whose value the database stores, and its value.\<close>

definition readable :: "u16 \<Rightarrow> aptr \<Rightarrow> srv_cb gatt_db_attribute \<Rightarrow> gatt_server \<Rightarrow> bool" where
  "readable h p a s \<longleftrightarrow> alive s \<and> gatt_db_get_attribute h (sdb s) = Some p \<and> get_attr p (sdb s) = Some a \<and> read_func a = None
     \<and> unat (value_len a) \<le> length (ga_value a) \<and> check_permissions (permissions a) READ_MASK s = 0"

definition stored :: "srv_cb gatt_db_attribute \<Rightarrow> byte option list" where
  "stored a = take (unat (value_len a)) (ga_value a)"

lemma check_permissions_sdb [simp]: "check_permissions x m (s\<lparr>sdb := d\<rparr>) = check_permissions x m s"
  by (simp add: check_permissions_def)

lemma read_stored:
  assumes "readable h p a s"
  obtains s' where "attribute_read p 0 opc cb s = Some (True, Some (0, stored a), s')" "\<And>h' q b. readable h' q b s' = readable h' q b s"
    "att_mtu s' = att_mtu s" "srv_log s' = srv_log s"
proof -
  define db where "db = db_say [Read_done (rq_brk (sdb s)) cb p 0 (stored a)] ((sdb s)\<lparr>rq_brk := rq_brk (sdb s) + 1\<rparr>)"
  have v: "services db = services (sdb s)" by (simp add: db_def)
  have "attribute_read p 0 opc cb s = Some (True, Some (0, stored a), s\<lparr>sdb := db\<rparr>)"
    using assms by (simp add: attribute_read_def gatt_db_attribute_read_def readable_def stored_def Let_def db_def)
  moreover have "readable h' q b (s\<lparr>sdb := db\<rparr>) = readable h' q b s" for h' q b
    by (simp add: readable_def get_attribute_cong [OF v] get_attr_cong [OF v])
  ultimately show ?thesis using that by simp
qed

lemma buf_put_ok: "i + length xs \<le> length b \<Longrightarrow> \<exists>b'. buf_put b i xs = Some b' \<and> length b' = length b"
  by (simp add: buf_put_def)

lemma le16s_put: "le16s (put_le16 h @ xs) = h # le16s xs"
proof -
  obtain a b where p: "put_le16 h = [a, b]" by (simp add: put_le16_def be16_def)
  then show ?thesis using get_put_le16' [of h] by simp
qed

lemma room_neg: "0 < k \<Longrightarrow> k \<le> 2 \<Longrightarrow> (- k :: int) mod 2 ^ 64 \<noteq> 0"
  by (auto simp: zmod_zminus1_eq_if)

text \<open>A first value that leaves less than two bytes does not end the response, and the length of the next one lies behind the buffer.\<close>

lemma vl_first:
  assumes "readable h p a s" and "23 \<le> unat (att_mtu s)" and "unat (att_mtu s) \<le> unat (value_len a) + 4" and that: "att_mtu s0 = att_mtu s"
  shows "\<exists>d. read_multiple_value (read_mult_data_new rq OP_READ_MULT_VL_REQ [h1, h2] s0) p 0 (stored a) s = Some (Some d, s)
    \<and> rm_opcode d = OP_READ_MULT_VL_REQ \<and> length (rm_rsp_data d) < rm_length d + 2"
proof -
  define m where "m = unat (att_mtu s)"
  define n where "n = min (unat (value_len a)) (m - 3)"
  have l: "length (stored a) = unat (value_len a)" using assms(1) by (simp add: stored_def readable_def)
  have mb: "23 \<le> m" "m \<le> unat (value_len a) + 4" "m < 2 ^ 16" using assms(2,3) unsigned_less [of "att_mtu s"] by (simp_all add: m_def)
  have n: "n \<le> m - 3" "m \<le> n + 4" using mb by (auto simp: n_def)
  let ?d = "read_mult_data_new rq OP_READ_MULT_VL_REQ [h1, h2] s0"
  have r: "rm_room ?d = int (m - 3)" using mb that by (simp add: rm_room_def read_mult_data_new_def m_def [symmetric] of_nat_diff)
  have k: "nat (min (int (length (stored a))) (rm_room ?d) mod 2 ^ 16) = n"
  proof -
    have "min (int (length (stored a))) (rm_room ?d) = int n" unfolding r l n_def by (rule of_nat_min [symmetric])
    moreover have "n < 2 ^ 16" using n mb by simp
    ultimately show ?thesis by (simp add: nat_mod_as_int)
  qed
  have two: "2 \<le> m - 1" using mb by simp
  obtain b where b: "buf_put (replicate (m - 1) (Some 0)) 0 (map Some (put_le16 (word_of_nat (length (stored a))))) = Some b" "length b = m - 1"
    using buf_put_ok [of 0 "map Some (put_le16 (word_of_nat (length (stored a))))" "replicate (m - 1) (Some 0)"] two
    by (metis add_0 length_map length_replicate put_le16_length)
  have "2 + length (take n (stored a)) \<le> length b" using b(2) n mb by auto
  from buf_put_ok [OF this] obtain c where c: "buf_put b 2 (take n (stored a)) = Some c" "length c = m - 1" using b(2) by auto
  let ?e = "?d\<lparr>rm_rsp_data := c, rm_length := 2 + n, rm_cur_handle := 1\<rparr>"
  have e: "int m - int (2 + n) - 3 = - int (n + 5 - m)" "0 < int (n + 5 - m)" "int (n + 5 - m) \<le> 2" using n mb by (auto simp: of_nat_diff)
  have "rm_room ?e = (int m - int (2 + n) - 3) mod 2 ^ 64" using that by (simp add: rm_room_def read_mult_data_new_def m_def)
  then have z: "rm_room ?e \<noteq> 0" unfolding e(1) using room_neg [OF e(2,3)] by simp
  have "read_multiple_value ?d p 0 (stored a) s = Some (Some ?e, s)"
    using assms(1) that b c c(1) [unfolded numeral_2_eq_2] z unfolding read_multiple_value_def Let_def k by (simp add: readable_def read_mult_data_new_def m_def [symmetric] rm_room_def)
  then show ?thesis using c(2) n mb by (intro exI [of _ ?e]) (simp add: read_mult_data_new_def)
qed

lemma vl_second:
  assumes "readable h p a s" and "rm_opcode d = OP_READ_MULT_VL_REQ" and "length (rm_rsp_data d) < rm_length d + 2"
  shows "read_multiple_value d p 0 v s = None"
  using assms by (simp add: read_multiple_value_def readable_def Let_def buf_put_def)

text \<open>
  C36. Reading several values of variable length overruns the response. When a client asks for two stored values in one Read Multiple Variable
  Length request and the first one has at least MTU - 4 bytes, the room left is computed as a huge unsigned number, and the server writes
  the length of the second value behind its buffer.
\<close>

theorem read_multiple_vl_overflow:
  assumes "readable h1 p1 a1 s" and "readable h2 p2 a2 s" and "23 \<le> unat (att_mtu s)" and "unat (att_mtu s) \<le> unat (value_len a1) + 4"
  shows "srv_request OP_READ_MULT_VL_REQ (put_le16 h1 @ put_le16 h2) s = None"
proof -
  let ?s = "s\<lparr>rq_count := rq_count s + 1\<rparr>" and ?pdu = "put_le16 h1 @ put_le16 h2"
  let ?d = "read_mult_data_new (rq_count s) OP_READ_MULT_VL_REQ [h1, h2] ?s"
  have q: "readable h p a ?s = readable h p a s" for h p a by (simp add: readable_def check_permissions_def)
  have hs: "le16s ?pdu = [h1, h2]" using le16s_put [of h1 "put_le16 h2"] le16s_put [of h2 "[]"] by simp
  obtain s1 where s1: "attribute_read p1 0 OP_READ_MULT_VL_REQ (On_read_multiple ?d) ?s = Some (True, Some (0, stored a1), s1)"
    "\<And>h q b. readable h q b s1 = readable h q b ?s" "att_mtu s1 = att_mtu ?s"
    using read_stored [of h1 p1 a1 ?s OP_READ_MULT_VL_REQ "On_read_multiple ?d"] assms(1) unfolding q by metis
  obtain d where d: "read_multiple_value ?d p1 0 (stored a1) s1 = Some (Some d, s1)" "rm_opcode d = OP_READ_MULT_VL_REQ" "length (rm_rsp_data d) < rm_length d + 2"
    using vl_first [of h1 p1 a1 s1 ?s "rq_count s" h1 h2] assms s1(2,3) q by auto
  have r2: "readable h2 p2 a2 s1" using s1(2) assms(2) q by simp
  obtain s2 where s2: "attribute_read p2 0 OP_READ_MULT_REQ (On_read_multiple d) s1 = Some (True, Some (0, stored a2), s2)" "\<And>h q b. readable h q b s2 = readable h q b s1"
    using read_stored [OF r2] by metis
  have "read_multiple_value d p2 0 (stored a2) s2 = None" using vl_second [of h2 p2 a2 s2 d] d(2,3) s2(2) r2 by simp
  moreover have "gatt_db_get_attribute h2 (sdb s1) = Some p2" using r2 by (simp add: readable_def)
  ultimately have "read_multiple_from [h2] ?d p1 0 (stored a1) s1 = None" using d(1) s2(1) by (simp add: read_multiple_from.simps)
  then have "read_multiple_complete_cb ?d p1 0 (stored a1) s1 = None" by (simp add: read_multiple_complete_cb_def read_mult_data_new_def)
  then have "read_multiple_cb (rq_count s) OP_READ_MULT_VL_REQ ?pdu ?s = None"
    using s1(1) assms(1) hs unfolding read_multiple_cb_def Let_def hs by (simp add: readable_def)
  then show ?thesis using assms(1) by (simp add: srv_request_def srv_handler_def readable_def)
qed

definition demo_long_db :: "srv_cb gatt_db" where
  "demo_long_db = the (db_execs (demo_server_calls @ [Write_attr (0, 2) 0 (replicate 20 7) 0x12 (App_cb 0)]) (gatt_db_new None))"

definition read_ok :: "gatt_server \<Rightarrow> u16 \<Rightarrow> aptr \<Rightarrow> bool" where
  "read_ok s h p = (alive s \<and> gatt_db_get_attribute h (sdb s) = Some p \<and> (case get_attr p (sdb s) of None \<Rightarrow> False
     | Some a \<Rightarrow> read_func a = None \<and> unat (value_len a) \<le> length (ga_value a) \<and> check_permissions (permissions a) READ_MASK s = 0))"

lemma read_ok_readable: "read_ok s h p \<Longrightarrow> \<exists>a. get_attr p (sdb s) = Some a \<and> readable h p a s"
  by (auto simp: read_ok_def readable_def split: option.splits)

theorem read_multiple_vl_overflow_witness:
  "srv_request OP_READ_MULT_VL_REQ (put_le16 3 @ put_le16 1) (bt_gatt_server_new demo_long_db 23 (1, 0) 64 0) = None"
proof -
  let ?s = "bt_gatt_server_new demo_long_db 23 (1, 0) 64 0"
  have "read_ok ?s 3 (0, 2)" "read_ok ?s 1 (0, 0)" by code_simp+
  then obtain a1 a2 where a: "get_attr (0, 2) (sdb ?s) = Some a1" "readable 3 (0, 2) a1 ?s" "readable 1 (0, 0) a2 ?s" using read_ok_readable by metis
  have "map_option value_len (get_attr (0, 2) (sdb ?s)) = Some 20" by code_simp
  then have "value_len a1 = 20" using a(1) by simp
  then show ?thesis by (intro read_multiple_vl_overflow [OF a(2,3)]) (simp_all add: bt_gatt_server_new_def)
qed

subsection \<open>Permissions\<close>

text \<open>A read of a stored value that is permitted returns its beginning, as much as fits.\<close>

lemma read_returns:
  assumes "readable h p a s" and "authorize_req OP_READ_REQ h s = 0" and "\<not> pending_read_op s"
  shows "\<exists>s'. srv_request OP_READ_REQ (put_le16 h) s = Some s'
    \<and> srv_log s' = srv_log s @ [Send_rsp (rq_count s) 0x0B (take (nat ((uint (att_mtu s) - 1) mod 2 ^ 32)) (stored a))]"
proof -
  let ?s = "s\<lparr>rq_count := rq_count s + 1, pending_read_op := True\<rparr>"
  have q: "readable h p a ?s" using assms(1) by (simp add: readable_def check_permissions_def)
  obtain s1 where s1: "attribute_read p 0 OP_READ_REQ (On_read (rq_count s) OP_READ_REQ) ?s = Some (True, Some (0, stored a), s1)" "readable h p a s1 = readable h p a ?s"
    "att_mtu s1 = att_mtu ?s" "srv_log s1 = srv_log ?s"
    using read_stored [OF q, of OP_READ_REQ "On_read (rq_count s) OP_READ_REQ"] by metis
  have "srv_request OP_READ_REQ (put_le16 h) s = read_complete_cb (rq_count s) OP_READ_REQ p 0 (stored a) s1"
    using assms s1(1) by (simp add: srv_request_def srv_handler_def read_cb_def handle_read_req_def readable_def authorize_req_def get_put_le16' check_permissions_def Let_def)
  moreover have "read_complete_cb (rq_count s) OP_READ_REQ p 0 (stored a) s1
      = Some (async_read_op_destroy (srv_say (Send_rsp (rq_count s) 0x0B (take (nat ((uint (att_mtu s1) - 1) mod 2 ^ 32)) (stored a))) s1))"
    using s1(2) q by (simp add: read_complete_cb_def readable_def get_read_rsp_opcode_def)
  ultimately show ?thesis using s1(3,4) by (simp add: async_read_op_destroy_def srv_say_def)
qed

text \<open>
  The secure-connections permission is never enforced. An attribute that asks for secure connections on reading is sent
  to every client, whatever the security of the link is: the handlers do not pass this permission to the check.
\<close>

theorem secure_permission_ignored:
  assumes "alive s" and "gatt_db_get_attribute h (sdb s) = Some p" and "get_attr p (sdb s) = Some a" and "read_func a = None" and "db_inv (sdb s)"
    and "permissions a = 0x101" and "0 \<le> fst (att_security s)" and "srv_authorize s = None" and "\<not> pending_read_op s"
  shows "\<exists>s'. srv_request OP_READ_REQ (put_le16 h) s = Some s'
    \<and> srv_log s' = srv_log s @ [Send_rsp (rq_count s) 0x0B (take (nat ((uint (att_mtu s) - 1) mod 2 ^ 32)) (stored a))]"
proof -
  have "check_permissions 0x101 READ_MASK s = 0" using assms(7) by (cases "att_security s") (simp add: check_permissions_def Let_def)
  then have "readable h p a s" using assms attr_len [OF assms(5,3)] by (simp add: readable_def)
  then show ?thesis using assms(8,9) by (intro read_returns) (simp_all add: authorize_req_def)
qed

definition demo_secure_calls :: "srv_cb db_api list" where
  "demo_secure_calls = [Insert_service 0 (BT_UUID16 0x1800) True 6, Service_insert_characteristic (0, 0) 0 (BT_UUID16 0x2A00) 0x101 2 None None,
     Write_attr (0, 2) 0 [7] 0x12 (App_cb 0)]"

definition demo_secure_db :: "srv_cb gatt_db" where
  "demo_secure_db = the (db_execs demo_secure_calls (gatt_db_new None))"

lemma demo_secure_inv: "db_inv demo_secure_db"
proof -
  have "db_execs demo_secure_calls (gatt_db_new None) \<noteq> None" by code_simp
  then obtain db where d: "db_execs demo_secure_calls (gatt_db_new None) = Some db" by blast
  have "\<forall>c \<in> set demo_secure_calls. call_uuid_ok c" by (simp add: demo_secure_calls_def call_uuid_ok_def uuid_ok_def)
  then show ?thesis using db_execs_inv [OF d _ db_new_inv] by (simp add: demo_secure_db_def d)
qed

text \<open>
  C34. Attributes without write permission are not written. A write request, a write command or a prepared write of an attribute whose
  permissions do not include writing changes neither the database nor the queue of prepared writes, and a request gets an error.
\<close>

theorem write_denied:
  assumes "alive s" and "gatt_db_get_attribute h (sdb s) = Some p" and "get_attr p (sdb s) = Some a"
    and "permissions a \<noteq> 0" and "permissions a AND BT_ATT_PERM_WRITE = 0" and "opc \<in> {OP_WRITE_REQ, OP_WRITE_CMD, OP_PREP_WRITE_REQ}"
  shows "\<exists>s' x e. srv_request opc (put_le16 h @ v) s = Some s' \<and> sdb s' = sdb s \<and> prep_queue s' = prep_queue s
    \<and> srv_log s' = srv_log s @ (if opc = OP_WRITE_CMD then [] else [Send_error_rsp (rq_count s) opc x e])"
proof -
  let ?s = "s\<lparr>rq_count := rq_count s + 1\<rparr>"
  have c: "check_permissions (permissions a) WRITE_MASK ?s = ERR_WRITE_NOT_PERMITTED" using assms(4,5) by (simp add: check_permissions_def Let_def split: prod.splits)
  show ?thesis
  proof (cases "opc = OP_PREP_WRITE_REQ")
    case True
    obtain x e where "prep_write_cb (rq_count s) opc (put_le16 h @ v) ?s = Some (srv_say (Send_error_rsp (rq_count s) opc x e) ?s)"
      using assms(2,3) c True by (cases "length (put_le16 h @ v) < 4"; cases "length (prep_queue s) \<ge> max_prep_queue_len s") (auto simp: prep_write_cb_def Let_def get_pdu)
    then show ?thesis using assms(1) True by (simp add: srv_request_def srv_handler_def srv_say_def)
  next
    case False
    then have o: "opc = OP_WRITE_REQ \<or> opc = OP_WRITE_CMD" using assms(6) by blast
    have "write_cb (rq_count s) opc (put_le16 h @ v) ?s = Some (if opc = OP_WRITE_CMD then ?s else srv_say (Send_error_rsp (rq_count s) opc
        (if authorize_req opc 0 ?s = 0 then h else 0) (if authorize_req opc 0 ?s = 0 then 3 else uint (authorize_req opc 0 ?s))) ?s)"
      using assms(2,3) c by (simp add: write_cb_def Let_def get_pdu)
    then show ?thesis using assms(1) o by (auto simp: srv_request_def srv_handler_def srv_say_def)
  qed
qed

theorem secure_permission_ignored_witness:
  "\<exists>s'. srv_request OP_READ_REQ (put_le16 3) (bt_gatt_server_new demo_secure_db 23 (1, 0) 64 0) = Some s' \<and> srv_log s' = [Send_rsp 0 0x0B [Some 7]]"
proof -
  let ?s = "bt_gatt_server_new demo_secure_db 23 (1, 0) 64 0"
  have "case get_attr (0, 2) (sdb ?s) of None \<Rightarrow> False | Some a \<Rightarrow> read_func a = None \<and> permissions a = 0x101 \<and> stored a = [Some 7]" by code_simp
  then obtain a where a: "get_attr (0, 2) (sdb ?s) = Some a" "read_func a = None" "permissions a = 0x101" "stored a = [Some 7]" by (auto split: option.splits)
  have h: "gatt_db_get_attribute 3 (sdb ?s) = Some (0, 2)" by code_simp
  have i: "db_inv (sdb ?s)" using demo_secure_inv by (simp add: bt_gatt_server_new_def)
  have "\<exists>s'. srv_request OP_READ_REQ (put_le16 3) ?s = Some s'
    \<and> srv_log s' = srv_log ?s @ [Send_rsp (rq_count ?s) 0x0B (take (nat ((uint (att_mtu ?s) - 1) mod 2 ^ 32)) (stored a))]"
    by (rule secure_permission_ignored [OF _ h a(1,2) i a(3)]) (simp_all add: bt_gatt_server_new_def)
  then show ?thesis using a(4) by (auto simp: bt_gatt_server_new_def)
qed

theorem write_denied_witness:
  "\<exists>s' x e. srv_request OP_WRITE_REQ (put_le16 5 @ [1]) demo_server = Some s' \<and> sdb s' = sdb demo_server \<and> srv_log s' = [Send_error_rsp 0 OP_WRITE_REQ x e]"
proof -
  have "map_option permissions (get_attr (0, 4) (sdb demo_server)) = Some 1" by code_simp
  then obtain a where a: "get_attr (0, 4) (sdb demo_server) = Some a" "permissions a = 1" by auto
  have h: "gatt_db_get_attribute 5 (sdb demo_server) = Some (0, 4)" by code_simp
  have "\<exists>s' x e. srv_request OP_WRITE_REQ (put_le16 5 @ [1]) demo_server = Some s' \<and> sdb s' = sdb demo_server \<and> prep_queue s' = prep_queue demo_server
    \<and> srv_log s' = srv_log demo_server @ (if OP_WRITE_REQ = OP_WRITE_CMD then [] else [Send_error_rsp (rq_count demo_server) OP_WRITE_REQ x e])"
    by (rule write_denied [OF _ h a(1)]) (simp_all add: bt_gatt_server_new_def a(2))
  then show ?thesis by (auto simp: bt_gatt_server_new_def)
qed

subsection \<open>Completions\<close>

text \<open>
  A server that is freed while a read is pending. When the application then delivers the value, the completion callback of the read looks
  into the server through the pointer the release has set to null.
\<close>

theorem freed_server_read:
  assumes "get_attr p (sdb s) = Some a" and "take_pending i (pending_reads a) = Some (r, ps)" and "pd_func r = On_read rq opc" and "i \<noteq> 0"
  shows "srv_exec (Read_answer p i err v) (bt_gatt_server_free s) = None"
proof -
  let ?s = "bt_gatt_server_free s"
  have s: "sdb ?s = sdb s" "\<not> alive (?s\<lparr>sdb := d\<rparr>)" for d by (simp_all add: bt_gatt_server_free_def)
  obtain u where u: "put_attr p (a\<lparr>pending_reads := ps\<rparr>) (sdb s) = Some u" using assms(1) by (auto simp: put_attr_def get_attr_def split: bind_splits)
  let ?db = "db_say [Read_done (pd_num r) (pd_func r) p err (map Some v)] u"
  have "gatt_db_attribute_read_result p i err v (sdb s) = Some (True, ?db)" using assms u by (simp add: gatt_db_attribute_read_result_def)
  moreover have "db_news (sdb s) ?db = [Read_done (pd_num r) (pd_func r) p err (map Some v)]" using put_attr_log [OF u] by (simp add: db_news_def)
  ultimately show ?thesis using s assms(3) by (simp add: srv_exec_def srv_callback_def read_complete_cb_def)
qed

definition demo_pending :: "gatt_server option" where
  "demo_pending = srv_request OP_READ_REQ [5, 0] demo_server"

theorem freed_server_read_witness:
  "\<exists>s. srv_request OP_READ_REQ [5, 0] demo_server = Some s \<and> srv_exec (Read_answer (0, 4) 1 0 [1]) (bt_gatt_server_free s) = None"
proof -
  have "case demo_pending of None \<Rightarrow> False | Some s \<Rightarrow> (case get_attr (0, 4) (sdb s) of None \<Rightarrow> False
    | Some a \<Rightarrow> (case take_pending 1 (pending_reads a) of None \<Rightarrow> False | Some (r, ps) \<Rightarrow> pd_func r = On_read 0 OP_READ_REQ))" by code_simp
  then obtain s a r ps where d: "demo_pending = Some s" "get_attr (0, 4) (sdb s) = Some a" "take_pending 1 (pending_reads a) = Some (r, ps)" "pd_func r = On_read 0 OP_READ_REQ"
    by (auto split: option.splits prod.splits)
  then show ?thesis using freed_server_read [OF d(2-4)] by (simp add: demo_pending_def)
qed

text \<open>
  Writes are authorised for handle 0. The authorisation callback of the server is asked before the handle is read from the request: a write that
  the callback would refuse for its handle is carried out and confirmed when it accepts handle 0.
\<close>

theorem write_authorized_blindly:
  assumes "writable h p a s" and "db_inv (sdb s)" and "srv_authorize s = Some f" and "f OP_WRITE_REQ 0 = 0" and "f OP_WRITE_REQ h \<noteq> 0"
    and "\<not> pending_write_op s" and "v \<noteq> []"
  shows "\<exists>s'. srv_request OP_WRITE_REQ (put_le16 h @ v) s = Some s' \<and> get_attr p (sdb s') = Some (store_value 0 v a)
    \<and> srv_log s' = srv_log s @ [Send_rsp (rq_count s) 0x13 []]"
proof -
  let ?s = "s\<lparr>rq_count := rq_count s + 1\<rparr>" and ?cb = "On_write (rq_count s) OP_WRITE_REQ"
  have w: "alive s" "gatt_db_get_attribute h (sdb s) = Some p" "get_attr p (sdb s) = Some a" "write_func a = None" "check_permissions (permissions a) WRITE_MASK ?s = 0"
    using assms(1) by (simp_all add: writable_def check_permissions_def)
  obtain u where u: "gatt_db_attribute_write p 0 v OP_WRITE_REQ ?cb (sdb s) = Some (True, u)" "get_attr p u = Some (store_value 0 v a)"
    "db_log u = db_log (sdb s) @ [Write_done (rq_brk (sdb s)) ?cb p 0]" using write_stores [OF assms(2) w(3,4) assms(7)] by blast
  have "attribute_write p 0 v OP_WRITE_REQ ?cb (?s\<lparr>pending_write_op := True\<rparr>) = Some (True, Some 0, ?s\<lparr>pending_write_op := True, sdb := u\<rparr>)"
    by (simp add: attribute_write_def u)
  then have "write_cb (rq_count s) OP_WRITE_REQ (put_le16 h @ v) ?s = write_complete_cb (rq_count s) OP_WRITE_REQ p 0 (?s\<lparr>pending_write_op := True, sdb := u\<rparr>)"
    using w assms(3,4,6) by (simp add: write_cb_def Let_def get_pdu authorize_req_def)
  then show ?thesis using w(1) u(2) by (simp add: srv_request_def srv_handler_def write_complete_cb_def async_write_op_destroy_def srv_say_def)
qed

theorem write_authorized_blindly_witness:
  "\<exists>s'. srv_request OP_WRITE_REQ (put_le16 3 @ [9]) (bt_gatt_server_set_authorize (Some (\<lambda>_ h. if h = 3 then 8 else 0)) demo_server) = Some s'
    \<and> srv_log s' = [Send_rsp 0 0x13 []]"
proof -
  let ?s = "bt_gatt_server_set_authorize (Some (\<lambda>_ h. if h = 3 then 8 else 0)) demo_server"
  obtain a where a: "writable 3 (0, 2) a demo_server" by (rule demo_writable)
  have w: "writable 3 (0, 2) a ?s" using a by (simp add: writable_def bt_gatt_server_set_authorize_def check_permissions_def)
  have i: "db_inv (sdb ?s)" "srv_authorize ?s = Some (\<lambda>_ h. if h = 3 then 8 else 0)" "\<not> pending_write_op ?s" "srv_log ?s = []" "rq_count ?s = 0"
    using demo_db_inv by (simp_all add: bt_gatt_server_set_authorize_def bt_gatt_server_new_def)
  show ?thesis using write_authorized_blindly [OF w i(1,2) _ _ i(3), of "[9]"] i(4,5) by auto
qed

text \<open>A value of MTU - 4 bytes or more overruns the buffer of a notification that is to be sent together with others: its length field is not counted.\<close>

lemma notification_multiple_overflow:
  assumes "nfy_mult s = None" and "23 \<le> unat (att_mtu s)" and "unat (att_mtu s) \<le> length v + 4"
  shows "bt_gatt_server_send_notification sent h v True s = None"
proof -
  define m where "m = unat (att_mtu s)"
  have mb: "23 \<le> m" "m \<le> length v + 4" using assms(2,3) by (simp_all add: m_def)
  have "att_mtu s \<noteq> 0" using assms(2) by auto
  then have u: "unat (att_mtu s - 1) = m - 1" unfolding m_def by (rule unat_minus_one)
  have "int (unat (att_mtu s - 1)) = int m - 1" using u mb by simp
  then have i: "uint (att_mtu s - 1) = int m - 1" by simp
  define n where "n = nat (min (uint (att_mtu s - 1) - uint (0 + 2 :: u16)) (int (length v)) mod 2 ^ 16)"
  have lt: "m < 2 ^ 16" using unsigned_less [of "att_mtu s"] by (simp add: m_def)
  have t: "uint (att_mtu s - 1) - uint (0 + 2 :: u16) = int (m - 3)" using i mb by (simp add: of_nat_diff)
  have "min (uint (att_mtu s - 1) - uint (0 + 2 :: u16)) (int (length v)) = int (min (m - 3) (length v))"
    unfolding t by (rule of_nat_min [symmetric])
  then have n: "n = min (m - 3) (length v)" using lt by (simp add: n_def nat_mod_as_int)
  have d: "buf_put b (unat (0 + 2 + 2 :: u16)) (map Some (take n v)) = None" if "length b = m - 1" for b using that mb n by (auto simp: buf_put_def)
  have n': "nat (min (uint (att_mtu s - 1) - 2) (int (length v)) mod 65536) = n" by (simp add: n_def)
  have d': "buf_put b 4 (map Some (take n v)) = None" if "buf_put c i ys = Some b" "buf_put (replicate (m - Suc 0) None) j zs = Some c" for b c i j ys zs
    using d [of b] buf_put_length [OF that(1)] buf_put_length [OF that(2)] by simp
  show ?thesis unfolding bt_gatt_server_send_notification_def Let_def using assms(1) u d'
    by (auto simp: n' split: bind_splits)
qed

end
