(* ===== verification/Gatt_Helpers.thy ===== *)
theory Gatt_Helpers
  imports Gatt_Server
begin

text \<open>
  Discovery by a GATT client, \<^verbatim>\<open>bluez_deps/src/shared/gatt-helpers.c\<close>: the requests that walk through the handles of a peer, the callbacks that
  check its responses and ask on, and the iterators over the results.

  A request is a record with its reference count; \<^term>\<open>None\<close> is undefined behaviour, such as a use of a freed request or a read outside
  a PDU. The list of results replaces the chain of \<^verbatim>\<open>bt_gatt_result\<close>. What \<^verbatim>\<open>bt_att_send\<close> answers is an argument, and
  the list \<^verbatim>\<open>calls\<close> holds what the callback of the client calls on the request. A PDU is absent (\<^term>\<open>None\<close>) where the code gets a null pointer, and the functions that start a
  discovery give \<^term>\<open>None\<close> where the code returns no request. Allocations succeed, and every request has a callback.
\<close>

subsection \<open>Data\<close>

record gatt_result =
  gr_opcode :: byte
  gr_pdu :: "byte list"
  gr_data_len :: nat

record gatt_request =
  gq_id :: bool
  gq_start :: u16
  gq_end :: u16
  gq_ref_count :: int
  gq_uuid :: bt_uuid
  gq_service_type :: u16
  gq_results :: "gatt_result list"
  gq_freed :: bool

record read_incl_data =
  ri_result :: gatt_result
  ri_pos :: nat
  ri_ref_count :: int

text \<open>The callback a request of the ATT layer was given.\<close>

datatype gq_cb = On_grp_type | On_find_by_type | On_included | On_read_included read_incl_data | On_chrcs | On_by_type | On_descs

datatype gq_out =
    Gq_send byte "byte list" gq_cb
  | Gq_done bool byte "gatt_result list option"
  | Gq_cancel
  | Gq_destroy

datatype gq_call = Ref_request | Unref_request | Cancel_request

subsection \<open>Requests\<close>

definition gq_alive :: "gatt_request \<Rightarrow> unit option" where
  "gq_alive q = (if gq_freed q then None else Some ())"

definition bt_gatt_request_ref :: "gatt_request \<Rightarrow> (gatt_request \<times> gq_out list) option" where
  "bt_gatt_request_ref q = do { _ \<leftarrow> gq_alive q; Some (q\<lparr>gq_ref_count := gq_ref_count q + 1\<rparr>, []) }"

definition bt_gatt_request_cancel :: "gatt_request \<Rightarrow> (gatt_request \<times> gq_out list) option" where
  "bt_gatt_request_cancel q = do { _ \<leftarrow> gq_alive q; Some (if gq_id q then (q\<lparr>gq_id := False\<rparr>, [Gq_cancel]) else (q, [])) }"

definition bt_gatt_request_unref :: "gatt_request \<Rightarrow> (gatt_request \<times> gq_out list) option" where
  "bt_gatt_request_unref q = do {
     _ \<leftarrow> gq_alive q;
     let q = q\<lparr>gq_ref_count := gq_ref_count q - 1\<rparr>;
     if gq_ref_count q \<noteq> 0 then Some (q, [])
     else do { (q, out) \<leftarrow> bt_gatt_request_cancel q; Some (q\<lparr>gq_freed := True, gq_results := []\<rparr>, out @ [Gq_destroy]) }
   }"

primrec run_gq_calls :: "gq_call list \<Rightarrow> gatt_request \<Rightarrow> (gatt_request \<times> gq_out list) option" where
  "run_gq_calls [] q = Some (q, [])"
| "run_gq_calls (c # cs) q = do {
     (q, out) \<leftarrow> (case c of Ref_request \<Rightarrow> bt_gatt_request_ref q | Unref_request \<Rightarrow> bt_gatt_request_unref q | Cancel_request \<Rightarrow> bt_gatt_request_cancel q);
     (q, out') \<leftarrow> run_gq_calls cs q;
     Some (q, out @ out')
   }"

definition discovery_op_complete :: "bool \<Rightarrow> byte \<Rightarrow> gq_call list \<Rightarrow> gatt_request \<Rightarrow> (gatt_request \<times> gq_out list) option" where
  "discovery_op_complete success ecode calls q = do {
     let success = (success \<or> ecode = ERR_ATTRIBUTE_NOT_FOUND \<and> gq_results q \<noteq> []);
     let out = [Gq_done success ecode (if success then Some (gq_results q) else None)];
     (q, out') \<leftarrow> run_gq_calls calls q;
     _ \<leftarrow> gq_alive q;
     (q, out'') \<leftarrow> (if \<not> gq_id q then bt_gatt_request_unref q else Some (q\<lparr>gq_id := False\<rparr>, []));
     Some (q, out @ out' @ out'')
   }"

definition result_append :: "byte \<Rightarrow> byte list \<Rightarrow> nat \<Rightarrow> gatt_request \<Rightarrow> gatt_request" where
  "result_append opcode pdu data_len q = q\<lparr>gq_results := gq_results q @ [\<lparr>gr_opcode = opcode, gr_pdu = pdu, gr_data_len = data_len\<rparr>]\<rparr>"

definition process_error :: "byte list option \<Rightarrow> byte" where
  "process_error pdu = (case pdu of None \<Rightarrow> 0 | Some p \<Rightarrow> if length p \<noteq> 4 then 0 else p ! 3)"

text \<open>The request that asks on: it takes a reference, and the discovery ends when it cannot be sent.\<close>

definition ask_on :: "bool \<Rightarrow> byte \<Rightarrow> byte list \<Rightarrow> gq_cb \<Rightarrow> gq_call list \<Rightarrow> gatt_request \<Rightarrow> (gatt_request \<times> gq_out list) option" where
  "ask_on sent opcode pdu cb calls q = do {
     let q = q\<lparr>gq_id := sent, gq_ref_count := gq_ref_count q + 1\<rparr>;
     if sent then Some (q, [Gq_send opcode pdu cb]) else discovery_op_complete False 0 calls q
   }"

definition new_request :: "u16 \<Rightarrow> u16 \<Rightarrow> bt_uuid \<Rightarrow> u16 \<Rightarrow> gatt_request" where
  "new_request start end uuid type = \<lparr>gq_id = True, gq_start = start, gq_end = end, gq_ref_count = 2, gq_uuid = uuid, gq_service_type = type, gq_results = [], gq_freed = False\<rparr>"

text \<open>Two bytes of a PDU, which must lie inside.\<close>

definition le16_at :: "byte list \<Rightarrow> int \<Rightarrow> u16 option" where
  "le16_at p i = (if 0 \<le> i \<and> i + 2 \<le> int (length p) then Some (get_le16 (drop (nat i) p)) else None)"

subsection \<open>Services\<close>

definition read_by_grp_type_rsp_cb :: "byte \<Rightarrow> byte list option \<Rightarrow> bool \<Rightarrow> gq_call list \<Rightarrow> gatt_request \<Rightarrow> (gatt_request \<times> gq_out list) option" where
  "read_by_grp_type_rsp_cb opcode pdu sent calls q =
     (if opcode = 0x01 then discovery_op_complete False (process_error pdu) calls q
      else case pdu of None \<Rightarrow> discovery_op_complete False 0 calls q
      | Some p \<Rightarrow>
          if opcode \<noteq> 0x11 \<or> length p < 7 then discovery_op_complete False 0 calls q
          else (let data_length = unat (p ! 0); list_length = length p - 1
            in if data_length \<noteq> 6 \<and> data_length \<noteq> 20 \<or> list_length mod data_length \<noteq> 0 then discovery_op_complete False 0 calls q
               else do {
                 let q = result_append opcode (drop 1 p) data_length q;
                 last_end \<leftarrow> le16_at p (int (length p - data_length + 2));
                 if last_end < gq_start q then discovery_op_complete False 0 calls q
                 else do {
                   let q = q\<lparr>gq_start := last_end + 1\<rparr>;
                   if last_end < gq_end q
                   then ask_on sent OP_READ_BY_GRP_TYPE_REQ (put_le16 (gq_start q) @ put_le16 (gq_end q) @ put_le16 (gq_service_type q)) On_grp_type calls q
                   else do {
                     let r = last (gq_results q);
                     let k = length p - data_length + 1;
                     let q = (if last_end = 0xFFFF \<and> last_end \<noteq> gq_end q
                              then q\<lparr>gq_results := butlast (gq_results q) @ [r\<lparr>gr_pdu := take k (gr_pdu r) @ put_le16 (gq_end q) @ drop (k + 2) (gr_pdu r)\<rparr>]\<rparr> else q);
                     discovery_op_complete True 0 calls q
                   }
                 }
               }))"

definition find_by_type_val_rsp_cb :: "byte \<Rightarrow> byte list option \<Rightarrow> bool \<Rightarrow> gq_call list \<Rightarrow> gatt_request \<Rightarrow> (gatt_request \<times> gq_out list) option" where
  "find_by_type_val_rsp_cb opcode pdu sent calls q =
     (if opcode = 0x01 then discovery_op_complete False (process_error pdu) calls q
      else case pdu of None \<Rightarrow> discovery_op_complete False 0 calls q
      | Some p \<Rightarrow>
          if opcode \<noteq> 0x07 \<or> p = [] \<or> length p mod 4 \<noteq> 0 then discovery_op_complete False 0 calls q
          else do {
            let q = result_append opcode p 4 q;
            last_end \<leftarrow> le16_at p (int (length p) - 2);
            if last_end < gq_start q then discovery_op_complete False 0 calls q
            else do {
              let q = q\<lparr>gq_start := last_end + 1\<rparr>;
              if last_end < gq_end q
              then ask_on sent OP_FIND_BY_TYPE_REQ (put_le16 (gq_start q) @ put_le16 (gq_end q) @ put_le16 (gq_service_type q) @ snd (bt_uuid_to_le (gq_uuid q))) On_find_by_type calls q
              else discovery_op_complete True 0 calls q
            }
          })"

text \<open>\<^verbatim>\<open>discover_services\<close>: the request and what is sent, unless sending fails or the UUID is not specified.\<close>

definition discover_services :: "bool \<Rightarrow> bt_uuid option \<Rightarrow> u16 \<Rightarrow> u16 \<Rightarrow> bool \<Rightarrow> (gatt_request \<times> gq_out list) option" where
  "discover_services sent uuid start end primary =
     (let type = (if primary then GATT_PRIM_SVC_UUID else GATT_SND_SVC_UUID)
      in case uuid of
           None \<Rightarrow> if sent then Some (new_request start end BT_UUID_UNSPEC type, [Gq_send OP_READ_BY_GRP_TYPE_REQ (put_le16 start @ put_le16 end @ put_le16 type) On_grp_type]) else None
         | Some u \<Rightarrow> if u = BT_UUID_UNSPEC \<or> \<not> sent then None
             else Some (new_request start end u type, [Gq_send OP_FIND_BY_TYPE_REQ (put_le16 start @ put_le16 end @ put_le16 type @ snd (bt_uuid_to_le u)) On_find_by_type]))"

definition bt_gatt_discover_primary_services :: "bool \<Rightarrow> bt_uuid option \<Rightarrow> u16 \<Rightarrow> u16 \<Rightarrow> (gatt_request \<times> gq_out list) option" where
  "bt_gatt_discover_primary_services sent uuid start end = discover_services sent uuid start end True"

definition bt_gatt_discover_all_primary_services :: "bool \<Rightarrow> bt_uuid option \<Rightarrow> (gatt_request \<times> gq_out list) option" where
  "bt_gatt_discover_all_primary_services sent uuid = bt_gatt_discover_primary_services sent uuid 0x0001 0xFFFF"

definition bt_gatt_discover_secondary_services :: "bool \<Rightarrow> bt_uuid option \<Rightarrow> u16 \<Rightarrow> u16 \<Rightarrow> (gatt_request \<times> gq_out list) option" where
  "bt_gatt_discover_secondary_services sent uuid start end = discover_services sent uuid start end False"

subsection \<open>Characteristics, descriptors and values by type\<close>

definition discover_chrcs_cb :: "byte \<Rightarrow> byte list option \<Rightarrow> bool \<Rightarrow> gq_call list \<Rightarrow> gatt_request \<Rightarrow> (gatt_request \<times> gq_out list) option" where
  "discover_chrcs_cb opcode pdu sent calls q =
     (if opcode = 0x01 then discovery_op_complete False (process_error pdu) calls q
      else case pdu of None \<Rightarrow> discovery_op_complete False 0 calls q
      | Some p \<Rightarrow>
          if opcode \<noteq> 0x09 \<or> length p < 8 then discovery_op_complete False 0 calls q
          else (let data_length = unat (p ! 0)
            in if data_length \<noteq> 7 \<and> data_length \<noteq> 21 \<or> (length p - 1) mod data_length \<noteq> 0 then discovery_op_complete False 0 calls q
               else do {
                 let q = result_append opcode (drop 1 p) data_length q;
                 last_handle \<leftarrow> le16_at p (int (length p - data_length));
                 if last_handle < gq_start q then discovery_op_complete False 0 calls q
                 else do {
                   let q = q\<lparr>gq_start := last_handle + 1\<rparr>;
                   if last_handle \<noteq> gq_end q
                   then ask_on sent OP_READ_BY_TYPE_REQ (put_le16 (gq_start q) @ put_le16 (gq_end q) @ put_le16 GATT_CHARAC_UUID) On_chrcs calls q
                   else discovery_op_complete True 0 calls q
                 }
               }))"

definition bt_gatt_discover_characteristics :: "bool \<Rightarrow> u16 \<Rightarrow> u16 \<Rightarrow> (gatt_request \<times> gq_out list) option" where
  "bt_gatt_discover_characteristics sent start end =
     (if sent then Some (new_request start end BT_UUID_UNSPEC 0, [Gq_send OP_READ_BY_TYPE_REQ (put_le16 start @ put_le16 end @ put_le16 GATT_CHARAC_UUID) On_chrcs]) else None)"

text \<open>In \<^verbatim>\<open>read_by_type_cb\<close> the peer chooses the divisor; 0 divides by zero, and an entry longer than the PDU is looked for before it.\<close>

definition read_by_type_rsp_cb :: "byte \<Rightarrow> byte list option \<Rightarrow> bool \<Rightarrow> gq_call list \<Rightarrow> gatt_request \<Rightarrow> (gatt_request \<times> gq_out list) option" where
  "read_by_type_rsp_cb opcode pdu sent calls q =
     (if opcode = 0x01 then discovery_op_complete False (process_error pdu) calls q
      else case pdu of None \<Rightarrow> discovery_op_complete False 0 calls q
      | Some p \<Rightarrow>
          if opcode \<noteq> 0x09 then discovery_op_complete False 0 calls q
          else if p = [] \<or> p ! 0 = 0 then None
          else (let data_length = unat (p ! 0)
            in if (length p - 1) mod data_length \<noteq> 0 then discovery_op_complete False 0 calls q
               else do {
                 let q = result_append opcode (drop 1 p) data_length q;
                 last_handle \<leftarrow> le16_at p (int (length p) - int data_length);
                 if last_handle < gq_start q then discovery_op_complete False 0 calls q
                 else do {
                   let q = q\<lparr>gq_start := last_handle + 1\<rparr>;
                   if last_handle \<noteq> gq_end q
                   then ask_on sent OP_READ_BY_TYPE_REQ (put_le16 (gq_start q) @ put_le16 (gq_end q) @ snd (bt_uuid_to_le (gq_uuid q))) On_by_type calls q
                   else discovery_op_complete True 0 calls q
                 }
               }))"

text \<open>\<^verbatim>\<open>bt_gatt_read_by_type\<close> keeps no reference of its own.\<close>

definition bt_gatt_read_by_type :: "bool \<Rightarrow> u16 \<Rightarrow> u16 \<Rightarrow> bt_uuid \<Rightarrow> (gatt_request \<times> gq_out list) option" where
  "bt_gatt_read_by_type sent start end uuid =
     (if uuid = BT_UUID_UNSPEC \<or> \<not> sent then None
      else Some ((new_request start end uuid 0)\<lparr>gq_ref_count := 1\<rparr>, [Gq_send OP_READ_BY_TYPE_REQ (put_le16 start @ put_le16 end @ snd (bt_uuid_to_le uuid)) On_by_type]))"

definition discover_descs_cb :: "byte \<Rightarrow> byte list option \<Rightarrow> bool \<Rightarrow> gq_call list \<Rightarrow> gatt_request \<Rightarrow> (gatt_request \<times> gq_out list) option" where
  "discover_descs_cb opcode pdu sent calls q =
     (if opcode = 0x01 then discovery_op_complete False (process_error pdu) calls q
      else case pdu of None \<Rightarrow> discovery_op_complete False 0 calls q
      | Some p \<Rightarrow>
          if opcode \<noteq> 0x05 \<or> length p < 5 \<or> p ! 0 \<noteq> 1 \<and> p ! 0 \<noteq> 2 then discovery_op_complete False 0 calls q
          else (let data_length = (if p ! 0 = 1 then 4 else 18)
            in if (length p - 1) mod data_length \<noteq> 0 then discovery_op_complete False 0 calls q
               else do {
                 let q = result_append opcode (drop 1 p) data_length q;
                 last_handle \<leftarrow> le16_at p (int (length p - data_length));
                 if last_handle < gq_start q then discovery_op_complete False 0 calls q
                 else do {
                   let q = q\<lparr>gq_start := last_handle + 1\<rparr>;
                   if last_handle \<noteq> gq_end q
                   then ask_on sent OP_FIND_INFO_REQ (put_le16 (gq_start q) @ put_le16 (gq_end q)) On_descs calls q
                   else discovery_op_complete True 0 calls q
                 }
               }))"

definition bt_gatt_discover_descriptors :: "bool \<Rightarrow> u16 \<Rightarrow> u16 \<Rightarrow> (gatt_request \<times> gq_out list) option" where
  "bt_gatt_discover_descriptors sent start end =
     (if sent then Some (new_request start end BT_UUID_UNSPEC 0, [Gq_send OP_FIND_INFO_REQ (put_le16 start @ put_le16 end) On_descs]) else None)"

subsection \<open>Included services\<close>

definition bt_gatt_discover_included_services :: "bool \<Rightarrow> u16 \<Rightarrow> u16 \<Rightarrow> (gatt_request \<times> gq_out list) option" where
  "bt_gatt_discover_included_services sent start end =
     (if sent then Some (new_request start end BT_UUID_UNSPEC 0, [Gq_send OP_READ_BY_TYPE_REQ (put_le16 start @ put_le16 end @ put_le16 GATT_INCLUDE_UUID) On_included]) else None)"

text \<open>The release of the structure of a read lets go of the reference to the request it holds.\<close>

definition read_included_unref :: "read_incl_data \<Rightarrow> gatt_request \<Rightarrow> (read_incl_data \<times> gatt_request \<times> gq_out list) option" where
  "read_included_unref d q = do {
     let d = d\<lparr>ri_ref_count := ri_ref_count d - 1\<rparr>;
     (q, out) \<leftarrow> (if ri_ref_count d \<noteq> 0 then Some (q, []) else bt_gatt_request_unref q);
     Some (d, q, out)
   }"

text \<open>
  \<^verbatim>\<open>read_included\<close>: the first read. When it cannot be sent, the callback is called and the structure released, while the request itself goes on
  holding its identifier.
\<close>

definition read_included :: "bool \<Rightarrow> gq_call list \<Rightarrow> read_incl_data \<Rightarrow> gatt_request \<Rightarrow> (gatt_request \<times> gq_out list) option" where
  "read_included sent calls d q =
     (let pdu = take 2 (drop 2 (gr_pdu (ri_result d))); d = d\<lparr>ri_pos := ri_pos d + gr_data_len (ri_result d), ri_ref_count := ri_ref_count d + 1\<rparr>
      in if sent then Some (q, [Gq_send OP_READ_REQ pdu (On_read_included d)])
         else do {
           (q, out) \<leftarrow> run_gq_calls calls q;
           (_, q, out') \<leftarrow> read_included_unref d q;
           Some (q, Gq_done False 0 None # out @ out')
         })"

definition discover_included_cb :: "byte \<Rightarrow> byte list option \<Rightarrow> bool \<Rightarrow> gq_call list \<Rightarrow> gatt_request \<Rightarrow> (gatt_request \<times> gq_out list) option" where
  "discover_included_cb opcode pdu sent calls q =
     (if opcode = 0x01 then discovery_op_complete False (process_error pdu) calls q
      else case pdu of None \<Rightarrow> discovery_op_complete False 0 calls q
      | Some p \<Rightarrow>
          if opcode \<noteq> 0x09 \<or> length p < 6 then discovery_op_complete False 0 calls q
          else (let data_length = unat (p ! 0)
            in if data_length \<noteq> 8 \<and> data_length \<noteq> 6 \<or> (length p - 1) mod data_length \<noteq> 0 then discovery_op_complete False 0 calls q
               else do {
                 let q = result_append opcode (drop 1 p) data_length q;
                 if data_length = 6
                 then read_included sent calls \<lparr>ri_result = last (gq_results q), ri_pos = 0, ri_ref_count = 0\<rparr> (q\<lparr>gq_ref_count := gq_ref_count q + 1\<rparr>)
                 else do {
                   last_handle \<leftarrow> le16_at p (int (length p - data_length));
                   if last_handle < gq_start q then discovery_op_complete False 0 calls q
                   else do {
                     let q = q\<lparr>gq_start := last_handle + 1\<rparr>;
                     if last_handle \<noteq> gq_end q
                     then ask_on sent OP_READ_BY_TYPE_REQ (put_le16 (gq_start q) @ put_le16 (gq_end q) @ put_le16 GATT_INCLUDE_UUID) On_included calls q
                     else discovery_op_complete True 0 calls q
                   }
                 }
               }))"

definition read_included_cb :: "byte \<Rightarrow> byte list option \<Rightarrow> bool \<Rightarrow> gq_call list \<Rightarrow> read_incl_data \<Rightarrow> gatt_request \<Rightarrow> (read_incl_data \<times> gatt_request \<times> gq_out list) option" where
  "read_included_cb opcode pdu sent calls d q =
     (let fin = (\<lambda>r. map_option (\<lambda>(q, out). (d, q, out)) r)
      in if opcode = 0x01 then fin (discovery_op_complete False (process_error pdu) calls q)
         else if opcode \<noteq> 0x0B then fin (discovery_op_complete False 0 calls q)
         else case pdu of None \<Rightarrow> fin (discovery_op_complete False 0 calls q)
         | Some p \<Rightarrow>
             if length p \<noteq> 16 then fin (discovery_op_complete False 0 calls q)
             else do {
               let q = result_append opcode p 16 q;
               let r = ri_result d;
               if ri_pos d = length (gr_pdu r) then do {
                 last_handle \<leftarrow> le16_at (gr_pdu r) (int (ri_pos d) - int (gr_data_len r));
                 if last_handle = gq_end q then fin (discovery_op_complete True 0 calls q)
                 else fin (ask_on sent OP_READ_BY_TYPE_REQ (put_le16 (last_handle + 1) @ put_le16 (gq_end q) @ put_le16 GATT_INCLUDE_UUID) On_included calls q)
               }
               else do {
                 h \<leftarrow> le16_at (gr_pdu r) (int (ri_pos d) + 2);
                 let d = d\<lparr>ri_pos := ri_pos d + gr_data_len r, ri_ref_count := ri_ref_count d + 1\<rparr>;
                 if sent then Some (d, q, [Gq_send OP_READ_REQ (put_le16 h) (On_read_included d)])
                 else do {
                   (d, q, out) \<leftarrow> read_included_unref d q;
                   (q, out') \<leftarrow> discovery_op_complete False 0 calls q;
                   Some (d, q, out @ out')
                 }
               }
             })"

subsection \<open>A response of the peer\<close>

text \<open>The ATT layer runs the callback and then releases its reference.\<close>

definition gq_response :: "gq_cb \<Rightarrow> byte \<Rightarrow> byte list option \<Rightarrow> bool \<Rightarrow> gq_call list \<Rightarrow> gatt_request \<Rightarrow> (gatt_request \<times> gq_out list) option" where
  "gq_response cb opcode pdu sent calls q =
     (case cb of
        On_read_included d \<Rightarrow> do {
          (d, q, out) \<leftarrow> read_included_cb opcode pdu sent calls d q;
          (_, q, out') \<leftarrow> read_included_unref d q;
          Some (q, out @ out')
        }
      | _ \<Rightarrow> do {
          (q, out) \<leftarrow> (case cb of On_grp_type \<Rightarrow> read_by_grp_type_rsp_cb | On_find_by_type \<Rightarrow> find_by_type_val_rsp_cb | On_included \<Rightarrow> discover_included_cb
            | On_chrcs \<Rightarrow> discover_chrcs_cb | On_by_type \<Rightarrow> read_by_type_rsp_cb | _ \<Rightarrow> discover_descs_cb) opcode pdu sent calls q;
          (q, out') \<leftarrow> bt_gatt_request_unref q;
          Some (q, out @ out')
        })"

subsection \<open>MTU exchange\<close>

text \<open>\<^verbatim>\<open>mtu_cb\<close>: the MTU it hands to \<^verbatim>\<open>bt_att_set_mtu\<close>, if any, and what it tells the client.\<close>

definition mtu_cb :: "u16 \<Rightarrow> byte \<Rightarrow> byte list option \<Rightarrow> u16 option \<times> bool \<times> byte" where
  "mtu_cb client_rx_mtu opcode pdu =
     (if opcode = 0x01 then (None, False, process_error pdu)
      else case pdu of None \<Rightarrow> (None, False, 0)
      | Some p \<Rightarrow> if opcode \<noteq> 0x03 \<or> length p \<noteq> 2 then (None, False, 0) else (Some (min client_rx_mtu (get_le16 p)), True, 0))"

definition bt_gatt_exchange_mtu :: "bool \<Rightarrow> u16 \<Rightarrow> byte list option" where
  "bt_gatt_exchange_mtu sent client_rx_mtu = (if client_rx_mtu = 0 \<or> \<not> sent then None else Some (put_le16 client_rx_mtu))"

subsection \<open>Results\<close>

definition result_element_count :: "gatt_result list \<Rightarrow> nat" where
  "result_element_count rs = sum_list (map (\<lambda>r. length (gr_pdu r) div gr_data_len r) rs)"

definition bt_gatt_result_service_count :: "gatt_result list \<Rightarrow> nat" where
  "bt_gatt_result_service_count rs = (case rs of [] \<Rightarrow> 0 | r # _ \<Rightarrow> if gr_opcode r \<noteq> 0x11 \<and> gr_opcode r \<noteq> 0x07 then 0 else result_element_count rs)"

definition bt_gatt_result_characteristic_count :: "gatt_result list \<Rightarrow> nat" where
  "bt_gatt_result_characteristic_count rs =
     (case rs of [] \<Rightarrow> 0 | r # _ \<Rightarrow> if gr_opcode r \<noteq> 0x09 \<or> gr_data_len r \<noteq> 21 \<and> gr_data_len r \<noteq> 7 then 0 else result_element_count rs)"

definition bt_gatt_result_descriptor_count :: "gatt_result list \<Rightarrow> nat" where
  "bt_gatt_result_descriptor_count rs = (case rs of [] \<Rightarrow> 0 | r # _ \<Rightarrow> if gr_opcode r \<noteq> 0x05 then 0 else result_element_count rs)"

definition bt_gatt_result_included_count :: "gatt_result list \<Rightarrow> nat" where
  "bt_gatt_result_included_count rs =
     (case rs of [] \<Rightarrow> 0 | r # _ \<Rightarrow> if gr_opcode r \<noteq> 0x09 \<or> gr_data_len r \<noteq> 6 \<and> gr_data_len r \<noteq> 8 then 0
        else result_element_count (filter (\<lambda>r. gr_opcode r = 0x09) rs))"

record gatt_iter =
  it_results :: "gatt_result list"
  it_pos :: nat

definition bt_gatt_iter_init :: "gatt_result list \<Rightarrow> gatt_iter" where
  "bt_gatt_iter_init rs = \<lparr>it_results = rs, it_pos = 0\<rparr>"

definition convert_uuid_le :: "byte list \<Rightarrow> byte list option" where
  "convert_uuid_le src = (if length src = 16 then Some (rev src) else if length src \<noteq> 2 then None
     else Some ([0, 0, src ! 1, src ! 0] @ drop 4 bluetooth_base_uuid))"

text \<open>Some bytes of a result, which must lie inside.\<close>

definition bytes_at :: "byte list \<Rightarrow> nat \<Rightarrow> nat \<Rightarrow> byte list option" where
  "bytes_at p i n = (if i + n \<le> length p then Some (take n (drop i p)) else None)"

definition iter_forward :: "gatt_result \<Rightarrow> gatt_iter \<Rightarrow> gatt_iter" where
  "iter_forward r it = (if it_pos it + gr_data_len r = length (gr_pdu r) then \<lparr>it_results = tl (it_results it), it_pos = 0\<rparr>
     else it\<lparr>it_pos := it_pos it + gr_data_len r\<rparr>)"

definition bt_gatt_iter_next_service :: "gatt_request \<Rightarrow> gatt_iter \<Rightarrow> ((u16 \<times> u16 \<times> byte list option) option \<times> gatt_iter) option" where
  "bt_gatt_iter_next_service q it =
     (case it_results it of [] \<Rightarrow> Some (None, it)
      | r # _ \<Rightarrow>
          if gr_opcode r = 0x11 then do {
            b \<leftarrow> bytes_at (gr_pdu r) (it_pos it) (gr_data_len r);
            Some (Some (get_le16 b, get_le16 (drop 2 b), convert_uuid_le (drop 4 b)), iter_forward r it)
          }
          else if gr_opcode r = 0x07 then do {
            b \<leftarrow> bytes_at (gr_pdu r) (it_pos it) 4;
            u \<leftarrow> bt_uuid_to_uuid128 (gq_uuid q);
            Some (Some (get_le16 b, get_le16 (drop 2 b), Some (uuid_bytes u)), iter_forward r it)
          }
          else Some (None, it))"

definition bt_gatt_iter_next_characteristic :: "gatt_request \<Rightarrow> gatt_iter \<Rightarrow> ((u16 \<times> u16 \<times> u16 \<times> byte \<times> byte list option) option \<times> gatt_iter) option" where
  "bt_gatt_iter_next_characteristic q it =
     (case it_results it of [] \<Rightarrow> Some (None, it)
      | r # _ \<Rightarrow>
          if gr_opcode r \<noteq> 0x09 \<or> gq_uuid q \<noteq> BT_UUID_UNSPEC \<or> gr_data_len r \<noteq> 21 \<and> gr_data_len r \<noteq> 7 then Some (None, it)
          else do {
            b \<leftarrow> bytes_at (gr_pdu r) (it_pos it) (gr_data_len r);
            let it = iter_forward r it;
            end_handle \<leftarrow> (case it_results it of [] \<Rightarrow> Some (gq_end q) | r # _ \<Rightarrow> map_option (\<lambda>h. get_le16 h - 1) (bytes_at (gr_pdu r) (it_pos it) 2));
            Some (Some (get_le16 b, end_handle, get_le16 (drop 3 b), b ! 2, convert_uuid_le (drop 5 b)), it)
          })"

definition bt_gatt_iter_next_descriptor :: "gatt_iter \<Rightarrow> ((u16 \<times> byte list option) option \<times> gatt_iter) option" where
  "bt_gatt_iter_next_descriptor it =
     (case it_results it of [] \<Rightarrow> Some (None, it)
      | r # _ \<Rightarrow>
          if gr_opcode r \<noteq> 0x05 then Some (None, it)
          else do { b \<leftarrow> bytes_at (gr_pdu r) (it_pos it) (gr_data_len r); Some (Some (get_le16 b, convert_uuid_le (drop 2 b)), iter_forward r it) })"

text \<open>The length of a value of an entry shorter than a handle wraps.\<close>

definition bt_gatt_iter_next_read_by_type :: "gatt_request \<Rightarrow> gatt_iter \<Rightarrow> ((u16 \<times> u16 \<times> byte list) option \<times> gatt_iter) option" where
  "bt_gatt_iter_next_read_by_type q it =
     (case it_results it of [] \<Rightarrow> Some (None, it)
      | r # _ \<Rightarrow>
          if gr_opcode r \<noteq> 0x09 \<or> gq_uuid q = BT_UUID_UNSPEC then Some (None, it)
          else do {
            h \<leftarrow> bytes_at (gr_pdu r) (it_pos it) 2;
            Some (Some (get_le16 h, word_of_nat (gr_data_len r) - 2, take (gr_data_len r - 2) (drop (it_pos it + 2) (gr_pdu r))), iter_forward r it)
          })"

definition bt_gatt_iter_next_included_service :: "gatt_request \<Rightarrow> gatt_iter \<Rightarrow> ((u16 \<times> u16 \<times> u16 \<times> byte list option) option \<times> gatt_iter) option" where
  "bt_gatt_iter_next_included_service q it =
     (case it_results it of [] \<Rightarrow> Some (None, it)
      | r # rs \<Rightarrow>
          if gr_opcode r \<noteq> 0x09 \<or> gq_uuid q \<noteq> BT_UUID_UNSPEC \<or> gr_data_len r \<noteq> 8 \<and> gr_data_len r \<noteq> 6 then Some (None, it)
          else do {
            b \<leftarrow> bytes_at (gr_pdu r) (it_pos it) (gr_data_len r);
            if gr_data_len r = 8
            then Some (Some (get_le16 b, get_le16 (drop 2 b), get_le16 (drop 4 b), convert_uuid_le (drop 6 b)), iter_forward r it)
            else (case drop (it_pos it div 6) rs of [] \<Rightarrow> Some (None, it)
              | read_result # rest \<Rightarrow>
                  Some (Some (get_le16 b, get_le16 (drop 2 b), get_le16 (drop 4 b), convert_uuid_le (take (gr_data_len read_result) (gr_pdu read_result))),
                    if it_pos it + 6 = length (gr_pdu r) then \<lparr>it_results = rest, it_pos = 0\<rparr> else it\<lparr>it_pos := it_pos it + 6\<rparr>))
          })"

end
