(* ===== verification/Gatt_Helpers_Correct.thy ===== *)
theory Gatt_Helpers_Correct
  imports Gatt_Helpers Gatt_Server_Correct
begin

text \<open>
  What discovery guarantees: it ends, where it does; the iterators return what responses contain, also those our own server builds; and where it fails:
  discoveries a peer can keep going for ever, and a division by a number of the peer.
\<close>

subsection \<open>The end of a discovery\<close>

text \<open>A row of responses, each of which makes the client ask on.\<close>

inductive asking :: "gq_cb \<Rightarrow> nat \<Rightarrow> gatt_request \<Rightarrow> gatt_request \<Rightarrow> bool" where
  asking_none: "asking cb 0 q q"
| asking_more: "gq_response cb opcode pdu sent calls q = Some (q1, out) \<Longrightarrow> Gq_send opc p cb \<in> set out \<Longrightarrow> asking cb n q1 q2 \<Longrightarrow> asking cb (Suc n) q q2"

lemma unref_quiet: "bt_gatt_request_unref q = Some (q', out) \<Longrightarrow> (\<forall>o1 p cb. Gq_send o1 p cb \<notin> set out) \<and> gq_start q' = gq_start q \<and> gq_end q' = gq_end q"
  by (auto simp: bt_gatt_request_unref_def bt_gatt_request_cancel_def Let_def split: bind_splits if_splits)

lemma calls_quiet: "run_gq_calls cs q = Some (q', out) \<Longrightarrow> (\<forall>o1 p cb. Gq_send o1 p cb \<notin> set out) \<and> gq_start q' = gq_start q \<and> gq_end q' = gq_end q"
proof (induction cs arbitrary: q out)
  case (Cons c cs)
  obtain q1 out1 out2 where c: "(case c of Ref_request \<Rightarrow> bt_gatt_request_ref q | Unref_request \<Rightarrow> bt_gatt_request_unref q | Cancel_request \<Rightarrow> bt_gatt_request_cancel q) = Some (q1, out1)"
    "run_gq_calls cs q1 = Some (q', out2)" "out = out1 @ out2" using Cons.prems by (auto split: bind_splits)
  have "(\<forall>o1 p cb. Gq_send o1 p cb \<notin> set out1) \<and> gq_start q1 = gq_start q \<and> gq_end q1 = gq_end q"
    using c(1) unref_quiet [of q q1 out1]
    by (cases c) (auto simp: bt_gatt_request_ref_def bt_gatt_request_cancel_def split: bind_splits if_splits)
  then show ?case using Cons.IH [OF c(2)] c(3) by auto
qed simp

lemma complete_quiet:
  assumes "discovery_op_complete success ecode calls q = Some (q', out)"
  shows "Gq_send o1 p cb \<notin> set out"
proof -
  obtain q1 out1 out2 b e r where c: "run_gq_calls calls q = Some (q1, out1)" "(if \<not> gq_id q1 then bt_gatt_request_unref q1 else Some (q1\<lparr>gq_id := False\<rparr>, [])) = Some (q', out2)"
    "out = Gq_done b e r # out1 @ out2"
    using assms unfolding discovery_op_complete_def Let_def by (auto split: bind_splits)
  then show ?thesis using calls_quiet [OF c(1)] unref_quiet [of q1 q' out2] by (auto split: if_splits)
qed

lemma ask_on_facts:
  assumes "ask_on sent opcode pdu cb calls q = Some (q', out)" and "Gq_send o1 p cb' \<in> set out"
  shows "gq_start q' = gq_start q" and "gq_end q' = gq_end q"
  using assms complete_quiet by (auto simp: ask_on_def Let_def split: if_splits)

text \<open>A response that makes the client ask on for services moves the start forward, and not behind the end.\<close>

lemma services_forward:
  assumes "gq_response cb opcode pdu sent calls q = Some (q', out)" and "Gq_send o1 p cb \<in> set out" and "cb = On_grp_type \<or> cb = On_find_by_type"
  shows "gq_start q < gq_start q' \<and> gq_start q' \<le> gq_end q \<and> gq_end q' = gq_end q"
proof -
  obtain q1 out1 out2 where r: "(if cb = On_grp_type then read_by_grp_type_rsp_cb else find_by_type_val_rsp_cb) opcode pdu sent calls q = Some (q1, out1)"
    "bt_gatt_request_unref q1 = Some (q', out2)" "out = out1 @ out2"
    using assms(1,3) by (auto simp: gq_response_def split: bind_splits)
  have s: "Gq_send o1 p cb \<in> set out1" using assms(2) r(2,3) unref_quiet by auto
  have w: "start < last + 1 \<and> last + 1 \<le> en" if "\<not> last < start" "last < en" for start last en :: u16
  proof -
    have "unat last < unat en" using that(2) by (simp add: word_less_nat_alt)
    moreover have "unat en < 2 ^ 16" using unsigned_less [of en] by simp
    ultimately have "unat (last + 1) = unat last + 1" using unat_len [of "unat last + 1"] by (simp add: add.commute)
    then show ?thesis using that by (simp add: word_less_nat_alt word_le_nat_alt)
  qed
  have "\<exists>sent opcode pdu cb' last res. ask_on sent opcode pdu cb' calls (q\<lparr>gq_results := res, gq_start := last + 1\<rparr>) = Some (q1, out1) \<and> \<not> last < gq_start q \<and> last < gq_end q"
    using r(1) s complete_quiet unfolding read_by_grp_type_rsp_cb_def find_by_type_val_rsp_cb_def Let_def result_append_def
    by (fastforce split: if_splits option.splits bind_splits)
  then obtain sent' opcode' pdu' cb' last res where a: "ask_on sent' opcode' pdu' cb' calls (q\<lparr>gq_results := res, gq_start := last + 1\<rparr>) = Some (q1, out1)"
    "\<not> last < gq_start q" "last < gq_end q" by blast
  have "gq_start q1 = last + 1" "gq_end q1 = gq_end q" using ask_on_facts [OF a(1) s] by simp_all
  then show ?thesis using w [OF a(2,3)] unref_quiet [OF r(2)] by simp
qed

text \<open>
  C37. Discovering services ends. Whatever a peer answers, the client asks at most as many further times for services as there are handles
  behind the first one it asked for, with and without a UUID.
\<close>

theorem service_discovery_ends:
  assumes "asking cb n q q'" and "cb = On_grp_type \<or> cb = On_find_by_type"
  shows "n \<le> unat (gq_end q) - unat (gq_start q)"
  using assms
proof (induction rule: asking.induct)
  case (asking_more cb opcode pdu sent calls q q1 out opc p n q2)
  from services_forward [OF asking_more.hyps(1,2) asking_more.prems]
  have "unat (gq_start q) < unat (gq_start q1)" "unat (gq_start q1) \<le> unat (gq_end q)" "gq_end q1 = gq_end q" by (simp_all add: word_less_nat_alt word_le_nat_alt)
  then show ?case using asking_more.IH asking_more.prems by simp
qed simp

theorem service_discovery_ends_witness:
  "\<exists>q'. asking On_grp_type 1 (new_request 1 0xFFFF BT_UUID_UNSPEC GATT_PRIM_SVC_UUID) q' \<and> (1 :: nat) \<le> unat (0xFFFF :: u16) - unat (1 :: u16)"
proof -
  let ?q = "new_request 1 0xFFFF BT_UUID_UNSPEC GATT_PRIM_SVC_UUID" and ?p = "[6, 1, 0, 6, 0, 0, 0x18] :: byte list"
  have "map_option snd (gq_response On_grp_type 0x11 (Some ?p) True [] ?q) = Some [Gq_send OP_READ_BY_GRP_TYPE_REQ [7, 0, 255, 255, 0, 0x28] On_grp_type]" by code_simp
  then obtain q1 where q1: "gq_response On_grp_type 0x11 (Some ?p) True [] ?q = Some (q1, [Gq_send OP_READ_BY_GRP_TYPE_REQ [7, 0, 255, 255, 0, 0x28] On_grp_type])" by auto
  have a: "asking On_grp_type (Suc 0) ?q q1" by (rule asking_more [OF q1 _ asking_none]) simp
  have "Suc 0 \<le> unat (gq_end ?q) - unat (gq_start ?q)" by (rule service_discovery_ends [OF a]) simp
  then show ?thesis using a by (auto simp: new_request_def)
qed

text \<open>The response a peer repeats: one descriptor at handle 65535.\<close>

definition last_desc :: "byte list" where
  "last_desc = [1, 0xFF, 0xFF, 0x02, 0x29]"

lemma desc_again:
  assumes "\<not> gq_freed q" and "0 < gq_ref_count q" and "gq_end q \<noteq> 0xFFFF"
  shows "\<exists>q1 p. gq_response On_descs 0x05 (Some last_desc) True [] q = Some (q1, [Gq_send OP_FIND_INFO_REQ p On_descs])
    \<and> \<not> gq_freed q1 \<and> 0 < gq_ref_count q1 \<and> gq_end q1 = gq_end q \<and> length (gq_results q1) = length (gq_results q) + 1"
proof -
  have h: "le16_at last_desc (int (length last_desc - 4)) = Some 0xFFFF" by code_simp
  have l: "\<not> (0xFFFF :: u16) < gq_start q" by (simp add: word_less_nat_alt not_less) (use unsigned_less [of "gq_start q", where 'a = nat] in simp)
  have d: "last_desc ! 0 = 1" "length last_desc = 5" by (simp_all add: last_desc_def)
  let ?q = "(result_append 0x05 (drop 1 last_desc) 4 q)\<lparr>gq_start := 0xFFFF + 1\<rparr>"
  have "discover_descs_cb 0x05 (Some last_desc) True [] q = ask_on True OP_FIND_INFO_REQ (put_le16 (gq_start ?q) @ put_le16 (gq_end ?q)) On_descs [] ?q"
    using h l d assms(3) by (simp add: discover_descs_cb_def Let_def result_append_def)
  then show ?thesis using assms by (simp add: gq_response_def ask_on_def Let_def result_append_def bt_gatt_request_unref_def gq_alive_def)
qed

text \<open>
  C40. Discovering descriptors need not end. A peer that answers every request with a descriptor at handle 65535, behind the range that was asked for, keeps
  the client asking for ever and its list of results growing: the check against lower handles, made to avoid that, is undone by the
  wrap of the next start to 0.
\<close>

theorem descriptor_discovery_endless:
  assumes "\<not> gq_freed q" and "0 < gq_ref_count q" and "gq_end q \<noteq> 0xFFFF"
  shows "\<exists>q'. asking On_descs n q q' \<and> length (gq_results q') = length (gq_results q) + n"
  using assms
proof (induction n arbitrary: q)
  case 0
  then show ?case using asking_none by fastforce
next
  case (Suc n)
  obtain q1 p where q1: "gq_response On_descs 0x05 (Some last_desc) True [] q = Some (q1, [Gq_send OP_FIND_INFO_REQ p On_descs])"
    "\<not> gq_freed q1" "0 < gq_ref_count q1" "gq_end q1 = gq_end q" "length (gq_results q1) = length (gq_results q) + 1" using desc_again [OF Suc.prems] by blast
  obtain q' where q': "asking On_descs n q1 q'" "length (gq_results q') = length (gq_results q1) + n" using Suc.IH [OF q1(2,3)] q1(4) Suc.prems(3) by auto
  have "asking On_descs (Suc n) q q'" by (rule asking_more [OF q1(1) _ q'(1)]) simp
  then show ?case using q'(2) q1(5) by auto
qed

theorem descriptor_discovery_endless_witness:
  "\<exists>q'. asking On_descs 1000 (new_request 4 9 BT_UUID_UNSPEC 0) q' \<and> length (gq_results q') = 1000"
  using descriptor_discovery_endless [of "new_request 4 9 BT_UUID_UNSPEC 0" 1000] by (simp add: new_request_def)

text \<open>A response to a read by type whose entries have length 0 makes the client divide by zero.\<close>

lemma read_by_type_divides_by_zero: "gq_response On_by_type 0x09 (Some (0 # p)) sent calls q = None"
  by (simp add: gq_response_def read_by_type_rsp_cb_def)

subsection \<open>Reading the results\<close>

text \<open>A client that takes services from the iterator, at most \<^term>\<open>n\<close>.\<close>

primrec take_services :: "nat \<Rightarrow> gatt_request \<Rightarrow> gatt_iter \<Rightarrow> (u16 \<times> u16 \<times> byte list option) list option" where
  "take_services 0 q it = Some []"
| "take_services (Suc n) q it = do {
     (x, it) \<leftarrow> bt_gatt_iter_next_service q it;
     case x of None \<Rightarrow> Some [] | Some y \<Rightarrow> do { ys \<leftarrow> take_services n q it; Some (y # ys) }
   }"

text \<open>Entries of a response: two handles and a UUID, all of one length.\<close>

definition svc_entry :: "u16 \<times> u16 \<times> byte list \<Rightarrow> byte list" where
  "svc_entry e = (case e of (st, en, u) \<Rightarrow> put_le16 st @ put_le16 en @ u)"

definition svc_result :: "nat \<times> (u16 \<times> u16 \<times> byte list) list \<Rightarrow> gatt_result" where
  "svc_result x = \<lparr>gr_opcode = 0x11, gr_pdu = concat (map svc_entry (snd x)), gr_data_len = fst x\<rparr>"

definition entries_ok :: "nat \<times> (u16 \<times> u16 \<times> byte list) list \<Rightarrow> bool" where
  "entries_ok x \<longleftrightarrow> snd x \<noteq> [] \<and> 0 < fst x \<and> (\<forall>e \<in> set (snd x). length (svc_entry e) = fst x)"

definition decoded :: "u16 \<times> u16 \<times> byte list \<Rightarrow> u16 \<times> u16 \<times> byte list option" where
  "decoded e = (case e of (st, en, u) \<Rightarrow> (st, en, convert_uuid_le u))"

lemma concat_len: "\<forall>e \<in> set es. length (f e) = k \<Longrightarrow> length (concat (map f es)) = length es * k"
  by (induction es) simp_all

lemma next_entry:
  assumes "entries_ok (k, as @ e # es)"
  shows "bt_gatt_iter_next_service q \<lparr>it_results = svc_result (k, as @ e # es) # rs, it_pos = length as * k\<rparr>
    = Some (Some (decoded e), if es = [] then \<lparr>it_results = rs, it_pos = 0\<rparr> else \<lparr>it_results = svc_result (k, as @ e # es) # rs, it_pos = length (as @ [e]) * k\<rparr>)"
proof -
  let ?r = "svc_result (k, as @ e # es)"
  have l: "length (concat (map svc_entry as)) = length as * k" "length (svc_entry e) = k" "length (concat (map svc_entry es)) = length es * k"
    using assms concat_len [of as svc_entry k] concat_len [of es svc_entry k] by (auto simp: entries_ok_def)
  have k: "0 < k" using assms by (simp add: entries_ok_def)
  have p: "gr_pdu ?r = concat (map svc_entry as) @ svc_entry e @ concat (map svc_entry es)" by (simp add: svc_result_def)
  then have b: "bytes_at (gr_pdu ?r) (length as * k) k = Some (svc_entry e)" using l by (simp add: bytes_at_def)
  have "length as * k + k = length (gr_pdu ?r) \<longleftrightarrow> es = []" unfolding p using l k by auto
  then have f: "iter_forward ?r \<lparr>it_results = ?r # rs, it_pos = length as * k\<rparr>
      = (if es = [] then \<lparr>it_results = rs, it_pos = 0\<rparr> else \<lparr>it_results = ?r # rs, it_pos = length (as @ [e]) * k\<rparr>)"
    by (simp add: iter_forward_def svc_result_def add.commute)
  obtain st en u where e: "e = (st, en, u)" by (cases e) auto
  have g: "get_le16 (svc_entry e) = st" "get_le16 (drop 2 (svc_entry e)) = en" "drop 4 (svc_entry e) = u" by (simp_all add: e svc_entry_def get_pdu)
  have o: "gr_opcode ?r = 0x11" "gr_data_len ?r = k" by (simp_all add: svc_result_def)
  show ?thesis using b f o unfolding bt_gatt_iter_next_service_def by (simp add: g [unfolded e] decoded_def e)
qed

lemma take_result:
  "entries_ok (k, as @ es) \<Longrightarrow> es \<noteq> [] \<Longrightarrow> take_services (length es + n) q \<lparr>it_results = svc_result (k, as @ es) # rs, it_pos = length as * k\<rparr>
    = map_option (\<lambda>ys. map decoded es @ ys) (take_services n q \<lparr>it_results = rs, it_pos = 0\<rparr>)"
proof (induction es arbitrary: as)
  case (Cons e es)
  show ?case
  proof (cases "es = []")
    case True
    then show ?thesis using next_entry [OF Cons.prems(1), of q rs] by (cases "take_services n q \<lparr>it_results = rs, it_pos = 0\<rparr>") simp_all
  next
    case False
    have "take_services (length es + n) q \<lparr>it_results = svc_result (k, (as @ [e]) @ es) # rs, it_pos = length (as @ [e]) * k\<rparr>
      = map_option (\<lambda>ys. map decoded es @ ys) (take_services n q \<lparr>it_results = rs, it_pos = 0\<rparr>)" using Cons.IH [of "as @ [e]"] Cons.prems(1) False by simp
    then show ?thesis using next_entry [OF Cons.prems(1), of q rs] False by (cases "take_services n q \<lparr>it_results = rs, it_pos = 0\<rparr>") simp_all
  qed
qed simp

lemma count_entries: "entries_ok x \<Longrightarrow> length (gr_pdu (svc_result x)) div gr_data_len (svc_result x) = length (snd x)"
  using concat_len [of "snd x" svc_entry "fst x"] by (simp add: entries_ok_def svc_result_def)

lemma iterator_takes_all:
  assumes "\<forall>x \<in> set xs. entries_ok x" and "xs \<noteq> []"
  shows "take_services (bt_gatt_result_service_count (map svc_result xs)) q (bt_gatt_iter_init (map svc_result xs)) = Some (map decoded (concat (map snd xs)))
    \<and> bt_gatt_result_service_count (map svc_result xs) = length (concat (map snd xs))"
proof -
  have c: "result_element_count (map svc_result ys) = length (concat (map snd ys))" if "\<forall>x \<in> set ys. entries_ok x" for ys
    using that count_entries by (induction ys) (auto simp: result_element_count_def)
  have t: "take_services (length (concat (map snd ys))) q \<lparr>it_results = map svc_result ys, it_pos = 0\<rparr> = Some (map decoded (concat (map snd ys)))" if "\<forall>x \<in> set ys. entries_ok x" for ys
    using that
  proof (induction ys)
    case (Cons y ys)
    then have y: "entries_ok (fst y, [] @ snd y)" "snd y \<noteq> []" by (simp_all add: entries_ok_def)
    show ?case using take_result [OF y, of "length (concat (map snd ys))" q "map svc_result ys"] Cons by simp
  qed simp
  have "bt_gatt_result_service_count (map svc_result xs) = length (concat (map snd xs))"
    using assms c [OF assms(1)] by (cases xs) (simp_all add: bt_gatt_result_service_count_def svc_result_def)
  then show ?thesis using t [OF assms(1)] by (simp add: bt_gatt_iter_init_def)
qed

text \<open>
  C39. The iterator returns the services of the responses. For responses that hold service entries of one length each, the count is the number of
  entries, and taking that many services from the iterator gives every entry once, in order, with its handles and its 128-bit UUID.
\<close>

theorem service_iterator_complete:
  assumes "\<forall>x \<in> set xs. entries_ok x" and "xs \<noteq> []"
  shows "take_services (bt_gatt_result_service_count (map svc_result xs)) q (bt_gatt_iter_init (map svc_result xs)) = Some (map decoded (concat (map snd xs)))
    \<and> bt_gatt_result_service_count (map svc_result xs) = length (concat (map snd xs))"
  using assms by (rule iterator_takes_all)

theorem service_iterator_complete_witness:
  "let xs = [(6, [(1, 6, [0, 0x18]), (7, 0x10, [1, 0x18])]), (20, [(0x20, 0x2F, replicate 16 9)])]
   in (\<forall>x \<in> set xs. entries_ok x) \<and> (\<forall>q. take_services 3 q (bt_gatt_iter_init (map svc_result xs))
     = Some [(1, 6, Some ([0, 0, 0x18, 0] @ drop 4 bluetooth_base_uuid)), (7, 0x10, Some ([0, 0, 0x18, 1] @ drop 4 bluetooth_base_uuid)), (0x20, 0x2F, Some (replicate 16 9))])"
proof -
  let ?xs = "[(6, [(1, 6, [0, 0x18]), (7, 0x10, [1, 0x18])]), (20, [(0x20, 0x2F, replicate 16 9)])] :: (nat \<times> (u16 \<times> u16 \<times> byte list) list) list"
  have ok: "\<forall>x \<in> set ?xs. entries_ok x" by (simp add: entries_ok_def svc_entry_def)
  have d: "map decoded (concat (map snd ?xs))
     = [(1, 6, Some ([0, 0, 0x18, 0] @ drop 4 bluetooth_base_uuid)), (7, 0x10, Some ([0, 0, 0x18, 1] @ drop 4 bluetooth_base_uuid)), (0x20, 0x2F, Some (replicate 16 9))]" by code_simp
  have "length (concat (map snd ?xs)) = 3" "?xs \<noteq> []" by simp_all
  then have "take_services 3 q (bt_gatt_iter_init (map svc_result ?xs)) = Some (map decoded (concat (map snd ?xs)))" for q
    using service_iterator_complete [OF ok, of q] by metis
  then show ?thesis using ok unfolding Let_def d by blast
qed

subsection \<open>The server and the client\<close>

text \<open>An entry as the server writes it, and the service it is about.\<close>

definition opt_entry :: "u16 \<times> u16 \<times> byte option list \<Rightarrow> byte option list" where
  "opt_entry e = (case e of (st, en, v) \<Rightarrow> map Some (put_le16 st @ put_le16 en) @ v)"

definition about_service :: "srv_cb gatt_db \<Rightarrow> aptr \<Rightarrow> u16 \<times> u16 \<times> 'a \<Rightarrow> bool" where
  "about_service db p e = (case e of (st, en, _) \<Rightarrow> \<exists>svc. get_svc (fst p) db = Some svc \<and> gatt_db_service_get_handles svc = (st, en))"

lemma read_now_services: "attribute_read p off opc cb s = Some (ok, Some r, s') \<Longrightarrow> services (sdb s') = services (sdb s)"
  by (auto simp: attribute_read_def gatt_db_attribute_read_def Let_def put_attr_log split: bind_splits option.splits if_splits)

text \<open>A round of \<^verbatim>\<open>encode_read_by_grp_type_rsp\<close> that ends with a response.\<close>

lemma encode_round:
  assumes "encode_read_by_grp_type_rsp mtu (p # q) iter len pdu s = Some (Some (b, n), s')"
  obtains s1 e v l b1 where "attribute_read p 0 OP_READ_BY_GRP_TYPE_REQ On_attribute_read s = Some (True, Some (e, v), s1)" "v \<noteq> []"
    "l = (if iter = 0 then i2b (min (min ((uint mtu - 6) mod 2 ^ 32) 251) (int (length v))) else len)"
    "(if iter = 0 then buf_put pdu 0 [Some (l + 4)] else Some pdu) = Some b1"
    "(b, n) = (b1, if iter = 0 then 1 else iter) \<and> (iter = 0 \<longrightarrow> 1 + uint l + 4 > uint mtu - 1)
      \<or> (\<exists>svc st en b2. (iter \<noteq> 0 \<longrightarrow> length v = unat len) \<and> get_svc (fst p) (sdb s1) = Some svc \<and> gatt_db_service_get_handles svc = (st, en)
          \<and> buf_put b1 (if iter = 0 then 1 else iter) (opt_entry (st, en, take (unat l) v)) = Some b2
          \<and> encode_read_by_grp_type_rsp mtu q ((if iter = 0 then 1 else iter) + unat l + 4) l b2 s1 = Some (Some (b, n), s'))"
proof -
  obtain ok r1 s1 where a: "attribute_read p 0 OP_READ_BY_GRP_TYPE_REQ On_attribute_read s = Some (ok, r1, s1)"
    using assms by (cases "attribute_read p 0 OP_READ_BY_GRP_TYPE_REQ On_attribute_read s") auto
  define v where "v = (case r1 of Some (_, v) \<Rightarrow> v | None \<Rightarrow> [])"
  define l where "l = (if iter = 0 then i2b (min (min ((uint mtu - 6) mod 2 ^ 32) 251) (int (length v))) else len)"
  define i where "i = (if iter = 0 then 1 else iter)"
  note e = assms [unfolded encode_read_by_grp_type_rsp.simps a bind.simps prod.case Let_def v_def [symmetric] l_def [symmetric] i_def [symmetric]]
  have c: "\<not> (\<not> ok \<or> v = [])" using e by (auto split: if_splits)
  then obtain err where r1: "ok" "v \<noteq> []" "r1 = Some (err, v)" by (cases r1) (auto simp: v_def)
  then have a': "attribute_read p 0 OP_READ_BY_GRP_TYPE_REQ On_attribute_read s = Some (True, Some (err, v), s1)" using a by simp
  show thesis
  proof (cases "iter \<noteq> 0 \<and> length v \<noteq> unat len")
    case True
    then have "b = pdu" "n = iter" using e [unfolded if_not_P [OF c] if_P [OF True]] by simp_all
    then show thesis using that [OF a', of l pdu] True r1 l_def by simp
  next
    case False
    obtain b1 where b1: "(if iter = 0 then buf_put pdu 0 [Some (l + 4)] else Some pdu) = Some b1"
      using e [unfolded if_not_P [OF c] if_not_P [OF False]] by (cases "if iter = 0 then buf_put pdu 0 [Some (l + 4)] else Some pdu") simp_all
    note g = e [unfolded if_not_P [OF c] if_not_P [OF False] b1 bind.simps]
    have "(b, n) = (b1, i) \<and> (iter = 0 \<longrightarrow> 1 + uint l + 4 > uint mtu - 1)
      \<or> (\<exists>svc st en b2. (iter \<noteq> 0 \<longrightarrow> length v = unat len) \<and> get_svc (fst p) (sdb s1) = Some svc \<and> gatt_db_service_get_handles svc = (st, en)
          \<and> buf_put b1 i (opt_entry (st, en, take (unat l) v)) = Some b2 \<and> encode_read_by_grp_type_rsp mtu q (i + unat l + 4) l b2 s1 = Some (Some (b, n), s'))"
    proof (cases "int i + uint l + 4 > uint mtu - 1")
      case True
      then show ?thesis using g [unfolded if_P [OF True]] by (auto simp: i_def)
    next
      case f: False
      obtain svc where sv: "get_svc (fst p) (sdb s1) = Some svc" using g [unfolded if_not_P [OF f]] by (cases "get_svc (fst p) (sdb s1)") simp_all
      obtain st en where "gatt_db_service_get_handles svc = (st, en)" by (cases "gatt_db_service_get_handles svc")
      note s = sv this
      obtain b2 where "buf_put b1 i (opt_entry (st, en, take (unat l) v)) = Some b2" "encode_read_by_grp_type_rsp mtu q (i + unat l + 4) l b2 s1 = Some (Some (b, n), s')"
        using g [unfolded if_not_P [OF f] s bind.simps prod.case]
        by (cases "buf_put b1 i (opt_entry (st, en, take (unat l) v))") (simp_all add: opt_entry_def)
      then show ?thesis using s False by blast
    qed
    then show thesis using that [OF a', of l b1] r1 b1 l_def by (simp add: i_def)
  qed
qed

lemma put_prefix:
  assumes "buf_put b i xs = Some b'" and "i \<le> length b"
  shows "take (i + length xs) b' = take i b @ xs" and "length b' = length b" and "i + length xs \<le> length b"
  using assms by (auto simp: buf_put_def split: if_splits)

lemma opt_entry_length [simp]: "length (opt_entry (st, en, v)) = 4 + length v"
  by (simp add: opt_entry_def)

text \<open>The later rounds append entries of the length of the first one.\<close>

lemma encode_rounds:
  "encode_read_by_grp_type_rsp mtu q iter len pdu s = Some (Some (b, n), s') \<Longrightarrow> 0 < iter \<Longrightarrow> iter \<le> length pdu
    \<Longrightarrow> \<exists>es. take n b = take iter pdu @ concat (map opt_entry es) \<and> (\<forall>e \<in> set es. length (opt_entry e) = unat len + 4) \<and> length es \<le> length q
      \<and> list_all2 (about_service (sdb s)) (take (length es) q) es"
proof (induction q arbitrary: iter len pdu s)
  case Nil
  then show ?case by (intro exI [of _ "[]"]) simp
next
  case (Cons p q)
  from Cons.prems(1) obtain s1 er v l b1 where r: "attribute_read p 0 OP_READ_BY_GRP_TYPE_REQ On_attribute_read s = Some (True, Some (er, v), s1)"
    "l = (if iter = 0 then i2b (min (min ((uint mtu - 6) mod 2 ^ 32) 251) (int (length v))) else len)" "(if iter = 0 then buf_put pdu 0 [Some (l + 4)] else Some pdu) = Some b1"
    "(b, n) = (b1, if iter = 0 then 1 else iter) \<and> (iter = 0 \<longrightarrow> 1 + uint l + 4 > uint mtu - 1)
      \<or> (\<exists>svc st en b2. (iter \<noteq> 0 \<longrightarrow> length v = unat len) \<and> get_svc (fst p) (sdb s1) = Some svc \<and> gatt_db_service_get_handles svc = (st, en)
          \<and> buf_put b1 (if iter = 0 then 1 else iter) (opt_entry (st, en, take (unat l) v)) = Some b2
          \<and> encode_read_by_grp_type_rsp mtu q ((if iter = 0 then 1 else iter) + unat l + 4) l b2 s1 = Some (Some (b, n), s'))"
    by (rule encode_round)
  have l: "l = len" "b1 = pdu" using r(2,3) Cons.prems(2) by simp_all
  show ?case
  proof (cases "b = pdu \<and> n = iter")
    case True
    then show ?thesis by (intro exI [of _ "[]"]) simp
  next
    case False
    then obtain svc st en b2 where g: "length v = unat len" "get_svc (fst p) (sdb s1) = Some svc" "gatt_db_service_get_handles svc = (st, en)"
      "buf_put pdu iter (opt_entry (st, en, v)) = Some b2" "encode_read_by_grp_type_rsp mtu q (iter + unat len + 4) len b2 s1 = Some (Some (b, n), s')"
      using r(4) l Cons.prems(2) by auto
    have k: "take (iter + length (opt_entry (st, en, v))) b2 = take iter pdu @ opt_entry (st, en, v)" "length b2 = length pdu" "iter + length (opt_entry (st, en, v)) \<le> length pdu"
      by (rule put_prefix [OF g(4) Cons.prems(3)])+
    have sv: "services (sdb s1) = services (sdb s)" by (rule read_now_services [OF r(1)])
    then have ab: "about_service (sdb s1) = about_service (sdb s)" by (intro ext) (simp add: about_service_def get_svc_def split: prod.splits)
    have w: "iter + unat len + 4 = iter + length (opt_entry (st, en, v))" using g(1) by simp
    obtain es where es: "take n b = take (iter + unat len + 4) b2 @ concat (map opt_entry es)" "\<forall>e \<in> set es. length (opt_entry e) = unat len + 4" "length es \<le> length q"
      "list_all2 (about_service (sdb s1)) (take (length es) q) es" using Cons.IH [OF g(5)] k(2,3) w by auto
    have "about_service (sdb s) p (st, en, v)" using g(2,3) sv by (simp add: about_service_def get_svc_def)
    then show ?thesis using es k(1) g(1) unfolding ab w by (intro exI [of _ "(st, en, v) # es"]) simp
  qed
qed

lemma first_length:
  fixes mtu :: u16 and l :: byte
  assumes "23 \<le> unat mtu" and "l = i2b (min (min ((uint mtu - 6) mod 2 ^ 32) 251) (int n))"
  shows "unat l \<le> n" and "unat l \<le> 251" and "\<not> 1 + uint l + 4 > uint mtu - 1"
proof -
  have "int 23 \<le> int (unat mtu)" using assms(1) by (simp only: of_nat_le_iff)
  then have m: "23 \<le> uint mtu" "uint mtu < 2 ^ 16" using uint_lt2p [of mtu] by simp_all
  then have "(uint mtu - 6) mod 2 ^ 32 = uint mtu - 6" by (simp add: mod_pos_pos_trivial)
  then have u: "uint l = min (min (uint mtu - 6) 251) (int n)" using m assms(2) by (simp add: b2i_i2b_id)
  then show "\<not> 1 + uint l + 4 > uint mtu - 1" by simp
  have "int (unat l) \<le> int n" "int (unat l) \<le> int 251" using u by simp_all
  then show "unat l \<le> n" "unat l \<le> 251" by (simp_all only: of_nat_le_iff)
qed

lemma encode_first:
  assumes "encode_read_by_grp_type_rsp mtu (p # q) 0 len (replicate (unat mtu) None) s = Some (Some (b, n), s')" and "23 \<le> unat mtu"
  shows "\<exists>l es. es \<noteq> [] \<and> take n b = Some (l + 4) # concat (map opt_entry es) \<and> unat l \<le> 251 \<and> (\<forall>e \<in> set es. length (opt_entry e) = unat l + 4)
    \<and> length es \<le> length (p # q) \<and> list_all2 (about_service (sdb s)) (take (length es) (p # q)) es"
proof -
  from assms(1) obtain s1 er v l b1 where r: "attribute_read p 0 OP_READ_BY_GRP_TYPE_REQ On_attribute_read s = Some (True, Some (er, v), s1)"
    "l = i2b (min (min ((uint mtu - 6) mod 2 ^ 32) 251) (int (length v)))" "buf_put (replicate (unat mtu) None) 0 [Some (l + 4)] = Some b1"
    "(b, n) = (b1, 1) \<and> 1 + uint l + 4 > uint mtu - 1 \<or> (\<exists>svc st en b2. get_svc (fst p) (sdb s1) = Some svc \<and> gatt_db_service_get_handles svc = (st, en)
        \<and> buf_put b1 1 (opt_entry (st, en, take (unat l) v)) = Some b2 \<and> encode_read_by_grp_type_rsp mtu q (1 + unat l + 4) l b2 s1 = Some (Some (b, n), s'))"
    by (rule encode_round) (auto simp del: of_nat_less_iff)
  note f = first_length [OF assms(2) r(2)]
  obtain svc st en b2 where g: "get_svc (fst p) (sdb s1) = Some svc" "gatt_db_service_get_handles svc = (st, en)"
    "buf_put b1 1 (opt_entry (st, en, take (unat l) v)) = Some b2" "encode_read_by_grp_type_rsp mtu q (1 + unat l + 4) l b2 s1 = Some (Some (b, n), s')"
    using r(4) f(3) by auto
  let ?e = "(st, en, take (unat l) v)"
  have b1: "take 1 b1 = [Some (l + 4)]" "length b1 = unat mtu" "1 \<le> length b1" using put_prefix [OF r(3)] assms(2) by auto
  have k: "take (1 + length (opt_entry ?e)) b2 = take 1 b1 @ opt_entry ?e" "length b2 = length b1" "1 + length (opt_entry ?e) \<le> length b1"
    by (rule put_prefix [OF g(3) b1(3)])+
  have w: "1 + unat l + 4 = 1 + length (opt_entry ?e)" using f(1) by simp
  have sv: "services (sdb s1) = services (sdb s)" by (rule read_now_services [OF r(1)])
  then have ab: "about_service (sdb s1) = about_service (sdb s)" by (intro ext) (simp add: about_service_def get_svc_def split: prod.splits)
  obtain es where es: "take n b = take (1 + unat l + 4) b2 @ concat (map opt_entry es)" "\<forall>e \<in> set es. length (opt_entry e) = unat l + 4" "length es \<le> length q"
    "list_all2 (about_service (sdb s1)) (take (length es) q) es" using encode_rounds [OF g(4)] k(2,3) w by auto
  have "about_service (sdb s) p ?e" using g(1,2) sv by (simp add: about_service_def get_svc_def)
  then show ?thesis using es k(1) b1(1) f(1,2) unfolding ab w by (intro exI [of _ l] exI [of _ "?e # es"]) simp
qed

text \<open>
  C38. The client understands the server. The response our server gives to a Read By Group Type request consists of a length and of entries of that length, at least one,
  for the first services the database finds in the range, in order, each with the handles of its service. A client that stores the response as a
  result takes from its iterator exactly these entries, all of them and in order, with their handles and UUIDs.
\<close>

theorem client_understands_server:
  assumes "read_by_grp_type_cb rq opc req s = Some s'" and "srv_log s' = srv_log s @ [Send_rsp rq 0x11 (map Some p)]" and "23 \<le> unat (att_mtu s)"
    and "get_uuid_le (drop 4 req) = Some type" and "gatt_db_read_by_group_type (get_le16 req) (get_le16 (drop 2 req)) type (sdb s) = Some ps" and "gq_results q = []"
  shows "\<exists>es. es \<noteq> [] \<and> p = p ! 0 # concat (map svc_entry es) \<and> (\<forall>e \<in> set es. length (svc_entry e) = unat (p ! 0))
    \<and> length es \<le> length ps \<and> list_all2 (about_service (sdb s)) (take (length es) ps) es
    \<and> (let rs = gq_results (result_append 0x11 (drop 1 p) (unat (p ! 0)) q)
       in take_services (bt_gatt_result_service_count rs) q (bt_gatt_iter_init rs) = Some (map decoded es))"
proof -
  obtain b n s1 where e: "encode_read_by_grp_type_rsp (att_mtu s) ps 0 0 (replicate (unat (att_mtu s)) None) s = Some (Some (b, n), s1)" "take n b = map Some p" "ps \<noteq> []"
    using assms(1,2,4,5) unfolding read_by_grp_type_cb_def Let_def
    by (auto simp: srv_say_def split: bind_splits if_splits option.splits)
  obtain x xs where ps: "ps = x # xs" using e(3) by (cases ps) auto
  obtain l es where f: "es \<noteq> []" "map Some p = Some (l + 4) # concat (map opt_entry es)" "unat l \<le> 251" "\<forall>y \<in> set es. length (opt_entry y) = unat l + 4"
    "length es \<le> length ps" "list_all2 (about_service (sdb s)) (take (length es) ps) es" using encode_first [OF e(1) [unfolded ps] assms(3)] e(2) ps by auto
  define c where "c = (\<lambda>(st :: u16, en :: u16, v :: byte option list). (st, en, map the v))"
  let ?es = "map c es" and ?k = "unat l + 4"
  have "p = map the (Some (l + 4) # concat (map opt_entry es))" unfolding f(2) [symmetric] by simp
  also have "\<dots> = (l + 4) # concat (map (map the \<circ> opt_entry) es)" by (simp add: map_concat)
  also have "map the \<circ> opt_entry = svc_entry \<circ> c" by (auto simp: opt_entry_def svc_entry_def c_def)
  finally have p: "p = (l + 4) # concat (map svc_entry ?es)" by (simp only: map_map)
  have h: "unat (p ! 0) = ?k" using f(3) by (simp add: p unat_word_ariths)
  have "length (svc_entry (c y)) = length (opt_entry y)" for y by (cases y) (simp add: c_def svc_entry_def)
  then have ok: "entries_ok (?k, ?es)" using f(1,4) by (auto simp: entries_ok_def)
  have r: "gq_results (result_append 0x11 (drop 1 p) (unat (p ! 0)) q) = map svc_result [(?k, ?es)]" unfolding h by (simp add: result_append_def assms(6) p svc_result_def)
  have "take_services (bt_gatt_result_service_count (map svc_result [(?k, ?es)])) q (bt_gatt_iter_init (map svc_result [(?k, ?es)])) = Some (map decoded ?es)"
    using iterator_takes_all [of "[(?k, ?es)]" q, THEN conjunct1] ok by simp
  moreover have "list_all2 (about_service (sdb s)) (take (length ?es) ps) ?es" using f(6) by (auto simp: list_all2_conv_all_nth about_service_def c_def split: prod.splits)
  moreover have "p = p ! 0 # concat (map svc_entry ?es)" by (subst (1 2) p) simp
  moreover have "\<forall>e \<in> set ?es. length (svc_entry e) = unat (p ! 0)" using ok unfolding h by (simp add: entries_ok_def)
  ultimately show ?thesis using f(1,5) unfolding r Let_def by (intro exI [of _ ?es]) simp
qed

theorem client_understands_server_witness:
  "\<exists>es. es \<noteq> [] \<and> [6, 1, 0, 6, 0, 0, 0x18] = 6 # concat (map svc_entry es) \<and> (\<forall>e \<in> set es. length (svc_entry e) = 6)
    \<and> length es \<le> 1 \<and> list_all2 (about_service (sdb demo_server)) (take (length es) [(0, 0)]) es
    \<and> (let rs = gq_results (result_append 0x11 [1, 0, 6, 0, 0, 0x18] 6 (new_request 1 0xFFFF BT_UUID_UNSPEC GATT_PRIM_SVC_UUID))
       in take_services (bt_gatt_result_service_count rs) (new_request 1 0xFFFF BT_UUID_UNSPEC GATT_PRIM_SVC_UUID) (bt_gatt_iter_init rs) = Some (map decoded es))"
proof -
  let ?req = "[1, 0, 255, 255, 0, 0x28] :: byte list" and ?p = "[6, 1, 0, 6, 0, 0, 0x18] :: byte list"
  have "map_option srv_log (read_by_grp_type_cb 0 0x10 ?req demo_server) = Some (srv_log demo_server @ [Send_rsp 0 0x11 (map Some ?p)])" by code_simp
  then obtain s' where s': "read_by_grp_type_cb 0 0x10 ?req demo_server = Some s'" "srv_log s' = srv_log demo_server @ [Send_rsp 0 0x11 (map Some ?p)]" by auto
  have m: "23 \<le> unat (att_mtu demo_server)" by code_simp
  have t: "get_uuid_le (drop 4 ?req) = Some (BT_UUID16 0x2800)" by code_simp
  have g: "gatt_db_read_by_group_type (get_le16 ?req) (get_le16 (drop 2 ?req)) (BT_UUID16 0x2800) (sdb demo_server) = Some [(0, 0)]" by code_simp
  have "gq_results (new_request 1 0xFFFF BT_UUID_UNSPEC GATT_PRIM_SVC_UUID) = []" by (simp add: new_request_def)
  from client_understands_server [OF s' m t g this] show ?thesis by simp
qed

end
