(* ===== verification/Spec2Isabelle.thy ===== *)
theory Spec2Isabelle
  imports Crc32 Kermit_Transfer Kermit_Session Kermit_Invariant Ble_Central Bt_Queue Mainloop Att_Protocol Gatt_Db_Correct Gatt_Server_Correct Gatt_Helpers_Correct
begin

text \<open>
  A verification development of the file-transfer server of the SLATE 106 display,
  \<^verbatim>\<open>src/raspberry_pi-bluez_server_file_transfer\<close>. The paths below are relative to that directory.

  \<^bold>\<open>The program.\<close> \<^verbatim>\<open>main\<close> (\<^verbatim>\<open>src/main.c\<close>) scans for the display whose address was given, connects to it, opens the
  ATT socket, finds the services and writes three characteristics; the first byte on the MLDP
  characteristic then starts a thread (\<^verbatim>\<open>src/file_transfer_task.c\<close>) that serves files. The thread calls the library
  \<^verbatim>\<open>src/libfile_transfer\<close>, which drives E-Kermit (\<^verbatim>\<open>src/libe_kermit/kermit.c\<close>) through \<^verbatim>\<open>libe-kermit.c\<close> and the
  device functions of \<^verbatim>\<open>unixio_rpi.c\<close>. Bytes travel between the engine and Bluetooth through two FIFOs (\<^verbatim>\<open>src/fifo.c\<close>);
  directory listings carry the CRC-32 of \<^verbatim>\<open>src/libcrc32\<close>. Events reach the program through the loop of \<^verbatim>\<open>src/mainloop.c\<close>
  and the vendored ATT layer of BlueZ, \<^verbatim>\<open>bluez_deps/src/shared/att.c\<close>, on the queues of \<^verbatim>\<open>queue.c\<close>.

  \<^bold>\<open>How code is modelled.\<close> Structures are records, enumerations datatypes, machine integers words or integers with
  the wrap-around written out, and buffers byte lists with checked accesses. A function that can touch memory
  returns an option, and \<^term>\<open>None\<close> means undefined behaviour: an access outside its object, a use of freed or
  uninitialised memory, or a loop that does not end. A theorem that a call gives \<^verbatim>\<open>Some\<close> thus says that it returns
  and that it is safe. Loops with no evident bound are \<^verbatim>\<open>partial_function (option)\<close>; no definition has fuel. Results of
  the operating system and of the BlueZ code that is not modelled are arguments or events. Two facts about the platform are fields of the state: the largest \<^verbatim>\<open>long\<close>, and
  whether there is a byte of padding behind the array \<^verbatim>\<open>cmd\<close> of \<^verbatim>\<open>kreadpkt\<close>, without which reading a packet is undefined.

  \<^bold>\<open>Theories, and what their lemmas show.\<close>
  \<^item> \<^verbatim>\<open>Prelude\<close>: types, checked arrays, C strings. \<^verbatim>\<open>Simulation\<close>: a locale that carries the refinement of one call to every sequence of calls; \<^verbatim>\<open>Bt_Queue\<close> and \<^verbatim>\<open>Mainloop\<close> interpret it.
  \<^item> \<^verbatim>\<open>Fifo\<close> (\<^verbatim>\<open>src/fifo.c\<close>): writing appends what fits, reading returns it in order; \<^verbatim>\<open>fifo_get\<close> on a full FIFO reads one byte too far.
  \<^item> \<^verbatim>\<open>Crc32\<close> (\<^verbatim>\<open>src/libcrc32/libcrc32_file.c\<close>): the table routine is the bitwise CRC-32, and the loop over a file computes it for every file below 2 GiB; larger ones are reported as missing where their size does not fit into a \<^verbatim>\<open>long\<close>.
  \<^item> \<^verbatim>\<open>Kermit_Base\<close>, \<^verbatim>\<open>Kermit_Mem\<close> (\<^verbatim>\<open>kermit.h\<close>): the control structure, its store and the device functions as a record of operations.
  \<^item> \<^verbatim>\<open>Kermit_Check\<close>: the block checks; the two tables of \<^verbatim>\<open>chk3\<close> give the CRC-CCITT, which detects every change of one byte.
  \<^item> \<^verbatim>\<open>Kermit_Packet\<close>, \<^verbatim>\<open>Kermit_Codec\<close>, \<^verbatim>\<open>Kermit_Attr\<close>, \<^verbatim>\<open>Kermit_Recv\<close>, \<^verbatim>\<open>Kermit_Machine\<close>: \<^verbatim>\<open>kermit()\<close> with every function code and state: window slots, \<^verbatim>\<open>spkt\<close>, \<^verbatim>\<open>encode\<close>, \<^verbatim>\<open>getpkt\<close>, \<^verbatim>\<open>decode\<close>, attributes, the receive window, negotiation and the state machine.
  \<^item> \<^verbatim>\<open>Kermit_Lossless\<close>, \<^verbatim>\<open>Kermit_Source\<close>, \<^verbatim>\<open>Kermit_Getpkt\<close>, \<^verbatim>\<open>Kermit_Transfer\<close>: the format of data fields as a relation, the encoder as its refinement, and the round trip of a whole file through \<^verbatim>\<open>getpkt\<close> and \<^verbatim>\<open>decode\<close>.
  \<^item> \<^verbatim>\<open>Unixio\<close>, \<^verbatim>\<open>Kermit_Link\<close>, \<^verbatim>\<open>Kermit_Framing\<close>: the device of the Raspberry Pi over a store of files and a byte link; a packet built by \<^verbatim>\<open>spkt\<close> is found behind noise and accepted by the receiver.
  \<^item> \<^verbatim>\<open>Libekermit\<close>, \<^verbatim>\<open>File_Transfer\<close>, \<^verbatim>\<open>Kermit_Session\<close>, \<^verbatim>\<open>Kermit_Invariant\<close>: \<^verbatim>\<open>libe-kermit.c\<close>, \<^verbatim>\<open>libfile_transfer.c\<close> and the server thread; their open/closed contract and its refinement, what a reset forgets, what happens on a silent link, and the type invariant of the engine after every sequence of calls, whatever arrives.
  \<^item> \<^verbatim>\<open>Ble_Link\<close>, \<^verbatim>\<open>Ble_Scan\<close>, \<^verbatim>\<open>Ble_Central\<close> (\<^verbatim>\<open>src/main.c\<close>): sending in packets through the FIFO, the parsers of advertising data and the scan, and the connection as a step relation with invariants over its history. \<^verbatim>\<open>Bd_Addr\<close> (\<^verbatim>\<open>bluez_deps/lib/bluetooth.c\<close>) and \<^verbatim>\<open>Bt_Uuid\<close> (\<^verbatim>\<open>uuid.c\<close>): addresses and UUIDs and their text forms.
  \<^item> \<^verbatim>\<open>Mainloop\<close> (\<^verbatim>\<open>src/mainloop.c\<close>): the tables of descriptors and timers implement an abstract registry; when a batch of events is safe, and when it uses a freed structure; what is left when the loop ends.
  \<^item> \<^verbatim>\<open>Bt_Queue\<close> (\<^verbatim>\<open>bluez_deps/src/shared/queue.c\<close>): linked cells in a store implement lists, with a frame for every cell of others; destruction by the callback of an iteration.
  \<^item> \<^verbatim>\<open>Att\<close>, \<^verbatim>\<open>Att_Invariant\<close>, \<^verbatim>\<open>Att_Protocol\<close> (\<^verbatim>\<open>bluez_deps/src/shared/att.c\<close>): the operations and handlers of the ATT layer with callbacks that call back into it; the accounting of operations as an invariant of every run; where answers and incoming operations go, for callbacks that make calls of their own.
  \<^item> \<^verbatim>\<open>Gatt_Db\<close>, \<^verbatim>\<open>Gatt_Db_Invariant\<close>, \<^verbatim>\<open>Gatt_Db_Correct\<close> (\<^verbatim>\<open>bluez_deps/src/shared/gatt-db.c\<close>): the database of services, attributes, observers and pending requests. Every request is answered once or still pending, whatever the callbacks do; a service is found at the handles it was inserted with; declarations and stored values read back as written; the cases that fail: a range inside another service, handle 0 after a clear, the gap a write at an offset leaves.
  \<^item> \<^verbatim>\<open>Gatt_Server\<close>, \<^verbatim>\<open>Gatt_Server_Invariant\<close>, \<^verbatim>\<open>Gatt_Server_Correct\<close> (\<^verbatim>\<open>bluez_deps/src/shared/gatt-server.c\<close>): the handlers of the server over that database, with their completion callbacks. Every request is answered once or its completion is pending in the database, and what is sent fits the MTU, for every client and application; a long write stores what one write would; attributes without write permission are not written; the cases that fail: lengths that wrap in long writes and in reads of several values, permissions that no handler checks, a server freed with a read pending.
  \<^item> \<^verbatim>\<open>Gatt_Helpers\<close>, \<^verbatim>\<open>Gatt_Helpers_Correct\<close> (\<^verbatim>\<open>bluez_deps/src/shared/gatt-helpers.c\<close>): discovery by a client, its requests with their reference counts, and the iterators over what a peer answered. Discovering services ends whatever the peer answers; the iterator returns the services of the responses, and those are the services of our server when it answers; discovering descriptors can be kept going for ever, and a read by type divides by a number of the peer.

  \<^bold>\<open>Interfaces.\<close> The engine sees its device as the record \<^verbatim>\<open>k_ops\<close>; the laws its lemmas need of the input file and of the
  link are locales, interpreted on the functions of \<^verbatim>\<open>Unixio\<close> and \<^verbatim>\<open>Ble_Link\<close>. The ATT layer takes its queues to be lists,
  which is what \<^verbatim>\<open>Bt_Queue\<close> proves of \<^verbatim>\<open>queue.c\<close>; the database and the server do the same. The server calls the operations of \<^verbatim>\<open>Gatt_Db\<close> directly, and its proofs rest on their invariant. Callbacks in \<^verbatim>\<open>Mainloop\<close> and \<^verbatim>\<open>Att\<close> are scripts: functions that say which calls of the
  interface a callback makes in a state, so theorems quantify over every client.

  \<^bold>\<open>Not modelled.\<close> The GATT client of BlueZ (\<^verbatim>\<open>gatt-client.c\<close>), whose callbacks are events of the connection;
  \<^verbatim>\<open>crypto.c\<close>, a wrapper of kernel sockets that appears as a parameter of \<^verbatim>\<open>Att\<close>; \<^verbatim>\<open>util.c\<close>, the tables of company names in \<^verbatim>\<open>bluetooth.c\<close>,
  \<^verbatim>\<open>oui.c\<close> and the notification of the service manager, which only print or talk to the system; several ATT channels, which the
  program never opens; the second engine of \<^verbatim>\<open>libe-kermit.c\<close> and the DMA variant of the CRC, which this build does not use.
\<close>

theorem engine_invariant_witness:
  "\<exists>g'. ft_exec (unixio_ops (kermit_handler demo_write)) (kreadpkt (kermit_handler demo_write) (Ptr IPKTBUF 0))
      (Init ft_mode_server (lit ''img/'') True) quiet_ft = Some (FT_SUCCESS, g') \<and> engine_ok (engine g')"
proof -
  let ?o = "unixio_ops (kermit_handler demo_write)" and ?r = "kreadpkt (kermit_handler demo_write) (Ptr IPKTBUF 0)"
  obtain g' where exec: "ft_exec ?o ?r (Init ft_mode_server (lit ''img/'') True) quiet_ft = Some (FT_SUCCESS, g')"
    using quiet_ft_init by auto
  then have opened: "initialised g'"
    using quiet_ft_facts(1) by (auto simp: FT_init_def lit_def bind_eq_Some_conv)
  from exec have run: "ft_run ?o ?r quiet_ft ([] @ [(Init ft_mode_server (lit ''img/'') True, FT_SUCCESS)]) g'"
    by (intro ft_run_call [OF ft_run_none])
  show ?thesis
    by (rule exI, rule conjI, rule exec, rule engine_invariant [OF run quiet_ft_facts(1) opened])
qed

end
